(* ===== verification/Vaio_Prelude.thy ===== *)
theory Vaio_Prelude
  imports Main "HOL-Library.Word" "HOL-Library.While_Combinator" "HOL-Library.Monad_Syntax"
begin

unbundle bit_operations_syntax

text \<open>
  What the components share: the \<open>status_t\<close> codes the sources return, the C integer
  conversions (unsigned values are naturals reduced modulo \<open>2 ^ w\<close>, signed values are integers
  folded by the signed truncation), bit strings (most significant bit first) with the number
  they denote, and list lemmas on windows of a buffer.
\<close>

named_theorems bits_simps \<open>evaluation of bit strings\<close>

section \<open>Status codes\<close>

datatype status_t =
    B_OK | B_ERROR | B_BAD_VALUE | B_BAD_DATA | B_NO_MEMORY | B_ENTRY_NOT_FOUND
  | B_TIMED_OUT | B_TIMEOUT | B_UNSUPPORTED | B_NOT_SUPPORTED | B_NOT_ALLOWED
  | B_DEV_NOT_READY | B_IO_ERROR | B_NO_INIT | B_BUSY | E2BIG | ENODEV

section \<open>C integer conversions\<close>

definition u32 :: "nat \<Rightarrow> nat" where
  "u32 x = x mod 2 ^ 32"

definition u16 :: "nat \<Rightarrow> nat" where
  "u16 x = x mod 2 ^ 16"

definition u8 :: "nat \<Rightarrow> nat" where
  "u8 x = x mod 2 ^ 8"

definition s16 :: "int \<Rightarrow> int" where
  "s16 x = signed_take_bit 15 x"

definition s32 :: "int \<Rightarrow> int" where
  "s32 x = signed_take_bit 31 x"

lemma u32_less [simp]: "u32 x < 2 ^ 32"
  by (simp add: u32_def)

lemma u32_less_numeral [simp]: "u32 x < 4294967296"
  using u32_less [of x] by simp

lemma u32_mult_add: "u32 (u32 a * b + c) = u32 (a * b + c)"
  unfolding u32_def by (metis mod_add_left_eq mod_mult_left_eq)

lemma u16_less [simp]: "u16 x < 2 ^ 16"
  by (simp add: u16_def)

lemma u8_less [simp]: "u8 x < 2 ^ 8"
  by (simp add: u8_def)

lemma u32_id [simp]: "x < 2 ^ 32 \<Longrightarrow> u32 x = x"
  by (simp add: u32_def)

text \<open>Subtraction of two \<open>uint32\<close>.\<close>

definition minus32 :: "nat \<Rightarrow> nat \<Rightarrow> nat" where
  "minus32 a b = u32 (a + (2 ^ 32 - b))"

lemma minus32_diff: "b \<le> a \<Longrightarrow> a < 2 ^ 32 \<Longrightarrow> minus32 a b = a - b"
proof -
  assume "b \<le> a" "a < 2 ^ 32"
  then have "a + (2 ^ 32 - b) = (a - b) + 2 ^ 32" "a - b < 2 ^ 32" by linarith+
  then show ?thesis by (simp add: minus32_def u32_def)
qed

lemma u16_id: "x < 2 ^ 16 \<Longrightarrow> u16 x = x"
  by (simp add: u16_def)

lemma u8_id: "x < 2 ^ 8 \<Longrightarrow> u8 x = x"
  by (simp add: u8_def)

lemma s32_id: "- (2 ^ 31) \<le> x \<Longrightarrow> x < 2 ^ 31 \<Longrightarrow> s32 x = x"
  by (simp add: s32_def signed_take_bit_int_eq_self)

lemma s32_range: "- (2 ^ 31) \<le> s32 x \<and> s32 x < 2 ^ 31"
  unfolding s32_def using signed_take_bit_int_greater_eq_minus_exp [of 31 x]
    signed_take_bit_int_less_exp [of 31 x] by simp

lemma s16_range: "- 32768 \<le> s16 x \<and> s16 x < 32768"
  using signed_take_bit_int_greater_eq_minus_exp [of 15 x] signed_take_bit_int_less_exp [of 15 x]
  by (simp add: s16_def)

lemma s16_id: "- 32768 \<le> x \<Longrightarrow> x < 32768 \<Longrightarrow> s16 x = x"
  by (simp add: s16_def signed_take_bit_int_eq_self)

lemma s16_parity [simp]: "even (s16 x) \<longleftrightarrow> even x"
  by (simp add: s16_def even_signed_take_bit_iff)

lemma s16_0 [simp]: "s16 0 = 0"
  by (simp add: s16_def)

section \<open>Bit strings\<close>

text \<open>\<open>to_bits w v\<close> is the \<open>w\<close>-bit string of \<open>v\<close>, most significant bit first, and
  \<open>bits_val\<close> the number of a bit string.\<close>

definition to_bits :: "nat \<Rightarrow> nat \<Rightarrow> bool list" where
  "to_bits w v = map (\<lambda>i. bit v (w - Suc i)) [0..<w]"

definition bits_val :: "bool list \<Rightarrow> nat" where
  "bits_val xs = foldl (\<lambda>a b. 2 * a + of_bool b) 0 xs"

lemma length_to_bits [simp]: "length (to_bits w v) = w"
  by (simp add: to_bits_def)

lemma bits_val_Nil [simp]: "bits_val [] = 0"
  by (simp add: bits_val_def)

lemma bits_val_snoc [simp]: "bits_val (xs @ [b]) = 2 * bits_val xs + of_bool b"
  by (simp add: bits_val_def)

lemma bits_val_append: "bits_val (xs @ ys) = bits_val xs * 2 ^ length ys + bits_val ys"
proof (induction ys rule: rev_induct)
  case Nil
  then show ?case by simp
next
  case (snoc y ys)
  have "bits_val (xs @ ys @ [y]) = 2 * bits_val (xs @ ys) + of_bool y"
    by (simp flip: append_assoc)
  with snoc show ?case by simp
qed

lemma bits_val_Cons: "bits_val (b # xs) = of_bool b * 2 ^ length xs + bits_val xs"
  using bits_val_append [of "[b]" xs] by (simp add: bits_val_def)

lemma bits_val_less: "bits_val xs < 2 ^ length xs"
  by (induction xs) (auto simp: bits_val_Cons)

lemma bits_val_less_pow: "length xs \<le> n \<Longrightarrow> bits_val xs < 2 ^ n"
  using bits_val_less [of xs] by (meson less_le_trans one_le_numeral power_increasing)

lemma bits_val_take_div:
  assumes "length xs = m" and "k \<le> m"
  shows "bits_val xs div 2 ^ (m - k) = bits_val (take k xs)"
proof -
  have "bits_val xs = bits_val (take k xs) * 2 ^ (m - k) + bits_val (drop k xs)"
    using bits_val_append [of "take k xs" "drop k xs"] assms by simp
  moreover have "bits_val (drop k xs) < 2 ^ (m - k)"
    using bits_val_less [of "drop k xs"] assms by simp
  ultimately show ?thesis by simp
qed

lemma bits_val_inj: "length xs = length ys \<Longrightarrow> bits_val xs = bits_val ys \<Longrightarrow> xs = ys"
proof (induction xs ys rule: list_induct2)
  case Nil
  then show ?case by simp
next
  case (Cons x xs y ys)
  have "x = y"
  proof (rule ccontr)
    assume "x \<noteq> y"
    with Cons.prems Cons.hyps bits_val_less [of xs] bits_val_less [of ys] show False
      by (cases x; cases y) (auto simp: bits_val_Cons)
  qed
  with Cons show ?case by (auto simp: bits_val_Cons)
qed

lemma to_bits_Suc: "to_bits (Suc w) v = to_bits w (v div 2) @ [odd v]"
  by (rule nth_equalityI)
    (auto simp: to_bits_def nth_append less_Suc_eq bit_0 bit_Suc Suc_diff_Suc simp flip: bit_Suc)

lemma to_bits_step: "to_bits (Suc w) v = bit v w # to_bits w v"
  by (simp add: to_bits_def upt_conv_Cons map_Suc_upt [symmetric] del: upt_Suc)

lemma to_bits_0 [bits_simps]: "to_bits 0 v = []"
  by (simp add: to_bits_def)

lemma to_bits_numeral [bits_simps]: "to_bits (numeral n) v = bit v (pred_numeral n) # to_bits (pred_numeral n) v"
  by (simp add: numeral_eq_Suc to_bits_step)

lemma bits_val_to_bits [simp]: "bits_val (to_bits w v) = v mod 2 ^ w"
proof (induction w arbitrary: v)
  case 0
  then show ?case by (simp add: to_bits_def)
next
  case (Suc w)
  have "bits_val (to_bits (Suc w) v) = 2 * (v div 2 mod 2 ^ w) + of_bool (odd v)"
    by (simp add: to_bits_Suc Suc.IH)
  also have "\<dots> = v mod 2 ^ Suc w"
    by (simp add: mod_mult2_eq of_bool_odd_eq_mod_2 ac_simps)
  finally show ?case .
qed

lemma take_drop_to_bits:
  assumes "p + k \<le> w"
  shows "take k (drop p (to_bits w v)) = to_bits k (drop_bit (w - p - k) v)"
  by (rule nth_equalityI) (use assms in \<open>auto simp: to_bits_def bit_drop_bit_eq ac_simps\<close>)

lemma or_add_disjoint: "c < 2 ^ k \<Longrightarrow> push_bit k v OR c = push_bit k v + (c::nat)"
  by (metis bit_push_bit_iff bit_take_bit_iff disjunctive_add not_le take_bit_nat_eq_self)

lemma and_ones: "(x::nat) AND (2 ^ k - 1) = x mod 2 ^ k"
proof -
  have "x AND (2 ^ k - 1) = take_bit k x"
    by (simp only: take_bit_eq_mask mask_eq_exp_minus_1)
  then show ?thesis by (simp only: take_bit_eq_mod)
qed

section \<open>Loops\<close>

lemma while_option_stop_now: "\<not> b s \<Longrightarrow> while_option b c s = Some s"
  by (subst while_option_unfold) simp

lemma while_option_turn: "b s \<Longrightarrow> while_option b c s = while_option b c (c s)"
  by (subst while_option_unfold) simp

section \<open>Sinks of dwords\<close>

text \<open>What the command emitters need of the thing they write to: \<open>put\<close> appends to the contents while
  there is room. A bounded sink drops what does not fit.\<close>

locale dword_sink =
  fixes put :: "'d \<Rightarrow> 's \<Rightarrow> 's" and contents :: "'s \<Rightarrow> 'd list" and room :: "'s \<Rightarrow> nat"
    and inv :: "'s \<Rightarrow> bool"
  assumes put_inv: "inv s \<Longrightarrow> 0 < room s \<Longrightarrow> inv (put d s)"
    and put_contents: "inv s \<Longrightarrow> 0 < room s \<Longrightarrow> contents (put d s) = contents s @ [d]"
    and put_room: "inv s \<Longrightarrow> 0 < room s \<Longrightarrow> room (put d s) = room s - 1"
begin

lemma puts:
  "inv s \<Longrightarrow> length ds \<le> room s \<Longrightarrow>
     contents (fold put ds s) = contents s @ ds \<and> room (fold put ds s) = room s - length ds \<and> inv (fold put ds s)"
  by (induction ds arbitrary: s) (simp_all add: put_inv put_contents put_room)

end

locale bounded_sink = dword_sink +
  assumes full: "inv s \<Longrightarrow> room s = 0 \<Longrightarrow> contents (put d s) = contents s \<and> room (put d s) = 0 \<and> inv (put d s)"
begin

lemma puts_full: "inv s \<Longrightarrow> room s = 0 \<Longrightarrow>
    contents (fold put ds s) = contents s \<and> room (fold put ds s) = 0 \<and> inv (fold put ds s)"
  by (induction ds arbitrary: s) (simp_all add: full)

lemma puts_bounded:
  assumes "inv s"
  shows "contents (fold put ds s) = contents s @ take (room s) ds \<and> room (fold put ds s) = room s - length ds
    \<and> inv (fold put ds s)"
proof (cases "length ds \<le> room s")
  case True
  then show ?thesis using puts [OF assms] by simp
next
  case False
  let ?a = "take (room s) ds" and ?b = "drop (room s) ds"
  have "contents (fold put ?a s) = contents s @ ?a \<and> room (fold put ?a s) = 0 \<and> inv (fold put ?a s)"
    using puts [OF assms, of ?a] False by simp
  moreover have "fold put ds s = fold put ?b (fold put ?a s)"
    by (metis append_take_drop_id fold_append o_apply)
  ultimately show ?thesis using puts_full [of "fold put ?a s" ?b] False by simp
qed

end

section \<open>Windows of a buffer\<close>

definition overwrite :: "nat \<Rightarrow> 'a list \<Rightarrow> 'a list \<Rightarrow> 'a list" where
  "overwrite p ds b = take p b @ ds @ drop (p + length ds) b"

lemma overwrite_Nil [simp]: "overwrite p [] b = b"
  by (simp add: overwrite_def)

lemma length_overwrite [simp]: "p + length ds \<le> length b \<Longrightarrow> length (overwrite p ds b) = length b"
  by (simp add: overwrite_def)

lemma nth_overwrite_inside: "p + length ds \<le> length b \<Longrightarrow> i < length ds \<Longrightarrow> overwrite p ds b ! (p + i) = ds ! i"
  by (simp add: overwrite_def nth_append)

lemma nth_overwrite_outside:
  "p + length ds \<le> length b \<Longrightarrow> i < p \<or> p + length ds \<le> i \<Longrightarrow> i < length b \<Longrightarrow> overwrite p ds b ! i = b ! i"
  by (auto simp: overwrite_def nth_append)

lemma overwrite_Cons:
  "p < length b \<Longrightarrow> overwrite (Suc p) ds (b[p := d]) = overwrite p (d # ds) b"
  by (simp add: overwrite_def take_Suc_conv_app_nth)

lemma overwrite_append:
  "p + length xs + length ys \<le> length b \<Longrightarrow>
     overwrite (p + length xs) ys (overwrite p xs b) = overwrite p (xs @ ys) b"
  by (simp add: overwrite_def ac_simps)

lemma drop_concat_blocks:
  assumes "\<forall>x\<in>set xs. length (f x) = m" and "i < length xs" and "j \<le> m"
  shows "drop (m * i + j) (concat (map f xs)) = drop j (f (xs ! i)) @ concat (map f (drop (Suc i) xs))"
  using assms
proof (induction i arbitrary: xs)
  case 0
  then show ?case by (cases xs) auto
next
  case (Suc i)
  then show ?case by (cases xs) (auto simp: add.assoc)
qed

lemma length_concat_blocks: "\<forall>x\<in>set xs. length (f x) = m \<Longrightarrow> length (concat (map f xs)) = m * length xs"
  by (induction xs) auto

end
