(* ===== verification/Mpeg2_Bits.thy ===== *)
theory Mpeg2_Bits
  imports Vaio_Prelude
begin

text \<open>
  The bitstream reader of \<open>src/intel_extreme/accelerant/mpeg2_parser.cpp\<close>: its state, the
  reading, peeking, skipping and aligning operations, and their refinement to the string of the
  bits that are still unread. The laws the decoders rely on are the locale \<open>bit_reader\<close>,
  interpreted at the end on the operations of the source.
\<close>

section \<open>The reader\<close>

record mpeg2_bits =
  bs_data :: "8 word list"
  bs_size :: nat
  byte_pos :: nat
  bit_pos :: nat

definition mpeg2_bits_init :: "8 word list \<Rightarrow> nat \<Rightarrow> mpeg2_bits" where
  "mpeg2_bits_init data len =
     \<lparr>bs_data = data, bs_size = len, byte_pos = 0, bit_pos = 0\<rparr>"

text \<open>The loop of \<open>mpeg2_bits_read\<close>, with \<open>n\<close> and \<open>value\<close> as its locals.\<close>

function mpeg2_bits_read_loop :: "mpeg2_bits \<Rightarrow> nat \<Rightarrow> nat \<Rightarrow> nat \<times> mpeg2_bits" where
  "mpeg2_bits_read_loop bs n value =
     (if n = 0 then (value, bs)
      else if byte_pos bs \<ge> bs_size bs then (value, bs)
      else
        let bits_left = 8 - bit_pos bs;
            bits_to_read = (if n < bits_left then n else bits_left);
            mask = 2 ^ bits_to_read - 1;
            shift = bits_left - bits_to_read;
            value' = u32 (push_bit bits_to_read value)
                       OR (drop_bit shift (unat (bs_data bs ! byte_pos bs)) AND mask);
            bs' = bs\<lparr>bit_pos := bit_pos bs + bits_to_read\<rparr>;
            bs'' = (if bit_pos bs' \<ge> 8
                    then bs'\<lparr>bit_pos := 0, byte_pos := u32 (byte_pos bs' + 1)\<rparr> else bs')
        in mpeg2_bits_read_loop bs'' (n - bits_to_read) value')"
  by pat_completeness auto
termination
  by (relation "measures [\<lambda>(bs, n, value). n, \<lambda>(bs, n, value). bit_pos bs]") auto

declare mpeg2_bits_read_loop.simps [simp del]

text \<open>What one turn does to the position.\<close>

definition advance_bits :: "mpeg2_bits \<Rightarrow> nat \<Rightarrow> mpeg2_bits" where
  "advance_bits bs k =
     (if bit_pos bs + k \<ge> 8
      then bs\<lparr>bit_pos := 0, byte_pos := u32 (byte_pos bs + 1)\<rparr>
      else bs\<lparr>bit_pos := bit_pos bs + k\<rparr>)"

lemma read_loop_stop:
  "n = 0 \<or> bs_size bs \<le> byte_pos bs \<Longrightarrow> mpeg2_bits_read_loop bs n v = (v, bs)"
  by (subst mpeg2_bits_read_loop.simps) auto

lemma read_loop_step:
  assumes "0 < n" and "byte_pos bs < bs_size bs"
    and "k = (if n < 8 - bit_pos bs then n else 8 - bit_pos bs)"
  shows "mpeg2_bits_read_loop bs n v =
     mpeg2_bits_read_loop (advance_bits bs k) (n - k)
       (u32 (push_bit k v) OR
         (drop_bit (8 - bit_pos bs - k) (unat (bs_data bs ! byte_pos bs)) AND (2 ^ k - 1)))"
  by (subst mpeg2_bits_read_loop.simps) (use assms in \<open>auto simp: Let_def advance_bits_def\<close>)

definition mpeg2_bits_read :: "mpeg2_bits \<Rightarrow> nat \<Rightarrow> nat \<times> mpeg2_bits" where
  "mpeg2_bits_read bs n = mpeg2_bits_read_loop bs n 0"

definition mpeg2_bits_peek :: "mpeg2_bits \<Rightarrow> nat \<Rightarrow> nat" where
  "mpeg2_bits_peek bs n = fst (mpeg2_bits_read bs n)"

definition mpeg2_bits_skip :: "mpeg2_bits \<Rightarrow> nat \<Rightarrow> mpeg2_bits" where
  "mpeg2_bits_skip bs n =
     (let total_bits = u32 (bit_pos bs + n)
      in bs\<lparr>byte_pos := u32 (byte_pos bs + total_bits div 8), bit_pos := total_bits mod 8\<rparr>)"

text \<open>The remaining count is computed in \<open>uint32\<close>, so it wraps when \<open>byte_pos\<close> has passed
  \<open>size\<close>.\<close>

definition mpeg2_bits_available :: "mpeg2_bits \<Rightarrow> nat \<Rightarrow> bool" where
  "mpeg2_bits_available bs n \<longleftrightarrow>
     (let remaining = nat (((int (bs_size bs) - int (byte_pos bs)) * 8 - int (bit_pos bs)) mod 2 ^ 32)
      in remaining \<ge> n)"

definition mpeg2_bits_align :: "mpeg2_bits \<Rightarrow> mpeg2_bits" where
  "mpeg2_bits_align bs =
     (if bit_pos bs > 0 then bs\<lparr>bit_pos := 0, byte_pos := u32 (byte_pos bs + 1)\<rparr> else bs)"

definition mpeg2_bits_offset :: "mpeg2_bits \<Rightarrow> nat" where
  "mpeg2_bits_offset bs = u32 (byte_pos bs * 8 + bit_pos bs)"

section \<open>The unread bits\<close>

text \<open>\<open>bits_wf\<close> is the type invariant of the reader: the C types bound the positions, and the
  buffer holds at least \<open>size\<close> bytes.\<close>

definition bits_wf :: "mpeg2_bits \<Rightarrow> bool" where
  "bits_wf bs \<longleftrightarrow> bit_pos bs < 8 \<and> byte_pos bs < 2 ^ 32 \<and> bs_size bs < 2 ^ 32
     \<and> bs_size bs \<le> length (bs_data bs)"

definition byte_bits :: "8 word \<Rightarrow> bool list" where
  "byte_bits b = to_bits 8 (unat b)"

definition buffer_bits :: "mpeg2_bits \<Rightarrow> bool list" where
  "buffer_bits bs = concat (map byte_bits (take (bs_size bs) (bs_data bs)))"

definition rest_bits :: "mpeg2_bits \<Rightarrow> bool list" where
  "rest_bits bs = drop (8 * byte_pos bs + bit_pos bs) (buffer_bits bs)"

lemmas bits_eval = bits_simps to_bits_step bit_0 byte_bits_def

lemma length_byte_bits [simp]: "length (byte_bits b) = 8"
  by (simp add: byte_bits_def)

lemma length_buffer_bits: "bits_wf bs \<Longrightarrow> length (buffer_bits bs) = 8 * bs_size bs"
  unfolding buffer_bits_def
  by (subst length_concat_blocks [where m = 8]) (auto simp: bits_wf_def)

lemma length_rest_bits:
  "bits_wf bs \<Longrightarrow> length (rest_bits bs) = 8 * bs_size bs - (8 * byte_pos bs + bit_pos bs)"
  by (simp add: rest_bits_def length_buffer_bits)

lemma rest_bits_past_end: "bits_wf bs \<Longrightarrow> bs_size bs \<le> byte_pos bs \<Longrightarrow> rest_bits bs = []"
  by (simp add: rest_bits_def length_buffer_bits)

lemma mpeg2_bits_init_wf:
  "len < 2 ^ 32 \<Longrightarrow> len \<le> length data \<Longrightarrow> bits_wf (mpeg2_bits_init data len)"
  by (simp add: bits_wf_def mpeg2_bits_init_def)

lemma rest_bits_init:
  "rest_bits (mpeg2_bits_init data len) = concat (map byte_bits (take len data))"
  by (simp add: rest_bits_def buffer_bits_def mpeg2_bits_init_def)

lemmas init_eval = rest_bits_init bits_eval mpeg2_bits_init_wf

text \<open>Moving the position by \<open>k\<close> bits drops \<open>k\<close> bits of the rest.\<close>

lemma rest_bits_move:
  assumes "bs_data bs' = bs_data bs" and "bs_size bs' = bs_size bs"
    and "8 * byte_pos bs' + bit_pos bs' = 8 * byte_pos bs + bit_pos bs + k"
  shows "rest_bits bs' = drop k (rest_bits bs)"
  using assms by (simp add: rest_bits_def buffer_bits_def ac_simps)

lemma take_rest_bits:
  assumes "bits_wf bs" and "byte_pos bs < bs_size bs" and "k \<le> 8 - bit_pos bs"
  shows "take k (rest_bits bs)
           = to_bits k (drop_bit (8 - bit_pos bs - k) (unat (bs_data bs ! byte_pos bs)))"
proof -
  let ?xs = "take (bs_size bs) (bs_data bs)"
  have "rest_bits bs = drop (bit_pos bs) (byte_bits (?xs ! byte_pos bs))
           @ concat (map byte_bits (drop (Suc (byte_pos bs)) ?xs))"
    unfolding rest_bits_def buffer_bits_def
    by (rule drop_concat_blocks) (use assms in \<open>auto simp: bits_wf_def\<close>)
  then have "take k (rest_bits bs) = take k (drop (bit_pos bs) (byte_bits (bs_data bs ! byte_pos bs)))"
    using assms by simp
  also have "\<dots> = to_bits k (drop_bit (8 - bit_pos bs - k) (unat (bs_data bs ! byte_pos bs)))"
    unfolding byte_bits_def using assms by (intro take_drop_to_bits) (auto simp: bits_wf_def)
  finally show ?thesis .
qed

section \<open>Reading refines taking bits\<close>

text \<open>One turn of the loop: \<open>k\<close> bits of the current byte are appended to the value and the
  position moves by \<open>k\<close>.\<close>

lemma read_chunk:
  assumes "bits_wf bs" and "byte_pos bs < bs_size bs" and "k \<le> 8 - bit_pos bs"
  shows "u32 (push_bit k v) OR
      (drop_bit (8 - bit_pos bs - k) (unat (bs_data bs ! byte_pos bs)) AND (2 ^ k - 1))
    = u32 (v * 2 ^ k + bits_val (take k (rest_bits bs)))"
proof -
  let ?c = "bits_val (take k (rest_bits bs))"
  let ?b = "drop_bit (8 - bit_pos bs - k) (unat (bs_data bs ! byte_pos bs))"
  have c: "?b AND (2 ^ k - 1) = ?c"
    by (simp only: and_ones take_rest_bits [OF assms] bits_val_to_bits)
  have k: "k \<le> 8" using assms by simp
  have c_less: "?c < 2 ^ k" by (rule bits_val_less_pow) simp
  have "u32 (push_bit k v) = push_bit k (v mod 2 ^ (32 - k))"
    using k by (simp only: u32_def push_bit_take_bit flip: take_bit_eq_mod) simp
  then have "u32 (push_bit k v) OR ?c = u32 (push_bit k v) + ?c"
    using or_add_disjoint [OF c_less] by simp
  moreover have "u32 (push_bit k v) + ?c = u32 (push_bit k v + ?c)"
  proof -
    have "push_bit k (v mod 2 ^ (32 - k)) + ?c < 2 ^ 32"
    proof -
      have "v mod 2 ^ (32 - k) + 1 \<le> 2 ^ (32 - k)"
        by (simp add: Suc_leI)
      then have "2 ^ k * (v mod 2 ^ (32 - k) + 1) \<le> 2 ^ k * 2 ^ (32 - k)"
        by (rule mult_le_mono2)
      with k c_less show ?thesis
        by (simp add: push_bit_eq_mult ac_simps flip: power_add)
    qed
    with \<open>u32 (push_bit k v) = _\<close> show ?thesis
      by (metis mod_add_left_eq mod_less u32_def)
  qed
  ultimately show ?thesis
    unfolding c by (simp add: push_bit_eq_mult)
qed

text \<open>The whole loop: up to the end of the buffer it appends \<open>n\<close> bits to the value.\<close>

definition bit_offset :: "mpeg2_bits \<Rightarrow> nat" where
  "bit_offset bs = 8 * byte_pos bs + bit_pos bs"

definition same_buffer :: "mpeg2_bits \<Rightarrow> mpeg2_bits \<Rightarrow> bool" where
  "same_buffer bs bs' \<longleftrightarrow> bs_data bs' = bs_data bs \<and> bs_size bs' = bs_size bs"

lemma same_buffer_refl [simp]: "same_buffer bs bs"
  by (simp add: same_buffer_def)

lemma same_buffer_trans: "same_buffer a b \<Longrightarrow> same_buffer b c \<Longrightarrow> same_buffer a c"
  by (simp add: same_buffer_def)

lemma rest_bits_offset:
  "same_buffer bs bs' \<Longrightarrow> bit_offset bs' = bit_offset bs + k \<Longrightarrow> rest_bits bs' = drop k (rest_bits bs)"
  by (rule rest_bits_move) (auto simp: same_buffer_def bit_offset_def)

lemma advance_bits_ok:
  assumes "bits_wf bs" and "byte_pos bs < bs_size bs" and "k \<le> 8 - bit_pos bs"
  shows "bits_wf (advance_bits bs k)" and "same_buffer bs (advance_bits bs k)"
    and "bit_offset (advance_bits bs k) = bit_offset bs + k"
  using assms by (auto simp: advance_bits_def bits_wf_def same_buffer_def bit_offset_def)

lemma read_loop_spec:
  assumes "bits_wf bs" and "v < 2 ^ 32" and "mpeg2_bits_read_loop bs n v = (r, bs')"
  shows "r = u32 (v * 2 ^ min n (length (rest_bits bs)) + bits_val (take n (rest_bits bs)))
    \<and> bits_wf bs' \<and> same_buffer bs bs'
    \<and> bit_offset bs' = bit_offset bs + min n (length (rest_bits bs))"
  using assms
proof (induction n arbitrary: bs v r bs' rule: less_induct)
  case (less n)
  show ?case
  proof (cases "n = 0 \<or> bs_size bs \<le> byte_pos bs")
    case True
    then have "take n (rest_bits bs) = [] \<and> min n (length (rest_bits bs)) = 0"
      using rest_bits_past_end [OF less.prems(1)] by auto
    then show ?thesis
      using less.prems read_loop_stop [OF True, of v] by auto
  next
    case False
    define k where "k = (if n < 8 - bit_pos bs then n else 8 - bit_pos bs)"
    let ?r = "rest_bits bs"
    let ?w = "u32 (v * 2 ^ k + bits_val (take k ?r))"
    have wf: "bit_pos bs < 8" "byte_pos bs < bs_size bs"
      using less.prems(1) False by (auto simp: bits_wf_def)
    have k: "k \<le> 8 - bit_pos bs" "n - k < n" "k \<le> n"
      using wf False by (auto simp: k_def)
    note adv = advance_bits_ok [OF less.prems(1) wf(2) k(1)]
    have rest: "rest_bits (advance_bits bs k) = drop k ?r"
      using adv(2,3) by (rule rest_bits_offset)
    have len: "k \<le> length ?r"
      using wf k length_rest_bits [OF less.prems(1)] by simp
    have "mpeg2_bits_read_loop (advance_bits bs k) (n - k) ?w = (r, bs')"
      using less.prems(3) read_loop_step [OF _ wf(2) k_def, of v] False
        read_chunk [OF less.prems(1) wf(2) k(1), of v] by simp
    from less.IH [OF k(2) adv(1) u32_less this]
    have IH: "r = u32 (?w * 2 ^ (min n (length ?r) - k) + bits_val (take (n - k) (drop k ?r)))"
      and wf': "bits_wf bs'" "same_buffer (advance_bits bs k) bs'"
      and off: "bit_offset bs' = bit_offset bs + k + (min n (length ?r) - k)"
      using rest adv(3) by (auto simp: min_diff)
    have "take n ?r = take k ?r @ take (n - k) (drop k ?r)"
      using k(3) by (metis le_add_diff_inverse take_add)
    then have "v * 2 ^ min n (length ?r) + bits_val (take n ?r)
        = (v * 2 ^ k + bits_val (take k ?r)) * 2 ^ (min n (length ?r) - k)
           + bits_val (take (n - k) (drop k ?r))"
      using k(3) len
      by (simp add: bits_val_append add_mult_distrib min_diff mult.assoc min.commute flip: power_add)
    then have "r = u32 (v * 2 ^ min n (length ?r) + bits_val (take n ?r))"
      by (simp only: IH u32_mult_add)
    then show ?thesis
      using wf' adv(2) off k(3) len by (auto intro: same_buffer_trans)
  qed
qed

lemma read_spec:
  assumes "bits_wf bs" and "n \<le> 32"
  shows read_val: "fst (mpeg2_bits_read bs n) = bits_val (take n (rest_bits bs))"
    and read_wf: "bits_wf (snd (mpeg2_bits_read bs n))"
    and read_same: "same_buffer bs (snd (mpeg2_bits_read bs n))"
    and read_offset: "bit_offset (snd (mpeg2_bits_read bs n))
           = bit_offset bs + min n (length (rest_bits bs))"
proof -
  obtain r bs' where r: "mpeg2_bits_read_loop bs n 0 = (r, bs')" by force
  have "bits_val (take n (rest_bits bs)) < 2 ^ 32"
    by (rule bits_val_less_pow) (use assms in simp)
  with read_loop_spec [OF assms(1) _ r] r
  show "fst (mpeg2_bits_read bs n) = bits_val (take n (rest_bits bs))"
    and "bits_wf (snd (mpeg2_bits_read bs n))" and "same_buffer bs (snd (mpeg2_bits_read bs n))"
    and "bit_offset (snd (mpeg2_bits_read bs n)) = bit_offset bs + min n (length (rest_bits bs))"
    by (auto simp: mpeg2_bits_read_def)
qed

lemma read_same_trans:
  "same_buffer bs b \<Longrightarrow> bits_wf b \<Longrightarrow> n \<le> 32 \<Longrightarrow> same_buffer bs (snd (mpeg2_bits_read b n))"
  by (blast intro: same_buffer_trans read_same)

lemma read_rest: "bits_wf bs \<Longrightarrow> n \<le> 32 \<Longrightarrow> rest_bits (snd (mpeg2_bits_read bs n)) = drop n (rest_bits bs)"
  using rest_bits_offset [OF read_same read_offset] by (simp add: min_def)

lemma peek_val: "bits_wf bs \<Longrightarrow> n \<le> 32 \<Longrightarrow> mpeg2_bits_peek bs n = bits_val (take n (rest_bits bs))"
  by (simp add: mpeg2_bits_peek_def read_val)

lemma peek_less: "bits_wf bs \<Longrightarrow> n \<le> 32 \<Longrightarrow> mpeg2_bits_peek bs n < 2 ^ n"
  by (simp add: peek_val bits_val_less_pow)

lemma skip_wf: "bits_wf bs \<Longrightarrow> bits_wf (mpeg2_bits_skip bs n)"
  by (auto simp: bits_wf_def mpeg2_bits_skip_def Let_def)

lemma skip_same [simp]: "same_buffer bs (mpeg2_bits_skip bs n)"
  by (simp add: same_buffer_def mpeg2_bits_skip_def Let_def)

lemma skip_same_trans: "same_buffer bs b \<Longrightarrow> same_buffer bs (mpeg2_bits_skip b n)"
  by (blast intro: same_buffer_trans skip_same)

lemma skip_offset:
  assumes "bits_wf bs" and "bit_offset bs + n < 2 ^ 35" and "n < 2 ^ 31"
  shows "bit_offset (mpeg2_bits_skip bs n) = bit_offset bs + n"
proof -
  have "byte_pos bs + (bit_pos bs + n) div 8 < 2 ^ 32"
    using assms(2) by (simp add: bit_offset_def)
  then show ?thesis
    using assms by (simp add: bits_wf_def bit_offset_def mpeg2_bits_skip_def Let_def)
qed

lemma skip_rest:
  assumes "bits_wf bs" and "n \<le> 32" and "n \<le> length (rest_bits bs)"
  shows "rest_bits (mpeg2_bits_skip bs n) = drop n (rest_bits bs)"
proof (cases "n = 0")
  case True
  with assms have "mpeg2_bits_skip bs n = bs"
    by (simp add: mpeg2_bits_skip_def Let_def bits_wf_def)
  with True show ?thesis by simp
next
  case False
  with assms have le: "8 * byte_pos bs + bit_pos bs + n \<le> 8 * bs_size bs"
    by (simp add: length_rest_bits)
  then have "byte_pos bs + (bit_pos bs + n) div 8 \<le> bs_size bs" by simp
  then have "byte_pos bs + (bit_pos bs + n) div 8 < 2 ^ 32"
    using assms(1) by (simp add: bits_wf_def)
  then show ?thesis
    using assms by (intro rest_bits_offset skip_same)
      (auto simp: bits_wf_def bit_offset_def mpeg2_bits_skip_def Let_def)
qed

section \<open>Availability\<close>

text \<open>Inside the buffer, and for buffers below 512 MiB, the check is exact. Past the end it
  answers yes to every request of practical size.\<close>

lemma available_exact:
  assumes "bits_wf bs" and "bs_size bs < 2 ^ 29" and "bit_offset bs \<le> 8 * bs_size bs"
  shows "mpeg2_bits_available bs n \<longleftrightarrow> n \<le> length (rest_bits bs)"
proof -
  have "(int (bs_size bs) - int (byte_pos bs)) * 8 - int (bit_pos bs) = int (length (rest_bits bs))"
    using assms by (simp add: length_rest_bits bit_offset_def of_nat_diff)
  moreover have "length (rest_bits bs) < 2 ^ 32"
    using assms by (simp add: length_rest_bits)
  ultimately show ?thesis
    by (simp add: mpeg2_bits_available_def Let_def)
qed

lemma available_past_end:
  assumes "bits_wf bs" and "8 * bs_size bs < bit_offset bs" and "bit_offset bs \<le> 8 * bs_size bs + 2 ^ 31"
    and "n \<le> 2 ^ 31"
  shows "mpeg2_bits_available bs n"
proof -
  let ?d = "(int (bs_size bs) - int (byte_pos bs)) * 8 - int (bit_pos bs)"
  have "- (2 ^ 31) \<le> ?d" "?d < 0"
    using assms by (auto simp: bit_offset_def)
  then have "?d mod 2 ^ 32 = ?d + 2 ^ 32"
    by (intro int_mod_pos_eq [where q = "-1"]) auto
  with \<open>- (2 ^ 31) \<le> ?d\<close> assms(4) show ?thesis
    by (simp add: mpeg2_bits_available_def Let_def)
qed

section \<open>The interface of a bit reader\<close>

text \<open>What the decoders use: the number of the next bits, and the position moved by a read or a
  skip. The clients' lemmas are on bit strings only.\<close>

locale bit_reader =
  fixes rd :: "'b \<Rightarrow> nat \<Rightarrow> nat \<times> 'b" and pk :: "'b \<Rightarrow> nat \<Rightarrow> nat" and sk :: "'b \<Rightarrow> nat \<Rightarrow> 'b"
    and rest :: "'b \<Rightarrow> bool list" and inv :: "'b \<Rightarrow> bool"
  assumes rd_val: "inv b \<Longrightarrow> n \<le> 32 \<Longrightarrow> fst (rd b n) = bits_val (take n (rest b))"
    and rd_inv: "inv b \<Longrightarrow> n \<le> 32 \<Longrightarrow> inv (snd (rd b n))"
    and rd_rest: "inv b \<Longrightarrow> n \<le> 32 \<Longrightarrow> rest (snd (rd b n)) = drop n (rest b)"
    and pk_val: "inv b \<Longrightarrow> n \<le> 32 \<Longrightarrow> pk b n = bits_val (take n (rest b))"
    and sk_inv: "inv b \<Longrightarrow> inv (sk b n)"
    and sk_rest: "inv b \<Longrightarrow> n \<le> 32 \<Longrightarrow> n \<le> length (rest b) \<Longrightarrow> rest (sk b n) = drop n (rest b)"
begin

lemma read_field:
  assumes "inv b" and "rest b = to_bits n v @ r" and "n \<le> 32" and "v < 2 ^ n"
  shows "fst (rd b n) = v" and "rest (snd (rd b n)) = r" and "inv (snd (rd b n))"
  using assms by (simp_all add: rd_val rd_rest rd_inv)

lemma skip_code:
  assumes "inv b" and "rest b = code @ r" and "length code = n" and "n \<le> 32"
  shows "rest (sk b n) = r"
  using assms by (simp add: sk_rest)

lemma peek_prefix:
  assumes "inv b" and "rest b = code @ r" and "w \<le> 32" and "length code \<le> w"
    and "w \<le> length (rest b)"
  shows "pk b w div 2 ^ (w - length code) = bits_val code"
  using assms bits_val_take_div [of "take w (rest b)" w "length code"]
  by (simp add: pk_val)

lemma peek_then_skip_is_read:
  assumes "inv b" and "n \<le> 32" and "n \<le> length (rest b)"
  shows "pk b n = fst (rd b n)" and "rest (sk b n) = rest (snd (rd b n))"
  using assms by (simp_all add: pk_val rd_val sk_rest rd_rest)

end

interpretation mpeg2: bit_reader mpeg2_bits_read mpeg2_bits_peek mpeg2_bits_skip rest_bits bits_wf
  by unfold_locales (simp_all add: read_val read_wf read_rest peek_val skip_wf skip_rest)

section \<open>Properties\<close>

text \<open>\<open>mpeg2_bits_read\<close> of at most 32 bits returns the number of the next unread bits, most
  significant bit first, and leaves exactly the bits after them unread (fewer at the end of the
  buffer), with the reader well formed.\<close>

theorem bits_read_refines_take:
  assumes "bits_wf bs" and "n \<le> 32"
  shows "fst (mpeg2_bits_read bs n) = bits_val (take n (rest_bits bs))
    \<and> rest_bits (snd (mpeg2_bits_read bs n)) = drop n (rest_bits bs)
    \<and> bits_wf (snd (mpeg2_bits_read bs n))"
  using assms by (simp add: read_val read_rest read_wf)

text \<open>C9: \<open>mpeg2_bits_available\<close> is exact up to the end of the buffer, and wrong after it: once
  the position has passed the end, the \<open>uint32\<close> difference wraps and every request of up to 2^31
  bits is answered with yes, although no bit is left.\<close>

theorem bits_available_exact_then_wraps:
  assumes "bits_wf bs" and "bs_size bs < 2 ^ 28"
  shows "(bit_offset bs \<le> 8 * bs_size bs \<longrightarrow> (mpeg2_bits_available bs n \<longleftrightarrow> n \<le> length (rest_bits bs)))
    \<and> (8 * bs_size bs < bit_offset bs \<and> bit_offset bs \<le> 2 ^ 31 \<and> n \<le> 2 ^ 31
       \<longrightarrow> mpeg2_bits_available bs n \<and> rest_bits bs = [])"
proof (intro conjI impI)
  show "mpeg2_bits_available bs n \<longleftrightarrow> n \<le> length (rest_bits bs)" if "bit_offset bs \<le> 8 * bs_size bs"
    using assms that by (intro available_exact) auto
  assume past: "8 * bs_size bs < bit_offset bs \<and> bit_offset bs \<le> 2 ^ 31 \<and> n \<le> 2 ^ 31"
  then show "mpeg2_bits_available bs n"
    using assms available_past_end [OF assms(1), of n] by (auto simp: bit_offset_def)
  show "rest_bits bs = []"
    using past length_rest_bits [OF assms(1)] by (auto simp: bit_offset_def)
qed

theorem bits_available_exact_then_wraps_witness:
  "\<not> mpeg2_bits_available (mpeg2_bits_init [0xB5] 1) 9
   \<and> mpeg2_bits_available (mpeg2_bits_skip (mpeg2_bits_init [0xB5] 1) 9) 64"
proof -
  let ?b = "mpeg2_bits_init [0xB5] 1" and ?e = "mpeg2_bits_skip (mpeg2_bits_init [0xB5] 1) 9"
  have wf: "bits_wf ?b" "bits_wf ?e"
    by (simp_all add: mpeg2_bits_init_wf skip_wf)
  have "length (rest_bits ?b) = 8"
    by (simp add: rest_bits_init)
  then show ?thesis
    using bits_available_exact_then_wraps [OF wf(1), of 9] bits_available_exact_then_wraps [OF wf(2), of 64]
    by (simp add: mpeg2_bits_init_def mpeg2_bits_skip_def bit_offset_def)
qed

end
