(* ===== verification/Mpeg2_Headers.thy ===== *)
theory Mpeg2_Headers
  imports Mpeg2_Bits
begin

text \<open>
  The header layer of \<open>src/intel_extreme/accelerant/mpeg2_parser.cpp\<close> and \<open>mpeg2_parser.h\<close>:
  scan orders and default matrices, the parsed structures, the start code scanners, the parsers of
  the sequence, picture, picture coding extension and slice headers, and the quantiser scale. A
  loop that runs as long as the stream asks for it is a \<open>while_option\<close>, with \<open>None\<close> for a run
  that does not return; a parser returns its status, the reader and the structure it filled in.
\<close>

section \<open>Scan orders and default matrices\<close>

definition mpeg2_zigzag_scan :: "nat list" where
  "mpeg2_zigzag_scan = [
     0,  1,  8, 16,  9,  2,  3, 10,
    17, 24, 32, 25, 18, 11,  4,  5,
    12, 19, 26, 33, 40, 48, 41, 34,
    27, 20, 13,  6,  7, 14, 21, 28,
    35, 42, 49, 56, 57, 50, 43, 36,
    29, 22, 15, 23, 30, 37, 44, 51,
    58, 59, 52, 45, 38, 31, 39, 46,
    53, 60, 61, 54, 47, 55, 62, 63]"

definition mpeg2_alternate_scan :: "nat list" where
  "mpeg2_alternate_scan = [
     0,  8, 16, 24,  1,  9,  2, 10,
    17, 25, 32, 40, 48, 56, 57, 49,
    41, 33, 26, 18,  3, 11,  4, 12,
    19, 27, 34, 42, 50, 58, 35, 43,
    51, 59, 20, 28,  5, 13,  6, 14,
    21, 29, 36, 44, 52, 60, 37, 45,
    53, 61, 22, 30,  7, 15, 23, 31,
    38, 46, 54, 62, 39, 47, 55, 63]"

definition mpeg2_default_intra_matrix :: "nat list" where
  "mpeg2_default_intra_matrix = [
     8, 16, 19, 22, 26, 27, 29, 34,
    16, 16, 22, 24, 27, 29, 34, 37,
    19, 22, 26, 27, 29, 34, 34, 38,
    22, 22, 26, 27, 29, 34, 37, 40,
    22, 26, 27, 29, 32, 35, 40, 48,
    26, 27, 29, 32, 35, 40, 48, 58,
    26, 27, 29, 34, 38, 46, 56, 69,
    27, 29, 35, 38, 46, 56, 69, 83]"

text \<open>Both scans visit each of the 64 positions once.\<close>

lemma zigzag_scan_perm: "sort mpeg2_zigzag_scan = [0..<64]"
  by code_simp

lemma alternate_scan_perm: "sort mpeg2_alternate_scan = [0..<64]"
  by code_simp

lemma sort_is_upt:
  assumes "sort xs = [0..<n]"
  shows "distinct xs" and "set xs = {0..<n}" and "length xs = n"
proof -
  have "set (sort xs) = set [0..<n]" "length (sort xs) = length [0..<n]" "distinct (sort xs)"
    by (simp_all only: assms distinct_upt)
  then show "distinct xs" and "set xs = {0..<n}" and "length xs = n"
    by simp_all
qed

lemmas zigzag_scan_props [simp] = sort_is_upt [OF zigzag_scan_perm]
lemmas alternate_scan_props [simp] = sort_is_upt [OF alternate_scan_perm]

section \<open>Parsed structures\<close>

record mpeg2_sequence_header =
  width :: nat
  height :: nat
  aspect_ratio_info :: nat
  frame_rate_code :: nat
  bit_rate :: nat
  vbv_buffer_size :: nat
  load_intra_quantiser_matrix :: bool
  load_non_intra_quantiser_matrix :: bool
  intra_quantiser_matrix :: "nat list"
  non_intra_quantiser_matrix :: "nat list"

record mpeg2_picture_header =
  temporal_reference :: nat
  picture_coding_type :: nat
  vbv_delay :: nat

record mpeg2_picture_coding_extension =
  f_code :: "nat list list"
  intra_dc_precision :: nat
  picture_structure :: nat
  top_field_first :: bool
  frame_pred_frame_dct :: bool
  concealment_motion_vectors :: bool
  q_scale_type :: bool
  intra_vlc_format :: bool
  alternate_scan :: bool
  progressive_frame :: bool

record mpeg2_slice_header =
  slice_vertical_position :: nat
  slice_quantiser_scale_code :: nat

section \<open>Start codes\<close>

text \<open>\<open>bs_byte bs i\<close> is \<open>data[byte_pos + i]\<close>, with the index computed in \<open>uint32\<close>.\<close>

definition bs_byte :: "mpeg2_bits \<Rightarrow> nat \<Rightarrow> nat" where
  "bs_byte bs i = unat (bs_data bs ! u32 (byte_pos bs + i))"

definition at_start_code_prefix :: "mpeg2_bits \<Rightarrow> bool" where
  "at_start_code_prefix bs \<longleftrightarrow> bs_byte bs 0 = 0 \<and> bs_byte bs 1 = 0 \<and> bs_byte bs 2 = 1"

definition more_start_code_bytes :: "mpeg2_bits \<Rightarrow> bool" where
  "more_start_code_bytes bs \<longleftrightarrow> u32 (byte_pos bs + 3) < bs_size bs"

definition mpeg2_find_start_code :: "mpeg2_bits \<Rightarrow> (nat \<times> mpeg2_bits) option" where
  "mpeg2_find_start_code bs =
     do {
       b \<leftarrow> while_option
              (\<lambda>b. more_start_code_bytes b \<and> \<not> at_start_code_prefix b)
              (\<lambda>b. b\<lparr>byte_pos := u32 (byte_pos b + 1)\<rparr>)
              (mpeg2_bits_align bs);
       Some (if more_start_code_bytes b
             then (0x100 OR bs_byte b 3, b\<lparr>byte_pos := u32 (byte_pos b + 4), bit_pos := 0\<rparr>)
             else (0, b))
     }"

text \<open>A start code is a slice start code when its byte is between \<open>0x01\<close> and \<open>0xAF\<close>.\<close>

definition mpeg2_resync_to_next_slice :: "mpeg2_bits \<Rightarrow> (bool \<times> mpeg2_bits) option" where
  "mpeg2_resync_to_next_slice bs =
     do {
       b \<leftarrow> while_option
              (\<lambda>b. more_start_code_bytes b
                 \<and> \<not> (at_start_code_prefix b \<and> 0x01 \<le> bs_byte b 3 \<and> bs_byte b 3 \<le> 0xAF))
              (\<lambda>b. if at_start_code_prefix b then b\<lparr>byte_pos := u32 (byte_pos b + 4)\<rparr>
                   else b\<lparr>byte_pos := u32 (byte_pos b + 1)\<rparr>)
              (mpeg2_bits_align bs);
       Some (more_start_code_bytes b, b)
     }"

section \<open>Header parsers\<close>

fun load_quantiser_matrix :: "mpeg2_bits \<Rightarrow> nat list \<Rightarrow> nat list \<Rightarrow> nat list \<times> mpeg2_bits" where
  "load_quantiser_matrix bs m [] = (m, bs)"
| "load_quantiser_matrix bs m (z # zs) =
     (let (v, bs) = mpeg2_bits_read bs 8 in load_quantiser_matrix bs (m[z := v]) zs)"

definition mpeg2_parse_sequence_header ::
  "mpeg2_bits \<Rightarrow> mpeg2_sequence_header \<Rightarrow> status_t \<times> mpeg2_bits \<times> mpeg2_sequence_header" where
  "mpeg2_parse_sequence_header bs seq =
     (if \<not> mpeg2_bits_available bs 64 then (B_BAD_DATA, bs, seq)
      else
        let (w, bs) = mpeg2_bits_read bs 12;
            (h, bs) = mpeg2_bits_read bs 12;
            (aspect, bs) = mpeg2_bits_read bs 4;
            (rate, bs) = mpeg2_bits_read bs 4;
            (br, bs) = mpeg2_bits_read bs 18;
            bs = mpeg2_bits_skip bs 1;
            (vbv, bs) = mpeg2_bits_read bs 10;
            bs = mpeg2_bits_skip bs 1;
            (li, bs) = mpeg2_bits_read bs 1;
            (im, bs) = (if li \<noteq> 0
              then load_quantiser_matrix bs (intra_quantiser_matrix seq) mpeg2_zigzag_scan
              else (mpeg2_default_intra_matrix, bs));
            (ln, bs) = mpeg2_bits_read bs 1;
            (nm, bs) = (if ln \<noteq> 0
              then load_quantiser_matrix bs (non_intra_quantiser_matrix seq) mpeg2_zigzag_scan
              else (replicate 64 16, bs))
        in (B_OK, bs,
            \<lparr>width = w, height = h, aspect_ratio_info = aspect, frame_rate_code = rate,
             bit_rate = br, vbv_buffer_size = vbv,
             load_intra_quantiser_matrix = (li \<noteq> 0), load_non_intra_quantiser_matrix = (ln \<noteq> 0),
             intra_quantiser_matrix = im, non_intra_quantiser_matrix = nm\<rparr>))"

text \<open>The loop that skips extra information: while the next bit is 1, skip it and the byte after
  it.\<close>

definition skip_extra_information :: "mpeg2_bits \<Rightarrow> mpeg2_bits option" where
  "skip_extra_information bs =
     while_option (\<lambda>b. mpeg2_bits_available b 1 \<and> mpeg2_bits_peek b 1 = 1)
       (\<lambda>b. mpeg2_bits_skip b 9) bs"

definition MPEG2_I_PICTURE :: nat where "MPEG2_I_PICTURE = 1"
definition MPEG2_P_PICTURE :: nat where "MPEG2_P_PICTURE = 2"
definition MPEG2_B_PICTURE :: nat where "MPEG2_B_PICTURE = 3"

definition mpeg2_parse_picture_header ::
  "mpeg2_bits \<Rightarrow> mpeg2_picture_header \<Rightarrow> (status_t \<times> mpeg2_bits \<times> mpeg2_picture_header) option" where
  "mpeg2_parse_picture_header bs pic =
     (if \<not> mpeg2_bits_available bs 29 then Some (B_BAD_DATA, bs, pic)
      else
        let (tref, bs) = mpeg2_bits_read bs 10;
            (ptype, bs) = mpeg2_bits_read bs 3;
            (delay, bs) = mpeg2_bits_read bs 16;
            pic = \<lparr>temporal_reference = tref, picture_coding_type = ptype, vbv_delay = delay\<rparr>;
            bs = (if ptype = MPEG2_P_PICTURE \<or> ptype = MPEG2_B_PICTURE
                  then mpeg2_bits_skip bs 4 else bs);
            bs = (if ptype = MPEG2_B_PICTURE then mpeg2_bits_skip bs 4 else bs)
        in do {
          bs \<leftarrow> skip_extra_information bs;
          Some (B_OK, mpeg2_bits_skip bs 1, pic)
        })"

definition mpeg2_parse_picture_coding_extension ::
  "mpeg2_bits \<Rightarrow> mpeg2_picture_coding_extension
     \<Rightarrow> status_t \<times> mpeg2_bits \<times> mpeg2_picture_coding_extension" where
  "mpeg2_parse_picture_coding_extension bs ext =
     (if \<not> mpeg2_bits_available bs 30 then (B_BAD_DATA, bs, ext)
      else
        let (f00, bs) = mpeg2_bits_read bs 4;
            (f01, bs) = mpeg2_bits_read bs 4;
            (f10, bs) = mpeg2_bits_read bs 4;
            (f11, bs) = mpeg2_bits_read bs 4;
            (prec, bs) = mpeg2_bits_read bs 2;
            (struc, bs) = mpeg2_bits_read bs 2;
            (tff, bs) = mpeg2_bits_read bs 1;
            (fpfd, bs) = mpeg2_bits_read bs 1;
            (cmv, bs) = mpeg2_bits_read bs 1;
            (qst, bs) = mpeg2_bits_read bs 1;
            (ivf, bs) = mpeg2_bits_read bs 1;
            (alt, bs) = mpeg2_bits_read bs 1
        in (B_OK, bs,
            \<lparr>f_code = [[f00, f01], [f10, f11]], intra_dc_precision = prec,
             picture_structure = struc, top_field_first = (tff \<noteq> 0),
             frame_pred_frame_dct = (fpfd \<noteq> 0), concealment_motion_vectors = (cmv \<noteq> 0),
             q_scale_type = (qst \<noteq> 0), intra_vlc_format = (ivf \<noteq> 0),
             alternate_scan = (alt \<noteq> 0), progressive_frame = False\<rparr>))"

definition mpeg2_parse_slice_header ::
  "mpeg2_bits \<Rightarrow> nat \<Rightarrow> mpeg2_slice_header \<Rightarrow> (status_t \<times> mpeg2_bits \<times> mpeg2_slice_header) option" where
  "mpeg2_parse_slice_header bs slice_code sl =
     (let sl = sl\<lparr>slice_vertical_position := slice_code AND 0xff\<rparr>
      in if \<not> mpeg2_bits_available bs 6 then Some (B_BAD_DATA, bs, sl)
         else
           let (q, bs) = mpeg2_bits_read bs 5;
               sl = sl\<lparr>slice_quantiser_scale_code := q\<rparr>
           in do {
             bs \<leftarrow> skip_extra_information bs;
             Some (B_OK, mpeg2_bits_skip bs 1, sl)
           })"

section \<open>Quantiser scale\<close>

definition non_linear_scale :: "nat list" where
  "non_linear_scale = [
     0,  1,  2,  3,  4,  5,  6,  7,
     8, 10, 12, 14, 16, 18, 20, 22,
    24, 28, 32, 36, 40, 44, 48, 52,
    56, 64, 72, 80, 88, 96, 104, 112]"

definition mpeg2_compute_quantiser_scale :: "nat \<Rightarrow> bool \<Rightarrow> nat" where
  "mpeg2_compute_quantiser_scale q_scale_code non_linear =
     (if q_scale_code = 0 then 1
      else if \<not> non_linear then u16 (q_scale_code * 2)
      else non_linear_scale ! q_scale_code)"

definition mpeg2_compute_intra_dc_mult :: "nat \<Rightarrow> nat" where
  "mpeg2_compute_intra_dc_mult prec = u16 (drop_bit prec 8)"

section \<open>The decoder context\<close>

record mpeg2_decoder =
  dec_seq :: mpeg2_sequence_header
  dec_pic :: mpeg2_picture_header
  dec_pic_ext :: mpeg2_picture_coding_extension
  mb_width :: nat
  mb_height :: nat
  mb_count :: nat
  quantiser_scale :: nat
  intra_dc_mult :: nat
  mv_pred_h :: int
  mv_pred_v :: int
  mv_backward_pred_h :: int
  mv_backward_pred_v :: int
  initialized :: bool

definition mpeg2_decoder_init :: "mpeg2_decoder \<Rightarrow> mpeg2_decoder" where
  "mpeg2_decoder_init dec =
     (let w = u32 (width (dec_seq dec) + 15) div 16;
          h = u32 (height (dec_seq dec) + 15) div 16
      in dec\<lparr>mb_width := w, mb_height := h, mb_count := u32 (w * h),
             quantiser_scale := 1,
             intra_dc_mult := mpeg2_compute_intra_dc_mult (intra_dc_precision (dec_pic_ext dec)),
             initialized := True\<rparr>)"

section \<open>Extra information\<close>

text \<open>Each byte of extra information follows a 1 bit; a 0 bit ends it.\<close>

definition enc_extra_information :: "nat list \<Rightarrow> bool list" where
  "enc_extra_information es = concat (map (\<lambda>e. True # to_bits 8 e) es)"

definition small_buffer :: "mpeg2_bits \<Rightarrow> bool" where
  "small_buffer bs \<longleftrightarrow> bs_size bs < 2 ^ 29"

lemma small_buffer_init: "small_buffer (mpeg2_bits_init data n) \<longleftrightarrow> n < 2 ^ 29"
  by (simp add: small_buffer_def mpeg2_bits_init_def)

lemma small_buffer_same: "same_buffer bs bs' \<Longrightarrow> small_buffer bs' = small_buffer bs"
  by (simp add: small_buffer_def same_buffer_def)

lemma rest_nonempty_offset:
  assumes "bits_wf bs" and "rest_bits bs \<noteq> []"
  shows "bit_offset bs + length (rest_bits bs) = 8 * bs_size bs"
proof -
  have "0 < length (rest_bits bs)" using assms(2) by simp
  then show ?thesis
    by (simp add: length_rest_bits [OF assms(1)] bit_offset_def)
qed

lemma rest_nonempty_less:
  assumes "bits_wf bs" and "rest_bits bs \<noteq> []"
  shows "bit_offset bs < 8 * bs_size bs"
proof -
  have "0 < length (rest_bits bs)" using assms(2) by simp
  with rest_nonempty_offset [OF assms] show ?thesis by linarith
qed

lemma available_rest:
  assumes "bits_wf bs" and "small_buffer bs" and "rest_bits bs \<noteq> []"
  shows "mpeg2_bits_available bs n \<longleftrightarrow> n \<le> length (rest_bits bs)"
  using assms rest_nonempty_offset [OF assms(1,3)]
  by (intro available_exact) (auto simp: small_buffer_def)

lemma available_guard:
  assumes "bits_wf bs" and "mpeg2_bits_peek bs 1 = 1"
  shows "rest_bits bs \<noteq> [] \<and> hd (rest_bits bs)"
  using assms by (cases "rest_bits bs") (auto simp: peek_val bits_val_Cons of_bool_def split: if_splits)

lemma skip_extra_total:
  assumes "bits_wf bs" and "small_buffer bs"
  shows "\<exists>bs'. skip_extra_information bs = Some bs' \<and> bits_wf bs' \<and> same_buffer bs bs'"
proof -
  let ?P = "\<lambda>b. bits_wf b \<and> same_buffer bs b"
  let ?g = "\<lambda>b. mpeg2_bits_available b 1 \<and> mpeg2_bits_peek b 1 = 1"
  let ?c = "\<lambda>b. mpeg2_bits_skip b 9"
  have step: "?P (?c b) \<and> 8 * bs_size bs - bit_offset (?c b) < 8 * bs_size bs - bit_offset b"
    if b: "?P b" "?g b" for b
  proof -
    have lt: "bit_offset b < 8 * bs_size bs"
      using b available_guard [of b] rest_nonempty_less [of b] by (auto simp: same_buffer_def)
    moreover have "bs_size bs < 2 ^ 29" using assms(2) by (simp add: small_buffer_def)
    ultimately have "bit_offset b < 2 ^ 32" by simp
    then have "bit_offset (?c b) = bit_offset b + 9"
      using b by (intro skip_offset) auto
    with lt show ?thesis
      using b by (auto simp: skip_wf intro: same_buffer_trans)
  qed
  have "\<exists>t. while_option ?g ?c bs = Some t"
    by (rule measure_while_option_Some [where P = ?P and f = "\<lambda>b. 8 * bs_size bs - bit_offset b"])
      (use step assms in auto)
  then obtain t where t: "while_option ?g ?c bs = Some t" ..
  have "?P t"
    by (rule while_option_rule [OF _ t, where P = ?P]) (use step assms in auto)
  with t show ?thesis by (auto simp: skip_extra_information_def)
qed

lemma skip_extra_reads:
  assumes "bits_wf bs" and "small_buffer bs"
    and "rest_bits bs = enc_extra_information es @ False # r"
  shows "\<exists>bs'. skip_extra_information bs = Some bs' \<and> bits_wf bs' \<and> same_buffer bs bs'
           \<and> rest_bits bs' = False # r"
  using assms
proof (induction es arbitrary: bs)
  case Nil
  then have "mpeg2_bits_peek bs 1 = 0"
    by (simp add: peek_val enc_extra_information_def bits_val_Cons)
  then have "skip_extra_information bs = Some bs"
    unfolding skip_extra_information_def by (subst while_option_unfold) simp
  with Nil show ?case
    by (simp add: enc_extra_information_def)
next
  case (Cons e es)
  let ?b = "mpeg2_bits_skip bs 9"
  have rest: "rest_bits bs = True # to_bits 8 e @ enc_extra_information es @ False # r"
    using Cons.prems(3) by (simp add: enc_extra_information_def)
  have b: "bits_wf ?b" "small_buffer ?b" "rest_bits ?b = enc_extra_information es @ False # r"
    using Cons.prems rest by (simp_all add: skip_wf skip_rest small_buffer_same [OF skip_same])
  from Cons.IH [OF b] obtain bs' where IH: "skip_extra_information ?b = Some bs'" "bits_wf bs'"
      "same_buffer ?b bs'" "rest_bits bs' = False # r"
    by blast
  have "mpeg2_bits_available bs 1 \<and> mpeg2_bits_peek bs 1 = 1"
    using Cons.prems rest by (simp add: available_rest peek_val bits_val_Cons)
  then have "skip_extra_information bs = skip_extra_information ?b"
    unfolding skip_extra_information_def by (subst while_option_unfold) simp
  with IH show ?case
    by (auto intro: same_buffer_trans [OF skip_same])
qed

section \<open>Encodings of the headers\<close>

definition enc_quantiser_matrix :: "nat list \<Rightarrow> bool list" where
  "enc_quantiser_matrix m = concat (map (\<lambda>z. to_bits 8 (m ! z)) mpeg2_zigzag_scan)"

definition enc_sequence_header :: "mpeg2_sequence_header \<Rightarrow> bool list" where
  "enc_sequence_header h =
     to_bits 12 (width h) @ to_bits 12 (height h) @ to_bits 4 (aspect_ratio_info h)
     @ to_bits 4 (frame_rate_code h) @ to_bits 18 (bit_rate h) @ True # to_bits 10 (vbv_buffer_size h)
     @ False # (if load_intra_quantiser_matrix h
                then True # enc_quantiser_matrix (intra_quantiser_matrix h) else [False])
     @ (if load_non_intra_quantiser_matrix h
        then True # enc_quantiser_matrix (non_intra_quantiser_matrix h) else [False])"

definition valid_quantiser_matrix :: "nat list \<Rightarrow> bool" where
  "valid_quantiser_matrix m \<longleftrightarrow> length m = 64 \<and> (\<forall>x\<in>set m. x < 2 ^ 8)"

definition valid_sequence_header :: "mpeg2_sequence_header \<Rightarrow> bool" where
  "valid_sequence_header h \<longleftrightarrow>
     width h < 2 ^ 12 \<and> height h < 2 ^ 12 \<and> aspect_ratio_info h < 2 ^ 4 \<and> frame_rate_code h < 2 ^ 4
     \<and> bit_rate h < 2 ^ 18 \<and> vbv_buffer_size h < 2 ^ 10
     \<and> valid_quantiser_matrix (intra_quantiser_matrix h)
     \<and> valid_quantiser_matrix (non_intra_quantiser_matrix h)
     \<and> (load_intra_quantiser_matrix h \<or> intra_quantiser_matrix h = mpeg2_default_intra_matrix)
     \<and> (load_non_intra_quantiser_matrix h \<or> non_intra_quantiser_matrix h = replicate 64 16)"

lemma load_matrix_reads:
  assumes "bits_wf bs" and "rest_bits bs = concat (map (\<lambda>z. to_bits 8 (m ! z)) zs) @ r"
    and "\<forall>z\<in>set zs. m ! z < 2 ^ 8"
  shows "fst (load_quantiser_matrix bs a zs) = fold (\<lambda>z a. a[z := m ! z]) zs a
    \<and> rest_bits (snd (load_quantiser_matrix bs a zs)) = r \<and> bits_wf (snd (load_quantiser_matrix bs a zs))"
  using assms
proof (induction zs arbitrary: bs a)
  case Nil
  then show ?case by simp
next
  case (Cons z zs)
  have rest: "rest_bits bs = to_bits 8 (m ! z) @ concat (map (\<lambda>z. to_bits 8 (m ! z)) zs) @ r"
    using Cons.prems(2) by simp
  from mpeg2.read_field [OF Cons.prems(1) rest] Cons.prems(3)
  show ?case
    using Cons.IH [of "snd (mpeg2_bits_read bs 8)"] Cons.prems(3) by (simp add: case_prod_beta)
qed

lemma fold_update_nth:
  assumes "i < length a" and "\<forall>z\<in>set zs. z < length a"
  shows "length (fold (\<lambda>z a. a[z := m ! z]) zs a) = length a
    \<and> fold (\<lambda>z a. a[z := m ! z]) zs a ! i = (if i \<in> set zs then m ! i else a ! i)"
  using assms by (induction zs arbitrary: a) (auto simp: nth_list_update)

lemma load_matrix_enc:
  assumes "bits_wf bs" and "rest_bits bs = enc_quantiser_matrix m @ r" and "valid_quantiser_matrix m"
    and "length a = 64"
  shows "fst (load_quantiser_matrix bs a mpeg2_zigzag_scan) = m"
    and "rest_bits (snd (load_quantiser_matrix bs a mpeg2_zigzag_scan)) = r"
    and "bits_wf (snd (load_quantiser_matrix bs a mpeg2_zigzag_scan))"
proof -
  have m: "\<forall>z\<in>set mpeg2_zigzag_scan. m ! z < 2 ^ 8"
    using assms(3) by (auto simp: valid_quantiser_matrix_def)
  note reads = load_matrix_reads [OF assms(1) assms(2) [unfolded enc_quantiser_matrix_def] m, of a]
  have "fold (\<lambda>z a. a[z := m ! z]) mpeg2_zigzag_scan a = m"
    using assms(3,4) fold_update_nth [of _ a mpeg2_zigzag_scan m] fold_update_nth [of 0 a mpeg2_zigzag_scan m]
    by (intro nth_equalityI) (auto simp: valid_quantiser_matrix_def)
  with reads show "fst (load_quantiser_matrix bs a mpeg2_zigzag_scan) = m"
    and "rest_bits (snd (load_quantiser_matrix bs a mpeg2_zigzag_scan)) = r"
    and "bits_wf (snd (load_quantiser_matrix bs a mpeg2_zigzag_scan))"
    by simp_all
qed

text \<open>\<open>mpeg2_parse_sequence_header\<close> inverts the ISO 13818-2 layout of the sequence header: on the
  bits of a header whose fields fit, with or without loaded quantiser matrices, it succeeds with
  exactly that header and stops after its last bit.\<close>

theorem parse_sequence_header_enc:
  assumes "bits_wf bs" and "small_buffer bs" and "rest_bits bs = enc_sequence_header h @ r"
    and "valid_sequence_header h"
    and "length (intra_quantiser_matrix s) = 64" and "length (non_intra_quantiser_matrix s) = 64"
  shows "\<exists>bs'. mpeg2_parse_sequence_header bs s = (B_OK, bs', h) \<and> rest_bits bs' = r \<and> bits_wf bs'"
proof -
  have ne: "rest_bits bs \<noteq> []"
    using assms(3) by (simp add: enc_sequence_header_def flip: length_0_conv)
  have av: "mpeg2_bits_available bs 64"
    using assms(3) available_rest [OF assms(1,2) ne] by (simp add: enc_sequence_header_def)
  show ?thesis
    using assms
    by (cases "load_intra_quantiser_matrix h"; cases "load_non_intra_quantiser_matrix h")
      (simp_all add: mpeg2_parse_sequence_header_def av case_prod_beta Let_def enc_sequence_header_def
       read_val read_rest read_wf skip_wf skip_rest valid_sequence_header_def load_matrix_enc bits_val_Cons)
qed

definition example_picture_header :: mpeg2_picture_header where
  "example_picture_header = \<lparr>temporal_reference = 5, picture_coding_type = 3, vbv_delay = 0xFFFF\<rparr>"

definition example_sequence_header :: mpeg2_sequence_header where
  "example_sequence_header =
     \<lparr>width = 720, height = 576, aspect_ratio_info = 2, frame_rate_code = 3, bit_rate = 15000,
      vbv_buffer_size = 112, load_intra_quantiser_matrix = False, load_non_intra_quantiser_matrix = False,
      intra_quantiser_matrix = mpeg2_default_intra_matrix, non_intra_quantiser_matrix = replicate 64 16\<rparr>"

definition enc_picture_header :: "mpeg2_picture_header \<Rightarrow> nat \<Rightarrow> nat \<Rightarrow> nat list \<Rightarrow> bool list" where
  "enc_picture_header h fwd bwd es =
     to_bits 10 (temporal_reference h) @ to_bits 3 (picture_coding_type h) @ to_bits 16 (vbv_delay h)
     @ (if picture_coding_type h \<in> {MPEG2_P_PICTURE, MPEG2_B_PICTURE} then to_bits 4 fwd else [])
     @ (if picture_coding_type h = MPEG2_B_PICTURE then to_bits 4 bwd else [])
     @ enc_extra_information es @ [False]"

definition valid_picture_header :: "mpeg2_picture_header \<Rightarrow> bool" where
  "valid_picture_header h \<longleftrightarrow>
     temporal_reference h < 2 ^ 10 \<and> picture_coding_type h < 2 ^ 3 \<and> vbv_delay h < 2 ^ 16"

definition enc_bool :: "bool \<Rightarrow> bool list" where
  "enc_bool b = [b]"

definition enc_picture_coding_extension :: "mpeg2_picture_coding_extension \<Rightarrow> bool list" where
  "enc_picture_coding_extension e =
     to_bits 4 (f_code e ! 0 ! 0) @ to_bits 4 (f_code e ! 0 ! 1)
     @ to_bits 4 (f_code e ! 1 ! 0) @ to_bits 4 (f_code e ! 1 ! 1)
     @ to_bits 2 (intra_dc_precision e) @ to_bits 2 (picture_structure e)
     @ [top_field_first e, frame_pred_frame_dct e, concealment_motion_vectors e,
        q_scale_type e, intra_vlc_format e, alternate_scan e]"

definition valid_picture_coding_extension :: "mpeg2_picture_coding_extension \<Rightarrow> bool" where
  "valid_picture_coding_extension e \<longleftrightarrow>
     (\<exists>a b c d. f_code e = [[a, b], [c, d]] \<and> a < 2 ^ 4 \<and> b < 2 ^ 4 \<and> c < 2 ^ 4 \<and> d < 2 ^ 4)
     \<and> intra_dc_precision e < 2 ^ 2 \<and> picture_structure e < 2 ^ 2 \<and> \<not> progressive_frame e"

definition enc_slice_header :: "nat \<Rightarrow> nat list \<Rightarrow> bool list" where
  "enc_slice_header q es = to_bits 5 q @ enc_extra_information es @ [False]"

lemma skip_final_bit:
  assumes "bits_wf bs" and "rest_bits bs = False # r"
  shows "rest_bits (mpeg2_bits_skip bs 1) = r" and "bits_wf (mpeg2_bits_skip bs 1)"
  using assms by (simp_all add: skip_rest skip_wf)

text \<open>\<open>mpeg2_parse_picture_header\<close> returns on every picture header, however much extra
  information it carries, and reads back the temporal reference, the type and the delay, skipping the
  obsolete motion fields of P and B pictures.\<close>

theorem parse_picture_header_enc:
  assumes "bits_wf bs" and "small_buffer bs" and "rest_bits bs = enc_picture_header h fwd bwd es @ r"
    and "valid_picture_header h"
  shows "\<exists>bs'. mpeg2_parse_picture_header bs p = Some (B_OK, bs', h) \<and> rest_bits bs' = r \<and> bits_wf bs'"
proof -
  have ne: "rest_bits bs \<noteq> []"
    using assms(3) by (simp add: enc_picture_header_def)
  have av: "mpeg2_bits_available bs 29"
    using assms(3) available_rest [OF assms(1,2) ne] by (simp add: enc_picture_header_def)
  let ?b1 = "snd (mpeg2_bits_read bs 10)"
  let ?b2 = "snd (mpeg2_bits_read ?b1 3)"
  let ?b3 = "snd (mpeg2_bits_read ?b2 16)"
  let ?t = "picture_coding_type h"
  let ?b4 = "if ?t = MPEG2_P_PICTURE \<or> ?t = MPEG2_B_PICTURE then mpeg2_bits_skip ?b3 4 else ?b3"
  let ?b5 = "if ?t = MPEG2_B_PICTURE then mpeg2_bits_skip ?b4 4 else ?b4"
  obtain tl where rest: "rest_bits bs = to_bits 10 (temporal_reference h) @ to_bits 3 ?t
      @ to_bits 16 (vbv_delay h) @ tl"
    and tl: "tl = (if ?t \<in> {MPEG2_P_PICTURE, MPEG2_B_PICTURE} then to_bits 4 fwd else [])
      @ (if ?t = MPEG2_B_PICTURE then to_bits 4 bwd else []) @ enc_extra_information es @ False # r"
    using assms(3) by (simp add: enc_picture_header_def)
  have reads: "fst (mpeg2_bits_read bs 10) = temporal_reference h"
      "fst (mpeg2_bits_read ?b1 3) = ?t" "fst (mpeg2_bits_read ?b2 16) = vbv_delay h"
    and b3: "bits_wf ?b3" "rest_bits ?b3 = tl"
    using assms(1,4) rest by (simp_all add: read_val read_rest read_wf valid_picture_header_def)
  have "same_buffer bs ?b3"
    using assms(1) by (simp add: read_same_trans read_wf)
  then have "same_buffer bs ?b5"
    by (simp add: skip_same_trans)
  then have "small_buffer ?b5"
    using assms(2) small_buffer_same by blast
  moreover have "bits_wf ?b5" "rest_bits ?b5 = enc_extra_information es @ False # r"
    using b3 by (auto simp: skip_wf skip_rest tl MPEG2_P_PICTURE_def MPEG2_B_PICTURE_def)
  ultimately obtain bs' where bs': "skip_extra_information ?b5 = Some bs'" "bits_wf bs'"
      "rest_bits bs' = False # r"
    using skip_extra_reads [of ?b5 es r] by blast
  then have "mpeg2_parse_picture_header bs p = Some (B_OK, mpeg2_bits_skip bs' 1, h)"
    using reads by (cases "?t = MPEG2_P_PICTURE"; cases "?t = MPEG2_B_PICTURE")
      (auto simp: mpeg2_parse_picture_header_def av case_prod_beta Let_def)
  then show ?thesis
    using skip_final_bit [OF bs'(2,3)] by blast
qed

text \<open>\<open>mpeg2_parse_slice_header\<close> reads back the quantiser scale code of a slice header, skips its
  extra information, and takes the vertical position from the low byte of the start code.\<close>

theorem parse_slice_header_enc:
  assumes "bits_wf bs" and "small_buffer bs" and "rest_bits bs = enc_slice_header q es @ r" and "q < 2 ^ 5"
  shows "\<exists>bs'. mpeg2_parse_slice_header bs code s
      = Some (B_OK, bs', \<lparr>slice_vertical_position = code mod 256, slice_quantiser_scale_code = q\<rparr>)
    \<and> rest_bits bs' = r \<and> bits_wf bs'"
proof -
  let ?b = "snd (mpeg2_bits_read bs 5)"
  have ne: "rest_bits bs \<noteq> []"
    using assms(3) by (simp add: enc_slice_header_def)
  have av: "mpeg2_bits_available bs 6"
    using assms(3) available_rest [OF assms(1,2) ne] by (simp add: enc_slice_header_def)
  have q: "fst (mpeg2_bits_read bs 5) = q" and b: "bits_wf ?b" "rest_bits ?b = enc_extra_information es @ False # r"
    using assms by (simp_all add: read_val read_rest read_wf enc_slice_header_def)
  have "small_buffer ?b"
    using assms(1,2) small_buffer_same [OF read_same] by simp
  with b obtain bs' where bs': "skip_extra_information ?b = Some bs'" "bits_wf bs'" "rest_bits bs' = False # r"
    using skip_extra_reads [of ?b es r] by blast
  have "code AND 0xff = code mod 256"
    using and_ones [of code 8] by simp
  then have "mpeg2_parse_slice_header bs code s = Some (B_OK, mpeg2_bits_skip bs' 1,
      \<lparr>slice_vertical_position = code mod 256, slice_quantiser_scale_code = q\<rparr>)"
    using bs'(1) q by (simp add: mpeg2_parse_slice_header_def av case_prod_beta Let_def)
  then show ?thesis
    using skip_final_bit [OF bs'(2,3)] by blast
qed

text \<open>\<open>mpeg2_parse_picture_coding_extension\<close> reads back all fields of the extension up to
  \<open>alternate_scan\<close>; \<open>progressive_frame\<close> is never read, so that only extensions of interlaced
  frames come back unchanged.\<close>

theorem parse_picture_coding_extension_enc:
  assumes "bits_wf bs" and "small_buffer bs" and "rest_bits bs = enc_picture_coding_extension e @ r"
    and "valid_picture_coding_extension e" and "6 \<le> length r"
  shows "\<exists>bs'. mpeg2_parse_picture_coding_extension bs e0 = (B_OK, bs', e) \<and> rest_bits bs' = r \<and> bits_wf bs'"
proof -
  have ne: "rest_bits bs \<noteq> []"
    using assms(3) by (simp add: enc_picture_coding_extension_def)
  have av: "mpeg2_bits_available bs 30"
    using assms(3,5) available_rest [OF assms(1,2) ne] by (simp add: enc_picture_coding_extension_def)
  from assms(4) obtain a b c d where "f_code e = [[a, b], [c, d]]" "a < 2 ^ 4" "b < 2 ^ 4" "c < 2 ^ 4" "d < 2 ^ 4"
    by (auto simp: valid_picture_coding_extension_def)
  then show ?thesis
    using assms
    apply (simp add: mpeg2_parse_picture_coding_extension_def av case_prod_beta Let_def)
    apply (simp add: read_val read_rest read_wf)
    apply (simp add: enc_picture_coding_extension_def )
    apply (simp add: valid_picture_coding_extension_def
       bits_val_Cons)
    done
qed

definition example_coding_extension :: mpeg2_picture_coding_extension where
  "example_coding_extension =
     \<lparr>f_code = [[1, 2], [15, 15]], intra_dc_precision = 1, picture_structure = 3,
      top_field_first = True, frame_pred_frame_dct = False, concealment_motion_vectors = False,
      q_scale_type = True, intra_vlc_format = True, alternate_scan = False, progressive_frame = False\<rparr>"

section \<open>The scanners find start codes\<close>

definition start_code_at :: "mpeg2_bits \<Rightarrow> nat \<Rightarrow> bool" where
  "start_code_at bs p \<longleftrightarrow> p + 3 < bs_size bs
     \<and> bs_data bs ! p = 0 \<and> bs_data bs ! (p + 1) = 0 \<and> bs_data bs ! (p + 2) = 1"

definition slice_code_at :: "mpeg2_bits \<Rightarrow> nat \<Rightarrow> bool" where
  "slice_code_at bs p \<longleftrightarrow> start_code_at bs p
     \<and> 0x01 \<le> unat (bs_data bs ! (p + 3)) \<and> unat (bs_data bs ! (p + 3)) \<le> 0xAF"

lemma unat_byte_less: "unat (w :: 8 word) < 256"
proof -
  have "unat w < 2 ^ LENGTH(8)" by (rule unsigned_less)
  then show ?thesis by simp
qed

lemma unat_eq_1: "unat (w :: 8 word) = 1 \<longleftrightarrow> w = 1"
  by (simp add: word_unat_eq_iff)

text \<open>The position is \<open>p\<close>; nothing wraps because the buffer is below 512 MiB.\<close>

lemma scan_position:
  assumes "bs_size bs < 2 ^ 29" and "p \<le> bs_size bs + 8"
  shows "more_start_code_bytes (bs\<lparr>byte_pos := p\<rparr>) \<longleftrightarrow> p + 3 < bs_size bs"
    and "more_start_code_bytes (bs\<lparr>byte_pos := p\<rparr>) \<Longrightarrow>
         at_start_code_prefix (bs\<lparr>byte_pos := p\<rparr>) \<longleftrightarrow> start_code_at bs p"
    and "bs_byte (bs\<lparr>byte_pos := p\<rparr>) 3 = unat (bs_data bs ! (p + 3))"
    and "u32 (p + 1) = p + 1" and "u32 (p + 4) = p + 4"
proof -
  have u: "u32 (p + i) = p + i" if "i \<le> 4" for i
    using assms that by simp
  show "more_start_code_bytes (bs\<lparr>byte_pos := p\<rparr>) \<longleftrightarrow> p + 3 < bs_size bs"
    using u [of 3] by (simp add: more_start_code_bytes_def)
  show "bs_byte (bs\<lparr>byte_pos := p\<rparr>) 3 = unat (bs_data bs ! (p + 3))"
    using u [of 3] by (simp add: bs_byte_def)
  show "more_start_code_bytes (bs\<lparr>byte_pos := p\<rparr>) \<Longrightarrow>
         at_start_code_prefix (bs\<lparr>byte_pos := p\<rparr>) \<longleftrightarrow> start_code_at bs p"
    using u [of 0] u [of 1] u [of 2] u [of 3]
    by (simp add: more_start_code_bytes_def at_start_code_prefix_def bs_byte_def start_code_at_def
        unat_eq_0 unat_eq_1 [simplified])
  show "u32 (p + 1) = p + 1" "u32 (p + 4) = p + 4"
    using u [of 1] u [of 4] by simp_all
qed

lemma find_scan:
  assumes "bs_size bs < 2 ^ 29" and "p \<le> bs_size bs + 1"
  shows "\<exists>q\<ge>p. while_option (\<lambda>b. more_start_code_bytes b \<and> \<not> at_start_code_prefix b)
        (\<lambda>b. b\<lparr>byte_pos := u32 (byte_pos b + 1)\<rparr>) (bs\<lparr>byte_pos := p\<rparr>) = Some (bs\<lparr>byte_pos := q\<rparr>)
      \<and> q \<le> bs_size bs + 1 \<and> (\<forall>i. p \<le> i \<and> i < q \<longrightarrow> \<not> start_code_at bs i)
      \<and> (start_code_at bs q \<or> bs_size bs \<le> q + 3)"
  using assms(2)
proof (induction "bs_size bs - p" arbitrary: p rule: less_induct)
  case less
  note pos = scan_position [OF assms(1), of p]
  show ?case
  proof (cases "p + 3 < bs_size bs \<and> \<not> start_code_at bs p")
    case True
    then have "bs_size bs - (p + 1) < bs_size bs - p" "p + 1 \<le> bs_size bs + 1" by auto
    from less.hyps [OF this] obtain q where q: "p + 1 \<le> q" "while_option
        (\<lambda>b. more_start_code_bytes b \<and> \<not> at_start_code_prefix b)
        (\<lambda>b. b\<lparr>byte_pos := u32 (byte_pos b + 1)\<rparr>) (bs\<lparr>byte_pos := p + 1\<rparr>) = Some (bs\<lparr>byte_pos := q\<rparr>)"
      "q \<le> bs_size bs + 1" "\<forall>i. p + 1 \<le> i \<and> i < q \<longrightarrow> \<not> start_code_at bs i"
      "start_code_at bs q \<or> bs_size bs \<le> q + 3"
      by blast
    have "\<forall>i. p \<le> i \<and> i < q \<longrightarrow> \<not> start_code_at bs i"
      using q(4) True by (metis Suc_eq_plus1 le_antisym not_less_eq_eq)
    with q True pos less.prems show ?thesis
      by (intro exI [of _ q]) (subst while_option_unfold, auto)
  next
    case False
    then show ?thesis
      using pos less.prems by (intro exI [of _ p]) (subst while_option_unfold, auto simp: start_code_at_def)
  qed
qed

lemma align_position:
  assumes "bits_wf bs" and "small_buffer bs" and "byte_pos bs \<le> bs_size bs"
  obtains p where "mpeg2_bits_align bs = bs\<lparr>bit_pos := 0, byte_pos := p\<rparr>" and "p \<le> bs_size bs + 1"
    and "p = (bit_offset bs + 7) div 8"
proof
  show "mpeg2_bits_align bs = bs\<lparr>bit_pos := 0, byte_pos := (bit_offset bs + 7) div 8\<rparr>"
    using assms by (auto simp: mpeg2_bits_align_def bits_wf_def small_buffer_def bit_offset_def)
qed (use assms in \<open>auto simp: bits_wf_def bit_offset_def\<close>)

lemma start_code_at_bit_pos [simp]: "start_code_at (bs\<lparr>bit_pos := b\<rparr>) = start_code_at bs"
  by (simp add: start_code_at_def fun_eq_iff)

text \<open>\<open>mpeg2_find_start_code\<close> terminates on every buffer and finds the first start code at or
  after the byte boundary: it returns the code and the position behind it, or 0 at the end of the
  buffer, and no start code was passed over.\<close>

theorem find_start_code_spec:
  assumes "bits_wf bs" and "small_buffer bs" and "byte_pos bs \<le> bs_size bs"
  shows "\<exists>q \<ge> (bit_offset bs + 7) div 8.
      (\<forall>i. (bit_offset bs + 7) div 8 \<le> i \<and> i < q \<longrightarrow> \<not> start_code_at bs i)
      \<and> (if start_code_at bs q
         then mpeg2_find_start_code bs
           = Some (0x100 + unat (bs_data bs ! (q + 3)), bs\<lparr>bit_pos := 0, byte_pos := q + 4\<rparr>)
         else bs_size bs \<le> q + 3
           \<and> mpeg2_find_start_code bs = Some (0, bs\<lparr>bit_pos := 0, byte_pos := q\<rparr>))"
proof -
  obtain p where p: "mpeg2_bits_align bs = bs\<lparr>bit_pos := 0, byte_pos := p\<rparr>" "p \<le> bs_size bs + 1"
      "p = (bit_offset bs + 7) div 8"
    using align_position [OF assms] .
  let ?b = "bs\<lparr>bit_pos := 0\<rparr>"
  have small: "bs_size ?b < 2 ^ 29"
    using assms(2) by (simp add: small_buffer_def)
  from find_scan [OF this, of p] p(2) obtain q where q: "p \<le> q" "while_option
      (\<lambda>b. more_start_code_bytes b \<and> \<not> at_start_code_prefix b)
      (\<lambda>b. b\<lparr>byte_pos := u32 (byte_pos b + 1)\<rparr>) (?b\<lparr>byte_pos := p\<rparr>) = Some (?b\<lparr>byte_pos := q\<rparr>)"
    "q \<le> bs_size bs + 1" "\<forall>i. p \<le> i \<and> i < q \<longrightarrow> \<not> start_code_at bs i"
    "start_code_at bs q \<or> bs_size bs \<le> q + 3"
    by auto
  have or: "0x100 OR unat w = 0x100 + unat w" for w :: "8 word"
    using or_add_disjoint [of "unat w" 8 1] unat_byte_less [of w]
    by (simp add: push_bit_eq_mult)
  have "q \<le> bs_size ?b + 8" using q(3) by simp
  note pos = scan_position [OF small this]
  have "mpeg2_find_start_code bs = Some (if more_start_code_bytes (?b\<lparr>byte_pos := q\<rparr>)
      then (0x100 + unat (bs_data bs ! (q + 3)), ?b\<lparr>byte_pos := q + 4\<rparr>)
      else (0, ?b\<lparr>byte_pos := q\<rparr>))"
    using q(2) p(1) pos or by (simp add: mpeg2_find_start_code_def)
  moreover have "more_start_code_bytes (?b\<lparr>byte_pos := q\<rparr>) \<longleftrightarrow> start_code_at bs q"
    using pos q(3,5) by (auto simp: start_code_at_def)
  ultimately show ?thesis
  proof (intro exI [of _ q] conjI)
    show "if start_code_at bs q then mpeg2_find_start_code bs
           = Some (0x100 + unat (bs_data bs ! (q + 3)), bs\<lparr>bit_pos := 0, byte_pos := q + 4\<rparr>)
         else bs_size bs \<le> q + 3 \<and> mpeg2_find_start_code bs = Some (0, bs\<lparr>bit_pos := 0, byte_pos := q\<rparr>)"
      if "mpeg2_find_start_code bs = Some (if more_start_code_bytes (?b\<lparr>byte_pos := q\<rparr>)
        then (0x100 + unat (bs_data bs ! (q + 3)), ?b\<lparr>byte_pos := q + 4\<rparr>)
        else (0, ?b\<lparr>byte_pos := q\<rparr>))"
        "more_start_code_bytes (?b\<lparr>byte_pos := q\<rparr>) \<longleftrightarrow> start_code_at bs q"
      using that q(5) by auto
  qed (use q p in auto)
qed

text \<open>The resync loop steps over a start code that is no slice's by four bytes, so a slice start
  code is missed only when it begins in the last byte of another start code.\<close>

definition shadowed_slice_code :: "mpeg2_bits \<Rightarrow> nat \<Rightarrow> nat \<Rightarrow> bool" where
  "shadowed_slice_code bs p i \<longleftrightarrow>
     p + 3 \<le> i \<and> start_code_at bs (i - 3) \<and> \<not> slice_code_at bs (i - 3)"

lemma shadow_window:
  assumes "start_code_at bs p" and "\<not> slice_code_at bs p" and "p \<le> i" and "i < p + 4"
    and "slice_code_at bs i"
  shows "shadowed_slice_code bs p i"
proof -
  have "i = p \<or> i = p + 1 \<or> i = p + 2 \<or> i = p + 3" using assms(3,4) by auto
  then show ?thesis
    using assms by (auto simp: shadowed_slice_code_def slice_code_at_def start_code_at_def)
qed

lemma resync_scan:
  assumes "bs_size bs < 2 ^ 29" and "p \<le> bs_size bs + 1"
  shows "\<exists>q\<ge>p. while_option (\<lambda>b. more_start_code_bytes b
          \<and> \<not> (at_start_code_prefix b \<and> 0x01 \<le> bs_byte b 3 \<and> bs_byte b 3 \<le> 0xAF))
        (\<lambda>b. if at_start_code_prefix b then b\<lparr>byte_pos := u32 (byte_pos b + 4)\<rparr>
             else b\<lparr>byte_pos := u32 (byte_pos b + 1)\<rparr>) (bs\<lparr>byte_pos := p\<rparr>) = Some (bs\<lparr>byte_pos := q\<rparr>)
      \<and> q \<le> bs_size bs + 1
      \<and> (\<forall>i. p \<le> i \<and> i < q \<and> slice_code_at bs i \<longrightarrow> shadowed_slice_code bs p i)
      \<and> (slice_code_at bs q \<or> bs_size bs \<le> q + 3)"
  (is "\<exists>q\<ge>p. while_option ?g ?c _ = _ \<and> _")
  using assms(2)
proof (induction "bs_size bs - p" arbitrary: p rule: less_induct)
  case less
  note pos = scan_position [OF assms(1), of p]
  have g: "?g (bs\<lparr>byte_pos := p\<rparr>) \<longleftrightarrow> p + 3 < bs_size bs \<and> \<not> slice_code_at bs p"
    using pos less.prems by (auto simp: slice_code_at_def)
  show ?case
  proof (cases "p + 3 < bs_size bs \<and> \<not> slice_code_at bs p")
    case True
    define k :: nat where "k = (if start_code_at bs p then 4 else 1)"
    have c: "?c (bs\<lparr>byte_pos := p\<rparr>) = bs\<lparr>byte_pos := p + k\<rparr>"
      using pos True less.prems by (simp add: k_def)
    have k: "bs_size bs - (p + k) < bs_size bs - p" "p + k \<le> bs_size bs + 1"
      using True by (auto simp: k_def)
    from less.hyps [OF k] obtain q where q: "p + k \<le> q"
      "while_option ?g ?c (bs\<lparr>byte_pos := p + k\<rparr>) = Some (bs\<lparr>byte_pos := q\<rparr>)"
      "q \<le> bs_size bs + 1"
      "\<And>i. p + k \<le> i \<Longrightarrow> i < q \<Longrightarrow> slice_code_at bs i \<Longrightarrow> shadowed_slice_code bs (p + k) i"
      "slice_code_at bs q \<or> bs_size bs \<le> q + 3"
      by blast
    have "while_option ?g ?c (bs\<lparr>byte_pos := p\<rparr>) = Some (bs\<lparr>byte_pos := q\<rparr>)"
      using q(2) c g True by (subst while_option_unfold) simp
    moreover have "shadowed_slice_code bs p i" if i: "p \<le> i" "i < q" "slice_code_at bs i" for i
    proof (cases "p + k \<le> i")
      case True
      from q(4) [OF this i(2,3)] show ?thesis
        unfolding shadowed_slice_code_def by linarith
    next
      case False
      with True i show ?thesis
        using shadow_window [of bs p i] by (auto simp: k_def split: if_splits dest: le_antisym)
    qed
    ultimately show ?thesis
      using q by (intro exI [of _ q]) auto
  next
    case False
    then have "while_option ?g ?c (bs\<lparr>byte_pos := p\<rparr>) = Some (bs\<lparr>byte_pos := p\<rparr>)"
      using g by (intro while_option_stop_now) blast
    with False less.prems show ?thesis
      by (intro exI [of _ p]) auto
  qed
qed

text \<open>\<open>mpeg2_resync_to_next_slice\<close> terminates on every buffer. When it answers yes, the reader
  stands on a slice start code; when it answers no, at the end of the buffer. A slice start code that
  it passed over begins in the last byte of a start code that is no slice's.\<close>

theorem resync_spec:
  assumes "bits_wf bs" and "small_buffer bs" and "byte_pos bs \<le> bs_size bs"
  shows "\<exists>q \<ge> (bit_offset bs + 7) div 8.
      mpeg2_resync_to_next_slice bs = Some (slice_code_at bs q, bs\<lparr>bit_pos := 0, byte_pos := q\<rparr>)
      \<and> (slice_code_at bs q \<or> bs_size bs \<le> q + 3)
      \<and> (\<forall>i. (bit_offset bs + 7) div 8 \<le> i \<and> i < q \<and> slice_code_at bs i
             \<longrightarrow> shadowed_slice_code bs ((bit_offset bs + 7) div 8) i)"
proof -
  obtain p where p: "mpeg2_bits_align bs = bs\<lparr>bit_pos := 0, byte_pos := p\<rparr>" "p \<le> bs_size bs + 1"
      "p = (bit_offset bs + 7) div 8"
    using align_position [OF assms] .
  let ?b = "bs\<lparr>bit_pos := 0\<rparr>"
  have small: "bs_size ?b < 2 ^ 29"
    using assms(2) by (simp add: small_buffer_def)
  have same: "slice_code_at ?b = slice_code_at bs" "shadowed_slice_code ?b = shadowed_slice_code bs"
    by (simp_all add: fun_eq_iff slice_code_at_def shadowed_slice_code_def)
  from resync_scan [OF small, of p] p(2)
  obtain q where q: "p \<le> q" "mpeg2_resync_to_next_slice bs
        = Some (more_start_code_bytes (?b\<lparr>byte_pos := q\<rparr>), ?b\<lparr>byte_pos := q\<rparr>)"
      "q \<le> bs_size bs + 1" "slice_code_at bs q \<or> bs_size bs \<le> q + 3"
      "\<forall>i. p \<le> i \<and> i < q \<and> slice_code_at bs i \<longrightarrow> shadowed_slice_code bs p i"
    by (auto simp: same mpeg2_resync_to_next_slice_def p(1))
  have "more_start_code_bytes (?b\<lparr>byte_pos := q\<rparr>) \<longleftrightarrow> slice_code_at bs q"
    using scan_position [OF small, of q] q(3,4) by (auto simp: slice_code_at_def start_code_at_def)
  with q p(3) show ?thesis by auto
qed

end
