(* ===== verification/Mpeg2_Vlc.thy ===== *)
theory Mpeg2_Vlc
  imports Mpeg2_Headers
begin

text \<open>
  The variable-length codes of \<open>src/intel_extreme/accelerant/mpeg2_parser.cpp\<close>: DC sizes and
  differentials, the coefficient tables B-14 and B-15 with their decoders, the macroblock address
  increment, the macroblock types, the motion codes and vectors and the coded block pattern. A
  cascade or a table search of the source is a list of (code, length, value) searched in the
  source's order. The locale \<open>vlc_code\<close> is the contract of such a table (no code is a prefix of
  another), \<open>vlc_reader\<close> adds a bit reader, and each table of the source that meets the contract
  interprets it; the tables that do not (B-15 and the motion codes) do so without the codes that an
  earlier code hides.
\<close>

section \<open>Searching a code table\<close>

fun vlc_search :: "nat \<Rightarrow> nat \<Rightarrow> (nat \<times> nat \<times> 'v) list \<Rightarrow> (nat \<times> nat \<times> 'v) option" where
  "vlc_search w peek [] = None"
| "vlc_search w peek ((code, len, v) # es) =
     (if drop_bit (w - len) peek = code then Some (code, len, v) else vlc_search w peek es)"

definition vlc_clash :: "nat \<times> nat \<times> 'v \<Rightarrow> nat \<times> nat \<times> 'v \<Rightarrow> bool" where
  "vlc_clash a b = (case (a, b) of ((c, l, _), (c', l', _)) \<Rightarrow>
     let m = min l l' in c div 2 ^ (l - m) = c' div 2 ^ (l' - m))"

fun prefix_free :: "(nat \<times> nat \<times> 'v) list \<Rightarrow> bool" where
  "prefix_free [] = True"
| "prefix_free (a # as) = (list_all (\<lambda>b. \<not> vlc_clash a b) as \<and> prefix_free as)"

definition vlc_fits :: "nat \<Rightarrow> (nat \<times> nat \<times> 'v) list \<Rightarrow> bool" where
  "vlc_fits w tab = list_all (\<lambda>(c, l, _). l \<le> w \<and> c < 2 ^ l) tab"

lemma vlc_search_Some:
  "vlc_search w p tab = Some (c, l, v) \<Longrightarrow> (c, l, v) \<in> set tab \<and> drop_bit (w - l) p = c"
  by (induction w p tab rule: vlc_search.induct) (auto split: if_splits)

lemma vlc_search_None: "vlc_search w p tab = None \<longleftrightarrow> (\<forall>(c, l, v) \<in> set tab. drop_bit (w - l) p \<noteq> c)"
  by (induction w p tab rule: vlc_search.induct) auto

lemma vlc_search_append:
  "vlc_search w p (xs @ ys) = (case vlc_search w p xs of None \<Rightarrow> vlc_search w p ys | Some e \<Rightarrow> Some e)"
  by (induction w p xs rule: vlc_search.induct) auto

lemma vlc_clash_sym: "vlc_clash a b = vlc_clash b a"
  by (cases a; cases b) (auto simp: vlc_clash_def Let_def min.commute)

lemma prefix_free_no_clash:
  "prefix_free tab \<Longrightarrow> a \<in> set tab \<Longrightarrow> b \<in> set tab \<Longrightarrow> a \<noteq> b \<Longrightarrow> \<not> vlc_clash a b"
  by (induction tab) (auto simp: list_all_iff vlc_clash_sym)

text \<open>Two entries that match the same peeked word clash.\<close>

lemma match_clash:
  assumes "drop_bit (w - l) p = c" and "drop_bit (w - l') p = c'" and "l \<le> w" and "l' \<le> w"
  shows "vlc_clash (c, l, v) (c', l', v')"
proof -
  let ?m = "min l l'"
  have "c div 2 ^ (l - ?m) = p div 2 ^ (w - ?m)" "c' div 2 ^ (l' - ?m) = p div 2 ^ (w - ?m)"
    using assms by (auto simp: drop_bit_eq_div min_def div_mult2_eq simp flip: power_add div_mult2_eq)
  then show ?thesis by (simp add: vlc_clash_def Let_def)
qed

text \<open>An entry is hidden when an earlier code is a prefix of its own: dropping it does not change a
  search.\<close>

definition vlc_prefix :: "nat \<times> nat \<times> 'v \<Rightarrow> nat \<times> nat \<times> 'v \<Rightarrow> bool" where
  "vlc_prefix a b = (case (a, b) of ((c, l, _), (c', l', _)) \<Rightarrow> l \<le> l' \<and> c' div 2 ^ (l' - l) = c)"

lemma vlc_prefix_match:
  assumes "vlc_prefix (c, l, v) (c', l', v')" and "drop_bit (w - l') p = c'" and "l' \<le> w"
  shows "drop_bit (w - l) p = c"
  using assms by (auto simp: vlc_prefix_def drop_bit_eq_div simp flip: div_mult2_eq power_add)

lemma vlc_search_hidden:
  assumes "h \<in> set xs" and "vlc_prefix h e" and "fst (snd e) \<le> w"
  shows "vlc_search w p (xs @ e # ys) = vlc_search w p (xs @ ys)"
proof -
  obtain c l v c' l' v' where h: "h = (c, l, v)" and e: "e = (c', l', v')"
    by (cases h; cases e)
  have "vlc_search w p xs \<noteq> None" if "drop_bit (w - l') p = c'"
  proof -
    have "drop_bit (w - l) p = c"
      using vlc_prefix_match [of c l v c' l' v'] assms that by (simp add: h e)
    with assms(1) show ?thesis unfolding vlc_search_None h by blast
  qed
  then show ?thesis
    by (auto simp: vlc_search_append e split: option.split)
qed

text \<open>A check of \<open>prefix_free\<close> that does not compare all the pairs: the intervals of the words
  that match the entries are disjoint, so that sorted they follow each other.\<close>

definition vlc_intervals :: "nat \<Rightarrow> (nat \<times> nat \<times> 'v) list \<Rightarrow> (nat \<times> nat) list" where
  "vlc_intervals w = map (\<lambda>(c, l, _). (c * 2 ^ (w - l), (c + 1) * 2 ^ (w - l)))"

fun follow_each_other :: "(nat \<times> nat) list \<Rightarrow> bool" where
  "follow_each_other ((a, b) # (c, d) # xs) = (b \<le> c \<and> follow_each_other ((c, d) # xs))"
| "follow_each_other _ = True"

definition apart :: "nat \<times> nat \<Rightarrow> nat \<times> nat \<Rightarrow> bool" where
  "apart x y \<longleftrightarrow> snd x \<le> fst y \<or> snd y \<le> fst x"

lemma follow_sorted_wrt:
  "follow_each_other xs \<Longrightarrow> \<forall>x\<in>set xs. fst x < snd x \<Longrightarrow> sorted_wrt (\<lambda>x y. snd x \<le> fst y) xs"
proof (induction xs rule: follow_each_other.induct)
  case (1 a b c d xs)
  then show ?case by fastforce
qed auto

lemma sorted_wrt_apart:
  assumes "\<forall>x\<in>set xs. fst x < snd x"
  shows "sorted_wrt apart xs \<longleftrightarrow> distinct xs \<and> (\<forall>x\<in>set xs. \<forall>y\<in>set xs. x \<noteq> y \<longrightarrow> apart x y)"
  using assms by (induction xs) (auto simp: apart_def)

lemma clash_not_apart:
  assumes "vlc_clash (c, l, v) (c', l', v')" and "l \<le> l'" and "l' \<le> w"
  shows "\<not> apart (c * 2 ^ (w - l), (c + 1) * 2 ^ (w - l)) (c' * 2 ^ (w - l'), (c' + 1) * 2 ^ (w - l'))"
proof -
  have "c = c' div 2 ^ (l' - l)"
    using assms(1,2) by (simp add: vlc_clash_def Let_def)
  then have "c * 2 ^ (l' - l) \<le> c'" "c' < (c + 1) * 2 ^ (l' - l)"
    using div_times_less_eq_dividend [of c' "2 ^ (l' - l)"]
      dividend_less_div_times [of "2 ^ (l' - l)" c'] by (simp_all add: algebra_simps)
  then have "c * 2 ^ (l' - l) * 2 ^ (w - l') \<le> c' * 2 ^ (w - l')"
    "c' * 2 ^ (w - l') < (c + 1) * 2 ^ (l' - l) * 2 ^ (w - l')"
    by (auto simp del: mult_Suc)
  moreover have "(2::nat) ^ (l' - l) * 2 ^ (w - l') = 2 ^ (w - l)"
    using assms(2,3) by (simp flip: power_add)
  ultimately have "c * 2 ^ (w - l) \<le> c' * 2 ^ (w - l')" "c' * 2 ^ (w - l') < (c + 1) * 2 ^ (w - l)"
    by (metis mult.assoc)+
  moreover have "(0::nat) < 2 ^ (w - l')" "(0::nat) < 2 ^ (w - l)" by simp_all
  ultimately show ?thesis
    unfolding apart_def fst_conv snd_conv add_mult_distrib by linarith
qed

lemma prefix_free_check:
  assumes "vlc_fits w tab" and "follow_each_other (sort_key fst (rev (vlc_intervals w tab)))"
  shows "prefix_free tab"
proof -
  let ?iv = "\<lambda>(c, l, _). (c * 2 ^ (w - l), (c + 1) * 2 ^ (w - l))"
  have pos: "\<forall>x\<in>set (vlc_intervals w tab). fst x < snd x"
    by (auto simp: vlc_intervals_def)
  have "sorted_wrt (\<lambda>x y. snd x \<le> fst y) (sort_key fst (rev (vlc_intervals w tab)))"
    by (rule follow_sorted_wrt) (use assms(2) pos in auto)
  then have "sorted_wrt apart (sort_key fst (rev (vlc_intervals w tab)))"
    by (rule sorted_wrt_mono_rel [rotated]) (simp add: apart_def)
  then have "sorted_wrt apart (vlc_intervals w tab)"
    using pos by (simp add: sorted_wrt_apart)
  then have "sorted_wrt (\<lambda>a b. apart (?iv a) (?iv b)) tab"
    by (simp add: vlc_intervals_def sorted_wrt_map)
  with assms(1) show ?thesis
  proof (induction tab)
    case (Cons a tab)
    have "\<not> vlc_clash a b" if "b \<in> set tab" for b
    proof -
      obtain c l v c' l' v' where e: "a = (c, l, v)" "b = (c', l', v')" by (cases a; cases b)
      have w: "l \<le> w" "l' \<le> w"
        using Cons.prems(1) that by (auto simp: vlc_fits_def list_all_iff e)
      have "apart (?iv a) (?iv b)" using Cons.prems(2) that by simp
      then show ?thesis
        using clash_not_apart [of c l v c' l' v' w] clash_not_apart [of c' l' v' c l v w] w
        by (cases "l \<le> l'") (auto simp: e apart_def vlc_clash_sym)
    qed
    with Cons show ?case by (auto simp: list_all_iff vlc_fits_def)
  qed simp
qed

locale vlc_code =
  fixes tab :: "(nat \<times> nat \<times> 'v) list" and w :: nat
  assumes fits: "vlc_fits w tab" and pf: "prefix_free tab"
begin

lemma entry_fits: "(c, l, v) \<in> set tab \<Longrightarrow> l \<le> w \<and> c < 2 ^ l"
  using fits by (auto simp: vlc_fits_def list_all_iff)

lemma search_hit:
  assumes "(c, l, v) \<in> set tab" and "drop_bit (w - l) p = c"
  shows "vlc_search w p tab = Some (c, l, v)"
proof (cases "vlc_search w p tab")
  case None
  with assms show ?thesis by (auto simp: vlc_search_None)
next
  case (Some e)
  obtain c' l' v' where e: "e = (c', l', v')" by (cases e)
  with Some have "(c', l', v') \<in> set tab" "drop_bit (w - l') p = c'"
    using vlc_search_Some by fastforce+
  moreover have "vlc_clash (c, l, v) (c', l', v')"
    using assms calculation entry_fits by (intro match_clash) auto
  ultimately show ?thesis
    using prefix_free_no_clash [OF pf] assms(1) Some e by blast
qed

text \<open>The order of the entries does not matter.\<close>

lemma search_order:
  assumes "set tab' = set tab"
  shows "vlc_search w p tab' = vlc_search w p tab"
proof (cases "vlc_search w p tab'")
  case None
  then have "vlc_search w p tab = None" unfolding vlc_search_None assms .
  with None show ?thesis by simp
next
  case (Some e)
  then show ?thesis
    using vlc_search_Some [of w p tab'] search_hit assms by (cases e) auto
qed

end

locale vlc_reader = bit_reader rd pk sk rest inv + vlc_code tab w
  for rd :: "'b \<Rightarrow> nat \<Rightarrow> nat \<times> 'b" and pk sk rest inv
    and tab :: "(nat \<times> nat \<times> 'v) list" and w +
  assumes width: "w \<le> 32"
begin

lemma decode_code:
  assumes "inv b" and "(c, l, v) \<in> set tab" and "rest b = to_bits l c @ r" and "w \<le> length (rest b)"
  shows "vlc_search w (pk b w) tab = Some (c, l, v)" and "rest (sk b l) = r"
proof -
  have l: "l \<le> w" "c < 2 ^ l" using entry_fits [OF assms(2)] by auto
  have "pk b w div 2 ^ (w - l) = c"
    using peek_prefix [OF assms(1,3) width] l assms(4) by simp
  then show "vlc_search w (pk b w) tab = Some (c, l, v)"
    by (intro search_hit [OF assms(2)]) (simp add: drop_bit_eq_div)
  show "rest (sk b l) = r"
    using skip_code [OF assms(1,3)] l width by simp
qed

lemma decoded_code:
  assumes "inv b" and "vlc_search w (pk b w) tab = Some (c, l, v)" and "w \<le> length (rest b)"
  shows "(c, l, v) \<in> set tab" and "take l (rest b) = to_bits l c" and "rest (sk b l) = drop l (rest b)"
proof -
  from vlc_search_Some [OF assms(2)] show e: "(c, l, v) \<in> set tab" by simp
  then have l: "l \<le> w" "c < 2 ^ l" using entry_fits by auto
  have "bits_val (take l (rest b)) = c"
    using vlc_search_Some [OF assms(2)] bits_val_take_div [of "take w (rest b)" w l] assms(1,3) l width
    by (simp add: drop_bit_eq_div pk_val)
  then show "take l (rest b) = to_bits l c"
    using l assms(3) by (intro bits_val_inj) auto
  show "rest (sk b l) = drop l (rest b)"
    using l assms width by (simp add: sk_rest)
qed

end

section \<open>DC coefficients\<close>

definition dc_size_luminance_codes :: "(nat \<times> nat \<times> int) list" where
  "dc_size_luminance_codes = [
     (0b00, 2, 1), (0b01, 2, 2), (0b100, 3, 0), (0b101, 3, 3), (0b110, 3, 4), (0b1110, 4, 5),
     (0b11110, 5, 6), (0b111110, 6, 7), (0b1111110, 7, 8), (0b11111110, 8, 9),
     (0b111111110, 9, 10), (0b111111111, 9, 11)]"

definition decode_dc_size_luminance :: "mpeg2_bits \<Rightarrow> int \<times> mpeg2_bits" where
  "decode_dc_size_luminance bs =
     (case vlc_search 9 (mpeg2_bits_peek bs 9) dc_size_luminance_codes of
        Some (_, len, sz) \<Rightarrow> (sz, mpeg2_bits_skip bs len)
      | None \<Rightarrow> (-1, bs))"

definition dc_size_chrominance_codes :: "(nat \<times> nat \<times> int) list" where
  "dc_size_chrominance_codes = [
     (0b00, 2, 0), (0b01, 2, 1), (0b10, 2, 2), (0b110, 3, 3), (0b1110, 4, 4), (0b11110, 5, 5),
     (0b111110, 6, 6), (0b1111110, 7, 7), (0b11111110, 8, 8), (0b111111110, 9, 9),
     (0b1111111110, 10, 10), (0b1111111111, 10, 11)]"

definition decode_dc_size_chrominance :: "mpeg2_bits \<Rightarrow> int \<times> mpeg2_bits" where
  "decode_dc_size_chrominance bs =
     (case vlc_search 10 (mpeg2_bits_peek bs 10) dc_size_chrominance_codes of
        Some (_, len, sz) \<Rightarrow> (sz, mpeg2_bits_skip bs len)
      | None \<Rightarrow> (-1, bs))"

text \<open>\<open>half_range\<close> and \<open>val\<close> are \<open>int16\<close>. A size is a value of the two decoders above, so that it
  is not negative here.\<close>

definition decode_dc_differential :: "mpeg2_bits \<Rightarrow> int \<Rightarrow> int \<times> mpeg2_bits" where
  "decode_dc_differential bs dc_size =
     (if dc_size = 0 then (0, bs)
      else
        let half_range = s16 (2 ^ nat (dc_size - 1));
            (v, bs) = mpeg2_bits_read bs (nat dc_size);
            val = s16 (int v);
            val = (if val < half_range then s16 (val - (2 * half_range - 1)) else val)
        in (val, bs))"

section \<open>AC coefficients\<close>

record run_level =
  rl_run :: int
  rl_level :: int

definition VLC_EOB :: int where "VLC_EOB = -1"
definition VLC_ESCAPE :: int where "VLC_ESCAPE = -2"
definition VLC_ERROR :: int where "VLC_ERROR = -3"

text \<open>An entry of a coefficient table: the code and its length, the run and the level.\<close>

type_synonym ac_vlc_entry = "nat \<times> nat \<times> int \<times> int"

definition ac_table_b14 :: "ac_vlc_entry list" where
  "ac_table_b14 = [
     (0b10, 2, -1, 0),
     (0b11, 2, 0, 1),
     (0b011, 3, 1, 1),
     (0b0100, 4, 0, 2),
     (0b0101, 4, 2, 1),
     (0b00101, 5, 0, 3),
     (0b00110, 5, 4, 1),
     (0b00111, 5, 3, 1),
     (0b000100, 6, 7, 1),
     (0b000101, 6, 6, 1),
     (0b000110, 6, 1, 2),
     (0b000111, 6, 5, 1),
     (0b0000100, 7, 2, 2),
     (0b0000101, 7, 9, 1),
     (0b0000110, 7, 0, 4),
     (0b0000111, 7, 8, 1),
     (0b00100000, 8, 13, 1),
     (0b00100001, 8, 0, 6),
     (0b00100010, 8, 12, 1),
     (0b00100011, 8, 11, 1),
     (0b00100100, 8, 3, 2),
     (0b00100101, 8, 1, 3),
     (0b00100110, 8, 0, 5),
     (0b00100111, 8, 10, 1),
     (0b0000001000, 10, 16, 1),
     (0b0000001001, 10, 5, 2),
     (0b0000001010, 10, 0, 7),
     (0b0000001011, 10, 2, 3),
     (0b0000001100, 10, 1, 4),
     (0b0000001101, 10, 15, 1),
     (0b0000001110, 10, 14, 1),
     (0b0000001111, 10, 4, 2),
     (0b000000010000, 12, 0, 11),
     (0b000000010001, 12, 8, 2),
     (0b000000010010, 12, 4, 3),
     (0b000000010011, 12, 0, 10),
     (0b000000010100, 12, 2, 4),
     (0b000000010101, 12, 7, 2),
     (0b000000010110, 12, 21, 1),
     (0b000000010111, 12, 20, 1),
     (0b000000011000, 12, 0, 9),
     (0b000000011001, 12, 19, 1),
     (0b000000011010, 12, 18, 1),
     (0b000000011011, 12, 1, 5),
     (0b000000011100, 12, 3, 3),
     (0b000000011101, 12, 0, 8),
     (0b000000011110, 12, 6, 2),
     (0b000000011111, 12, 17, 1),
     (0b0000000010000, 13, 10, 2),
     (0b0000000010001, 13, 9, 2),
     (0b0000000010010, 13, 5, 3),
     (0b0000000010011, 13, 3, 4),
     (0b0000000010100, 13, 2, 5),
     (0b0000000010101, 13, 1, 7),
     (0b0000000010110, 13, 1, 6),
     (0b0000000010111, 13, 0, 15),
     (0b0000000011000, 13, 0, 14),
     (0b0000000011001, 13, 0, 13),
     (0b0000000011010, 13, 0, 12),
     (0b0000000011011, 13, 26, 1),
     (0b0000000011100, 13, 25, 1),
     (0b0000000011101, 13, 24, 1),
     (0b0000000011110, 13, 23, 1),
     (0b0000000011111, 13, 22, 1),
     (0b00000000010000, 14, 0, 31),
     (0b00000000010001, 14, 0, 30),
     (0b00000000010010, 14, 0, 29),
     (0b00000000010011, 14, 0, 28),
     (0b00000000010100, 14, 0, 27),
     (0b00000000010101, 14, 0, 26),
     (0b00000000010110, 14, 0, 25),
     (0b00000000010111, 14, 0, 24),
     (0b00000000011000, 14, 0, 23),
     (0b00000000011001, 14, 0, 22),
     (0b00000000011010, 14, 0, 21),
     (0b00000000011011, 14, 0, 20),
     (0b00000000011100, 14, 0, 19),
     (0b00000000011101, 14, 0, 18),
     (0b00000000011110, 14, 0, 17),
     (0b00000000011111, 14, 0, 16),
     (0b000000000010000, 15, 0, 40),
     (0b000000000010001, 15, 0, 39),
     (0b000000000010010, 15, 0, 38),
     (0b000000000010011, 15, 0, 37),
     (0b000000000010100, 15, 0, 36),
     (0b000000000010101, 15, 0, 35),
     (0b000000000010110, 15, 0, 34),
     (0b000000000010111, 15, 0, 33),
     (0b000000000011000, 15, 0, 32),
     (0b000000000011001, 15, 1, 14),
     (0b000000000011010, 15, 1, 13),
     (0b000000000011011, 15, 1, 12),
     (0b000000000011100, 15, 1, 11),
     (0b000000000011101, 15, 1, 10),
     (0b000000000011110, 15, 1, 9),
     (0b000000000011111, 15, 1, 8),
     (0b0000000000010000, 16, 1, 18),
     (0b0000000000010001, 16, 1, 17),
     (0b0000000000010010, 16, 1, 16),
     (0b0000000000010011, 16, 1, 15),
     (0b0000000000010100, 16, 6, 3),
     (0b0000000000010101, 16, 16, 2),
     (0b0000000000010110, 16, 15, 2),
     (0b0000000000010111, 16, 14, 2),
     (0b0000000000011000, 16, 13, 2),
     (0b0000000000011001, 16, 12, 2),
     (0b0000000000011010, 16, 11, 2),
     (0b0000000000011011, 16, 31, 1),
     (0b0000000000011100, 16, 30, 1),
     (0b0000000000011101, 16, 29, 1),
     (0b0000000000011110, 16, 28, 1),
     (0b0000000000011111, 16, 27, 1),
     (0b000001, 6, -2, 0)]"

definition ac_table_b15 :: "ac_vlc_entry list" where
  "ac_table_b15 = [
     (0b0110, 4, -1, 0),
     (0b10, 2, 0, 1),
     (0b110, 3, 0, 2),
     (0b010, 3, 1, 1),
     (0b0111, 4, 0, 3),
     (0b11100, 5, 0, 4),
     (0b11101, 5, 0, 5),
     (0b00101, 5, 2, 1),
     (0b00110, 5, 1, 2),
     (0b00111, 5, 3, 1),
     (0b000101, 6, 0, 6),
     (0b000100, 6, 0, 7),
     (0b000001, 6, -2, 0),
     (0b0111011, 7, 1, 3),
     (0b0111100, 7, 0, 8),
     (0b1111000, 7, 9, 1),
     (0b1111010, 7, 10, 1),
     (0b0000111, 7, 2, 2),
     (0b0000110, 7, 6, 1),
     (0b0000100, 7, 8, 1),
     (0b0000101, 7, 7, 1),
     (0b00100011, 8, 0, 9),
     (0b00100010, 8, 0, 10),
     (0b11111010, 8, 0, 11),
     (0b11111011, 8, 0, 12),
     (0b11111110, 8, 0, 13),
     (0b11111111, 8, 0, 14),
     (0b00100111, 8, 1, 4),
     (0b00100000, 8, 1, 5),
     (0b11111100, 8, 2, 3),
     (0b11111101, 8, 4, 1),
     (0b00100110, 8, 3, 2),
     (0b00100001, 8, 11, 1),
     (0b00100101, 8, 12, 1),
     (0b00100100, 8, 13, 1),
     (0b000000100, 9, 5, 1),
     (0b000000101, 9, 14, 1),
     (0b000000111, 9, 15, 1),
     (0b0000001100, 10, 2, 4),
     (0b0000001101, 10, 16, 1),
     (0b000000011100, 12, 3, 3),
     (0b000000010010, 12, 4, 2),
     (0b000000011110, 12, 6, 2),
     (0b000000010101, 12, 7, 2),
     (0b000000010001, 12, 8, 2),
     (0b000000011111, 12, 17, 1),
     (0b000000011010, 12, 18, 1),
     (0b000000011001, 12, 19, 1),
     (0b000000010111, 12, 20, 1),
     (0b000000010110, 12, 21, 1),
     (0b0000000010110, 13, 1, 6),
     (0b0000000010101, 13, 1, 7),
     (0b0000000010100, 13, 2, 5),
     (0b0000000010011, 13, 3, 4),
     (0b0000000010010, 13, 5, 2),
     (0b0000000010001, 13, 9, 2),
     (0b0000000010000, 13, 10, 2),
     (0b0000000011111, 13, 22, 1),
     (0b0000000011110, 13, 23, 1),
     (0b0000000011101, 13, 24, 1),
     (0b0000000011100, 13, 25, 1),
     (0b0000000011011, 13, 26, 1),
     (0b00000000011111, 14, 0, 16),
     (0b00000000011110, 14, 0, 17),
     (0b00000000011101, 14, 0, 18),
     (0b00000000011100, 14, 0, 19),
     (0b00000000011011, 14, 0, 20),
     (0b00000000011010, 14, 0, 21),
     (0b00000000011001, 14, 0, 22),
     (0b00000000011000, 14, 0, 23),
     (0b00000000010111, 14, 0, 24),
     (0b00000000010110, 14, 0, 25),
     (0b00000000010101, 14, 0, 26),
     (0b00000000010100, 14, 0, 27),
     (0b00000000010011, 14, 0, 28),
     (0b00000000010010, 14, 0, 29),
     (0b00000000010001, 14, 0, 30),
     (0b00000000010000, 14, 0, 31),
     (0b000000000011000, 15, 0, 32),
     (0b000000000010111, 15, 0, 33),
     (0b000000000010110, 15, 0, 34),
     (0b000000000010101, 15, 0, 35),
     (0b000000000010100, 15, 0, 36),
     (0b000000000010011, 15, 0, 37),
     (0b000000000010010, 15, 0, 38),
     (0b000000000010001, 15, 0, 39),
     (0b000000000010000, 15, 0, 40),
     (0b000000000011111, 15, 1, 8),
     (0b000000000011110, 15, 1, 9),
     (0b000000000011101, 15, 1, 10),
     (0b000000000011100, 15, 1, 11),
     (0b000000000011011, 15, 1, 12),
     (0b000000000011010, 15, 1, 13),
     (0b000000000011001, 15, 1, 14),
     (0b0000000000010011, 16, 1, 15),
     (0b0000000000010010, 16, 1, 16),
     (0b0000000000010001, 16, 1, 17),
     (0b0000000000010000, 16, 1, 18),
     (0b0000000000010100, 16, 6, 3),
     (0b0000000000011010, 16, 11, 2),
     (0b0000000000011001, 16, 12, 2),
     (0b0000000000011000, 16, 13, 2),
     (0b0000000000010111, 16, 14, 2),
     (0b0000000000010110, 16, 15, 2),
     (0b0000000000010101, 16, 16, 2),
     (0b0000000000011111, 16, 27, 1),
     (0b0000000000011110, 16, 28, 1),
     (0b0000000000011101, 16, 29, 1),
     (0b0000000000011100, 16, 30, 1),
     (0b0000000000011011, 16, 31, 1)]"


text \<open>What both decoders do with a matched entry that is not an end of block: an escape carries the
  run and the level as fixed-length fields, another entry is followed by the sign. \<open>level\<close> is an
  \<open>int16\<close> read from 12 bits and sign-extended.\<close>

definition escaped_level :: "nat \<Rightarrow> int" where
  "escaped_level v = (if v AND 0x800 \<noteq> 0 then s16 (int (v OR 0xF000)) else s16 (int v))"

definition read_escape :: "mpeg2_bits \<Rightarrow> run_level \<times> mpeg2_bits" where
  "read_escape bs =
     (let (r, bs) = mpeg2_bits_read bs 6;
          (v, bs) = mpeg2_bits_read bs 12;
          level = escaped_level v
      in (if int r \<ge> 64 \<or> level = 0 \<or> level > 2047 \<or> level < -2048
          then (\<lparr>rl_run = VLC_ERROR, rl_level = level\<rparr>, bs)
          else (\<lparr>rl_run = int r, rl_level = level\<rparr>, bs)))"

definition read_sign :: "mpeg2_bits \<Rightarrow> int \<Rightarrow> int \<Rightarrow> run_level \<times> mpeg2_bits" where
  "read_sign bs r level =
     (let (sign, bs) = mpeg2_bits_read bs 1
      in (\<lparr>rl_run = r, rl_level = (if sign \<noteq> 0 then - level else level)\<rparr>, bs))"

definition vlc_error :: run_level where
  "vlc_error = \<lparr>rl_run = VLC_ERROR, rl_level = 0\<rparr>"

definition vlc_eob :: run_level where
  "vlc_eob = \<lparr>rl_run = VLC_EOB, rl_level = 0\<rparr>"

text \<open>The loop over the table skips the entry of the end of block.\<close>

definition ac_codes_b14 :: "ac_vlc_entry list" where
  "ac_codes_b14 = filter (\<lambda>(_, _, r, _). r \<noteq> VLC_EOB) ac_table_b14"

definition decode_ac_coeff_b14 :: "mpeg2_bits \<Rightarrow> bool \<Rightarrow> run_level \<times> mpeg2_bits" where
  "decode_ac_coeff_b14 bs first_coeff =
     (if \<not> mpeg2_bits_available bs 2 then (vlc_error, bs)
      else if mpeg2_bits_peek bs 2 = 0b10 then (vlc_eob, mpeg2_bits_skip bs 2)
      else if first_coeff \<and> mpeg2_bits_peek bs 1 = 1 then
        read_sign (mpeg2_bits_skip bs 1) 0 1
      else
        let peek = mpeg2_bits_peek bs 17
        in case vlc_search 17 peek ac_codes_b14 of
             Some (_, len, r, level) \<Rightarrow>
               if r = VLC_ESCAPE then read_escape (mpeg2_bits_skip bs len)
               else read_sign (mpeg2_bits_skip bs len) r level
           | None \<Rightarrow> if peek = 0 then (vlc_eob, bs) else (vlc_error, bs))"

definition decode_ac_coeff_b15 :: "mpeg2_bits \<Rightarrow> run_level \<times> mpeg2_bits" where
  "decode_ac_coeff_b15 bs =
     (if \<not> mpeg2_bits_available bs 2 then (vlc_error, bs)
      else
        let peek = mpeg2_bits_peek bs 17
        in case vlc_search 17 peek ac_table_b15 of
             Some (_, len, r, level) \<Rightarrow>
               if r = VLC_EOB then (vlc_eob, mpeg2_bits_skip bs len)
               else if r = VLC_ESCAPE then read_escape (mpeg2_bits_skip bs len)
               else read_sign (mpeg2_bits_skip bs len) r level
           | None \<Rightarrow> if peek = 0 then (vlc_eob, bs) else (vlc_error, bs))"

section \<open>Macroblock address increment\<close>

text \<open>The cascade peeks as many bits as the code it tries has; the ranges of the 10 and 11 bit codes
  are written out in ascending order. Its two recursive calls make it a
  \<open>partial_function\<close>; \<open>address_increment_total\<close> below shows that it returns.\<close>

fun vlc_probe :: "mpeg2_bits \<Rightarrow> (nat \<times> nat \<times> 'v) list \<Rightarrow> (nat \<times> nat \<times> 'v) option" where
  "vlc_probe bs [] = None"
| "vlc_probe bs ((code, len, v) # es) =
     (if mpeg2_bits_peek bs len = code then Some (code, len, v) else vlc_probe bs es)"

definition address_increment_codes :: "(nat \<times> nat \<times> int) list" where
  "address_increment_codes =
     [(0b1, 1, 1), (0b011, 3, 2), (0b010, 3, 3), (0b0011, 4, 4), (0b0010, 4, 5),
      (0b00011, 5, 6), (0b00010, 5, 7), (0b0000111, 7, 8), (0b0000110, 7, 9),
      (0b00001011, 8, 10), (0b00001010, 8, 11), (0b00001001, 8, 12), (0b00001000, 8, 13),
      (0b00000111, 8, 14), (0b00000110, 8, 15)]
     @ map (\<lambda>p. (p, 10, 16 + (int p - 0b0000010100))) [0b0000010100..<0b0000010111 + 1]
     @ map (\<lambda>p. (p, 10, 20 + (int p - 0b0000010000))) [0b0000010000..<0b0000010011 + 1]
     @ map (\<lambda>p. (p, 11, 24 + (int p - 0b00000011000))) [0b00000011000..<0b00000011111 + 1]"

partial_function (option) decode_macroblock_address_increment ::
  "mpeg2_bits \<Rightarrow> (int \<times> mpeg2_bits) option" where
  "decode_macroblock_address_increment bs =
     (if mpeg2_bits_available bs 23 \<and> mpeg2_bits_peek bs 23 = 0 then Some (-2, bs)
      else case vlc_probe bs address_increment_codes of
             Some (_, len, n) \<Rightarrow> Some (n, mpeg2_bits_skip bs len)
           | None \<Rightarrow>
               if mpeg2_bits_peek bs 11 = 0b00000001000 then
                 Option.bind (decode_macroblock_address_increment (mpeg2_bits_skip bs 11))
                   (\<lambda>(n, bs). Some (if n > 0 then 33 + n else -1, bs))
               else if mpeg2_bits_peek bs 11 = 0b00000001111 then
                 decode_macroblock_address_increment (mpeg2_bits_skip bs 11)
               else Some (-1, bs))"

declare decode_macroblock_address_increment.simps [code]

section \<open>Macroblock types\<close>

text \<open>The flags of \<open>mpeg2_parser.h\<close>.\<close>

definition MB_QUANT :: nat where "MB_QUANT = 0x01"
definition MB_MOTION_FORWARD :: nat where "MB_MOTION_FORWARD = 0x02"
definition MB_MOTION_BACKWARD :: nat where "MB_MOTION_BACKWARD = 0x04"
definition MB_PATTERN :: nat where "MB_PATTERN = 0x08"
definition MB_INTRA :: nat where "MB_INTRA = 0x10"

text \<open>\<open>None\<close> is the result -1; else the flag \<open>has_quant\<close>, or the type, that the source stores.\<close>

definition decode_macroblock_type_i :: "mpeg2_bits \<Rightarrow> bool option \<times> mpeg2_bits" where
  "decode_macroblock_type_i bs =
     (if mpeg2_bits_peek bs 1 = 1 then (Some False, mpeg2_bits_skip bs 1)
      else if mpeg2_bits_peek bs 2 = 0b01 then (Some True, mpeg2_bits_skip bs 2)
      else (None, bs))"

definition macroblock_type_p_codes :: "(nat \<times> nat \<times> nat) list" where
  "macroblock_type_p_codes = [
     (0x1, 1, MB_MOTION_FORWARD OR MB_PATTERN), (0x1, 2, MB_MOTION_FORWARD),
     (0x1, 3, MB_MOTION_FORWARD), (0x3, 5, MB_INTRA),
     (0x2, 5, MB_QUANT OR MB_MOTION_FORWARD OR MB_PATTERN), (0x1, 5, MB_QUANT OR MB_MOTION_FORWARD),
     (0x1, 6, MB_QUANT OR MB_INTRA)]"

definition decode_macroblock_type_p :: "mpeg2_bits \<Rightarrow> nat option \<times> mpeg2_bits" where
  "decode_macroblock_type_p bs =
     (case vlc_search 6 (mpeg2_bits_peek bs 6) macroblock_type_p_codes of
        Some (_, len, t) \<Rightarrow> (Some t, mpeg2_bits_skip bs len)
      | None \<Rightarrow> (None, bs))"

definition macroblock_type_b_codes :: "(nat \<times> nat \<times> nat) list" where
  "macroblock_type_b_codes = [
     (0x2, 2, MB_MOTION_FORWARD OR MB_MOTION_BACKWARD),
     (0x3, 2, MB_MOTION_FORWARD OR MB_MOTION_BACKWARD OR MB_PATTERN),
     (0x2, 3, MB_MOTION_BACKWARD), (0x3, 3, MB_MOTION_BACKWARD OR MB_PATTERN),
     (0x2, 4, MB_MOTION_FORWARD), (0x3, 4, MB_MOTION_FORWARD OR MB_PATTERN),
     (0x3, 5, MB_INTRA),
     (0x2, 5, MB_QUANT OR MB_MOTION_FORWARD OR MB_MOTION_BACKWARD OR MB_PATTERN),
     (0x3, 6, MB_QUANT OR MB_MOTION_BACKWARD OR MB_PATTERN),
     (0x2, 6, MB_QUANT OR MB_MOTION_FORWARD OR MB_PATTERN), (0x1, 6, MB_QUANT OR MB_INTRA)]"

definition decode_macroblock_type_b :: "mpeg2_bits \<Rightarrow> nat option \<times> mpeg2_bits" where
  "decode_macroblock_type_b bs =
     (case vlc_search 6 (mpeg2_bits_peek bs 6) macroblock_type_b_codes of
        Some (_, len, t) \<Rightarrow> (Some t, mpeg2_bits_skip bs len)
      | None \<Rightarrow> (None, bs))"

section \<open>Motion vectors\<close>

definition motion_codes :: "(nat \<times> nat \<times> int) list" where
  "motion_codes = [
     (0b01, 2, 1), (0b001, 3, 2), (0b0001, 4, 3), (0b00011, 5, 4), (0b00010, 5, 5),
     (0b000011, 6, 6), (0b000010, 6, 7), (0b0000011, 7, 8), (0b0000010, 7, 9),
     (0b00000011, 8, 10), (0b00000010, 8, 11), (0b000000011, 9, 12), (0b000000010, 9, 13),
     (0b0000000011, 10, 14), (0b0000000010, 10, 15), (0b00000000010, 11, 16)]"

definition decode_motion_code :: "mpeg2_bits \<Rightarrow> int \<times> mpeg2_bits" where
  "decode_motion_code bs =
     (if mpeg2_bits_peek bs 1 = 1 then (0, mpeg2_bits_skip bs 1)
      else case vlc_search 12 (mpeg2_bits_peek bs 12) motion_codes of
             Some (_, len, mc) \<Rightarrow>
               let (sign, bs) = mpeg2_bits_read (mpeg2_bits_skip bs len) 1
               in (if sign \<noteq> 0 then - mc else mc, bs)
           | None \<Rightarrow> (-999, bs))"

text \<open>The reconstruction of a vector from its code and residual. The callers pass \<open>f_code\<close> at least
  1, so that \<open>r_size\<close> is not negative.\<close>

definition motion_delta :: "nat \<Rightarrow> int \<Rightarrow> int \<Rightarrow> int" where
  "motion_delta r_size motion_code motion_residual =
     (if motion_code > 0 then push_bit r_size (motion_code - 1) + motion_residual + 1
      else if motion_code < 0 then - (push_bit r_size (- motion_code - 1) + motion_residual + 1)
      else 0)"

definition wrap_motion :: "nat \<Rightarrow> int \<Rightarrow> int" where
  "wrap_motion r_size pred =
     (let range = push_bit (r_size + 4) 1;
          pred = (if pred \<ge> range then pred - 2 * range else pred);
          pred = (if pred < - range then pred + 2 * range else pred)
      in pred)"

definition decode_motion_vector :: "mpeg2_bits \<Rightarrow> int \<Rightarrow> nat \<Rightarrow> int \<times> mpeg2_bits" where
  "decode_motion_vector bs mv_pred fcode =
     (let (motion_code, bs) = decode_motion_code bs
      in if motion_code = -999 then (mv_pred, bs)
         else
           let r_size = fcode - 1;
               (motion_residual, bs) = (if r_size > 0 \<and> motion_code \<noteq> 0
                 then mpeg2_bits_read bs r_size else (0, bs))
           in (s16 (wrap_motion r_size (mv_pred + motion_delta r_size motion_code (int motion_residual))),
               bs))"

section \<open>Coded block pattern\<close>

text \<open>The table is indexed by the pattern; the loop tries the patterns in ascending order.\<close>

definition cbp_table :: "(nat \<times> nat) list" where
  "cbp_table = [
     (0x01, 9), (0x0b, 5), (0x09, 5), (0x0d, 6),
     (0x0d, 4), (0x17, 7), (0x13, 7), (0x1f, 8),
     (0x0c, 4), (0x16, 7), (0x12, 7), (0x1e, 8),
     (0x13, 5), (0x1b, 8), (0x17, 8), (0x13, 8),
     (0x0b, 4), (0x15, 7), (0x11, 7), (0x1d, 8),
     (0x11, 5), (0x19, 8), (0x15, 8), (0x11, 8),
     (0x0f, 6), (0x0f, 8), (0x0d, 8), (0x03, 9),
     (0x0f, 5), (0x0b, 8), (0x07, 8), (0x07, 9),
     (0x0a, 4), (0x14, 7), (0x10, 7), (0x1c, 8),
     (0x0e, 6), (0x0e, 8), (0x0c, 8), (0x02, 9),
     (0x10, 5), (0x18, 8), (0x14, 8), (0x10, 8),
     (0x0e, 5), (0x0a, 8), (0x06, 8), (0x06, 9),
     (0x12, 5), (0x1a, 8), (0x16, 8), (0x12, 8),
     (0x0d, 5), (0x09, 8), (0x05, 8), (0x05, 9),
     (0x0c, 5), (0x08, 8), (0x04, 8), (0x04, 9),
     (0x07, 3), (0x0a, 5), (0x08, 5), (0x0c, 6)]"

definition cbp_codes :: "(nat \<times> nat \<times> int) list" where
  "cbp_codes = map (\<lambda>(cbp, code, len). (code, len, int cbp)) (enumerate 0 cbp_table)"

definition decode_coded_block_pattern :: "mpeg2_bits \<Rightarrow> int \<times> mpeg2_bits" where
  "decode_coded_block_pattern bs =
     (case vlc_search 9 (mpeg2_bits_peek bs 9) cbp_codes of
        Some (_, len, cbp) \<Rightarrow> (cbp, mpeg2_bits_skip bs len)
      | None \<Rightarrow> (-1, bs))"

section \<open>The decoders keep the reader well formed\<close>

definition keeps_reader :: "mpeg2_bits \<Rightarrow> mpeg2_bits \<Rightarrow> bool" where
  "keeps_reader bs bs' \<longleftrightarrow> bits_wf bs \<and> bits_wf bs' \<and> same_buffer bs bs'"

named_theorems keeps_intros \<open>steps that keep the reader well formed and its buffer unchanged\<close>

lemma keeps_refl: "bits_wf bs \<Longrightarrow> keeps_reader bs bs"
  by (simp add: keeps_reader_def)

lemma keeps_trans: "keeps_reader a b \<Longrightarrow> keeps_reader b c \<Longrightarrow> keeps_reader a c"
  by (auto simp: keeps_reader_def intro: same_buffer_trans)

lemma keeps_wf: "keeps_reader a b \<Longrightarrow> bits_wf b"
  by (simp add: keeps_reader_def)

lemma keeps_small: "keeps_reader a b \<Longrightarrow> small_buffer b = small_buffer a"
  by (simp add: keeps_reader_def small_buffer_same)

lemma keeps_skip [keeps_intros]: "keeps_reader a b \<Longrightarrow> keeps_reader a (mpeg2_bits_skip b n)"
  by (auto simp: keeps_reader_def skip_wf intro: same_buffer_trans)

lemma keeps_read [keeps_intros]: "keeps_reader a b \<Longrightarrow> n \<le> 32 \<Longrightarrow> keeps_reader a (snd (mpeg2_bits_read b n))"
  by (auto simp: keeps_reader_def read_wf intro: same_buffer_trans read_same)

lemma keeps_dc_size_luminance [keeps_intros]:
  "keeps_reader a b \<Longrightarrow> keeps_reader a (snd (decode_dc_size_luminance b))"
  by (auto simp: decode_dc_size_luminance_def intro: keeps_intros split: option.split)

lemma keeps_dc_size_chrominance [keeps_intros]:
  "keeps_reader a b \<Longrightarrow> keeps_reader a (snd (decode_dc_size_chrominance b))"
  by (auto simp: decode_dc_size_chrominance_def intro: keeps_intros split: option.split)

lemma keeps_dc_differential [keeps_intros]:
  "keeps_reader a b \<Longrightarrow> n \<le> 11 \<Longrightarrow> keeps_reader a (snd (decode_dc_differential b n))"
  by (auto simp: decode_dc_differential_def Let_def split_beta intro!: keeps_intros)

lemma keeps_read_escape [keeps_intros]: "keeps_reader a b \<Longrightarrow> keeps_reader a (snd (read_escape b))"
  by (auto simp: read_escape_def Let_def split_beta intro!: keeps_intros)

lemma keeps_read_sign [keeps_intros]: "keeps_reader a b \<Longrightarrow> keeps_reader a (snd (read_sign b r l))"
  by (auto simp: read_sign_def Let_def split_beta intro!: keeps_intros)

lemma keeps_ac_coeff_b14 [keeps_intros]:
  "keeps_reader a b \<Longrightarrow> keeps_reader a (snd (decode_ac_coeff_b14 b first))"
  by (auto simp: decode_ac_coeff_b14_def Let_def intro!: keeps_intros split: option.split)

lemma keeps_ac_coeff_b15 [keeps_intros]:
  "keeps_reader a b \<Longrightarrow> keeps_reader a (snd (decode_ac_coeff_b15 b))"
  by (auto simp: decode_ac_coeff_b15_def Let_def intro!: keeps_intros split: option.split)

lemma keeps_macroblock_type_i [keeps_intros]:
  "keeps_reader a b \<Longrightarrow> keeps_reader a (snd (decode_macroblock_type_i b))"
  by (auto simp: decode_macroblock_type_i_def intro: keeps_intros)

lemma keeps_macroblock_type_p [keeps_intros]:
  "keeps_reader a b \<Longrightarrow> keeps_reader a (snd (decode_macroblock_type_p b))"
  by (auto simp: decode_macroblock_type_p_def intro: keeps_intros split: option.split)

lemma keeps_macroblock_type_b [keeps_intros]:
  "keeps_reader a b \<Longrightarrow> keeps_reader a (snd (decode_macroblock_type_b b))"
  by (auto simp: decode_macroblock_type_b_def intro: keeps_intros split: option.split)

lemma keeps_motion_code [keeps_intros]:
  "keeps_reader a b \<Longrightarrow> keeps_reader a (snd (decode_motion_code b))"
  by (auto simp: decode_motion_code_def Let_def split_beta intro!: keeps_intros split: option.split)

lemma keeps_motion_vector [keeps_intros]:
  "keeps_reader a b \<Longrightarrow> n \<le> 33 \<Longrightarrow> keeps_reader a (snd (decode_motion_vector b v n))"
  by (auto simp: decode_motion_vector_def Let_def split_beta intro!: keeps_intros)

lemma keeps_coded_block_pattern [keeps_intros]:
  "keeps_reader a b \<Longrightarrow> keeps_reader a (snd (decode_coded_block_pattern b))"
  by (auto simp: decode_coded_block_pattern_def intro: keeps_intros split: option.split)

section \<open>The tables meet their contracts\<close>

interpretation dc_lum: vlc_reader mpeg2_bits_read mpeg2_bits_peek mpeg2_bits_skip rest_bits bits_wf
    dc_size_luminance_codes 9
  by unfold_locales (simp_all add: dc_size_luminance_codes_def vlc_fits_def vlc_clash_def Let_def)

interpretation dc_chr: vlc_reader mpeg2_bits_read mpeg2_bits_peek mpeg2_bits_skip rest_bits bits_wf
    dc_size_chrominance_codes 10
  by unfold_locales (simp_all add: dc_size_chrominance_codes_def vlc_fits_def vlc_clash_def Let_def)

interpretation type_p: vlc_reader mpeg2_bits_read mpeg2_bits_peek mpeg2_bits_skip rest_bits bits_wf
    macroblock_type_p_codes 6
  by unfold_locales (simp_all add: macroblock_type_p_codes_def vlc_fits_def vlc_clash_def Let_def)

interpretation type_b: vlc_reader mpeg2_bits_read mpeg2_bits_peek mpeg2_bits_skip rest_bits bits_wf
    macroblock_type_b_codes 6
  by unfold_locales (simp_all add: macroblock_type_b_codes_def vlc_fits_def vlc_clash_def Let_def)

lemma vlc_search_hidden_two:
  assumes "tab = xs @ d # e # ys" and "tab' = xs @ ys"
    and "h \<in> set xs" and "vlc_prefix h d" and "vlc_prefix h e" and "fst (snd d) \<le> w" and "fst (snd e) \<le> w"
  shows "vlc_search w p tab = vlc_search w p tab'"
  using assms by (simp add: vlc_search_hidden)

text \<open>The codes of 4 and 5 are hidden by the code of 3.\<close>

definition motion_codes_visible :: "(nat \<times> nat \<times> int) list" where
  "motion_codes_visible = filter (\<lambda>(_, _, mc). mc \<noteq> 4 \<and> mc \<noteq> 5) motion_codes"

lemma motion_search: "vlc_search 12 p motion_codes = vlc_search 12 p motion_codes_visible"
proof (rule vlc_search_hidden_two [where h = "(0b0001, 4, 3)"])
  show "motion_codes = take 3 motion_codes @ (0b00011, 5, 4) # (0b00010, 5, 5) # drop 5 motion_codes"
    by (simp add: motion_codes_def)
qed (simp_all add: motion_codes_visible_def motion_codes_def vlc_prefix_def)

interpretation motion: vlc_reader mpeg2_bits_read mpeg2_bits_peek mpeg2_bits_skip rest_bits bits_wf
    motion_codes_visible 12
  by unfold_locales
    (simp_all add: motion_codes_visible_def motion_codes_def vlc_fits_def vlc_clash_def Let_def)

lemma cbp_codes_fit: "vlc_fits 9 cbp_codes"
  by (simp add: cbp_codes_def cbp_table_def vlc_fits_def)

interpretation cbp: vlc_reader mpeg2_bits_read mpeg2_bits_peek mpeg2_bits_skip rest_bits bits_wf
    cbp_codes 9
proof unfold_locales
  show "prefix_free cbp_codes"
    by (rule prefix_free_check [OF cbp_codes_fit])
      (simp add: cbp_codes_def cbp_table_def vlc_intervals_def)
qed (simp_all add: cbp_codes_fit)

lemma ac_codes_b14_eq: "ac_codes_b14 = tl ac_table_b14"
  by (simp add: ac_codes_b14_def ac_table_b14_def VLC_EOB_def)

lemma ac_codes_b14_fit: "vlc_fits 17 ac_codes_b14"
  by (simp add: ac_codes_b14_eq ac_table_b14_def vlc_fits_def)

interpretation b14: vlc_reader mpeg2_bits_read mpeg2_bits_peek mpeg2_bits_skip rest_bits bits_wf
    ac_codes_b14 17
proof unfold_locales
  show "prefix_free ac_codes_b14"
    by (rule prefix_free_check [OF ac_codes_b14_fit])
      (simp add: ac_codes_b14_eq ac_table_b14_def vlc_intervals_def)
qed (simp_all add: ac_codes_b14_fit)

text \<open>In B-15 the code of (0, 3) hides those of (1, 3) and (0, 8).\<close>

definition ac_codes_b15 :: "ac_vlc_entry list" where
  "ac_codes_b15 = filter (\<lambda>(c, l, _). \<not> (l = 7 \<and> (c = 0b0111011 \<or> c = 0b0111100))) ac_table_b15"

lemma ac_table_b15_split:
  "ac_table_b15 = take 13 ac_table_b15 @ (0b0111011, 7, 1, 3) # (0b0111100, 7, 0, 8) # drop 15 ac_table_b15"
  "ac_codes_b15 = take 13 ac_table_b15 @ drop 15 ac_table_b15"
  by (simp_all add: ac_codes_b15_def ac_table_b15_def)

lemma b15_search: "vlc_search 17 p ac_table_b15 = vlc_search 17 p ac_codes_b15"
  by (rule vlc_search_hidden_two [OF ac_table_b15_split, where h = "(0b0111, 4, 0, 3)"])
    (simp_all add: ac_table_b15_def vlc_prefix_def)

lemma ac_codes_b15_fit: "vlc_fits 17 ac_codes_b15"
  by (simp add: ac_codes_b15_def ac_table_b15_def vlc_fits_def)

interpretation b15: vlc_reader mpeg2_bits_read mpeg2_bits_peek mpeg2_bits_skip rest_bits bits_wf
    ac_codes_b15 17
proof unfold_locales
  show "prefix_free ac_codes_b15"
    by (rule prefix_free_check [OF ac_codes_b15_fit])
      (simp add: ac_codes_b15_def ac_table_b15_def vlc_intervals_def)
qed (simp_all add: ac_codes_b15_fit)

section \<open>The decoders invert the encoding of a symbol\<close>

lemma decode_dc_size_luminance_code:
  assumes "bits_wf bs" and "(c, l, n) \<in> set dc_size_luminance_codes"
    and "rest_bits bs = to_bits l c @ r" and "9 \<le> length (rest_bits bs)"
  shows "fst (decode_dc_size_luminance bs) = n" and "rest_bits (snd (decode_dc_size_luminance bs)) = r"
  using dc_lum.decode_code [OF assms] by (simp_all add: decode_dc_size_luminance_def)

lemma decode_dc_size_chrominance_code:
  assumes "bits_wf bs" and "(c, l, n) \<in> set dc_size_chrominance_codes"
    and "rest_bits bs = to_bits l c @ r" and "10 \<le> length (rest_bits bs)"
  shows "fst (decode_dc_size_chrominance bs) = n" and "rest_bits (snd (decode_dc_size_chrominance bs)) = r"
  using dc_chr.decode_code [OF assms] by (simp_all add: decode_dc_size_chrominance_def)

lemma dc_size_range:
  "fst (decode_dc_size_luminance bs) \<in> {-1..11}" "fst (decode_dc_size_chrominance bs) \<in> {-1..11}"
proof -
  have "\<forall>(c, l, n) \<in> set dc_size_luminance_codes. n \<in> {0..11}"
    and "\<forall>(c, l, n) \<in> set dc_size_chrominance_codes. n \<in> {0..11}"
    by (simp_all add: dc_size_luminance_codes_def dc_size_chrominance_codes_def)
  then show "fst (decode_dc_size_luminance bs) \<in> {-1..11}" "fst (decode_dc_size_chrominance bs) \<in> {-1..11}"
    by (fastforce simp: decode_dc_size_luminance_def decode_dc_size_chrominance_def
          dest: vlc_search_Some split: option.split)+
qed

text \<open>A differential: its size is the number of bits of its absolute value, and a negative one is
  stored less one.\<close>

definition enc_dc_differential :: "nat \<Rightarrow> int \<Rightarrow> bool list" where
  "enc_dc_differential n d = to_bits n (nat (if d > 0 then d else d + 2 ^ n - 1))"

definition dc_size_of :: "nat \<Rightarrow> int \<Rightarrow> bool" where
  "dc_size_of n d \<longleftrightarrow> (if n = 0 then d = 0 else 2 ^ (n - 1) \<le> \<bar>d\<bar> \<and> \<bar>d\<bar> < 2 ^ n)"

lemma decode_dc_differential_code:
  assumes "bits_wf bs" and "n \<le> 11" and "dc_size_of n d" and "rest_bits bs = enc_dc_differential n d @ r"
  shows "fst (decode_dc_differential bs (int n)) = d"
    and "rest_bits (snd (decode_dc_differential bs (int n))) = r"
proof -
  let ?v = "if d > 0 then d else d + 2 ^ n - 1"
  have "fst (decode_dc_differential bs (int n)) = d \<and> rest_bits (snd (decode_dc_differential bs (int n))) = r"
  proof (cases n)
    case 0
    with assms show ?thesis
      by (simp add: decode_dc_differential_def enc_dc_differential_def dc_size_of_def to_bits_def)
  next
    case (Suc k)
    have d: "2 ^ k \<le> \<bar>d\<bar>" "\<bar>d\<bar> < 2 ^ n" using assms(3) Suc by (auto simp: dc_size_of_def)
    have k: "(2::int) ^ n = 2 * 2 ^ k" "(2::int) ^ n \<le> 2 ^ 11"
      using Suc power_increasing [OF assms(2), of "2::int"] by simp_all
    have v: "0 \<le> ?v" "?v < 2 ^ n" using d k by auto
    then have "nat ?v < 2 ^ n" by (simp add: nat_less_iff)
    with mpeg2.read_field [OF assms(1,4) [unfolded enc_dc_differential_def]] assms(2)
    have rd: "fst (mpeg2_bits_read bs n) = nat ?v" "rest_bits (snd (mpeg2_bits_read bs n)) = r" by auto
    have "(0::int) < 2 ^ k" by simp
    with k v d have "s16 (2 ^ k) = 2 ^ k" "s16 ?v = ?v"
      by (auto intro!: s16_id)
    then show ?thesis
      using Suc rd v d k by (auto simp: decode_dc_differential_def Let_def split_beta nat_add_distrib intro!: s16_id)
  qed
  then show "fst (decode_dc_differential bs (int n)) = d"
    and "rest_bits (snd (decode_dc_differential bs (int n))) = r" by auto
qed

section \<open>Coefficients\<close>

text \<open>The encoding of a run and a level: the table's code and the sign where the table has the pair,
  the escape elsewhere.\<close>

definition is_coeff :: "int \<times> int \<Rightarrow> bool" where
  "is_coeff x \<longleftrightarrow> (case x of (r, lev) \<Rightarrow> 0 \<le> r \<and> r < 64 \<and> lev \<noteq> 0 \<and> -2048 \<le> lev \<and> lev \<le> 2047)"

definition enc_coeff :: "ac_vlc_entry list \<Rightarrow> int \<times> int \<Rightarrow> bool list" where
  "enc_coeff tab x = (case x of (run, lev) \<Rightarrow>
     (case find (\<lambda>(_, _, r, v). r = run \<and> v = \<bar>lev\<bar>) tab of
        Some (c, l, _) \<Rightarrow> to_bits l c @ [lev < 0]
      | None \<Rightarrow> to_bits 6 0b000001 @ to_bits 6 (nat run) @ to_bits 12 (nat (lev mod 4096))))"

lemma s16_mod: "s16 x = (x + 32768) mod 65536 - 32768"
  by (simp add: s16_def signed_take_bit_eq_take_bit_shift take_bit_eq_mod)

lemma s16_wrap: "-32768 \<le> x \<Longrightarrow> x < 32768 \<Longrightarrow> s16 (x + 65536) = x"
  using s16_id [of x] mod_add_self2 [of "x + 32768" 65536] by (simp add: s16_mod algebra_simps)

lemma escaped_level: "-2048 \<le> lev \<Longrightarrow> lev \<le> 2047 \<Longrightarrow> escaped_level (nat (lev mod 4096)) = lev"
proof -
  assume r: "-2048 \<le> lev" "lev \<le> 2047"
  define v where "v = nat (lev mod 4096)"
  have m: "0 \<le> lev mod 4096" "lev mod 4096 < 4096" by simp_all
  have lev: "lev mod 4096 = (if lev < 0 then lev + 4096 else lev)"
    using r by (auto intro: int_mod_pos_eq [where q = "-1"])
  have v: "v < 4096" "lev = (if v < 2048 then int v else int v - 4096)"
    using r m lev by (auto simp: v_def split: if_splits)
  have "v AND 2 ^ 11 = 0 \<longleftrightarrow> even (v div 2048)"
    unfolding and_exp_eq_0_iff_not_bit by (simp add: bit_iff_odd)
  moreover have "v div 2048 = (if v < 2048 then 0 else 1)"
    using v(1) by auto
  ultimately have bit: "v AND 0x800 \<noteq> 0 \<longleftrightarrow> \<not> v < 2048"
    by simp
  have "v OR 0xF000 = v + 0xF000"
    using or_add_disjoint [of v 12 15] v(1) by (simp add: push_bit_eq_mult or.commute)
  with bit v s16_wrap [of "int v - 4096"] show "escaped_level (nat (lev mod 4096)) = lev"
    by (auto simp: escaped_level_def algebra_simps simp flip: v_def intro!: s16_id)
qed

lemma peek_shorter:
  assumes "bits_wf bs" and "n \<le> w" and "w \<le> 32" and "w \<le> length (rest_bits bs)"
  shows "mpeg2_bits_peek bs n = drop_bit (w - n) (mpeg2_bits_peek bs w)"
  using assms bits_val_take_div [of "take w (rest_bits bs)" w n]
  by (simp add: peek_val drop_bit_eq_div)

text \<open>No code of the list starts with \<open>code\<close>, which is not longer than it.\<close>

lemma peek_no_clash:
  assumes "bits_wf bs" and "vlc_fits 17 tab" and "(c, l, v) \<in> set tab"
    and "rest_bits bs = to_bits l c @ r" and "17 \<le> length (rest_bits bs)"
    and "\<not> vlc_clash (code, n, v') (c, l, v)" and "n \<le> 17"
  shows "mpeg2_bits_peek bs n \<noteq> code"
proof
  assume n: "mpeg2_bits_peek bs n = code"
  have l: "l \<le> 17" "c < 2 ^ l" using assms(2,3) by (auto simp: vlc_fits_def list_all_iff)
  then have "mpeg2_bits_peek bs l = c"
    using assms(1,4) by (simp add: peek_val)
  then have "drop_bit (17 - l) (mpeg2_bits_peek bs 17) = c"
    using peek_shorter [OF assms(1) l(1) _ assms(5)] by simp
  moreover have "drop_bit (17 - n) (mpeg2_bits_peek bs 17) = code"
    using peek_shorter [OF assms(1) assms(7) _ assms(5)] n by simp
  ultimately have "vlc_clash (code, n, v') (c, l, v)"
    using l(1) assms(7) by (intro match_clash)
  with assms(6) show False ..
qed

lemma read_sign_code:
  assumes "bits_wf bs" and "rest_bits bs = neg # r"
  shows "fst (read_sign bs run v) = \<lparr>rl_run = run, rl_level = (if neg then - v else v)\<rparr>"
    and "rest_bits (snd (read_sign bs run v)) = r"
  using assms by (auto simp: read_sign_def Let_def split_beta read_val read_rest bits_val_Cons)

lemma read_escape_code:
  assumes "bits_wf bs" and "is_coeff (run, lev)"
    and "rest_bits bs = to_bits 6 (nat run) @ to_bits 12 (nat (lev mod 4096)) @ r"
  shows "fst (read_escape bs) = \<lparr>rl_run = run, rl_level = lev\<rparr>" and "rest_bits (snd (read_escape bs)) = r"
proof -
  have run: "0 \<le> run" "nat run < 2 ^ 6" and lev: "lev \<noteq> 0" "-2048 \<le> lev" "lev \<le> 2047"
    using assms(2) by (auto simp: is_coeff_def nat_less_iff)
  note r1 = mpeg2.read_field [OF assms(1,3) _ run(2), simplified]
  have "nat (lev mod 4096) < 2 ^ 12" by (simp add: nat_less_iff)
  note r2 = mpeg2.read_field [OF r1(3,2) _ this, simplified]
  show "fst (read_escape bs) = \<lparr>rl_run = run, rl_level = lev\<rparr>" and "rest_bits (snd (read_escape bs)) = r"
    using r1 r2 run lev escaped_level [OF lev(2,3)] by (auto simp: read_escape_def Let_def split_beta)
qed

lemma find_coeff:
  assumes "find (\<lambda>(_, _, r, v). r = run \<and> v = \<bar>lev\<bar>) tab = Some (c, l, y)"
  shows "(c, l, run, \<bar>lev\<bar>) \<in> set tab" and "y = (run, \<bar>lev\<bar>)"
  using assms by (auto simp: find_Some_iff dest: nth_mem)

lemma available_2: "bits_wf bs \<Longrightarrow> small_buffer bs \<Longrightarrow> 17 \<le> length (rest_bits bs) \<Longrightarrow> mpeg2_bits_available bs 2"
  by (subst available_rest) auto

text \<open>What follows a matched code, and its laws for a table that meets the contract.\<close>

definition ac_step :: "mpeg2_bits \<Rightarrow> nat \<times> nat \<times> int \<times> int \<Rightarrow> run_level \<times> mpeg2_bits" where
  "ac_step bs e = (case e of (_, len, r, level) \<Rightarrow>
     if r = VLC_ESCAPE then read_escape (mpeg2_bits_skip bs len)
     else read_sign (mpeg2_bits_skip bs len) r level)"

locale ac_reader = vlc_reader mpeg2_bits_read mpeg2_bits_peek mpeg2_bits_skip rest_bits bits_wf tab 17
  for tab :: "ac_vlc_entry list" +
  assumes escape: "(0b000001, 6, VLC_ESCAPE, 0) \<in> set tab"
begin

lemma coeff_code:
  assumes "bits_wf bs" and "is_coeff x" and "rest_bits bs = enc_coeff tab x @ r"
    and "17 \<le> length (rest_bits bs)"
  obtains c l y s where "(c, l, y) \<in> set tab" and "rest_bits bs = to_bits l c @ s"
    and "vlc_search 17 (mpeg2_bits_peek bs 17) tab = Some (c, l, y)"
    and "fst y = VLC_ESCAPE \<or> fst y = fst x"
    and "(c, l) \<noteq> (0b000001, 6) \<Longrightarrow> y = (fst x, \<bar>snd x\<bar>)"
    and "fst (ac_step bs (c, l, y)) = \<lparr>rl_run = fst x, rl_level = snd x\<rparr>"
    and "rest_bits (snd (ac_step bs (c, l, y))) = r"
proof -
  obtain run lev where x: "x = (run, lev)" by (cases x)
  show ?thesis
  proof (cases "find (\<lambda>(_, _, r, v). r = run \<and> v = \<bar>lev\<bar>) tab")
    case None
    then have e: "rest_bits bs = to_bits 6 0b000001 @ (to_bits 6 (nat run) @ to_bits 12 (nat (lev mod 4096)) @ r)"
      using assms(3) by (simp add: enc_coeff_def x)
    note d = decode_code [OF assms(1) escape e assms(4)]
    note f = read_escape_code [OF skip_wf [OF assms(1)] assms(2) [unfolded x] d(2)]
    show ?thesis
      by (rule that [OF escape e d(1)]) (use f in \<open>simp_all add: ac_step_def x VLC_ESCAPE_def\<close>)
  next
    case (Some z)
    obtain c l y where z: "z = (c, l, y)" by (cases z)
    note m = find_coeff [OF Some [unfolded z]]
    have e: "rest_bits bs = to_bits l c @ (lev < 0) # r"
      using assms(3) Some by (simp add: enc_coeff_def x z)
    note d = decode_code [OF assms(1) m(1) e assms(4)]
    note f = read_sign_code [OF skip_wf [OF assms(1)] d(2), of run "\<bar>lev\<bar>"]
    have "run \<noteq> VLC_ESCAPE" using assms(2) by (auto simp: is_coeff_def x VLC_ESCAPE_def)
    then show ?thesis
      by (intro that [OF m(1) e d(1)]) (use f in \<open>auto simp: ac_step_def x\<close>)
  qed
qed

end

interpretation ac_b14: ac_reader ac_codes_b14
  by unfold_locales (simp add: ac_codes_b14_eq ac_table_b14_def VLC_ESCAPE_def)

interpretation ac_b15: ac_reader ac_codes_b15
  by unfold_locales (simp add: ac_codes_b15_def ac_table_b15_def VLC_ESCAPE_def)

text \<open>Apart from \<open>11\<close>, the code of (0, 1), no code of B-14 starts with a 1, and none of B-15 is that
  of the end of block.\<close>

lemma b14_no_clash:
  "\<forall>e\<in>set ac_codes_b14. \<not> vlc_clash (0b10, 2, undefined) e"
  "\<forall>e\<in>set ac_codes_b14. e = (0b11, 2, 0, 1) \<or> \<not> vlc_clash (1, 1, undefined) e"
  by (simp_all add: ac_codes_b14_eq ac_table_b14_def vlc_clash_def Let_def)

lemma b15_eob: "\<forall>e\<in>set ac_codes_b15. fst (snd (snd e)) = VLC_EOB \<longrightarrow> e = (0b0110, 4, -1, 0)"
  "(0b0110, 4, -1, 0) \<in> set ac_codes_b15"
  by (simp_all add: ac_codes_b15_def ac_table_b15_def VLC_EOB_def)

lemma decode_ac_coeff_b14_code:
  assumes "bits_wf bs" and "small_buffer bs" and "is_coeff x"
    and "rest_bits bs = enc_coeff ac_codes_b14 x @ r" and "17 \<le> length (rest_bits bs)"
    and "first \<Longrightarrow> fst x \<noteq> 0 \<or> \<bar>snd x\<bar> \<noteq> 1"
  shows "fst (decode_ac_coeff_b14 bs first) = \<lparr>rl_run = fst x, rl_level = snd x\<rparr>"
    and "rest_bits (snd (decode_ac_coeff_b14 bs first)) = r"
proof -
  note no = b14_no_clash
  obtain c l y s where e: "(c, l, y) \<in> set ac_codes_b14" "rest_bits bs = to_bits l c @ s"
    and search: "vlc_search 17 (mpeg2_bits_peek bs 17) ac_codes_b14 = Some (c, l, y)"
    and y: "(c, l) \<noteq> (0b000001, 6) \<Longrightarrow> y = (fst x, \<bar>snd x\<bar>)"
    and res: "fst (ac_step bs (c, l, y)) = \<lparr>rl_run = fst x, rl_level = snd x\<rparr>"
      "rest_bits (snd (ac_step bs (c, l, y))) = r"
    by (rule ac_b14.coeff_code [OF assms(1,3-5)]) blast
  have p2: "mpeg2_bits_peek bs 2 \<noteq> 0b10"
    using no(1) e(1) by (intro peek_no_clash [OF assms(1) ac_codes_b14_fit e assms(5)]) auto
  have p1: "mpeg2_bits_peek bs 1 \<noteq> 1" if first
  proof -
    have "(c, l, y) \<noteq> (0b11, 2, 0, 1)"
      using y assms(6) [OF that] by auto
    with no(2) e(1) show ?thesis
      by (intro peek_no_clash [OF assms(1) ac_codes_b14_fit e assms(5)]) auto
  qed
  have "decode_ac_coeff_b14 bs first = ac_step bs (c, l, y)"
    unfolding decode_ac_coeff_b14_def Let_def ac_step_def
    using available_2 [OF assms(1,2,5)] p1 p2 search by (auto split: prod.split)
  with res show "fst (decode_ac_coeff_b14 bs first) = \<lparr>rl_run = fst x, rl_level = snd x\<rparr>"
    and "rest_bits (snd (decode_ac_coeff_b14 bs first)) = r" by simp_all
qed

lemma decode_ac_coeff_b15_code:
  assumes "bits_wf bs" and "small_buffer bs" and "is_coeff x"
    and "rest_bits bs = enc_coeff ac_codes_b15 x @ r" and "17 \<le> length (rest_bits bs)"
  shows "fst (decode_ac_coeff_b15 bs) = \<lparr>rl_run = fst x, rl_level = snd x\<rparr>"
    and "rest_bits (snd (decode_ac_coeff_b15 bs)) = r"
proof -
  obtain c l y s where e: "(c, l, y) \<in> set ac_codes_b15" "rest_bits bs = to_bits l c @ s"
    and search: "vlc_search 17 (mpeg2_bits_peek bs 17) ac_codes_b15 = Some (c, l, y)"
    and y: "fst y = VLC_ESCAPE \<or> fst y = fst x"
    and res: "fst (ac_step bs (c, l, y)) = \<lparr>rl_run = fst x, rl_level = snd x\<rparr>"
      "rest_bits (snd (ac_step bs (c, l, y))) = r"
    by (rule ac_b15.coeff_code [OF assms(1,3-5)])
  have "fst y \<noteq> VLC_EOB"
    using y assms(3) by (auto simp: is_coeff_def VLC_EOB_def VLC_ESCAPE_def)
  then have "decode_ac_coeff_b15 bs = ac_step bs (c, l, y)"
    unfolding decode_ac_coeff_b15_def Let_def ac_step_def
    using available_2 [OF assms(1,2,5)] search b15_search \<open>fst y \<noteq> VLC_EOB\<close>
    by (auto split: prod.split)
  with res show "fst (decode_ac_coeff_b15 bs) = \<lparr>rl_run = fst x, rl_level = snd x\<rparr>"
    and "rest_bits (snd (decode_ac_coeff_b15 bs)) = r" by simp_all
qed

text \<open>The end of a block, in both tables.\<close>

lemma decode_ac_coeff_b14_eob:
  assumes "bits_wf bs" and "small_buffer bs" and "rest_bits bs = True # False # r"
  shows "fst (decode_ac_coeff_b14 bs first) = vlc_eob" and "rest_bits (snd (decode_ac_coeff_b14 bs first)) = r"
proof -
  have "mpeg2_bits_available bs 2"
    using assms by (subst available_rest) auto
  moreover have "mpeg2_bits_peek bs 2 = 2"
    using assms by (simp add: peek_val bits_val_Cons)
  ultimately have "decode_ac_coeff_b14 bs first = (vlc_eob, mpeg2_bits_skip bs 2)"
    by (simp add: decode_ac_coeff_b14_def)
  moreover have "rest_bits (mpeg2_bits_skip bs 2) = r"
    using assms by (simp add: skip_rest)
  ultimately show "fst (decode_ac_coeff_b14 bs first) = vlc_eob"
    and "rest_bits (snd (decode_ac_coeff_b14 bs first)) = r" by simp_all
qed

lemma decode_ac_coeff_b15_eob:
  assumes "bits_wf bs" and "small_buffer bs" and "rest_bits bs = to_bits 4 0b0110 @ r"
    and "17 \<le> length (rest_bits bs)"
  shows "fst (decode_ac_coeff_b15 bs) = vlc_eob" and "rest_bits (snd (decode_ac_coeff_b15 bs)) = r"
proof -
  note d = b15.decode_code [OF assms(1) b15_eob(2) assms(3,4)]
  have "decode_ac_coeff_b15 bs = (vlc_eob, mpeg2_bits_skip bs 4)"
    using d(1) b15_search available_2 [OF assms(1,2,4)]
    by (simp add: decode_ac_coeff_b15_def VLC_EOB_def)
  with d(2) show "fst (decode_ac_coeff_b15 bs) = vlc_eob"
    and "rest_bits (snd (decode_ac_coeff_b15 bs)) = r" by simp_all
qed

text \<open>The code \<open>0111011\<close> of (1, 3) is read as the code \<open>0111\<close> of (0, 3), three bits too early.\<close>

lemma b15_hidden_code:
  assumes "bits_wf bs" and "small_buffer bs" and "rest_bits bs = to_bits 7 0b0111011 @ r"
    and "17 \<le> length (rest_bits bs)"
  shows "fst (decode_ac_coeff_b15 bs) = \<lparr>rl_run = 0, rl_level = 3\<rparr>"
    and "rest_bits (snd (decode_ac_coeff_b15 bs)) = [True, True] @ r"
proof -
  have "is_coeff (0, 3)" by (simp add: is_coeff_def)
  moreover have "to_bits 7 0b0111011 = enc_coeff ac_codes_b15 (0, 3) @ [True, True]"
    by code_simp
  then have "rest_bits bs = enc_coeff ac_codes_b15 (0, 3) @ ([True, True] @ r)"
    using assms(3) by simp
  ultimately show "fst (decode_ac_coeff_b15 bs) = \<lparr>rl_run = 0, rl_level = 3\<rparr>"
    and "rest_bits (snd (decode_ac_coeff_b15 bs)) = [True, True] @ r"
    using decode_ac_coeff_b15_code [OF assms(1,2) _ _ assms(4)] by force+
qed

section \<open>Macroblock addresses\<close>

lemma vlc_probe_Some: "vlc_probe bs tab = Some (c, l, v) \<Longrightarrow> (c, l, v) \<in> set tab \<and> mpeg2_bits_peek bs l = c"
  by (induction bs tab rule: vlc_probe.induct) (auto split: if_splits)

lemma vlc_probe_search:
  assumes "bits_wf bs" and "vlc_fits 11 tab" and "11 \<le> length (rest_bits bs)"
  shows "vlc_probe bs tab = vlc_search 11 (mpeg2_bits_peek bs 11) tab"
  using assms by (induction tab) (auto simp: vlc_fits_def peek_shorter)

lemma address_increment_list:
  "address_increment_codes = [(1, 1, 1), (3, 3, 2), (2, 3, 3), (3, 4, 4), (2, 4, 5),
     (3, 5, 6), (2, 5, 7), (7, 7, 8), (6, 7, 9), (11, 8, 10), (10, 8, 11), (9, 8, 12), (8, 8, 13),
     (7, 8, 14), (6, 8, 15), (20, 10, 16), (21, 10, 17), (22, 10, 18), (23, 10, 19),
     (16, 10, 20), (17, 10, 21), (18, 10, 22), (19, 10, 23), (24, 11, 24), (25, 11, 25), (26, 11, 26),
     (27, 11, 27), (28, 11, 28), (29, 11, 29), (30, 11, 30), (31, 11, 31)]"
  by (simp add: address_increment_codes_def upt_conv_Cons)

lemma address_increment_codes_ok: "\<forall>(c, l, n) \<in> set address_increment_codes. 0 < c \<and> l \<le> 11 \<and> 1 \<le> n \<and> n \<le> 31"
  by (simp add: address_increment_list)

interpretation addr: vlc_reader mpeg2_bits_read mpeg2_bits_peek mpeg2_bits_skip rest_bits bits_wf
    address_increment_codes 11
  by unfold_locales (simp_all add: address_increment_list vlc_fits_def vlc_clash_def Let_def)

lemma skip_rest_small:
  assumes "bits_wf bs" and "small_buffer bs" and "rest_bits bs \<noteq> []" and "n \<le> 32"
  shows "rest_bits (mpeg2_bits_skip bs n) = drop n (rest_bits bs)"
proof -
  have "bit_offset (mpeg2_bits_skip bs n) = bit_offset bs + n"
    using assms rest_nonempty_less [OF assms(1,3)] by (intro skip_offset) (auto simp: small_buffer_def)
  then show ?thesis
    by (intro rest_bits_offset) simp_all
qed

lemma peek_empty: "bits_wf bs \<Longrightarrow> rest_bits bs = [] \<Longrightarrow> n \<le> 32 \<Longrightarrow> mpeg2_bits_peek bs n = 0"
  by (simp add: peek_val)

text \<open>The decoder returns on every stream: each recursive call follows 11 bits that are not all
  zero. The increment is bounded by the bits that are left, so that the C \<open>int\<close> does not overflow
  for a stream below 64 MiB.\<close>

lemma address_increment_empty:
  assumes "bits_wf bs" and "rest_bits bs = []"
  shows "decode_macroblock_address_increment bs
     = Some (if mpeg2_bits_available bs 23 then -2 else -1, bs)"
proof -
  have "vlc_probe bs address_increment_codes = None"
    using address_increment_codes_ok
    by (cases "vlc_probe bs address_increment_codes")
      (fastforce dest!: vlc_probe_Some simp: peek_empty [OF assms])+
  then show ?thesis
    by (subst decode_macroblock_address_increment.simps) (simp add: peek_empty [OF assms])
qed

lemma address_increment_returns:
  assumes "bits_wf bs" and "small_buffer bs"
  shows "\<exists>n bs'. decode_macroblock_address_increment bs = Some (n, bs') \<and> keeps_reader bs bs'
    \<and> (n = -2 \<or> n = -1 \<or> 1 \<le> n) \<and> n \<le> 31 + 3 * int (length (rest_bits bs))"
  using assms
proof (induction "length (rest_bits bs)" arbitrary: bs rule: less_induct)
  case less
  let ?skip = "mpeg2_bits_skip bs 11"
  have keep: "keeps_reader bs ?skip" and refl: "keeps_reader bs bs"
    using less.prems(1) by (auto intro: keeps_intros keeps_refl)
  consider (empty) "rest_bits bs = []"
    | (turn) "rest_bits bs \<noteq> []" "\<not> (mpeg2_bits_available bs 23 \<and> mpeg2_bits_peek bs 23 = 0)"
        "vlc_probe bs address_increment_codes = None" "mpeg2_bits_peek bs 11 \<in> {8, 15}"
    | (eos) "mpeg2_bits_available bs 23 \<and> mpeg2_bits_peek bs 23 = 0"
    | (code) c l n where "\<not> (mpeg2_bits_available bs 23 \<and> mpeg2_bits_peek bs 23 = 0)"
        "vlc_probe bs address_increment_codes = Some (c, l, n)"
    | (unknown) "\<not> (mpeg2_bits_available bs 23 \<and> mpeg2_bits_peek bs 23 = 0)"
        "vlc_probe bs address_increment_codes = None" "mpeg2_bits_peek bs 11 \<notin> {8, 15}"
    by (metis (no_types) not_None_eq prod_cases3)
  then show ?case
  proof cases
    case empty
    then show ?thesis
      using refl by (simp add: address_increment_empty [OF less.prems(1)])
  next
    case turn
    have rest: "rest_bits ?skip = drop 11 (rest_bits bs)"
      using skip_rest_small [OF less.prems turn(1)] by simp
    then obtain n bs' where n: "decode_macroblock_address_increment ?skip = Some (n, bs')"
      "keeps_reader ?skip bs'" "n = -2 \<or> n = -1 \<or> 1 \<le> n" "n \<le> 31 + 3 * int (length (rest_bits bs) - 11)"
      using less.hyps [of ?skip] keep less.prems turn(1) by (auto simp: keeps_wf keeps_small)
    have "n \<le> 0" if "length (rest_bits bs) < 11"
      using n(1) that rest address_increment_empty [of ?skip] keeps_wf [OF keep] by (auto split: if_splits)
    then have "33 + n \<le> 31 + 3 * int (length (rest_bits bs))" if "0 < n"
      using n(4) that by (cases "length (rest_bits bs) < 11") auto
    moreover have "decode_macroblock_address_increment bs
        = Some (if mpeg2_bits_peek bs 11 = 8 then if 0 < n then 33 + n else -1 else n, bs')"
      by (subst decode_macroblock_address_increment.simps) (use n(1) turn in auto)
    ultimately show ?thesis
      using n(3,4) keeps_trans [OF keep n(2)] by auto
  next
    case eos
    then show ?thesis
      using refl by (subst decode_macroblock_address_increment.simps) simp
  next
    case code
    then have "1 \<le> n \<and> n \<le> 31"
      using vlc_probe_Some [OF code(2)] address_increment_codes_ok by auto
    moreover have "decode_macroblock_address_increment bs = Some (n, mpeg2_bits_skip bs l)"
      by (subst decode_macroblock_address_increment.simps) (use code in auto)
    ultimately show ?thesis
      using keeps_skip [OF refl, of l] by simp
  next
    case unknown
    have "decode_macroblock_address_increment bs = Some (-1, bs)"
      by (subst decode_macroblock_address_increment.simps) (use unknown in auto)
    then show ?thesis using refl by simp
  qed
qed

text \<open>An address increment is written as escapes, each worth 33, and stuffing before its code.\<close>

definition enc_address_prefix :: "bool list \<Rightarrow> bool list" where
  "enc_address_prefix ps = concat (map (\<lambda>esc. to_bits 11 (if esc then 0b00000001000 else 0b00000001111)) ps)"

lemma address_increment_code:
  assumes "bits_wf bs" and "(c, l, n) \<in> set address_increment_codes"
    and "rest_bits bs = enc_address_prefix ps @ to_bits l c @ r" and "23 \<le> length (to_bits l c @ r)"
  shows "\<exists>bs'. decode_macroblock_address_increment bs = Some (33 * int (count_list ps True) + n, bs')
    \<and> rest_bits bs' = r \<and> keeps_reader bs bs'"
  using assms
proof (induction ps arbitrary: bs)
  case Nil
  then have rest: "rest_bits bs = to_bits l c @ r" and len: "23 \<le> length (rest_bits bs)"
    by (simp_all add: enc_address_prefix_def)
  note ok = address_increment_codes_ok [rule_format, OF Nil.prems(2), simplified]
  note d = addr.decode_code [OF Nil.prems(1,2) rest]
  have "mpeg2_bits_peek bs l = c"
    using rest addr.entry_fits [OF Nil.prems(2)] ok by (simp add: peek_val [OF Nil.prems(1)])
  then have "mpeg2_bits_peek bs 23 \<noteq> 0"
    using peek_shorter [OF Nil.prems(1) _ _ len, of l] ok
    by (cases "mpeg2_bits_peek bs 23 = 0") auto
  moreover have "vlc_probe bs address_increment_codes = Some (c, l, n)"
    using d(1) len vlc_probe_search [OF Nil.prems(1) addr.fits] by simp
  ultimately show ?case
    using d(2) len keeps_skip [OF keeps_refl [OF Nil.prems(1)]]
    by (subst decode_macroblock_address_increment.simps) simp
next
  case (Cons esc ps)
  let ?code = "if esc then 8 else 15 :: nat"
  let ?skip = "mpeg2_bits_skip bs 11"
  have rest: "rest_bits bs = to_bits 11 ?code @ (enc_address_prefix ps @ to_bits l c @ r)"
    using Cons.prems(3) by (simp add: enc_address_prefix_def)
  then have len: "23 \<le> length (rest_bits bs)"
    using Cons.prems(4) by simp
  have p: "mpeg2_bits_peek bs 11 = ?code"
    using rest by (simp add: peek_val [OF Cons.prems(1)])
  then have "mpeg2_bits_peek bs 23 \<noteq> 0"
    using peek_shorter [OF Cons.prems(1) _ _ len, of 11]
    by (cases "mpeg2_bits_peek bs 23 = 0") (auto split: if_splits)
  moreover have "vlc_probe bs address_increment_codes = None"
    using p len vlc_probe_search [OF Cons.prems(1) addr.fits] by (auto simp: address_increment_list)
  moreover obtain bs' where "decode_macroblock_address_increment ?skip = Some (33 * int (count_list ps True) + n, bs')"
    "rest_bits bs' = r" "keeps_reader ?skip bs'"
    using Cons.IH [OF skip_wf Cons.prems(2) _ Cons.prems(4), of bs] mpeg2.skip_code [OF Cons.prems(1) rest]
      Cons.prems(1) by auto
  moreover have "1 \<le> n"
    using address_increment_codes_ok Cons.prems(2) by fastforce
  ultimately show ?case
    using p keeps_trans [OF keeps_skip [OF keeps_refl [OF Cons.prems(1)]]]
    by (subst decode_macroblock_address_increment.simps) (auto split: if_splits)
qed

section \<open>Macroblock types\<close>

lemma decode_macroblock_type_i_code:
  assumes "bits_wf bs" and "rest_bits bs = (if q then [False, True] else [True]) @ r"
  shows "fst (decode_macroblock_type_i bs) = Some q" and "rest_bits (snd (decode_macroblock_type_i bs)) = r"
  using assms by (auto simp: decode_macroblock_type_i_def peek_val skip_rest bits_val_Cons)

lemma decode_macroblock_type_p_code:
  assumes "bits_wf bs" and "(c, l, t) \<in> set macroblock_type_p_codes"
    and "rest_bits bs = to_bits l c @ r" and "6 \<le> length (rest_bits bs)"
  shows "fst (decode_macroblock_type_p bs) = Some t" and "rest_bits (snd (decode_macroblock_type_p bs)) = r"
  using type_p.decode_code [OF assms] by (simp_all add: decode_macroblock_type_p_def)

lemma decode_macroblock_type_b_code:
  assumes "bits_wf bs" and "(c, l, t) \<in> set macroblock_type_b_codes"
    and "rest_bits bs = to_bits l c @ r" and "6 \<le> length (rest_bits bs)"
  shows "fst (decode_macroblock_type_b bs) = Some t" and "rest_bits (snd (decode_macroblock_type_b bs)) = r"
  using type_b.decode_code [OF assms] by (simp_all add: decode_macroblock_type_b_def)

text \<open>The types that are decoded: an intra macroblock has no motion and no pattern, and no P type
  has a backward vector.\<close>

lemma type_p_sound:
  "fst (decode_macroblock_type_p bs) = Some t \<Longrightarrow> t \<in> {0x02, 0x03, 0x0A, 0x0B, 0x10, 0x11}"
  by (auto simp: decode_macroblock_type_p_def macroblock_type_p_codes_def MB_QUANT_def MB_PATTERN_def
      MB_MOTION_FORWARD_def MB_INTRA_def split: option.splits if_splits)

lemma type_b_sound:
  "fst (decode_macroblock_type_b bs) = Some t
     \<Longrightarrow> t \<in> {0x02, 0x04, 0x06, 0x0A, 0x0B, 0x0C, 0x0D, 0x0E, 0x0F, 0x10, 0x11}"
  by (auto simp: decode_macroblock_type_b_def macroblock_type_b_codes_def MB_QUANT_def MB_PATTERN_def
      MB_MOTION_FORWARD_def MB_MOTION_BACKWARD_def MB_INTRA_def split: option.splits if_splits)

section \<open>Motion\<close>

lemma motion_codes_ok:
  "\<forall>(c, l, mc) \<in> set motion_codes_visible. 1 \<le> l \<and> c < 2 ^ (l - 1) \<and> 1 \<le> mc \<and> mc \<le> 16 \<and> mc \<noteq> 4 \<and> mc \<noteq> 5"
  by (simp add: motion_codes_visible_def motion_codes_def)

lemma motion_code_range:
  "fst (decode_motion_code bs) = -999
     \<or> -16 \<le> fst (decode_motion_code bs) \<and> fst (decode_motion_code bs) \<le> 16
       \<and> \<bar>fst (decode_motion_code bs)\<bar> \<notin> {4, 5}"
proof (cases "vlc_search 12 (mpeg2_bits_peek bs 12) motion_codes")
  case None
  then show ?thesis by (simp add: decode_motion_code_def)
next
  case (Some e)
  obtain c l mc where e: "e = (c, l, mc)" by (cases e)
  have "1 \<le> mc" "mc \<le> 16" "mc \<noteq> 4" "mc \<noteq> 5"
    using vlc_search_Some [OF Some [unfolded e motion_search]] motion_codes_ok by auto
  with Some show ?thesis
    by (simp add: decode_motion_code_def Let_def split_beta e)
qed

lemma decode_motion_code_zero:
  assumes "bits_wf bs" and "rest_bits bs = True # r"
  shows "fst (decode_motion_code bs) = 0" and "rest_bits (snd (decode_motion_code bs)) = r"
  using assms by (simp_all add: decode_motion_code_def peek_val bits_val_Cons skip_rest)

lemma decode_motion_code_code:
  assumes "bits_wf bs" and "(c, l, mc) \<in> set motion_codes_visible"
    and "rest_bits bs = to_bits l c @ neg # r" and "12 \<le> length (rest_bits bs)"
  shows "fst (decode_motion_code bs) = (if neg then - mc else mc)"
    and "rest_bits (snd (decode_motion_code bs)) = r"
proof -
  note d = motion.decode_code [OF assms]
  have ok: "1 \<le> l" "c < 2 ^ (l - 1)" "l \<le> 12" "c < 2 ^ l"
    using motion_codes_ok assms(2) motion.entry_fits [OF assms(2)] by fastforce+
  have "mpeg2_bits_peek bs l = c"
    using assms(1,3) ok by (simp add: peek_val)
  then have "mpeg2_bits_peek bs 1 = c div 2 ^ (l - 1)"
    using peek_shorter [OF assms(1) ok(1)] assms(4) ok(3) by (simp add: drop_bit_eq_div)
  then have "mpeg2_bits_peek bs 1 \<noteq> 1"
    using ok(2) by simp
  then have "decode_motion_code bs = (let (sign, bs) = mpeg2_bits_read (mpeg2_bits_skip bs l) 1
      in (if sign \<noteq> 0 then - mc else mc, bs))"
    using d(1) by (simp add: decode_motion_code_def motion_search)
  with d(2) assms(1) show "fst (decode_motion_code bs) = (if neg then - mc else mc)"
    and "rest_bits (snd (decode_motion_code bs)) = r"
    by (auto simp: split_beta Let_def read_val read_rest skip_wf bits_val_Cons)
qed

text \<open>\<open>motion_ok k v\<close>: the vector \<open>v\<close> is in the range of the code \<open>k + 1\<close>.\<close>

definition motion_ok :: "nat \<Rightarrow> int \<Rightarrow> bool" where
  "motion_ok k v \<longleftrightarrow> - (2 ^ (k + 4)) \<le> v \<and> v < 2 ^ (k + 4)"

lemma motion_delta_bound:
  assumes "-16 \<le> mc" and "mc \<le> 16" and "0 \<le> res" and "res < 2 ^ k"
  shows "\<bar>motion_delta k mc res\<bar> \<le> 2 ^ (k + 4)"
proof -
  have b: "0 \<le> m * 2 ^ k + res + 1 \<and> m * 2 ^ k + res + 1 \<le> 16 * 2 ^ k" if "0 \<le> m" "m \<le> 15" for m :: int
  proof -
    have "m * 2 ^ k \<le> 15 * 2 ^ k" using that by (intro mult_right_mono) auto
    moreover have "0 \<le> m * 2 ^ k" using that by simp
    ultimately show ?thesis using that assms(3,4) by linarith
  qed
  have p: "(2::int) ^ (k + 4) = 16 * 2 ^ k" by (simp add: power_add)
  consider "mc = 0" | "0 < mc" | "mc < 0" by linarith
  then show ?thesis
  proof cases
    case 2
    then have "motion_delta k mc res = (mc - 1) * 2 ^ k + res + 1"
      by (simp add: motion_delta_def push_bit_eq_mult)
    moreover have "0 \<le> mc - 1" "mc - 1 \<le> 15" using 2 assms by auto
    ultimately show ?thesis using b [of "mc - 1"] p by linarith
  next
    case 3
    then have "motion_delta k mc res = - ((- mc - 1) * 2 ^ k + res + 1)"
      by (simp add: motion_delta_def push_bit_eq_mult)
    moreover have "0 \<le> - mc - 1" "- mc - 1 \<le> 15" using 3 assms by auto
    ultimately show ?thesis using b [of "- mc - 1"] p by linarith
  qed (simp add: motion_delta_def)
qed

lemma wrap_motion_spec:
  assumes "motion_ok k p" and "\<bar>d\<bar> \<le> 2 ^ (k + 4)"
  shows "motion_ok k (wrap_motion k (p + d))"
    and "(wrap_motion k (p + d) - (p + d)) mod (2 * 2 ^ (k + 4)) = 0"
  using assms by (auto simp: motion_ok_def wrap_motion_def Let_def push_bit_eq_mult)

lemma motion_ok_s16: "k \<le> 11 \<Longrightarrow> motion_ok k v \<Longrightarrow> s16 v = v"
proof -
  assume "k \<le> 11" "motion_ok k v"
  moreover have "(2::int) ^ (k + 4) \<le> 2 ^ 15"
    using \<open>k \<le> 11\<close> by (intro power_increasing) auto
  ultimately show "s16 v = v" by (intro s16_id) (auto simp: motion_ok_def)
qed

lemma motion_vector_range:
  assumes "bits_wf bs" and "motion_ok k p" and "k \<le> 11"
  shows "motion_ok k (fst (decode_motion_vector bs p (Suc k)))"
proof -
  obtain mc bs' where d: "decode_motion_code bs = (mc, bs')" by force
  have wf: "bits_wf bs'"
    using keeps_wf [OF keeps_motion_code [OF keeps_refl [OF assms(1)]]] d by simp
  show ?thesis
  proof (cases "mc = -999")
    case False
    define res where "res = (if 0 < k \<and> mc \<noteq> 0 then fst (mpeg2_bits_read bs' k) else 0)"
    have mc: "-16 \<le> mc" "mc \<le> 16" using motion_code_range [of bs] d False by auto
    have "res < 2 ^ k"
      using assms(3) wf by (simp add: res_def read_val bits_val_less_pow)
    then have "int res < 2 ^ k" by (metis of_nat_less_iff of_nat_power of_nat_numeral)
    note w = wrap_motion_spec [OF assms(2) motion_delta_bound [OF mc _ this]]
    have "fst (decode_motion_vector bs p (Suc k)) = s16 (wrap_motion k (p + motion_delta k mc (int res)))"
      using d False by (simp add: decode_motion_vector_def res_def Let_def split_beta)
    with w(1) motion_ok_s16 [OF assms(3) w(1)] show ?thesis by simp
  qed (use d assms in \<open>simp add: decode_motion_vector_def\<close>)
qed

text \<open>The bits of a vector: the code, the sign and the residual.\<close>

definition enc_motion :: "nat \<Rightarrow> nat \<Rightarrow> nat \<Rightarrow> bool \<Rightarrow> nat \<Rightarrow> bool list" where
  "enc_motion k c l neg res = to_bits l c @ [neg] @ to_bits k res"

lemma decode_motion_vector_code:
  assumes "bits_wf bs" and "(c, l, mc) \<in> set motion_codes_visible" and "k \<le> 11" and "res < 2 ^ k"
    and "rest_bits bs = enc_motion k c l neg res @ r" and "12 \<le> length (rest_bits bs)" and "motion_ok k p"
  shows "fst (decode_motion_vector bs p (Suc k))
      = wrap_motion k (p + motion_delta k (if neg then - mc else mc) (int res))"
    and "rest_bits (snd (decode_motion_vector bs p (Suc k))) = r"
proof -
  obtain mc' bs' where d: "decode_motion_code bs = (mc', bs')" by force
  have "rest_bits bs = to_bits l c @ neg # (to_bits k res @ r)"
    using assms(5) by (simp add: enc_motion_def)
  note c = decode_motion_code_code [OF assms(1,2) this assms(6), unfolded d, simplified]
  have mc: "1 \<le> mc" "mc \<le> 16" using motion_codes_ok assms(2) by fastforce+
  have wf: "bits_wf bs'"
    using keeps_wf [OF keeps_motion_code [OF keeps_refl [OF assms(1)]]] d by simp
  note rd = mpeg2.read_field [OF wf c(2) _ assms(4)]
  have "int res < 2 ^ k" using assms(4) by (metis of_nat_less_iff of_nat_power of_nat_numeral)
  then have "motion_ok k (wrap_motion k (p + motion_delta k mc' (int res)))"
    using mc c(1) by (intro wrap_motion_spec(1) assms(7) motion_delta_bound) auto
  then have "s16 (wrap_motion k (p + motion_delta k mc' (int res))) = wrap_motion k (p + motion_delta k mc' (int res))"
    by (rule motion_ok_s16 [OF assms(3)])
  moreover have "res = 0 \<and> rest_bits bs' = r" if "k = 0"
    using that assms(4) c(2) by (simp add: to_bits_def)
  ultimately show "fst (decode_motion_vector bs p (Suc k))
      = wrap_motion k (p + motion_delta k (if neg then - mc else mc) (int res))"
    and "rest_bits (snd (decode_motion_vector bs p (Suc k))) = r"
    using d mc c(1) rd assms(3)
    by (cases "k = 0"; auto simp: decode_motion_vector_def Let_def split_beta)+
qed

section \<open>Coded block pattern\<close>

lemma decode_coded_block_pattern_code:
  assumes "bits_wf bs" and "(c, l, n) \<in> set cbp_codes"
    and "rest_bits bs = to_bits l c @ r" and "9 \<le> length (rest_bits bs)"
  shows "fst (decode_coded_block_pattern bs) = n" and "rest_bits (snd (decode_coded_block_pattern bs)) = r"
  using cbp.decode_code [OF assms] by (simp_all add: decode_coded_block_pattern_def)

lemma coded_block_pattern_range: "-1 \<le> fst (decode_coded_block_pattern bs) \<and> fst (decode_coded_block_pattern bs) < 64"
proof -
  have "\<forall>(c, l, n) \<in> set cbp_codes. 0 \<le> n \<and> n < 64"
    by (simp add: cbp_codes_def cbp_table_def)
  then show ?thesis
    by (fastforce simp: decode_coded_block_pattern_def dest: vlc_search_Some split: option.split)
qed

section \<open>Properties\<close>

text \<open>Round trip of Table B-14: for every run from 0 to 63 and every level of 12 bits but 0,
  \<open>decode_ac_coeff_b14\<close> reads back the pair from its code, or from the escape where the table has no
  code, and stops behind it (away from the last 17 bits of the buffer).\<close>

theorem coeff_b14_roundtrip:
  assumes "bits_wf bs" and "small_buffer bs" and "is_coeff x"
    and "rest_bits bs = enc_coeff ac_codes_b14 x @ r" and "17 \<le> length (rest_bits bs)"
  shows "fst (decode_ac_coeff_b14 bs False) = \<lparr>rl_run = fst x, rl_level = snd x\<rparr>
    \<and> rest_bits (snd (decode_ac_coeff_b14 bs False)) = r"
  using decode_ac_coeff_b14_code [OF assms, of False] by simp

text \<open>The same round trip for \<open>decode_ac_coeff_b15\<close> and Table B-15, for the codes that are
  reachable; the pairs (1, 3) and (0, 8) have to be escaped.\<close>

theorem coeff_b15_roundtrip:
  assumes "bits_wf bs" and "small_buffer bs" and "is_coeff x"
    and "rest_bits bs = enc_coeff ac_codes_b15 x @ r" and "17 \<le> length (rest_bits bs)"
  shows "fst (decode_ac_coeff_b15 bs) = \<lparr>rl_run = fst x, rl_level = snd x\<rparr>
    \<and> rest_bits (snd (decode_ac_coeff_b15 bs)) = r"
  using decode_ac_coeff_b15_code [OF assms] by simp



text \<open>\<open>decode_macroblock_address_increment\<close> returns on every stream, however many escapes
  and stuffing codes it holds: -2 at the end of the slice, -1 on an unknown code, or an increment of at
  least 1 that three times the bits left (and 31) bound, so that the C \<open>int\<close> cannot overflow on a
  stream below 64 MiB. The reader stays well formed.\<close>

theorem address_increment_total:
  assumes "bits_wf bs" and "small_buffer bs"
  shows "\<exists>n bs'. decode_macroblock_address_increment bs = Some (n, bs') \<and> keeps_reader bs bs'
    \<and> (n = -2 \<or> n = -1 \<or> 1 \<le> n) \<and> n \<le> 31 + 3 * int (length (rest_bits bs))"
  using assms by (rule address_increment_returns)

text \<open>Round trip of the address increment: escapes count 33 each, stuffing nothing, and the
  final code adds its value.\<close>

theorem address_increment_roundtrip:
  assumes "bits_wf bs" and "(c, l, n) \<in> set address_increment_codes"
    and "rest_bits bs = enc_address_prefix ps @ to_bits l c @ r" and "23 \<le> length (to_bits l c @ r)"
  shows "\<exists>bs'. decode_macroblock_address_increment bs = Some (33 * int (count_list ps True) + n, bs')
    \<and> rest_bits bs' = r"
  using address_increment_code [OF assms] by blast

text \<open>Whatever the stream holds, \<open>decode_motion_vector\<close> keeps the predictor in the range of
  its \<open>f_code\<close>, for every code up to 12 (the standard allows 9).\<close>

theorem motion_vector_stays_in_range:
  assumes "bits_wf bs" and "motion_ok k p" and "k \<le> 11"
  shows "motion_ok k (fst (decode_motion_vector bs p (Suc k)))"
  using assms by (rule motion_vector_range)


end
