(* ===== verification/Mpeg2_Blocks.thy ===== *)
theory Mpeg2_Blocks
  imports Mpeg2_Vlc
begin

text \<open>
  The decoders of an 8x8 block of \<open>src/intel_extreme/accelerant/mpeg2_parser.cpp\<close>:
  \<open>decode_intra_block\<close> with its DC prediction and \<open>decode_non_intra_block\<close>, both with the inverse
  quantisation in line and the mismatch control at the end. The static \<open>dc_pred\<close> array of the
  source is an argument and a result. The lemmas show that a decoded block has 64 \<open>int16\<close>
  coefficients with an odd sum, that the products of the inverse quantisation fit an \<open>int32\<close>, and
  that decoding an encoded block gives the dequantised coefficients at their scan positions.
\<close>

section \<open>The runs that the coefficient decoders return\<close>

lemma ac_tables_run:
  "\<forall>(c, l, r, v) \<in> set ac_codes_b14. r = VLC_ESCAPE \<or> 0 \<le> r \<and> r \<le> 31 \<and> 1 \<le> v \<and> v \<le> 40"
  "\<forall>(c, l, r, v) \<in> set ac_table_b15. r = VLC_EOB \<or> r = VLC_ESCAPE \<or> 0 \<le> r \<and> r \<le> 31 \<and> 1 \<le> v \<and> v \<le> 40"
  by (simp_all add: ac_codes_b14_eq ac_table_b14_def ac_table_b15_def VLC_EOB_def VLC_ESCAPE_def)

text \<open>A result is the end of the block, an error, or a run below 64 with a 12 bit level.\<close>

definition run_level_ok :: "run_level \<Rightarrow> bool" where
  "run_level_ok rl \<longleftrightarrow> rl_run rl = VLC_EOB \<or> rl_run rl = VLC_ERROR
     \<or> 0 \<le> rl_run rl \<and> rl_run rl < 64 \<and> \<bar>rl_level rl\<bar> \<le> 2048 \<and> rl_level rl \<noteq> 0"

lemma run_level_ok_consts [simp]: "run_level_ok vlc_eob" "run_level_ok vlc_error"
  by (simp_all add: run_level_ok_def vlc_eob_def vlc_error_def)

lemma read_escape_ok: "run_level_ok (fst (read_escape bs))"
  by (auto simp: read_escape_def Let_def split_beta run_level_ok_def)

lemma read_sign_ok:
  "0 \<le> r \<Longrightarrow> r < 64 \<Longrightarrow> 1 \<le> v \<Longrightarrow> v \<le> 2048 \<Longrightarrow> run_level_ok (fst (read_sign bs r v))"
  by (auto simp: read_sign_def Let_def split_beta run_level_ok_def)

lemma decode_ac_coeff_b14_ok: "run_level_ok (fst (decode_ac_coeff_b14 bs first))"
proof (cases "vlc_search 17 (mpeg2_bits_peek bs 17) ac_codes_b14")
  case None
  then show ?thesis by (auto simp: decode_ac_coeff_b14_def read_sign_ok)
next
  case (Some e)
  obtain c l r v where e: "e = (c, l, r, v)" by (cases e)
  have "r = VLC_ESCAPE \<or> 0 \<le> r \<and> r \<le> 31 \<and> 1 \<le> v \<and> v \<le> 40"
    using vlc_search_Some [OF Some [unfolded e]] ac_tables_run(1) by auto
  with Some e show ?thesis
    by (auto simp: decode_ac_coeff_b14_def Let_def read_escape_ok intro!: read_sign_ok)
qed

lemma decode_ac_coeff_b15_ok: "run_level_ok (fst (decode_ac_coeff_b15 bs))"
proof (cases "vlc_search 17 (mpeg2_bits_peek bs 17) ac_table_b15")
  case None
  then show ?thesis by (auto simp: decode_ac_coeff_b15_def Let_def)
next
  case (Some e)
  obtain c l r v where e: "e = (c, l, r, v)" by (cases e)
  have "r = VLC_EOB \<or> r = VLC_ESCAPE \<or> 0 \<le> r \<and> r \<le> 31 \<and> 1 \<le> v \<and> v \<le> 40"
    using vlc_search_Some [OF Some [unfolded e]] ac_tables_run(2) by auto
  with Some e show ?thesis
    by (auto simp: decode_ac_coeff_b15_def Let_def read_escape_ok intro!: read_sign_ok)
qed

section \<open>Intra blocks\<close>

text \<open>One predictor per component, reset at the start of a slice.\<close>

definition reset_dc_prediction :: "nat \<Rightarrow> int list" where
  "reset_dc_prediction prec = (let init = s16 (2 ^ (7 + prec)) in [init, init, init])"

definition mpeg2_reset_slice_state :: "nat \<Rightarrow> int list" where
  "mpeg2_reset_slice_state prec = reset_dc_prediction prec"

definition scan_of :: "mpeg2_decoder \<Rightarrow> nat list" where
  "scan_of dec = (if alternate_scan (dec_pic_ext dec) then mpeg2_alternate_scan else mpeg2_zigzag_scan)"

definition decode_intra_ac :: "bool \<Rightarrow> mpeg2_bits \<Rightarrow> run_level \<times> mpeg2_bits" where
  "decode_intra_ac use_b15 bs = (if use_b15 then decode_ac_coeff_b15 bs else decode_ac_coeff_b14 bs False)"

lemma decode_intra_ac_ok: "run_level_ok (fst (decode_intra_ac b bs))"
  by (simp add: decode_intra_ac_def decode_ac_coeff_b14_ok decode_ac_coeff_b15_ok)

text \<open>The inverse quantisation: the sign is applied after the shift.\<close>

definition dequant_intra :: "nat \<Rightarrow> nat list \<Rightarrow> nat \<Rightarrow> int \<Rightarrow> int" where
  "dequant_intra qscale qmat j level =
     (let abs_level = (if level < 0 then - level else level);
          iq = drop_bit 4 (abs_level * int qscale * int (qmat ! j))
      in if level < 0 then - iq else iq)"

definition dequant_non_intra :: "nat \<Rightarrow> nat list \<Rightarrow> nat \<Rightarrow> int \<Rightarrow> int" where
  "dequant_non_intra qscale qmat j level =
     (let abs_level = (if level < 0 then - level else level);
          iq = drop_bit 5 ((2 * abs_level + 1) * int qscale * int (qmat ! j))
      in if level < 0 then - iq else iq)"

text \<open>The coefficient loop. Its state is the index, the block, the mismatch accumulator and the
  reader; the run is not negative in the last branch.\<close>

function intra_coeffs ::
  "bool \<Rightarrow> nat \<Rightarrow> nat list \<Rightarrow> nat list \<Rightarrow> nat \<Rightarrow> int list \<Rightarrow> int \<Rightarrow> mpeg2_bits
     \<Rightarrow> nat \<times> int list \<times> int \<times> mpeg2_bits" where
  "intra_coeffs use_b15 qscale qmat scan idx block mismatch bs =
     (if idx < 64 then
        let (rl, bs) = decode_intra_ac use_b15 bs
        in if rl_run rl = VLC_EOB \<or> rl_run rl = VLC_ERROR then (idx, block, mismatch, bs)
           else
             let idx = idx + nat (rl_run rl)
             in if idx \<ge> 64 then (idx, block, mismatch, bs)
                else
                  let j = scan ! idx;
                      iq = dequant_intra qscale qmat j (rl_level rl)
                  in intra_coeffs use_b15 qscale qmat scan (idx + 1) (block[j := s16 iq]) (mismatch XOR iq) bs
      else (idx, block, mismatch, bs))"
  by pat_completeness auto
termination
  by (relation "measure (\<lambda>(_, _, _, _, idx, _, _, _). 64 - idx)") auto

declare intra_coeffs.simps [simp del]

text \<open>The block on entry does not matter: it is cleared first. On a bad DC size the cleared block is
  left behind.\<close>

definition decode_intra_block ::
  "mpeg2_bits \<Rightarrow> mpeg2_decoder \<Rightarrow> nat \<Rightarrow> int list \<Rightarrow> status_t \<times> mpeg2_bits \<times> int list \<times> int list" where
  "decode_intra_block bs dec cc dc_pred =
     (let block = replicate 64 0;
          qmat = intra_quantiser_matrix (dec_seq dec);
          (dc_size, bs) = (if cc = 0 then decode_dc_size_luminance bs else decode_dc_size_chrominance bs)
      in if dc_size < 0 then (B_BAD_DATA, bs, dc_pred, block)
         else
           let (dc_diff, bs) = decode_dc_differential bs dc_size;
               dc_pred = dc_pred[cc := s16 (dc_pred ! cc + dc_diff)];
               block = block[0 := s16 (dc_pred ! cc * int (intra_dc_mult dec))];
               use_b15 = intra_vlc_format (dec_pic_ext dec);
               (idx, block, mismatch, bs) =
                 intra_coeffs use_b15 (quantiser_scale dec) qmat (scan_of dec) 1 block (block ! 0) bs;
               bs = (if idx \<ge> 64 then snd (decode_intra_ac use_b15 bs) else bs);
               block = (if mismatch AND 1 = 0 then block[63 := s16 (block ! 63 XOR 1)] else block)
           in (B_OK, bs, dc_pred, block))"

section \<open>Non-intra blocks\<close>

function non_intra_coeffs ::
  "nat \<Rightarrow> nat list \<Rightarrow> nat list \<Rightarrow> nat \<Rightarrow> int list \<Rightarrow> mpeg2_bits \<Rightarrow> nat \<times> int list \<times> mpeg2_bits" where
  "non_intra_coeffs qscale qmat scan idx block bs =
     (if idx < 64 then
        let (rl, bs) = decode_ac_coeff_b14 bs (idx = 0)
        in if rl_run rl = VLC_EOB \<or> rl_run rl = VLC_ERROR then (idx, block, bs)
           else
             let idx = idx + nat (rl_run rl)
             in if idx \<ge> 64 then (idx, block, bs)
                else
                  let j = scan ! idx;
                      iq = dequant_non_intra qscale qmat j (rl_level rl)
                  in non_intra_coeffs qscale qmat scan (idx + 1) (block[j := s16 iq]) bs
      else (idx, block, bs))"
  by pat_completeness auto
termination
  by (relation "measure (\<lambda>(_, _, _, idx, _, _). 64 - idx)") auto

declare non_intra_coeffs.simps [simp del]

definition decode_non_intra_block ::
  "mpeg2_bits \<Rightarrow> mpeg2_decoder \<Rightarrow> status_t \<times> mpeg2_bits \<times> int list" where
  "decode_non_intra_block bs dec =
     (let block = replicate 64 0;
          qmat = non_intra_quantiser_matrix (dec_seq dec);
          (idx, block, bs) = non_intra_coeffs (quantiser_scale dec) qmat (scan_of dec) 0 block bs;
          bs = (if idx \<ge> 64 then snd (decode_ac_coeff_b14 bs False) else bs);
          sum = sum_list block;
          block = (if sum AND 1 = 0 then block[63 := s16 (block ! 63 XOR 1)] else block)
      in (B_OK, bs, block))"

section \<open>Mismatch control\<close>

text \<open>The specification: the sum of the 64 coefficients is made odd by flipping the lowest bit of the
  last. The intra decoder accumulates the parity while it decodes instead of summing.\<close>

definition mismatch_control :: "int list \<Rightarrow> int list" where
  "mismatch_control b = (if even (sum_list b) then b[63 := s16 (b ! 63 XOR 1)] else b)"

definition block_ok :: "int list \<Rightarrow> bool" where
  "block_ok b \<longleftrightarrow> length b = 64 \<and> (\<forall>x\<in>set b. -32768 \<le> x \<and> x < 32768)"

lemma sum_list_put: "j < length b \<Longrightarrow> sum_list (b[j := v]) = sum_list b - b ! j + (v::int)"
  by (induction b arbitrary: j) (auto simp: nth_Cons' Suc_less_eq2 split: nat.split)

lemma block_ok_put: "block_ok b \<Longrightarrow> block_ok (b[j := s16 v])"
  using s16_range [of v] by (auto simp: block_ok_def dest!: subsetD [OF set_update_subset_insert])

lemma block_ok_zero [simp]: "block_ok (replicate 64 0)"
  by (simp add: block_ok_def)

lemma mismatch_control_ok: "block_ok b \<Longrightarrow> block_ok (mismatch_control b)"
  by (simp add: mismatch_control_def block_ok_put)

lemma mismatch_control_odd: "length b = 64 \<Longrightarrow> odd (sum_list (mismatch_control b))"
  by (auto simp: mismatch_control_def sum_list_put even_xor_iff)

definition scan_ok :: "nat list \<Rightarrow> bool" where
  "scan_ok scan \<longleftrightarrow> distinct scan \<and> set scan = {0..<64} \<and> length scan = 64"

lemma scan_of_ok [simp]: "scan_ok (scan_of dec)"
  by (simp add: scan_of_def scan_ok_def)

lemma scan_ok_less: "scan_ok scan \<Longrightarrow> i < 64 \<Longrightarrow> scan ! i < 64"
  by (metis atLeastLessThan_iff nth_mem scan_ok_def)

lemma scan_ok_inj: "scan_ok scan \<Longrightarrow> i < 64 \<Longrightarrow> j < 64 \<Longrightarrow> scan ! i = scan ! j \<longleftrightarrow> i = j"
  by (simp add: scan_ok_def nth_eq_iff_index_eq)

text \<open>The loops leave a well-formed block and reader, and the accumulator has the parity of the sum
  as long as the positions still to come are zero.\<close>

definition zero_from :: "nat list \<Rightarrow> nat \<Rightarrow> int list \<Rightarrow> bool" where
  "zero_from scan idx b \<longleftrightarrow> (\<forall>i. idx \<le> i \<longrightarrow> i < 64 \<longrightarrow> b ! (scan ! i) = 0)"

lemma zero_from_put:
  assumes "zero_from scan idx b" and "idx \<le> k" and "k < 64" and "scan_ok scan" and "length b = 64"
  shows "zero_from scan (Suc k) (b[scan ! k := v])"
  using assms by (auto simp: zero_from_def nth_list_update scan_ok_inj)

lemma intra_coeffs_step:
  assumes "idx < 64" and "decode_intra_ac use_b15 bs = (rl, bs')"
  shows "intra_coeffs use_b15 q m scan idx b mm bs =
     (if rl_run rl = VLC_EOB \<or> rl_run rl = VLC_ERROR then (idx, b, mm, bs')
      else if idx + nat (rl_run rl) \<ge> 64 then (idx + nat (rl_run rl), b, mm, bs')
      else
        let k = idx + nat (rl_run rl); iq = dequant_intra q m (scan ! k) (rl_level rl)
        in intra_coeffs use_b15 q m scan (k + 1) (b[scan ! k := s16 iq]) (mm XOR iq) bs')"
  using assms by (subst intra_coeffs.simps) (simp add: Let_def)

lemma non_intra_coeffs_step:
  assumes "idx < 64" and "decode_ac_coeff_b14 bs (idx = 0) = (rl, bs')"
  shows "non_intra_coeffs q m scan idx b bs =
     (if rl_run rl = VLC_EOB \<or> rl_run rl = VLC_ERROR then (idx, b, bs')
      else if idx + nat (rl_run rl) \<ge> 64 then (idx + nat (rl_run rl), b, bs')
      else
        let k = idx + nat (rl_run rl)
        in non_intra_coeffs q m scan (k + 1) (b[scan ! k := s16 (dequant_non_intra q m (scan ! k) (rl_level rl))]) bs')"
  using assms by (subst non_intra_coeffs.simps) (simp add: Let_def)

lemma keeps_intra_ac [keeps_intros]: "keeps_reader a b \<Longrightarrow> keeps_reader a (snd (decode_intra_ac u b))"
  by (auto simp: decode_intra_ac_def intro: keeps_intros)

definition intra_inv where
  "intra_inv scan idx b (mm :: int) \<longleftrightarrow> block_ok b \<and> zero_from scan idx b \<and> even mm = even (sum_list b)"

lemma intra_inv_put:
  assumes "intra_inv scan idx b mm" and "idx \<le> k" and "k < 64" and "scan_ok scan"
  shows "intra_inv scan (Suc k) (b[scan ! k := s16 iq]) (mm XOR iq)"
proof -
  have "length b = 64" "b ! (scan ! k) = 0"
    using assms by (auto simp: intra_inv_def block_ok_def zero_from_def)
  moreover have "scan ! k < 64" using assms by (simp add: scan_ok_less)
  ultimately show ?thesis
    using assms zero_from_put [of scan idx b k] block_ok_put
    by (auto simp: intra_inv_def sum_list_put even_xor_iff)
qed

lemma intra_coeffs_inv:
  assumes "scan_ok scan" and "intra_inv scan idx b mm" and "bits_wf bs"
    and "intra_coeffs use_b15 q m scan idx b mm bs = (idx', b', mm', bs')"
  shows "block_ok b' \<and> even mm' = even (sum_list b') \<and> keeps_reader bs bs'"
  using assms
proof (induction "64 - idx" arbitrary: idx b mm bs rule: less_induct)
  case less
  obtain rl bs1 where d: "decode_intra_ac use_b15 bs = (rl, bs1)" by force
  have keep: "keeps_reader bs bs1"
    using keeps_intra_ac [OF keeps_refl [OF less.prems(3)]] d by (metis snd_conv)
  define k where "k = idx + nat (rl_run rl)"
  let ?iq = "dequant_intra q m (scan ! k) (rl_level rl)"
  show ?case
  proof (cases "idx < 64 \<and> \<not> (rl_run rl = VLC_EOB \<or> rl_run rl = VLC_ERROR) \<and> k < 64")
    case True
    have "intra_coeffs use_b15 q m scan (Suc k) (b[scan ! k := s16 ?iq]) (mm XOR ?iq) bs1 = (idx', b', mm', bs')"
      using less.prems(4) True intra_coeffs_step [OF _ d] by (simp add: Let_def k_def)
    moreover have "intra_inv scan (Suc k) (b[scan ! k := s16 ?iq]) (mm XOR ?iq)"
      using less.prems(1,2) True by (intro intra_inv_put [where idx = idx]) (auto simp: k_def)
    ultimately have "block_ok b' \<and> even mm' = even (sum_list b') \<and> keeps_reader bs1 bs'"
      using less.prems(1) True keeps_wf [OF keep] by (intro less.hyps) (auto simp: k_def)
    with keeps_trans [OF keep] show ?thesis by blast
  next
    case False
    then have "b' = b \<and> mm' = mm \<and> (bs' = bs \<or> bs' = bs1)"
      using less.prems(4) intra_coeffs_step [OF _ d, of idx q m scan b mm]
      by (cases "idx < 64") (auto simp: k_def intra_coeffs.simps [of _ _ _ _ idx] split: if_splits)
    with less.prems(2,3) keep show ?thesis by (auto simp: intra_inv_def keeps_refl)
  qed
qed

lemma non_intra_coeffs_inv:
  assumes "block_ok b" and "bits_wf bs" and "non_intra_coeffs q m scan idx b bs = (idx', b', bs')"
  shows "block_ok b' \<and> keeps_reader bs bs'"
  using assms
proof (induction "64 - idx" arbitrary: idx b bs rule: less_induct)
  case less
  obtain rl bs1 where d: "decode_ac_coeff_b14 bs (idx = 0) = (rl, bs1)" by force
  have keep: "keeps_reader bs bs1"
    using keeps_ac_coeff_b14 [OF keeps_refl [OF less.prems(2)]] d by (metis snd_conv)
  define k where "k = idx + nat (rl_run rl)"
  show ?case
  proof (cases "idx < 64 \<and> \<not> (rl_run rl = VLC_EOB \<or> rl_run rl = VLC_ERROR) \<and> k < 64")
    case True
    have "non_intra_coeffs q m scan (Suc k) (b[scan ! k := s16 (dequant_non_intra q m (scan ! k) (rl_level rl))]) bs1
        = (idx', b', bs')"
      using less.prems(3) True non_intra_coeffs_step [OF _ d] by (simp add: Let_def k_def)
    then have "block_ok b' \<and> keeps_reader bs1 bs'"
      using less.prems(1) True keeps_wf [OF keep] by (intro less.hyps) (auto simp: k_def block_ok_put)
    with keeps_trans [OF keep] show ?thesis by blast
  next
    case False
    then have "b' = b \<and> (bs' = bs \<or> bs' = bs1)"
      using less.prems(3) non_intra_coeffs_step [OF _ d, of q m scan b]
      by (cases "idx < 64") (auto simp: k_def non_intra_coeffs.simps [of _ _ _ idx] split: if_splits)
    with less.prems(1,2) keep show ?thesis by (auto simp: keeps_refl)
  qed
qed

section \<open>Decoded blocks\<close>

lemma and_1_even: "x AND 1 = (0::int) \<longleftrightarrow> even x"
  by (simp add: and_one_eq even_iff_mod_2_eq_zero)

lemma scan_zero: "scan_of dec ! 0 = 0"
  by (simp add: scan_of_def mpeg2_alternate_scan_def mpeg2_zigzag_scan_def)

lemma intra_inv_first: "intra_inv (scan_of dec) 1 ((replicate 64 0)[0 := s16 v]) (s16 v)"
proof -
  have "scan_of dec ! i \<noteq> 0" "scan_of dec ! i < 64" if "1 \<le> i" "i < 64" for i
    using scan_ok_inj [OF scan_of_ok [of dec], of i 0] that by (simp_all add: scan_zero scan_ok_less)
  then have "zero_from (scan_of dec) 1 ((replicate 64 0)[0 := s16 v])"
    by (simp add: zero_from_def nth_list_update)
  then show ?thesis
    by (simp add: intra_inv_def block_ok_put sum_list_put sum_list_replicate)
qed

lemma decode_intra_block_sound:
  assumes "bits_wf bs" and "decode_intra_block bs dec cc dc_pred = (st, bs', dc_pred', block)"
  shows "keeps_reader bs bs'" and "block_ok block" and "st = B_OK \<or> st = B_BAD_DATA"
    and "st = B_OK \<Longrightarrow> odd (sum_list block)" and "length dc_pred' = length dc_pred"
    and "i \<noteq> cc \<Longrightarrow> dc_pred' ! i = dc_pred ! i" and "st \<noteq> B_OK \<Longrightarrow> dc_pred' = dc_pred"
    and "cc < length dc_pred \<Longrightarrow> st = B_OK \<Longrightarrow> -32768 \<le> dc_pred' ! cc \<and> dc_pred' ! cc < 32768"
proof -
  obtain dc_size bs1 where dc: "(if cc = 0 then decode_dc_size_luminance bs else decode_dc_size_chrominance bs)
      = (dc_size, bs1)" by force
  have bs1: "keeps_reader bs bs1"
    using keeps_dc_size_luminance [OF keeps_refl [OF assms(1)]]
      keeps_dc_size_chrominance [OF keeps_refl [OF assms(1)]] dc by (metis snd_conv)
  have size: "dc_size \<le> 11"
    using dc_size_range [of bs] dc by (auto split: if_splits)
  obtain diff bs2 where diff: "decode_dc_differential bs1 dc_size = (diff, bs2)" by force
  define p where "p = dc_pred[cc := s16 (dc_pred ! cc + diff)]"
  define b where "b = (replicate 64 0)[0 := s16 (p ! cc * int (intra_dc_mult dec))]"
  define u where "u = intra_vlc_format (dec_pic_ext dec)"
  obtain idx b1 mm bs3 where loop: "intra_coeffs u (quantiser_scale dec)
      (intra_quantiser_matrix (dec_seq dec)) (scan_of dec) 1 b (b ! 0) bs2 = (idx, b1, mm, bs3)"
    by (metis prod_cases4)
  define bs4 where "bs4 = (if idx \<ge> 64 then snd (decode_intra_ac u bs3) else bs3)"
  have res: "(st, bs', dc_pred', block) = (if dc_size < 0 then (B_BAD_DATA, bs1, dc_pred, replicate 64 0)
      else (B_OK, bs4, p, if mm AND 1 = 0 then b1[63 := s16 (b1 ! 63 XOR 1)] else b1))"
    using assms(2) dc diff loop
    by (simp add: decode_intra_block_def Let_def bs4_def p_def b_def u_def split: if_splits)
  have first: "intra_inv (scan_of dec) 1 b (b ! 0)"
    using intra_inv_first by (simp add: b_def)
  show "st = B_OK \<or> st = B_BAD_DATA" and "length dc_pred' = length dc_pred"
    and "i \<noteq> cc \<Longrightarrow> dc_pred' ! i = dc_pred ! i" and "st \<noteq> B_OK \<Longrightarrow> dc_pred' = dc_pred"
    and "cc < length dc_pred \<Longrightarrow> st = B_OK \<Longrightarrow> -32768 \<le> dc_pred' ! cc \<and> dc_pred' ! cc < 32768"
    using res s16_range by (auto simp: p_def split: if_splits)
  have ok: "block_ok b1 \<and> even mm = even (sum_list b1) \<and> keeps_reader bs2 bs3" if "0 \<le> dc_size"
  proof -
    have "keeps_reader bs bs2"
      using keeps_dc_differential [OF bs1 size] diff by simp
    then show ?thesis
      using intra_coeffs_inv [OF scan_of_ok first _ loop] keeps_wf by blast
  qed
  show "keeps_reader bs bs'"
  proof (cases "dc_size < 0")
    case False
    then have "keeps_reader bs bs3"
      using ok keeps_dc_differential [OF bs1 size] diff keeps_trans by fastforce
    with res False show ?thesis by (auto simp: bs4_def intro: keeps_intros)
  qed (use res bs1 in simp)
  have block: "block = mismatch_control b1" if "0 \<le> dc_size"
    using res that ok by (simp add: mismatch_control_def and_1_even)
  show "block_ok block"
  proof (cases "dc_size < 0")
    case False
    with ok block show ?thesis by (simp add: mismatch_control_ok)
  qed (use res in simp)
  show "odd (sum_list block)" if "st = B_OK"
  proof -
    have "0 \<le> dc_size" using res that by (simp split: if_splits)
    with ok block show ?thesis by (simp add: mismatch_control_odd block_ok_def)
  qed
qed

lemma decode_non_intra_block_sound:
  assumes "bits_wf bs" and "decode_non_intra_block bs dec = (st, bs', block)"
  shows "keeps_reader bs bs'" and "block_ok block" and "st = B_OK" and "odd (sum_list block)"
proof -
  obtain idx b1 bs1 where loop: "non_intra_coeffs (quantiser_scale dec)
      (non_intra_quantiser_matrix (dec_seq dec)) (scan_of dec) 0 (replicate 64 0) bs = (idx, b1, bs1)"
    by (metis prod_cases3)
  note inv = non_intra_coeffs_inv [OF block_ok_zero assms(1) loop]
  define bs2 where "bs2 = (if idx \<ge> 64 then snd (decode_ac_coeff_b14 bs1 False) else bs1)"
  have res: "st = B_OK" "bs' = bs2" "block = mismatch_control b1"
    using assms(2) loop
    by (simp_all add: decode_non_intra_block_def Let_def mismatch_control_def and_1_even bs2_def)
  show "keeps_reader bs bs'"
    using inv keeps_ac_coeff_b14 res(2) by (simp add: bs2_def)
  show "block_ok block" and "st = B_OK" and "odd (sum_list block)"
    using inv res mismatch_control_odd [of b1] by (simp_all add: mismatch_control_ok) (simp add: block_ok_def)
qed

text \<open>No product of the inverse quantisation leaves the \<open>int32\<close> range.\<close>

lemma dequant_products_fit:
  assumes "\<bar>level\<bar> \<le> 2048" and "q \<le> 112" and "m \<le> 255"
  shows "\<bar>level\<bar> * int q * int m < 2 ^ 31" and "(2 * \<bar>level\<bar> + 1) * int q * int m < 2 ^ 31"
proof -
  have "(2 * \<bar>level\<bar> + 1) * int q * int m \<le> 4097 * 112 * 255"
    using assms by (intro mult_mono) auto
  moreover have "\<bar>level\<bar> * int q * int m \<le> 2048 * 112 * 255"
    using assms by (intro mult_mono) auto
  ultimately show "\<bar>level\<bar> * int q * int m < 2 ^ 31" and "(2 * \<bar>level\<bar> + 1) * int q * int m < 2 ^ 31"
    by simp_all
qed

section \<open>Decoding an encoded block\<close>

text \<open>A block is coded as a list of runs and levels: each run counts the zero coefficients before its
  level. \<open>place\<close> gives the scan positions of the levels, from a first position on.\<close>

fun place :: "nat \<Rightarrow> (int \<times> int) list \<Rightarrow> (nat \<times> int) list" where
  "place idx [] = []"
| "place idx ((run, level) # cs) = (idx + nat run, level) # place (idx + nat run + 1) cs"

definition dequantised :: "(nat \<Rightarrow> int \<Rightarrow> int) \<Rightarrow> nat list \<Rightarrow> int list \<Rightarrow> (nat \<times> int) list \<Rightarrow> int list" where
  "dequantised iq scan b ps = foldl (\<lambda>b (p, level). b[scan ! p := s16 (iq (scan ! p) level)]) b ps"

definition codable :: "nat \<Rightarrow> (int \<times> int) list \<Rightarrow> bool" where
  "codable idx cs \<longleftrightarrow> list_all is_coeff cs \<and> list_all (\<lambda>(p, _). p < 64) (place idx cs)"

definition enc_eob :: "bool \<Rightarrow> bool list" where
  "enc_eob use_b15 = (if use_b15 then to_bits 4 0b0110 else [True, False])"

definition enc_coeffs :: "bool \<Rightarrow> (int \<times> int) list \<Rightarrow> bool list" where
  "enc_coeffs use_b15 cs = concat (map (enc_coeff (if use_b15 then ac_codes_b15 else ac_codes_b14)) cs)"

lemma decode_intra_ac_code:
  assumes "bits_wf bs" and "small_buffer bs" and "is_coeff x" and "17 \<le> length r"
    and "rest_bits bs = enc_coeff (if u then ac_codes_b15 else ac_codes_b14) x @ r"
  obtains bs' where "decode_intra_ac u bs = (\<lparr>rl_run = fst x, rl_level = snd x\<rparr>, bs')"
    and "rest_bits bs' = r" and "keeps_reader bs bs'"
proof -
  have "17 \<le> length (rest_bits bs)" using assms(4,5) by simp
  then have "fst (decode_intra_ac u bs) = \<lparr>rl_run = fst x, rl_level = snd x\<rparr> \<and> rest_bits (snd (decode_intra_ac u bs)) = r"
    using decode_ac_coeff_b14_code [OF assms(1-3), of r False]
      decode_ac_coeff_b15_code [OF assms(1-3), of r] assms(5) by (cases u) (simp_all add: decode_intra_ac_def)
  then show ?thesis
    using that keeps_intra_ac [OF keeps_refl [OF assms(1)]] by (metis prod.collapse)
qed

lemma decode_intra_ac_eob:
  assumes "bits_wf bs" and "small_buffer bs" and "17 \<le> length r" and "rest_bits bs = enc_eob u @ r"
  obtains bs' where "decode_intra_ac u bs = (vlc_eob, bs')" and "rest_bits bs' = r" and "keeps_reader bs bs'"
proof -
  have "17 \<le> length (rest_bits bs)" using assms(3,4) by simp
  then have "fst (decode_intra_ac u bs) = vlc_eob \<and> rest_bits (snd (decode_intra_ac u bs)) = r"
    using decode_ac_coeff_b14_eob [OF assms(1,2), of r False]
      decode_ac_coeff_b15_eob [OF assms(1,2), of r] assms(4)
    by (cases u) (simp_all add: decode_intra_ac_def enc_eob_def)
  then show ?thesis
    using that keeps_intra_ac [OF keeps_refl [OF assms(1)]] by (metis prod.collapse)
qed

text \<open>After the coefficients the end of block is either read by the loop, or still to be read when the
  last position was filled.\<close>

lemma intra_coeffs_code:
  assumes "bits_wf bs" and "small_buffer bs" and "codable idx cs" and "idx \<le> 64" and "17 \<le> length r"
    and "rest_bits bs = enc_coeffs u cs @ enc_eob u @ r"
  shows "\<exists>idx' mm' bs'. intra_coeffs u q m scan idx b mm bs
      = (idx', dequantised (dequant_intra q m) scan b (place idx cs), mm', bs')
    \<and> keeps_reader bs bs' \<and> rest_bits bs' = (if idx' < 64 then r else enc_eob u @ r)"
  using assms
proof (induction cs arbitrary: idx b mm bs)
  case Nil
  show ?case
  proof (cases "idx < 64")
    case True
    obtain bs' where d: "decode_intra_ac u bs = (vlc_eob, bs')" "rest_bits bs' = r" "keeps_reader bs bs'"
      using decode_intra_ac_eob [OF Nil.prems(1,2,5)] Nil.prems(6) by (auto simp: enc_coeffs_def)
    then show ?thesis
      using True intra_coeffs_step [OF True d(1)] by (simp add: vlc_eob_def dequantised_def)
  next
    case False
    with Nil show ?thesis
      by (subst intra_coeffs.simps) (simp add: enc_coeffs_def dequantised_def keeps_refl)
  qed
next
  case (Cons x cs)
  obtain run level where x: "x = (run, level)" by (cases x)
  have c: "is_coeff (run, level)" "idx + nat run < 64" "codable (idx + nat run + 1) cs"
    using Cons.prems(3) by (simp_all add: codable_def x)
  have "rest_bits bs = enc_coeff (if u then ac_codes_b15 else ac_codes_b14) (run, level) @ (enc_coeffs u cs @ enc_eob u @ r)"
    using Cons.prems(6) by (simp add: enc_coeffs_def x)
  from decode_intra_ac_code [OF Cons.prems(1,2) c(1) _ this] Cons.prems(5)
  obtain bs1 where d: "decode_intra_ac u bs = (\<lparr>rl_run = run, rl_level = level\<rparr>, bs1)"
    and bs1: "rest_bits bs1 = enc_coeffs u cs @ enc_eob u @ r" "keeps_reader bs bs1"
    by auto
  have run: "\<not> (run = VLC_EOB \<or> run = VLC_ERROR)"
    using c(1) by (auto simp: is_coeff_def VLC_EOB_def VLC_ERROR_def)
  have wf1: "bits_wf bs1" "small_buffer bs1"
    using bs1(2) Cons.prems(2) by (auto simp: keeps_wf keeps_small)
  have le: "idx + nat run + 1 \<le> 64" using c(2) by simp
  show ?case
    using Cons.IH [OF wf1 c(3) le Cons.prems(5) bs1(1),
        of "b[scan ! (idx + nat run) := s16 (dequant_intra q m (scan ! (idx + nat run)) level)]"
           "mm XOR dequant_intra q m (scan ! (idx + nat run)) level"]
      intra_coeffs_step [OF _ d, of idx q m scan b mm] run c(2) keeps_trans [OF bs1(2)]
    by (fastforce simp: x Let_def dequantised_def)
qed

text \<open>The values of an intra block: the DC value and the dequantised levels at their positions.\<close>

definition intra_block_values :: "mpeg2_decoder \<Rightarrow> int \<Rightarrow> (int \<times> int) list \<Rightarrow> int list" where
  "intra_block_values dec dc cs =
     dequantised (dequant_intra (quantiser_scale dec) (intra_quantiser_matrix (dec_seq dec))) (scan_of dec)
       ((replicate 64 0)[0 := s16 (dc * int (intra_dc_mult dec))]) (place 1 cs)"

definition dc_size_codes :: "nat \<Rightarrow> (nat \<times> nat \<times> int) list" where
  "dc_size_codes cc = (if cc = 0 then dc_size_luminance_codes else dc_size_chrominance_codes)"

definition enc_intra_block :: "bool \<Rightarrow> nat \<Rightarrow> nat \<Rightarrow> nat \<Rightarrow> int \<Rightarrow> (int \<times> int) list \<Rightarrow> bool list" where
  "enc_intra_block u c l n d cs = to_bits l c @ enc_dc_differential n d @ enc_coeffs u cs @ enc_eob u"

lemma dc_size_codes_ok: "(c, l, n) \<in> set (dc_size_codes cc) \<Longrightarrow> 0 \<le> n \<and> n \<le> 11"
  by (auto simp: dc_size_codes_def dc_size_luminance_codes_def dc_size_chrominance_codes_def split: if_splits)

lemma decode_intra_block_code:
  assumes "bits_wf bs" and "small_buffer bs" and "(c, l, int n) \<in> set (dc_size_codes cc)"
    and "dc_size_of n d" and "codable 1 cs" and "17 \<le> length r" and "cc < length dc_pred"
    and "rest_bits bs = enc_intra_block (intra_vlc_format (dec_pic_ext dec)) c l n d cs @ r"
  defines "p \<equiv> s16 (dc_pred ! cc + d)"
  shows "\<exists>bs'. decode_intra_block bs dec cc dc_pred
      = (B_OK, bs', dc_pred[cc := p], mismatch_control (intra_block_values dec p cs))
    \<and> keeps_reader bs bs' \<and> rest_bits bs' = r"
proof -
  let ?u = "intra_vlc_format (dec_pic_ext dec)"
  let ?b = "(replicate 64 0)[0 := s16 (p * int (intra_dc_mult dec))]"
  have len: "17 \<le> length (rest_bits bs)" and n: "n \<le> 11"
    using assms(6,8) dc_size_codes_ok [OF assms(3)] by simp_all
  define dcs where "dcs = (if cc = 0 then decode_dc_size_luminance bs else decode_dc_size_chrominance bs)"
  obtain bs1 where dc: "dcs = (int n, bs1)"
    and bs1: "rest_bits bs1 = enc_dc_differential n d @ enc_coeffs ?u cs @ enc_eob ?u @ r" "keeps_reader bs bs1"
  proof -
    have rest: "rest_bits bs = to_bits l c @ (enc_dc_differential n d @ enc_coeffs ?u cs @ enc_eob ?u @ r)"
      using assms(8) by (simp add: enc_intra_block_def)
    show ?thesis
    proof (cases "cc = 0")
      case True
      with decode_dc_size_luminance_code [OF assms(1) _ rest] assms(3) len
        keeps_dc_size_luminance [OF keeps_refl [OF assms(1)]] that
      show ?thesis by (simp add: dcs_def dc_size_codes_def) (metis prod.collapse)
    next
      case False
      with decode_dc_size_chrominance_code [OF assms(1) _ rest] assms(3) len
        keeps_dc_size_chrominance [OF keeps_refl [OF assms(1)]] that
      show ?thesis by (simp add: dcs_def dc_size_codes_def) (metis prod.collapse)
    qed
  qed
  obtain bs2 where diff: "decode_dc_differential bs1 (int n) = (d, bs2)"
    and bs2: "rest_bits bs2 = enc_coeffs ?u cs @ enc_eob ?u @ r" "keeps_reader bs bs2"
    using decode_dc_differential_code [OF keeps_wf [OF bs1(2)] n assms(4) bs1(1)]
      keeps_dc_differential [OF bs1(2), of "int n"] n that
    by (cases "decode_dc_differential bs1 (int n)") auto
  obtain idx mm bs3 where loop: "intra_coeffs ?u (quantiser_scale dec)
      (intra_quantiser_matrix (dec_seq dec)) (scan_of dec) 1 ?b (?b ! 0) bs2
      = (idx, intra_block_values dec p cs, mm, bs3)"
    and bs3: "keeps_reader bs2 bs3" "rest_bits bs3 = (if idx < 64 then r else enc_eob ?u @ r)"
    using intra_coeffs_code [OF keeps_wf [OF bs2(2)] _ assms(5) _ assms(6) bs2(1)] keeps_small [OF bs2(2)] assms(2)
    unfolding intra_block_values_def by fastforce
  define bs4 where "bs4 = (if idx \<ge> 64 then snd (decode_intra_ac ?u bs3) else bs3)"
  have keep3: "keeps_reader bs bs3" by (rule keeps_trans [OF bs2(2) bs3(1)])
  then have "keeps_reader bs bs4" by (simp add: bs4_def keeps_intra_ac)
  moreover have "rest_bits bs4 = r"
  proof (cases "idx < 64")
    case False
    then have "rest_bits bs3 = enc_eob ?u @ r" using bs3(2) by simp
    moreover have "small_buffer bs3" using keeps_small [OF keep3] assms(2) by simp
    ultimately obtain bs' where "decode_intra_ac ?u bs3 = (vlc_eob, bs')" "rest_bits bs' = r"
      using decode_intra_ac_eob [OF keeps_wf [OF keep3] _ assms(6)] by metis
    then show ?thesis using False by (simp add: bs4_def)
  qed (use bs3(2) in \<open>simp add: bs4_def\<close>)
  moreover have "even mm = even (sum_list (intra_block_values dec p cs))"
    using intra_coeffs_inv [OF scan_of_ok _ keeps_wf [OF bs2(2)] loop] intra_inv_first by simp
  then have "decode_intra_block bs dec cc dc_pred
      = (B_OK, bs4, dc_pred[cc := p], mismatch_control (intra_block_values dec p cs))"
    using dc diff loop assms(7)
    by (simp add: decode_intra_block_def Let_def p_def bs4_def mismatch_control_def and_1_even flip: dcs_def)
  ultimately show ?thesis by blast
qed

text \<open>Non-intra blocks: the first coefficient has the short code \<open>1s\<close> for (0, 1) and (0, -1).\<close>

definition enc_coeff_at :: "nat \<Rightarrow> int \<times> int \<Rightarrow> bool list" where
  "enc_coeff_at idx x =
     (if idx = 0 \<and> fst x = 0 \<and> \<bar>snd x\<bar> = 1 then [True, snd x < 0] else enc_coeff ac_codes_b14 x)"

fun enc_non_intra :: "nat \<Rightarrow> (int \<times> int) list \<Rightarrow> bool list" where
  "enc_non_intra idx [] = [True, False]"
| "enc_non_intra idx (x # cs) = enc_coeff_at idx x @ enc_non_intra (idx + nat (fst x) + 1) cs"

lemma decode_coeff_at:
  assumes "bits_wf bs" and "small_buffer bs" and "is_coeff x" and "17 \<le> length r"
    and "rest_bits bs = enc_coeff_at idx x @ r" and "idx = 0 \<Longrightarrow> x \<noteq> (0, 1)"
  obtains bs' where "decode_ac_coeff_b14 bs (idx = 0) = (\<lparr>rl_run = fst x, rl_level = snd x\<rparr>, bs')"
    and "rest_bits bs' = r" and "keeps_reader bs bs'"
proof -
  have "fst (decode_ac_coeff_b14 bs (idx = 0)) = \<lparr>rl_run = fst x, rl_level = snd x\<rparr>
    \<and> rest_bits (snd (decode_ac_coeff_b14 bs (idx = 0))) = r"
  proof (cases "idx = 0 \<and> fst x = 0 \<and> \<bar>snd x\<bar> = 1")
    case True
    then have x: "x = (0, -1)" using assms(6) by (cases x) (auto simp: abs_if split: if_splits)
    then have rest: "rest_bits bs = True # True # r" using True assms(5) by (simp add: enc_coeff_at_def)
    then have "mpeg2_bits_available bs 2" using assms(1,2) by (subst available_rest) auto
    moreover have "mpeg2_bits_peek bs 2 = 3" "mpeg2_bits_peek bs 1 = 1"
      using rest assms(1) by (simp_all add: peek_val bits_val_Cons)
    ultimately have "decode_ac_coeff_b14 bs (idx = 0) = read_sign (mpeg2_bits_skip bs 1) 0 1"
      using True by (simp add: decode_ac_coeff_b14_def)
    moreover have "rest_bits (mpeg2_bits_skip bs 1) = True # r"
      using rest assms(1) by (simp add: skip_rest)
    ultimately show ?thesis
      using read_sign_code [OF skip_wf [OF assms(1)]] x by simp
  next
    case False
    moreover have "17 \<le> length (rest_bits bs)" using assms(4,5) by simp
    ultimately show ?thesis
      using decode_ac_coeff_b14_code [OF assms(1-3), of r "idx = 0"] assms(5)
      by (auto simp: enc_coeff_at_def)
  qed
  then show ?thesis
    using that keeps_ac_coeff_b14 [OF keeps_refl [OF assms(1)]] by (metis prod.collapse)
qed

text \<open>A first coefficient (0, 1) is read as the end of the block.\<close>

lemma decode_first_coeff_one:
  assumes "bits_wf bs" and "small_buffer bs" and "rest_bits bs = enc_coeff_at 0 (0, 1) @ r"
  shows "fst (decode_ac_coeff_b14 bs True) = vlc_eob" and "rest_bits (snd (decode_ac_coeff_b14 bs True)) = r"
  using decode_ac_coeff_b14_eob [OF assms(1,2), of r True] assms(3) by (simp_all add: enc_coeff_at_def)

lemma non_intra_coeffs_code:
  assumes "bits_wf bs" and "small_buffer bs" and "codable idx cs" and "idx \<le> 64" and "17 \<le> length r"
    and "rest_bits bs = enc_non_intra idx cs @ r" and "idx = 0 \<Longrightarrow> cs \<noteq> [] \<Longrightarrow> hd cs \<noteq> (0, 1)"
  shows "\<exists>idx' bs'. non_intra_coeffs q m scan idx b bs
      = (idx', dequantised (dequant_non_intra q m) scan b (place idx cs), bs')
    \<and> keeps_reader bs bs' \<and> rest_bits bs' = (if idx' < 64 then r else [True, False] @ r)"
  using assms
proof (induction cs arbitrary: idx b bs)
  case Nil
  show ?case
  proof (cases "idx < 64")
    case True
    have "fst (decode_ac_coeff_b14 bs (idx = 0)) = vlc_eob" "rest_bits (snd (decode_ac_coeff_b14 bs (idx = 0))) = r"
      using decode_ac_coeff_b14_eob [OF Nil.prems(1,2)] Nil.prems(6) by simp_all
    then show ?thesis
      using True non_intra_coeffs_step [OF True prod.collapse [symmetric]]
        keeps_ac_coeff_b14 [OF keeps_refl [OF Nil.prems(1)]] by (simp add: vlc_eob_def dequantised_def)
  next
    case False
    with Nil show ?thesis
      by (subst non_intra_coeffs.simps) (simp add: dequantised_def keeps_refl)
  qed
next
  case (Cons x cs)
  obtain run level where x: "x = (run, level)" by (cases x)
  have c: "is_coeff (run, level)" "idx + nat run < 64" "codable (idx + nat run + 1) cs"
    using Cons.prems(3) by (simp_all add: codable_def x)
  have long: "17 \<le> length (enc_non_intra (idx + nat run + 1) cs @ r)" using Cons.prems(5) by simp
  have first: "idx = 0 \<Longrightarrow> (run, level) \<noteq> (0, 1)" using Cons.prems(7) by (simp add: x)
  have "rest_bits bs = enc_coeff_at idx (run, level) @ (enc_non_intra (idx + nat run + 1) cs @ r)"
    using Cons.prems(6) by (simp add: x)
  from decode_coeff_at [OF Cons.prems(1,2) c(1) long this first]
  obtain bs1 where d: "decode_ac_coeff_b14 bs (idx = 0) = (\<lparr>rl_run = run, rl_level = level\<rparr>, bs1)"
    and bs1: "rest_bits bs1 = enc_non_intra (idx + nat run + 1) cs @ r" "keeps_reader bs bs1"
    by auto
  have run: "\<not> (run = VLC_EOB \<or> run = VLC_ERROR)"
    using c(1) by (auto simp: is_coeff_def VLC_EOB_def VLC_ERROR_def)
  have wf1: "bits_wf bs1" "small_buffer bs1"
    using bs1(2) Cons.prems(2) by (auto simp: keeps_wf keeps_small)
  have le: "idx + nat run + 1 \<le> 64" using c(2) by simp
  show ?case
    using Cons.IH [OF wf1 c(3) le Cons.prems(5) bs1(1),
        of "b[scan ! (idx + nat run) := s16 (dequant_non_intra q m (scan ! (idx + nat run)) level)]"]
      non_intra_coeffs_step [OF _ d, of q m scan b] run c(2) keeps_trans [OF bs1(2)]
    by (fastforce simp: x Let_def dequantised_def)
qed

definition non_intra_block_values :: "mpeg2_decoder \<Rightarrow> (int \<times> int) list \<Rightarrow> int list" where
  "non_intra_block_values dec cs =
     dequantised (dequant_non_intra (quantiser_scale dec) (non_intra_quantiser_matrix (dec_seq dec)))
       (scan_of dec) (replicate 64 0) (place 0 cs)"

lemma decode_non_intra_block_code:
  assumes "bits_wf bs" and "small_buffer bs" and "codable 0 cs" and "17 \<le> length r"
    and "rest_bits bs = enc_non_intra 0 cs @ r" and "cs \<noteq> [] \<Longrightarrow> hd cs \<noteq> (0, 1)"
  shows "\<exists>bs'. decode_non_intra_block bs dec = (B_OK, bs', mismatch_control (non_intra_block_values dec cs))
    \<and> keeps_reader bs bs' \<and> rest_bits bs' = r"
proof -
  obtain idx bs1 where loop: "non_intra_coeffs (quantiser_scale dec)
      (non_intra_quantiser_matrix (dec_seq dec)) (scan_of dec) 0 (replicate 64 0) bs
      = (idx, non_intra_block_values dec cs, bs1)"
    and bs1: "keeps_reader bs bs1" "rest_bits bs1 = (if idx < 64 then r else [True, False] @ r)"
    using non_intra_coeffs_code [OF assms(1-3) _ assms(4,5)] assms(6)
    unfolding non_intra_block_values_def by fastforce
  define bs2 where "bs2 = (if idx \<ge> 64 then snd (decode_ac_coeff_b14 bs1 False) else bs1)"
  have "keeps_reader bs bs2" using bs1(1) by (simp add: bs2_def keeps_ac_coeff_b14)
  moreover have "small_buffer bs1" using keeps_small [OF bs1(1)] assms(2) by simp
  then have "rest_bits bs2 = r"
    using bs1(2) decode_ac_coeff_b14_eob(2) [OF keeps_wf [OF bs1(1)]] by (simp add: bs2_def)
  moreover have "decode_non_intra_block bs dec = (B_OK, bs2, mismatch_control (non_intra_block_values dec cs))"
    using loop by (simp add: decode_non_intra_block_def Let_def mismatch_control_def and_1_even bs2_def)
  ultimately show ?thesis by blast
qed

text \<open>The values at the positions: the last level placed at a position decides, and the positions
  between are zero.\<close>

lemma place_positions: "(p, v) \<in> set (place idx cs) \<Longrightarrow> idx \<le> p"
  by (induction idx cs rule: place.induct) (auto dest: order_trans [rotated])

lemma dequantised_nth:
  assumes "scan_ok scan" and "list_all (\<lambda>(p, _). p < 64) (place idx cs)" and "length b = 64" and "i < 64"
  shows "dequantised iq scan b (place idx cs) ! (scan ! i) =
    (case map_of (place idx cs) i of None \<Rightarrow> b ! (scan ! i) | Some level \<Rightarrow> s16 (iq (scan ! i) level))"
  using assms(2,3)
proof (induction idx cs arbitrary: b rule: place.induct)
  case (2 idx run level cs)
  let ?p = "idx + nat run"
  let ?b = "b[scan ! ?p := s16 (iq (scan ! ?p) level)]"
  have later: "map_of (place (?p + 1) cs) ?p = None"
    using place_positions [of ?p _ "?p + 1" cs] by (force simp: map_of_eq_None_iff)
  have "?b ! (scan ! i) = (if i = ?p then s16 (iq (scan ! ?p) level) else b ! (scan ! i))"
    using 2(2,3) assms(1,4) by (auto simp: nth_list_update scan_ok_inj scan_ok_less)
  moreover have "dequantised iq scan b (place idx ((run, level) # cs)) = dequantised iq scan ?b (place (?p + 1) cs)"
    by (simp add: dequantised_def)
  ultimately show ?case
    using 2(1) [of ?b] 2(2,3) later by (auto split: option.split)
qed (simp add: dequantised_def)

section \<open>Properties\<close>

definition example_decoder :: mpeg2_decoder where
  "example_decoder =
     \<lparr>dec_seq = example_sequence_header, dec_pic = example_picture_header,
      dec_pic_ext = example_coding_extension, mb_width = 45, mb_height = 36, mb_count = 1620,
      quantiser_scale = 8, intra_dc_mult = 4, mv_pred_h = 0, mv_pred_v = 0, mv_backward_pred_h = 0,
      mv_backward_pred_v = 0, initialized = True\<rparr>"

text \<open>Mismatch control: whatever the stream holds, a block that is decoded, intra or not, has 64
  coefficients in the \<open>int16\<close> range with an odd sum; the reader stays well formed in the same buffer; a
  failing intra block leaves the DC predictors alone and a decoded one changes only its component's.\<close>

theorem decoded_blocks_sound:
  assumes "bits_wf bs"
  shows "(case decode_intra_block bs dec cc dc_pred of (st, bs', dc_pred', block) \<Rightarrow>
      keeps_reader bs bs' \<and> block_ok block \<and> (st = B_OK \<longrightarrow> odd (sum_list block))
      \<and> (\<forall>i. i \<noteq> cc \<or> st \<noteq> B_OK \<longrightarrow> dc_pred' ! i = dc_pred ! i))
    \<and> (case decode_non_intra_block bs dec of (st, bs', block) \<Rightarrow>
      st = B_OK \<and> keeps_reader bs bs' \<and> block_ok block \<and> odd (sum_list block))"
proof (intro conjI)
  obtain st bs' p block where d: "decode_intra_block bs dec cc dc_pred = (st, bs', p, block)"
    by (metis prod_cases4)
  note s = decode_intra_block_sound [OF assms d]
  have "p ! i = dc_pred ! i" if "i \<noteq> cc \<or> st \<noteq> B_OK" for i
    using s(6) [of i] s(7) that by (cases "st = B_OK") auto
  with s(1,2,4) d show "case decode_intra_block bs dec cc dc_pred of (st, bs', dc_pred', block) \<Rightarrow>
      keeps_reader bs bs' \<and> block_ok block \<and> (st = B_OK \<longrightarrow> odd (sum_list block))
      \<and> (\<forall>i. i \<noteq> cc \<or> st \<noteq> B_OK \<longrightarrow> dc_pred' ! i = dc_pred ! i)"
    by simp
  obtain st bs' block where d: "decode_non_intra_block bs dec = (st, bs', block)"
    by (metis prod_cases3)
  with decode_non_intra_block_sound [OF assms d]
  show "case decode_non_intra_block bs dec of (st, bs', block) \<Rightarrow>
      st = B_OK \<and> keeps_reader bs bs' \<and> block_ok block \<and> odd (sum_list block)"
    by simp
qed



text \<open>C6: Round trip of a non-intra block, except where the first coefficient is (0, 1), whose code the
  decoder takes for the end of the block.\<close>

theorem non_intra_block_roundtrip:
  assumes "bits_wf bs" and "small_buffer bs" and "codable 0 cs" and "17 \<le> length r"
    and "rest_bits bs = enc_non_intra 0 cs @ r" and "cs = [] \<or> hd cs \<noteq> (0, 1)"
  shows "\<exists>bs'. decode_non_intra_block bs dec = (B_OK, bs', mismatch_control (non_intra_block_values dec cs))
    \<and> rest_bits bs' = r"
  using decode_non_intra_block_code [OF assms(1-5), of dec] assms(6) by blast

theorem non_intra_block_roundtrip_witness:
  "\<exists>bs'. decode_non_intra_block (mpeg2_bits_init [0xE0, 0x00, 0x00] 3) example_decoder
     = (B_OK, bs', mismatch_control (non_intra_block_values example_decoder [(0, -1)]))"
proof -
  have rest: "rest_bits (mpeg2_bits_init [0xE0, 0x00, 0x00] 3) = enc_non_intra 0 [(0, -1)]
      @ [False, False, False, False, False, False, False, False, False, False, False, False, False, False,
         False, False, False, False, False, False]"
    by (simp add: init_eval enc_coeff_at_def)
  show ?thesis
    using non_intra_block_roundtrip [OF _ _ _ _ rest]
    by (auto simp: mpeg2_bits_init_wf small_buffer_init codable_def is_coeff_def)
qed

text \<open>The inverse quantisation does not overflow its \<open>int32\<close> products for the quantiser scales
  that \<open>mpeg2_compute_quantiser_scale\<close> returns, the matrices of 8 bit weights, and the levels that
  the coefficient decoders return on any stream.\<close>

theorem dequantisation_fits_int32:
  assumes "q < 32" and "m \<le> 255"
    and "rl \<in> {fst (decode_ac_coeff_b14 bs first), fst (decode_ac_coeff_b15 bs)}"
    and "rl_run rl \<noteq> VLC_EOB" and "rl_run rl \<noteq> VLC_ERROR"
  shows "\<bar>rl_level rl\<bar> * int (mpeg2_compute_quantiser_scale q nonlin) * int m < 2 ^ 31
    \<and> (2 * \<bar>rl_level rl\<bar> + 1) * int (mpeg2_compute_quantiser_scale q nonlin) * int m < 2 ^ 31"
proof -
  have "\<forall>x\<in>set non_linear_scale. x \<le> 112" by (simp add: non_linear_scale_def)
  moreover have "length non_linear_scale = 32" by (simp add: non_linear_scale_def)
  ultimately have "non_linear_scale ! q \<le> 112" using assms(1) by (metis nth_mem)
  then have scale: "mpeg2_compute_quantiser_scale q nonlin \<le> 112"
    using assms(1) by (auto simp: mpeg2_compute_quantiser_scale_def u16_def)
  have "run_level_ok rl"
    using assms(3) decode_ac_coeff_b14_ok decode_ac_coeff_b15_ok by auto
  then show ?thesis
    using dequant_products_fit [OF _ scale assms(2)] assms(4,5) by (simp add: run_level_ok_def)
qed

end
