(* ===== verification/Mpeg2_Macroblocks.thy ===== *)
theory Mpeg2_Macroblocks
  imports Mpeg2_Blocks
begin

text \<open>
  The macroblock decoders of \<open>src/intel_extreme/accelerant/mpeg2_parser.cpp\<close>, for I, P and B
  pictures: address increment, type, quantiser scale, motion vectors, coded block pattern and the six
  blocks, with the searches for a plausible position after an unknown code. The reader, the decoder,
  the macroblock and the DC predictors are threaded through; \<open>None\<close> stands for an address increment
  that does not return, which \<open>address_increment_total\<close> excludes.
\<close>

section \<open>State\<close>

record mpeg2_macroblock =
  blocks :: "int list list"
  quantiser_scale_code :: nat
  address_increment :: nat
  mb_type :: nat
  motion_h :: int
  motion_v :: int
  motion_backward_h :: int
  motion_backward_v :: int
  coded_block_pattern :: nat
  valid :: bool

type_synonym mb_result = "status_t \<times> mpeg2_bits \<times> mpeg2_decoder \<times> mpeg2_macroblock \<times> int list"

definition has_flag :: "nat \<Rightarrow> nat \<Rightarrow> bool" where
  "has_flag t f \<longleftrightarrow> t AND f \<noteq> 0"

text \<open>\<open>seek\<close> is the assignment of \<open>byte_pos\<close> and \<open>bit_pos\<close> from a bit target that is not
  negative.\<close>

definition seek :: "mpeg2_bits \<Rightarrow> int \<Rightarrow> mpeg2_bits" where
  "seek bs target = bs\<lparr>byte_pos := nat (target div 8), bit_pos := nat (target mod 8)\<rparr>"

section \<open>I pictures\<close>

text \<open>The two resynchronisation loops. The first tries an address increment of 1 at the saved
  position and up to 8 bits later, the second from 6 bits before to 10 bits after it; both want a 1 bit
  and a type after it. The reader of the caller does not move in the first loop, so that its guard is
  the same in every turn.\<close>

definition intra_type_at :: "mpeg2_bits \<Rightarrow> bool option" where
  "intra_type_at try_bs =
     (if mpeg2_bits_peek try_bs 1 = 1 then fst (decode_macroblock_type_i (mpeg2_bits_skip try_bs 1)) else None)"

definition resync_address_i :: "mpeg2_bits \<Rightarrow> nat option" where
  "resync_address_i saved_bs =
     (if mpeg2_bits_available saved_bs 3
      then find (\<lambda>d. intra_type_at (if d > 0 then mpeg2_bits_skip saved_bs d else saved_bs) \<noteq> None) [0..<9]
      else None)"

definition resync_type_bs :: "mpeg2_bits \<Rightarrow> int \<Rightarrow> mpeg2_bits" where
  "resync_type_bs saved_bs delta =
     (let target = s32 (int (mpeg2_bits_offset saved_bs)) + delta
      in if delta > 0 then mpeg2_bits_skip saved_bs (nat delta)
         else if delta < 0 then seek saved_bs target else saved_bs)"

definition resync_type_i :: "mpeg2_bits \<Rightarrow> int option" where
  "resync_type_i saved_bs =
     find (\<lambda>delta. 0 \<le> s32 (int (mpeg2_bits_offset saved_bs)) + delta
        \<and> mpeg2_bits_available (resync_type_bs saved_bs delta) 3
        \<and> intra_type_at (resync_type_bs saved_bs delta) \<noteq> None) [-6..10]"

text \<open>The component of a block, and the loop over the six blocks: at a start code the blocks left are
  cleared and the loop ends.\<close>

definition block_component :: "nat \<Rightarrow> nat" where
  "block_component b = (if b < 4 then 0 else b - 3)"

definition at_slice_end :: "mpeg2_bits \<Rightarrow> bool" where
  "at_slice_end bs \<longleftrightarrow> mpeg2_bits_available bs 23 \<and> mpeg2_bits_peek bs 23 = 0"

fun decode_intra_blocks ::
  "nat list \<Rightarrow> mpeg2_bits \<Rightarrow> mpeg2_decoder \<Rightarrow> int list \<Rightarrow> int list list
     \<Rightarrow> status_t \<times> mpeg2_bits \<times> int list \<times> int list list" where
  "decode_intra_blocks [] bs dec dc_pred bl = (B_OK, bs, dc_pred, bl)"
| "decode_intra_blocks (b # bs') bs dec dc_pred bl =
     (if at_slice_end bs then (B_OK, bs, dc_pred, fold (\<lambda>r bl. bl[r := replicate 64 0]) (b # bs') bl)
      else
        let (st, bs, dc_pred, block) = decode_intra_block bs dec (block_component b) dc_pred;
            bl = bl[b := block]
        in if st \<noteq> B_OK then (st, bs, dc_pred, bl) else decode_intra_blocks bs' bs dec dc_pred bl)"

text \<open>Steps 3 and 4, after the type.\<close>

definition decode_intra_rest ::
  "mpeg2_bits \<Rightarrow> mpeg2_decoder \<Rightarrow> mpeg2_macroblock \<Rightarrow> int list \<Rightarrow> bool \<Rightarrow> mb_result" where
  "decode_intra_rest bs dec mb dc_pred has_quant =
     (let (q, bs) = (if has_quant then mpeg2_bits_read bs 5 else (quantiser_scale_code mb, bs));
          mb = mb\<lparr>quantiser_scale_code := q\<rparr>;
          dec = dec\<lparr>quantiser_scale := mpeg2_compute_quantiser_scale q (q_scale_type (dec_pic_ext dec))\<rparr>;
          (st, bs, dc_pred, bl) = decode_intra_blocks [0..<6] bs dec dc_pred (blocks mb);
          mb = mb\<lparr>blocks := bl\<rparr>
      in if st \<noteq> B_OK then (st, bs, dec, mb, dc_pred)
         else (B_OK, bs, dec, mb\<lparr>valid := True\<rparr>, dc_pred))"

text \<open>Step 2: after a resynchronisation the reader stands behind the 1 bit, in front of the type that
  was found.\<close>

definition decode_intra_type ::
  "mpeg2_bits \<Rightarrow> mpeg2_bits \<Rightarrow> mpeg2_decoder \<Rightarrow> mpeg2_macroblock \<Rightarrow> int list \<Rightarrow> mb_result" where
  "decode_intra_type saved_bs bs dec mb dc_pred =
     (case decode_macroblock_type_i bs of
        (Some q, bs) \<Rightarrow> decode_intra_rest bs dec mb dc_pred q
      | (None, bs) \<Rightarrow>
          (case resync_type_i saved_bs of
             None \<Rightarrow> (B_BAD_DATA, bs, dec, mb, dc_pred)
           | Some delta \<Rightarrow>
               let try_bs = resync_type_bs saved_bs delta
               in decode_intra_rest (mpeg2_bits_skip try_bs 1) dec (mb\<lparr>address_increment := 1\<rparr>) dc_pred
                    (the (intra_type_at try_bs))))"

definition mpeg2_decode_intra_macroblock ::
  "mpeg2_bits \<Rightarrow> mpeg2_decoder \<Rightarrow> mpeg2_macroblock \<Rightarrow> int list \<Rightarrow> mb_result option" where
  "mpeg2_decode_intra_macroblock bs dec mb dc_pred =
     (let mb = mb\<lparr>valid := False\<rparr>; saved_bs = bs
      in do {
        (addr_inc, bs) \<leftarrow> decode_macroblock_address_increment bs;
        Some (if addr_inc = -2 then (B_ENTRY_NOT_FOUND, bs, dec, mb, dc_pred)
              else if addr_inc < 0 then
                (case resync_address_i saved_bs of
                   None \<Rightarrow> (B_BAD_DATA, saved_bs, dec, mb, dc_pred)
                 | Some d \<Rightarrow> decode_intra_type saved_bs (mpeg2_bits_skip saved_bs (d + 1)) dec
                     (mb\<lparr>address_increment := 1\<rparr>) dc_pred)
              else decode_intra_type saved_bs bs dec (mb\<lparr>address_increment := u8 (nat addr_inc)\<rparr>) dc_pred)
      })"

section \<open>P and B pictures\<close>

definition cleared_blocks :: "int list list" where
  "cleared_blocks = replicate 6 (replicate 64 0)"

text \<open>The search for a P type, from 4 bits before to 6 bits after the position behind the address
  increment.\<close>

definition type_p_at :: "mpeg2_bits \<Rightarrow> nat option" where
  "type_p_at try_bs =
     (if mpeg2_bits_peek try_bs 1 = 1 then fst (decode_macroblock_type_p (mpeg2_bits_skip try_bs 1)) else None)"

definition resync_type_p :: "mpeg2_bits \<Rightarrow> int option" where
  "resync_type_p saved_bs =
     find (\<lambda>d. let target = s32 (int (mpeg2_bits_offset saved_bs)) + d
               in 0 \<le> target \<and> type_p_at (seek saved_bs target) \<noteq> None) [-4..6]"

definition fcode_of :: "mpeg2_decoder \<Rightarrow> nat \<Rightarrow> nat \<Rightarrow> nat" where
  "fcode_of dec s t = (let f = f_code (dec_pic_ext dec) ! s ! t in if f = 0 then 1 else f)"

definition decode_forward_motion ::
  "mpeg2_bits \<Rightarrow> mpeg2_decoder \<Rightarrow> mpeg2_macroblock \<Rightarrow> mpeg2_bits \<times> mpeg2_decoder \<times> mpeg2_macroblock" where
  "decode_forward_motion bs dec mb =
     (let (h, bs) = decode_motion_vector bs (mv_pred_h dec) (fcode_of dec 0 0);
          dec = dec\<lparr>mv_pred_h := h\<rparr>;
          (v, bs) = decode_motion_vector bs (mv_pred_v dec) (fcode_of dec 0 1);
          dec = dec\<lparr>mv_pred_v := v\<rparr>
      in (bs, dec, mb\<lparr>motion_h := mv_pred_h dec, motion_v := mv_pred_v dec\<rparr>))"

definition decode_backward_motion ::
  "mpeg2_bits \<Rightarrow> mpeg2_decoder \<Rightarrow> mpeg2_macroblock \<Rightarrow> mpeg2_bits \<times> mpeg2_decoder \<times> mpeg2_macroblock" where
  "decode_backward_motion bs dec mb =
     (let (h, bs) = decode_motion_vector bs (mv_backward_pred_h dec) (fcode_of dec 1 0);
          dec = dec\<lparr>mv_backward_pred_h := h\<rparr>;
          (v, bs) = decode_motion_vector bs (mv_backward_pred_v dec) (fcode_of dec 1 1);
          dec = dec\<lparr>mv_backward_pred_v := v\<rparr>
      in (bs, dec, mb\<lparr>motion_backward_h := mv_backward_pred_h dec, motion_backward_v := mv_backward_pred_v dec\<rparr>))"

definition decode_pattern :: "mpeg2_bits \<Rightarrow> mpeg2_macroblock \<Rightarrow> mpeg2_bits \<times> mpeg2_macroblock" where
  "decode_pattern bs mb =
     (if has_flag (mb_type mb) MB_PATTERN then
        let (cbp, bs) = decode_coded_block_pattern bs;
            cbp = (if cbp < 0 then 0 else cbp)
        in (bs, mb\<lparr>coded_block_pattern := u8 (nat cbp)\<rparr>)
      else if has_flag (mb_type mb) MB_INTRA then (bs, mb\<lparr>coded_block_pattern := 0x3F\<rparr>)
      else (bs, mb))"

text \<open>The intra blocks of a P or B macroblock are decoded without the check for a start code.\<close>

fun decode_six_intra ::
  "nat list \<Rightarrow> mpeg2_bits \<Rightarrow> mpeg2_decoder \<Rightarrow> int list \<Rightarrow> int list list
     \<Rightarrow> status_t \<times> mpeg2_bits \<times> int list \<times> int list list" where
  "decode_six_intra [] bs dec dc_pred bl = (B_OK, bs, dc_pred, bl)"
| "decode_six_intra (b # bs') bs dec dc_pred bl =
     (let (st, bs, dc_pred, block) = decode_intra_block bs dec (block_component b) dc_pred;
          bl = bl[b := block]
      in if st \<noteq> B_OK then (st, bs, dc_pred, bl) else decode_six_intra bs' bs dec dc_pred bl)"

fun decode_coded_blocks ::
  "nat list \<Rightarrow> nat \<Rightarrow> mpeg2_bits \<Rightarrow> mpeg2_decoder \<Rightarrow> int list list
     \<Rightarrow> status_t \<times> mpeg2_bits \<times> int list list" where
  "decode_coded_blocks [] cbp bs dec bl = (B_OK, bs, bl)"
| "decode_coded_blocks (b # bs') cbp bs dec bl =
     (if has_flag cbp (2 ^ (5 - b)) then
        let (st, bs, block) = decode_non_intra_block bs dec;
            bl = bl[b := block]
        in if st \<noteq> B_OK then (st, bs, bl) else decode_coded_blocks bs' cbp bs dec bl
      else decode_coded_blocks bs' cbp bs dec bl)"

text \<open>Steps 5 and 6 of both decoders; \<open>reset_mv\<close> is what an intra macroblock does to the motion
  predictors.\<close>

definition decode_inter_rest ::
  "(mpeg2_decoder \<Rightarrow> mpeg2_decoder) \<Rightarrow> mpeg2_bits \<Rightarrow> mpeg2_decoder \<Rightarrow> mpeg2_macroblock \<Rightarrow> int list \<Rightarrow> mb_result" where
  "decode_inter_rest reset_mv bs dec mb dc_pred =
     (let (bs, mb) = decode_pattern bs mb
      in if has_flag (mb_type mb) MB_INTRA then
           let (st, bs, dc_pred, bl) = decode_six_intra [0..<6] bs dec dc_pred (blocks mb);
               mb = mb\<lparr>blocks := bl\<rparr>
           in if st \<noteq> B_OK then (st, bs, dec, mb, dc_pred)
              else (B_OK, bs, reset_mv dec, mb\<lparr>valid := True\<rparr>, dc_pred)
         else
           let dc_pred = reset_dc_prediction (intra_dc_precision (dec_pic_ext dec));
               (st, bs, bl) = decode_coded_blocks [0..<6] (coded_block_pattern mb) bs dec (blocks mb);
               mb = mb\<lparr>blocks := bl\<rparr>
           in if st \<noteq> B_OK then (st, bs, dec, mb, dc_pred)
              else (B_OK, bs, dec, mb\<lparr>valid := True\<rparr>, dc_pred))"

definition reset_forward_mv :: "mpeg2_decoder \<Rightarrow> mpeg2_decoder" where
  "reset_forward_mv dec = dec\<lparr>mv_pred_h := 0, mv_pred_v := 0\<rparr>"

definition reset_all_mv :: "mpeg2_decoder \<Rightarrow> mpeg2_decoder" where
  "reset_all_mv dec = dec\<lparr>mv_pred_h := 0, mv_pred_v := 0, mv_backward_pred_h := 0, mv_backward_pred_v := 0\<rparr>"

text \<open>Steps 3 to 6 of the P decoder: the new scale code is stored in the macroblock, the decoder's
  scale stays.\<close>

definition decode_p_rest :: "mpeg2_bits \<Rightarrow> mpeg2_decoder \<Rightarrow> mpeg2_macroblock \<Rightarrow> int list \<Rightarrow> mb_result" where
  "decode_p_rest bs dec mb dc_pred =
     (let (q, bs) = (if has_flag (mb_type mb) MB_QUANT then mpeg2_bits_read bs 5 else (quantiser_scale_code mb, bs));
          mb = mb\<lparr>quantiser_scale_code := q\<rparr>;
          (bs, dec, mb) = (if has_flag (mb_type mb) MB_MOTION_FORWARD
            then decode_forward_motion bs dec mb else (bs, dec, mb))
      in decode_inter_rest reset_forward_mv bs dec mb dc_pred)"

definition mpeg2_decode_p_macroblock ::
  "mpeg2_bits \<Rightarrow> mpeg2_decoder \<Rightarrow> mpeg2_macroblock \<Rightarrow> int list \<Rightarrow> mb_result option" where
  "mpeg2_decode_p_macroblock bs dec mb dc_pred =
     (let mb = mb\<lparr>valid := False, blocks := cleared_blocks, motion_h := 0, motion_v := 0,
                coded_block_pattern := 0\<rparr>
      in do {
        (addr_inc, bs) \<leftarrow> decode_macroblock_address_increment bs;
        Some (if addr_inc = -2 then (B_ENTRY_NOT_FOUND, bs, dec, mb, dc_pred)
              else if addr_inc < 0 then (B_BAD_DATA, bs, dec, mb, dc_pred)
              else
                let mb = mb\<lparr>address_increment := u8 (nat addr_inc)\<rparr>
                in case decode_macroblock_type_p bs of
                     (Some t, bs) \<Rightarrow> decode_p_rest bs dec (mb\<lparr>mb_type := t\<rparr>) dc_pred
                   | (None, bs) \<Rightarrow>
                       (case resync_type_p bs of
                          None \<Rightarrow> (B_BAD_DATA, bs, dec, mb, dc_pred)
                        | Some d \<Rightarrow>
                            let try_bs = seek bs (s32 (int (mpeg2_bits_offset bs)) + d)
                            in decode_p_rest (mpeg2_bits_skip try_bs 1) dec
                                 (mb\<lparr>address_increment := 1, mb_type := the (type_p_at try_bs)\<rparr>) dc_pred))
      })"

definition decode_b_rest :: "mpeg2_bits \<Rightarrow> mpeg2_decoder \<Rightarrow> mpeg2_macroblock \<Rightarrow> int list \<Rightarrow> mb_result" where
  "decode_b_rest bs dec mb dc_pred =
     (let (bs, dec, mb) = (if has_flag (mb_type mb) MB_QUANT then
            let (q, bs) = mpeg2_bits_read bs 5
            in (bs, dec\<lparr>quantiser_scale := mpeg2_compute_quantiser_scale q (q_scale_type (dec_pic_ext dec))\<rparr>,
                mb\<lparr>quantiser_scale_code := q\<rparr>)
          else (bs, dec, mb));
          (bs, dec, mb) = (if has_flag (mb_type mb) MB_MOTION_FORWARD
            then decode_forward_motion bs dec mb else (bs, dec, mb));
          (bs, dec, mb) = (if has_flag (mb_type mb) MB_MOTION_BACKWARD
            then decode_backward_motion bs dec mb else (bs, dec, mb))
      in decode_inter_rest reset_all_mv bs dec mb dc_pred)"

definition mpeg2_decode_b_macroblock ::
  "mpeg2_bits \<Rightarrow> mpeg2_decoder \<Rightarrow> mpeg2_macroblock \<Rightarrow> int list \<Rightarrow> mb_result option" where
  "mpeg2_decode_b_macroblock bs dec mb dc_pred =
     (let mb = mb\<lparr>valid := False, blocks := cleared_blocks, motion_h := 0, motion_v := 0,
                motion_backward_h := 0, motion_backward_v := 0, coded_block_pattern := 0\<rparr>
      in do {
        (addr_inc, bs) \<leftarrow> decode_macroblock_address_increment bs;
        Some (if addr_inc < 0 then (B_BAD_DATA, bs, dec, mb, dc_pred)
              else
                let mb = mb\<lparr>address_increment := u8 (nat addr_inc)\<rparr>
                in case decode_macroblock_type_b bs of
                     (Some t, bs) \<Rightarrow> decode_b_rest bs dec (mb\<lparr>mb_type := t\<rparr>) dc_pred
                   | (None, bs) \<Rightarrow> (B_BAD_DATA, bs, dec, mb, dc_pred))
      })"

section \<open>What the steps keep\<close>

lemma seek_keeps:
  assumes "keeps_reader a b" and "0 \<le> t" and "t < 2 ^ 35"
  shows "keeps_reader a (seek b t)"
proof -
  have "nat (t mod 8) < 8" "nat (t div 8) < 2 ^ 32"
    using assms(2,3) by (simp_all add: nat_less_iff)
  with assms(1) show ?thesis
    by (auto simp: keeps_reader_def seek_def bits_wf_def same_buffer_def)
qed

lemma find_Some_P: "find P xs = Some x \<Longrightarrow> x \<in> set xs \<and> P x"
  by (auto simp: find_Some_iff)

lemma resync_type_bs_keeps:
  assumes "keeps_reader a b" and "resync_type_i b = Some d"
  shows "keeps_reader a (resync_type_bs b d)"
proof -
  have "d \<le> 10" "0 \<le> s32 (int (mpeg2_bits_offset b)) + d"
    using find_Some_P [OF assms(2) [unfolded resync_type_i_def]] by auto
  with assms(1) s32_range [of "int (mpeg2_bits_offset b)"] show ?thesis
    by (auto simp: resync_type_bs_def Let_def intro!: keeps_skip seek_keeps)
qed

lemma resync_type_p_keeps:
  assumes "keeps_reader a b" and "resync_type_p b = Some d"
  shows "keeps_reader a (seek b (s32 (int (mpeg2_bits_offset b)) + d))"
proof -
  have "d \<le> 6" "0 \<le> s32 (int (mpeg2_bits_offset b)) + d"
    using find_Some_P [OF assms(2) [unfolded resync_type_p_def]] by (auto simp: Let_def)
  with assms(1) s32_range [of "int (mpeg2_bits_offset b)"] show ?thesis
    by (intro seek_keeps) auto
qed

text \<open>The DC predictors are three \<open>int16\<close>; the blocks of a macroblock are six well-formed blocks.\<close>

definition preds_ok :: "int list \<Rightarrow> bool" where
  "preds_ok p \<longleftrightarrow> length p = 3 \<and> (\<forall>x\<in>set p. -32768 \<le> x \<and> x < 32768)"

definition blocks_ok :: "int list list \<Rightarrow> bool" where
  "blocks_ok bl \<longleftrightarrow> length bl = 6 \<and> (\<forall>b\<in>set bl. block_ok b)"

lemma reset_preds_ok [simp]: "preds_ok (reset_dc_prediction k)"
  using s16_range [of "2 ^ (7 + k)"] by (simp add: preds_ok_def reset_dc_prediction_def Let_def)

lemma cleared_blocks_ok [simp]: "blocks_ok cleared_blocks"
  by (simp add: blocks_ok_def cleared_blocks_def)

lemma blocks_ok_put: "blocks_ok bl \<Longrightarrow> block_ok b \<Longrightarrow> blocks_ok (bl[i := b])"
  by (auto simp: blocks_ok_def dest!: subsetD [OF set_update_subset_insert])

lemma intra_block_keeps_preds:
  assumes "bits_wf bs" and "preds_ok p" and "b < 6" and "decode_intra_block bs dec (block_component b) p = (st, bs', p', bl)"
  shows "preds_ok p'"
proof -
  have cc: "block_component b < length p"
    using assms(2,3) by (auto simp: block_component_def preds_ok_def)
  note s = decode_intra_block_sound [OF assms(1,4)]
  have "- 32768 \<le> p' ! i \<and> p' ! i < 32768" if "i < 3" for i
  proof (cases "st = B_OK \<and> i = block_component b")
    case True
    with s(8) [OF cc] show ?thesis by simp
  next
    case False
    then have "p' ! i = p ! i" using s(6) [of i] s(7) by (cases "st = B_OK") auto
    then show ?thesis using assms(2) that by (simp add: preds_ok_def)
  qed
  then show ?thesis
    using s(5) assms(2) by (simp add: preds_ok_def all_set_conv_all_nth)
qed

lemma fold_clear:
  "length (fold (\<lambda>r bl. bl[r := z]) rs bl) = length bl \<and>
   (i < length bl \<longrightarrow> fold (\<lambda>r bl. bl[r := z]) rs bl ! i = (if i \<in> set rs then z else bl ! i))"
  by (induction rs arbitrary: bl) (auto simp: nth_list_update)

text \<open>\<open>blocks_done bl bl' bs\<close>: after the blocks \<open>bs\<close> of \<open>bl\<close> were decoded to \<open>bl'\<close>, they
  are well formed and the others are as before.\<close>

definition blocks_done :: "int list list \<Rightarrow> int list list \<Rightarrow> nat set \<Rightarrow> bool" where
  "blocks_done bl bl' bs \<longleftrightarrow> length bl' = length bl
     \<and> (\<forall>i < length bl. if i \<in> bs then block_ok (bl' ! i) else bl' ! i = bl ! i)"

lemma blocks_done_step:
  "block_ok b \<Longrightarrow> i \<notin> S \<Longrightarrow> blocks_done (bl[i := b]) bl' S \<Longrightarrow> blocks_done bl bl' (insert i S)"
  by (auto simp: blocks_done_def nth_list_update)

lemma decode_intra_blocks_sound:
  assumes "bits_wf bs" and "preds_ok p" and "set is \<subseteq> {0..<6}" and "distinct is"
    and "decode_intra_blocks is bs dec p bl = (st, bs', p', bl')"
  shows "keeps_reader bs bs' \<and> preds_ok p' \<and> (st = B_OK \<or> st = B_BAD_DATA) \<and> length bl' = length bl
    \<and> (st = B_OK \<longrightarrow> blocks_done bl bl' (set is))"
  using assms
proof (induction "is" arbitrary: bs p bl)
  case Nil
  then show ?case by (simp add: keeps_refl blocks_done_def)
next
  case (Cons b bs0)
  show ?case
  proof (cases "at_slice_end bs")
    case True
    then have "st = B_OK" "bs' = bs" "p' = p" "bl' = fold (\<lambda>r bl. bl[r := replicate 64 0]) (b # bs0) bl"
      using Cons.prems(5) by auto
    moreover have "blocks_done bl bl' (set (b # bs0))"
      using fold_clear [where rs = "b # bs0" and bl = bl and z = "replicate 64 (0::int)"]
      unfolding blocks_done_def calculation(4) by (simp del: fold.simps)
    ultimately show ?thesis
      using Cons.prems(1,2) by (simp add: keeps_refl blocks_done_def)
  next
    case False
    obtain st1 bs1 p1 blk where d: "decode_intra_block bs dec (block_component b) p = (st1, bs1, p1, blk)"
      by (metis prod_cases4)
    have b: "b < 6" "b \<notin> set bs0" "set bs0 \<subseteq> {0..<6}" "distinct bs0" using Cons.prems(3,4) by auto
    note s = decode_intra_block_sound [OF Cons.prems(1) d]
      and pr = intra_block_keeps_preds [OF Cons.prems(1,2) b(1) d]
    show ?thesis
    proof (cases "st1 = B_OK")
      case True
      then have "decode_intra_blocks bs0 bs1 dec p1 (bl[b := blk]) = (st, bs', p', bl')"
        using Cons.prems(5) False d by simp
      from Cons.IH [OF keeps_wf [OF s(1)] pr b(3,4) this] show ?thesis
        using keeps_trans [OF s(1)] blocks_done_step [OF s(2) b(2)] by auto
    next
      case False
      with Cons.prems(5) \<open>\<not> at_slice_end bs\<close> d s(1,3) pr show ?thesis by auto
    qed
  qed
qed

lemma decode_six_intra_sound:
  assumes "bits_wf bs" and "preds_ok p" and "set is \<subseteq> {0..<6}" and "distinct is"
    and "decode_six_intra is bs dec p bl = (st, bs', p', bl')"
  shows "keeps_reader bs bs' \<and> preds_ok p' \<and> (st = B_OK \<or> st = B_BAD_DATA) \<and> length bl' = length bl
    \<and> (st = B_OK \<longrightarrow> blocks_done bl bl' (set is))"
  using assms
proof (induction "is" arbitrary: bs p bl)
  case Nil
  then show ?case by (simp add: keeps_refl blocks_done_def)
next
  case (Cons b bs0)
  obtain st1 bs1 p1 blk where d: "decode_intra_block bs dec (block_component b) p = (st1, bs1, p1, blk)"
    by (metis prod_cases4)
  have b: "b < 6" "b \<notin> set bs0" "set bs0 \<subseteq> {0..<6}" "distinct bs0" using Cons.prems(3,4) by auto
  note s = decode_intra_block_sound [OF Cons.prems(1) d]
    and pr = intra_block_keeps_preds [OF Cons.prems(1,2) b(1) d]
  show ?case
  proof (cases "st1 = B_OK")
    case True
    then have "decode_six_intra bs0 bs1 dec p1 (bl[b := blk]) = (st, bs', p', bl')"
      using Cons.prems(5) d by simp
    from Cons.IH [OF keeps_wf [OF s(1)] pr b(3,4) this] show ?thesis
      using keeps_trans [OF s(1)] blocks_done_step [OF s(2) b(2)] by auto
  next
    case False
    with Cons.prems(5) d s(1,3) pr show ?thesis by auto
  qed
qed

lemma decode_coded_blocks_sound:
  assumes "bits_wf bs" and "blocks_ok bl" and "decode_coded_blocks is cbp bs dec bl = (st, bs', bl')"
  shows "keeps_reader bs bs' \<and> st = B_OK \<and> blocks_ok bl'
    \<and> (\<forall>i<6. i \<notin> set is \<or> \<not> has_flag cbp (2 ^ (5 - i)) \<longrightarrow> bl' ! i = bl ! i)"
  using assms
proof (induction "is" cbp bs dec bl rule: decode_coded_blocks.induct)
  case (2 b bs0 cbp bs dec bl)
  obtain st1 bs1 blk where d: "decode_non_intra_block bs dec = (st1, bs1, blk)"
    by (metis prod_cases3)
  note s = decode_non_intra_block_sound [OF 2(3) d]
  show ?case
  proof (cases "has_flag cbp (2 ^ (5 - b))")
    case True
    have rec: "decode_coded_blocks bs0 cbp bs1 dec (bl[b := blk]) = (st, bs', bl')"
      using 2(5) d s(3) True by simp
    have "keeps_reader bs1 bs' \<and> st = B_OK \<and> blocks_ok bl'
        \<and> (\<forall>i<6. i \<notin> set bs0 \<or> \<not> has_flag cbp (2 ^ (5 - i)) \<longrightarrow> bl' ! i = bl[b := blk] ! i)"
      using d s(3) by (intro 2(1) [OF True d [symmetric] refl refl] keeps_wf [OF s(1)] blocks_ok_put 2(4) s(2) rec) auto
    moreover have "bl[b := blk] ! i = bl ! i" if "i \<notin> set (b # bs0) \<or> \<not> has_flag cbp (2 ^ (5 - i))" for i
      using that True by (cases "i = b") auto
    ultimately show ?thesis
      using keeps_trans [OF s(1)] by auto
  next
    case False
    with 2 show ?thesis by simp
  qed
qed (auto simp: keeps_refl)

section \<open>The macroblock decoders\<close>

text \<open>The result of a decoder: the reader and the predictors keep their invariants, the macroblock is
  valid exactly on success, and then its six blocks are well formed.\<close>

definition mb_sound :: "mpeg2_bits \<Rightarrow> mb_result \<Rightarrow> bool" where
  "mb_sound bs res \<longleftrightarrow> (case res of (st, bs', dec', mb', p') \<Rightarrow>
     keeps_reader bs bs' \<and> preds_ok p' \<and> st \<in> {B_OK, B_BAD_DATA, B_ENTRY_NOT_FOUND}
     \<and> (valid mb' \<longleftrightarrow> st = B_OK) \<and> (st = B_OK \<longrightarrow> blocks_ok (blocks mb')) \<and> length (blocks mb') = 6)"

lemma mb_sound_trans: "keeps_reader a b \<Longrightarrow> mb_sound b res \<Longrightarrow> mb_sound a res"
  by (auto simp: mb_sound_def dest: keeps_trans)

lemma mb_sound_fail:
  "keeps_reader bs bs' \<Longrightarrow> preds_ok p \<Longrightarrow> \<not> valid mb \<Longrightarrow> length (blocks mb) = 6
     \<Longrightarrow> st \<in> {B_BAD_DATA, B_ENTRY_NOT_FOUND} \<Longrightarrow> mb_sound bs (st, bs', dec, mb, p)"
  by (auto simp: mb_sound_def)

lemma blocks_done_all: "length bl = 6 \<Longrightarrow> blocks_done bl bl' {0..<6} \<Longrightarrow> blocks_ok bl'"
  by (auto simp: blocks_done_def blocks_ok_def all_set_conv_all_nth)

lemma decode_intra_rest_sound:
  assumes "bits_wf bs" and "preds_ok p" and "\<not> valid mb" and "length (blocks mb) = 6"
  shows "mb_sound bs (decode_intra_rest bs dec mb p q)"
    and "\<exists>s. fst (snd (snd (decode_intra_rest bs dec mb p q))) = dec\<lparr>quantiser_scale := s\<rparr>"
proof -
  define qb where "qb = (if q then mpeg2_bits_read bs 5 else (quantiser_scale_code mb, bs))"
  define dec1 where "dec1 = dec\<lparr>quantiser_scale :=
      mpeg2_compute_quantiser_scale (fst qb) (q_scale_type (dec_pic_ext dec))\<rparr>"
  have keep: "keeps_reader bs (snd qb)"
    using keeps_read [OF keeps_refl [OF assms(1)], of 5] by (simp add: qb_def keeps_refl [OF assms(1)])
  obtain st bs1 p1 bl where d: "decode_intra_blocks [0..<6] (snd qb) dec1 p (blocks mb) = (st, bs1, p1, bl)"
    by (metis prod_cases4)
  have e: "decode_intra_rest bs dec mb p q = (let mb1 = mb\<lparr>quantiser_scale_code := fst qb, blocks := bl\<rparr>
      in if st \<noteq> B_OK then (st, bs1, dec1, mb1, p1) else (B_OK, bs1, dec1, mb1\<lparr>valid := True\<rparr>, p1))"
    using d by (simp add: decode_intra_rest_def Let_def split_beta dec1_def flip: qb_def)
  have s: "keeps_reader (snd qb) bs1 \<and> preds_ok p1 \<and> (st = B_OK \<or> st = B_BAD_DATA)
      \<and> length bl = length (blocks mb) \<and> (st = B_OK \<longrightarrow> blocks_done (blocks mb) bl (set [0..<6]))"
    by (rule decode_intra_blocks_sound [OF keeps_wf [OF keep] assms(2) _ _ d]) auto
  then show "mb_sound bs (decode_intra_rest bs dec mb p q)"
    using keeps_trans [OF keep] assms(3,4) blocks_done_all [OF assms(4)]
    by (auto simp: mb_sound_def e Let_def)
  show "\<exists>s. fst (snd (snd (decode_intra_rest bs dec mb p q))) = dec\<lparr>quantiser_scale := s\<rparr>"
    by (auto simp: e Let_def dec1_def)
qed

lemma decode_intra_type_sound:
  assumes "bits_wf saved" and "bits_wf bs" and "same_buffer bs saved" and "preds_ok p" and "\<not> valid mb"
    and "length (blocks mb) = 6"
  shows "mb_sound bs (decode_intra_type saved bs dec mb p)"
    and "\<exists>s. fst (snd (snd (decode_intra_type saved bs dec mb p))) = dec\<lparr>quantiser_scale := s\<rparr>"
proof -
  obtain t bs1 where t: "decode_macroblock_type_i bs = (t, bs1)" by force
  have keep: "keeps_reader bs bs1"
    using keeps_macroblock_type_i [OF keeps_refl [OF assms(2)]] t by simp
  have saved: "keeps_reader bs saved"
    using assms(1-3) by (simp add: keeps_reader_def same_buffer_def)
  have same: "\<exists>s. dec = dec\<lparr>quantiser_scale := s\<rparr>"
    by (rule exI [of _ "quantiser_scale dec"]) simp
  note rest = decode_intra_rest_sound [OF _ assms(4)]
  have "mb_sound bs (decode_intra_type saved bs dec mb p)
    \<and> (\<exists>s. fst (snd (snd (decode_intra_type saved bs dec mb p))) = dec\<lparr>quantiser_scale := s\<rparr>)"
  proof (cases t)
    case (Some q)
    then show ?thesis
      using rest [OF keeps_wf [OF keep] assms(5,6)] mb_sound_trans [OF keep] t
      by (simp add: decode_intra_type_def)
  next
    case None
    show ?thesis
    proof (cases "resync_type_i saved")
      case n: None
      with None t keep assms(4-6) same show ?thesis
        by (simp add: decode_intra_type_def mb_sound_fail)
    next
      case (Some d)
      let ?b = "mpeg2_bits_skip (resync_type_bs saved d) 1"
      have b: "keeps_reader bs ?b"
        by (intro keeps_skip resync_type_bs_keeps saved Some)
      have "\<not> valid (mb\<lparr>address_increment := 1\<rparr>)" "length (blocks (mb\<lparr>address_increment := 1\<rparr>)) = 6"
        using assms(5,6) by simp_all
      from rest [OF keeps_wf [OF b] this] show ?thesis
        using mb_sound_trans [OF b] None Some t by (simp add: decode_intra_type_def Let_def)
    qed
  qed
  then show "mb_sound bs (decode_intra_type saved bs dec mb p)"
    and "\<exists>s. fst (snd (snd (decode_intra_type saved bs dec mb p))) = dec\<lparr>quantiser_scale := s\<rparr>" by auto
qed

lemma intra_macroblock_sound_lemma:
  assumes "bits_wf bs" and "small_buffer bs" and "preds_ok p" and "length (blocks mb) = 6"
  shows "\<exists>res s. mpeg2_decode_intra_macroblock bs dec mb p = Some res \<and> mb_sound bs res
    \<and> fst (snd (snd res)) = dec\<lparr>quantiser_scale := s\<rparr>"
proof -
  obtain n bs1 where n: "decode_macroblock_address_increment bs = Some (n, bs1)" "keeps_reader bs bs1"
    using address_increment_returns [OF assms(1,2)] by auto
  let ?mb = "mb\<lparr>valid := False\<rparr>"
  have same: "\<exists>s. dec = dec\<lparr>quantiser_scale := s\<rparr>"
    by (rule exI [of _ "quantiser_scale dec"]) simp
  have refl: "keeps_reader bs bs" using assms(1) by (rule keeps_refl)
  note step = decode_intra_type_sound [OF assms(1) _ _ assms(3), of _ "?mb\<lparr>address_increment := _\<rparr>"]
  have fail: "mb_sound bs (st, b, dec, ?mb, p)" if "keeps_reader bs b" "st \<in> {B_BAD_DATA, B_ENTRY_NOT_FOUND}" for b st
    using that assms(3,4) by (intro mb_sound_fail) auto
  have sub: "mb_sound bs (decode_intra_type bs b dec (?mb\<lparr>address_increment := a\<rparr>) p)
      \<and> (\<exists>s. fst (snd (snd (decode_intra_type bs b dec (?mb\<lparr>address_increment := a\<rparr>) p))) = dec\<lparr>quantiser_scale := s\<rparr>)"
    if "keeps_reader bs b" for b a
  proof -
    have "bits_wf b" "same_buffer b bs" using that by (auto simp: keeps_reader_def same_buffer_def)
    from step [OF this] show ?thesis
      using mb_sound_trans [OF that] assms(4) by simp
  qed
  consider (eos) "n = -2" | (bad) "n < 0" "n \<noteq> -2" | (ok) "0 \<le> n" by linarith
  then show ?thesis
  proof cases
    case eos
    then show ?thesis
      using n(1) fail [OF n(2)] same by (simp add: mpeg2_decode_intra_macroblock_def)
  next
    case bad
    then show ?thesis
    proof (cases "resync_address_i bs")
      case None
      then show ?thesis
        using n(1) bad fail [OF refl] same by (simp add: mpeg2_decode_intra_macroblock_def)
    next
      case (Some d)
      then show ?thesis
        using n(1) bad sub [OF keeps_skip [OF refl], of "d + 1" 1] by (simp add: mpeg2_decode_intra_macroblock_def)
    qed
  next
    case ok
    then show ?thesis
      using n(1) sub [OF n(2), of "u8 (nat n)"] by (simp add: mpeg2_decode_intra_macroblock_def)
  qed
qed

text \<open>Motion predictors in the range of their codes. With codes up to 12, in the forward direction for
  a P picture and in both for a B picture, the decoders keep them there.\<close>

definition f_codes_ok :: "nat \<Rightarrow> mpeg2_decoder \<Rightarrow> bool" where
  "f_codes_ok dirs dec \<longleftrightarrow> (\<forall>s<dirs. \<forall>t<2. f_code (dec_pic_ext dec) ! s ! t \<le> 12)"

lemma f_codes_ok_fewer: "f_codes_ok m dec \<Longrightarrow> n \<le> m \<Longrightarrow> f_codes_ok n dec"
  by (simp add: f_codes_ok_def)

definition mv_ok :: "mpeg2_decoder \<Rightarrow> bool" where
  "mv_ok dec \<longleftrightarrow>
     motion_ok (fcode_of dec 0 0 - 1) (mv_pred_h dec) \<and> motion_ok (fcode_of dec 0 1 - 1) (mv_pred_v dec)
     \<and> motion_ok (fcode_of dec 1 0 - 1) (mv_backward_pred_h dec)
     \<and> motion_ok (fcode_of dec 1 1 - 1) (mv_backward_pred_v dec)"

lemma fcode_of_range: "f_codes_ok m dec \<Longrightarrow> s < m \<Longrightarrow> t < 2 \<Longrightarrow> 1 \<le> fcode_of dec s t \<and> fcode_of dec s t \<le> 12"
  by (simp add: fcode_of_def f_codes_ok_def Let_def)

lemma fcode_motion:
  assumes "keeps_reader a b" and "f_codes_ok m dec" and "s < m" and "t < 2" and "motion_ok (fcode_of dec s t - 1) p"
  shows "motion_ok (fcode_of dec s t - 1) (fst (decode_motion_vector b p (fcode_of dec s t)))"
    and "keeps_reader a (snd (decode_motion_vector b p (fcode_of dec s t)))"
proof -
  have f: "1 \<le> fcode_of dec s t" "fcode_of dec s t \<le> 12"
    using fcode_of_range [OF assms(2-4)] by auto
  show "motion_ok (fcode_of dec s t - 1) (fst (decode_motion_vector b p (fcode_of dec s t)))"
    using motion_vector_range [OF keeps_wf [OF assms(1)] assms(5)] f by simp
  show "keeps_reader a (snd (decode_motion_vector b p (fcode_of dec s t)))"
    using f by (intro keeps_motion_vector assms(1)) simp
qed

lemma fcode_of_simps [simp]:
  "fcode_of (dec\<lparr>mv_pred_h := h\<rparr>) = fcode_of dec" "fcode_of (dec\<lparr>mv_pred_v := h\<rparr>) = fcode_of dec"
  "fcode_of (dec\<lparr>mv_backward_pred_h := h\<rparr>) = fcode_of dec" "fcode_of (dec\<lparr>mv_backward_pred_v := h\<rparr>) = fcode_of dec"
  "fcode_of (dec\<lparr>quantiser_scale := q\<rparr>) = fcode_of dec"
  by (simp_all add: fcode_of_def fun_eq_iff)

lemma forward_motion_sound:
  assumes "bits_wf bs" and "f_codes_ok 1 dec" and "mv_ok dec" and "decode_forward_motion bs dec mb = (bs', dec', mb')"
  shows "keeps_reader bs bs'" and "mv_ok dec'"
    and "\<exists>h v. dec' = dec\<lparr>mv_pred_h := h, mv_pred_v := v\<rparr> \<and> mb' = mb\<lparr>motion_h := h, motion_v := v\<rparr>"
proof -
  have mv: "motion_ok (fcode_of dec 0 0 - 1) (mv_pred_h dec)" "motion_ok (fcode_of dec 0 1 - 1) (mv_pred_v dec)"
    using assms(3) by (simp_all add: mv_ok_def)
  note h = fcode_motion [OF keeps_refl [OF assms(1)] assms(2) _ _ mv(1), simplified]
  note v = fcode_motion [OF h(2) assms(2) _ _ mv(2), simplified]
  show "keeps_reader bs bs'" and "mv_ok dec'"
    and "\<exists>h v. dec' = dec\<lparr>mv_pred_h := h, mv_pred_v := v\<rparr> \<and> mb' = mb\<lparr>motion_h := h, motion_v := v\<rparr>"
    using assms(3,4) h v by (auto simp: decode_forward_motion_def Let_def split_beta mv_ok_def)
qed

lemma backward_motion_sound:
  assumes "bits_wf bs" and "f_codes_ok 2 dec" and "mv_ok dec" and "decode_backward_motion bs dec mb = (bs', dec', mb')"
  shows "keeps_reader bs bs'" and "mv_ok dec'"
    and "\<exists>h v. dec' = dec\<lparr>mv_backward_pred_h := h, mv_backward_pred_v := v\<rparr>
      \<and> mb' = mb\<lparr>motion_backward_h := h, motion_backward_v := v\<rparr>"
proof -
  have mv: "motion_ok (fcode_of dec 1 0 - 1) (mv_backward_pred_h dec)" "motion_ok (fcode_of dec 1 1 - 1) (mv_backward_pred_v dec)"
    using assms(3) by (simp_all add: mv_ok_def)
  have "(1::nat) < 2" "(0::nat) < 2" by simp_all
  note h = fcode_motion [OF keeps_refl [OF assms(1)] assms(2) this mv(1)]
  note v = fcode_motion [OF h(2) assms(2) \<open>1 < 2\<close> \<open>1 < 2\<close> mv(2)]
  show "keeps_reader bs bs'" and "mv_ok dec'"
    and "\<exists>h v. dec' = dec\<lparr>mv_backward_pred_h := h, mv_backward_pred_v := v\<rparr>
      \<and> mb' = mb\<lparr>motion_backward_h := h, motion_backward_v := v\<rparr>"
    using assms(3,4) h v by (auto simp: decode_backward_motion_def Let_def split_beta mv_ok_def)
qed

lemma reset_mv_ok: "mv_ok dec \<Longrightarrow> mv_ok (reset_forward_mv dec)" "mv_ok (reset_all_mv dec)"
  by (simp_all add: mv_ok_def reset_forward_mv_def reset_all_mv_def motion_ok_def)

lemma decode_pattern_sound:
  "keeps_reader a b \<Longrightarrow> keeps_reader a (fst (decode_pattern b mb))"
  "blocks (snd (decode_pattern b mb)) = blocks mb" "valid (snd (decode_pattern b mb)) = valid mb"
  by (auto simp: decode_pattern_def Let_def split_beta intro: keeps_intros)

lemma decode_inter_rest_sound:
  assumes "bits_wf bs" and "preds_ok p" and "\<not> valid mb" and "blocks_ok (blocks mb)"
  shows "mb_sound bs (decode_inter_rest reset bs dec mb p)"
    and "fst (snd (snd (decode_inter_rest reset bs dec mb p))) \<in> {dec, reset dec}"
proof -
  obtain bs1 mb1 where pat: "decode_pattern bs mb = (bs1, mb1)" by force
  have keep: "keeps_reader bs bs1" and mb1: "blocks mb1 = blocks mb" "valid mb1 = valid mb"
    using decode_pattern_sound(1) [OF keeps_refl [OF assms(1)], of mb] decode_pattern_sound(2,3) [where b = bs and mb = mb]
    by (simp_all add: pat)
  have len: "length (blocks mb) = 6" using assms(4) by (simp add: blocks_ok_def)
  have "mb_sound bs (decode_inter_rest reset bs dec mb p)
    \<and> fst (snd (snd (decode_inter_rest reset bs dec mb p))) \<in> {dec, reset dec}"
  proof (cases "has_flag (mb_type mb1) MB_INTRA")
    case True
    obtain st bs2 p2 bl where d: "decode_six_intra [0..<6] bs1 dec p (blocks mb1) = (st, bs2, p2, bl)"
      by (metis prod_cases4)
    have s: "keeps_reader bs1 bs2 \<and> preds_ok p2 \<and> (st = B_OK \<or> st = B_BAD_DATA)
        \<and> length bl = length (blocks mb1) \<and> (st = B_OK \<longrightarrow> blocks_done (blocks mb1) bl (set [0..<6]))"
      by (rule decode_six_intra_sound [OF keeps_wf [OF keep] assms(2) _ _ d]) auto
    with True pat d len mb1 assms(3) keeps_trans [OF keep] blocks_done_all [of "blocks mb1" bl]
    show ?thesis by (auto simp: decode_inter_rest_def Let_def mb_sound_def)
  next
    case False
    obtain st bs2 bl where d: "decode_coded_blocks [0..<6] (coded_block_pattern mb1) bs1 dec (blocks mb1) = (st, bs2, bl)"
      by (metis prod_cases3)
    have s: "keeps_reader bs1 bs2 \<and> st = B_OK \<and> blocks_ok bl"
      using decode_coded_blocks_sound [OF keeps_wf [OF keep] _ d] assms(4) mb1 by simp
    then have "decode_inter_rest reset bs dec mb p = (B_OK, bs2, dec, mb1\<lparr>blocks := bl, valid := True\<rparr>,
        reset_dc_prediction (intra_dc_precision (dec_pic_ext dec)))"
      using False pat d by (simp add: decode_inter_rest_def Let_def)
    with s keeps_trans [OF keep] show ?thesis
      by (simp add: mb_sound_def blocks_ok_def)
  qed
  then show "mb_sound bs (decode_inter_rest reset bs dec mb p)"
    and "fst (snd (snd (decode_inter_rest reset bs dec mb p))) \<in> {dec, reset dec}" by auto
qed

text \<open>What a P macroblock may change in the decoder: the forward predictors. Its quantiser scale
  stays even when the macroblock carries a new one.\<close>

definition p_frame :: "mpeg2_decoder \<Rightarrow> mpeg2_decoder \<Rightarrow> bool" where
  "p_frame dec dec' \<longleftrightarrow> dec' = dec\<lparr>mv_pred_h := mv_pred_h dec', mv_pred_v := mv_pred_v dec'\<rparr>"

definition b_frame :: "mpeg2_decoder \<Rightarrow> mpeg2_decoder \<Rightarrow> bool" where
  "b_frame dec dec' \<longleftrightarrow> dec' = dec\<lparr>quantiser_scale := quantiser_scale dec',
     mv_pred_h := mv_pred_h dec', mv_pred_v := mv_pred_v dec',
     mv_backward_pred_h := mv_backward_pred_h dec', mv_backward_pred_v := mv_backward_pred_v dec'\<rparr>"

lemma frames_refl [simp]: "p_frame dec dec" "b_frame dec dec"
  by (simp_all add: p_frame_def b_frame_def)

lemma p_frame_trans: "p_frame a b \<Longrightarrow> p_frame b c \<Longrightarrow> p_frame a c"
  by (cases a; cases b; cases c) (simp add: p_frame_def)

lemma b_frame_trans: "b_frame a b \<Longrightarrow> b_frame b c \<Longrightarrow> b_frame a c"
  by (cases a; cases b; cases c) (simp add: b_frame_def)

lemma frame_steps:
  "p_frame dec (reset_forward_mv dec)" "b_frame dec (reset_all_mv dec)"
  "p_frame dec (dec\<lparr>mv_pred_h := h, mv_pred_v := v\<rparr>)" "b_frame dec (dec\<lparr>mv_pred_h := h, mv_pred_v := v\<rparr>)"
  "b_frame dec (dec\<lparr>mv_backward_pred_h := h, mv_backward_pred_v := v\<rparr>)" "b_frame dec (dec\<lparr>quantiser_scale := q\<rparr>)"
  by (cases dec; simp add: p_frame_def b_frame_def reset_forward_mv_def reset_all_mv_def)+

lemma f_codes_frames:
  "p_frame dec dec' \<Longrightarrow> f_codes_ok m dec' = f_codes_ok m dec" "b_frame dec dec' \<Longrightarrow> f_codes_ok m dec' = f_codes_ok m dec"
  by (cases dec; cases dec'; simp add: p_frame_def b_frame_def f_codes_ok_def)+

text \<open>Steps 3 to 6 of the two decoders.\<close>

lemma decode_p_rest_sound:
  assumes "bits_wf bs" and "preds_ok p" and "\<not> valid mb" and "blocks_ok (blocks mb)"
    and "f_codes_ok 1 dec" and "mv_ok dec"
  shows "mb_sound bs (decode_p_rest bs dec mb p)
    \<and> (let dec' = fst (snd (snd (decode_p_rest bs dec mb p))) in mv_ok dec' \<and> p_frame dec dec')"
proof -
  define qb where "qb = (if has_flag (mb_type mb) MB_QUANT then mpeg2_bits_read bs 5 else (quantiser_scale_code mb, bs))"
  have keep: "keeps_reader bs (snd qb)"
    using keeps_read [OF keeps_refl [OF assms(1)], of 5] by (simp add: qb_def keeps_refl [OF assms(1)])
  let ?mb = "mb\<lparr>quantiser_scale_code := fst qb\<rparr>"
  define m where "m = (if has_flag (mb_type ?mb) MB_MOTION_FORWARD then decode_forward_motion (snd qb) dec ?mb
    else (snd qb, dec, ?mb))"
  obtain bs1 dec1 mb1 where m1: "m = (bs1, dec1, mb1)" by (metis prod_cases3)
  have "keeps_reader (snd qb) bs1 \<and> mv_ok dec1 \<and> p_frame dec dec1 \<and> \<not> valid mb1 \<and> blocks mb1 = blocks mb"
  proof (cases "has_flag (mb_type mb) MB_MOTION_FORWARD")
    case True
    then have "decode_forward_motion (snd qb) dec ?mb = (bs1, dec1, mb1)" using m1 by (simp add: m_def)
    from forward_motion_sound [OF keeps_wf [OF keep] assms(5,6) this] assms(3)
    show ?thesis by (auto simp: frame_steps)
  next
    case False
    with m1 assms(3,6) keep show ?thesis by (auto simp: m_def keeps_refl keeps_wf)
  qed
  note st = this
  then have keep1: "keeps_reader bs bs1" using keeps_trans [OF keep] by blast
  have rest: "decode_p_rest bs dec mb p = decode_inter_rest reset_forward_mv bs1 dec1 mb1 p"
    using m1 by (auto simp: decode_p_rest_def Let_def split_beta m_def qb_def split: if_splits)
  have "\<not> valid mb1" "blocks_ok (blocks mb1)" using st assms(4) by simp_all
  note r = decode_inter_rest_sound [OF keeps_wf [OF keep1] assms(2) this, of reset_forward_mv dec1]
  have "p_frame dec (reset_forward_mv dec1)" "mv_ok (reset_forward_mv dec1)"
    using p_frame_trans [OF _ frame_steps(1)] reset_mv_ok(1) st by blast+
  then show ?thesis
    using r(2) st mb_sound_trans [OF keep1 r(1)] unfolding rest Let_def by auto
qed

lemma decode_b_rest_sound:
  assumes "bits_wf bs" and "preds_ok p" and "\<not> valid mb" and "blocks_ok (blocks mb)"
    and "f_codes_ok 2 dec" and "mv_ok dec"
  shows "mb_sound bs (decode_b_rest bs dec mb p)
    \<and> (let dec' = fst (snd (snd (decode_b_rest bs dec mb p))) in mv_ok dec' \<and> b_frame dec dec')"
proof -
  define q where "q = (if has_flag (mb_type mb) MB_QUANT then
            let (q, bs) = mpeg2_bits_read bs 5
            in (bs, dec\<lparr>quantiser_scale := mpeg2_compute_quantiser_scale q (q_scale_type (dec_pic_ext dec))\<rparr>,
                mb\<lparr>quantiser_scale_code := q\<rparr>)
          else (bs, dec, mb))"
  obtain bs1 dec1 mb1 where q1: "q = (bs1, dec1, mb1)" by (metis prod_cases3)
  have s1: "keeps_reader bs bs1" "mv_ok dec1" "b_frame dec dec1" "\<not> valid mb1" "blocks mb1 = blocks mb"
    using q1 assms(3,6) keeps_refl [OF assms(1)] keeps_read [OF keeps_refl [OF assms(1)], of 5]
    by (auto simp: q_def Let_def split_beta frame_steps mv_ok_def split: if_splits)
  define f where "f = (if has_flag (mb_type mb1) MB_MOTION_FORWARD
            then decode_forward_motion bs1 dec1 mb1 else (bs1, dec1, mb1))"
  obtain bs2 dec2 mb2 where f2: "f = (bs2, dec2, mb2)" by (metis prod_cases3)
  have f1: "f_codes_ok 2 dec1" using assms(5) f_codes_frames(2) [OF s1(3)] by simp
  have s2: "keeps_reader bs1 bs2 \<and> mv_ok dec2 \<and> b_frame dec1 dec2 \<and> \<not> valid mb2 \<and> blocks mb2 = blocks mb"
  proof (cases "has_flag (mb_type mb1) MB_MOTION_FORWARD")
    case True
    then have "decode_forward_motion bs1 dec1 mb1 = (bs2, dec2, mb2)" using f2 by (simp add: f_def)
    from forward_motion_sound [OF keeps_wf [OF s1(1)] f_codes_ok_fewer [OF f1] s1(2) this] s1
    show ?thesis by (auto simp: frame_steps)
  next
    case False
    with f2 s1 show ?thesis by (auto simp: f_def keeps_refl keeps_wf)
  qed
  define g where "g = (if has_flag (mb_type mb2) MB_MOTION_BACKWARD
            then decode_backward_motion bs2 dec2 mb2 else (bs2, dec2, mb2))"
  obtain bs3 dec3 mb3 where g3: "g = (bs3, dec3, mb3)" by (metis prod_cases3)
  have b2: "bits_wf bs2" and f2': "f_codes_ok 2 dec2"
    using s2 f1 f_codes_frames(2) [of dec1 dec2] by (auto dest: keeps_wf)
  have s3: "keeps_reader bs2 bs3 \<and> mv_ok dec3 \<and> b_frame dec2 dec3 \<and> \<not> valid mb3 \<and> blocks mb3 = blocks mb"
  proof (cases "has_flag (mb_type mb2) MB_MOTION_BACKWARD")
    case True
    then have "decode_backward_motion bs2 dec2 mb2 = (bs3, dec3, mb3)" using g3 by (simp add: g_def)
    from backward_motion_sound [OF b2 f2' _ this] s2
    show ?thesis by (auto simp: frame_steps)
  next
    case False
    with g3 s2 b2 show ?thesis by (auto simp: g_def keeps_refl)
  qed
  have keep: "keeps_reader bs bs3" and frame: "b_frame dec dec3"
    using s1 s2 s3 by (blast intro: keeps_trans b_frame_trans)+
  have rest: "decode_b_rest bs dec mb p = decode_inter_rest reset_all_mv bs3 dec3 mb3 p"
    using q1 f2 g3 by (auto simp: decode_b_rest_def q_def f_def g_def Let_def split_beta split: if_splits)
  have "\<not> valid mb3" "blocks_ok (blocks mb3)" using s3 assms(4) by simp_all
  note r = decode_inter_rest_sound [OF keeps_wf [OF keep] assms(2) this, of reset_all_mv dec3]
  show ?thesis
    using r(2) s3 mb_sound_trans [OF keep r(1)] reset_mv_ok(2) [of dec3] frame b_frame_trans [OF frame frame_steps(2)]
    unfolding rest Let_def by auto
qed

lemma p_macroblock_sound_lemma:
  assumes "bits_wf bs" and "small_buffer bs" and "preds_ok p" and "f_codes_ok 1 dec" and "mv_ok dec"
  shows "\<exists>res. mpeg2_decode_p_macroblock bs dec mb p = Some res \<and> mb_sound bs res
    \<and> mv_ok (fst (snd (snd res))) \<and> p_frame dec (fst (snd (snd res)))"
proof -
  obtain n bs1 where n: "decode_macroblock_address_increment bs = Some (n, bs1)" "keeps_reader bs bs1"
    using address_increment_returns [OF assms(1,2)] by auto
  define mb0 where "mb0 = mb\<lparr>valid := False, blocks := cleared_blocks, motion_h := 0, motion_v := 0,
                coded_block_pattern := 0\<rparr>"
  have len: "length cleared_blocks = 6" by (simp add: cleared_blocks_def)
  have fail: "mb_sound bs (st, b, dec, mb0\<lparr>address_increment := a\<rparr>, p)"
    if "keeps_reader bs b" "st \<in> {B_BAD_DATA, B_ENTRY_NOT_FOUND}" for b st a
    using that assms(3) len by (intro mb_sound_fail) (auto simp: mb0_def)
  have fail0: "mb_sound bs (st, b, dec, mb0, p)"
    if "keeps_reader bs b" "st \<in> {B_BAD_DATA, B_ENTRY_NOT_FOUND}" for b st
    using that assms(3) len by (intro mb_sound_fail) (auto simp: mb0_def)
  have sub: "mb_sound bs (decode_p_rest b dec (mb0\<lparr>address_increment := a, mb_type := t\<rparr>) p)
      \<and> mv_ok (fst (snd (snd (decode_p_rest b dec (mb0\<lparr>address_increment := a, mb_type := t\<rparr>) p))))
      \<and> p_frame dec (fst (snd (snd (decode_p_rest b dec (mb0\<lparr>address_increment := a, mb_type := t\<rparr>) p))))"
    if "keeps_reader bs b" for b a t
  proof -
    have "\<not> valid (mb0\<lparr>address_increment := a, mb_type := t\<rparr>)" "blocks_ok (blocks (mb0\<lparr>address_increment := a, mb_type := t\<rparr>))"
      by (simp_all add: mb0_def)
    from decode_p_rest_sound [OF keeps_wf [OF that] assms(3) this assms(4,5)] mb_sound_trans [OF that]
    show ?thesis by (simp add: Let_def)
  qed
  obtain t bs2 where t: "decode_macroblock_type_p bs1 = (t, bs2)" by force
  have keep2: "keeps_reader bs bs2" using keeps_macroblock_type_p [OF n(2)] t by simp
  consider "n = -2" | "n < 0" "n \<noteq> -2" | (none) "0 \<le> n" "t = None" "resync_type_p bs2 = None"
    | (found) d where "0 \<le> n" "t = None" "resync_type_p bs2 = Some d"
    | (type) t' where "0 \<le> n" "t = Some t'"
    by (metis linorder_not_less option.exhaust)
  then show ?thesis
  proof cases
    case found
    have "keeps_reader bs (mpeg2_bits_skip (seek bs2 (s32 (int (mpeg2_bits_offset bs2)) + d)) 1)"
      by (intro keeps_skip resync_type_p_keeps keep2 found(3))
    from sub [OF this] show ?thesis
      using n(1) t found by (simp add: mpeg2_decode_p_macroblock_def Let_def flip: mb0_def)
  next
    case type
    with n(1) t sub [OF keep2, of t' "u8 (nat n)"] show ?thesis
      by (simp add: mpeg2_decode_p_macroblock_def Let_def flip: mb0_def)
  qed (use n t fail fail0 keep2 assms(5) in \<open>simp_all add: mpeg2_decode_p_macroblock_def Let_def flip: mb0_def\<close>)
qed

lemma b_macroblock_sound_lemma:
  assumes "bits_wf bs" and "small_buffer bs" and "preds_ok p" and "f_codes_ok 2 dec" and "mv_ok dec"
  shows "\<exists>res. mpeg2_decode_b_macroblock bs dec mb p = Some res \<and> mb_sound bs res
    \<and> mv_ok (fst (snd (snd res))) \<and> b_frame dec (fst (snd (snd res)))"
proof -
  obtain n bs1 where n: "decode_macroblock_address_increment bs = Some (n, bs1)" "keeps_reader bs bs1"
    using address_increment_returns [OF assms(1,2)] by auto
  define mb0 where "mb0 = mb\<lparr>valid := False, blocks := cleared_blocks, motion_h := 0, motion_v := 0,
                motion_backward_h := 0, motion_backward_v := 0, coded_block_pattern := 0\<rparr>"
  have len: "length cleared_blocks = 6" by (simp add: cleared_blocks_def)
  obtain t bs2 where t: "decode_macroblock_type_b bs1 = (t, bs2)" by force
  have keep2: "keeps_reader bs bs2" using keeps_macroblock_type_b [OF n(2)] t by simp
  consider (fail) "n < 0" | (none) "0 \<le> n" "t = None" | (type) t' where "0 \<le> n" "t = Some t'"
    by (metis linorder_not_less option.exhaust)
  then show ?thesis
  proof cases
    case fail
    have "mb_sound bs (B_BAD_DATA, bs1, dec, mb0, p)"
      using n(2) assms(3) len by (intro mb_sound_fail) (auto simp: mb0_def)
    then show ?thesis
      using n(1) fail assms(5) by (simp add: mpeg2_decode_b_macroblock_def Let_def flip: mb0_def)
  next
    case none
    have "mb_sound bs (B_BAD_DATA, bs2, dec, mb0\<lparr>address_increment := u8 (nat n)\<rparr>, p)"
      using keep2 assms(3) len by (intro mb_sound_fail) (auto simp: mb0_def)
    then show ?thesis
      using n(1) t none assms(5) by (simp add: mpeg2_decode_b_macroblock_def Let_def flip: mb0_def)
  next
    case type
    let ?mb = "mb0\<lparr>address_increment := u8 (nat n), mb_type := t'\<rparr>"
    have "\<not> valid ?mb" "blocks_ok (blocks ?mb)" by (simp_all add: mb0_def)
    note s = decode_b_rest_sound [OF keeps_wf [OF keep2] assms(3) this assms(4,5)]
    with s mb_sound_trans [OF keep2] n(1) t type show ?thesis
      by (simp add: mpeg2_decode_b_macroblock_def Let_def flip: mb0_def)
  qed
qed

section \<open>Decoding an encoded intra macroblock\<close>

lemma bits_val_0: "bits_val xs = 0 \<longleftrightarrow> True \<notin> set xs"
  by (induction xs) (auto simp: bits_val_Cons)

lemma True_in_take: "True \<in> set xs \<Longrightarrow> length xs \<le> k \<Longrightarrow> True \<in> set (take k (xs @ ys))"
  by simp

lemma to_bits_True: "0 < c \<Longrightarrow> c < 2 ^ l \<Longrightarrow> True \<in> set (to_bits l c)"
  using bits_val_0 [of "to_bits l c"] by simp

text \<open>The code of a coefficient has a 1 in its first 17 bits, and a block one in its first 23.\<close>

lemma ac_codes_positive:
  "\<forall>(c, l, x) \<in> set ac_codes_b14. 0 < c" "\<forall>(c, l, x) \<in> set ac_codes_b15. 0 < c"
  by (simp_all add: ac_codes_b14_eq ac_table_b14_def ac_codes_b15_def ac_table_b15_def)

lemma enc_coeff_True:
  assumes "\<forall>(c, l, x) \<in> set tab. 0 < c" and "vlc_fits 17 tab"
  shows "\<exists>xs ys. enc_coeff tab x = xs @ ys \<and> length xs \<le> 17 \<and> True \<in> set xs"
proof -
  obtain run lev where x: "x = (run, lev)" by (cases x)
  show ?thesis
  proof (cases "find (\<lambda>(_, _, r, v). r = run \<and> v = \<bar>lev\<bar>) tab")
    case None
    have "enc_coeff tab x = to_bits 6 1 @ (to_bits 6 (nat run) @ to_bits 12 (nat (lev mod 4096)))"
      using None by (simp add: enc_coeff_def x)
    moreover have "True \<in> set (to_bits 6 1)" by (rule to_bits_True) simp_all
    ultimately show ?thesis by (metis length_to_bits numeral_le_iff semiring_norm(68-78))
  next
    case (Some z)
    obtain c l y where z: "z = (c, l, y)" by (cases z)
    have m: "(c, l, run, \<bar>lev\<bar>) \<in> set tab" using find_coeff [OF Some [unfolded z]] by simp
    then have "0 < c" "l \<le> 17" "c < 2 ^ l"
      using assms by (auto simp: vlc_fits_def list_all_iff)
    then have "True \<in> set (to_bits l c)" by (intro to_bits_True)
    moreover have "enc_coeff tab x = to_bits l c @ [lev < 0]"
      using Some by (simp add: enc_coeff_def x z)
    ultimately show ?thesis using \<open>l \<le> 17\<close> by (metis length_to_bits)
  qed
qed

lemma enc_symbols_True: "\<exists>xs ys. enc_coeffs u cs @ enc_eob u = xs @ ys \<and> length xs \<le> 17 \<and> True \<in> set xs"
proof (cases cs)
  case Nil
  have "True \<in> set (enc_eob u) \<and> length (enc_eob u) \<le> 17"
    using to_bits_True [of 6 4] by (simp add: enc_eob_def)
  then show ?thesis using Nil by (metis append_Nil append_Nil2 enc_coeffs_def concat.simps(1) list.map(1))
next
  case (Cons x cs')
  have "\<exists>xs ys. enc_coeff (if u then ac_codes_b15 else ac_codes_b14) x = xs @ ys \<and> length xs \<le> 17 \<and> True \<in> set xs"
    using ac_codes_positive ac_codes_b14_fit ac_codes_b15_fit by (intro enc_coeff_True) auto
  then show ?thesis using Cons by (fastforce simp: enc_coeffs_def)
qed

lemma intra_block_not_end:
  assumes "bits_wf bs" and "(c, l, int n) \<in> set (dc_size_codes cc)" and "rest_bits bs = enc_intra_block u c l n d cs @ r"
  shows "\<not> at_slice_end bs"
proof -
  have "True \<in> set (take 23 (rest_bits bs))"
  proof (cases "c = 0")
    case False
    have "l \<le> 10 \<and> c < 2 ^ l"
      using assms(2) dc_lum.entry_fits dc_chr.entry_fits by (fastforce simp: dc_size_codes_def split: if_splits)
    then show ?thesis
      using False assms(3) to_bits_True [of c l] by (simp add: enc_intra_block_def)
  next
    case True
    have n: "n \<le> 1" "l = 2"
      using assms(2) True by (auto simp: dc_size_codes_def dc_size_luminance_codes_def
          dc_size_chrominance_codes_def split: if_splits)
    obtain xs ys where s: "enc_coeffs u cs @ enc_eob u = xs @ ys" "length xs \<le> 17" "True \<in> set xs"
      using enc_symbols_True by blast
    have "rest_bits bs = (to_bits l c @ enc_dc_differential n d @ xs) @ (ys @ r)"
      using assms(3) s(1) by (simp add: enc_intra_block_def flip: append_assoc)
    moreover have "length (to_bits l c @ enc_dc_differential n d @ xs) \<le> 23"
      using n s(2) by (simp add: enc_dc_differential_def)
    ultimately show ?thesis
      using s(3) by (simp only: True_in_take set_append Un_iff simp_thms)
  qed
  then have "mpeg2_bits_peek bs 23 \<noteq> 0"
    using assms(1) bits_val_0 by (simp add: peek_val)
  then show ?thesis by (simp add: at_slice_end_def)
qed

text \<open>A block to encode: the code of the DC size and its length, the size, the DC difference, and the
  runs and levels.\<close>

type_synonym intra_spec = "nat \<times> nat \<times> nat \<times> int \<times> (int \<times> int) list"

definition enc_intra_spec :: "bool \<Rightarrow> intra_spec \<Rightarrow> bool list" where
  "enc_intra_spec u x = (case x of (c, l, n, d, cs) \<Rightarrow> enc_intra_block u c l n d cs)"

definition intra_spec_ok :: "nat \<Rightarrow> intra_spec \<Rightarrow> bool" where
  "intra_spec_ok b x \<longleftrightarrow> (case x of (c, l, n, d, cs) \<Rightarrow>
     (c, l, int n) \<in> set (dc_size_codes (block_component b)) \<and> dc_size_of n d \<and> codable 1 cs)"

text \<open>The specification of the block loop: the predictors are updated from block to block and every
  block is the dequantised one with the mismatch control.\<close>

fun expected_blocks ::
  "mpeg2_decoder \<Rightarrow> nat list \<Rightarrow> intra_spec list \<Rightarrow> int list \<Rightarrow> int list list \<Rightarrow> int list \<times> int list list" where
  "expected_blocks dec (b # is) ((c, l, n, d, cs) # xs) p bl =
     (let cc = block_component b; v = s16 (p ! cc + d)
      in expected_blocks dec is xs (p[cc := v]) (bl[b := mismatch_control (intra_block_values dec v cs)]))"
| "expected_blocks dec _ _ p bl = (p, bl)"

lemma decode_intra_blocks_code:
  assumes "bits_wf bs" and "small_buffer bs" and "length xs = length is" and "set is \<subseteq> {0..<6}"
    and "list_all2 intra_spec_ok is xs" and "17 \<le> length r" and "length p = 3"
    and "rest_bits bs = concat (map (enc_intra_spec (intra_vlc_format (dec_pic_ext dec))) xs) @ r"
  shows "\<exists>bs'. decode_intra_blocks is bs dec p bl
      = (B_OK, bs', fst (expected_blocks dec is xs p bl), snd (expected_blocks dec is xs p bl))
    \<and> rest_bits bs' = r \<and> keeps_reader bs bs'"
  using assms
proof (induction "is" arbitrary: bs xs p bl)
  case Nil
  then show ?case by (simp add: keeps_refl)
next
  case (Cons b bs0)
  let ?u = "intra_vlc_format (dec_pic_ext dec)"
  obtain c l n d cs ys where xs: "xs = (c, l, n, d, cs) # ys"
    using Cons.prems(3) by (metis length_Suc_conv length_Cons prod_cases5)
  have ok: "(c, l, int n) \<in> set (dc_size_codes (block_component b))" "dc_size_of n d" "codable 1 cs"
    using Cons.prems(5) by (simp_all add: xs intra_spec_ok_def)
  let ?r = "concat (map (enc_intra_spec ?u) ys) @ r"
  have rest: "rest_bits bs = enc_intra_block ?u c l n d cs @ ?r"
    using Cons.prems(8) by (simp add: xs enc_intra_spec_def [of _ "(c, l, n, d, cs)"])
  have r: "17 \<le> length ?r" using Cons.prems(6) by simp
  have cc: "block_component b < length p"
    using Cons.prems(4,7) by (auto simp: block_component_def)
  let ?v = "s16 (p ! block_component b + d)"
  let ?blk = "mismatch_control (intra_block_values dec ?v cs)"
  obtain bs1 where d1: "decode_intra_block bs dec (block_component b) p = (B_OK, bs1, p[block_component b := ?v], ?blk)"
    and bs1: "keeps_reader bs bs1" "rest_bits bs1 = ?r"
    using decode_intra_block_code [OF Cons.prems(1,2) ok r cc rest] by blast
  have end0: "\<not> at_slice_end bs"
    by (rule intra_block_not_end [OF Cons.prems(1) ok(1) rest])
  have small: "small_buffer bs1" using keeps_small [OF bs1(1)] Cons.prems(2) by simp
  have len: "length ys = length bs0" "set bs0 \<subseteq> {0..<6}" "list_all2 intra_spec_ok bs0 ys"
    "length (p[block_component b := ?v]) = 3"
    using Cons.prems(3,4,5,7) by (simp_all add: xs)
  obtain bs2 where "decode_intra_blocks bs0 bs1 dec (p[block_component b := ?v]) (bl[b := ?blk])
      = (B_OK, bs2, fst (expected_blocks dec bs0 ys (p[block_component b := ?v]) (bl[b := ?blk])),
         snd (expected_blocks dec bs0 ys (p[block_component b := ?v]) (bl[b := ?blk])))"
    "rest_bits bs2 = r" "keeps_reader bs1 bs2"
    using Cons.IH [OF keeps_wf [OF bs1(1)] small len(1,2,3) Cons.prems(6) len(4) bs1(2)] by blast
  with d1 end0 keeps_trans [OF bs1(1)] show ?case
    by (simp add: xs Let_def)
qed

text \<open>The bits of an intra macroblock of an I picture.\<close>

definition enc_intra_macroblock ::
  "bool \<Rightarrow> bool list \<Rightarrow> nat \<Rightarrow> nat \<Rightarrow> nat option \<Rightarrow> intra_spec list \<Rightarrow> bool list" where
  "enc_intra_macroblock u ps ac al q xs =
     enc_address_prefix ps @ to_bits al ac @ (case q of None \<Rightarrow> [True] | Some v \<Rightarrow> [False, True] @ to_bits 5 v)
     @ concat (map (enc_intra_spec u) xs)"

lemma quantiser_scale_update_ext [simp]:
  "dec_pic_ext (dec\<lparr>quantiser_scale := s\<rparr>) = dec_pic_ext dec"
  by simp

lemma intra_macroblock_code:
  fixes mb :: mpeg2_macroblock and dec :: mpeg2_decoder
  assumes "bits_wf bs" and "small_buffer bs" and "(ac, al, n) \<in> set address_increment_codes"
    and "case q of None \<Rightarrow> True | Some v \<Rightarrow> v < 32" and "length xs = 6" and "list_all2 intra_spec_ok [0..<6] xs"
    and "length p = 3" and "23 \<le> length r"
    and "rest_bits bs = enc_intra_macroblock (intra_vlc_format (dec_pic_ext dec)) ps ac al q xs @ r"
  defines "code \<equiv> (case q of None \<Rightarrow> quantiser_scale_code mb | Some v \<Rightarrow> v)"
  defines "dec' \<equiv> dec\<lparr>quantiser_scale := mpeg2_compute_quantiser_scale code (q_scale_type (dec_pic_ext dec))\<rparr>"
  shows "\<exists>bs'. mpeg2_decode_intra_macroblock bs dec mb p = Some (B_OK, bs', dec',
      mb\<lparr>address_increment := u8 (nat (33 * int (count_list ps True) + n)), quantiser_scale_code := code,
         blocks := snd (expected_blocks dec' [0..<6] xs p (blocks mb)), valid := True\<rparr>,
      fst (expected_blocks dec' [0..<6] xs p (blocks mb)))
    \<and> rest_bits bs' = r"
proof -
  let ?u = "intra_vlc_format (dec_pic_ext dec)"
  let ?blk = "concat (map (enc_intra_spec ?u) xs) @ r"
  let ?t = "(case q of None \<Rightarrow> [True] | Some v \<Rightarrow> [False, True] @ to_bits 5 v) @ ?blk"
  have rest: "rest_bits bs = enc_address_prefix ps @ to_bits al ac @ ?t" "23 \<le> length (to_bits al ac @ ?t)"
    using assms(8,9) by (simp_all add: enc_intra_macroblock_def)
  define inc where "inc = 33 * int (count_list ps True) + n"
  obtain bs1 where a: "decode_macroblock_address_increment bs = Some (inc, bs1)"
    and bs1: "rest_bits bs1 = ?t" "keeps_reader bs bs1"
    using address_increment_code [OF assms(1,3) rest] unfolding inc_def by blast
  have inc: "1 \<le> inc"
    using address_increment_codes_ok assms(3) unfolding inc_def by fastforce
  let ?f = "q \<noteq> None"
  obtain bs2 where t: "decode_macroblock_type_i bs1 = (Some ?f, bs2)"
    and bs2: "rest_bits bs2 = (case q of None \<Rightarrow> [] | Some v \<Rightarrow> to_bits 5 v) @ ?blk" "keeps_reader bs bs2"
  proof -
    have "rest_bits bs1 = (if ?f then [False, True] else [True]) @ ((case q of None \<Rightarrow> [] | Some v \<Rightarrow> to_bits 5 v) @ ?blk)"
      using bs1(1) by (simp split: option.splits)
    note d = decode_macroblock_type_i_code [OF keeps_wf [OF bs1(2)] this]
    then show ?thesis
      using that keeps_macroblock_type_i [OF bs1(2)] by (metis prod.collapse)
  qed
  define qb where "qb = (if ?f then mpeg2_bits_read bs2 5 else (quantiser_scale_code mb, bs2))"
  have qb: "fst qb = code" "rest_bits (snd qb) = ?blk" "keeps_reader bs (snd qb)"
    using bs2 mpeg2.read_field [OF keeps_wf [OF bs2(2)], of 5] keeps_read [OF bs2(2), of 5] assms(4)
    by (auto simp: qb_def code_def split: option.splits)
  have small: "small_buffer (snd qb)" using keeps_small [OF qb(3)] assms(2) by simp
  have is6: "length xs = length [0..<6]" "set [0..<6] \<subseteq> {0..<6}" "17 \<le> length r"
    using assms(5,8) by auto
  have rest_blk: "rest_bits (snd qb) = concat (map (enc_intra_spec (intra_vlc_format (dec_pic_ext dec'))) xs) @ r"
    using qb(2) by (simp add: dec'_def)
  obtain bs3 where bl: "decode_intra_blocks [0..<6] (snd qb) dec' p (blocks mb)
      = (B_OK, bs3, fst (expected_blocks dec' [0..<6] xs p (blocks mb)), snd (expected_blocks dec' [0..<6] xs p (blocks mb)))"
    and bs3: "rest_bits bs3 = r"
    using decode_intra_blocks_code [OF keeps_wf [OF qb(3)] small is6(1,2) assms(6) is6(3) assms(7) rest_blk] by blast
  let ?mb = "mb\<lparr>valid := False, address_increment := u8 (nat inc)\<rparr>"
  have "decode_intra_rest bs2 dec ?mb p ?f = (B_OK, bs3, dec',
      ?mb\<lparr>quantiser_scale_code := code, blocks := snd (expected_blocks dec' [0..<6] xs p (blocks mb)), valid := True\<rparr>,
      fst (expected_blocks dec' [0..<6] xs p (blocks mb)))"
    using bl qb(1) unfolding decode_intra_rest_def
    by (simp add: Let_def split_beta qb_def dec'_def split: if_splits)
  then have "mpeg2_decode_intra_macroblock bs dec mb p = Some (B_OK, bs3, dec',
      ?mb\<lparr>quantiser_scale_code := code, blocks := snd (expected_blocks dec' [0..<6] xs p (blocks mb)), valid := True\<rparr>,
      fst (expected_blocks dec' [0..<6] xs p (blocks mb)))"
    using a t inc by (simp add: mpeg2_decode_intra_macroblock_def decode_intra_type_def Let_def)
  moreover have "?mb\<lparr>quantiser_scale_code := code, blocks := snd (expected_blocks dec' [0..<6] xs p (blocks mb)), valid := True\<rparr>
      = mb\<lparr>address_increment := u8 (nat (33 * int (count_list ps True) + n)), quantiser_scale_code := code,
         blocks := snd (expected_blocks dec' [0..<6] xs p (blocks mb)), valid := True\<rparr>"
    by (simp add: inc_def)
  ultimately show ?thesis using bs3 by simp
qed

section \<open>Properties\<close>

definition example_macroblock :: mpeg2_macroblock where
  "example_macroblock =
     \<lparr>blocks = cleared_blocks, quantiser_scale_code = 4, address_increment = 0, mb_type = 0, motion_h = 0,
      motion_v = 0, motion_backward_h = 0, motion_backward_v = 0, coded_block_pattern = 0, valid = False\<rparr>"



text \<open>C2: On every stream \<open>mpeg2_decode_intra_macroblock\<close> returns, with a status of three: success,
  bad data, or the end of the slice. The reader keeps its invariant through all resynchronisations, the
  macroblock is valid exactly on success and then has six well-formed blocks, the DC predictors stay
  \<open>int16\<close>, and of the decoder only the quantiser scale may change.\<close>

theorem intra_macroblock_sound:
  assumes "bits_wf bs" and "small_buffer bs" and "preds_ok p" and "length (blocks mb) = 6"
  shows "\<exists>st bs' s mb' p'.
      mpeg2_decode_intra_macroblock bs dec mb p = Some (st, bs', dec\<lparr>quantiser_scale := s\<rparr>, mb', p')
      \<and> keeps_reader bs bs' \<and> preds_ok p' \<and> st \<in> {B_OK, B_BAD_DATA, B_ENTRY_NOT_FOUND}
      \<and> (valid mb' \<longleftrightarrow> st = B_OK) \<and> (st = B_OK \<longrightarrow> blocks_ok (blocks mb'))"
proof -
  obtain res s where "mpeg2_decode_intra_macroblock bs dec mb p = Some res" "mb_sound bs res"
    "fst (snd (snd res)) = dec\<lparr>quantiser_scale := s\<rparr>"
    using intra_macroblock_sound_lemma [OF assms] by blast
  then show ?thesis
    by (cases res) (auto simp: mb_sound_def)
qed

lemma examples_ok:
  "length (blocks example_macroblock) = 6" "preds_ok [1024, 1024, 1024]"
  by (auto simp: example_macroblock_def cleared_blocks_def preds_ok_def)

theorem intra_macroblock_sound_witness:
  "\<exists>st bs' s mb' p'. mpeg2_decode_intra_macroblock (mpeg2_bits_init [0x01, 0x23, 0x45, 0x67] 4) example_decoder
       example_macroblock [1024, 1024, 1024] = Some (st, bs', example_decoder\<lparr>quantiser_scale := s\<rparr>, mb', p')
     \<and> (valid mb' \<longleftrightarrow> st = B_OK)"
proof -
  have "bits_wf (mpeg2_bits_init [0x01, 0x23, 0x45, 0x67] 4)" "small_buffer (mpeg2_bits_init [0x01, 0x23, 0x45, 0x67] 4)"
    by (simp_all add: mpeg2_bits_init_wf small_buffer_init)
  from intra_macroblock_sound [OF this examples_ok(2,1), of example_decoder] show ?thesis by blast
qed

definition example_p_decoder :: mpeg2_decoder where
  "example_p_decoder = example_decoder\<lparr>dec_pic_ext := example_coding_extension\<lparr>f_code := [[2, 1], [1, 1]]\<rparr>\<rparr>"

lemma example_p_decoder_ok: "f_codes_ok 1 example_p_decoder" "f_codes_ok 2 example_p_decoder" "mv_ok example_p_decoder"
  by (auto simp: example_p_decoder_def f_codes_ok_def mv_ok_def motion_ok_def example_decoder_def less_2_cases_iff)

text \<open>C3: The P decoder returns on every stream with the same guarantees, and keeps the motion
  predictors in the range of their codes (forward codes up to 12). Of the decoder it changes the forward predictors
  only: a new quantiser scale code in the macroblock is never applied.\<close>

theorem p_macroblock_sound:
  assumes "bits_wf bs" and "small_buffer bs" and "preds_ok p" and "f_codes_ok 1 dec" and "mv_ok dec"
  shows "\<exists>st bs' h v mb' p'.
      mpeg2_decode_p_macroblock bs dec mb p = Some (st, bs', dec\<lparr>mv_pred_h := h, mv_pred_v := v\<rparr>, mb', p')
      \<and> keeps_reader bs bs' \<and> preds_ok p' \<and> st \<in> {B_OK, B_BAD_DATA, B_ENTRY_NOT_FOUND}
      \<and> (valid mb' \<longleftrightarrow> st = B_OK) \<and> (st = B_OK \<longrightarrow> blocks_ok (blocks mb'))
      \<and> mv_ok (dec\<lparr>mv_pred_h := h, mv_pred_v := v\<rparr>)"
proof -
  obtain st bs' dec' mb' p' where "mpeg2_decode_p_macroblock bs dec mb p = Some (st, bs', dec', mb', p')"
    and "mb_sound bs (st, bs', dec', mb', p')" "mv_ok dec'" "p_frame dec dec'"
    using p_macroblock_sound_lemma [OF assms, of mb] by (metis fst_conv prod_cases5 snd_conv)
  then show ?thesis
    by (intro exI [of _ st] exI [of _ bs'] exI [of _ "mv_pred_h dec'"] exI [of _ "mv_pred_v dec'"] exI [of _ mb'] exI [of _ p'])
      (simp add: mb_sound_def p_frame_def)
qed

theorem p_macroblock_sound_witness:
  "\<exists>st bs' h v mb' p'. mpeg2_decode_p_macroblock (mpeg2_bits_init [0x8C, 0x23, 0x45, 0x67] 4) example_p_decoder
       example_macroblock [1024, 1024, 1024]
     = Some (st, bs', example_p_decoder\<lparr>mv_pred_h := h, mv_pred_v := v\<rparr>, mb', p') \<and> (valid mb' \<longleftrightarrow> st = B_OK)"
proof -
  have "bits_wf (mpeg2_bits_init [0x8C, 0x23, 0x45, 0x67] 4)" "small_buffer (mpeg2_bits_init [0x8C, 0x23, 0x45, 0x67] 4)"
    by (simp_all add: mpeg2_bits_init_wf small_buffer_init)
  from p_macroblock_sound [OF this examples_ok(2) example_p_decoder_ok(1,3), of example_macroblock]
  show ?thesis by blast
qed

text \<open>C4: The B decoder returns on every stream with the same guarantees; it may change the quantiser
  scale and the four motion predictors, which stay in range.\<close>

theorem b_macroblock_sound:
  assumes "bits_wf bs" and "small_buffer bs" and "preds_ok p" and "f_codes_ok 2 dec" and "mv_ok dec"
  shows "\<exists>st bs' dec' mb' p'. mpeg2_decode_b_macroblock bs dec mb p = Some (st, bs', dec', mb', p')
      \<and> keeps_reader bs bs' \<and> preds_ok p' \<and> st \<in> {B_OK, B_BAD_DATA, B_ENTRY_NOT_FOUND}
      \<and> (valid mb' \<longleftrightarrow> st = B_OK) \<and> (st = B_OK \<longrightarrow> blocks_ok (blocks mb'))
      \<and> b_frame dec dec' \<and> mv_ok dec'"
proof -
  obtain st bs' dec' mb' p' where "mpeg2_decode_b_macroblock bs dec mb p = Some (st, bs', dec', mb', p')"
    and "mb_sound bs (st, bs', dec', mb', p')" "mv_ok dec'" "b_frame dec dec'"
    using b_macroblock_sound_lemma [OF assms, of mb] by (metis fst_conv prod_cases5 snd_conv)
  then show ?thesis
    by (intro exI [of _ st] exI [of _ bs'] exI [of _ dec'] exI [of _ mb'] exI [of _ p']) (simp add: mb_sound_def)
qed

theorem b_macroblock_sound_witness:
  "\<exists>st bs' dec' mb' p'. mpeg2_decode_b_macroblock (mpeg2_bits_init [0xA3, 0x23, 0x45, 0x67] 4) example_p_decoder
       example_macroblock [1024, 1024, 1024] = Some (st, bs', dec', mb', p') \<and> (valid mb' \<longleftrightarrow> st = B_OK)"
proof -
  have "bits_wf (mpeg2_bits_init [0xA3, 0x23, 0x45, 0x67] 4)" "small_buffer (mpeg2_bits_init [0xA3, 0x23, 0x45, 0x67] 4)"
    by (simp_all add: mpeg2_bits_init_wf small_buffer_init)
  from b_macroblock_sound [OF this examples_ok(2) example_p_decoder_ok(2,3), of example_macroblock]
  show ?thesis by blast
qed

end
