(* ===== verification/Gpu_Ring.thy ===== *)
theory Gpu_Ring
  imports Vaio_Prelude
begin

text \<open>
  The ring buffer submission layer \<open>src/intel_extreme/accelerant/gpu_ring.{h,cpp}\<close>. The ring memory is a
  list of dwords, positions are byte offsets. What the driver reads while it waits (the clock, the
  HEAD and TAIL registers) is not under its control: it is a sequence of polls, one per turn of a
  waiting loop, which the operations consume from an index on. The result of the kernel's ioctls is a
  parameter. \<open>None\<close> stands for a loop that never ends; \<open>gpu_ring_submit_returns\<close> excludes it for a
  clock that reaches the deadline.
\<close>

section \<open>State\<close>

text \<open>\<open>base\<close> is the memory behind the pointer, in dwords; \<open>size\<close> and \<open>pos\<close> are \<open>uint32\<close> byte counts.
  The register mapping and the file descriptor are the polls and the ioctl parameters of the
  operations.\<close>

record gpu_ring =
  base :: "nat list"
  ring_size :: nat
  pos :: nat
  emit_start :: nat
  emit_count :: nat
  emit_reserved :: nat
  reg_base :: nat

text \<open>What the kernel shares of its ring.\<close>

record ring_buffer =
  hw_base :: "nat list"
  hw_size :: nat
  hw_register_base :: nat
  hw_position :: nat
  hw_space_left :: nat

text \<open>One turn of a waiting loop: the clock, the first read of HEAD and the reads of HEAD and TAIL by
  \<open>ring_is_idle\<close>.\<close>

record poll =
  system_time :: int
  head_reg :: nat
  idle_head_reg :: nat
  idle_tail_reg :: nat

type_synonym polls = "nat \<Rightarrow> poll"

definition INTEL_RING_BUFFER_HEAD_MASK :: nat where
  "INTEL_RING_BUFFER_HEAD_MASK = 0x001ffffc"

definition sizeof_uint32 :: nat where
  "sizeof_uint32 = 4"

definition read_head :: "nat \<Rightarrow> nat" where
  "read_head r = r AND INTEL_RING_BUFFER_HEAD_MASK"

definition read_tail :: "gpu_ring \<Rightarrow> nat \<Rightarrow> nat" where
  "read_tail ring r = r AND minus32 (ring_size ring) 1"

definition ring_is_idle :: "gpu_ring \<Rightarrow> poll \<Rightarrow> bool" where
  "ring_is_idle ring p \<longleftrightarrow> read_head (idle_head_reg p) = read_tail ring (idle_tail_reg p)"

section \<open>Operations\<close>

definition empty_ring :: gpu_ring where
  "empty_ring = \<lparr>base = [], ring_size = 0, pos = 0, emit_start = 0, emit_count = 0, emit_reserved = 0, reg_base = 0\<rparr>"

text \<open>\<open>gpu_ring_init\<close> of a ring that is not NULL: \<open>data_ok\<close>, \<open>shared_ok\<close> and \<open>regs_ok\<close> are the results of
  the ioctl and of the two \<open>clone_area\<close> calls, \<open>tail\<close> the TAIL register.\<close>

definition gpu_ring_init ::
  "bool \<Rightarrow> bool \<Rightarrow> bool \<Rightarrow> bool \<Rightarrow> nat \<Rightarrow> ring_buffer \<Rightarrow> gpu_ring \<Rightarrow> status_t \<times> gpu_ring \<times> ring_buffer" where
  "gpu_ring_init is_null data_ok shared_ok regs_ok tail hw ring =
     (if is_null then (B_BAD_VALUE, ring, hw)
      else if \<not> data_ok \<or> \<not> shared_ok \<or> \<not> regs_ok then (B_ERROR, empty_ring, hw)
      else
        let ring = empty_ring\<lparr>base := hw_base hw, ring_size := hw_size hw, reg_base := hw_register_base hw\<rparr>;
            hwTail = read_tail ring tail
        in (B_OK, ring\<lparr>pos := hwTail\<rparr>,
            hw\<lparr>hw_position := hwTail, hw_space_left := minus32 (hw_size hw) 64\<rparr>))"

text \<open>A waiting loop: while the deadline is ahead, stop when \<open>ok\<close> holds of the turn's reads, else
  snooze. The result is whether it stopped for \<open>ok\<close>, and the index behind the last turn.\<close>

definition ring_wait :: "polls \<Rightarrow> (poll \<Rightarrow> bool) \<Rightarrow> int \<Rightarrow> nat \<Rightarrow> (bool \<times> nat) option" where
  "ring_wait polls ok deadline t =
     map_option (\<lambda>t. (system_time (polls t) < deadline, Suc t))
       (while_option (\<lambda>t. system_time (polls t) < deadline \<and> \<not> ok (polls t)) Suc t)"

text \<open>The \<open>uint32\<close> sizes of \<open>gpu_ring_begin\<close>: the sum is taken in 32 bits, the product in the 64 bits of
  \<open>sizeof\<close> and then cut.\<close>

definition bytes_needed :: "nat \<Rightarrow> nat" where
  "bytes_needed dwords = u32 (u32 (dwords + 2) * sizeof_uint32)"

definition size_limit :: "gpu_ring \<Rightarrow> nat" where
  "size_limit ring = minus32 (ring_size ring) 64"

definition pad_noops :: "gpu_ring \<Rightarrow> gpu_ring" where
  "pad_noops ring =
     (let wrap_start = pos ring;
          noop_dwords = minus32 (ring_size ring) (pos ring) div sizeof_uint32;
          ring_dwords = ring_size ring div sizeof_uint32
      in ring\<lparr>base := fold (\<lambda>i b. b[(wrap_start div sizeof_uint32 + i) mod ring_dwords := 0])
                [0..<noop_dwords] (base ring)\<rparr>)"

definition head_passed_wrap :: "gpu_ring \<Rightarrow> nat \<Rightarrow> poll \<Rightarrow> bool" where
  "head_passed_wrap ring wrap_start p \<longleftrightarrow> ring_is_idle ring p \<or> read_head (head_reg p) < wrap_start"

definition head_outside :: "gpu_ring \<Rightarrow> nat \<Rightarrow> poll \<Rightarrow> bool" where
  "head_outside ring needed p \<longleftrightarrow>
     ring_is_idle ring p
     \<or> (let head = read_head (head_reg p)
        in if u32 (pos ring + needed) \<le> ring_size ring
           then head < pos ring \<or> u32 (pos ring + needed) \<le> head
           else minus32 (u32 (pos ring + needed)) (ring_size ring) \<le> head \<and> head < pos ring)"

text \<open>The two steps of \<open>gpu_ring_begin\<close>. Each takes the poll at its index for the deadline, 500 ms
  after it, and the next ones for its loop.\<close>

definition ring_wrap :: "polls \<Rightarrow> gpu_ring \<Rightarrow> nat \<Rightarrow> (status_t \<times> gpu_ring \<times> nat) option" where
  "ring_wrap polls ring t =
     (let wrap_start = pos ring;
          ring = pad_noops ring;
          deadline = system_time (polls t) + 500000
      in do {
        (safe, t) \<leftarrow> ring_wait polls (head_passed_wrap ring wrap_start) deadline (Suc t);
        Some (if \<not> safe then (B_TIMED_OUT, ring, t) else (B_OK, ring\<lparr>pos := 0\<rparr>, t))
      })"

definition ring_clear :: "polls \<Rightarrow> gpu_ring \<Rightarrow> nat \<Rightarrow> nat \<Rightarrow> nat \<Rightarrow> (status_t \<times> gpu_ring \<times> nat) option" where
  "ring_clear polls ring dwords needed t =
     (let deadline = system_time (polls t) + 500000
      in do {
        (safe, t) \<leftarrow> ring_wait polls (head_outside ring needed) deadline (Suc t);
        Some (if \<not> safe then (B_TIMED_OUT, ring, t)
              else (B_OK, ring\<lparr>emit_start := pos ring, emit_count := 0, emit_reserved := dwords\<rparr>, t))
      })"

definition gpu_ring_begin :: "polls \<Rightarrow> gpu_ring \<Rightarrow> nat \<Rightarrow> nat \<Rightarrow> (status_t \<times> gpu_ring \<times> nat) option" where
  "gpu_ring_begin polls ring dwords t =
     (let needed = bytes_needed dwords
      in if size_limit ring < needed then Some (B_NO_MEMORY, ring, t)
         else do {
           (st, ring, t) \<leftarrow>
             (if size_limit ring < u32 (pos ring + needed) then ring_wrap polls ring t else Some (B_OK, ring, t));
           if st \<noteq> B_OK then Some (st, ring, t) else ring_clear polls ring dwords needed t
         })"

definition gpu_ring_emit :: "nat \<Rightarrow> gpu_ring \<Rightarrow> gpu_ring" where
  "gpu_ring_emit value ring =
     (let dw_index = pos ring div sizeof_uint32;
          mask = minus32 (ring_size ring div sizeof_uint32) 1
      in ring\<lparr>base := (base ring)[dw_index AND mask := value],
              pos := u32 (pos ring + sizeof_uint32) AND minus32 (ring_size ring) 1,
              emit_count := u32 (emit_count ring + 1)\<rparr>)"

text \<open>\<open>kick tail\<close> is the result of the \<open>INTEL_RING_WRITE_TAIL\<close> ioctl; the tail handed to the kernel is
  part of the result.\<close>

definition gpu_ring_advance :: "(nat \<Rightarrow> bool) \<Rightarrow> gpu_ring \<Rightarrow> status_t \<times> gpu_ring \<times> nat" where
  "gpu_ring_advance kick ring =
     (let ring = (if pos ring AND 0x07 \<noteq> 0 then gpu_ring_emit 0 ring else ring);
          tail_value = pos ring
      in (if kick tail_value then B_OK else B_ERROR, ring, tail_value))"

definition gpu_ring_wait_idle :: "polls \<Rightarrow> gpu_ring \<Rightarrow> nat \<Rightarrow> nat \<Rightarrow> (bool \<times> nat) option" where
  "gpu_ring_wait_idle polls ring timeout_us t =
     ring_wait polls (ring_is_idle ring) (system_time (polls t) + int timeout_us) (Suc t)"

definition gpu_ring_read_head :: "poll \<Rightarrow> nat" where
  "gpu_ring_read_head p = read_head (head_reg p)"

definition gpu_ring_submit ::
  "polls \<Rightarrow> (nat \<Rightarrow> bool) \<Rightarrow> gpu_ring \<Rightarrow> nat list \<Rightarrow> nat \<Rightarrow> (status_t \<times> gpu_ring \<times> nat) option" where
  "gpu_ring_submit polls kick ring dwords t =
     do {
       (st, ring, t) \<leftarrow> gpu_ring_begin polls ring (length dwords) t;
       Some (if st \<noteq> B_OK then (st, ring, t)
             else let ring = fold gpu_ring_emit dwords ring;
                      (st, ring, tail_value) = gpu_ring_advance kick ring
                  in (st, ring, t))
     }"

section \<open>The ring invariant\<close>

definition ring_wf :: "gpu_ring \<Rightarrow> bool" where
  "ring_wf ring \<longleftrightarrow>
     ring_size ring \<in> (\<lambda>k. 2 ^ k) ` {7..21} \<and> length (base ring) = ring_size ring div 4
     \<and> pos ring < ring_size ring \<and> 4 dvd pos ring"

lemma ring_wfD:
  assumes "ring_wf ring"
  shows "\<exists>k. 7 \<le> k \<and> k \<le> 21 \<and> ring_size ring = 2 ^ k \<and> ring_size ring div 4 = 2 ^ (k - 2)"
    and "128 \<le> ring_size ring" and "ring_size ring \<le> 2 ^ 21" and "8 dvd ring_size ring"
    and "length (base ring) = ring_size ring div 4" and "pos ring < ring_size ring" and "4 dvd pos ring"
proof -
  from assms obtain k where k: "7 \<le> k" "k \<le> 21" "ring_size ring = 2 ^ k"
    unfolding ring_wf_def by auto
  moreover have "(2::nat) ^ k = 2 ^ (k - 2) * 2 ^ 2"
    using k by (simp add: power_eq_if)
  ultimately have "ring_size ring = 2 ^ (k - 2) * 4"
    by simp
  with k show "\<exists>k. 7 \<le> k \<and> k \<le> 21 \<and> ring_size ring = 2 ^ k \<and> ring_size ring div 4 = 2 ^ (k - 2)"
    by auto
  have "(128::nat) = 2 ^ 7" by simp
  also have "\<dots> \<le> 2 ^ k" using k by (intro power_increasing) auto
  finally show "128 \<le> ring_size ring" using k by simp
  have "ring_size ring \<le> 2 ^ 21" unfolding k(3) using k by (intro power_increasing) auto
  then show "ring_size ring \<le> 2 ^ 21" .
  have "(2::nat) ^ 3 dvd 2 ^ k" using k by (intro le_imp_power_dvd) simp
  then show "8 dvd ring_size ring" using k by simp
qed (use assms in \<open>auto simp: ring_wf_def\<close>)

lemma dvd_div_less: "4 dvd (a::nat) \<Longrightarrow> 4 dvd b \<Longrightarrow> a div 4 < b div 4 \<longleftrightarrow> a < b"
  by (elim dvdE) simp

lemma ring_wf_dwords:
  assumes "ring_wf ring"
  shows "4 dvd ring_size ring" and "pos ring div 4 < ring_size ring div 4"
proof -
  show four: "4 dvd ring_size ring"
    using ring_wfD(4) [OF assms] by (rule dvd_trans [rotated]) simp
  show "pos ring div 4 < ring_size ring div 4"
    using four ring_wfD(6,7) [OF assms] by (simp add: dvd_div_less)
qed

lemma ring_masks:
  assumes "ring_wf ring"
  shows "x AND minus32 (ring_size ring) 1 = x mod ring_size ring"
    and "x AND minus32 (ring_size ring div 4) 1 = x mod (ring_size ring div 4)"
    and "size_limit ring = ring_size ring - 64"
    and "minus32 (ring_size ring) (pos ring) = ring_size ring - pos ring"
proof -
  from ring_wfD(1) [OF assms] obtain k where k: "7 \<le> k" "k \<le> 21" "ring_size ring = 2 ^ k"
    "ring_size ring div 4 = 2 ^ (k - 2)" by blast
  have le: "ring_size ring \<le> 2 ^ 21" "128 \<le> ring_size ring" using ring_wfD [OF assms] by auto
  have m: "minus32 (ring_size ring) 1 = 2 ^ k - 1" "minus32 (ring_size ring div 4) 1 = 2 ^ (k - 2) - 1"
    using le k by (auto simp: minus32_diff)
  show "x AND minus32 (ring_size ring) 1 = x mod ring_size ring"
    unfolding m(1) unfolding k(3) by (rule and_ones)
  show "x AND minus32 (ring_size ring div 4) 1 = x mod (ring_size ring div 4)"
    unfolding m(2) unfolding k(4) by (rule and_ones)
  show "size_limit ring = ring_size ring - 64"
    unfolding size_limit_def using le by (simp add: minus32_diff)
  show "minus32 (ring_size ring) (pos ring) = ring_size ring - pos ring"
    using le ring_wfD(6) [OF assms] by (simp add: minus32_diff)
qed

lemma gpu_ring_emit_wf:
  assumes "ring_wf ring"
  shows "gpu_ring_emit v ring =
           ring\<lparr>base := (base ring)[pos ring div 4 := v], pos := (pos ring + 4) mod ring_size ring,
                emit_count := u32 (emit_count ring + 1)\<rparr>"
    and "ring_wf (gpu_ring_emit v ring)"
proof -
  note wf = ring_wfD [OF assms]
  note lt = ring_wf_dwords [OF assms]
  have p: "u32 (pos ring + 4) = pos ring + 4" using wf(3,6) by simp
  show eq: "gpu_ring_emit v ring =
           ring\<lparr>base := (base ring)[pos ring div 4 := v], pos := (pos ring + 4) mod ring_size ring,
                emit_count := u32 (emit_count ring + 1)\<rparr>"
    using lt(2) by (simp add: gpu_ring_emit_def Let_def sizeof_uint32_def ring_masks [OF assms] p del: One_nat_def)
  have "4 dvd (pos ring + 4) mod ring_size ring" using wf(7) lt(1) by (simp add: dvd_mod)
  then show "ring_wf (gpu_ring_emit v ring)"
    unfolding eq using assms wf(2) by (simp add: ring_wf_def)
qed

lemma emits_wf:
  assumes "ring_wf ring"
  shows "ring_wf (fold gpu_ring_emit ds ring)"
  using assms by (induction ds arbitrary: ring) (auto simp: gpu_ring_emit_wf(2))

lemma emits_spec:
  assumes "ring_wf ring" and "pos ring + 4 * length ds < ring_size ring"
  shows "base (fold gpu_ring_emit ds ring) = overwrite (pos ring div 4) ds (base ring)
    \<and> pos (fold gpu_ring_emit ds ring) = pos ring + 4 * length ds
    \<and> ring_size (fold gpu_ring_emit ds ring) = ring_size ring"
  using assms
proof (induction ds arbitrary: ring)
  case Nil
  then show ?case by simp
next
  case (Cons d ds)
  note eq = gpu_ring_emit_wf(1) [OF Cons.prems(1), of d]
  have lt: "pos ring div 4 < length (base ring)"
    using ring_wfD(5) [OF Cons.prems(1)] ring_wf_dwords(2) [OF Cons.prems(1)] by simp
  have "pos (gpu_ring_emit d ring) = pos ring + 4" "ring_size (gpu_ring_emit d ring) = ring_size ring"
    using Cons.prems(2) by (auto simp: eq)
  moreover have "base (gpu_ring_emit d ring) = (base ring)[pos ring div 4 := d]" by (simp add: eq)
  ultimately show ?case
    using Cons.IH [OF gpu_ring_emit_wf(2) [OF Cons.prems(1)], of d] Cons.prems(2) lt
    by (simp add: div_add1_eq overwrite_Cons)
qed

lemma pad_noops_spec:
  assumes "ring_wf ring"
  shows "pad_noops ring =
     ring\<lparr>base := take (pos ring div 4) (base ring) @ replicate (ring_size ring div 4 - pos ring div 4) 0\<rparr>"
proof -
  note wf = ring_wfD [OF assms]
  let ?p = "pos ring div 4" and ?n = "ring_size ring div 4"
  have upd: "fold (\<lambda>i b. b[(?p + i) mod ?n := 0]) [0..<m] b = overwrite ?p (replicate m 0) b"
    if "?p + m \<le> ?n" "length b = ?n" for m and b :: "nat list"
    using that(1)
  proof (induction m)
    case 0
    then show ?case by simp
  next
    case (Suc m)
    have one: "(overwrite ?p (replicate m 0) b)[?p + m := 0]
        = overwrite (?p + length (replicate m (0::nat))) [0] (overwrite ?p (replicate m 0) b)"
      using Suc.prems that(2) by (simp add: overwrite_def upd_conv_take_nth_drop)
    have "overwrite (?p + length (replicate m (0::nat))) [0] (overwrite ?p (replicate m 0) b)
        = overwrite ?p (replicate m 0 @ [0]) b"
      by (rule overwrite_append) (use Suc.prems that(2) in simp)
    with one Suc show ?case by (simp add: replicate_append_same)
  qed
  have "?p \<le> ?n" using wf(6) by (simp add: div_le_mono)
  moreover have four: "4 dvd ring_size ring" by (rule ring_wf_dwords(1) [OF assms])
  then obtain a b where "ring_size ring = 4 * a" "pos ring = 4 * b"
    using four wf(7) by (elim dvdE)
  then have "(ring_size ring - pos ring) div 4 = ?n - ?p"
    by (simp flip: diff_mult_distrib2)
  ultimately show ?thesis
    using upd [of "?n - ?p" "base ring"] wf(5)
    by (simp add: pad_noops_def Let_def sizeof_uint32_def ring_masks [OF assms] overwrite_def)
qed

section \<open>Waiting loops\<close>

lemma ring_wait_SomeD:
  assumes "ring_wait polls ok deadline t = Some (safe, t')"
  shows "t < t'" and "safe \<Longrightarrow> ok (polls (t' - 1))"
proof -
  from assms obtain u where u: "while_option (\<lambda>t. system_time (polls t) < deadline \<and> \<not> ok (polls t)) Suc t = Some u"
    "t' = Suc u" "safe = (system_time (polls u) < deadline)"
    unfolding ring_wait_def by auto
  have "t \<le> u"
    using while_option_rule [where P = "\<lambda>s. t \<le> s", OF _ u(1)] by simp
  with u(2) show "t < t'" by simp
  show "ok (polls (t' - 1))" if safe
    using while_option_stop [OF u(1)] u(2,3) that by auto
qed

lemma ring_wait_total:
  assumes "t \<le> m" and "deadline \<le> system_time (polls m)"
  shows "\<exists>r. ring_wait polls ok deadline t = Some r"
proof -
  have "\<exists>u. while_option (\<lambda>t. system_time (polls t) < deadline \<and> \<not> ok (polls t)) Suc t = Some u"
  proof (rule measure_while_option_Some [where P = "\<lambda>s. s \<le> m" and f = "\<lambda>s. m - s"])
    fix s
    assume "s \<le> m" and "system_time (polls s) < deadline \<and> \<not> ok (polls s)"
    with assms(2) have "s < m" by (cases "s = m") auto
    then show "Suc s \<le> m \<and> m - Suc s < m - s" by auto
  qed (rule assms(1))
  then show ?thesis by (auto simp: ring_wait_def)
qed

text \<open>A clock that passes every deadline.\<close>

definition clock_runs :: "polls \<Rightarrow> bool" where
  "clock_runs polls \<longleftrightarrow> (\<forall>t d. \<exists>m\<ge>t. d \<le> system_time (polls m))"

lemma clock_wait: "clock_runs polls \<Longrightarrow> \<exists>r. ring_wait polls ok deadline t = Some r"
  unfolding clock_runs_def using ring_wait_total by blast

section \<open>Reserving space\<close>

text \<open>Where a command of \<open>n\<close> dwords goes, and what the memory is after the padding of a wrap.\<close>

definition fits_dwords :: "gpu_ring \<Rightarrow> nat \<Rightarrow> bool" where
  "fits_dwords ring n \<longleftrightarrow> 4 * (n + 2) \<le> ring_size ring - 64"

definition wraps :: "gpu_ring \<Rightarrow> nat \<Rightarrow> bool" where
  "wraps ring n \<longleftrightarrow> ring_size ring - 64 < pos ring + 4 * (n + 2)"

definition start_of :: "gpu_ring \<Rightarrow> nat \<Rightarrow> nat" where
  "start_of ring n = (if wraps ring n then 0 else pos ring)"

definition memory_of :: "gpu_ring \<Rightarrow> nat \<Rightarrow> nat list" where
  "memory_of ring n =
     (if wraps ring n
      then take (pos ring div 4) (base ring) @ replicate (ring_size ring div 4 - pos ring div 4) 0
      else base ring)"

lemma bytes_needed_small: "n + 2 < 2 ^ 30 \<Longrightarrow> bytes_needed n = 4 * (n + 2)"
  by (simp add: bytes_needed_def sizeof_uint32_def)

lemma ring_wf_memory: "ring_wf ring \<Longrightarrow> length (memory_of ring n) = ring_size ring div 4"
  using ring_wf_dwords [of ring] ring_wfD(5) [of ring] by (simp add: memory_of_def)

lemma start_bound:
  assumes "ring_wf ring" and "fits_dwords ring n"
  shows "start_of ring n + 4 * (n + 2) \<le> ring_size ring - 64" and "4 dvd start_of ring n"
  using assms ring_wfD(7) by (auto simp: start_of_def wraps_def fits_dwords_def)

text \<open>\<open>gpu_ring_begin\<close> by cases: too large; a wait that timed out; success.\<close>

lemma begin_too_large:
  assumes "ring_wf ring" and "n + 2 < 2 ^ 30" and "\<not> fits_dwords ring n"
  shows "gpu_ring_begin polls ring n t = Some (B_NO_MEMORY, ring, t)"
  using assms by (simp add: gpu_ring_begin_def bytes_needed_small fits_dwords_def ring_masks(3) del: mult_Suc_right add_2_eq_Suc')

lemma begin_unfold:
  assumes "ring_wf ring" and "n + 2 < 2 ^ 30" and "fits_dwords ring n"
  shows "gpu_ring_begin polls ring n t =
     (if wraps ring n then do {
        (st, ring, t) \<leftarrow> ring_wrap polls ring t;
        if st \<noteq> B_OK then Some (st, ring, t) else ring_clear polls ring n (4 * (n + 2)) t
      } else ring_clear polls ring n (4 * (n + 2)) t)"
proof -
  have "pos ring + 4 * (n + 2) < 2 ^ 32"
    using assms(3) ring_wfD(3,6) [OF assms(1)] by (simp add: fits_dwords_def)
  then have "u32 (pos ring + 4 * (n + 2)) = pos ring + 4 * (n + 2)" by (rule u32_id)
  then show ?thesis
    using assms unfolding gpu_ring_begin_def bytes_needed_small [OF assms(2)] Let_def ring_masks(3) [OF assms(1)]
    by (simp add: fits_dwords_def wraps_def)
qed

definition begun :: "gpu_ring \<Rightarrow> nat \<Rightarrow> gpu_ring" where
  "begun ring n = ring\<lparr>base := memory_of ring n, pos := start_of ring n, emit_start := start_of ring n,
     emit_count := 0, emit_reserved := n\<rparr>"

lemma begun_simps [simp]:
  "base (begun ring n) = memory_of ring n" "pos (begun ring n) = start_of ring n"
  "ring_size (begun ring n) = ring_size ring"
  by (simp_all add: begun_def)

lemma ring_wrap_eq:
  assumes "ring_wf ring" and "wraps ring n"
  shows "ring_wrap polls ring t =
     map_option (\<lambda>(safe, t). if safe then (B_OK, ring\<lparr>base := memory_of ring n, pos := 0\<rparr>, t)
                            else (B_TIMED_OUT, ring\<lparr>base := memory_of ring n\<rparr>, t))
       (ring_wait polls (head_passed_wrap ring (pos ring)) (system_time (polls t) + 500000) (Suc t))"
proof -
  have pad: "pad_noops ring = ring\<lparr>base := memory_of ring n\<rparr>"
    using assms by (simp add: pad_noops_spec memory_of_def)
  have head: "head_passed_wrap (ring\<lparr>base := m\<rparr>) = head_passed_wrap ring" for m
    by (intro ext) (simp add: head_passed_wrap_def ring_is_idle_def read_tail_def)
  show ?thesis
    unfolding ring_wrap_def Let_def pad head
    by (cases "ring_wait polls (head_passed_wrap ring (pos ring)) (system_time (polls t) + 500000) (Suc t)")
      (auto split: prod.split)
qed

lemma ring_clear_eq:
  "ring_clear polls ring n needed t =
     map_option (\<lambda>(safe, t). if safe then (B_OK, ring\<lparr>emit_start := pos ring, emit_count := 0, emit_reserved := n\<rparr>, t)
                            else (B_TIMED_OUT, ring, t))
       (ring_wait polls (head_outside ring needed) (system_time (polls t) + 500000) (Suc t))"
  by (cases "ring_wait polls (head_outside ring needed) (system_time (polls t) + 500000) (Suc t)")
    (simp_all add: ring_clear_def Let_def split: prod.split)

text \<open>In every case the memory, the position and the size are these.\<close>

lemma begin_cases:
  assumes "ring_wf ring" and "n + 2 < 2 ^ 30" and "gpu_ring_begin polls ring n t = Some (st, ring', t')"
  obtains (large) "\<not> fits_dwords ring n" "st = B_NO_MEMORY" "ring' = ring"
  | (wrap_timeout) "fits_dwords ring n" "wraps ring n" "st = B_TIMED_OUT" "ring' = ring\<lparr>base := memory_of ring n\<rparr>"
  | (timeout) "fits_dwords ring n" "st = B_TIMED_OUT" "ring' = ring\<lparr>base := memory_of ring n, pos := start_of ring n\<rparr>"
  | (wrapped) i where "fits_dwords ring n" "wraps ring n" "st = B_OK" "ring' = begun ring n"
      "t < i" "i < t'" "head_passed_wrap ring (pos ring) (polls (i - 1))"
      "head_outside (ring\<lparr>pos := 0\<rparr>) (4 * (n + 2)) (polls (t' - 1))" "Suc t \<le> i - 1" "i - 1 < t' - 1"
  | (straight) "fits_dwords ring n" "\<not> wraps ring n" "st = B_OK" "ring' = begun ring n" "Suc t \<le> t' - 1"
      "head_outside ring (4 * (n + 2)) (polls (t' - 1))"
proof (cases "fits_dwords ring n")
  case False
  with begin_too_large [OF assms(1,2)] assms(3) have "st = B_NO_MEMORY" "ring' = ring" by auto
  with False show thesis by (rule large)
next
  case fits: True
  note unf = begin_unfold [OF assms(1,2) fits]
  show thesis
  proof (cases "wraps ring n")
    case False
    with assms(3) obtain safe where w: "ring_wait polls (head_outside ring (4 * (n + 2))) (system_time (polls t) + 500000) (Suc t) = Some (safe, t')"
      and r: "(st, ring') = (if safe then (B_OK, ring\<lparr>emit_start := pos ring, emit_count := 0, emit_reserved := n\<rparr>) else (B_TIMED_OUT, ring))"
      by (auto simp: unf ring_clear_eq split: if_splits)
    from False have m: "memory_of ring n = base ring" "start_of ring n = pos ring"
      by (simp_all add: memory_of_def start_of_def)
    show thesis
    proof (cases safe)
      case True
      with r m have "ring' = begun ring n" "st = B_OK" by (auto simp: begun_def)
      moreover have "Suc t \<le> t' - 1" "head_outside ring (4 * (n + 2)) (polls (t' - 1))"
        using ring_wait_SomeD [OF w] True by auto
      ultimately show thesis using fits False by (intro straight)
    next
      case False
      with r m have "st = B_TIMED_OUT" "ring' = ring\<lparr>base := memory_of ring n, pos := start_of ring n\<rparr>" by auto
      with fits show thesis by (rule timeout)
    qed
  next
    case True
    note wrap = True
    let ?w = "ring\<lparr>base := memory_of ring n, pos := 0\<rparr>"
    have out: "head_outside ?w = head_outside (ring\<lparr>pos := 0\<rparr>)"
      by (intro ext) (simp add: head_outside_def ring_is_idle_def read_tail_def Let_def)
    have s: "start_of ring n = 0" using wrap by (simp add: start_of_def)
    from assms(3) wrap obtain safe i where
      w: "ring_wait polls (head_passed_wrap ring (pos ring)) (system_time (polls t) + 500000) (Suc t) = Some (safe, i)"
      and r: "if safe then ring_clear polls ?w n (4 * (n + 2)) i = Some (st, ring', t')
              else st = B_TIMED_OUT \<and> ring' = ring\<lparr>base := memory_of ring n\<rparr>"
      by (auto simp: unf ring_wrap_eq [OF assms(1) wrap] bind_eq_Some_conv split: if_splits)
    show thesis
    proof (cases safe)
      case False
      with r have "st = B_TIMED_OUT" "ring' = ring\<lparr>base := memory_of ring n\<rparr>" by auto
      with fits wrap show thesis by (rule wrap_timeout)
    next
      case True
      with r obtain safe' where w': "ring_wait polls (head_outside (ring\<lparr>pos := 0\<rparr>) (4 * (n + 2))) (system_time (polls i) + 500000) (Suc i) = Some (safe', t')"
        and r': "(st, ring') = (if safe' then (B_OK, ?w\<lparr>emit_start := 0, emit_count := 0, emit_reserved := n\<rparr>) else (B_TIMED_OUT, ?w))"
        by (auto simp: ring_clear_eq out split: if_splits)
      show thesis
      proof (cases safe')
        case True
        with r' s have "ring' = begun ring n" "st = B_OK" by (auto simp: begun_def)
        moreover have "Suc t \<le> i - 1" "i - 1 < t' - 1" "t < i" "i < t'"
          using ring_wait_SomeD(1) [OF w] ring_wait_SomeD(1) [OF w'] by auto
        ultimately show thesis
          using fits wrap ring_wait_SomeD(2) [OF w \<open>safe\<close>] ring_wait_SomeD(2) [OF w' True]
          by (intro wrapped [of i])
      next
        case False
        with r' s have "st = B_TIMED_OUT" "ring' = ring\<lparr>base := memory_of ring n, pos := start_of ring n\<rparr>" by auto
        with fits show thesis by (rule timeout)
      qed
    qed
  qed
qed

section \<open>Submission\<close>

text \<open>The dwords that go into the ring: an odd dword position at the end is filled with a NOOP.\<close>

definition noop_padded :: "nat \<Rightarrow> nat list \<Rightarrow> nat list" where
  "noop_padded start ds = (if odd (start div 4 + length ds) then ds @ [0] else ds)"

lemma length_noop_padded: "length (noop_padded start ds) \<le> Suc (length ds)"
  by (simp add: noop_padded_def)

lemma dvd_8_dwords: "4 dvd (p::nat) \<Longrightarrow> 8 dvd p \<longleftrightarrow> even (p div 4)"
  by (elim dvdE) auto

lemma and_7: "(p::nat) AND 7 = p mod 8"
  using and_ones [of p 3] by simp

lemma begun_wf:
  assumes "ring_wf ring" and "fits_dwords ring n"
  shows "ring_wf (begun ring n)"
  using assms start_bound [OF assms] ring_wf_memory [OF assms(1), of n] ring_wfD(2) [OF assms(1)]
  by (simp add: ring_wf_def begun_def)

lemma advance_spec:
  assumes wf: "ring_wf ring" and fit: "pos ring + 4 * Suc (length ds) < ring_size ring"
    and adv: "gpu_ring_advance kick (fold gpu_ring_emit ds ring) = (st, ring', tail)"
  shows "base ring' = overwrite (pos ring div 4) (noop_padded (pos ring) ds) (base ring)"
    and "pos ring' = pos ring + 4 * length (noop_padded (pos ring) ds)" and "8 dvd pos ring'"
    and "ring_size ring' = ring_size ring" and "ring_wf ring'"
    and "st = (if kick (pos ring') then B_OK else B_ERROR)" and "tail = pos ring'"
proof -
  let ?ds = "noop_padded (pos ring) ds"
  let ?r = "fold gpu_ring_emit ds ring"
  have p: "pos ?r = pos ring + 4 * length ds"
    using emits_spec [of ring ds] wf fit by simp
  have "8 dvd pos ?r \<longleftrightarrow> even (pos ring div 4 + length ds)"
    using dvd_8_dwords [of "pos ?r"] ring_wfD(7) [OF wf] by (simp add: p)
  then have eq: "(if pos ?r AND 7 \<noteq> 0 then gpu_ring_emit 0 ?r else ?r) = fold gpu_ring_emit ?ds ring"
    by (simp add: and_7 noop_padded_def mod_eq_0_iff_dvd)
  have all: "base (fold gpu_ring_emit ?ds ring) = overwrite (pos ring div 4) ?ds (base ring)
    \<and> pos (fold gpu_ring_emit ?ds ring) = pos ring + 4 * length ?ds
    \<and> ring_size (fold gpu_ring_emit ?ds ring) = ring_size ring"
    using emits_spec [of ring ?ds] wf fit length_noop_padded [of "pos ring" ds] by simp
  from adv eq have r: "ring' = fold gpu_ring_emit ?ds ring" "tail = pos ring'"
    "st = (if kick (pos ring') then B_OK else B_ERROR)"
    by (auto simp: gpu_ring_advance_def Let_def)
  show "base ring' = overwrite (pos ring div 4) ?ds (base ring)" "pos ring' = pos ring + 4 * length ?ds"
    "ring_size ring' = ring_size ring" "st = (if kick (pos ring') then B_OK else B_ERROR)" "tail = pos ring'"
    using all r by simp_all
  show "ring_wf ring'" unfolding r(1) by (rule emits_wf [OF wf])
  have "even (pos ring div 4 + length ?ds)" by (simp add: noop_padded_def)
  then show "8 dvd pos ring'"
    using dvd_8_dwords [of "pos ring'"] ring_wfD(7) [OF wf] all r(1) by simp
qed

lemma submit_cases:
  assumes "gpu_ring_submit polls kick ring ds t = Some (st, ring', t')"
  obtains (failed) "gpu_ring_begin polls ring (length ds) t = Some (st, ring', t')" "st \<noteq> B_OK"
  | (begun) ring1 tail where "gpu_ring_begin polls ring (length ds) t = Some (B_OK, ring1, t')"
      "gpu_ring_advance kick (fold gpu_ring_emit ds ring1) = (st, ring', tail)"
  using assms by (auto simp: gpu_ring_submit_def Let_def bind_eq_Some_conv split: if_splits prod.splits)

lemma begin_fail_status:
  assumes "ring_wf ring" and "n + 2 < 2 ^ 30" and "gpu_ring_begin polls ring n t = Some (st, ring', t')" and "st \<noteq> B_OK"
  shows "st \<noteq> B_ERROR \<and> (st = B_NO_MEMORY \<longleftrightarrow> \<not> fits_dwords ring n) \<and> (st = B_NO_MEMORY \<longrightarrow> ring' = ring)
    \<and> st \<in> {B_NO_MEMORY, B_TIMED_OUT} \<and> ring_wf ring' \<and> ring_size ring' = ring_size ring"
  using assms(1-3)
proof (cases rule: begin_cases)
  case wrap_timeout
  then show ?thesis using assms(1) ring_wf_memory [OF assms(1), of n] by (simp add: ring_wf_def)
next
  case timeout
  then show ?thesis
    using assms(1) ring_wf_memory [OF assms(1), of n] start_bound [OF assms(1) timeout(1)] ring_wfD(2) [OF assms(1)]
    by (simp add: ring_wf_def)
qed (use assms(1,4) in simp_all)

lemma begin_ok:
  assumes "ring_wf ring" and "n + 2 < 2 ^ 30" and "gpu_ring_begin polls ring n t = Some (B_OK, ring', t')"
  shows "fits_dwords ring n" and "ring' = begun ring n"
  using assms by (cases rule: begin_cases, simp_all)+

lemma advance_status: "gpu_ring_advance kick r = (st, ring', tail) \<Longrightarrow> st = B_OK \<or> st = B_ERROR"
  by (auto simp: gpu_ring_advance_def Let_def split: if_splits)

lemma ring_wrap_returns: "ring_wf ring \<Longrightarrow> clock_runs polls \<Longrightarrow> wraps ring n \<Longrightarrow> \<exists>r. ring_wrap polls ring t = Some r"
  using clock_wait [of polls "head_passed_wrap ring (pos ring)" "system_time (polls t) + 500000" "Suc t"]
  by (auto simp only: ring_wrap_eq option.map)

lemma ring_clear_returns: "clock_runs polls \<Longrightarrow> \<exists>r. ring_clear polls ring n k t = Some r"
  using clock_wait [of polls "head_outside ring k" "system_time (polls t) + 500000" "Suc t"]
  by (auto simp only: ring_clear_eq option.map)

lemma submit_None: "gpu_ring_submit polls kick ring ds t = None \<longleftrightarrow> gpu_ring_begin polls ring (length ds) t = None"
  by (cases "gpu_ring_begin polls ring (length ds) t") (simp_all add: gpu_ring_submit_def split: prod.split)

lemma submitted_sound:
  assumes "ring_wf ring" and "length ds + 2 < 2 ^ 30"
    and "gpu_ring_submit polls kick ring ds t = Some (st, ring', t')" and "st = B_OK \<or> st = B_ERROR"
  shows "fits_dwords ring (length ds)
    \<and> (let start = start_of ring (length ds); cmd = noop_padded start ds
       in base ring' = overwrite (start div 4) cmd (memory_of ring (length ds))
          \<and> pos ring' = start + 4 * length cmd \<and> 8 dvd pos ring' \<and> pos ring' < ring_size ring)
    \<and> (st = B_OK \<longleftrightarrow> kick (pos ring')) \<and> ring_wf ring' \<and> ring_size ring' = ring_size ring"
  using assms(3)
proof (cases rule: submit_cases)
  case failed
  with assms(4) begin_fail_status [OF assms(1,2)] show ?thesis by blast
next
  case (begun ring1 tail)
  note ok = begin_ok [OF assms(1,2) begun(1)]
  have fit: "pos ring1 + 4 * Suc (length ds) < ring_size ring1"
    using start_bound(1) [OF assms(1) ok(1)] ring_wfD(2) [OF assms(1)] by (simp add: ok(2))
  have wf: "ring_wf ring1" using begun_wf [OF assms(1) ok(1)] ok(2) by simp
  note adv = advance_spec [OF wf fit begun(2)]
  have size: "ring_size ring' = ring_size ring" using adv(4) by (simp add: ok(2))
  have "pos ring' < ring_size ring" using ring_wfD(6) [OF adv(5)] by (simp add: size)
  with adv size ok show ?thesis by (simp add: Let_def)
qed

text \<open>\<open>gpu_ring_submit\<close> puts the dwords, followed by a NOOP when their end is not QWord aligned, at
  the write position, or at the start of a ring whose end was filled with NOOPs when the command does
  not fit before the last 64 bytes; nothing else of the memory changes. The kernel gets the aligned end
  as the new tail, which lies in the ring, and its answer is the status.\<close>

theorem gpu_ring_submit_writes:
  assumes "ring_wf ring" and "length ds + 2 < 2 ^ 30"
    and "gpu_ring_submit polls kick ring ds t = Some (st, ring', t')" and "st = B_OK \<or> st = B_ERROR"
  shows "fits_dwords ring (length ds)
    \<and> (let start = start_of ring (length ds); cmd = noop_padded start ds
       in base ring' = overwrite (start div 4) cmd (memory_of ring (length ds))
          \<and> pos ring' = start + 4 * length cmd \<and> 8 dvd pos ring' \<and> pos ring' < ring_size ring)
    \<and> (st = B_OK \<longleftrightarrow> kick (pos ring')) \<and> ring_wf ring' \<and> ring_size ring' = ring_size ring"
  using assms by (rule submitted_sound)

text \<open>C11: With a clock that runs, \<open>gpu_ring_submit\<close> returns; it answers that the ring is too small
  exactly when the command and two dwords exceed the ring less 64 bytes, and then the ring is
  unchanged. Whatever happens, the ring stays well formed.\<close>

theorem gpu_ring_submit_returns:
  assumes "ring_wf ring" and "length ds + 2 < 2 ^ 30" and "clock_runs polls"
  shows "\<exists>st ring' t'. gpu_ring_submit polls kick ring ds t = Some (st, ring', t')
    \<and> st \<in> {B_OK, B_ERROR, B_NO_MEMORY, B_TIMED_OUT}
    \<and> (st = B_NO_MEMORY \<longleftrightarrow> \<not> fits_dwords ring (length ds)) \<and> (st = B_NO_MEMORY \<longrightarrow> ring' = ring)
    \<and> ring_wf ring' \<and> ring_size ring' = ring_size ring"
proof -
  let ?n = "length ds"
  have "\<exists>res. gpu_ring_begin polls ring ?n t = Some res"
  proof (cases "fits_dwords ring ?n")
    case False
    then show ?thesis using begin_too_large [OF assms(1,2)] by blast
  next
    case True
    then show ?thesis
      unfolding begin_unfold [OF assms(1,2) True]
      using ring_wrap_returns [OF assms(1,3)] ring_clear_returns [OF assms(3)]
      by (auto simp: bind_eq_Some_conv) (metis surj_pair)
  qed
  then have "gpu_ring_submit polls kick ring ds t \<noteq> None"
    unfolding submit_None by blast
  then obtain st ring' t' where sub: "gpu_ring_submit polls kick ring ds t = Some (st, ring', t')"
    by (cases "gpu_ring_submit polls kick ring ds t") auto
  show ?thesis
  proof (cases "st = B_OK \<or> st = B_ERROR")
    case True
    then show ?thesis using submitted_sound [OF assms(1,2) sub True] sub by auto
  next
    case False
    from sub have "gpu_ring_begin polls ring ?n t = Some (st, ring', t')"
      by (cases rule: submit_cases) (use False advance_status in auto)
    with False show ?thesis using begin_fail_status [OF assms(1,2)] sub by blast
  qed
qed

section \<open>The GPU behind the ring\<close>

text \<open>The bytes between HEAD and TAIL, which the command streamer has still to execute. \<open>gpu_consumes\<close>
  says of the reads from index \<open>t\<close> on what the hardware does while nobody moves TAIL: TAIL reads back
  as \<open>tail\<close>, HEAD lies in the ring and only moves over pending bytes.\<close>

definition pending :: "nat \<Rightarrow> nat \<Rightarrow> nat \<Rightarrow> nat \<Rightarrow> bool" where
  "pending sz head tail b \<longleftrightarrow>
     (if head \<le> tail then head \<le> b \<and> b < tail else b < tail \<or> (head \<le> b \<and> b < sz))"

definition gpu_consumes :: "polls \<Rightarrow> gpu_ring \<Rightarrow> nat \<Rightarrow> nat \<Rightarrow> bool" where
  "gpu_consumes polls ring tail t \<longleftrightarrow>
     (\<forall>i\<ge>t. read_tail ring (idle_tail_reg (polls i)) = tail
        \<and> read_head (head_reg (polls i)) < ring_size ring
        \<and> (\<forall>b. pending (ring_size ring) (read_head (idle_head_reg (polls i))) tail b
              \<longrightarrow> pending (ring_size ring) (read_head (head_reg (polls i))) tail b)
        \<and> (\<forall>b. pending (ring_size ring) (read_head (head_reg (polls (Suc i)))) tail b
              \<longrightarrow> pending (ring_size ring) (read_head (idle_head_reg (polls i))) tail b))"

lemma consumes_later:
  assumes "gpu_consumes polls ring tail t" and "t \<le> i" and "i < j"
    and "pending (ring_size ring) (read_head (head_reg (polls j))) tail b"
  shows "pending (ring_size ring) (read_head (idle_head_reg (polls i))) tail b"
proof -
  from \<open>i < j\<close> obtain d where "j = Suc (i + d)" by (auto dest: less_imp_Suc_add)
  then show ?thesis using assms(2,4)
  proof (induction d arbitrary: j)
    case 0
    then show ?case using assms(1) unfolding gpu_consumes_def by auto
  next
    case (Suc d)
    let ?k = "Suc (i + d)"
    have "pending (ring_size ring) (read_head (idle_head_reg (polls ?k))) tail b"
      using assms(1) Suc.prems unfolding gpu_consumes_def by auto
    then have "pending (ring_size ring) (read_head (head_reg (polls ?k))) tail b"
      using assms(1) Suc.prems(2) unfolding gpu_consumes_def by auto
    then show ?case using Suc.IH [of ?k] Suc.prems(2) by simp
  qed
qed

lemma idle_nothing_pending:
  assumes "gpu_consumes polls ring tail t" and "t \<le> i" and "ring_is_idle ring (polls i)"
  shows "\<not> pending (ring_size ring) (read_head (idle_head_reg (polls i))) tail b"
  using assms by (auto simp: gpu_consumes_def ring_is_idle_def pending_def)

text \<open>When a turn of the second loop stops, what is still pending is not in the reserved space.\<close>

lemma outside_clear:
  assumes "gpu_consumes polls ring tail t" and "t \<le> j"
    and "head_outside (ring\<lparr>pos := p\<rparr>) k (polls j)" and "p + k \<le> ring_size ring" and "p + k < 2 ^ 32"
    and "pending (ring_size ring) (read_head (idle_head_reg (polls j))) tail b"
    and "p = tail \<or> p = 0 \<and> read_head (head_reg (polls j)) \<le> tail"
  shows "b < p \<or> p + k \<le> b"
proof -
  have head: "pending (ring_size ring) (read_head (head_reg (polls j))) tail b"
    using assms(1,2,6) unfolding gpu_consumes_def by auto
  have "\<not> ring_is_idle ring (polls j)"
    using idle_nothing_pending [OF assms(1,2)] assms(6) by blast
  then have "read_head (head_reg (polls j)) < p \<or> p + k \<le> read_head (head_reg (polls j))"
    using assms(3,4) u32_id [OF assms(5)]
    by (auto simp: head_outside_def ring_is_idle_def read_tail_def Let_def)
  with head assms(7) show ?thesis
    by (auto simp: pending_def split: if_splits)
qed

lemma begin_reserves_free_space:
  assumes "ring_wf ring" and "n + 2 < 2 ^ 30" and "gpu_consumes polls ring (pos ring) t"
    and "gpu_ring_begin polls ring n t = Some (B_OK, ring', t')"
    and pend: "pending (ring_size ring) (read_head (idle_head_reg (polls (t' - 1)))) (pos ring) b"
  shows "(b < start_of ring n \<or> start_of ring n + 4 * (n + 2) \<le> b) \<and> (wraps ring n \<longrightarrow> b < pos ring)"
proof -
  have fit: "fits_dwords ring n" by (rule begin_ok(1) [OF assms(1,2,4)])
  have room: "start_of ring n + 4 * (n + 2) \<le> ring_size ring" "start_of ring n + 4 * (n + 2) < 2 ^ 32"
    using start_bound(1) [OF assms(1) fit] ring_wfD(3) [OF assms(1)] by simp_all
  show ?thesis
    using assms(1,2,4)
  proof (cases rule: begin_cases)
    case (wrapped i)
    let ?H = "\<lambda>j. read_head (head_reg (polls j))"
    have early: "pending (ring_size ring) (read_head (idle_head_reg (polls (i - 1)))) (pos ring) x"
      if "pending (ring_size ring) (?H (t' - 1)) (pos ring) x" for x
      using consumes_later [OF assms(3) _ wrapped(10) that] wrapped(9) by simp
    have now: "pending (ring_size ring) (?H (t' - 1)) (pos ring) b"
      using assms(3) pend wrapped(9,10) unfolding gpu_consumes_def by (metis Suc_leD le_trans less_imp_le)
    have "\<not> ring_is_idle ring (polls (i - 1))"
      using idle_nothing_pending [OF assms(3)] early [OF now] wrapped(9) by auto
    then have behind: "?H (i - 1) < pos ring"
      using wrapped(7) by (auto simp: head_passed_wrap_def)
    have before: "x < pos ring" if "pending (ring_size ring) (?H (t' - 1)) (pos ring) x" for x
    proof -
      have "pending (ring_size ring) (?H (i - 1)) (pos ring) x"
        using assms(3) early [OF that] wrapped(9) unfolding gpu_consumes_def by auto
      with behind show ?thesis by (simp add: pending_def)
    qed
    have "?H (t' - 1) < ring_size ring"
      using assms(3) wrapped(9,10) unfolding gpu_consumes_def by auto
    then have "?H (t' - 1) \<le> pos ring"
      using before [of "?H (t' - 1)"] by (cases "?H (t' - 1) \<le> pos ring") (auto simp: pending_def)
    moreover have "start_of ring n = 0" using wrapped(2) by (simp add: start_of_def)
    ultimately show ?thesis
      using outside_clear [OF assms(3) _ wrapped(8) _ _ pend] room before [OF now] wrapped(9,10) by auto
  next
    case straight
    then have "start_of ring n = pos ring" by (simp add: start_of_def)
    with straight show ?thesis
      using outside_clear [OF assms(3), of "t' - 1" "pos ring" "4 * (n + 2)" b] room pend by auto
  qed simp_all
qed


text \<open>C10: What the command streamer has still to execute when \<open>gpu_ring_submit\<close> writes is not
  touched: with TAIL at the write position and a HEAD that only moves over pending bytes, every dword
  pending at the last poll keeps its value.\<close>

theorem gpu_ring_submit_keeps_pending:
  assumes "ring_wf ring" and "length ds + 2 < 2 ^ 30" and "gpu_consumes polls ring (pos ring) t"
    and "gpu_ring_submit polls kick ring ds t = Some (st, ring', t')" and "st = B_OK \<or> st = B_ERROR"
    and "pending (ring_size ring) (read_head (idle_head_reg (polls (t' - 1)))) (pos ring) (4 * i)"
    and "i < ring_size ring div 4"
  shows "base ring' ! i = base ring ! i"
  using assms(4)
proof (cases rule: submit_cases)
  case failed
  with assms(5) begin_fail_status [OF assms(1,2)] show ?thesis by blast
next
  case (begun ring1 tail)
  let ?n = "length ds" and ?s = "start_of ring (length ds)"
  have sub: "base ring' = overwrite (?s div 4) (noop_padded ?s ds) (memory_of ring ?n)" "fits_dwords ring ?n"
    using submitted_sound [OF assms(1,2,4,5)] by (simp_all add: Let_def)
  have free: "4 * i < ?s \<or> ?s + 4 * (?n + 2) \<le> 4 * i" "wraps ring ?n \<longrightarrow> 4 * i < pos ring"
    using begin_reserves_free_space [OF assms(1-3) begun(1) assms(6)] by auto
  obtain q where q: "?s = 4 * q" using start_bound(2) [OF assms(1) sub(2)] by (elim dvdE)
  have mem: "length (memory_of ring ?n) = ring_size ring div 4" by (rule ring_wf_memory [OF assms(1)])
  have room: "q + ?n + 2 \<le> ring_size ring div 4"
    using start_bound(1) [OF assms(1) sub(2)] q ring_wf_dwords(1) [OF assms(1)] by (auto elim!: dvdE)
  have "base ring' ! i = memory_of ring ?n ! i"
    unfolding sub(1) using free(1) q room mem assms(7) length_noop_padded [of ?s ds]
    by (intro nth_overwrite_outside) auto
  also have "\<dots> = base ring ! i"
    using free(2) ring_wfD(5,6,7) [OF assms(1)] assms(7)
    by (auto simp: memory_of_def nth_append elim!: dvdE)
  finally show ?thesis .
qed

text \<open>C12: The padding of a wrap comes before the wait: however \<open>gpu_ring_begin\<close> ends, a dword at or after
  the write position that the command streamer had still to execute is a NOOP afterwards.\<close>

theorem gpu_ring_wrap_loses_pending:
  assumes "ring_wf ring" and "n + 2 < 2 ^ 30" and "fits_dwords ring n" and "wraps ring n"
    and "gpu_ring_begin polls ring n t = Some (st, ring', t')"
    and "pending (ring_size ring) head (pos ring) (4 * i)" and "pos ring \<le> 4 * i"
  shows "base ring' ! i = 0"
proof -
  have "4 * i < ring_size ring"
    using assms(6,7) by (simp add: pending_def split: if_splits)
  then have i: "pos ring div 4 \<le> i" "i < ring_size ring div 4"
    using assms(7) ring_wf_dwords(1) [OF assms(1)] by (auto elim!: dvdE)
  then have "memory_of ring n ! i = 0"
    using assms(4) ring_wfD(5) [OF assms(1)] ring_wf_dwords(2) [OF assms(1)]
    by (simp add: memory_of_def nth_append)
  moreover from assms(1,2,5) have "base ring' = memory_of ring n"
    by (cases rule: begin_cases) (use assms(3,4) in auto)
  ultimately show ?thesis by simp
qed


section \<open>Examples\<close>

text \<open>A ring of 128 bytes, an idle GPU with a clock of one microsecond a turn, and a GPU that stands
  before the write position.\<close>

definition example_ring :: "nat \<Rightarrow> gpu_ring" where
  "example_ring p = \<lparr>base = replicate 32 7, ring_size = 128, pos = p, emit_start = 0, emit_count = 0, emit_reserved = 0, reg_base = 0x2030\<rparr>"

definition example_polls :: "nat \<Rightarrow> nat \<Rightarrow> polls" where
  "example_polls head tail i = \<lparr>system_time = int i, head_reg = head, idle_head_reg = head, idle_tail_reg = tail\<rparr>"

lemma example_ring_wf: "p < 128 \<Longrightarrow> 4 dvd p \<Longrightarrow> ring_wf (example_ring p)"
proof -
  have "(128::nat) = 2 ^ 7" by simp
  then have "(128::nat) \<in> (\<lambda>k. 2 ^ k) ` {7..21}" by (intro image_eqI [of _ _ 7]) auto
  then show "p < 128 \<Longrightarrow> 4 dvd p \<Longrightarrow> ring_wf (example_ring p)" by (simp add: ring_wf_def example_ring_def)
qed

lemma ring_wait_now: "system_time (polls t) < deadline \<Longrightarrow> ok (polls t) \<Longrightarrow> ring_wait polls ok deadline t = Some (True, Suc t)"
  by (simp add: ring_wait_def while_option_stop_now)

lemma example_clock: "clock_runs (example_polls head tail)"
  unfolding clock_runs_def example_polls_def
proof (intro allI)
  fix t :: nat and d :: int
  show "\<exists>m\<ge>t. d \<le> system_time \<lparr>system_time = int m, head_reg = head, idle_head_reg = head, idle_tail_reg = tail\<rparr>"
    by (rule exI [of _ "max t (nat d)"]) auto
qed

lemmas example_simps = example_ring_def example_polls_def read_head_def read_tail_def
  INTEL_RING_BUFFER_HEAD_MASK_def minus32_def u32_def

lemma example_begin:
  "gpu_ring_begin (example_polls 48 48) (example_ring 48) 3 0 = Some (B_OK, begun (example_ring 48) 3, 4)"
proof -
  let ?r = "example_ring 48"
  have wf: "ring_wf ?r" by (rule example_ring_wf) auto
  have fit: "fits_dwords ?r 3" "wraps ?r 3" by (simp_all add: fits_dwords_def wraps_def example_ring_def)
  have idle: "ring_is_idle r (example_polls 48 48 i)" if "ring_size r = 128" for r i
    using that by (simp add: ring_is_idle_def example_simps)
  have w: "ring_wait (example_polls 48 48) (head_passed_wrap ?r 48) 500000 1 = Some (True, 2)"
    using ring_wait_now [of "example_polls 48 48" 1 500000 "head_passed_wrap ?r 48"] idle [of ?r]
    by (simp add: head_passed_wrap_def example_ring_def numeral_2_eq_2) (simp add: example_polls_def)
  have c: "ring_wait (example_polls 48 48) (head_outside r 20) 500002 3 = Some (True, 4)" if "ring_size r = 128" for r
    using ring_wait_now [of "example_polls 48 48" 3 500002 "head_outside r 20"] idle [of r] that
    by (simp add: head_outside_def) (simp add: example_polls_def)
  have t: "system_time (example_polls 48 48 i) = int i" for i by (simp add: example_polls_def)
  have c': "ring_clear (example_polls 48 48) r 3 20 2
      = Some (B_OK, r\<lparr>emit_start := pos r, emit_count := 0, emit_reserved := 3\<rparr>, 4)" if "ring_size r = 128" for r
    using c [OF that] by (simp add: ring_clear_eq t)
  have p: "pos ?r = 48" "ring_size ?r = 128" by (simp_all add: example_ring_def)
  show ?thesis
    using w fit by (simp add: begin_unfold [OF wf _ fit(1)] ring_wrap_eq [OF wf fit(2)] t p c' begun_def start_of_def)
qed

definition example_command :: "nat list" where
  "example_command = [1, 2, 3]"

lemma length_example_command [simp]: "length example_command = 3"
  by (simp add: example_command_def)

lemma example_submit:
  "\<exists>ring'. gpu_ring_submit (example_polls 48 48) (\<lambda>_. True) (example_ring 48) example_command 0 = Some (B_OK, ring', 4)"
  by (simp add: gpu_ring_submit_def example_begin gpu_ring_advance_def Let_def)

theorem gpu_ring_submit_returns_witness:
  "\<exists>st ring' t'. gpu_ring_submit (example_polls 0 48) (\<lambda>_. False) (example_ring 48) example_command 0 = Some (st, ring', t')
     \<and> ring_wf ring' \<and> st \<noteq> B_NO_MEMORY"
proof -
  have "fits_dwords (example_ring 48) 3" by (simp add: fits_dwords_def example_ring_def)
  with gpu_ring_submit_returns [of "example_ring 48" example_command "example_polls 0 48" "\<lambda>_. False" 0]
  show ?thesis using example_ring_wf [of 48] example_clock by auto
qed

lemma example_consumes: "gpu_consumes (example_polls 24 40) (example_ring 40) 40 t"
  by (simp add: gpu_consumes_def example_simps)

lemma example_straight:
  "\<exists>ring'. gpu_ring_submit (example_polls 24 40) (\<lambda>_. True) (example_ring 40) example_command 0 = Some (B_OK, ring', 2)"
proof -
  let ?r = "example_ring 40"
  have wf: "ring_wf ?r" by (rule example_ring_wf) auto
  have fit: "fits_dwords ?r 3" "\<not> wraps ?r 3" by (simp_all add: fits_dwords_def wraps_def example_ring_def)
  have "head_outside ?r 20 (example_polls 24 40 1)"
    by (simp add: head_outside_def example_simps)
  then have "ring_wait (example_polls 24 40) (head_outside ?r 20) 500000 1 = Some (True, Suc 1)"
    by (intro ring_wait_now) (simp_all add: example_polls_def)
  then have "ring_wait (example_polls 24 40) (head_outside ?r 20) 500000 1 = Some (True, 2)"
    by (simp flip: numeral_2_eq_2)
  then show ?thesis
    by (simp add: gpu_ring_submit_def begin_unfold [OF wf _ fit(1)] fit ring_clear_eq gpu_ring_advance_def Let_def)
      (simp add: example_polls_def gpu_ring_advance_def Let_def)
qed

theorem gpu_ring_submit_keeps_pending_witness:
  "\<exists>ring'. gpu_ring_submit (example_polls 24 40) (\<lambda>_. True) (example_ring 40) example_command 0 = Some (B_OK, ring', 2)
     \<and> base ring' ! 7 = 7"
proof -
  obtain ring' where sub: "gpu_ring_submit (example_polls 24 40) (\<lambda>_. True) (example_ring 40) example_command 0 = Some (B_OK, ring', 2)"
    using example_straight by blast
  have pos: "pos (example_ring 40) = 40" by (simp add: example_ring_def)
  have "base ring' ! 7 = base (example_ring 40) ! 7"
    by (rule gpu_ring_submit_keeps_pending [OF _ _ _ sub])
      (simp_all add: example_ring_wf pos example_consumes, simp_all add: example_simps pending_def)
  with sub show ?thesis by (simp add: example_ring_def)
qed

theorem gpu_ring_wrap_loses_pending_witness:
  "pending 128 100 48 (4 * 25) \<and> (\<exists>st ring' t'. gpu_ring_begin (example_polls 48 48) (example_ring 48) 3 0 = Some (st, ring', t')
     \<and> base (example_ring 48) ! 25 = 7 \<and> base ring' ! 25 = 0)"
proof -
  have r: "ring_size (example_ring 48) = 128" "pos (example_ring 48) = 48" by (simp_all add: example_ring_def)
  have "base (begun (example_ring 48) 3) ! 25 = 0"
    by (rule gpu_ring_wrap_loses_pending [OF _ _ _ _ example_begin, where head = 100])
      (simp_all add: example_ring_wf fits_dwords_def wraps_def pending_def r)
  then show ?thesis using example_begin by (simp add: pending_def) (simp add: example_ring_def)
qed

end
