(* ===== verification/Engine_Queue.thy ===== *)
theory Engine_Queue
  imports Gpu_Ring
begin

text \<open>
  The command queue of the legacy 2D path, class \<open>QueueCommands\<close> of
  \<open>src/intel_extreme/accelerant/engine.cpp\<close>: space is reserved against the HEAD register, commands are
  written into the ring, and the destructor stores a sequence number every eighth time, aligns the
  position and writes TAIL. The ring is the \<open>ring_buffer\<close> of the shared info; the clock and the HEAD
  register are the polls of \<open>Gpu_Ring\<close>; locks have no state.
\<close>

section \<open>Constants\<close>

definition COMMAND_NOOP :: nat where "COMMAND_NOOP = 0x00"
definition COMMAND_FLUSH :: nat where "COMMAND_FLUSH = 0x04 * 2 ^ 23"
definition COMMAND_WAIT_FOR_EVENT :: nat where "COMMAND_WAIT_FOR_EVENT = 0x03 * 2 ^ 23"
definition COMMAND_OVERLAY_FLIP :: nat where "COMMAND_OVERLAY_FLIP = 0x11 * 2 ^ 23"
definition OVERLAY_UPDATE_COEFFICIENTS :: nat where "OVERLAY_UPDATE_COEFFICIENTS = 0x1"
definition MI_STORE_DWORD_INDEX :: nat where "MI_STORE_DWORD_INDEX = 0x21 * 2 ^ 23 + 1"
definition HWS_SYNC_SEQUENCE_INDEX :: nat where "HWS_SYNC_SEQUENCE_INDEX = 0"
definition INTEL_RING_BUFFER_SIZE_MASK :: nat where "INTEL_RING_BUFFER_SIZE_MASK = 0x001ff000"
definition INTEL_RING_BUFFER_ENABLED :: nat where "INTEL_RING_BUFFER_ENABLED = 1"
definition RING_BUFFER_TAIL :: nat where "RING_BUFFER_TAIL = 0x0"
definition RING_BUFFER_START :: nat where "RING_BUFFER_START = 0x8"
definition RING_BUFFER_CONTROL :: nat where "RING_BUFFER_CONTROL = 0xc"

section \<open>Operations\<close>

definition queue_write :: "nat \<Rightarrow> ring_buffer \<Rightarrow> ring_buffer" where
  "queue_write d r =
     r\<lparr>hw_base := (hw_base r)[hw_position r div 4 := d],
       hw_position := (hw_position r + 4) AND minus32 (hw_size r) 1\<rparr>"

text \<open>The space up to a value of the HEAD register.\<close>

definition space_to_head :: "ring_buffer \<Rightarrow> nat \<Rightarrow> nat" where
  "space_to_head r h =
     (let head = read_head h;
          head = (if head \<le> hw_position r then u32 (head + hw_size r) else head)
      in minus32 head (hw_position r))"

text \<open>The waiting loop of \<open>MakeSpace\<close> over the space, whether it gave up, and the next poll.\<close>

definition wait_for_space :: "polls \<Rightarrow> ring_buffer \<Rightarrow> nat \<Rightarrow> int \<Rightarrow> nat \<Rightarrow> (nat \<times> bool \<times> nat) option" where
  "wait_for_space polls r bytes start t =
     while_option (\<lambda>(space, stalled, t). \<not> stalled \<and> space < bytes)
       (\<lambda>(space, stalled, t).
          let space = space_to_head r (head_reg (polls t))
          in (space, space < bytes \<and> start + 1000000 < system_time (polls t), Suc t))
       (hw_space_left r, False, t)"

definition queue_make_space :: "polls \<Rightarrow> nat \<Rightarrow> ring_buffer \<Rightarrow> nat \<Rightarrow> (ring_buffer \<times> nat) option" where
  "queue_make_space polls n r t =
     (let bytes = u32 (n * 4); start = system_time (polls t)
      in do {
        (space, stalled, t) \<leftarrow> wait_for_space polls r bytes start (Suc t);
        Some (r\<lparr>hw_space_left := minus32 space bytes\<rparr>, t)
      })"

definition queue_put :: "polls \<Rightarrow> nat list \<Rightarrow> ring_buffer \<Rightarrow> nat \<Rightarrow> (ring_buffer \<times> nat) option" where
  "queue_put polls data r t =
     do {
       (r, t) \<leftarrow> queue_make_space polls (u32 (length data)) r t;
       let bytes_left = minus32 (hw_size r) (hw_position r);
       Some (if 4 * length data \<le> bytes_left
             then r\<lparr>hw_base := overwrite (hw_position r div 4) data (hw_base r),
                    hw_position := (hw_position r + 4 * length data) AND minus32 (hw_size r) 1\<rparr>
             else fold queue_write data r, t)
     }"

definition queue_put_flush :: "polls \<Rightarrow> ring_buffer \<Rightarrow> nat \<Rightarrow> (ring_buffer \<times> nat) option" where
  "queue_put_flush polls r t =
     do { (r, t) \<leftarrow> queue_make_space polls 2 r t; Some (fold queue_write [COMMAND_FLUSH, COMMAND_NOOP] r, t) }"

definition queue_put_wait_for :: "polls \<Rightarrow> nat \<Rightarrow> ring_buffer \<Rightarrow> nat \<Rightarrow> (ring_buffer \<times> nat) option" where
  "queue_put_wait_for polls event r t =
     do {
       (r, t) \<leftarrow> queue_make_space polls 2 r t;
       Some (fold queue_write [COMMAND_WAIT_FOR_EVENT OR event, COMMAND_NOOP] r, t)
     }"

text \<open>\<open>registers\<close> is the physical address or the offset of the overlay registers, as the device wants.\<close>

definition queue_put_overlay_flip ::
  "polls \<Rightarrow> nat \<Rightarrow> nat \<Rightarrow> bool \<Rightarrow> ring_buffer \<Rightarrow> nat \<Rightarrow> (ring_buffer \<times> nat) option" where
  "queue_put_overlay_flip polls registers code update_coefficients r t =
     do {
       (r, t) \<leftarrow> queue_make_space polls 2 r t;
       Some (fold queue_write [COMMAND_OVERLAY_FLIP OR code,
         registers OR (if update_coefficients then OVERLAY_UPDATE_COEFFICIENTS else 0)] r, t)
     }"

text \<open>The destructor, with the sequence counter as a \<open>uint32\<close>; the last component is the value written
  to TAIL, by the kernel or to the register.\<close>

definition queue_close :: "polls \<Rightarrow> nat \<Rightarrow> ring_buffer \<Rightarrow> nat \<Rightarrow> (nat \<times> ring_buffer \<times> nat \<times> nat) option" where
  "queue_close polls last_seq r t =
     (let seq = u32 (last_seq + 1)
      in do {
        (r, t) \<leftarrow> (if seq AND 0x07 = 0
           then do {
             (r, t) \<leftarrow> queue_make_space polls 4 r t;
             Some (fold queue_write [MI_STORE_DWORD_INDEX, HWS_SYNC_SEQUENCE_INDEX, seq, 0] r, t)
           }
           else Some (r, t));
        let r = (if hw_position r AND 0x07 \<noteq> 0 then queue_write COMMAND_NOOP r else r);
        Some (seq, r, hw_position r, t)
      })"

text \<open>Register writes are pairs of an address and a value.\<close>

definition setup_ring_buffer :: "bool \<Rightarrow> nat \<Rightarrow> ring_buffer \<Rightarrow> ring_buffer \<times> (nat \<times> nat) list" where
  "setup_ring_buffer lock_ok offset r =
     (if \<not> lock_ok then (r\<lparr>hw_size := 0\<rparr>, [])
      else
        let ring = hw_register_base r;
            r = r\<lparr>hw_position := 0, hw_space_left := hw_size r\<rparr>
        in (r, [(ring + RING_BUFFER_TAIL, 0), (ring + RING_BUFFER_START, offset),
                (ring + RING_BUFFER_CONTROL,
                 (minus32 (hw_size r) 4096 AND INTEL_RING_BUFFER_SIZE_MASK) OR INTEL_RING_BUFFER_ENABLED)]))"

definition uninit_ring_buffer :: "ring_buffer \<Rightarrow> (nat \<times> nat) list" where
  "uninit_ring_buffer r = [(hw_register_base r + RING_BUFFER_CONTROL, 0)]"

section \<open>The ring invariant\<close>

text \<open>A ring of \<open>2 ^ k\<close> dwords, from one page to the 2 MB the HEAD mask can express, with the position at
  dword \<open>p\<close>.\<close>

definition queue_at :: "nat \<Rightarrow> nat \<Rightarrow> ring_buffer \<Rightarrow> bool" where
  "queue_at k p r \<longleftrightarrow> 10 \<le> k \<and> k \<le> 19 \<and> hw_size r = 4 * 2 ^ k \<and> length (hw_base r) = 2 ^ k
     \<and> hw_position r = 4 * p \<and> p < 2 ^ k"

lemma queue_atD:
  assumes "queue_at k p r"
  shows "hw_size r = 4 * 2 ^ k" and "length (hw_base r) = 2 ^ k" and "hw_position r = 4 * p" and "p < 2 ^ k"
    and "(2::nat) ^ k \<le> 2 ^ 19" and "(2::nat) ^ 10 \<le> 2 ^ k"
proof -
  have k: "10 \<le> k" "k \<le> 19" using assms by (simp_all add: queue_at_def)
  show "(2::nat) ^ k \<le> 2 ^ 19" by (rule power_increasing) (use k in auto)
  show "(2::nat) ^ 10 \<le> 2 ^ k" by (rule power_increasing) (use k in auto)
qed (use assms in \<open>simp_all add: queue_at_def\<close>)

lemma queue_mask:
  assumes "queue_at k p r"
  shows "(4 * x) AND minus32 (hw_size r) 1 = 4 * (x mod 2 ^ k)"
    and "minus32 (hw_size r) (hw_position r) = 4 * (2 ^ k - p)"
proof -
  note d = queue_atD [OF assms]
  have "minus32 (hw_size r) 1 = 4 * 2 ^ k - 1" unfolding d(1) using d(5,6) by (intro minus32_diff) simp_all
  also have "\<dots> = 2 ^ (k + 2) - 1" by simp
  finally have m: "minus32 (hw_size r) 1 = 2 ^ (k + 2) - 1" .
  show "(4 * x) AND minus32 (hw_size r) 1 = 4 * (x mod 2 ^ k)"
  proof -
    have "(2::nat) ^ (k + 2) = 4 * 2 ^ k" by simp
    then show ?thesis unfolding m and_ones by (simp only: mult_mod_right)
  qed
  show "minus32 (hw_size r) (hw_position r) = 4 * (2 ^ k - p)"
  proof -
    have "4 * p \<le> 4 * 2 ^ k" "4 * 2 ^ k < (2::nat) ^ 32" using d(4,5) by simp_all
    then show ?thesis unfolding d(1,3) by (simp only: minus32_diff diff_mult_distrib2)
  qed
qed

lemma queue_write_at:
  assumes "queue_at k p r"
  shows "queue_write d r = r\<lparr>hw_base := (hw_base r)[p := d], hw_position := 4 * ((p + 1) mod 2 ^ k)\<rparr>"
    and "queue_at k ((p + 1) mod 2 ^ k) (queue_write d r)"
proof -
  have "(hw_position r + 4) AND minus32 (hw_size r) 1 = 4 * ((p + 1) mod 2 ^ k)"
    using queue_mask(1) [OF assms, of "p + 1"] queue_atD(3) [OF assms] by (simp add: add.commute)
  then show eq: "queue_write d r = r\<lparr>hw_base := (hw_base r)[p := d], hw_position := 4 * ((p + 1) mod 2 ^ k)\<rparr>"
    using queue_atD(3) [OF assms] by (simp add: queue_write_def)
  show "queue_at k ((p + 1) mod 2 ^ k) (queue_write d r)"
    unfolding eq using assms by (simp add: queue_at_def)
qed

text \<open>The distance of a dword of the ring from the position.\<close>

definition ahead :: "nat \<Rightarrow> nat \<Rightarrow> nat \<Rightarrow> nat" where
  "ahead k p j = (if p \<le> j then j - p else j + 2 ^ k - p)"

lemma ahead_eq:
  assumes "p < 2 ^ k" and "j < 2 ^ k" and "i < 2 ^ k"
  shows "ahead k p j = i \<longleftrightarrow> j = (p + i) mod 2 ^ k"
  using assms by (auto simp: ahead_def mod_if)

text \<open>A sequence of writes leaves its dwords from the position on, cyclically, and nothing else changes.\<close>

lemma queue_writes:
  assumes "queue_at k p r" and "length ds \<le> 2 ^ k"
  shows "queue_at k ((p + length ds) mod 2 ^ k) (fold queue_write ds r)
    \<and> hw_base (fold queue_write ds r) =
        map (\<lambda>j. if ahead k p j < length ds then ds ! ahead k p j else hw_base r ! j) [0..<2 ^ k]
    \<and> hw_space_left (fold queue_write ds r) = hw_space_left r
    \<and> hw_register_base (fold queue_write ds r) = hw_register_base r"
  using assms(2)
proof (induction ds rule: rev_induct)
  case Nil
  show ?case using assms(1) queue_atD(2,4) [OF assms(1)] map_nth [of "hw_base r"] by simp
next
  case (snoc d ds)
  let ?q = "(p + length ds) mod 2 ^ k" and ?r = "fold queue_write ds r"
  have ih: "queue_at k ?q ?r"
    "hw_base ?r = map (\<lambda>j. if ahead k p j < length ds then ds ! ahead k p j else hw_base r ! j) [0..<2 ^ k]"
    "hw_space_left ?r = hw_space_left r" "hw_register_base ?r = hw_register_base r"
    using snoc by simp_all
  note w = queue_write_at [OF ih(1), of d]
  have p: "p < 2 ^ k" by (rule queue_atD [OF assms(1)])
  have *: "ahead k p j = length ds \<longleftrightarrow> j = ?q" if "j < 2 ^ k" for j
    using ahead_eq [OF p that] snoc.prems by simp
  then have at: "ahead k p ?q = length ds" by simp
  with * have "(hw_base ?r)[?q := d] =
      map (\<lambda>j. if ahead k p j < length (ds @ [d]) then (ds @ [d]) ! ahead k p j else hw_base r ! j) [0..<2 ^ k]"
    unfolding ih(2) by (intro nth_equalityI) (auto simp: at nth_list_update nth_append less_Suc_eq)
  moreover have "(?q + 1) mod 2 ^ k = (p + length (ds @ [d])) mod 2 ^ k" by (simp add: mod_simps)
  ultimately show ?case using w(2) ih(3,4) by (simp add: w(1))
qed

section \<open>Reserving space\<close>

text \<open>The dwords between the position \<open>p\<close> and the head \<open>h\<close>, all of the ring when they are equal, and the
  dwords that wait for execution.\<close>

definition room_to :: "nat \<Rightarrow> nat \<Rightarrow> nat \<Rightarrow> nat" where
  "room_to k p h = (if h \<le> p then h + 2 ^ k - p else h - p)"

definition pending_dword :: "nat \<Rightarrow> nat \<Rightarrow> nat \<Rightarrow> nat \<Rightarrow> bool" where
  "pending_dword k p h j \<longleftrightarrow> j < 2 ^ k \<and> room_to k p h \<le> ahead k p j"

text \<open>The head is at dword \<open>h\<close> of the ring.\<close>

definition head_at :: "nat \<Rightarrow> nat \<Rightarrow> nat \<Rightarrow> bool" where
  "head_at k reg h \<longleftrightarrow> read_head reg = 4 * h \<and> h < 2 ^ k"

lemma space_to_head_eq:
  assumes "queue_at k p r" and "head_at k reg h"
  shows "space_to_head r reg = 4 * room_to k p h"
proof -
  note d = queue_atD [OF assms(1)]
  have h: "read_head reg = 4 * h" "h < 2 ^ k" using assms(2) by (simp_all add: head_at_def)
  have u: "u32 (4 * h + 4 * 2 ^ k) = 4 * h + 4 * 2 ^ k" using h(2) d(5) by simp
  show ?thesis
  proof (cases "h \<le> p")
    case True
    have "space_to_head r reg = minus32 (4 * h + 4 * 2 ^ k) (4 * p)"
      using True by (simp add: space_to_head_def h(1) d(1,3) u)
    also have "\<dots> = 4 * h + 4 * 2 ^ k - 4 * p" by (rule minus32_diff) (use d(4,5) h(2) in simp_all)
    finally show ?thesis using True d(4) by (simp add: room_to_def diff_mult_distrib2)
  next
    case False
    have "space_to_head r reg = minus32 (4 * h) (4 * p)"
      using False by (simp add: space_to_head_def h(1) d(1,3))
    also have "\<dots> = 4 * h - 4 * p" by (rule minus32_diff) (use d(5) h(2) False in simp_all)
    finally show ?thesis using False by (simp add: room_to_def)
  qed
qed

lemma room_bounds: "p < 2 ^ k \<Longrightarrow> h < 2 ^ k \<Longrightarrow> 0 < room_to k p h \<and> room_to k p h \<le> 2 ^ k"
  by (auto simp: room_to_def)

text \<open>Writing into the room moves the position towards the head; filling it makes the ring look empty.\<close>

lemma room_after:
  assumes "p < 2 ^ k" and "h < 2 ^ k" and "n \<le> room_to k p h"
  shows "room_to k ((p + n) mod 2 ^ k) h = (if n < room_to k p h then room_to k p h - n else 2 ^ k)"
proof -
  define N where "N = (2::nat) ^ k"
  have "(p + n) mod N = (if p + n < N then p + n else p + n - N)"
  proof -
    have "p + n < N + N" using assms room_bounds [OF assms(1,2)] by (simp add: N_def)
    then show ?thesis by (simp add: le_mod_geq)
  qed
  then show ?thesis
    using assms unfolding room_to_def N_def [symmetric] by (auto split: if_splits)
qed

text \<open>What the waiting loop ends with.\<close>

lemma wait_for_space_SomeD:
  assumes "wait_for_space polls r bytes start t = Some (space, stalled, u)"
  shows "t \<le> u" and "u = t \<Longrightarrow> space = hw_space_left r \<and> \<not> stalled"
    and "t < u \<Longrightarrow> space = space_to_head r (head_reg (polls (u - 1)))"
    and "\<not> stalled \<Longrightarrow> bytes \<le> space" and "stalled \<Longrightarrow> space < bytes"
proof -
  define I where "I = (\<lambda>(space, stalled, u). t \<le> u \<and> (u = t \<longrightarrow> space = hw_space_left r \<and> \<not> stalled)
    \<and> (t < u \<longrightarrow> space = space_to_head r (head_reg (polls (u - 1)))) \<and> (stalled \<longrightarrow> space < bytes))"
  have "I (space, stalled, u)"
    by (rule while_option_rule [OF _ assms [unfolded wait_for_space_def], where P = I])
      (auto simp: I_def Let_def)
  moreover have "stalled \<or> bytes \<le> space"
    using while_option_stop [OF assms [unfolded wait_for_space_def]] by auto
  ultimately show "t \<le> u" "u = t \<Longrightarrow> space = hw_space_left r \<and> \<not> stalled"
    "t < u \<Longrightarrow> space = space_to_head r (head_reg (polls (u - 1)))"
    "\<not> stalled \<Longrightarrow> bytes \<le> space" "stalled \<Longrightarrow> space < bytes"
    by (auto simp: I_def)
qed

text \<open>The two ways of \<open>Put\<close> write the same.\<close>

lemma overwrite_as_map:
  assumes "p + length ds \<le> n" and "length b = n"
  shows "overwrite p ds b = map (\<lambda>j. if p \<le> j \<and> j < p + length ds then ds ! (j - p) else b ! j) [0..<n]"
  using assms by (intro nth_equalityI) (auto simp: overwrite_def nth_append)

lemma fast_path_writes:
  assumes "queue_at k p r" and "p + length ds \<le> 2 ^ k"
  shows "r\<lparr>hw_base := overwrite (hw_position r div 4) ds (hw_base r),
           hw_position := (hw_position r + 4 * length ds) AND minus32 (hw_size r) 1\<rparr> = fold queue_write ds r"
proof -
  note d = queue_atD [OF assms(1)]
  have len: "length ds \<le> 2 ^ k" using assms(2) by simp
  note w = queue_writes [OF assms(1) len]
  have "(4 * (p + length ds)) AND minus32 (hw_size r) 1 = 4 * ((p + length ds) mod 2 ^ k)"
    by (rule queue_mask [OF assms(1)])
  moreover have "overwrite p ds (hw_base r) = hw_base (fold queue_write ds r)"
    using w d(2,4) assms(2) len
    by (subst overwrite_as_map [OF assms(2) d(2)]) (auto simp: ahead_def intro!: map_cong)
  ultimately show ?thesis
    using w d(1,3) queue_atD(1,3) [of k "(p + length ds) mod 2 ^ k" "fold queue_write ds r"]
    by (intro ring_buffer.equality) (simp_all add: distrib_left)
qed

section \<open>Properties\<close>

text \<open>\<open>Put\<close> reserves the space and then has the effect of writing the command dword by dword, also
  when it takes the copying path.\<close>

theorem queue_put_writes:
  assumes "queue_at k p r" and "length data \<le> 2 ^ k"
  shows "queue_put polls data r t =
    map_option (\<lambda>(r, t). (fold queue_write data r, t)) (queue_make_space polls (length data) r t)"
proof (cases "queue_make_space polls (length data) r t")
  case None
  then show ?thesis
    using assms(2) queue_atD(5) [OF assms(1)] by (simp add: queue_put_def)
next
  case (Some rt)
  obtain r1 t1 where rt: "rt = (r1, t1)" by fastforce
  have "queue_at k p r1"
    using Some assms(1) unfolding rt
    by (auto simp: queue_make_space_def Let_def queue_at_def bind_eq_Some_conv)
  note m = queue_mask(2) [OF this] fast_path_writes [OF this, of data]
  have "p < 2 ^ k" by (rule queue_atD [OF assms(1)])
  then have "4 * length data \<le> minus32 (hw_size r1) (hw_position r1) \<longleftrightarrow> p + length data \<le> 2 ^ k"
    unfolding m(1) by auto
  then show ?thesis
    using Some assms(2) queue_atD(5) [OF assms(1)] m(2) unfolding rt
    by (simp add: queue_put_def del: One_nat_def)
qed

text \<open>A reservation that does not give up ends with at least the space asked for, against the last head
  it read, or the one the space was counted against before.\<close>

definition head_seen :: "polls \<Rightarrow> nat \<Rightarrow> nat \<Rightarrow> nat \<Rightarrow> nat" where
  "head_seen polls h t u = (if u = t then h else read_head (head_reg (polls (u - 1))) div 4)"

lemma make_space_room:
  assumes "queue_at k p r" and "hw_space_left r \<le> 4 * room_to k p h" and "h < 2 ^ k"
    and "\<And>u. \<exists>x. head_at k (head_reg (polls u)) x" and "n \<le> 2 ^ k"
    and "wait_for_space polls r (4 * n) (system_time (polls t)) (Suc t) = Some (space, False, u)"
    and "g = head_seen polls h (Suc t) u"
  shows "queue_make_space polls n r t = Some (r\<lparr>hw_space_left := space - 4 * n\<rparr>, u)"
    and "4 * n \<le> space" and "space \<le> 4 * room_to k p g" and "g < 2 ^ k"
proof -
  note w = wait_for_space_SomeD [OF assms(6)]
  obtain x where x: "head_at k (head_reg (polls (u - 1))) x" using assms(4) by blast
  show g: "g < 2 ^ k" using x assms(3) by (auto simp: assms(7) head_seen_def head_at_def)
  show le: "4 * n \<le> space" using w(4) by simp
  show sp: "space \<le> 4 * room_to k p g"
  proof (cases "u = Suc t")
    case True
    then show ?thesis using w(2) assms(2) by (simp add: assms(7) head_seen_def)
  next
    case False
    then have "space = 4 * room_to k p x" using w(1,3) space_to_head_eq [OF assms(1) x] by simp
    moreover have "g = x" using x False by (simp add: assms(7) head_seen_def head_at_def)
    ultimately show ?thesis by simp
  qed
  have "room_to k p g \<le> 2 ^ k" using room_bounds [OF queue_atD(4) [OF assms(1)] g] by simp
  then have small: "space < 2 ^ 32" using sp queue_atD(5) [OF assms(1)] by simp
  have "u32 (n * 4) = 4 * n" using assms(5) queue_atD(5) [OF assms(1)] by simp
  then show "queue_make_space polls n r t = Some (r\<lparr>hw_space_left := space - 4 * n\<rparr>, u)"
    using assms(6) minus32_diff [OF le small] by (simp add: queue_make_space_def Let_def)
qed

text \<open>C17: A \<open>Put\<close> whose wait does not give up writes its command from the position on and leaves every
  dword alone that the command streamer has still to execute, for the head last read (or the one the
  space was counted against, when no read was needed); the space left stays below the free space.\<close>

theorem queue_put_keeps_pending:
  assumes "queue_at k p r" and "hw_space_left r \<le> 4 * room_to k p h" and "h < 2 ^ k"
    and "\<And>u. \<exists>x. head_at k (head_reg (polls u)) x" and "length data \<le> 2 ^ k"
    and "wait_for_space polls r (4 * length data) (system_time (polls t)) (Suc t) = Some (space, False, u)"
  shows "\<exists>r' g. queue_put polls data r t = Some (r', u) \<and> g = head_seen polls h (Suc t) u
    \<and> queue_at k ((p + length data) mod 2 ^ k) r'
    \<and> (\<forall>i<length data. hw_base r' ! ((p + i) mod 2 ^ k) = data ! i)
    \<and> (\<forall>j. pending_dword k p g j \<longrightarrow> hw_base r' ! j = hw_base r ! j)
    \<and> hw_space_left r' \<le> 4 * room_to k ((p + length data) mod 2 ^ k) g"
proof -
  define g where "g = head_seen polls h (Suc t) u"
  note m = make_space_room [OF assms g_def]
  let ?r = "r\<lparr>hw_space_left := space - 4 * length data\<rparr>"
  let ?r' = "fold queue_write data ?r"
  have at: "queue_at k p ?r" using assms(1) by (simp add: queue_at_def)
  note w = queue_writes [OF at assms(5)]
  have p: "p < 2 ^ k" by (rule queue_atD [OF assms(1)])
  have put: "queue_put polls data r t = Some (?r', u)"
    unfolding queue_put_writes [OF assms(1,5)] m(1) by simp
  have fits: "length data \<le> room_to k p g" using m(2,3) by simp
  have data: "hw_base ?r' ! ((p + i) mod 2 ^ k) = data ! i" if "i < length data" for i
  proof -
    have "ahead k p ((p + i) mod 2 ^ k) = i"
      using ahead_eq [OF p, of "(p + i) mod 2 ^ k" i] that assms(5) by simp
    then show ?thesis using w that by simp
  qed
  have keep: "hw_base ?r' ! j = hw_base r ! j" if "pending_dword k p g j" for j
    using that fits w by (simp add: pending_dword_def)
  have space: "hw_space_left ?r' \<le> 4 * room_to k ((p + length data) mod 2 ^ k) g"
    using w m(2,3) room_bounds [OF p m(4)] unfolding room_after [OF p m(4) fits] by auto
  show ?thesis
    by (intro exI [of _ ?r'] exI [of _ g] conjI allI impI)
      (use put w data keep space in \<open>auto simp: g_def [symmetric]\<close>)
qed

text \<open>The wait ends when the command streamer does not move: the room stays what it is until the deadline.\<close>

lemma stalled_wait_ends:
  assumes "queue_at k p r" and "space < 4 * n" and "room_to k p h < n" and "\<And>u. head_at k (head_reg (polls u)) h"
    and "t \<le> v" and "start + 1000001 \<le> system_time (polls v)"
  shows "\<exists>x. wait_for_space polls (r\<lparr>hw_space_left := space\<rparr>) (4 * n) start t = Some x"
proof -
  let ?space = "4 * room_to k p h"
  let ?b = "\<lambda>(space, stalled, t). \<not> stalled \<and> space < 4 * n"
  let ?c = "\<lambda>(s, stalled, t). let s = space_to_head (r\<lparr>hw_space_left := space\<rparr>) (head_reg (polls t))
          in (s, s < 4 * n \<and> start + 1000000 < system_time (polls t), Suc t)"
  have at: "queue_at k p (r\<lparr>hw_space_left := space\<rparr>)" using assms(1) by (simp add: queue_at_def)
  have step: "?c (sp, st, u) = (?space, start + 1000000 < system_time (polls u), Suc u)" for sp st u
    using assms(3) by (simp add: Let_def space_to_head_eq [OF at assms(4)])
  have "\<exists>x. while_option ?b ?c (sp, False, u) = Some x" if "u \<le> v" "sp < 4 * n" for u sp
    using that
  proof (induction "v - u" arbitrary: u sp)
    case 0
    then have "while_option ?b ?c (sp, False, u) = while_option ?b ?c (?space, True, Suc u)"
      using while_option_turn [of ?b "(sp, False, u)" ?c] step [of sp False u] assms(6) by simp
    also have "\<dots> = Some (?space, True, Suc u)" by (rule while_option_stop_now) simp
    finally show ?case by (rule exI)
  next
    case (Suc m)
    let ?late = "start + 1000000 < system_time (polls u)"
    have turn: "while_option ?b ?c (sp, False, u) = while_option ?b ?c (?space, ?late, Suc u)"
      using while_option_turn [of ?b "(sp, False, u)" ?c] step [of sp False u] Suc.prems by simp
    show ?case
    proof (cases ?late)
      case True
      have "while_option ?b ?c (?space, True, Suc u) = Some (?space, True, Suc u)"
        by (rule while_option_stop_now) simp
      then show ?thesis using True unfolding turn by (simp del: split_paired_Ex)
    next
      case False
      then show ?thesis
        unfolding turn using Suc.hyps(1) [of "Suc u" ?space] Suc.hyps(2) Suc.prems assms(3)
        by (simp del: split_paired_Ex)
    qed
  qed
  then show ?thesis using assms(2,5) unfolding wait_for_space_def by (simp del: split_paired_Ex)
qed

text \<open>C18: when the command streamer does not move, a reservation larger than the room gives up once its
  second has passed, and the subtraction wraps: the space left becomes huge, and the following
  reservations succeed at once although the ring is full.\<close>

theorem queue_stall_wraps_space:
  assumes "queue_at k p r" and "hw_space_left r < 4 * n" and "n \<le> 2 ^ k" and "room_to k p h < n"
    and "\<And>u. head_at k (head_reg (polls u)) h" and "clock_runs polls"
  shows "\<exists>r' u. queue_make_space polls n r t = Some (r', u)
    \<and> hw_space_left r' = 2 ^ 32 - 4 * (n - room_to k p h)
    \<and> (\<forall>m v. m \<le> 2 ^ k \<longrightarrow> (\<exists>r''. queue_make_space polls m r' v = Some (r'', Suc v)))"
proof -
  let ?space = "4 * room_to k p h" and ?start = "system_time (polls t)"
  obtain v where v: "Suc t \<le> v" "?start + 1000001 \<le> system_time (polls v)"
    using assms(6) unfolding clock_runs_def by blast
  obtain x where x: "wait_for_space polls r (4 * n) ?start (Suc t) = Some x"
    using stalled_wait_ends [of k p r "hw_space_left r" n h polls, OF assms(1,2,4,5) v] by auto
  obtain space stalled u where w: "wait_for_space polls r (4 * n) ?start (Suc t) = Some (space, stalled, u)"
    using x by (cases x) simp
  note e = wait_for_space_SomeD [OF w]
  have later: "Suc t < u" using e(1,2,4) assms(2) by (cases "u = Suc t") auto
  then have space: "space = ?space" using e(3) space_to_head_eq [OF assms(1) assms(5)] by simp
  have small: "4 * n < 2 ^ 32" "u32 (n * 4) = 4 * n" using assms(3) queue_atD(5) [OF assms(1)] by simp_all
  have wrap: "minus32 ?space (4 * n) = 2 ^ 32 - 4 * (n - room_to k p h)"
    using assms(4) small(1) by (simp add: minus32_def u32_def)
  let ?r = "r\<lparr>hw_space_left := minus32 ?space (4 * n)\<rparr>"
  have ms: "queue_make_space polls n r t = Some (?r, u)"
    using w space by (simp add: queue_make_space_def small(2))
  have "\<exists>r''. queue_make_space polls m ?r v = Some (r'', Suc v)" if "m \<le> 2 ^ k" for m v
  proof -
    have "u32 (m * 4) \<le> hw_space_left ?r"
      using that assms(3) queue_atD(5) [OF assms(1)] unfolding wrap by simp
    then have "wait_for_space polls ?r (u32 (m * 4)) (system_time (polls v)) (Suc v) = Some (hw_space_left ?r, False, Suc v)"
      unfolding wait_for_space_def by (subst while_option_stop_now) simp_all
    then show ?thesis by (simp add: queue_make_space_def del: ring_buffer.select_convs)
  qed
  then show ?thesis using ms wrap by auto
qed

section \<open>Witnesses\<close>

text \<open>A ring of one page at dword 10 with no space counted, and a head that stays.\<close>

definition example_queue :: ring_buffer where
  "example_queue = \<lparr>hw_base = replicate 1024 0, hw_size = 4096, hw_register_base = 0x02030, hw_position = 40,
     hw_space_left = 0\<rparr>"

lemma example_queue_at: "queue_at 10 10 example_queue" "hw_space_left example_queue = 0"
  by (simp_all add: queue_at_def example_queue_def)

lemma example_head: "head_at 10 (head_reg (example_polls 80 0 u)) 20" "head_at 10 (head_reg (example_polls 48 0 u)) 12"
  by (simp_all add: head_at_def example_simps)

lemma example_wait:
  "wait_for_space (example_polls 80 0) example_queue (4 * length [1, 2, 3 :: nat])
     (system_time (example_polls 80 0 0)) (Suc 0) = Some (40, False, Suc (Suc 0))"
proof -
  have "space_to_head example_queue (head_reg (example_polls 80 0 (Suc 0))) = 40"
    using space_to_head_eq [OF example_queue_at(1) example_head(1)] by (simp add: room_to_def)
  then show ?thesis
    unfolding wait_for_space_def example_queue_at(2)
    by (subst while_option_turn, simp, subst while_option_stop_now) simp_all
qed

lemma queue_put_keeps_pending_witness:
  "\<exists>r'. queue_put (example_polls 80 0) [1, 2, 3] example_queue 0 = Some (r', 2)
     \<and> hw_base r' ! 12 = 3 \<and> hw_base r' ! 30 = 0"
proof -
  have "\<exists>x. head_at 10 (head_reg (example_polls 80 0 u)) x" for u using example_head by blast
  from queue_put_keeps_pending [OF example_queue_at(1) _ _ this _ example_wait, of 20]
  obtain r' g where r': "queue_put (example_polls 80 0) [1, 2, 3] example_queue 0 = Some (r', Suc (Suc 0))"
      "g = head_seen (example_polls 80 0) 20 (Suc 0) (Suc (Suc 0))"
      "\<forall>i<3. hw_base r' ! ((10 + i) mod 2 ^ 10) = [1, 2, 3] ! i"
      "\<forall>j. pending_dword 10 10 g j \<longrightarrow> hw_base r' ! j = hw_base example_queue ! j"
    by (auto simp: example_queue_at(2))
  have g: "g = 20" using r'(2) by (simp add: head_seen_def example_simps)
  have "hw_base r' ! ((10 + 2) mod 2 ^ 10) = [1, 2, 3] ! 2" by (rule r'(3) [rule_format]) simp
  moreover have "hw_base r' ! 30 = hw_base example_queue ! 30"
    using r'(4) unfolding g by (simp add: pending_dword_def room_to_def ahead_def)
  ultimately show ?thesis using r'(1) by (simp add: example_queue_def)
qed

lemma queue_stall_wraps_space_witness:
  "\<exists>r' u. queue_make_space (example_polls 48 0) 6 example_queue 0 = Some (r', u) \<and> hw_space_left r' = 4294967280"
  using queue_stall_wraps_space [of 10 10 example_queue 6 12 "example_polls 48 0" 0]
    example_queue_at example_head(2) example_clock by (auto simp: room_to_def)

end
