(* ===== verification/Gen_Ops.thy ===== *)
theory Gen_Ops
  imports Vaio_Prelude
begin

text \<open>
  The batch writer and the command emitters of the generations 5, 6 and 7:
  \<open>src/intel_extreme/accelerant/gen_ops.h\<close> and \<open>gen5_ops.cpp\<close>, \<open>gen6_ops.cpp\<close>, \<open>gen7_ops.cpp\<close>. The table of
  function pointers is a record of functions. The specification is the command stream: the commands
  that a call stands for, and the way a command streamer cuts a stream of dwords into commands by the
  length in each header.
\<close>

type_synonym dword = "32 word"

section \<open>The batch writer\<close>

definition BATCH_CAPACITY_DW :: nat where
  "BATCH_CAPACITY_DW = 32768"

record batch_writer =
  dwords :: "dword list"
  count :: nat
  overflow :: bool

definition bw_init :: "batch_writer \<Rightarrow> batch_writer" where
  "bw_init w = w\<lparr>count := 0, overflow := False\<rparr>"

definition bw_emit :: "dword \<Rightarrow> batch_writer \<Rightarrow> batch_writer" where
  "bw_emit d w =
     (if BATCH_CAPACITY_DW \<le> count w then w\<lparr>overflow := True\<rparr>
      else w\<lparr>dwords := (dwords w)[count w := d], count := count w + 1\<rparr>)"

text \<open>Successive calls of \<open>bw_emit\<close>.\<close>

abbreviation bw_emits :: "dword list \<Rightarrow> batch_writer \<Rightarrow> batch_writer" where
  "bw_emits ds w \<equiv> fold bw_emit ds w"

section \<open>Command words\<close>

definition CMD_GFX :: "dword \<Rightarrow> dword \<Rightarrow> dword \<Rightarrow> dword" where
  "CMD_GFX p op s = push_bit 29 3 OR push_bit 27 p OR push_bit 24 op OR push_bit 16 s"

definition MI_NOOP :: dword where "MI_NOOP = 0"
definition MI_FLUSH :: dword where "MI_FLUSH = push_bit 23 0x04"
definition XY_COMMAND_SOURCE_BLIT :: dword where "XY_COMMAND_SOURCE_BLIT = 0x54c00006"
definition COMMAND_BLIT_RGBA :: dword where "COMMAND_BLIT_RGBA = 0x00300000"
definition COMMAND_MODE_RGB32 :: dword where "COMMAND_MODE_RGB32 = 0x03"
definition INTEL_PRIMARY_RING_BUFFER :: nat where "INTEL_PRIMARY_RING_BUFFER = 0x02030"

definition CMD_URB_FENCE :: dword where "CMD_URB_FENCE = CMD_GFX 0 0 0"
definition CMD_CS_URB_STATE :: dword where "CMD_CS_URB_STATE = CMD_GFX 0 0 1"
definition CMD_CONSTANT_BUFFER :: dword where "CMD_CONSTANT_BUFFER = CMD_GFX 0 0 2"
definition CMD_STATE_BASE_ADDRESS :: dword where "CMD_STATE_BASE_ADDRESS = CMD_GFX 0 1 1"
definition CMD_PIPELINE_SELECT :: dword where "CMD_PIPELINE_SELECT = CMD_GFX 1 1 4"
definition CMD_MEDIA_STATE_POINTERS :: dword where "CMD_MEDIA_STATE_POINTERS = CMD_GFX 2 0 0"
definition CMD_3DSTATE_DEPTH_BUFFER :: dword where "CMD_3DSTATE_DEPTH_BUFFER = CMD_GFX 3 1 5"
definition CMD_3DSTATE_URB :: dword where "CMD_3DSTATE_URB = CMD_GFX 0 0 5"
definition CMD_MEDIA_VFE_STATE :: dword where "CMD_MEDIA_VFE_STATE = CMD_GFX 2 0 0"
definition CMD_MEDIA_CURBE_LOAD :: dword where "CMD_MEDIA_CURBE_LOAD = CMD_GFX 2 0 1"
definition CMD_MEDIA_IDL :: dword where "CMD_MEDIA_IDL = CMD_GFX 2 0 2"
definition CMD_MEDIA_OBJECT :: dword where "CMD_MEDIA_OBJECT = CMD_GFX 2 1 0"
definition CMD_PIPE_CONTROL :: dword where "CMD_PIPE_CONTROL = CMD_GFX 3 0 2"

definition PIPE_CONTROL_CS_STALL :: dword where "PIPE_CONTROL_CS_STALL = push_bit 20 1"
definition PIPELINE_SELECT_MEDIA :: dword where "PIPELINE_SELECT_MEDIA = 1"
definition UF0_VFE_REALLOC :: dword where "UF0_VFE_REALLOC = push_bit 12 1"
definition UF0_CS_REALLOC :: dword where "UF0_CS_REALLOC = push_bit 13 1"
definition BASE_ADDRESS_MODIFY :: dword where "BASE_ADDRESS_MODIFY = 1"
definition I965_DEPTHFORMAT_D32_FLOAT :: dword where "I965_DEPTHFORMAT_D32_FLOAT = 1"
definition I965_SURFACE_NULL :: dword where "I965_SURFACE_NULL = 7"

definition GEN5_CS_URB_SIZE_UNITS :: nat where "GEN5_CS_URB_SIZE_UNITS = 16"
definition GEN5_MAX_MEDIA_THREADS :: nat where "GEN5_MAX_MEDIA_THREADS = 48"
definition GEN6_CS_URB_SIZE_UNITS :: nat where "GEN6_CS_URB_SIZE_UNITS = 16"
definition GEN6_MAX_MEDIA_THREADS :: nat where "GEN6_MAX_MEDIA_THREADS = 60"
definition GEN7_CS_URB_SIZE_UNITS :: nat where "GEN7_CS_URB_SIZE_UNITS = 16"
definition GEN7_MAX_MEDIA_THREADS :: nat where "GEN7_MAX_MEDIA_THREADS = 64"

section \<open>Generation 5\<close>

definition gen5_emit_mi_flush :: "batch_writer \<Rightarrow> batch_writer" where
  "gen5_emit_mi_flush = bw_emit MI_FLUSH"

definition gen5_emit_pipeline_select_media :: "batch_writer \<Rightarrow> batch_writer" where
  "gen5_emit_pipeline_select_media = bw_emit (CMD_PIPELINE_SELECT OR PIPELINE_SELECT_MEDIA)"

definition gen5_emit_depth_buffer_null :: "batch_writer \<Rightarrow> batch_writer" where
  "gen5_emit_depth_buffer_null = bw_emits
     [CMD_3DSTATE_DEPTH_BUFFER OR 4,
      push_bit 18 I965_DEPTHFORMAT_D32_FLOAT OR push_bit 29 I965_SURFACE_NULL,
      0, 0, 0, 0]"

definition gen5_emit_state_base_address :: "batch_writer \<Rightarrow> batch_writer" where
  "gen5_emit_state_base_address = bw_emits
     [CMD_STATE_BASE_ADDRESS OR 6, BASE_ADDRESS_MODIFY, BASE_ADDRESS_MODIFY, BASE_ADDRESS_MODIFY,
      BASE_ADDRESS_MODIFY, BASE_ADDRESS_MODIFY, BASE_ADDRESS_MODIFY, BASE_ADDRESS_MODIFY]"

definition gen5_emit_urb_fence :: "dword \<Rightarrow> batch_writer \<Rightarrow> batch_writer" where
  "gen5_emit_urb_fence vfe_entries =
     (let vfe_fence = (if vfe_entries = 0 then 1 else vfe_entries);
          cs_fence = vfe_fence + of_nat GEN5_CS_URB_SIZE_UNITS
      in bw_emits
           [CMD_URB_FENCE OR UF0_VFE_REALLOC OR UF0_CS_REALLOC OR 1, 0,
            push_bit 10 vfe_fence OR push_bit 20 cs_fence])"

definition gen5_emit_cs_urb_state :: "batch_writer \<Rightarrow> batch_writer" where
  "gen5_emit_cs_urb_state = bw_emits
     [CMD_CS_URB_STATE OR 0, push_bit 4 (of_nat GEN5_CS_URB_SIZE_UNITS - 1) OR 1]"

definition gen5_emit_constant_buffer :: "dword \<Rightarrow> dword \<Rightarrow> batch_writer \<Rightarrow> batch_writer" where
  "gen5_emit_constant_buffer gtt_offset read_length =
     (let read_length = (if read_length = 0 then 1 else read_length)
      in bw_emits [CMD_CONSTANT_BUFFER OR push_bit 8 1 OR 0, gtt_offset OR ((read_length - 1) AND 0x1f)])"

definition gen5_emit_media_state_pointers :: "dword \<Rightarrow> dword \<Rightarrow> batch_writer \<Rightarrow> batch_writer" where
  "gen5_emit_media_state_pointers vfe_state_gtt idrt_gtt =
     bw_emits [CMD_MEDIA_STATE_POINTERS OR 1, 0, vfe_state_gtt]"

definition gen5_emit_marker :: "dword \<Rightarrow> dword \<Rightarrow> batch_writer \<Rightarrow> batch_writer" where
  "gen5_emit_marker gtt_offset tag =
     bw_emits [push_bit 23 0x20 OR push_bit 22 1 OR 2, 0, gtt_offset, tag]"

definition gen5_emit_xy_src_copy_blt ::
  "dword \<Rightarrow> dword \<Rightarrow> dword \<Rightarrow> dword \<Rightarrow> dword \<Rightarrow> dword \<Rightarrow> dword \<Rightarrow> dword \<Rightarrow> batch_writer \<Rightarrow> batch_writer" where
  "gen5_emit_xy_src_copy_blt src_gtt src_pitch dst_gtt dst_pitch dst_x dst_y width height =
     bw_emits
       [XY_COMMAND_SOURCE_BLIT OR COMMAND_BLIT_RGBA,
        dst_pitch OR push_bit 16 0xCC OR push_bit 24 COMMAND_MODE_RGB32,
        push_bit 16 dst_y OR dst_x,
        push_bit 16 (dst_y + height) OR (dst_x + width),
        dst_gtt, 0, src_pitch, src_gtt]"

section \<open>Generation 6\<close>

definition gen6_emit_mi_flush :: "batch_writer \<Rightarrow> batch_writer" where
  "gen6_emit_mi_flush = bw_emits [CMD_PIPE_CONTROL OR 2, PIPE_CONTROL_CS_STALL, 0, 0]"

definition gen6_emit_pipeline_select_media :: "batch_writer \<Rightarrow> batch_writer" where
  "gen6_emit_pipeline_select_media = bw_emit (CMD_PIPELINE_SELECT OR PIPELINE_SELECT_MEDIA)"

definition gen6_emit_depth_buffer_null :: "batch_writer \<Rightarrow> batch_writer" where
  "gen6_emit_depth_buffer_null = bw_emits
     [CMD_3DSTATE_DEPTH_BUFFER OR 5,
      push_bit 18 I965_DEPTHFORMAT_D32_FLOAT OR push_bit 29 I965_SURFACE_NULL,
      0, 0, 0, 0, 0]"

definition gen6_emit_state_base_address :: "batch_writer \<Rightarrow> batch_writer" where
  "gen6_emit_state_base_address = bw_emits
     [CMD_STATE_BASE_ADDRESS OR 8, BASE_ADDRESS_MODIFY, BASE_ADDRESS_MODIFY, BASE_ADDRESS_MODIFY,
      BASE_ADDRESS_MODIFY, BASE_ADDRESS_MODIFY, BASE_ADDRESS_MODIFY, BASE_ADDRESS_MODIFY,
      BASE_ADDRESS_MODIFY, BASE_ADDRESS_MODIFY]"

definition gen6_emit_urb_fence :: "dword \<Rightarrow> batch_writer \<Rightarrow> batch_writer" where
  "gen6_emit_urb_fence vfe_entries = bw_emits [CMD_3DSTATE_URB OR 0, 0]"

definition gen6_emit_cs_urb_state :: "batch_writer \<Rightarrow> batch_writer" where
  "gen6_emit_cs_urb_state w = w"

definition gen6_emit_constant_buffer :: "dword \<Rightarrow> dword \<Rightarrow> batch_writer \<Rightarrow> batch_writer" where
  "gen6_emit_constant_buffer gtt_offset read_length =
     (let read_length = (if read_length = 0 then 1 else read_length);
          curbe_size = read_length * 64
      in bw_emits [CMD_MEDIA_CURBE_LOAD OR 1, curbe_size, gtt_offset])"

definition gen6_emit_media_state_pointers :: "dword \<Rightarrow> dword \<Rightarrow> batch_writer \<Rightarrow> batch_writer" where
  "gen6_emit_media_state_pointers vfe_state_gtt idrt_gtt = bw_emits
     [CMD_MEDIA_VFE_STATE OR 6, 0,
      push_bit 16 (of_nat GEN6_MAX_MEDIA_THREADS) OR (of_nat GEN6_MAX_MEDIA_THREADS AND 0xFF),
      0, 0, 0, 0, 0,
      CMD_MEDIA_IDL OR 1, 32, idrt_gtt]"

definition gen6_emit_marker :: "dword \<Rightarrow> dword \<Rightarrow> batch_writer \<Rightarrow> batch_writer" where
  "gen6_emit_marker gtt_offset tag =
     bw_emits [push_bit 23 0x20 OR push_bit 22 1 OR 2, 0, gtt_offset, tag]"

definition gen6_emit_xy_src_copy_blt ::
  "dword \<Rightarrow> dword \<Rightarrow> dword \<Rightarrow> dword \<Rightarrow> dword \<Rightarrow> dword \<Rightarrow> dword \<Rightarrow> dword \<Rightarrow> batch_writer \<Rightarrow> batch_writer" where
  "gen6_emit_xy_src_copy_blt src_gtt src_pitch dst_gtt dst_pitch dst_x dst_y width height =
     bw_emits
       [XY_COMMAND_SOURCE_BLIT OR COMMAND_BLIT_RGBA,
        dst_pitch OR push_bit 16 0xCC OR push_bit 24 COMMAND_MODE_RGB32,
        push_bit 16 dst_y OR dst_x,
        push_bit 16 (dst_y + height) OR (dst_x + width),
        dst_gtt, 0, src_pitch, src_gtt]"

section \<open>Generation 7\<close>

definition gen7_emit_mi_flush :: "batch_writer \<Rightarrow> batch_writer" where
  "gen7_emit_mi_flush = bw_emits [CMD_PIPE_CONTROL OR 2, PIPE_CONTROL_CS_STALL, 0, 0]"

definition gen7_emit_pipeline_select_media :: "batch_writer \<Rightarrow> batch_writer" where
  "gen7_emit_pipeline_select_media = bw_emit (CMD_PIPELINE_SELECT OR PIPELINE_SELECT_MEDIA)"

definition gen7_emit_depth_buffer_null :: "batch_writer \<Rightarrow> batch_writer" where
  "gen7_emit_depth_buffer_null = bw_emits
     [CMD_3DSTATE_DEPTH_BUFFER OR 6,
      push_bit 18 I965_DEPTHFORMAT_D32_FLOAT OR push_bit 29 I965_SURFACE_NULL,
      0, 0, 0, 0, 0, 0]"

definition gen7_emit_state_base_address :: "batch_writer \<Rightarrow> batch_writer" where
  "gen7_emit_state_base_address = bw_emits
     [CMD_STATE_BASE_ADDRESS OR 8, BASE_ADDRESS_MODIFY, BASE_ADDRESS_MODIFY, BASE_ADDRESS_MODIFY,
      BASE_ADDRESS_MODIFY, BASE_ADDRESS_MODIFY, BASE_ADDRESS_MODIFY, BASE_ADDRESS_MODIFY,
      BASE_ADDRESS_MODIFY, BASE_ADDRESS_MODIFY]"

definition gen7_emit_urb_fence :: "dword \<Rightarrow> batch_writer \<Rightarrow> batch_writer" where
  "gen7_emit_urb_fence vfe_entries = bw_emits [CMD_3DSTATE_URB OR 0, 0]"

definition gen7_emit_cs_urb_state :: "batch_writer \<Rightarrow> batch_writer" where
  "gen7_emit_cs_urb_state w = w"

definition gen7_emit_constant_buffer :: "dword \<Rightarrow> dword \<Rightarrow> batch_writer \<Rightarrow> batch_writer" where
  "gen7_emit_constant_buffer gtt_offset read_length =
     (let read_length = (if read_length = 0 then 1 else read_length);
          curbe_size = read_length * 64
      in bw_emits [CMD_MEDIA_CURBE_LOAD OR 1, curbe_size, gtt_offset])"

definition gen7_emit_media_state_pointers :: "dword \<Rightarrow> dword \<Rightarrow> batch_writer \<Rightarrow> batch_writer" where
  "gen7_emit_media_state_pointers vfe_state_gtt idrt_gtt = bw_emits
     [CMD_MEDIA_VFE_STATE OR 6, 0,
      push_bit 16 (of_nat GEN7_MAX_MEDIA_THREADS) OR (of_nat GEN7_MAX_MEDIA_THREADS AND 0xFF),
      0, 0, 0, 0, 0,
      CMD_MEDIA_IDL OR 1, 32, idrt_gtt]"

definition gen7_emit_marker :: "dword \<Rightarrow> dword \<Rightarrow> batch_writer \<Rightarrow> batch_writer" where
  "gen7_emit_marker gtt_offset tag =
     bw_emits [push_bit 23 0x20 OR push_bit 22 1 OR 2, 0, gtt_offset, tag]"

definition gen7_emit_xy_src_copy_blt ::
  "dword \<Rightarrow> dword \<Rightarrow> dword \<Rightarrow> dword \<Rightarrow> dword \<Rightarrow> dword \<Rightarrow> dword \<Rightarrow> dword \<Rightarrow> batch_writer \<Rightarrow> batch_writer" where
  "gen7_emit_xy_src_copy_blt src_gtt src_pitch dst_gtt dst_pitch dst_x dst_y width height =
     bw_emits
       [XY_COMMAND_SOURCE_BLIT OR COMMAND_BLIT_RGBA,
        dst_pitch OR push_bit 16 0xCC OR push_bit 24 COMMAND_MODE_RGB32,
        push_bit 16 dst_y OR dst_x,
        push_bit 16 (dst_y + height) OR (dst_x + width),
        dst_gtt, 0, src_pitch, src_gtt]"

section \<open>The table of operations\<close>

record gen_info =
  generation :: nat
  max_media_threads :: nat
  cs_urb_size_units :: nat
  ring_base :: nat

record gen_ops =
  info :: gen_info
  emit_mi_flush :: "batch_writer \<Rightarrow> batch_writer"
  emit_pipeline_select_media :: "batch_writer \<Rightarrow> batch_writer"
  emit_depth_buffer_null :: "batch_writer \<Rightarrow> batch_writer"
  emit_state_base_address :: "batch_writer \<Rightarrow> batch_writer"
  emit_urb_fence :: "dword \<Rightarrow> batch_writer \<Rightarrow> batch_writer"
  emit_cs_urb_state :: "batch_writer \<Rightarrow> batch_writer"
  emit_constant_buffer :: "dword \<Rightarrow> dword \<Rightarrow> batch_writer \<Rightarrow> batch_writer"
  emit_media_state_pointers :: "dword \<Rightarrow> dword \<Rightarrow> batch_writer \<Rightarrow> batch_writer"
  emit_marker :: "dword \<Rightarrow> dword \<Rightarrow> batch_writer \<Rightarrow> batch_writer"
  emit_xy_src_copy_blt ::
    "dword \<Rightarrow> dword \<Rightarrow> dword \<Rightarrow> dword \<Rightarrow> dword \<Rightarrow> dword \<Rightarrow> dword \<Rightarrow> dword \<Rightarrow> batch_writer \<Rightarrow> batch_writer"

definition gen5_init_ops :: gen_ops where
  "gen5_init_ops =
     \<lparr>info = \<lparr>generation = 5, max_media_threads = GEN5_MAX_MEDIA_THREADS,
              cs_urb_size_units = GEN5_CS_URB_SIZE_UNITS, ring_base = INTEL_PRIMARY_RING_BUFFER\<rparr>,
      emit_mi_flush = gen5_emit_mi_flush,
      emit_pipeline_select_media = gen5_emit_pipeline_select_media,
      emit_depth_buffer_null = gen5_emit_depth_buffer_null,
      emit_state_base_address = gen5_emit_state_base_address,
      emit_urb_fence = gen5_emit_urb_fence,
      emit_cs_urb_state = gen5_emit_cs_urb_state,
      emit_constant_buffer = gen5_emit_constant_buffer,
      emit_media_state_pointers = gen5_emit_media_state_pointers,
      emit_marker = gen5_emit_marker,
      emit_xy_src_copy_blt = gen5_emit_xy_src_copy_blt\<rparr>"

definition gen6_init_ops :: gen_ops where
  "gen6_init_ops =
     \<lparr>info = \<lparr>generation = 6, max_media_threads = GEN6_MAX_MEDIA_THREADS,
              cs_urb_size_units = GEN6_CS_URB_SIZE_UNITS, ring_base = INTEL_PRIMARY_RING_BUFFER\<rparr>,
      emit_mi_flush = gen6_emit_mi_flush,
      emit_pipeline_select_media = gen6_emit_pipeline_select_media,
      emit_depth_buffer_null = gen6_emit_depth_buffer_null,
      emit_state_base_address = gen6_emit_state_base_address,
      emit_urb_fence = gen6_emit_urb_fence,
      emit_cs_urb_state = gen6_emit_cs_urb_state,
      emit_constant_buffer = gen6_emit_constant_buffer,
      emit_media_state_pointers = gen6_emit_media_state_pointers,
      emit_marker = gen6_emit_marker,
      emit_xy_src_copy_blt = gen6_emit_xy_src_copy_blt\<rparr>"

definition gen7_init_ops :: gen_ops where
  "gen7_init_ops =
     \<lparr>info = \<lparr>generation = 7, max_media_threads = GEN7_MAX_MEDIA_THREADS,
              cs_urb_size_units = GEN7_CS_URB_SIZE_UNITS, ring_base = INTEL_PRIMARY_RING_BUFFER\<rparr>,
      emit_mi_flush = gen7_emit_mi_flush,
      emit_pipeline_select_media = gen7_emit_pipeline_select_media,
      emit_depth_buffer_null = gen7_emit_depth_buffer_null,
      emit_state_base_address = gen7_emit_state_base_address,
      emit_urb_fence = gen7_emit_urb_fence,
      emit_cs_urb_state = gen7_emit_cs_urb_state,
      emit_constant_buffer = gen7_emit_constant_buffer,
      emit_media_state_pointers = gen7_emit_media_state_pointers,
      emit_marker = gen7_emit_marker,
      emit_xy_src_copy_blt = gen7_emit_xy_src_copy_blt\<rparr>"

definition init_gen_ops :: "gen_ops \<Rightarrow> int \<Rightarrow> status_t \<times> gen_ops" where
  "init_gen_ops ops gen =
     (if gen = 5 then (B_OK, gen5_init_ops)
      else if gen = 6 then (B_OK, gen6_init_ops)
      else if gen = 7 then (B_OK, gen7_init_ops)
      else (B_UNSUPPORTED, ops))"

section \<open>What the writer holds\<close>

definition written :: "batch_writer \<Rightarrow> dword list" where
  "written w = take (count w) (dwords w)"

definition bw_ok :: "batch_writer \<Rightarrow> bool" where
  "bw_ok w \<longleftrightarrow> length (dwords w) = BATCH_CAPACITY_DW \<and> count w \<le> BATCH_CAPACITY_DW"

definition bw_room :: "batch_writer \<Rightarrow> nat" where
  "bw_room w = BATCH_CAPACITY_DW - count w"

interpretation bw: bounded_sink bw_emit written bw_room bw_ok
proof (unfold_locales, goal_cases)
  case (1 s d)
  then show ?case by (simp add: bw_ok_def bw_room_def bw_emit_def)
next
  case (2 s d)
  then show ?case by (simp add: bw_ok_def bw_room_def bw_emit_def written_def take_Suc_conv_app_nth)
next
  case (3 s d)
  then show ?case by (simp add: bw_room_def bw_emit_def)
next
  case (4 s d)
  then show ?case by (simp add: bw_ok_def bw_room_def bw_emit_def written_def)
qed

lemma bw_init_ok: "length (dwords w) = BATCH_CAPACITY_DW \<Longrightarrow> bw_ok (bw_init w) \<and> written (bw_init w) = []"
  by (simp add: bw_init_def bw_ok_def written_def)

lemma bw_emits_overflow:
  "count w \<le> BATCH_CAPACITY_DW \<Longrightarrow>
     overflow (bw_emits ds w) \<longleftrightarrow> overflow w \<or> BATCH_CAPACITY_DW < count w + length ds"
proof (induction ds arbitrary: w)
  case Nil
  then show ?case by simp
next
  case (Cons d ds)
  have "count (bw_emit d w) \<le> BATCH_CAPACITY_DW" using Cons.prems by (simp add: bw_emit_def)
  from Cons.IH [OF this] Cons.prems show ?case by (auto simp: bw_emit_def)
qed

lemma bw_emits_written:
  assumes "bw_ok w" and "count w + length ds \<le> BATCH_CAPACITY_DW"
  shows "written (bw_emits ds w) = written w @ ds" and "count (bw_emits ds w) = count w + length ds"
    and "overflow (bw_emits ds w) = overflow w" and "bw_ok (bw_emits ds w)"
proof -
  have "length ds \<le> bw_room w" using assms(2) by (simp add: bw_room_def)
  note puts = bw.puts [OF assms(1) this]
  then show "written (bw_emits ds w) = written w @ ds" "bw_ok (bw_emits ds w)" by simp_all
  show "count (bw_emits ds w) = count w + length ds"
    using puts assms by (auto simp: bw_room_def bw_ok_def)
  show "overflow (bw_emits ds w) = overflow w"
    using assms bw_emits_overflow [of w ds] by (simp add: bw_ok_def)
qed

section \<open>Command streams\<close>

text \<open>The length of a command by its header: bits 31 to 29 are the client, 0 for the memory interface
  (one dword for an opcode below 16, else two more than the low 6 bits), 2 for the 2D engine and 3 for
  the render engine (two more than the low 8 bits, except for its pipeline 1, whose commands have one
  dword).\<close>

definition command_length :: "dword \<Rightarrow> nat" where
  "command_length h =
     (if drop_bit 29 h = 0 then if drop_bit 23 h AND 0x3f < 0x10 then 1 else unat (h AND 0x3f) + 2
      else if drop_bit 29 h = 3 \<and> drop_bit 27 h AND 3 = 1 then 1
      else unat (h AND 0xff) + 2)"

fun split_commands :: "dword list \<Rightarrow> dword list list option" where
  "split_commands [] = Some []"
| "split_commands (h # t) =
     (let n = command_length h - 1
      in if length t < n then None
         else map_option (\<lambda>cs. (h # take n t) # cs) (split_commands (drop n t)))"

text \<open>Client, pipeline or MI opcode, operation and sub-operation of a command.\<close>

definition opcode :: "dword list \<Rightarrow> dword list" where
  "opcode cmd =
     (let h = hd cmd
      in if drop_bit 29 h = 3 then [3, drop_bit 27 h AND 3, drop_bit 24 h AND 7, drop_bit 16 h AND 0xff]
         else if drop_bit 29 h = 2 then [2, drop_bit 22 h AND 0x7f] else [drop_bit 29 h, drop_bit 23 h AND 0x3f])"

lemma split_append: "split_commands xs = Some cs \<Longrightarrow> split_commands (xs @ ys) = map_option (\<lambda>ds. cs @ ds) (split_commands ys)"
proof (induction xs arbitrary: cs rule: split_commands.induct)
  case 1
  then show ?case by (simp add: option.map_ident)
next
  case (2 h t)
  then show ?case by (cases "split_commands ys") (auto simp: Let_def split: if_splits)
qed

text \<open>The calls of the table.\<close>

datatype emitter_call =
    Mi_flush | Pipeline_select_media | Depth_buffer_null | State_base_address
  | Urb_fence dword | Cs_urb_state | Constant_buffer dword dword
  | Media_state_pointers dword dword | Marker dword dword
  | Xy_src_copy_blt dword dword dword dword dword dword dword dword

fun run_call :: "gen_ops \<Rightarrow> emitter_call \<Rightarrow> batch_writer \<Rightarrow> batch_writer" where
  "run_call ops Mi_flush = emit_mi_flush ops"
| "run_call ops Pipeline_select_media = emit_pipeline_select_media ops"
| "run_call ops Depth_buffer_null = emit_depth_buffer_null ops"
| "run_call ops State_base_address = emit_state_base_address ops"
| "run_call ops (Urb_fence n) = emit_urb_fence ops n"
| "run_call ops Cs_urb_state = emit_cs_urb_state ops"
| "run_call ops (Constant_buffer off len) = emit_constant_buffer ops off len"
| "run_call ops (Media_state_pointers vfe idrt) = emit_media_state_pointers ops vfe idrt"
| "run_call ops (Marker off tag) = emit_marker ops off tag"
| "run_call ops (Xy_src_copy_blt sg sp dg dp x y w h) = emit_xy_src_copy_blt ops sg sp dg dp x y w h"

definition empty_batch :: batch_writer where
  "empty_batch = \<lparr>dwords = replicate BATCH_CAPACITY_DW 0, count = 0, overflow = False\<rparr>"

definition call_stream :: "gen_ops \<Rightarrow> emitter_call \<Rightarrow> dword list" where
  "call_stream ops c = written (run_call ops c empty_batch)"

definition call_commands :: "gen_ops \<Rightarrow> emitter_call \<Rightarrow> dword list list" where
  "call_commands ops c = the (split_commands (call_stream ops c))"

text \<open>What a table of emitters promises: a call appends its stream, and the stream is a sequence of
  whole commands.\<close>

locale emitter_table =
  fixes ops :: gen_ops
  assumes appends: "run_call ops c w = bw_emits (call_stream ops c) w"
    and whole: "split_commands (call_stream ops c) \<noteq> None"
begin

lemma calls_append: "fold (run_call ops) cs w = bw_emits (concat (map (call_stream ops) cs)) w"
  by (induction cs arbitrary: w) (simp_all add: appends)

lemma calls_whole:
  "split_commands (concat (map (call_stream ops) cs)) = Some (concat (map (call_commands ops) cs))"
proof (induction cs)
  case Nil
  then show ?case by simp
next
  case (Cons c cs)
  have "split_commands (call_stream ops c) = Some (call_commands ops c)"
    using whole [of c] by (auto simp: call_commands_def)
  from split_append [OF this] Cons show ?case by simp
qed

lemma calls_fit:
  assumes "bw_ok w" and "count w + length (concat (map (call_stream ops) cs)) \<le> BATCH_CAPACITY_DW"
  shows "written (fold (run_call ops) cs w) = written w @ concat (map (call_stream ops) cs)
    \<and> overflow (fold (run_call ops) cs w) = overflow w"
  unfolding calls_append using bw_emits_written [OF assms] by simp

end

lemma call_stream_emits:
  "run_call ops c = bw_emits ds \<Longrightarrow> length ds \<le> 100 \<Longrightarrow> call_stream ops c = ds"
  using bw_emits_written(1) [of empty_batch ds]
  by (simp add: call_stream_def empty_batch_def bw_ok_def BATCH_CAPACITY_DW_def written_def)

lemma one_emit: "bw_emit d = bw_emits [d]"
  by (simp add: fun_eq_iff)


lemmas command_words = CMD_GFX_def MI_NOOP_def MI_FLUSH_def XY_COMMAND_SOURCE_BLIT_def COMMAND_BLIT_RGBA_def
  COMMAND_MODE_RGB32_def CMD_URB_FENCE_def CMD_CS_URB_STATE_def CMD_CONSTANT_BUFFER_def
  CMD_STATE_BASE_ADDRESS_def CMD_PIPELINE_SELECT_def CMD_MEDIA_STATE_POINTERS_def
  CMD_3DSTATE_DEPTH_BUFFER_def CMD_3DSTATE_URB_def CMD_MEDIA_VFE_STATE_def CMD_MEDIA_CURBE_LOAD_def
  CMD_MEDIA_IDL_def CMD_MEDIA_OBJECT_def CMD_PIPE_CONTROL_def PIPE_CONTROL_CS_STALL_def
  PIPELINE_SELECT_MEDIA_def UF0_VFE_REALLOC_def UF0_CS_REALLOC_def BASE_ADDRESS_MODIFY_def
  I965_DEPTHFORMAT_D32_FLOAT_def I965_SURFACE_NULL_def

lemmas gen5_emitters = gen5_init_ops_def gen5_emit_mi_flush_def gen5_emit_pipeline_select_media_def
  gen5_emit_depth_buffer_null_def gen5_emit_state_base_address_def gen5_emit_urb_fence_def
  gen5_emit_cs_urb_state_def gen5_emit_constant_buffer_def gen5_emit_media_state_pointers_def
  gen5_emit_marker_def gen5_emit_xy_src_copy_blt_def

lemmas gen6_emitters = gen6_init_ops_def gen6_emit_mi_flush_def gen6_emit_pipeline_select_media_def
  gen6_emit_depth_buffer_null_def gen6_emit_state_base_address_def gen6_emit_urb_fence_def
  gen6_emit_cs_urb_state_def gen6_emit_constant_buffer_def gen6_emit_media_state_pointers_def
  gen6_emit_marker_def gen6_emit_xy_src_copy_blt_def

lemmas gen7_emitters = gen7_init_ops_def gen7_emit_mi_flush_def gen7_emit_pipeline_select_media_def
  gen7_emit_depth_buffer_null_def gen7_emit_state_base_address_def gen7_emit_urb_fence_def
  gen7_emit_cs_urb_state_def gen7_emit_constant_buffer_def gen7_emit_media_state_pointers_def
  gen7_emit_marker_def gen7_emit_xy_src_copy_blt_def

text \<open>The commands of each call: opcode and length in dwords.\<close>

fun command_table :: "int \<Rightarrow> emitter_call \<Rightarrow> (dword list \<times> nat) list" where
  "command_table g Mi_flush = (if g = 5 then [([0, 0x04], 1)] else [([3, 3, 0, 2], 4)])"
| "command_table g Pipeline_select_media = [([3, 1, 1, 4], 1)]"
| "command_table g Depth_buffer_null = [([3, 3, 1, 5], if g = 5 then 6 else if g = 6 then 7 else 8)]"
| "command_table g State_base_address = [([3, 0, 1, 1], if g = 5 then 8 else 10)]"
| "command_table g (Urb_fence n) = (if g = 5 then [([3, 0, 0, 0], 3)] else [([3, 0, 0, 5], 2)])"
| "command_table g Cs_urb_state = (if g = 5 then [([3, 0, 0, 1], 2)] else [])"
| "command_table g (Constant_buffer off len) = (if g = 5 then [([3, 0, 0, 2], 2)] else [([3, 2, 0, 1], 3)])"
| "command_table g (Media_state_pointers vfe idrt) =
     (if g = 5 then [([3, 2, 0, 0], 3)] else [([3, 2, 0, 0], 8), ([3, 2, 0, 2], 3)])"
| "command_table g (Marker off tag) = [([0, 0x20], 4)]"
| "command_table g (Xy_src_copy_blt sg sp dg dp x y w h) = [([2, 0x53], 8)]"

text \<open>The table of every generation keeps the promise: each emitter is a sequence of writes whose
  headers fit the number of dwords.\<close>

definition table_entry_ok :: "gen_ops \<Rightarrow> int \<Rightarrow> emitter_call \<Rightarrow> bool" where
  "table_entry_ok ops g c \<longleftrightarrow> (\<exists>ds. run_call ops c = bw_emits ds \<and> length ds \<le> 100
     \<and> map_option (map (\<lambda>cmd. (opcode cmd, length cmd))) (split_commands ds) = Some (command_table g c))"

lemma gen5_entry: "table_entry_ok gen5_init_ops 5 c"
  unfolding table_entry_ok_def
  by (cases c; simp only: run_call.simps gen5_emitters gen_ops.simps one_emit Let_def;
      rule exI, rule conjI, rule refl; simp add: command_length_def command_words opcode_def)

lemma gen6_cs_urb_nothing: "gen6_emit_cs_urb_state = bw_emits []" "gen7_emit_cs_urb_state = bw_emits []"
  by (simp_all add: fun_eq_iff gen6_emit_cs_urb_state_def gen7_emit_cs_urb_state_def)

lemma gen6_entry: "table_entry_ok gen6_init_ops 6 c"
  unfolding table_entry_ok_def
  by (cases c; simp only: run_call.simps gen6_cs_urb_nothing gen6_emitters gen_ops.simps one_emit Let_def;
      rule exI, rule conjI, rule refl; simp add: command_length_def command_words opcode_def)

lemma gen7_entry: "table_entry_ok gen7_init_ops 7 c"
  unfolding table_entry_ok_def
  by (cases c; simp only: run_call.simps gen6_cs_urb_nothing gen7_emitters gen_ops.simps one_emit Let_def;
      rule exI, rule conjI, rule refl; simp add: command_length_def command_words opcode_def)

lemma table_entry:
  assumes "table_entry_ok ops g c"
  shows "run_call ops c w = bw_emits (call_stream ops c) w" and "split_commands (call_stream ops c) \<noteq> None"
    and "map (\<lambda>cmd. (opcode cmd, length cmd)) (call_commands ops c) = command_table g c"
proof -
  obtain ds where ds: "run_call ops c = bw_emits ds" "length ds \<le> 100"
    "map_option (map (\<lambda>cmd. (opcode cmd, length cmd))) (split_commands ds) = Some (command_table g c)"
    using assms unfolding table_entry_ok_def by blast
  have "call_stream ops c = ds" by (rule call_stream_emits [OF ds(1,2)])
  with ds show "run_call ops c w = bw_emits (call_stream ops c) w" "split_commands (call_stream ops c) \<noteq> None"
    "map (\<lambda>cmd. (opcode cmd, length cmd)) (call_commands ops c) = command_table g c"
    by (auto simp: call_commands_def)
qed

lemma emitter_tableI:
  assumes "\<And>c. table_entry_ok ops g c"
  shows "emitter_table ops"
  by (rule emitter_table.intro) (fact table_entry(1) [OF assms] table_entry(2) [OF assms])+

interpretation gen5: emitter_table gen5_init_ops
  by (rule emitter_tableI [OF gen5_entry])

interpretation gen6: emitter_table gen6_init_ops
  by (rule emitter_tableI [OF gen6_entry])

interpretation gen7: emitter_table gen7_init_ops
  by (rule emitter_tableI [OF gen7_entry])

lemma init_gen_ops_table: "init_gen_ops ops g = (B_OK, t) \<Longrightarrow> emitter_table t"
  using gen5.emitter_table_axioms gen6.emitter_table_axioms gen7.emitter_table_axioms
  by (auto simp: init_gen_ops_def split: if_splits)

section \<open>Properties\<close>

text \<open>Whatever calls are made through the table of a supported generation, as long as the dwords fit
  the batch they are all appended in order, and a command streamer that cuts the stream by the lengths in
  the headers finds the commands of each call, one after the other, and nothing left over.\<close>

theorem batch_streams_parse:
  assumes "init_gen_ops ops g = (B_OK, t)" and "bw_ok w"
    and "count w + length (concat (map (call_stream t) cs)) \<le> BATCH_CAPACITY_DW"
  shows "written (fold (run_call t) cs w) = written w @ concat (map (call_stream t) cs)
    \<and> overflow (fold (run_call t) cs w) = overflow w
    \<and> split_commands (concat (map (call_stream t) cs)) = Some (concat (map (call_commands t) cs))"
  using emitter_table.calls_fit [OF init_gen_ops_table [OF assms(1)] assms(2,3)]
    emitter_table.calls_whole [OF init_gen_ops_table [OF assms(1)]] by blast

text \<open>C13: The commands that a call of a supported generation stands for have the opcodes and lengths of
  this table; in particular the flush of generations 6 and 7 has the opcode 3, 3, 0, 2, whose dword is
  not the 0x7a000000 that the sources name for PIPE_CONTROL.\<close>

theorem generation_commands:
  assumes "init_gen_ops ops g = (B_OK, t)"
  shows "map (\<lambda>cmd. (opcode cmd, length cmd)) (call_commands t c) = command_table g c
    \<and> CMD_PIPE_CONTROL \<noteq> 0x7a000000"
proof -
  have "map (\<lambda>cmd. (opcode cmd, length cmd)) (call_commands t c) = command_table g c"
    using assms table_entry(3) [OF gen5_entry] table_entry(3) [OF gen6_entry] table_entry(3) [OF gen7_entry]
    by (auto simp: init_gen_ops_def split: if_splits)
  then show ?thesis by (simp add: command_words)
qed

text \<open>The writer never holds more than its capacity: of a sequence of writes it keeps the part that
  fits, and the overflow flag says exactly whether something was dropped.\<close>

theorem batch_writer_keeps_prefix:
  assumes "bw_ok w" and "\<not> overflow w"
  shows "written (bw_emits ds w) = take BATCH_CAPACITY_DW (written w @ ds) \<and> bw_ok (bw_emits ds w)
    \<and> (overflow (bw_emits ds w) \<longleftrightarrow> written (bw_emits ds w) \<noteq> written w @ ds)"
proof -
  have len: "length (written w) = count w" "count w \<le> BATCH_CAPACITY_DW"
    using assms(1) by (simp_all add: written_def bw_ok_def)
  have "written (bw_emits ds w) = take BATCH_CAPACITY_DW (written w @ ds)"
    using bw.puts_bounded [OF assms(1)] len by (simp add: bw_room_def)
  moreover have "take BATCH_CAPACITY_DW (written w @ ds) \<noteq> written w @ ds
      \<longleftrightarrow> BATCH_CAPACITY_DW < count w + length ds"
    by (simp only: take_all_iff length_append len(1) not_le)
  ultimately show ?thesis
    using bw.puts_bounded [OF assms(1), of ds] bw_emits_overflow [OF len(2), of ds] assms(2) by simp
qed

text \<open>The rectangle of a copy command, read back from its dwords: raster operation, left, top, right,
  bottom, and the two surfaces with their pitches.\<close>

definition blt_fields :: "dword list \<Rightarrow> dword list" where
  "blt_fields cmd =
     [drop_bit 16 (cmd ! 1) AND 0xff, take_bit 16 (cmd ! 2), drop_bit 16 (cmd ! 2), take_bit 16 (cmd ! 3),
      drop_bit 16 (cmd ! 3), cmd ! 4, take_bit 16 (cmd ! 1), cmd ! 7, cmd ! 6]"

lemma low16:
  fixes x :: dword
  assumes "take_bit 16 x = x"
  shows "drop_bit 16 x = 0" and "drop_bit 16 (push_bit 16 x) = x"
proof -
  have x: "bit x n \<Longrightarrow> n < 16" for n
    by (metis assms bit_take_bit_iff)
  show "drop_bit 16 x = 0" "drop_bit 16 (push_bit 16 x) = x"
    by (rule bit_eqI; use x in \<open>fastforce simp: bit_simps\<close>)+
qed

lemma high16: "take_bit 16 (push_bit 16 (x :: dword)) = 0"
  by (rule bit_eqI) (auto simp: bit_simps)

lemma blt_stream:
  assumes "init_gen_ops ops g = (B_OK, t)"
  shows "call_commands t (Xy_src_copy_blt sg sp dg dp x y w h) =
     [[0x54f00006, dp OR push_bit 16 0xCC OR push_bit 24 COMMAND_MODE_RGB32, push_bit 16 y OR x,
       push_bit 16 (y + h) OR (x + w), dg, 0, sp, sg]]"
proof -
  have "call_stream t (Xy_src_copy_blt sg sp dg dp x y w h) =
     [0x54f00006, dp OR push_bit 16 0xCC OR push_bit 24 COMMAND_MODE_RGB32, push_bit 16 y OR x,
       push_bit 16 (y + h) OR (x + w), dg, 0, sp, sg]"
    using assms
    by (intro call_stream_emits)
      (auto simp: init_gen_ops_def gen5_emitters gen6_emitters gen7_emitters command_words split: if_splits)
  then show ?thesis by (simp add: call_commands_def command_length_def)
qed

text \<open>C14: The copy command of every generation carries the rectangle: with coordinates and a destination
  pitch of 16 bits, its dwords read back as the copy operation 0xCC, the corners \<open>(x, y)\<close> and
  \<open>(x + width, y + height)\<close>, and the two surfaces.\<close>

theorem blt_rectangle_roundtrip:
  assumes "init_gen_ops ops g = (B_OK, t)" and "take_bit 16 x = x" and "take_bit 16 y = y"
    and "take_bit 16 (x + width) = x + width" and "take_bit 16 (y + height) = y + height" and "take_bit 16 dp = dp"
  shows "map blt_fields (call_commands t (Xy_src_copy_blt sg sp dg dp x y width height)) =
    [[0xCC, x, y, x + width, y + height, dg, dp, sg, sp]]"
proof -
  have "push_bit 16 0xCC OR push_bit 24 COMMAND_MODE_RGB32 = (0x03CC0000 :: dword)"
    by (simp add: COMMAND_MODE_RGB32_def)
  then have "take_bit 16 (dp OR push_bit 16 0xCC OR push_bit 24 COMMAND_MODE_RGB32) = dp"
    "drop_bit 16 (dp OR push_bit 16 0xCC OR push_bit 24 COMMAND_MODE_RGB32) = 0x3CC"
    using assms(6) low16(1) [OF assms(6)] by (simp_all add: or.assoc)
  then show ?thesis
    unfolding blt_stream [OF assms(1)] blt_fields_def
    by (simp add: high16 low16 assms del: take_bit_or drop_bit_or) (simp add: high16 low16 assms)
qed


section \<open>Witnesses\<close>

lemma empty_batch_ok: "bw_ok empty_batch" "written empty_batch = []" "overflow empty_batch = False" "count empty_batch = 0"
  by (simp_all add: empty_batch_def bw_ok_def written_def)

definition example_calls :: "emitter_call list" where
  "example_calls = [Mi_flush, Cs_urb_state, Marker 0x1000 0xbeef0001]"

theorem generation_commands_witness:
  "map (\<lambda>cmd. (opcode cmd, length cmd)) (call_commands gen7_init_ops (Media_state_pointers 0 0x2000)) =
     [([3, 2, 0, 0], 8), ([3, 2, 0, 2], 3)]"
  using generation_commands [of gen5_init_ops 7 gen7_init_ops "Media_state_pointers 0 0x2000"]
  by (simp add: init_gen_ops_def)

theorem blt_rectangle_roundtrip_witness:
  "map blt_fields (call_commands gen5_init_ops (Xy_src_copy_blt 0x100000 4096 0x200000 5120 10 20 64 48)) =
    [[0xCC, 10, 20, 74, 68, 0x200000, 5120, 0x100000, 4096]]"
  using blt_rectangle_roundtrip [of gen5_init_ops 5 gen5_init_ops 10 20 64 48 5120 "0x100000" 4096 "0x200000"]
  by (simp add: init_gen_ops_def)

end
