(* ===== verification/Xy_Commands.thy ===== *)
theory Xy_Commands
  imports Gen_Ops
begin

text \<open>
  The commands of the 2D engine, \<open>src/intel_extreme/accelerant/commands.h\<close>: each class is a record that
  extends the record of its base class, its constructor a function on the uninitialised object (the
  fields a constructor leaves alone keep what memory held), and \<open>Data()\<close> the dwords the object occupies,
  little-endian, with the alignment of a 64-bit build. The screen a constructor reads is a parameter.
\<close>

section \<open>Classes\<close>

record screen =
  bits_per_pixel :: dword
  bytes_per_row :: dword
  frame_buffer_offset :: dword

record command =
  cmd_opcode :: dword

record xy_command = command +
  dest_bytes_per_row :: "16 word"
  raster_operation :: "8 word"
  mode :: "8 word"
  dest_left :: "16 word"
  dest_top :: "16 word"
  dest_right :: "16 word"
  dest_bottom :: "16 word"
  dest_base :: dword

record xy_source_blit_command = xy_command +
  source_left :: "16 word"
  source_top :: "16 word"
  source_bytes_per_row :: "16 word"
  reserved :: "16 word"
  source_base :: dword

record xy_color_blit_command = xy_command +
  color :: dword

text \<open>The 64-bit pattern is aligned to 8 bytes, which leaves a dword of padding before it.\<close>

record xy_setup_mono_pattern_command = xy_command +
  background_color :: dword
  foreground_color :: dword
  padding :: dword
  pattern :: "64 word"

record xy_scanline_blit_command = command +
  scan_left :: "16 word"
  scan_top :: "16 word"
  scan_right :: "16 word"
  scan_bottom :: "16 word"

section \<open>Constructors\<close>

definition XY_COMMAND_COLOR_BLIT :: dword where "XY_COMMAND_COLOR_BLIT = 0x54000004"
definition XY_COMMAND_SETUP_MONO_PATTERN :: dword where "XY_COMMAND_SETUP_MONO_PATTERN = 0x44400007"
definition XY_COMMAND_SCANLINE_BLIT :: dword where "XY_COMMAND_SCANLINE_BLIT = 0x49400001"
definition COMMAND_MODE_SOLID_PATTERN :: "8 word" where "COMMAND_MODE_SOLID_PATTERN = 0x80"
definition COMMAND_MODE_CMAP8 :: "8 word" where "COMMAND_MODE_CMAP8 = 0x00"
definition COMMAND_MODE_RGB15 :: "8 word" where "COMMAND_MODE_RGB15 = 0x02"
definition COMMAND_MODE_RGB16 :: "8 word" where "COMMAND_MODE_RGB16 = 0x01"

definition new_xy_command :: "screen \<Rightarrow> dword \<Rightarrow> 16 word \<Rightarrow> 'a xy_command_scheme \<Rightarrow> 'a xy_command_scheme" where
  "new_xy_command scr opc rop c =
     (let c = c\<lparr>cmd_opcode := opc\<rparr>;
          c = (if bits_per_pixel scr = 8 then c\<lparr>mode := COMMAND_MODE_CMAP8\<rparr>
               else if bits_per_pixel scr = 15 then c\<lparr>mode := COMMAND_MODE_RGB15\<rparr>
               else if bits_per_pixel scr = 16 then c\<lparr>mode := COMMAND_MODE_RGB16\<rparr>
               else if bits_per_pixel scr = 32
                    then c\<lparr>mode := ucast COMMAND_MODE_RGB32, cmd_opcode := cmd_opcode c OR COMMAND_BLIT_RGBA\<rparr>
               else c\<lparr>mode := 0\<rparr>)
      in c\<lparr>dest_bytes_per_row := ucast (bytes_per_row scr), dest_base := frame_buffer_offset scr,
           raster_operation := ucast rop\<rparr>)"

definition new_source_blit :: "screen \<Rightarrow> xy_source_blit_command \<Rightarrow> xy_source_blit_command" where
  "new_source_blit scr c =
     (let c = new_xy_command scr XY_COMMAND_SOURCE_BLIT 0xcc c
      in c\<lparr>source_bytes_per_row := dest_bytes_per_row c, source_base := dest_base c, reserved := 0\<rparr>)"

definition new_color_blit :: "screen \<Rightarrow> bool \<Rightarrow> xy_color_blit_command \<Rightarrow> xy_color_blit_command" where
  "new_color_blit scr invert c = new_xy_command scr XY_COMMAND_COLOR_BLIT (if invert then 0x55 else 0xf0) c"

definition new_setup_mono_pattern ::
  "screen \<Rightarrow> xy_setup_mono_pattern_command \<Rightarrow> xy_setup_mono_pattern_command" where
  "new_setup_mono_pattern scr c =
     (let c = new_xy_command scr XY_COMMAND_SETUP_MONO_PATTERN 0xf0 c
      in c\<lparr>mode := mode c OR COMMAND_MODE_SOLID_PATTERN, dest_left := 0, dest_top := 0, dest_right := 0,
           dest_bottom := 0\<rparr>)"

definition new_scanline_blit :: "xy_scanline_blit_command \<Rightarrow> xy_scanline_blit_command" where
  "new_scanline_blit c = c\<lparr>cmd_opcode := XY_COMMAND_SCANLINE_BLIT\<rparr>"

section \<open>Data\<close>

definition pair16 :: "16 word \<Rightarrow> 16 word \<Rightarrow> dword" where
  "pair16 lo hi = ucast lo OR push_bit 16 (ucast hi)"

definition xy_data :: "'a xy_command_scheme \<Rightarrow> dword list" where
  "xy_data c =
     [cmd_opcode c,
      ucast (dest_bytes_per_row c) OR push_bit 16 (ucast (raster_operation c)) OR push_bit 24 (ucast (mode c)),
      pair16 (dest_left c) (dest_top c), pair16 (dest_right c) (dest_bottom c), dest_base c]"

definition source_blit_data :: "xy_source_blit_command \<Rightarrow> dword list" where
  "source_blit_data c = xy_data c @
     [pair16 (source_left c) (source_top c), pair16 (source_bytes_per_row c) (reserved c), source_base c]"

definition color_blit_data :: "xy_color_blit_command \<Rightarrow> dword list" where
  "color_blit_data c = xy_data c @ [color c]"

definition setup_mono_pattern_data :: "xy_setup_mono_pattern_command \<Rightarrow> dword list" where
  "setup_mono_pattern_data c = xy_data c @
     [background_color c, foreground_color c, padding c, ucast (pattern c), ucast (drop_bit 32 (pattern c))]"

definition scanline_blit_data :: "xy_scanline_blit_command \<Rightarrow> dword list" where
  "scanline_blit_data c = [cmd_opcode c, pair16 (scan_left c) (scan_top c), pair16 (scan_right c) (scan_bottom c)]"

section \<open>Whole commands\<close>

lemma data_lengths [simp]:
  "length (xy_data c) = 5" "length (source_blit_data b) = 8" "length (color_blit_data f) = 6"
  "length (setup_mono_pattern_data s) = 10" "length (scanline_blit_data l) = 3"
  by (simp_all add: xy_data_def source_blit_data_def color_blit_data_def setup_mono_pattern_data_def scanline_blit_data_def)

text \<open>A sequence of dwords that a command streamer takes as one command.\<close>

definition whole :: "dword list \<Rightarrow> bool" where
  "whole cmd \<longleftrightarrow> cmd \<noteq> [] \<and> command_length (hd cmd) = length cmd"

lemma split_whole: "whole cmd \<Longrightarrow> split_commands (cmd @ ds) = map_option (\<lambda>cs. cmd # cs) (split_commands ds)"
  by (cases cmd) (auto simp: whole_def Let_def)

lemma split_wholes: "list_all whole cmds \<Longrightarrow> split_commands (concat cmds) = Some cmds"
  by (induction cmds) (auto simp: split_whole)

lemma opcode_cases:
  "cmd_opcode (new_xy_command scr opc rop c) = (if bits_per_pixel scr = 32 then opc OR 0x00300000 else opc)"
  by (simp add: new_xy_command_def Let_def COMMAND_BLIT_RGBA_def)

lemma source_blit_opcode:
  "cmd_opcode (new_source_blit scr c) = (if bits_per_pixel scr = 32 then 0x54f00006 else 0x54c00006)"
  by (simp add: new_source_blit_def Let_def opcode_cases XY_COMMAND_SOURCE_BLIT_def)

lemma color_blit_opcode:
  "cmd_opcode (new_color_blit scr i c) = (if bits_per_pixel scr = 32 then 0x54300004 else 0x54000004)"
  by (simp add: new_color_blit_def opcode_cases XY_COMMAND_COLOR_BLIT_def)

lemma setup_opcode:
  "cmd_opcode (new_setup_mono_pattern scr c) = (if bits_per_pixel scr = 32 then 0x44700007 else 0x44400007)"
  by (simp add: new_setup_mono_pattern_def Let_def opcode_cases XY_COMMAND_SETUP_MONO_PATTERN_def)

lemma source_blit_whole:
  "cmd_opcode b = cmd_opcode (new_source_blit scr c) \<Longrightarrow>
     whole (source_blit_data b) \<and> opcode (source_blit_data b) = [2, 0x53]"
  by (simp add: whole_def source_blit_data_def xy_data_def source_blit_opcode command_length_def opcode_def split: if_splits)

lemma color_blit_whole:
  "cmd_opcode b = cmd_opcode (new_color_blit scr i c) \<Longrightarrow>
     whole (color_blit_data b) \<and> opcode (color_blit_data b) = [2, 0x50]"
  by (simp add: whole_def color_blit_data_def xy_data_def color_blit_opcode command_length_def opcode_def split: if_splits)

lemma scanline_blit_whole:
  "cmd_opcode b = XY_COMMAND_SCANLINE_BLIT \<Longrightarrow>
     whole (scanline_blit_data b) \<and> opcode (scanline_blit_data b) = [2, 0x25]"
  by (simp add: whole_def scanline_blit_data_def XY_COMMAND_SCANLINE_BLIT_def command_length_def opcode_def)

text \<open>With a zero pattern the setup object is a setup command of nine dwords and a no-op; the pattern
  the command carries is the padding and the low half.\<close>

lemma setup_parts:
  "cmd_opcode b = cmd_opcode (new_setup_mono_pattern scr c) \<Longrightarrow> pattern b = 0 \<Longrightarrow>
     setup_mono_pattern_data b = take 9 (setup_mono_pattern_data b) @ [MI_NOOP]
     \<and> whole (take 9 (setup_mono_pattern_data b)) \<and> opcode (setup_mono_pattern_data b) = [2, 0x11]"
  by (simp add: whole_def setup_mono_pattern_data_def xy_data_def setup_opcode command_length_def opcode_def
      MI_NOOP_def split: if_splits)

section \<open>Agreement with the emitters of the batch writer\<close>

lemma ucast_pair16: "push_bit 16 (ucast hi) OR ucast lo = pair16 lo hi"
  by (simp add: pair16_def or.commute)

lemma pair16_0 [simp]: "pair16 0 0 = 0" "pair16 a 0 = ucast a"
  by (simp_all add: pair16_def)

end
