(* ===== verification/Gem2d.thy ===== *)
theory Gem2d
  imports Vaio_Prelude
begin

text \<open>
  The 2D submission layer over the kernel's execbuffer, \<open>src/intel_extreme/accelerant/gem2d.cpp\<close>: two
  batches in turn, commands appended to the open one, which is closed and submitted when it is full or
  at the end. A batch is its mapped memory in dwords. The kernel's answers (availability, creation of a
  batch, mapping, execution) are parameters; waiting for a batch and moving it to the CPU domain have no
  effect on the state kept here. The batches handed to the kernel are recorded in \<open>submitted\<close>,
  the handles given back to it in \<open>closed_handles\<close>.
\<close>

section \<open>State\<close>

definition kBatchCount :: nat where
  "kBatchCount = 2"

definition kBatchSize :: nat where
  "kBatchSize = 32 * 1024"

definition MI_BATCH_BUFFER_END :: nat where
  "MI_BATCH_BUFFER_END = 0x0A * 2 ^ 23"

record gem2d_state =
  available :: bool
  handles :: "nat list"
  maps :: "nat list list"
  current :: nat
  position :: nat
  is_open :: bool
  toggle_checked :: int
  force_legacy_flag :: bool
  submitted :: "(nat \<times> nat list) list"
  closed_handles :: "nat list"

section \<open>Operations\<close>

text \<open>\<open>present\<close> says whether the toggle file exists.\<close>

definition force_legacy :: "int \<Rightarrow> bool \<Rightarrow> gem2d_state \<Rightarrow> bool \<times> gem2d_state" where
  "force_legacy now present s =
     (let s = (if now - toggle_checked s > 200000
               then s\<lparr>force_legacy_flag := present, toggle_checked := now\<rparr> else s)
      in (force_legacy_flag s, s))"

definition gem2d_uninit :: "gem2d_state \<Rightarrow> gem2d_state" where
  "gem2d_uninit s = s\<lparr>available := False, closed_handles := closed_handles s @ filter (\<lambda>h. h \<noteq> 0) (handles s),
     handles := replicate kBatchCount 0, maps := replicate kBatchCount []\<rparr>"

text \<open>\<open>create i\<close> is the handle of the \<open>i\<close>-th batch, \<open>clone_batch i\<close> its mapping; \<open>None\<close> is a failure.\<close>

fun create_batches :: "(nat \<Rightarrow> nat option) \<Rightarrow> (nat \<Rightarrow> nat list option) \<Rightarrow> nat list \<Rightarrow> gem2d_state \<Rightarrow> status_t \<times> gem2d_state" where
  "create_batches create clone_batch [] s = (B_OK, s)"
| "create_batches create clone_batch (i # is) s =
     (case create i of
        None \<Rightarrow> (B_ERROR, gem2d_uninit s)
      | Some h \<Rightarrow>
          let s = s\<lparr>handles := (handles s)[i := h]\<rparr>
          in (case clone_batch i of
                None \<Rightarrow> (B_ERROR, gem2d_uninit s)
              | Some m \<Rightarrow> create_batches create clone_batch is (s\<lparr>maps := (maps s)[i := m]\<rparr>)))"

definition gem2d_init ::
  "bool \<Rightarrow> (nat \<Rightarrow> nat option) \<Rightarrow> (nat \<Rightarrow> nat list option) \<Rightarrow> gem2d_state \<Rightarrow> status_t \<times> gem2d_state" where
  "gem2d_init has_gem create clone_batch s =
     (if \<not> has_gem then (B_NOT_SUPPORTED, s)
      else
        let (st, s) = create_batches create clone_batch [0..<kBatchCount] s
        in if st \<noteq> B_OK then (st, s) else (B_OK, s\<lparr>available := True\<rparr>))"

definition gem2d_available :: "int \<Rightarrow> bool \<Rightarrow> gem2d_state \<Rightarrow> bool \<times> gem2d_state" where
  "gem2d_available now present s =
     (if available s then let (f, s) = force_legacy now present s in (\<not> f, s) else (False, s))"

definition gem2d_begin :: "gem2d_state \<Rightarrow> gem2d_state" where
  "gem2d_begin s =
     (if \<not> available s \<or> is_open s then s
      else s\<lparr>current := (current s + 1) mod kBatchCount, position := 0, is_open := True\<rparr>)"

definition batch_map :: "gem2d_state \<Rightarrow> nat list" where
  "batch_map s = maps s ! current s"

text \<open>\<open>exec i\<close> is the kernel's answer to the \<open>i\<close>-th submission.\<close>

definition gem2d_end :: "(nat \<Rightarrow> status_t) \<Rightarrow> gem2d_state \<Rightarrow> gem2d_state" where
  "gem2d_end exec s =
     (if \<not> available s \<or> \<not> is_open s then s
      else
        let s = s\<lparr>is_open := False\<rparr>
        in if position s = 0 then s
           else
             let m = (batch_map s)[position s div 4 := MI_BATCH_BUFFER_END];
                 len = position s + 4;
                 (m, len) = (if len AND 0x07 \<noteq> 0 then (m[len div 4 := 0], len + 4) else (m, len));
                 status = exec (length (submitted s));
                 s = s\<lparr>maps := (maps s)[current s := m],
                       submitted := submitted s @ [(handles s ! current s, take (len div 4) m)]\<rparr>
             in if status \<noteq> B_OK then s\<lparr>available := False\<rparr> else s)"

definition gem2d_add :: "(nat \<Rightarrow> status_t) \<Rightarrow> nat list \<Rightarrow> gem2d_state \<Rightarrow> gem2d_state" where
  "gem2d_add exec commands s =
     (if \<not> available s then s
      else
        let s = (if \<not> is_open s then gem2d_begin s else s);
            bytes = 4 * length commands;
            s = (if kBatchSize < position s + bytes + 16 then gem2d_begin (gem2d_end exec s) else s)
        in s\<lparr>maps := (maps s)[current s := overwrite (position s div 4) commands (batch_map s)],
             position := position s + bytes\<rparr>)"

section \<open>Batches\<close>

text \<open>A batch closed over its commands: the end command, and a NOOP for an even number of dwords.\<close>

definition closed :: "nat list \<Rightarrow> nat list" where
  "closed cmds = cmds @ [MI_BATCH_BUFFER_END] @ (if even (length cmds) then [0] else [])"

definition open_commands :: "gem2d_state \<Rightarrow> nat list" where
  "open_commands s = (if is_open s then take (position s div 4) (batch_map s) else [])"

text \<open>Both mappings keep the size of a batch, and the open batch has room for the trailer.\<close>

definition gem_ok :: "gem2d_state \<Rightarrow> bool" where
  "gem_ok s \<longleftrightarrow> length (maps s) = kBatchCount \<and> list_all (\<lambda>m. length m = kBatchSize div 4) (maps s)
     \<and> current s < kBatchCount \<and> 4 dvd position s \<and> (is_open s \<longrightarrow> position s + 16 \<le> kBatchSize)"

lemma gem_okD:
  assumes "gem_ok s"
  shows "length (batch_map s) = 8192" and "current s < length (maps s)"
  using assms by (simp_all add: gem_ok_def batch_map_def kBatchSize_def kBatchCount_def list_all_length)

lemma gem_ok_put:
  assumes "gem_ok s" and "length m = 8192"
  shows "gem_ok (s\<lparr>maps := (maps s)[current s := m]\<rparr>)" and "batch_map (s\<lparr>maps := (maps s)[current s := m]\<rparr>) = m"
  using assms gem_okD [OF assms(1)]
  by (auto simp: gem_ok_def batch_map_def kBatchSize_def list_all_length nth_list_update)

lemma gem_begin_ok:
  assumes "gem_ok s" and "available s"
  shows "gem_ok (gem2d_begin s)" and "is_open (gem2d_begin s)" and "available (gem2d_begin s)"
    and "submitted (gem2d_begin s) = submitted s" and "open_commands (gem2d_begin s) = open_commands s"
    and "\<not> is_open s \<Longrightarrow> position (gem2d_begin s) = 0"
  using assms by (auto simp: gem2d_begin_def gem_ok_def open_commands_def kBatchCount_def kBatchSize_def)

lemma and_7_dwords: "4 dvd (p::nat) \<Longrightarrow> p AND 7 \<noteq> 0 \<longleftrightarrow> odd (p div 4)"
  using and_ones [of p 3] by (elim dvdE) (auto simp: mult_mod_right [of 4 _ 2, simplified, symmetric] mod_eq_0_iff_dvd)

text \<open>Closing an open batch submits its commands, if there are any.\<close>

lemma end_spec:
  assumes "gem_ok s" and "available s" and "is_open s" and "s' = gem2d_end exec s"
  shows "gem_ok s'" and "\<not> is_open s'"
    and "open_commands s = [] \<Longrightarrow> submitted s' = submitted s \<and> available s'"
    and "open_commands s \<noteq> [] \<Longrightarrow>
      submitted s' = submitted s @ [(handles s ! current s, closed (open_commands s))]
      \<and> (available s' \<longleftrightarrow> exec (length (submitted s)) = B_OK)"
proof -
  have dv: "4 dvd position s" and room: "position s + 16 \<le> 32768"
    using assms by (simp_all add: gem_ok_def kBatchSize_def)
  obtain n where n: "position s = 4 * n" using dv by (elim dvdE)
  have len: "length (batch_map s) = 8192" "current s < length (maps s)" using gem_okD [OF assms(1)] by auto
  have cmds: "open_commands s = take n (batch_map s)" "length (take n (batch_map s)) = n"
    using assms(3) n room len by (simp_all add: open_commands_def)
  have even: "position s + 4 AND 7 \<noteq> 0 \<longleftrightarrow> even n"
    using and_7_dwords [of "position s + 4"] n by simp
  let ?m = "(batch_map s)[n := MI_BATCH_BUFFER_END]"
  let ?m' = "if even n then ?m[Suc n := 0] else ?m"
  have m': "take (if even n then n + 2 else n + 1) ?m' = closed (take n (batch_map s))"
    using room n len by (auto simp: closed_def cmds(2) take_Suc_conv_app_nth take_update_swap list_update_append split: nat.split)
  have ended: "gem2d_end exec s =
     (if n = 0 then s\<lparr>is_open := False\<rparr>
      else let t = s\<lparr>is_open := False, maps := (maps s)[current s := ?m'],
                     submitted := submitted s @ [(handles s ! current s, closed (take n (batch_map s)))]\<rparr>
           in if exec (length (submitted s)) \<noteq> B_OK then t\<lparr>available := False\<rparr> else t)"
    unfolding m' [symmetric]
    using assms(2,3) n even by (simp add: gem2d_end_def Let_def batch_map_def)
  have empty: "open_commands s = [] \<longleftrightarrow> n = 0" using cmds by (metis length_0_conv take_0)
  have ok: "gem_ok (s\<lparr>maps := (maps s)[current s := ?m']\<rparr>)"
    by (rule gem_ok_put(1) [OF assms(1)]) (simp add: len)
  show "gem_ok s'" "\<not> is_open s'"
    using ok assms(1,4) unfolding ended by (auto simp: gem_ok_def Let_def)
  show "open_commands s = [] \<Longrightarrow> submitted s' = submitted s \<and> available s'"
    using assms(2,4) empty unfolding ended by simp
  show "open_commands s \<noteq> [] \<Longrightarrow>
      submitted s' = submitted s @ [(handles s ! current s, closed (open_commands s))]
      \<and> (available s' \<longleftrightarrow> exec (length (submitted s)) = B_OK)"
    using assms(2,4) empty unfolding ended by (simp add: Let_def cmds(1))
qed

text \<open>What the layer has taken: the blocks of the submitted batches and of the open one, none split.\<close>

definition taken :: "gem2d_state \<Rightarrow> nat list list \<Rightarrow> bool" where
  "taken s blocks \<longleftrightarrow> [] \<notin> set blocks \<and> list_all (\<lambda>b. length (snd b) \<le> kBatchSize div 4) (submitted s)
     \<and> (\<exists>pss ob. map snd (submitted s) = map (closed \<circ> concat) pss \<and> open_commands s = concat ob
          \<and> concat pss @ ob = blocks)"

lemma open_room: "gem_ok s \<Longrightarrow> length (closed (open_commands s)) \<le> kBatchSize div 4"
  by (auto simp: gem_ok_def open_commands_def closed_def kBatchSize_def elim!: dvdE)

lemma closed_even: "even (length (closed cmds))"
  by (simp add: closed_def)

lemma end_taken:
  assumes "gem_ok s" and "available s" and "taken s blocks"
  shows "gem_ok (gem2d_end exec s)" and "taken (gem2d_end exec s) blocks" and "\<not> is_open (gem2d_end exec s)"
    and "(\<And>i. exec i = B_OK) \<Longrightarrow> available (gem2d_end exec s)"
proof -
  obtain pss ob where ps: "map snd (submitted s) = map (closed \<circ> concat) pss" "open_commands s = concat ob"
      "concat pss @ ob = blocks" and ne: "[] \<notin> set blocks"
    using assms(3) by (auto simp: taken_def)
  let ?s = "gem2d_end exec s"
  have all: "gem_ok ?s \<and> taken ?s blocks \<and> \<not> is_open ?s \<and> ((\<forall>i. exec i = B_OK) \<longrightarrow> available ?s)"
  proof (cases "is_open s")
    case False
    then show ?thesis using assms by (simp add: gem2d_end_def)
  next
    case True
    note e = end_spec [OF assms(1,2) True refl, of exec]
    have closed_empty: "open_commands ?s = concat []" using e(2) by (simp add: open_commands_def)
    show ?thesis
    proof (cases "open_commands s = []")
      case True
      then have "ob = []" using ps(2,3) ne by (cases ob) auto
      then have "concat pss @ [] = blocks" "map snd (submitted ?s) = map (closed \<circ> concat) pss"
        using ps e(3) [OF True] by simp_all
      then show ?thesis
        using e True closed_empty ne assms(3) unfolding taken_def by auto
    next
      case False
      have "map snd (submitted ?s) = map (closed \<circ> concat) (pss @ [ob])" "concat (pss @ [ob]) @ [] = blocks"
        using e(4) [OF False] ps by simp_all
      moreover have "list_all (\<lambda>b. length (snd b) \<le> kBatchSize div 4) (submitted ?s)"
        using e(4) [OF False] open_room [OF assms(1)] assms(3) by (simp add: taken_def)
      ultimately show ?thesis using e False closed_empty ne unfolding taken_def by blast
    qed
  qed
  then show "gem_ok ?s" "taken ?s blocks" "\<not> is_open ?s" "(\<And>i. exec i = B_OK) \<Longrightarrow> available ?s" by blast+
qed

lemma begin_taken: "gem_ok s \<Longrightarrow> available s \<Longrightarrow> taken s blocks \<Longrightarrow> taken (gem2d_begin s) blocks"
  by (simp add: taken_def gem_begin_ok)

text \<open>Copying a block that fits into the open batch.\<close>

lemma append_open:
  assumes "gem_ok s" and "is_open s" and "position s + 4 * length cs + 16 \<le> kBatchSize"
    and "s' = s\<lparr>maps := (maps s)[current s := overwrite (position s div 4) cs (batch_map s)],
               position := position s + 4 * length cs\<rparr>"
  shows "gem_ok s'" and "open_commands s' = open_commands s @ cs" and "is_open s'" and "submitted s' = submitted s"
proof -
  obtain n where n: "position s = 4 * n" using assms(1) by (auto simp: gem_ok_def elim: dvdE)
  have len: "length (batch_map s) = 8192" "current s < length (maps s)" using gem_okD [OF assms(1)] by auto
  have room: "n + length cs \<le> 8192" using assms(3) n by (simp add: kBatchSize_def)
  let ?m = "overwrite n cs (batch_map s)"
  have m: "length ?m = 8192" using len room by simp
  have eq: "s' = (s\<lparr>maps := (maps s)[current s := ?m]\<rparr>)\<lparr>position := position s + 4 * length cs\<rparr>"
    using assms(4) n by simp
  note put = gem_ok_put [OF assms(1) m]
  show "gem_ok s'"
    using put(1) assms(2,3) n unfolding eq by (auto simp: gem_ok_def)
  show "open_commands s' = open_commands s @ cs"
    using put(2) assms(2) n len room unfolding eq
    by (simp add: open_commands_def batch_map_def overwrite_def add.commute [of "4 * n"])
qed (use assms(2,4) in simp_all)

lemma append_taken:
  assumes "gem_ok s" and "is_open s" and "taken s blocks" and "cs \<noteq> []"
    and "position s + 4 * length cs + 16 \<le> kBatchSize"
    and "s' = s\<lparr>maps := (maps s)[current s := overwrite (position s div 4) cs (batch_map s)],
               position := position s + 4 * length cs\<rparr>"
  shows "gem_ok s'" and "taken s' (blocks @ [cs])"
proof -
  note a = append_open [OF assms(1,2,5,6)]
  obtain pss ob where "open_commands s = concat ob" "concat pss @ ob = blocks"
      "map snd (submitted s) = map (closed \<circ> concat) pss"
    using assms(3) by (auto simp: taken_def)
  then have "open_commands s' = concat (ob @ [cs])" "concat pss @ ob @ [cs] = blocks @ [cs]"
      "map snd (submitted s') = map (closed \<circ> concat) pss"
    using a by simp_all
  then show "taken s' (blocks @ [cs])"
    using assms(3,4) a(4) unfolding taken_def by (fastforce simp del: map_map)
qed (rule append_open(1) [OF assms(1,2,5,6)])

text \<open>Adding blocks that all fit into the open batch.\<close>

lemma add_open:
  assumes "gem_ok s" and "available s" and "is_open s" and "position s + 4 * length cs + 16 \<le> kBatchSize"
  shows "gem_ok (gem2d_add exec cs s)" and "open_commands (gem2d_add exec cs s) = open_commands s @ cs"
    and "is_open (gem2d_add exec cs s)" and "submitted (gem2d_add exec cs s) = submitted s"
    and "available (gem2d_add exec cs s)" and "position (gem2d_add exec cs s) = position s + 4 * length cs"
proof -
  have eq: "gem2d_add exec cs s = s\<lparr>maps := (maps s)[current s := overwrite (position s div 4) cs (batch_map s)],
      position := position s + 4 * length cs\<rparr>"
    using assms(2,3,4) by (simp add: gem2d_add_def Let_def)
  note a = append_open [OF assms(1,3,4) eq]
  show "gem_ok (gem2d_add exec cs s)" "open_commands (gem2d_add exec cs s) = open_commands s @ cs"
    "is_open (gem2d_add exec cs s)" "submitted (gem2d_add exec cs s) = submitted s" by (fact a)+
  show "available (gem2d_add exec cs s)" "position (gem2d_add exec cs s) = position s + 4 * length cs"
    using assms(2) by (simp_all add: eq)
qed

lemma adds_open:
  assumes "gem_ok s" and "available s" and "is_open s" and "position s + 4 * length (concat blocks) + 16 \<le> kBatchSize"
  shows "gem_ok (fold (gem2d_add exec) blocks s) \<and> available (fold (gem2d_add exec) blocks s)
    \<and> is_open (fold (gem2d_add exec) blocks s) \<and> submitted (fold (gem2d_add exec) blocks s) = submitted s
    \<and> open_commands (fold (gem2d_add exec) blocks s) = open_commands s @ concat blocks"
  using assms
proof (induction blocks arbitrary: s)
  case (Cons cs blocks)
  have "position s + 4 * length cs + 16 \<le> kBatchSize" using Cons.prems(4) by simp
  note a = add_open [OF Cons.prems(1-3) this, of exec]
  show ?case using Cons.IH [OF a(1,5,3)] Cons.prems(4) a by (simp add: add_mult_distrib2)
qed simp

lemma add_taken:
  assumes "gem_ok s" and "available s" and "taken s blocks" and "cs \<noteq> []"
    and "4 * length cs + 16 \<le> kBatchSize" and "\<And>i. exec i = B_OK"
  shows "gem_ok (gem2d_add exec cs s)" and "taken (gem2d_add exec cs s) (blocks @ [cs])"
    and "available (gem2d_add exec cs s)"
proof -
  define s1 where "s1 = (if \<not> is_open s then gem2d_begin s else s)"
  have 1: "gem_ok s1" "available s1" "is_open s1" "taken s1 blocks"
    using assms(1-3) gem_begin_ok [OF assms(1,2)] begin_taken [OF assms(1,2,3)] by (auto simp: s1_def)
  define s2 where "s2 = (if kBatchSize < position s1 + 4 * length cs + 16 then gem2d_begin (gem2d_end exec s1) else s1)"
  note e = end_taken [OF 1(1,2,4), of exec]
  have 2: "gem_ok s2" "available s2" "is_open s2" "taken s2 blocks" "position s2 + 4 * length cs + 16 \<le> kBatchSize"
    using 1 e assms(5,6) gem_begin_ok [OF e(1) e(4)] begin_taken [OF e(1) e(4) e(2)] by (auto simp: s2_def)
  have add: "gem2d_add exec cs s = s2\<lparr>maps := (maps s2)[current s2 := overwrite (position s2 div 4) cs (batch_map s2)],
               position := position s2 + 4 * length cs\<rparr>"
    using assms(2) by (simp add: gem2d_add_def Let_def s2_def s1_def)
  show "gem_ok (gem2d_add exec cs s)" "taken (gem2d_add exec cs s) (blocks @ [cs])"
    using append_taken [OF 2(1,3,4) assms(4) 2(5) add] by simp_all
  show "available (gem2d_add exec cs s)" using 2(2) by (simp add: add)
qed

section \<open>Streams of commands\<close>

definition gem2d_stream :: "(nat \<Rightarrow> status_t) \<Rightarrow> nat list list \<Rightarrow> gem2d_state \<Rightarrow> gem2d_state" where
  "gem2d_stream exec blocks s = gem2d_end exec (fold (gem2d_add exec) blocks s)"

lemma adds_taken:
  assumes "gem_ok s" and "available s" and "taken s done"
    and "\<forall>cs \<in> set blocks. cs \<noteq> [] \<and> 4 * length cs + 16 \<le> kBatchSize" and "\<And>i. exec i = B_OK"
  shows "gem_ok (fold (gem2d_add exec) blocks s) \<and> available (fold (gem2d_add exec) blocks s)
    \<and> taken (fold (gem2d_add exec) blocks s) (done @ blocks)"
  using assms(1-4)
proof (induction blocks arbitrary: s "done")
  case (Cons cs blocks)
  note a = add_taken [OF Cons.prems(1-3) _ _ assms(5), of cs]
  show ?case using Cons.IH [OF a(1,3,2)] Cons.prems(4) by simp
qed simp

text \<open>C16: while the kernel accepts the batches, a sequence of non-empty blocks of commands that each fit
  a batch is submitted whole and in order: every batch is a run of consecutive blocks, none split between
  two batches, closed by the end command, of even length and at most the size of its buffer.\<close>

theorem gem2d_stream_batches:
  assumes "gem_ok s" and "available s" and "\<not> is_open s" and "submitted s = []"
    and "\<forall>cs \<in> set blocks. cs \<noteq> [] \<and> 4 * length cs + 16 \<le> kBatchSize" and "\<And>i. exec i = B_OK"
  shows "available (gem2d_stream exec blocks s)
    \<and> (\<exists>pss. concat pss = blocks \<and> map snd (submitted (gem2d_stream exec blocks s)) = map (closed \<circ> concat) pss)
    \<and> (\<forall>b \<in> set (submitted (gem2d_stream exec blocks s)). even (length (snd b)) \<and> length (snd b) \<le> kBatchSize div 4)"
proof -
  let ?s = "fold (gem2d_add exec) blocks s" and ?e = "gem2d_stream exec blocks s"
  have "taken s []" using assms(3,4) by (simp add: taken_def open_commands_def)
  then have a: "gem_ok ?s" "available ?s" "taken ?s blocks"
    using adds_taken [OF assms(1,2) _ assms(5,6), of "[]"] by simp_all
  note e = end_taken [OF a, of exec]
  have t: "taken ?e blocks" "\<not> is_open ?e" "available ?e"
    using e assms(6) by (simp_all add: gem2d_stream_def)
  obtain pss ob where p: "map snd (submitted ?e) = map (closed \<circ> concat) pss" "open_commands ?e = concat ob" "concat pss @ ob = blocks"
    using t(1) by (auto simp: taken_def)
  have "concat ob = []" using p(2) t(2) by (simp add: open_commands_def)
  then have "ob = []" using p(3) t(1) by (cases ob) (auto simp: taken_def)
  moreover have "\<forall>b \<in> set (submitted ?e). even (length (snd b))"
  proof -
    have "set (map snd (submitted ?e)) \<subseteq> range closed" unfolding p(1) by auto
    then show ?thesis using closed_even by auto
  qed
  ultimately show ?thesis using p t unfolding taken_def list_all_iff by auto
qed

definition gem2d_ready :: gem2d_state where
  "gem2d_ready = \<lparr>available = True, handles = [7, 9], maps = replicate 2 (replicate 8192 0), current = 0, position = 0,
     is_open = False, toggle_checked = 0, force_legacy_flag = False, submitted = [], closed_handles = []\<rparr>"

lemma gem2d_ready_ok: "gem_ok gem2d_ready" "available gem2d_ready" "\<not> is_open gem2d_ready" "submitted gem2d_ready = []"
  by (simp_all add: gem_ok_def gem2d_ready_def kBatchCount_def kBatchSize_def list_all_length)

lemma gem2d_stream_batches_witness:
  "\<exists>pss. concat pss = [[1, 2], [3]]
     \<and> map snd (submitted (gem2d_stream (\<lambda>i. B_OK) [[1, 2], [3]] gem2d_ready)) = map (closed \<circ> concat) pss"
  using gem2d_stream_batches [of gem2d_ready "[[1, 2], [3]]" "\<lambda>i. B_OK"] gem2d_ready_ok by (simp add: kBatchSize_def)

text \<open>When the kernel rejects a full batch the new one is never begun, and the copy goes on at the old
  position: it runs past the end of the mapping, which the model shows as a longer list.\<close>

theorem gem2d_add_after_failure:
  assumes "gem_ok s" and "available s" and "is_open s" and "0 < position s"
    and "kBatchSize < position s + 4 * length cs" and "exec (length (submitted s)) \<noteq> B_OK"
  shows "\<not> available (gem2d_add exec cs s)
    \<and> length (batch_map (gem2d_add exec cs s)) = position s div 4 + length cs
    \<and> kBatchSize div 4 < length (batch_map (gem2d_add exec cs s))"
proof -
  obtain n where n: "position s = 4 * n" using assms(1) by (auto simp: gem_ok_def elim: dvdE)
  have len: "length (batch_map s) = 8192" "current s < length (maps s)" using gem_okD [OF assms(1)] by auto
  have "open_commands s \<noteq> []" using assms(3,4) n len by (auto simp: open_commands_def)
  then have e: "\<not> available (gem2d_end exec s)" "gem_ok (gem2d_end exec s)"
    using end_spec [OF assms(1-3) refl, of exec] assms(6) by simp_all
  have keep: "position (gem2d_end exec s) = position s" "current (gem2d_end exec s) = current s"
    by (simp_all add: gem2d_end_def Let_def)
  have b: "gem2d_begin (gem2d_end exec s) = gem2d_end exec s" using e by (simp add: gem2d_begin_def)
  have len': "length (batch_map (gem2d_end exec s)) = 8192" "current s < length (maps (gem2d_end exec s))"
    using gem_okD [OF e(2)] keep by simp_all
  have add: "gem2d_add exec cs s = (gem2d_end exec s)\<lparr>
      maps := (maps (gem2d_end exec s))[current s := overwrite n cs (batch_map (gem2d_end exec s))],
      position := position s + 4 * length cs\<rparr>"
    using assms(2,3,5) n by (simp add: gem2d_add_def Let_def b keep)
  have big: "8192 < n + length cs" using assms(5) n by (simp add: kBatchSize_def)
  have "n \<le> 8192" using assms(1,3) n by (simp add: gem_ok_def kBatchSize_def)
  then show ?thesis
    using len' e(1) n big unfolding add by (simp add: batch_map_def keep overwrite_def kBatchSize_def)
qed

text \<open>Initialisation either makes both batches available, or fails and gives every batch the kernel
  created back to it.\<close>

theorem gem2d_init_all_or_nothing:
  assumes "handles s = replicate kBatchCount 0" and "length (maps s) = kBatchCount" and "closed_handles s = []"
    and "\<And>i h. create i = Some h \<Longrightarrow> h \<noteq> 0" and "\<not> available s"
  shows "case gem2d_init has_gem create clone_batch s of (st, t) \<Rightarrow>
      if st = B_OK then has_gem \<and> available t \<and> map Some (handles t) = map create [0..<kBatchCount]
        \<and> map Some (maps t) = map clone_batch [0..<kBatchCount] \<and> closed_handles t = []
      else \<not> available t \<and> handles t = replicate kBatchCount 0
        \<and> closed_handles t = (if has_gem then map the (takeWhile (\<lambda>h. h \<noteq> None)
            (map create (if create 0 \<noteq> None \<and> clone_batch 0 = None then [0] else [0..<kBatchCount]))) else [])"
proof -
  obtain m0 m1 where m: "maps s = [m0, m1]"
    using assms(2) by (auto simp: kBatchCount_def numeral_2_eq_2 length_Suc_conv)
  have idx: "[0..<kBatchCount] = [0, 1]" by (simp add: kBatchCount_def upt_rec)
  show ?thesis
    using assms m idx
    by (cases "create 0"; cases "create 1"; cases "clone_batch 0"; cases "clone_batch 1")
      (auto simp: gem2d_init_def gem2d_uninit_def kBatchCount_def Let_def numeral_2_eq_2)
qed

end
