(* ===== verification/Engine.thy ===== *)
theory Engine
  imports Engine_Queue Xy_Commands Gem2d
begin

text \<open>
  The 2D engine of the accelerant, \<open>src/intel_extreme/accelerant/engine.cpp\<close>: the batch of commands
  that the ring points to (\<open>BatchCommands\<close>), the engine management and the drawing operations, over the
  queue of \<open>Engine_Queue\<close> or the submission layer of \<open>Gem2d\<close>. Device facts, answers of the kernel, files
  and what uninitialised command objects hold are the environment; the drawing calls handed to the
  render engine are recorded.
\<close>

section \<open>State\<close>

record blit_params =
  src_left :: "16 word"
  src_top :: "16 word"
  to_left :: "16 word"
  to_top :: "16 word"
  width :: "16 word"
  height :: "16 word"

record fill_rect_params =
  left :: "16 word"
  top :: "16 word"
  right :: "16 word"
  bottom :: "16 word"

record span_params =
  span_top :: "16 word"
  span_left :: "16 word"
  span_right :: "16 word"

record engine_env =
  env_polls :: polls
  now :: int
  legacy_file :: bool
  exec_status :: "nat \<Rightarrow> status_t"
  env_screen :: screen
  is_ilk :: bool
  idle_unsupported :: bool
  status_page :: "nat option"
  render_file :: bool
  stack_blit :: xy_source_blit_command
  stack_fill :: xy_color_blit_command
  stack_setup :: xy_setup_mono_pattern_command
  stack_scan :: xy_scanline_blit_command

record engine =
  primary_ring :: ring_buffer
  last_submitted_seq :: nat
  tail_written :: nat
  batch_base :: "nat list option"
  batch_offset :: nat
  batch_size :: nat
  batch_position :: nat
  render_mode :: int
  render_calls :: "(dword \<times> 16 word \<times> 16 word \<times> 16 word \<times> 16 word) list"
  gem :: gem2d_state

section \<open>The batch buffer\<close>

definition BATCH_BUFFER_SIZE :: nat where "BATCH_BUFFER_SIZE = 64 * 1024"
definition MI_BATCH_BUFFER_START :: nat where "MI_BATCH_BUFFER_START = 0x31 * 2 ^ 23"

text \<open>\<open>alloc\<close> is the address the kernel allocates, if it does, and \<open>graphics_memory\<close> the base of the aperture.\<close>

definition init_batch_buffer :: "nat option \<Rightarrow> nat \<Rightarrow> engine \<Rightarrow> status_t \<times> engine" where
  "init_batch_buffer alloc graphics_memory e =
     (case alloc of
        None \<Rightarrow> (B_NO_MEMORY, e)
      | Some addr \<Rightarrow>
          (B_OK, e\<lparr>batch_base := Some (replicate (BATCH_BUFFER_SIZE div 4) 0), batch_offset := u32 (addr - graphics_memory),
                   batch_size := BATCH_BUFFER_SIZE\<rparr>))"

definition uninit_batch_buffer :: "engine \<Rightarrow> engine" where
  "uninit_batch_buffer e = e\<lparr>batch_base := None\<rparr>"

definition batch_buffer_available :: "engine \<Rightarrow> bool" where
  "batch_buffer_available e \<longleftrightarrow> batch_base e \<noteq> None"

definition batch_open :: "engine \<Rightarrow> engine" where
  "batch_open e = e\<lparr>batch_position := 0\<rparr>"

definition batch_put :: "nat list \<Rightarrow> engine \<Rightarrow> engine" where
  "batch_put data e =
     (if batch_size e < batch_position e + 4 * length data + 32 then e
      else e\<lparr>batch_base := map_option (overwrite (batch_position e div 4) data) (batch_base e),
             batch_position := batch_position e + 4 * length data\<rparr>)"

definition write_batch :: "nat \<Rightarrow> engine \<Rightarrow> engine" where
  "write_batch d e = e\<lparr>batch_base := map_option (\<lambda>b. b[batch_position e div 4 := d]) (batch_base e),
     batch_position := u32 (batch_position e + 4)\<rparr>"

text \<open>A queue object on the primary ring: its calls, then its destructor.\<close>

definition with_queue ::
  "engine_env \<Rightarrow> (ring_buffer \<Rightarrow> nat \<Rightarrow> (ring_buffer \<times> nat) option) \<Rightarrow> engine \<Rightarrow> nat \<Rightarrow> (engine \<times> nat) option" where
  "with_queue env calls e t =
     do {
       (r, t) \<leftarrow> calls (primary_ring e) t;
       (seq, r, tail, t) \<leftarrow> queue_close (env_polls env) (last_submitted_seq e) r t;
       Some (e\<lparr>primary_ring := r, last_submitted_seq := seq, tail_written := tail\<rparr>, t)
     }"

definition batch_trailer :: "engine \<Rightarrow> engine" where
  "batch_trailer e =
     (let seq = u32 (last_submitted_seq e + 1);
          e = e\<lparr>last_submitted_seq := seq\<rparr>;
          e = fold write_batch [MI_STORE_DWORD_INDEX, HWS_SYNC_SEQUENCE_INDEX, seq, 0, Gem2d.MI_BATCH_BUFFER_END] e
      in if batch_position e AND 0x07 \<noteq> 0 then write_batch 0 e else e)"

definition batch_close :: "engine_env \<Rightarrow> engine \<Rightarrow> nat \<Rightarrow> (engine \<times> nat) option" where
  "batch_close env e t =
     (if batch_base e = None \<or> batch_position e = 0 then Some (e, t)
      else
        let e = batch_trailer e
        in with_queue env
             (\<lambda>r t. do {
                (r, t) \<leftarrow> queue_make_space (env_polls env) 2 r t;
                Some (fold queue_write [MI_BATCH_BUFFER_START, batch_offset e] r, t)
              }) e t)"

section \<open>Engine management\<close>

definition gem_path :: "engine_env \<Rightarrow> engine \<Rightarrow> bool \<times> engine" where
  "gem_path env e = (let (ok, g) = gem2d_available (now env) (legacy_file env) (gem e) in (ok, e\<lparr>gem := g\<rparr>))"

definition intel_accelerant_engine_count :: nat where
  "intel_accelerant_engine_count = 1"

definition head_is_tail :: "poll \<Rightarrow> bool" where
  "head_is_tail p \<longleftrightarrow> read_head (idle_head_reg p) = idle_tail_reg p AND INTEL_RING_BUFFER_HEAD_MASK"

text \<open>The last loop leaves the state alone; only the poll where it stops matters.\<close>

definition wait_ring_idle :: "polls \<Rightarrow> nat \<Rightarrow> (bool \<times> nat) option" where
  "wait_ring_idle polls t =
     ring_wait polls head_is_tail (system_time (polls t) + 1000001) (Suc t)"

definition intel_wait_engine_idle :: "engine_env \<Rightarrow> engine \<Rightarrow> nat \<Rightarrow> (engine \<times> nat) option" where
  "intel_wait_engine_idle env e t =
     (if idle_unsupported env then Some (e, t)
      else
        let (_, e) = gem_path env e;
            target = last_submitted_seq e - last_submitted_seq e mod 8
        in if (case status_page env of None \<Rightarrow> False | Some stored \<Rightarrow> 0 < target \<and> target \<le> stored) then Some (e, t)
           else do {
             (e, t) \<leftarrow> with_queue env (queue_put_flush (env_polls env)) e t;
             (_, t) \<leftarrow> wait_ring_idle (env_polls env) t;
             Some (e, t)
           })"

definition intel_sync_to_token :: "engine_env \<Rightarrow> engine \<Rightarrow> nat \<Rightarrow> (status_t \<times> engine \<times> nat) option" where
  "intel_sync_to_token env e t = do { (e, t) \<leftarrow> intel_wait_engine_idle env e t; Some (B_OK, e, t) }"

definition intel_acquire_engine ::
  "engine_env \<Rightarrow> bool \<Rightarrow> bool \<Rightarrow> engine \<Rightarrow> nat \<Rightarrow> (status_t \<times> engine \<times> nat) option" where
  "intel_acquire_engine env lock_ok sync_token e t =
     (if \<not> lock_ok then Some (B_ERROR, e, t)
      else if sync_token
           then do { (_, e, t) \<leftarrow> intel_sync_to_token env e t; Some (B_OK, e, t) }
           else Some (B_OK, e, t))"

definition intel_release_engine :: "'a \<Rightarrow> 'a option \<Rightarrow> status_t \<times> 'a option" where
  "intel_release_engine engine_id sync_token = (B_OK, map_option (\<lambda>_. engine_id) sync_token)"

section \<open>Drawing\<close>

text \<open>The fields a loop sets in its command object for one element.\<close>

definition blit_of :: "xy_source_blit_command \<Rightarrow> blit_params \<Rightarrow> xy_source_blit_command" where
  "blit_of c p = c\<lparr>source_left := src_left p, source_top := src_top p, dest_left := to_left p, dest_top := to_top p,
     dest_right := to_left p + width p + 1, dest_bottom := to_top p + height p + 1\<rparr>"

definition fill_of :: "xy_color_blit_command \<Rightarrow> fill_rect_params \<Rightarrow> xy_color_blit_command" where
  "fill_of c p = c\<lparr>dest_left := left p, dest_top := top p, dest_right := right p + 1, dest_bottom := bottom p + 1\<rparr>"

definition span_scan_of :: "xy_scanline_blit_command \<Rightarrow> span_params \<Rightarrow> xy_scanline_blit_command" where
  "span_scan_of c p = c\<lparr>scan_left := span_left p, scan_top := span_top p, scan_right := span_right p, scan_bottom := span_top p\<rparr>"

definition blit_blocks :: "engine_env \<Rightarrow> blit_params list \<Rightarrow> nat list list" where
  "blit_blocks env params =
     (let blit = new_source_blit (env_screen env) (stack_blit env)
      in map (\<lambda>p. map unat (source_blit_data (blit_of blit p))) params)"

definition fill_blocks :: "engine_env \<Rightarrow> bool \<Rightarrow> dword \<Rightarrow> fill_rect_params list \<Rightarrow> nat list list" where
  "fill_blocks env invert col params =
     (let blit = (new_color_blit (env_screen env) invert (stack_fill env))\<lparr>color := col\<rparr>
      in map (\<lambda>p. map unat (color_blit_data (fill_of blit p))) params)"

definition setup_block :: "engine_env \<Rightarrow> dword \<Rightarrow> nat list" where
  "setup_block env col =
     map unat (setup_mono_pattern_data
       ((new_setup_mono_pattern (env_screen env) (stack_setup env))\<lparr>background_color := col, pattern := 0\<rparr>))"

definition scan_block :: "engine_env \<Rightarrow> span_params \<Rightarrow> nat list" where
  "scan_block env p = map unat (scanline_blit_data (span_scan_of (new_scanline_blit (stack_scan env)) p))"

text \<open>The commands of one call, in one begin and end of the submission layer, or one queue object.\<close>

definition gem_session :: "engine_env \<Rightarrow> nat list list \<Rightarrow> gem2d_state \<Rightarrow> gem2d_state" where
  "gem_session env blocks g = gem2d_end (exec_status env) (fold (gem2d_add (exec_status env)) blocks (gem2d_begin g))"

fun queue_puts :: "polls \<Rightarrow> nat list list \<Rightarrow> ring_buffer \<Rightarrow> nat \<Rightarrow> (ring_buffer \<times> nat) option" where
  "queue_puts polls [] r t = Some (r, t)"
| "queue_puts polls (b # bs) r t = do { (r, t) \<leftarrow> queue_put polls b r t; queue_puts polls bs r t }"

definition intel_screen_to_screen_blit :: "engine_env \<Rightarrow> blit_params list \<Rightarrow> engine \<Rightarrow> nat \<Rightarrow> (engine \<times> nat) option" where
  "intel_screen_to_screen_blit env params e t =
     (let (use_gem, e) = gem_path env e
      in if use_gem then Some (e\<lparr>gem := gem_session env (blit_blocks env params) (gem e)\<rparr>, t)
         else with_queue env (queue_puts (env_polls env) (blit_blocks env params)) e t)"

definition check_render_mode :: "engine_env \<Rightarrow> engine \<Rightarrow> engine" where
  "check_render_mode env e =
     (if render_mode e \<noteq> - 1 then e
      else e\<lparr>render_mode := if is_ilk env \<and> render_file env then 1 else 0\<rparr>)"

definition intel_fill_rectangle ::
  "engine_env \<Rightarrow> dword \<Rightarrow> fill_rect_params list \<Rightarrow> engine \<Rightarrow> nat \<Rightarrow> (engine \<times> nat) option" where
  "intel_fill_rectangle env col params e t =
     (let e = check_render_mode env e
      in if render_mode e = 1
         then Some (e\<lparr>render_calls := render_calls e @
                map (\<lambda>p. (col, left p, top p, right p + 1, bottom p + 1)) params\<rparr>, t)
         else
           let (use_gem, e) = gem_path env e
           in if use_gem then Some (e\<lparr>gem := gem_session env (fill_blocks env False col params) (gem e)\<rparr>, t)
              else with_queue env (queue_puts (env_polls env) (fill_blocks env False col params)) e t)"

definition intel_invert_rectangle ::
  "engine_env \<Rightarrow> fill_rect_params list \<Rightarrow> engine \<Rightarrow> nat \<Rightarrow> (engine \<times> nat) option" where
  "intel_invert_rectangle env params e t =
     (let (use_gem, e) = gem_path env e
      in if use_gem then Some (e\<lparr>gem := gem_session env (fill_blocks env True 0xffffffff params) (gem e)\<rparr>, t)
         else with_queue env (queue_puts (env_polls env) (fill_blocks env True 0xffffffff params)) e t)"

text \<open>The spans in runs of a chunk; the counter of the source does not wrap for an array that fits memory.\<close>

definition kChunk :: nat where "kChunk = 1024"

function chunks :: "'a list \<Rightarrow> 'a list list" where
  "chunks xs = (if xs = [] then [] else take kChunk xs # chunks (drop kChunk xs))"
  by pat_completeness auto
termination by (relation "measure length") (auto simp: kChunk_def)

declare chunks.simps [simp del]

definition intel_fill_span :: "engine_env \<Rightarrow> dword \<Rightarrow> span_params list \<Rightarrow> engine \<Rightarrow> nat \<Rightarrow> (engine \<times> nat) option" where
  "intel_fill_span env col params e t =
     (let (use_gem, e) = gem_path env e
      in if use_gem
         then Some (e\<lparr>gem := fold (\<lambda>chunk. gem_session env (setup_block env col # map (scan_block env) chunk))
                (chunks params) (gem e)\<rparr>, t)
         else with_queue env (queue_puts (env_polls env) (setup_block env col # map (scan_block env) params)) e t)"

section \<open>Sessions\<close>

lemma begin_open:
  assumes "gem_ok g" and "available g" and "\<not> is_open g"
  shows "open_commands (gem2d_begin g) = []" and "position (gem2d_begin g) = 0"
  using gem_begin_ok [OF assms(1,2)] assms(3) by (simp_all add: open_commands_def)

text \<open>A session whose commands fit one batch submits one batch with all of them.\<close>

lemma gem_session_one:
  assumes "gem_ok g" and "available g" and "\<not> is_open g" and "\<And>i. exec_status env i = B_OK"
    and "concat blocks \<noteq> []" and "4 * length (concat blocks) + 16 \<le> kBatchSize"
  shows "gem_ok (gem_session env blocks g) \<and> available (gem_session env blocks g) \<and> \<not> is_open (gem_session env blocks g)
    \<and> map snd (submitted (gem_session env blocks g)) = map snd (submitted g) @ [closed (concat blocks)]"
proof -
  note b = gem_begin_ok [OF assms(1,2)] and o = begin_open [OF assms(1-3)]
  have fit: "position (gem2d_begin g) + 4 * length (concat blocks) + 16 \<le> kBatchSize" using assms(6) o by simp
  let ?f = "fold (gem2d_add (exec_status env)) blocks (gem2d_begin g)"
  have f: "gem_ok ?f" "available ?f" "is_open ?f" "submitted ?f = submitted g" "open_commands ?f = concat blocks"
    using adds_open [OF b(1,3,2) fit, of "exec_status env"] b(4) o(1) by auto
  then show ?thesis
    using end_spec [OF f(1-3) refl, of "exec_status env"] assms(4,5) by (simp add: gem_session_def)
qed

lemma chunks_bounds: "chunk \<in> set (chunks xs) \<Longrightarrow> chunk \<noteq> [] \<and> length chunk \<le> kChunk"
proof (induction xs rule: chunks.induct)
  case (1 xs)
  then show ?case by (subst (asm) (2) chunks.simps) (auto simp: kChunk_def split: if_splits)
qed

lemma concat_chunks: "concat (chunks xs) = xs"
proof (induction xs rule: chunks.induct)
  case (1 xs)
  then show ?case by (subst chunks.simps) simp
qed

lemma block_lengths [simp]:
  "length (setup_block env col) = 10" "length (scan_block env p) = 3"
  by (simp_all add: setup_block_def scan_block_def)

lemma span_batch_fits:
  assumes "length chunk \<le> kChunk"
  shows "4 * length (concat (setup_block env col # map (scan_block env) chunk)) + 16 \<le> kBatchSize"
proof -
  have "length (concat (map (scan_block env) chunk)) = 3 * length chunk" by (rule length_concat_blocks) simp
  then show ?thesis using assms by (simp add: kBatchSize_def kChunk_def)
qed

text \<open>\<open>intel_fill_span\<close> over the submission layer: every run of at most 1024 spans is one batch that begins
  with its setup command, as the scanline commands require, and the runs together are the spans, in order.\<close>

theorem fill_span_batches:
  assumes "gem_ok (gem e)" and "available (gem e)" and "\<not> is_open (gem e)" and "\<And>i. exec_status env i = B_OK"
    and "\<not> fst (force_legacy (now env) (legacy_file env) (gem e))"
  shows "\<exists>e'. intel_fill_span env col spans e t = Some (e', t) \<and> primary_ring e' = primary_ring e
    \<and> map snd (submitted (gem e')) = map snd (submitted (gem e))
        @ map (\<lambda>chunk. closed (setup_block env col @ concat (map (scan_block env) chunk))) (chunks spans)
    \<and> concat (chunks spans) = spans \<and> (\<forall>chunk \<in> set (chunks spans). length chunk \<le> 1024)"
proof -
  let ?g = "snd (force_legacy (now env) (legacy_file env) (gem e))"
  have g: "gem_ok ?g" "available ?g" "\<not> is_open ?g" "submitted ?g = submitted (gem e)"
    using assms(1-3) by (auto simp: force_legacy_def Let_def gem_ok_def batch_map_def)
  have path: "gem_path env e = (True, e\<lparr>gem := ?g\<rparr>)"
    using assms(2,5)
    by (cases "force_legacy (now env) (legacy_file env) (gem e)") (simp add: gem_path_def gem2d_available_def)
  let ?s = "\<lambda>chunk. gem_session env (setup_block env col # map (scan_block env) chunk)"
  let ?c = "\<lambda>chunk. closed (setup_block env col @ concat (map (scan_block env) chunk))"
  have runs: "map snd (submitted (fold ?s cs h)) = map snd (submitted h) @ map ?c cs"
    if "gem_ok h" "available h" "\<not> is_open h" "\<forall>c \<in> set cs. length c \<le> kChunk" for cs h
    using that
  proof (induction cs arbitrary: h)
    case (Cons c cs)
    have "concat (setup_block env col # map (scan_block env) c) \<noteq> []"
      using block_lengths(1) [of env col] by (auto simp del: block_lengths)
    then have s: "gem_ok (?s c h)" "available (?s c h)" "\<not> is_open (?s c h)"
        "map snd (submitted (?s c h)) = map snd (submitted h) @ [?c c]"
      using gem_session_one [OF Cons.prems(1-3) assms(4) _ span_batch_fits] Cons.prems(4) by auto
    show ?case using Cons.IH [OF s(1-3)] Cons.prems(4) s(4) by simp
  qed simp
  have "map snd (submitted (fold ?s (chunks spans) ?g)) = map snd (submitted (gem e)) @ map ?c (chunks spans)"
    using runs [OF g(1-3)] chunks_bounds g(4) by auto
  then show ?thesis
    using chunks_bounds by (auto simp: intel_fill_span_def path concat_chunks kChunk_def)
qed


section \<open>What the commands are\<close>

definition to_words :: "nat list \<Rightarrow> dword list" where
  "to_words ds = map of_nat ds"

lemma to_words_unat [simp]: "to_words (map unat ds) = ds"
  by (simp add: to_words_def comp_def)

lemma to_words_append [simp]: "to_words (xs @ ys) = to_words xs @ to_words ys"
  by (simp add: to_words_def)

lemma to_words_concat: "to_words (concat bs) = concat (map to_words bs)"
  by (induction bs) (simp_all add: to_words_def)

lemma split_blocks:
  assumes "\<And>b. b \<in> set bs \<Longrightarrow> whole (to_words b) \<and> opcode (to_words b) = opc"
  shows "split_commands (to_words (concat bs)) = Some (map to_words bs)"
    and "map opcode (map to_words bs) = replicate (length bs) opc"
proof -
  show "split_commands (to_words (concat bs)) = Some (map to_words bs)"
    unfolding to_words_concat by (rule split_wholes) (use assms in \<open>simp add: list_all_iff\<close>)
  show "map opcode (map to_words bs) = replicate (length bs) opc"
    using assms by (induction bs) auto
qed

lemma blit_block_whole: "b \<in> set (blit_blocks env ps) \<Longrightarrow> whole (to_words b) \<and> opcode (to_words b) = [2, 0x53]"
  using source_blit_whole [of _ "env_screen env" "stack_blit env"]
  by (auto simp: blit_blocks_def Let_def blit_of_def)

lemma fill_block_whole: "b \<in> set (fill_blocks env i col ps) \<Longrightarrow> whole (to_words b) \<and> opcode (to_words b) = [2, 0x50]"
  using color_blit_whole [of _ "env_screen env" i "stack_fill env"]
  by (auto simp: fill_blocks_def Let_def fill_of_def)

lemma scan_block_whole: "whole (to_words (scan_block env p)) \<and> opcode (to_words (scan_block env p)) = [2, 0x25]"
  by (simp add: scan_block_def span_scan_of_def new_scanline_blit_def scanline_blit_whole)

lemma setup_block_parts:
  "\<exists>cmd. to_words (setup_block env col) = cmd @ [Gen_Ops.MI_NOOP] \<and> whole cmd \<and> opcode cmd = [2, 0x11]"
proof -
  let ?b = "(new_setup_mono_pattern (env_screen env) (stack_setup env))\<lparr>background_color := col, pattern := 0\<rparr>"
  have p: "setup_mono_pattern_data ?b = take 9 (setup_mono_pattern_data ?b) @ [Gen_Ops.MI_NOOP]"
    "whole (take 9 (setup_mono_pattern_data ?b))" "opcode (setup_mono_pattern_data ?b) = [2, 0x11]"
    using setup_parts [of ?b "env_screen env" "stack_setup env"] by simp_all
  have "opcode (take 9 (setup_mono_pattern_data ?b)) = opcode (setup_mono_pattern_data ?b)"
    by (simp add: opcode_def hd_take)
  then have "to_words (setup_block env col) = take 9 (setup_mono_pattern_data ?b) @ [Gen_Ops.MI_NOOP]"
    "opcode (take 9 (setup_mono_pattern_data ?b)) = [2, 0x11]"
    using p by (simp_all add: setup_block_def)
  then show ?thesis using p(2) by blast
qed

text \<open>The dwords of every drawing call are whole commands: one copy command per blit, one fill command
  per rectangle, a setup command, a no-op and one scanline command per span.\<close>

theorem drawing_commands_parse:
  "(\<exists>cs. split_commands (to_words (concat (blit_blocks env blits))) = Some cs \<and> map opcode cs = replicate (length blits) [2, 0x53])
   \<and> (\<exists>cs. split_commands (to_words (concat (fill_blocks env i col fills))) = Some cs
        \<and> map opcode cs = replicate (length fills) [2, 0x50])
   \<and> (\<exists>cs. split_commands (to_words (setup_block env col @ concat (map (scan_block env) spans))) = Some cs
        \<and> map opcode cs = [[2, 0x11], [0, 0]] @ replicate (length spans) [2, 0x25])"
proof (intro conjI)
  have n: "length (blit_blocks env blits) = length blits" "length (fill_blocks env i col fills) = length fills"
    by (simp_all add: blit_blocks_def fill_blocks_def Let_def)
  show "\<exists>cs. split_commands (to_words (concat (blit_blocks env blits))) = Some cs \<and> map opcode cs = replicate (length blits) [2, 0x53]"
    using split_blocks [of "blit_blocks env blits", OF blit_block_whole] n(1) by auto
  show "\<exists>cs. split_commands (to_words (concat (fill_blocks env i col fills))) = Some cs \<and> map opcode cs = replicate (length fills) [2, 0x50]"
    using split_blocks [of "fill_blocks env i col fills", OF fill_block_whole] n(2) by auto
  obtain cmd where cmd: "to_words (setup_block env col) = cmd @ [Gen_Ops.MI_NOOP]" "whole cmd" "opcode cmd = [2, 0x11]"
    using setup_block_parts by blast
  have scan: "whole (to_words b) \<and> opcode (to_words b) = [2, 0x25]" if "b \<in> set (map (scan_block env) spans)" for b
    using that scan_block_whole by auto
  note scans = split_blocks [of "map (scan_block env) spans", OF scan, simplified]
  have noop: "whole [Gen_Ops.MI_NOOP]" "opcode [Gen_Ops.MI_NOOP] = [0, 0]"
    by (simp_all add: whole_def command_length_def opcode_def Gen_Ops.MI_NOOP_def)
  have "split_commands (cmd @ [Gen_Ops.MI_NOOP] @ to_words (concat (map (scan_block env) spans)))
      = Some (cmd # [Gen_Ops.MI_NOOP] # map to_words (map (scan_block env) spans))"
    using split_whole [OF cmd(2)] split_whole [OF noop(1)] scans(1)
    by (simp del: split_commands.simps)
  then show "\<exists>cs. split_commands (to_words (setup_block env col @ concat (map (scan_block env) spans))) = Some cs
        \<and> map opcode cs = [[2, 0x11], [0, 0]] @ replicate (length spans) [2, 0x25]"
    using cmd(1,3) noop(2) scans(2) by auto
qed

section \<open>The batch buffer as a sink\<close>

definition batch_contents :: "engine \<Rightarrow> nat list" where
  "batch_contents e = take (batch_position e div 4) (the (batch_base e))"

definition batch_room :: "engine \<Rightarrow> nat" where
  "batch_room e = (BATCH_BUFFER_SIZE - batch_position e) div 4"

definition batch_inv :: "engine \<Rightarrow> bool" where
  "batch_inv e \<longleftrightarrow> batch_base e \<noteq> None \<and> length (the (batch_base e)) = BATCH_BUFFER_SIZE div 4
     \<and> batch_size e = BATCH_BUFFER_SIZE \<and> 4 dvd batch_position e \<and> batch_position e \<le> BATCH_BUFFER_SIZE"

lemma batch_invE:
  assumes "batch_inv e"
  obtains b n where "batch_base e = Some b" "length b = 16384" "batch_size e = 65536" "batch_position e = 4 * n" "n \<le> 16384"
    "batch_room e = 16384 - n" "batch_contents e = take n b"
proof -
  obtain b where b: "batch_base e = Some b" using assms by (auto simp: batch_inv_def)
  obtain n where n: "batch_position e = 4 * n" using assms by (auto simp: batch_inv_def elim: dvdE)
  have "(65536 - 4 * n) div 4 = 16384 - n" by (simp flip: diff_mult_distrib2 [of 4 16384 n, simplified])
  then show ?thesis
    using that [OF b _ _ n] assms b n by (auto simp: batch_inv_def BATCH_BUFFER_SIZE_def batch_room_def batch_contents_def)
qed

lemma batch_invI:
  "batch_base e = Some b \<Longrightarrow> length b = 16384 \<Longrightarrow> batch_size e = 65536 \<Longrightarrow> batch_position e = 4 * n \<Longrightarrow> n \<le> 16384 \<Longrightarrow> batch_inv e"
  by (simp add: batch_inv_def BATCH_BUFFER_SIZE_def)

interpretation batch: dword_sink write_batch batch_contents batch_room batch_inv
proof
  fix e :: engine and d
  assume inv: "batch_inv e" and room: "0 < batch_room e"
  from inv obtain b n where bn: "batch_base e = Some b" "length b = 16384" "batch_size e = 65536"
      "batch_position e = 4 * n" "n \<le> 16384" "batch_room e = 16384 - n" "batch_contents e = take n b"
    by (rule batch_invE)
  let ?e = "write_batch d e"
  have n: "n < 16384" using room bn(6) by simp
  have e: "batch_base ?e = Some (b[n := d])" "batch_position ?e = 4 * (n + 1)" "batch_size ?e = 65536"
    using bn n by (simp_all add: write_batch_def)
  show inv': "batch_inv ?e" by (rule batch_invI [OF e(1) _ e(3,2)]) (use bn(2) n in simp_all)
  have p: "batch_position ?e div 4 = Suc n" by (simp add: e(2))
  show "batch_contents ?e = batch_contents e @ [d]"
    unfolding bn(7) unfolding batch_contents_def e(1) p using n bn(2) by (simp add: take_Suc_conv_app_nth)
  show "batch_room ?e = batch_room e - 1"
    using inv' bn(6) e(2) n by (auto elim!: batch_invE)
qed

text \<open>The blocks that a batch takes: those that leave room for the trailer.\<close>

fun fitting :: "nat \<Rightarrow> nat list list \<Rightarrow> nat list list" where
  "fitting n [] = []"
| "fitting n (b # bs) = (if n + length b + 8 \<le> 16384 then b # fitting (n + length b) bs else fitting n bs)"

lemma batch_put_spec:
  assumes "batch_inv e" and "length (batch_contents e) + 8 \<le> 16384"
  shows "batch_inv (batch_put d e) \<and> last_submitted_seq (batch_put d e) = last_submitted_seq e
    \<and> length (batch_contents (batch_put d e)) + 8 \<le> 16384
    \<and> batch_contents (batch_put d e)
        = batch_contents e @ (if length (batch_contents e) + length d + 8 \<le> 16384 then d else [])"
proof -
  from assms(1) obtain b n where bn: "batch_base e = Some b" "length b = 16384" "batch_size e = 65536"
      "batch_position e = 4 * n" "n \<le> 16384" "batch_room e = 16384 - n" "batch_contents e = take n b"
    by (rule batch_invE)
  have len: "length (batch_contents e) = n" using bn by simp
  show ?thesis
  proof (cases "n + length d + 8 \<le> 16384")
    case True
    let ?e = "batch_put d e"
    have e: "batch_base ?e = Some (overwrite n d b)" "batch_size ?e = 65536" "batch_position ?e = 4 * (n + length d)"
        "last_submitted_seq ?e = last_submitted_seq e"
      using True bn by (simp_all add: batch_put_def)
    have p: "batch_position ?e div 4 = n + length d" by (simp add: e(3))
    have "batch_inv ?e" by (rule batch_invI [OF e(1) _ e(2,3)]) (use bn(2) True in simp_all)
    moreover have "batch_contents ?e = batch_contents e @ d"
      unfolding bn(7) unfolding batch_contents_def e(1) p using True bn(2) by (simp add: overwrite_def)
    ultimately show ?thesis using len True e(4) by simp
  next
    case False
    then have "batch_put d e = e" using bn by (simp add: batch_put_def)
    then show ?thesis using assms False len by simp
  qed
qed

lemma batch_puts_spec:
  assumes "batch_inv e" and "length (batch_contents e) + 8 \<le> 16384"
  shows "batch_inv (fold batch_put bs e) \<and> last_submitted_seq (fold batch_put bs e) = last_submitted_seq e
    \<and> length (batch_contents (fold batch_put bs e)) + 8 \<le> 16384
    \<and> batch_contents (fold batch_put bs e)
        = batch_contents e @ concat (fitting (length (batch_contents e)) bs)"
  using assms
proof (induction bs arbitrary: e)
  case (Cons b bs)
  note p = batch_put_spec [OF Cons.prems, of b]
  then show ?case using Cons.IH [of "batch_put b e"] by auto
qed simp

text \<open>A batch of drawing commands stays inside its buffer: it takes in order the commands that leave room
  for the trailer, then the store of the sequence number, the end command and a no-op when needed for
  an even length, and drops the others.\<close>

theorem batch_stays_inside:
  assumes "batch_base e = Some b" and "length b = 16384" and "batch_size e = BATCH_BUFFER_SIZE"
    and "e' = batch_trailer (fold batch_put blocks (batch_open e))"
  shows "batch_inv e' \<and> 8 dvd batch_position e'
    \<and> batch_contents e' = (let cmds = concat (fitting 0 blocks) in cmds @
         [MI_STORE_DWORD_INDEX, HWS_SYNC_SEQUENCE_INDEX, u32 (last_submitted_seq e + 1), 0, Gem2d.MI_BATCH_BUFFER_END]
         @ (if even (length cmds) then [0] else []))"
proof -
  define cmds where "cmds = concat (fitting 0 blocks)"
  let ?o = "batch_open e"
  have o: "batch_base ?o = Some b" "batch_size ?o = 65536" "batch_position ?o = 4 * 0"
    using assms(1,3) by (simp_all add: batch_open_def BATCH_BUFFER_SIZE_def)
  have open_inv: "batch_inv ?o" by (rule batch_invI [OF o(1) assms(2) o(2,3)]) simp
  have none: "batch_contents ?o = []" by (simp add: batch_contents_def batch_open_def)
  let ?f = "fold batch_put blocks ?o"
  have f0: "batch_inv ?f" "last_submitted_seq ?f = last_submitted_seq ?o" "length (batch_contents ?f) + 8 \<le> 16384"
      "batch_contents ?f = cmds"
    using batch_puts_spec [OF open_inv, of blocks] unfolding none cmds_def by auto
  have f: "batch_inv ?f" "last_submitted_seq ?f = last_submitted_seq e" "length cmds + 8 \<le> 16384" "batch_contents ?f = cmds"
    using f0(1,2) f0(3) [unfolded f0(4)] f0(4) by (simp_all add: batch_open_def)
  let ?seq = "u32 (last_submitted_seq e + 1)"
  let ?g = "?f\<lparr>last_submitted_seq := ?seq\<rparr>"
  let ?t = "[MI_STORE_DWORD_INDEX, HWS_SYNC_SEQUENCE_INDEX, ?seq, 0, Gem2d.MI_BATCH_BUFFER_END]"
  have same: "batch_inv ?g = batch_inv ?f" "batch_contents ?g = batch_contents ?f" "batch_room ?g = batch_room ?f"
    by (simp_all add: batch_inv_def batch_contents_def batch_room_def)
  have room: "length cmds + batch_room h = 16384 \<and> batch_position h = 4 * length cmds"
    if "batch_inv h" "batch_contents h = cmds" for h and cmds
    using that by (auto elim!: batch_invE)
  have g: "batch_inv ?g" "batch_contents ?g = cmds" using f same by simp_all
  have "length ?t \<le> batch_room ?g" using room [OF g] f(3) by simp
  from batch.puts [OF g(1) this]
  have h: "batch_inv (fold write_batch ?t ?g)" "batch_contents (fold write_batch ?t ?g) = cmds @ ?t"
      "batch_room (fold write_batch ?t ?g) = batch_room ?g - 5"
    unfolding g(2) by simp_all
  let ?h = "fold write_batch ?t ?g"
  have pos: "batch_position ?h = 4 * (length cmds + 5)" "0 < batch_room ?h"
    using room [OF h(1,2)] h(3) f(3) room [OF g] by simp_all
  have odd: "batch_position ?h AND 7 \<noteq> 0 \<longleftrightarrow> even (length cmds)"
    using and_7_dwords [of "batch_position ?h"] pos(1) by simp
  have e': "e' = (if even (length cmds) then write_batch 0 ?h else ?h)"
    unfolding assms(4) batch_trailer_def Let_def f(2) using odd by auto
  have w: "batch_inv (write_batch 0 ?h)" "batch_contents (write_batch 0 ?h) = cmds @ ?t @ [0]"
    using batch.put_inv [OF h(1) pos(2)] batch.put_contents [OF h(1) pos(2)] h(2) by simp_all
  have "batch_inv e'" "batch_contents e' = cmds @ ?t @ (if even (length cmds) then [0] else [])"
    using w h(1,2) unfolding e' by simp_all
  moreover have "8 dvd batch_position e'"
    using room [OF calculation] by (simp add: dvd_8_dwords)
  ultimately show ?thesis by (simp add: cmds_def)
qed

section \<open>Sessions on the ring\<close>

text \<open>With space counted, a reservation needs no read of the HEAD register.\<close>

lemma make_space_now:
  assumes "4 * n \<le> hw_space_left r" and "hw_space_left r < 2 ^ 32"
  shows "queue_make_space polls n r t = Some (r\<lparr>hw_space_left := hw_space_left r - 4 * n\<rparr>, Suc t)"
proof -
  have u: "u32 (n * 4) = 4 * n" using assms by simp
  have "wait_for_space polls r (4 * n) (system_time (polls t)) (Suc t) = Some (hw_space_left r, False, Suc t)"
    unfolding wait_for_space_def by (rule while_option_stop_now) (use assms(1) in simp)
  then show ?thesis using minus32_diff [OF assms] by (simp add: queue_make_space_def u)
qed

lemma queue_writes_space:
  "fold queue_write ds (r\<lparr>hw_space_left := s\<rparr>) = (fold queue_write ds r)\<lparr>hw_space_left := s\<rparr>"
proof (induction ds arbitrary: r)
  case (Cons d ds)
  have "queue_write d (r\<lparr>hw_space_left := s\<rparr>) = (queue_write d r)\<lparr>hw_space_left := s\<rparr>"
    by (simp add: queue_write_def)
  then show ?case using Cons by simp
qed simp

lemma put_now:
  assumes "queue_at k p r" and "4 * length ds \<le> hw_space_left r" and "hw_space_left r < 2 ^ 32" and "length ds \<le> 2 ^ k"
  shows "queue_put polls ds r t = Some ((fold queue_write ds r)\<lparr>hw_space_left := hw_space_left r - 4 * length ds\<rparr>, Suc t)"
  unfolding queue_put_writes [OF assms(1,4)] make_space_now [OF assms(2,3)]
  by (simp add: queue_writes_space)

lemma puts_now:
  assumes "queue_at k p r" and "4 * length (concat blocks) \<le> hw_space_left r" and "hw_space_left r < 2 ^ 32"
    and "length (concat blocks) \<le> 2 ^ k"
  shows "queue_puts polls blocks r t =
    Some ((fold queue_write (concat blocks) r)\<lparr>hw_space_left := hw_space_left r - 4 * length (concat blocks)\<rparr>, t + length blocks)"
  using assms
proof (induction blocks arbitrary: r t p)
  case (Cons b bs)
  let ?r = "(fold queue_write b r)\<lparr>hw_space_left := hw_space_left r - 4 * length b\<rparr>"
  have b: "4 * length b \<le> hw_space_left r" "length b \<le> 2 ^ k" using Cons.prems(2,4) by simp_all
  have at: "queue_at k ((p + length b) mod 2 ^ k) ?r"
    using queue_writes [OF Cons.prems(1) b(2)] by (simp add: queue_at_def)
  have "queue_puts polls bs ?r (Suc t) =
      Some ((fold queue_write (concat bs) ?r)\<lparr>hw_space_left := hw_space_left ?r - 4 * length (concat bs)\<rparr>, Suc t + length bs)"
    by (rule Cons.IH [OF at]) (use Cons.prems in simp_all)
  then show ?case
    using put_now [OF Cons.prems(1) b(1) Cons.prems(3) b(2)] by (simp add: queue_writes_space)
qed simp

text \<open>What a queue object adds to its commands: the store of every eighth sequence number, and a no-op
  for an even position.\<close>

definition seq_store :: "nat \<Rightarrow> nat list" where
  "seq_store seq = (if seq mod 8 = 0 then [MI_STORE_DWORD_INDEX, HWS_SYNC_SEQUENCE_INDEX, seq, 0] else [])"

lemma write_aligned:
  assumes "queue_at k p r" and "r' = (if hw_position r AND 0x07 \<noteq> 0 then queue_write COMMAND_NOOP r else r)"
  shows "r' = fold queue_write (if odd p then [0] else []) r" and "8 dvd hw_position r'"
proof -
  note d = queue_atD [OF assms(1)] and w = queue_write_at [OF assms(1), of 0]
  have odd: "hw_position r AND 7 \<noteq> 0 \<longleftrightarrow> odd p" using and_7_dwords [of "hw_position r"] d(3) by simp
  show eq: "r' = fold queue_write (if odd p then [0] else []) r" using assms(2) odd by (simp add: COMMAND_NOOP_def)
  have "even ((2::nat) ^ k)" using d(6) by (cases k) auto
  then have "odd p \<Longrightarrow> even ((p + 1) mod 2 ^ k)" by (simp add: dvd_mod)
  then show "8 dvd hw_position r'" unfolding eq using d(3) w by (auto simp: dvd_8_dwords)
qed

lemma queue_session:
  assumes "queue_at k p (primary_ring e)" and "4 * length (concat blocks) + 16 \<le> hw_space_left (primary_ring e)"
    and "hw_space_left (primary_ring e) \<le> 4 * 2 ^ k" and "seq = u32 (last_submitted_seq e + 1)"
    and "cmds = concat blocks @ seq_store seq"
  shows "\<exists>e' t'. with_queue env (queue_puts (env_polls env) blocks) e t = Some (e', t')
    \<and> hw_base (primary_ring e') = hw_base (fold queue_write (cmds @ (if odd (p + length cmds) then [0] else [])) (primary_ring e))
    \<and> queue_at k ((p + length cmds + of_bool (odd (p + length cmds))) mod 2 ^ k) (primary_ring e')
    \<and> tail_written e' = hw_position (primary_ring e') \<and> 8 dvd tail_written e'
    \<and> last_submitted_seq e' = seq \<and> gem e' = gem e
    \<and> hw_space_left (primary_ring e') = hw_space_left (primary_ring e) - 4 * length cmds"
proof -
  let ?r = "primary_ring e" and ?polls = "env_polls env"
  have k: "(2::nat) ^ k \<le> 2 ^ 19" by (rule queue_atD [OF assms(1)])
  have sp: "hw_space_left ?r < 2 ^ 32" "length (concat blocks) + 4 \<le> 2 ^ k" using assms(2,3) k by simp_all
  let ?s = "hw_space_left ?r - 4 * length (concat blocks)"
  let ?r1 = "(fold queue_write (concat blocks) ?r)\<lparr>hw_space_left := ?s\<rparr>"
  have puts: "queue_puts ?polls blocks ?r t = Some (?r1, t + length blocks)"
    by (rule puts_now [OF assms(1)]) (use assms(2) sp in simp_all)
  have r1: "queue_at k ((p + length (concat blocks)) mod 2 ^ k) ?r1"
    using queue_writes [OF assms(1), of "concat blocks"] sp(2) by (simp add: queue_at_def)
  have seq8: "seq AND 0x07 = seq mod 8" using and_ones [of seq 3] by simp
  let ?r2 = "(fold queue_write cmds ?r)\<lparr>hw_space_left := hw_space_left ?r - 4 * length cmds\<rparr>"
  obtain t2 where store: "(if seq AND 0x07 = 0
      then do { (r, t) \<leftarrow> queue_make_space ?polls 4 ?r1 (t + length blocks);
                Some (fold queue_write [MI_STORE_DWORD_INDEX, HWS_SYNC_SEQUENCE_INDEX, seq, 0] r, t) }
      else Some (?r1, t + length blocks)) = Some (?r2, t2)"
  proof (cases "seq mod 8 = 0")
    case True
    have "queue_make_space ?polls 4 ?r1 (t + length blocks) = Some (?r1\<lparr>hw_space_left := hw_space_left ?r1 - 4 * 4\<rparr>, Suc (t + length blocks))"
      by (rule make_space_now) (use assms(2) sp in simp_all)
    then show ?thesis
      using that True by (simp add: seq8 assms(5) seq_store_def queue_writes_space [of "[_]", simplified])
  next
    case False
    then show ?thesis using that by (simp add: seq8 assms(5) seq_store_def)
  qed
  have r2: "queue_at k ((p + length cmds) mod 2 ^ k) ?r2"
    using queue_writes [OF assms(1), of cmds] sp(2) by (simp add: queue_at_def assms(5) seq_store_def)
  let ?r3 = "if hw_position ?r2 AND 0x07 \<noteq> 0 then queue_write COMMAND_NOOP ?r2 else ?r2"
  note a = write_aligned [OF r2 refl]
  have "even ((2::nat) ^ k)" using queue_atD(6) [OF assms(1)] by (cases k) auto
  then have odd: "odd ((p + length cmds) mod 2 ^ k) \<longleftrightarrow> odd (p + length cmds)" by (simp add: dvd_mod_iff)
  have base: "hw_base ?r3 = hw_base (fold queue_write (cmds @ (if odd (p + length cmds) then [0] else [])) ?r)"
      "hw_space_left ?r3 = hw_space_left ?r - 4 * length cmds"
    unfolding a(1) odd by (simp_all add: queue_writes_space)
  have at: "queue_at k ((p + length cmds + of_bool (odd (p + length cmds))) mod 2 ^ k) ?r3"
    using queue_writes [OF r2, of "if odd (p + length cmds) then [0] else []"] r2 queue_atD(6) [OF assms(1)]
    unfolding a(1) odd by (auto simp: mod_simps)
  have "with_queue env (queue_puts ?polls blocks) e t =
      Some (e\<lparr>primary_ring := ?r3, last_submitted_seq := seq, tail_written := hw_position ?r3\<rparr>, t2)"
    using puts store unfolding with_queue_def queue_close_def assms(4) [symmetric] Let_def by simp
  then show ?thesis using base a(2) at by simp
qed

lemma blit_blocks_length: "length (concat (blit_blocks env params)) = 8 * length params"
  unfolding blit_blocks_def Let_def by (rule length_concat_blocks) simp


lemma word_eq_via: "unat (a :: dword) = unat b \<Longrightarrow> a = b"
  by (rule unsigned_word_eqI)

lemma unat_up: "unat (ucast (a :: 16 word) :: dword) = unat a"
  using unsigned_less [of a, where ?'a = nat] by (simp add: unsigned_ucast_eq take_bit_nat_eq_self)

lemma unat_down: "(d :: dword) < 2 ^ 16 \<Longrightarrow> unat (ucast d :: 16 word) = unat d"
  by (simp add: unsigned_ucast_eq take_bit_nat_eq_self word_less_nat_alt)


section \<open>Witnesses\<close>

definition example_env :: "bool \<Rightarrow> engine_env" where
  "example_env legacy = \<lparr>env_polls = example_polls 80 0, now = 0, legacy_file = legacy, exec_status = (\<lambda>i. B_OK),
     env_screen = \<lparr>bits_per_pixel = 32, bytes_per_row = 5632, frame_buffer_offset = 0\<rparr>, is_ilk = True,
     idle_unsupported = False, status_page = Some 0, render_file = False,
     stack_blit = \<lparr>cmd_opcode = 0, dest_bytes_per_row = 0, raster_operation = 0, mode = 0, dest_left = 0, dest_top = 0,
       dest_right = 0, dest_bottom = 0, dest_base = 0, source_left = 0, source_top = 0, source_bytes_per_row = 0,
       reserved = 7, source_base = 0\<rparr>,
     stack_fill = \<lparr>cmd_opcode = 0, dest_bytes_per_row = 0, raster_operation = 0, mode = 0, dest_left = 0, dest_top = 0,
       dest_right = 0, dest_bottom = 0, dest_base = 0, color = 0\<rparr>,
     stack_setup = \<lparr>cmd_opcode = 0, dest_bytes_per_row = 0, raster_operation = 0, mode = 0, dest_left = 0, dest_top = 0,
       dest_right = 0, dest_bottom = 0, dest_base = 0, background_color = 0, foreground_color = 5, padding = 9, pattern = 3\<rparr>,
     stack_scan = \<lparr>cmd_opcode = 0, scan_left = 0, scan_top = 0, scan_right = 0, scan_bottom = 0\<rparr>\<rparr>"

definition example_engine :: "bool \<Rightarrow> engine" where
  "example_engine ok = \<lparr>primary_ring = example_queue\<lparr>hw_space_left := 4096\<rparr>, last_submitted_seq = 7, tail_written = 40,
     batch_base = Some (replicate 16384 0), batch_offset = 4096, batch_size = BATCH_BUFFER_SIZE, batch_position = 0,
     render_mode = 0, render_calls = [], gem = gem2d_ready\<lparr>available := ok\<rparr>\<rparr>"

definition example_blit :: blit_params where
  "example_blit = \<lparr>src_left = 0, src_top = 0, to_left = 10, to_top = 20, width = 99, height = 49\<rparr>"



end
