(* ===== verification/Gpu_Bo.thy ===== *)
theory Gpu_Bo
  imports Gen_Ops "HOL-Library.Multiset"
begin

text \<open>
  The buffer objects of \<open>src/intel_extreme/accelerant/gpu_bo.{h,cpp}\<close>: allocation with the table of live
  objects, and checked access to the bytes through the CPU mapping; and the decoding parts of
  \<open>gpu_debug.cpp\<close>. A \<open>gpu_bo*\<close> is a value of a type \<open>'p\<close> of places that hold a \<open>gpu_bo\<close>, a NULL pointer
  is \<open>None\<close>; the graphics memory is a map from addresses to bytes. The kernel's allocator
  (\<open>memory.cpp\<close> only passes the ioctl on) is a parameter: the status and the base address it answers.
\<close>

section \<open>State\<close>

type_synonym byte = "8 word"
type_synonym memory = "nat \<Rightarrow> byte"

record gpu_bo =
  cpu_addr :: nat
  gtt_offset :: nat
  bo_size :: nat
  alignment :: nat
  bo_name :: "string option"
  bo_valid :: bool

definition zero_bo :: gpu_bo where
  "zero_bo = \<lparr>cpu_addr = 0, gtt_offset = 0, bo_size = 0, alignment = 0, bo_name = None, bo_valid = False\<rparr>"

definition MAX_TRACKED_BOS :: nat where
  "MAX_TRACKED_BOS = 32"

record 'p bo_state =
  live_bos :: "'p option list"
  live_count :: nat
  bos :: "'p \<Rightarrow> gpu_bo"
  memory :: memory

section \<open>Allocation\<close>

text \<open>The first index below the table size with a property, as the loops find it.\<close>

definition first_slot :: "('p option \<Rightarrow> bool) \<Rightarrow> 'p bo_state \<Rightarrow> nat option" where
  "first_slot P s = find (\<lambda>i. P (live_bos s ! i)) [0..<MAX_TRACKED_BOS]"

definition track_alloc :: "'p \<Rightarrow> 'p bo_state \<Rightarrow> 'p bo_state" where
  "track_alloc p s =
     (case first_slot (\<lambda>e. e = None) s of
        Some i \<Rightarrow> s\<lparr>live_bos := (live_bos s)[i := Some p], live_count := u32 (live_count s + 1)\<rparr>
      | None \<Rightarrow> s)"

definition track_free :: "'p \<Rightarrow> 'p bo_state \<Rightarrow> 'p bo_state" where
  "track_free p s =
     (case first_slot (\<lambda>e. e = Some p) s of
        Some i \<Rightarrow> s\<lparr>live_bos := (live_bos s)[i := None], live_count := minus32 (live_count s) 1\<rparr>
      | None \<Rightarrow> s)"

text \<open>\<open>allocator sz\<close> is what \<open>intel_allocate_memory\<close> answers, \<open>graphics_memory\<close> the start of the aperture
  in the address space.\<close>

definition gpu_bo_alloc ::
  "(nat \<Rightarrow> status_t \<times> nat) \<Rightarrow> nat \<Rightarrow> 'p option \<Rightarrow> string option \<Rightarrow> nat \<Rightarrow> nat \<Rightarrow> 'p bo_state \<Rightarrow> status_t \<times> 'p bo_state" where
  "gpu_bo_alloc allocator graphics_memory bo name sz align s =
     (case bo of
        None \<Rightarrow> (B_BAD_VALUE, s)
      | Some p \<Rightarrow>
          let s = s\<lparr>bos := (bos s)(p := zero_bo)\<rparr>
          in if sz = 0 then (B_BAD_VALUE, s)
             else
               let (status, base) = allocator sz
               in if status \<noteq> B_OK then (status, s)
                  else (B_OK, track_alloc p
                    (s\<lparr>bos := (bos s)(p := \<lparr>cpu_addr = base,
                         gtt_offset = u32 (base + (2 ^ 64 - graphics_memory)),
                         bo_size = sz, alignment = align, bo_name = name, bo_valid = True\<rparr>)\<rparr>)))"

definition gpu_bo_free :: "'p option \<Rightarrow> 'p bo_state \<Rightarrow> 'p bo_state" where
  "gpu_bo_free bo s =
     (case bo of
        None \<Rightarrow> s
      | Some p \<Rightarrow>
          if \<not> bo_valid (bos s p) then s
          else let s = track_free p s in s\<lparr>bos := (bos s)(p := zero_bo)\<rparr>)"

section \<open>Access\<close>

definition set_bytes :: "nat \<Rightarrow> byte list \<Rightarrow> memory \<Rightarrow> memory" where
  "set_bytes a bs m = (\<lambda>x. if a \<le> x \<and> x < a + length bs then bs ! (x - a) else m x)"

definition gpu_bo_clear :: "'p option \<Rightarrow> 'p bo_state \<Rightarrow> 'p bo_state" where
  "gpu_bo_clear bo s =
     (case bo of
        None \<Rightarrow> s
      | Some p \<Rightarrow>
          if \<not> bo_valid (bos s p) then s
          else s\<lparr>memory := set_bytes (cpu_addr (bos s p)) (replicate (bo_size (bos s p)) 0) (memory s)\<rparr>)"

text \<open>A \<open>uint32\<close> in memory, low byte first.\<close>

definition dword_bytes :: "dword \<Rightarrow> byte list" where
  "dword_bytes v = [ucast v, ucast (drop_bit 8 v), ucast (drop_bit 16 v), ucast (drop_bit 24 v)]"

definition read_dword :: "memory \<Rightarrow> nat \<Rightarrow> dword" where
  "read_dword m a =
     ucast (m a) OR push_bit 8 (ucast (m (a + 1))) OR push_bit 16 (ucast (m (a + 2)))
       OR push_bit 24 (ucast (m (a + 3)))"

definition gpu_bo_write32 :: "'p option \<Rightarrow> nat \<Rightarrow> dword \<Rightarrow> 'p bo_state \<Rightarrow> 'p bo_state" where
  "gpu_bo_write32 bo offset value s =
     (case bo of
        None \<Rightarrow> s
      | Some p \<Rightarrow>
          if \<not> bo_valid (bos s p) then s
          else if bo_size (bos s p) < u32 (offset + 4) then s
          else s\<lparr>memory := set_bytes (cpu_addr (bos s p) + offset) (dword_bytes value) (memory s)\<rparr>)"

definition gpu_bo_read32 :: "'p option \<Rightarrow> nat \<Rightarrow> 'p bo_state \<Rightarrow> dword" where
  "gpu_bo_read32 bo offset s =
     (case bo of
        None \<Rightarrow> 0
      | Some p \<Rightarrow>
          if \<not> bo_valid (bos s p) then 0
          else if bo_size (bos s p) < u32 (offset + 4) then 0
          else read_dword (memory s) (cpu_addr (bos s p) + offset))"

definition gpu_bo_write :: "'p option \<Rightarrow> nat \<Rightarrow> byte list option \<Rightarrow> 'p bo_state \<Rightarrow> 'p bo_state" where
  "gpu_bo_write bo offset data s =
     (case (bo, data) of
        (Some p, Some bs) \<Rightarrow>
          if \<not> bo_valid (bos s p) then s
          else if bo_size (bos s p) < u32 (offset + length bs) then s
          else s\<lparr>memory := set_bytes (cpu_addr (bos s p) + offset) bs (memory s)\<rparr>
      | _ \<Rightarrow> s)"

definition gpu_bo_live_count :: "'p bo_state \<Rightarrow> nat" where
  "gpu_bo_live_count s = live_count s"

section \<open>Debug decoding\<close>

definition gpu_debug_marker_dwords :: "dword \<Rightarrow> dword \<Rightarrow> dword list" where
  "gpu_debug_marker_dwords gtt tag = [push_bit 23 0x20 OR push_bit 22 1 OR 2, 0, gtt, tag]"

definition ipehr_cmd_name :: "dword \<Rightarrow> dword \<Rightarrow> dword \<Rightarrow> dword \<Rightarrow> string" where
  "ipehr_cmd_name ty pipeline op sub_op =
     (if ty = 0 then
        (if op = 0x00 then (if sub_op = 0 then ''MI_NOOP'' else ''MI_*'')
         else if op = 0x02 then ''MI_USER_INTERRUPT''
         else if op = 0x04 then ''MI_FLUSH''
         else if op = 0x05 then ''MI_BATCH_BUFFER_END''
         else if op = 0x0a then ''MI_ARB_ON_OFF''
         else if op = 0x20 then ''MI_STORE_DATA_IMM''
         else if op = 0x21 then ''MI_STORE_DATA_INDEX''
         else if op = 0x31 then ''MI_BATCH_BUFFER_START''
         else ''MI_?'')
      else if ty = 2 then
        (if op = 0x40 then ''COLOR_BLT''
         else if op = 0x50 then ''XY_COLOR_BLT''
         else if op = 0x53 then ''XY_SRC_COPY_BLT''
         else ''2D_?'')
      else if ty = 3 then
        (if pipeline = 0 then
           (if op = 0 then
              (if sub_op = 0x00 then ''URB_FENCE''
               else if sub_op = 0x01 then ''CS_URB_STATE''
               else if sub_op = 0x02 then ''CONSTANT_BUFFER''
               else ''COMMON_0_?'')
            else if op = 1 then
              (if sub_op = 0x01 then ''STATE_BASE_ADDRESS''
               else if sub_op = 0x02 then ''STATE_SIP''
               else ''COMMON_1_?'')
            else ''COMMON_?'')
         else if pipeline = 1 then
           (if op = 1 \<and> sub_op = 0x04 then ''PIPELINE_SELECT'' else ''SINGLE_DW_?'')
         else if pipeline = 2 then
           (if op = 0 then (if sub_op = 0x00 then ''MEDIA_STATE_POINTERS'' else ''MEDIA_0_?'')
            else if op = 1 then
              (if sub_op = 0x00 then ''MEDIA_OBJECT''
               else if sub_op = 0x01 then ''MEDIA_OBJECT_EX''
               else if sub_op = 0x03 then ''MEDIA_OBJECT_WALKER''
               else ''MEDIA_1_?'')
            else ''MEDIA_?'')
         else if pipeline = 3 then
           (if op = 1 \<and> sub_op = 0x05 then ''3DSTATE_DEPTH_BUFFER''
            else if op = 0 \<and> sub_op = 0x18 then ''3DPRIMITIVE''
            else ''3D_?'')
         else ''UNKNOWN'')
      else ''UNKNOWN'')"

text \<open>The name that \<open>log_ipehr\<close> prints for a header.\<close>

definition log_ipehr :: "dword \<Rightarrow> string" where
  "log_ipehr ipehr =
     (let ty = drop_bit 29 ipehr AND 0x7;
          pipeline = drop_bit 27 ipehr AND 0x3;
          op = drop_bit 24 ipehr AND 0x7;
          sub_op = drop_bit 16 ipehr AND 0xff
      in ipehr_cmd_name ty pipeline op sub_op)"

section \<open>The table of live objects\<close>

text \<open>The table has its 32 entries and the count is the number of entries in use.\<close>

definition used :: "'p option list \<Rightarrow> 'p list" where
  "used xs = concat (map (\<lambda>e. case e of None \<Rightarrow> [] | Some p \<Rightarrow> [p]) xs)"

definition live_entries :: "'p bo_state \<Rightarrow> 'p list" where
  "live_entries s = used (live_bos s)"

definition table_ok :: "'p bo_state \<Rightarrow> bool" where
  "table_ok s \<longleftrightarrow> length (live_bos s) = MAX_TRACKED_BOS \<and> live_count s = length (live_entries s)"

lemma used_update:
  assumes "i < length xs"
  shows "mset (used (xs[i := e])) + mset (used [xs ! i]) = mset (used xs) + mset (used [e])"
proof -
  have xs: "xs = take i xs @ [xs ! i] @ drop (Suc i) xs"
    using assms by (simp add: id_take_nth_drop [symmetric])
  have up: "xs[i := e] = take i xs @ [e] @ drop (Suc i) xs"
    using assms by (simp add: upd_conv_take_nth_drop)
  have app: "mset (used (us @ vs)) = mset (used us) + mset (used vs)" for us vs :: "'a option list"
    by (simp add: used_def)
  have "mset (used xs) = mset (used (take i xs)) + mset (used [xs ! i]) + mset (used (drop (Suc i) xs))"
    by (subst xs) (simp only: app ac_simps)
  then show ?thesis unfolding up app by (simp add: ac_simps)
qed

lemma used_simps [simp]: "used [None] = []" "used [Some p] = [p]"
  by (simp_all add: used_def)

lemma length_used: "length (used xs) + length (filter (\<lambda>e. e = None) xs) = length xs"
  by (induction xs) (auto simp: used_def split: option.split)

lemma in_used: "p \<in> set (used xs) \<longleftrightarrow> Some p \<in> set xs"
  by (auto simp: used_def split: option.splits)

lemma first_slot_SomeD:
  assumes "first_slot P s = Some i" and "length (live_bos s) = MAX_TRACKED_BOS"
  shows "i < length (live_bos s)" and "P (live_bos s ! i)"
  using assms by (auto simp: first_slot_def find_Some_iff)

lemma first_slot_NoneD:
  assumes "first_slot P s = None" and "length (live_bos s) = MAX_TRACKED_BOS"
  shows "\<forall>e \<in> set (live_bos s). \<not> P e"
  using assms by (auto simp: first_slot_def find_None_iff in_set_conv_nth)

lemma used_full: "length (used xs) < length xs \<longleftrightarrow> None \<in> set xs"
proof -
  have "filter (\<lambda>e. e = None) xs = [] \<longleftrightarrow> None \<notin> set xs" by (induction xs) auto
  with length_used [of xs] show ?thesis by (cases "filter (\<lambda>e. e = None) xs") auto
qed

lemma live_bound: "table_ok s \<Longrightarrow> live_count s \<le> MAX_TRACKED_BOS"
  using length_used [of "live_bos s"] by (simp add: table_ok_def live_entries_def)

lemma track_alloc_ok:
  assumes "table_ok s"
  shows "table_ok (track_alloc p s)"
    and "mset (live_entries (track_alloc p s)) =
      (if live_count s < MAX_TRACKED_BOS then add_mset p (mset (live_entries s)) else mset (live_entries s))"
proof -
  have len: "length (live_bos s) = MAX_TRACKED_BOS" "live_count s = length (used (live_bos s))"
    using assms by (simp_all add: table_ok_def live_entries_def)
  have both: "table_ok (track_alloc p s) \<and> mset (live_entries (track_alloc p s)) =
      (if live_count s < MAX_TRACKED_BOS then add_mset p (mset (live_entries s)) else mset (live_entries s))"
  proof (cases "first_slot (\<lambda>e. e = None) s")
    case None
    then have "\<not> live_count s < MAX_TRACKED_BOS"
      using first_slot_NoneD [OF None len(1)] used_full [of "live_bos s"] len by auto
    with None assms show ?thesis by (simp add: track_alloc_def)
  next
    case (Some i)
    note i = first_slot_SomeD [OF Some len(1)]
    have m: "mset (used ((live_bos s)[i := Some p])) = add_mset p (mset (used (live_bos s)))"
      using used_update [OF i(1), of "Some p"] i(2) by simp
    have "None \<in> set (live_bos s)" using i by (metis nth_mem)
    then have lt: "live_count s < MAX_TRACKED_BOS" using used_full [of "live_bos s"] len by simp
    have "length (used ((live_bos s)[i := Some p])) = Suc (live_count s)"
      using arg_cong [OF m, of size] len(2) by simp
    with Some m lt len show ?thesis
      by (simp add: track_alloc_def table_ok_def live_entries_def MAX_TRACKED_BOS_def)
  qed
  then show "table_ok (track_alloc p s)" "mset (live_entries (track_alloc p s)) =
      (if live_count s < MAX_TRACKED_BOS then add_mset p (mset (live_entries s)) else mset (live_entries s))"
    by blast+
qed

lemma track_free_ok:
  assumes "table_ok s"
  shows "table_ok (track_free p s)" and "mset (live_entries (track_free p s)) = mset (live_entries s) - {#p#}"
proof -
  have len: "length (live_bos s) = MAX_TRACKED_BOS" "live_count s = length (used (live_bos s))"
    using assms by (simp_all add: table_ok_def live_entries_def)
  have "table_ok (track_free p s) \<and> mset (live_entries (track_free p s)) = mset (live_entries s) - {#p#}"
  proof (cases "first_slot (\<lambda>e. e = Some p) s")
    case None
    then have "p \<notin> set (used (live_bos s))"
      using first_slot_NoneD [OF None len(1)] by (auto simp: in_used)
    with None assms show ?thesis by (simp add: track_free_def live_entries_def diff_single_trivial)
  next
    case (Some i)
    note i = first_slot_SomeD [OF Some len(1)]
    have m: "add_mset p (mset (used ((live_bos s)[i := None]))) = mset (used (live_bos s))"
      using used_update [OF i(1), of None] i(2) by simp
    have n: "Suc (length (used ((live_bos s)[i := None]))) = live_count s"
      using arg_cong [OF m, of size] len(2) by simp
    then have "minus32 (live_count s) 1 = length (used ((live_bos s)[i := None]))"
      using live_bound [OF assms] by (simp add: minus32_diff MAX_TRACKED_BOS_def)
    with Some len m show ?thesis
      by (simp add: track_free_def table_ok_def live_entries_def flip: m)
  qed
  then show "table_ok (track_free p s)" "mset (live_entries (track_free p s)) = mset (live_entries s) - {#p#}"
    by blast+
qed


section \<open>Reachable states\<close>

text \<open>The steps of a client that allocates only into objects that hold no allocation.\<close>

inductive bo_reach :: "'p bo_state \<Rightarrow> bool" where
  start: "live_bos s = replicate MAX_TRACKED_BOS None \<Longrightarrow> live_count s = 0 \<Longrightarrow> bo_reach s"
| alloc_step: "bo_reach s \<Longrightarrow> \<not> bo_valid (bos s p) \<Longrightarrow> gpu_bo_alloc allocator gm (Some p) name sz al s = (st, s')
    \<Longrightarrow> bo_reach s'"
| free_step: "bo_reach s \<Longrightarrow> bo_reach (gpu_bo_free bo s)"
| clear_step: "bo_reach s \<Longrightarrow> bo_reach (gpu_bo_clear bo s)"
| write32_step: "bo_reach s \<Longrightarrow> bo_reach (gpu_bo_write32 bo offset v s)"
| write_step: "bo_reach s \<Longrightarrow> bo_reach (gpu_bo_write bo offset data s)"

definition bo_inv :: "'p bo_state \<Rightarrow> bool" where
  "bo_inv s \<longleftrightarrow> table_ok s \<and> distinct (live_entries s) \<and> (\<forall>p \<in> set (live_entries s). bo_valid (bos s p))"

lemma table_only:
  "live_bos s' = live_bos s \<Longrightarrow> live_count s' = live_count s \<Longrightarrow> bos s' = bos s \<Longrightarrow> bo_inv s' = bo_inv s"
  by (simp add: bo_inv_def table_ok_def live_entries_def)

lemma access_keeps_inv [simp]:
  "bo_inv (gpu_bo_clear bo s) = bo_inv s" "bo_inv (gpu_bo_write32 bo offset v s) = bo_inv s"
  "bo_inv (gpu_bo_write bo offset data s) = bo_inv s"
  by (rule table_only; simp add: gpu_bo_clear_def gpu_bo_write32_def gpu_bo_write_def split: option.split)+

lemma track_bos [simp]: "bos (track_alloc p s) = bos s" "bos (track_free p s) = bos s"
  by (simp_all add: track_alloc_def track_free_def split: option.split)

lemma bos_only:
  "table_ok (s\<lparr>bos := f\<rparr>) = table_ok s" "live_entries (s\<lparr>bos := f\<rparr>) = live_entries s"
  "live_count (s\<lparr>bos := f\<rparr>) = live_count s" "live_bos (s\<lparr>bos := f\<rparr>) = live_bos s"
  by (simp_all add: table_ok_def live_entries_def)

lemma alloc_effect:
  assumes "bo_inv s" and "\<not> bo_valid (bos s p)" and "gpu_bo_alloc allocator gm (Some p) name sz al s = (st, s')"
  shows "bo_inv s'"
    and "set (live_entries s') =
      (if st = B_OK \<and> live_count s < MAX_TRACKED_BOS then insert p (set (live_entries s)) else set (live_entries s))"
    and "bo_valid (bos s' p) = (st = B_OK)"
proof -
  have fresh: "p \<notin> set (live_entries s)" using assms(1,2) by (auto simp: bo_inv_def)
  have kept: "bo_inv (s\<lparr>bos := (bos s)(p := b)\<rparr>)" for b
    using assms(1) fresh by (auto simp: bo_inv_def bos_only)
  have tracked: "bo_inv (track_alloc p t) \<and> set (live_entries (track_alloc p t)) =
      (if live_count s < MAX_TRACKED_BOS then insert p (set (live_entries s)) else set (live_entries s))"
    if t: "t = s\<lparr>bos := (bos s)(p := b)\<rparr>" and b: "bo_valid b" for t b
  proof -
    have ok: "table_ok t" using kept by (simp add: t bo_inv_def)
    have m: "mset (live_entries (track_alloc p t)) =
        (if live_count s < MAX_TRACKED_BOS then add_mset p (mset (live_entries s)) else mset (live_entries s))"
      using track_alloc_ok(2) [OF ok, of p] by (simp add: t bos_only)
    then have e: "set (live_entries (track_alloc p t)) =
        (if live_count s < MAX_TRACKED_BOS then insert p (set (live_entries s)) else set (live_entries s))"
      by (metis set_mset_mset set_mset_add_mset_insert)
    have "distinct (p # live_entries s)" "distinct (live_entries s)" using assms(1) fresh by (auto simp: bo_inv_def)
    then have "distinct (live_entries (track_alloc p t))"
      using m by (metis mset.simps(2) mset_eq_imp_distinct_iff)
    moreover have "\<forall>q \<in> set (live_entries (track_alloc p t)). bo_valid (bos (track_alloc p t) q)"
      using assms(1) b unfolding e by (auto simp: bo_inv_def t)
    ultimately show ?thesis using track_alloc_ok(1) [OF ok] e by (simp add: bo_inv_def)
  qed
  show "bo_inv s'" "set (live_entries s') =
      (if st = B_OK \<and> live_count s < MAX_TRACKED_BOS then insert p (set (live_entries s)) else set (live_entries s))"
    "bo_valid (bos s' p) = (st = B_OK)"
    using assms(3) kept tracked
    by (auto simp: gpu_bo_alloc_def Let_def bos_only zero_bo_def split: if_splits prod.splits)
qed

lemma free_effect:
  assumes "bo_inv s"
  shows "bo_inv (gpu_bo_free (Some p) s)" and "set (live_entries (gpu_bo_free (Some p) s)) = set (live_entries s) - {p}"
    and "\<not> bo_valid (bos (gpu_bo_free (Some p) s) p)"
proof -
  let ?s = "gpu_bo_free (Some p) s"
  show "\<not> bo_valid (bos ?s p)" by (simp add: gpu_bo_free_def Let_def zero_bo_def)
  have "bo_inv ?s \<and> set (live_entries ?s) = set (live_entries s) - {p}"
  proof (cases "bo_valid (bos s p)")
    case False
    then have "p \<notin> set (live_entries s)" using assms by (auto simp: bo_inv_def)
    with False assms show ?thesis by (simp add: gpu_bo_free_def)
  next
    case True
    have ok: "table_ok s" and d: "distinct (live_entries s)" using assms by (simp_all add: bo_inv_def)
    note m = track_free_ok(2) [OF ok, of p]
    have "mset (live_entries (track_free p s)) = mset (remove1 p (live_entries s))" using m by simp
    then have "distinct (live_entries (track_free p s))" "set (live_entries (track_free p s)) = set (live_entries s) - {p}"
      using d by (metis distinct_remove1 mset_eq_imp_distinct_iff, metis set_mset_mset set_remove1_eq d)
    then show ?thesis
      using True assms track_free_ok(1) [OF ok, of p]
      by (simp add: gpu_bo_free_def Let_def bo_inv_def bos_only)
  qed
  then show "bo_inv ?s" "set (live_entries ?s) = set (live_entries s) - {p}" by blast+
qed

lemma reach_inv: "bo_reach s \<Longrightarrow> bo_inv s"
proof (induction rule: bo_reach.induct)
  case (start s)
  then show ?case by (simp add: bo_inv_def table_ok_def live_entries_def used_def)
next
  case (free_step s bo)
  then show ?case by (cases bo) (simp_all add: free_effect(1), simp add: gpu_bo_free_def)
qed (auto dest: alloc_effect(1))


section \<open>Reads after writes\<close>

lemma length_dword_bytes [simp]: "length (dword_bytes v) = 4"
  by (simp add: dword_bytes_def)

lemma read_dword_same: "read_dword (set_bytes a (dword_bytes v) m) a = v"
proof -
  have "read_dword (set_bytes a (dword_bytes v) m) a =
     ucast (ucast v :: byte) OR push_bit 8 (ucast (ucast (drop_bit 8 v) :: byte))
       OR push_bit 16 (ucast (ucast (drop_bit 16 v) :: byte)) OR push_bit 24 (ucast (ucast (drop_bit 24 v) :: byte))"
    by (simp add: read_dword_def set_bytes_def dword_bytes_def numeral_2_eq_2 numeral_3_eq_3)
  also have "\<dots> = v" (is "?x = v")
  proof (rule bit_word_eqI)
    fix n
    assume "n < LENGTH(32)"
    then consider "n < 8" | "8 \<le> n" "n < 16" | "16 \<le> n" "n < 24" | "24 \<le> n" "n < 32" by fastforce
    then show "bit ?x n = bit v n"
      by cases (auto simp: bit_simps)
  qed
  finally show ?thesis .
qed

lemma read_dword_other:
  "b + 4 \<le> a \<or> a + length bs \<le> b \<Longrightarrow> read_dword (set_bytes a bs m) b = read_dword m b"
  by (auto simp: read_dword_def set_bytes_def)

text \<open>An access of 4 bytes inside an object.\<close>

definition inside :: "gpu_bo \<Rightarrow> nat \<Rightarrow> bool" where
  "inside bo offset \<longleftrightarrow> bo_valid bo \<and> offset + 4 \<le> bo_size bo \<and> bo_size bo < 2 ^ 32"

definition apart :: "gpu_bo \<Rightarrow> gpu_bo \<Rightarrow> bool" where
  "apart x y \<longleftrightarrow> cpu_addr x + bo_size x \<le> cpu_addr y \<or> cpu_addr y + bo_size y \<le> cpu_addr x"

lemma inside_u32: "inside bo offset \<Longrightarrow> u32 (offset + 4) = offset + 4"
  by (simp add: inside_def u32_def)

lemma write32_inside:
  "inside (bos s p) offset \<Longrightarrow>
     gpu_bo_write32 (Some p) offset v s = s\<lparr>memory := set_bytes (cpu_addr (bos s p) + offset) (dword_bytes v) (memory s)\<rparr>"
  using inside_u32 [of "bos s p" offset] by (simp add: gpu_bo_write32_def inside_def)

lemma read32_inside:
  "inside (bos s p) offset \<Longrightarrow> gpu_bo_read32 (Some p) offset s = read_dword (memory s) (cpu_addr (bos s p) + offset)"
  using inside_u32 [of "bos s p" offset] by (simp add: gpu_bo_read32_def inside_def)

lemma write32_bos [simp]: "bos (gpu_bo_write32 bo offset v s) = bos s"
  by (simp add: gpu_bo_write32_def split: option.split)

lemma clear_bos [simp]: "bos (gpu_bo_clear bo s) = bos s"
  by (simp add: gpu_bo_clear_def split: option.split)

text \<open>What the state setup of the media pipeline uses of buffer objects.\<close>

locale word_store =
  fixes rd :: "'p \<Rightarrow> nat \<Rightarrow> 's \<Rightarrow> dword" and wr :: "'p \<Rightarrow> nat \<Rightarrow> dword \<Rightarrow> 's \<Rightarrow> 's"
    and clear :: "'p \<Rightarrow> 's \<Rightarrow> 's" and ok :: "'s \<Rightarrow> 'p \<Rightarrow> nat \<Rightarrow> bool" and sep :: "'s \<Rightarrow> 'p \<Rightarrow> 'p \<Rightarrow> bool"
  assumes rd_wr: "ok s p i \<Longrightarrow> rd p i (wr p i v s) = v"
    and rd_wr_other: "ok s p i \<Longrightarrow> ok s p j \<Longrightarrow> i + 4 \<le> j \<or> j + 4 \<le> i \<Longrightarrow> rd p i (wr p j v s) = rd p i s"
    and rd_wr_apart: "ok s p i \<Longrightarrow> ok s q j \<Longrightarrow> sep s p q \<Longrightarrow> rd p i (wr q j v s) = rd p i s"
    and rd_clear: "ok s p i \<Longrightarrow> rd p i (clear p s) = 0"
    and rd_clear_apart: "ok s p i \<Longrightarrow> ok s q j \<Longrightarrow> sep s p q \<Longrightarrow> rd p i (clear q s) = rd p i s"
    and ok_wr: "ok (wr q j v s) p i = ok s p i" and ok_clear: "ok (clear q s) p i = ok s p i"
    and sep_wr: "sep (wr q j v s) p p' = sep s p p'" and sep_clear: "sep (clear q s) p p' = sep s p p'"

interpretation bo: word_store "\<lambda>p. gpu_bo_read32 (Some p)" "\<lambda>p. gpu_bo_write32 (Some p)"
  "\<lambda>p. gpu_bo_clear (Some p)" "\<lambda>s p. inside (bos s p)" "\<lambda>s p q. apart (bos s p) (bos s q)"
proof (unfold_locales, goal_cases)
  case (1 s p i v)
  then show ?case by (simp add: read32_inside write32_inside read_dword_same)
next
  case (2 s p i j v)
  then show ?case by (auto simp: read32_inside write32_inside read_dword_other)
next
  case (3 s p i q j v)
  then show ?case
    by (auto simp: read32_inside write32_inside inside_def apart_def intro!: read_dword_other)
next
  case (4 s p i)
  then show ?case
    by (simp add: read32_inside) (simp add: inside_def gpu_bo_clear_def read_dword_def set_bytes_def)
next
  case (5 s p i q j)
  then show ?case
    by (simp add: read32_inside)
      (auto simp: gpu_bo_clear_def inside_def apart_def intro!: read_dword_other)
qed simp_all


section \<open>Properties\<close>

text \<open>As long as a client allocates only into objects that hold no allocation, the table of live
  objects is a set: no object is in it twice, all of them are valid, and \<open>gpu_bo_live_count\<close> is its size,
  at most 32.\<close>

theorem live_table_is_a_set:
  assumes "bo_reach s"
  shows "gpu_bo_live_count s = card (set (live_entries s)) \<and> gpu_bo_live_count s \<le> 32
    \<and> (\<forall>p. Some p \<in> set (live_bos s) \<longrightarrow> bo_valid (bos s p))"
proof -
  have inv: "bo_inv s" by (rule reach_inv [OF assms])
  then have "live_count s = card (set (live_entries s))" by (simp add: bo_inv_def table_ok_def distinct_card)
  with inv live_bound [of s] show ?thesis
    by (auto simp: bo_inv_def gpu_bo_live_count_def MAX_TRACKED_BOS_def live_entries_def in_used)
qed


text \<open>A dword written inside an object is read back; it changes no other dword of the object, and none
  of an object that does not overlap it.\<close>

theorem bo_dword_roundtrip:
  assumes "inside (bos s p) i"
  shows "gpu_bo_read32 (Some p) i (gpu_bo_write32 (Some p) i v s) = v
    \<and> (\<forall>j. inside (bos s p) j \<and> (i + 4 \<le> j \<or> j + 4 \<le> i)
         \<longrightarrow> gpu_bo_read32 (Some p) j (gpu_bo_write32 (Some p) i v s) = gpu_bo_read32 (Some p) j s)
    \<and> (\<forall>q j. inside (bos s q) j \<and> apart (bos s q) (bos s p)
         \<longrightarrow> gpu_bo_read32 (Some q) j (gpu_bo_write32 (Some p) i v s) = gpu_bo_read32 (Some q) j s)"
  by (intro conjI allI impI bo.rd_wr bo.rd_wr_other bo.rd_wr_apart assms; use assms in auto)

text \<open>The bound check keeps every write inside the object for offsets below \<open>2 ^ 32 - 4\<close>; at and above
  it the sum wraps, the check passes, and the four bytes go to the address far behind the object.\<close>

theorem write32_bound:
  assumes "bo_valid (bos s p)" and "4 \<le> bo_size (bos s p)" and "offset < 2 ^ 32"
  shows "(offset < 2 ^ 32 - 4 \<and> (x < cpu_addr (bos s p) \<or> cpu_addr (bos s p) + bo_size (bos s p) \<le> x)
           \<longrightarrow> memory (gpu_bo_write32 (Some p) offset v s) x = memory s x)
    \<and> (2 ^ 32 - 4 \<le> offset
           \<longrightarrow> memory (gpu_bo_write32 (Some p) offset v s) (cpu_addr (bos s p) + offset) = ucast v)"
proof (intro conjI impI)
  assume "offset < 2 ^ 32 - 4 \<and> (x < cpu_addr (bos s p) \<or> cpu_addr (bos s p) + bo_size (bos s p) \<le> x)"
  then have "u32 (offset + 4) = offset + 4" "x < cpu_addr (bos s p) \<or> cpu_addr (bos s p) + bo_size (bos s p) \<le> x"
    by (simp_all add: u32_def)
  then show "memory (gpu_bo_write32 (Some p) offset v s) x = memory s x"
    by (auto simp: gpu_bo_write32_def set_bytes_def)
next
  assume le: "2 ^ 32 - 4 \<le> offset"
  define k where "k = offset + 4 - 2 ^ 32"
  have k: "offset + 4 = k + 2 ^ 32" "k < 4" using le assms(3) by (simp_all add: k_def)
  have "u32 (offset + 4) = k" unfolding k(1) using k(2) by (simp add: u32_def)
  with k(2) assms show "memory (gpu_bo_write32 (Some p) offset v s) (cpu_addr (bos s p) + offset) = ucast v"
    by (simp add: gpu_bo_write32_def set_bytes_def dword_bytes_def)
qed

fun gen5_name :: "emitter_call \<Rightarrow> string" where
  "gen5_name Mi_flush = ''MI_USER_INTERRUPT''"
| "gen5_name Pipeline_select_media = ''PIPELINE_SELECT''"
| "gen5_name Depth_buffer_null = ''3DSTATE_DEPTH_BUFFER''"
| "gen5_name State_base_address = ''STATE_BASE_ADDRESS''"
| "gen5_name (Urb_fence n) = ''URB_FENCE''"
| "gen5_name Cs_urb_state = ''CS_URB_STATE''"
| "gen5_name (Constant_buffer off len) = ''CONSTANT_BUFFER''"
| "gen5_name (Media_state_pointers vfe idrt) = ''MEDIA_STATE_POINTERS''"
| "gen5_name (Marker off tag) = ''MI_*''"
| "gen5_name (Xy_src_copy_blt sg sp dg dp x y w h) = ''2D_?''"

lemma gen5_name_entry:
  "\<exists>ds. run_call gen5_init_ops c = bw_emits ds \<and> length ds \<le> 100 \<and> log_ipehr (hd ds) = gen5_name c"
  by (cases c; simp only: run_call.simps gen5_emitters gen_ops.simps one_emit Let_def;
      rule exI, rule conjI, rule refl; simp add: command_words log_ipehr_def ipehr_cmd_name_def)

text \<open>The name that the register dump prints for a command of generation 5 is right for the render
  engine's commands; the memory interface's and the 2D engine's are taken from the wrong bits: a flush is
  called a user interrupt, a store of data \<open>MI_*\<close>, a copy \<open>2D_?\<close>.\<close>

theorem ipehr_names:
  "log_ipehr (hd (call_stream gen5_init_ops c)) = gen5_name c"
proof -
  obtain ds where "run_call gen5_init_ops c = bw_emits ds" "length ds \<le> 100" "log_ipehr (hd ds) = gen5_name c"
    using gen5_name_entry [of c] by blast
  then show ?thesis by (simp only: call_stream_emits)
qed


section \<open>Witnesses\<close>

text \<open>Two objects of 64 bytes, places 0 and 2.\<close>

definition example_start :: "nat bo_state" where
  "example_start = \<lparr>live_bos = replicate MAX_TRACKED_BOS None, live_count = 0, bos = (\<lambda>_. zero_bo), memory = (\<lambda>_. 0xff)\<rparr>"

definition example_bo :: "nat bo_state" where
  "example_bo = snd (gpu_bo_alloc (\<lambda>sz. (B_OK, 0x9000)) 0x1000 (Some 2) None 64 0
     (snd (gpu_bo_alloc (\<lambda>sz. (B_OK, 0x5000)) 0x1000 (Some 0) None 64 0 example_start)))"

lemma first_slot_example: "live_bos s = None # xs \<Longrightarrow> first_slot (\<lambda>e. e = None) s = Some 0"
  by (simp add: first_slot_def MAX_TRACKED_BOS_def upt_rec [of 0])

lemma first_slot_example2: "live_bos s = Some p # None # xs \<Longrightarrow> first_slot (\<lambda>e. e = None) s = Some 1"
  by (simp add: first_slot_def MAX_TRACKED_BOS_def upt_rec [of 0] upt_rec [of "Suc 0"])

lemma table_cons: "replicate MAX_TRACKED_BOS x = x # x # replicate 30 x"
  by (simp add: MAX_TRACKED_BOS_def numeral_eq_Suc)

lemma example_bo_eq:
  "live_bos example_bo = Some 0 # Some 2 # replicate 30 None" "live_count example_bo = 2"
  "bos example_bo 0 = \<lparr>cpu_addr = 0x5000, gtt_offset = 0x4000, bo_size = 64, alignment = 0, bo_name = None, bo_valid = True\<rparr>"
  "bos example_bo 2 = \<lparr>cpu_addr = 0x9000, gtt_offset = 0x8000, bo_size = 64, alignment = 0, bo_name = None, bo_valid = True\<rparr>"
  by (simp_all add: example_bo_def gpu_bo_alloc_def track_alloc_def example_start_def table_cons first_slot_example
      first_slot_example2 u32_def)

lemma example_start_reach: "bo_reach example_start"
  by (rule bo_reach.start) (simp_all add: example_start_def)

lemma example_bo_reach: "bo_reach example_bo"
proof -
  let ?s = "snd (gpu_bo_alloc (\<lambda>sz. (B_OK, 0x5000)) 0x1000 (Some 0) None 64 0 example_start)"
  have "bo_reach ?s"
    by (rule bo_reach.alloc_step [OF example_start_reach _ surjective_pairing]) (simp add: example_start_def zero_bo_def)
  then show ?thesis
    unfolding example_bo_def
    by (rule bo_reach.alloc_step [OF _ _ surjective_pairing])
      (simp add: gpu_bo_alloc_def example_start_def zero_bo_def)
qed


lemma example_inside: "inside (bos example_bo 0) 8" "inside (bos example_bo 0) 12" "inside (bos example_bo 2) 8"
  by (simp_all add: inside_def example_bo_eq)

end
