(* ===== verification/Media_Pipeline.thy ===== *)
theory Media_Pipeline
  imports Engine Gpu_Bo
begin

text \<open>
  The media pipeline of \<open>src/intel_extreme/accelerant/media_pipeline.cpp\<close>: the buffer objects of a
  context, the state objects that the CPU writes into them (VFE state, interface descriptor, surface
  states, binding table, markers), the command sequence of a dispatch, and its submission to the ring. A
  context's objects are the places of the buffer object layer, a context pointer is an option. The EU
  kernels are assembled at build time and are parameters, byte lists.
\<close>

section \<open>State\<close>

datatype media_bo =
    Batch_bo | Kernel_bo | Vfe_state_bo | Idrt_bo | Curbe_bo | Output_bo | Marker_bo
  | Surface_state_bo | Binding_table_bo | Input_x_bo | Input_y_bo

record media_context =
  store :: "media_bo bo_state"
  initialized :: bool

datatype media_marker_slot =
    MEDIA_MARKER_START | MEDIA_MARKER_AFTER_MI_FLUSH_1 | MEDIA_MARKER_AFTER_DEPTH_BUFFER
  | MEDIA_MARKER_AFTER_PIPELINE_SELECT | MEDIA_MARKER_AFTER_URB_FENCE | MEDIA_MARKER_AFTER_STATE_BASE
  | MEDIA_MARKER_AFTER_MEDIA_STATE_POINTERS | MEDIA_MARKER_AFTER_CS_URB | MEDIA_MARKER_AFTER_CONSTANT_BUFFER
  | MEDIA_MARKER_AFTER_MEDIA_OBJECT | MEDIA_MARKER_AFTER_MI_FLUSH_2

definition all_slots :: "media_marker_slot list" where
  "all_slots =
     [MEDIA_MARKER_START, MEDIA_MARKER_AFTER_MI_FLUSH_1, MEDIA_MARKER_AFTER_DEPTH_BUFFER,
      MEDIA_MARKER_AFTER_PIPELINE_SELECT, MEDIA_MARKER_AFTER_URB_FENCE, MEDIA_MARKER_AFTER_STATE_BASE,
      MEDIA_MARKER_AFTER_MEDIA_STATE_POINTERS, MEDIA_MARKER_AFTER_CS_URB, MEDIA_MARKER_AFTER_CONSTANT_BUFFER,
      MEDIA_MARKER_AFTER_MEDIA_OBJECT, MEDIA_MARKER_AFTER_MI_FLUSH_2]"

fun slot_number :: "media_marker_slot \<Rightarrow> nat" where
  "slot_number MEDIA_MARKER_START = 0"
| "slot_number MEDIA_MARKER_AFTER_MI_FLUSH_1 = 1"
| "slot_number MEDIA_MARKER_AFTER_DEPTH_BUFFER = 2"
| "slot_number MEDIA_MARKER_AFTER_PIPELINE_SELECT = 3"
| "slot_number MEDIA_MARKER_AFTER_URB_FENCE = 4"
| "slot_number MEDIA_MARKER_AFTER_STATE_BASE = 5"
| "slot_number MEDIA_MARKER_AFTER_MEDIA_STATE_POINTERS = 6"
| "slot_number MEDIA_MARKER_AFTER_CS_URB = 7"
| "slot_number MEDIA_MARKER_AFTER_CONSTANT_BUFFER = 8"
| "slot_number MEDIA_MARKER_AFTER_MEDIA_OBJECT = 9"
| "slot_number MEDIA_MARKER_AFTER_MI_FLUSH_2 = 10"

definition MEDIA_MARKER_COUNT :: nat where "MEDIA_MARKER_COUNT = 11"

definition MEDIA_MARKER_TAG :: "media_marker_slot \<Rightarrow> dword" where
  "MEDIA_MARKER_TAG slot = 0xbeef0000 OR of_nat (slot_number slot)"

definition MEDIA_MARKER_SENTINEL :: dword where "MEDIA_MARKER_SENTINEL = 0xdeadbeef"
definition MEDIA_MAX_PARALLEL_THREADS :: dword where "MEDIA_MAX_PARALLEL_THREADS = 48"
definition CS_URB_SIZE_UNITS :: dword where "CS_URB_SIZE_UNITS = 16"
definition VFE_GENERIC_MODE :: dword where "VFE_GENERIC_MODE = 0"
definition I965_SURFACE_2D :: dword where "I965_SURFACE_2D = 1"
definition I965_SURFACE_BUFFER :: dword where "I965_SURFACE_BUFFER = 4"
definition I965_SURFACEFORMAT_R8_UINT :: dword where "I965_SURFACEFORMAT_R8_UINT = 0x143"
definition I965_SURFACEFORMAT_RAW :: dword where "I965_SURFACEFORMAT_RAW = 0x1FF"
definition BATCH_BO_SIZE :: nat where "BATCH_BO_SIZE = 40960"
definition KERNEL_BO_SIZE :: nat where "KERNEL_BO_SIZE = 131072"
definition VFE_STATE_BO_SIZE :: nat where "VFE_STATE_BO_SIZE = 64"
definition IDRT_BO_SIZE :: nat where "IDRT_BO_SIZE = 64"
definition CURBE_BO_SIZE :: nat where "CURBE_BO_SIZE = 1024"
definition OUTPUT_BO_SIZE :: nat where "OUTPUT_BO_SIZE = 2097152"
definition MARKER_BO_SIZE :: nat where "MARKER_BO_SIZE = 256"
definition SURFACE_STATE_BO_SIZE :: nat where "SURFACE_STATE_BO_SIZE = 256"
definition BINDING_TABLE_BO_SIZE :: nat where "BINDING_TABLE_BO_SIZE = 64"
definition INPUT_BO_SIZE :: nat where "INPUT_BO_SIZE = 2097152"

section \<open>Commands\<close>

text \<open>The address of an object as the commands carry it.\<close>

definition gtt :: "media_bo \<Rightarrow> media_bo bo_state \<Rightarrow> dword" where
  "gtt p s = of_nat (gtt_offset (bos s p))"

definition bw_emit_marker :: "media_bo bo_state \<Rightarrow> media_marker_slot \<Rightarrow> batch_writer \<Rightarrow> batch_writer" where
  "bw_emit_marker s slot =
     (let target_gtt = gtt Marker_bo s + of_nat (slot_number slot) * 4
      in bw_emits (gpu_debug_marker_dwords target_gtt (MEDIA_MARKER_TAG slot)))"

definition emit_mi_flush_media :: "batch_writer \<Rightarrow> batch_writer" where
  "emit_mi_flush_media = bw_emit Gen_Ops.MI_FLUSH"

definition emit_3dstate_depth_buffer_null :: "batch_writer \<Rightarrow> batch_writer" where
  "emit_3dstate_depth_buffer_null = bw_emits
     [CMD_3DSTATE_DEPTH_BUFFER OR 4, push_bit 18 I965_DEPTHFORMAT_D32_FLOAT OR push_bit 29 I965_SURFACE_NULL, 0, 0, 0, 0]"

definition emit_pipeline_select_media_cmd :: "batch_writer \<Rightarrow> batch_writer" where
  "emit_pipeline_select_media_cmd = bw_emit (CMD_PIPELINE_SELECT OR PIPELINE_SELECT_MEDIA)"

definition emit_urb_fence_media :: "dword \<Rightarrow> batch_writer \<Rightarrow> batch_writer" where
  "emit_urb_fence_media vfe_entries =
     (let vfe_entries = (if vfe_entries = 0 then 1 else vfe_entries);
          vfe_fence = vfe_entries;
          cs_fence = vfe_fence + CS_URB_SIZE_UNITS
      in bw_emits
           [CMD_URB_FENCE OR UF0_VFE_REALLOC OR UF0_CS_REALLOC OR 1, 0, push_bit 10 vfe_fence OR push_bit 20 cs_fence])"

definition emit_state_base_address_ironlake :: "batch_writer \<Rightarrow> batch_writer" where
  "emit_state_base_address_ironlake = bw_emits
     [CMD_STATE_BASE_ADDRESS OR 6, BASE_ADDRESS_MODIFY, BASE_ADDRESS_MODIFY, BASE_ADDRESS_MODIFY,
      BASE_ADDRESS_MODIFY, BASE_ADDRESS_MODIFY, BASE_ADDRESS_MODIFY, BASE_ADDRESS_MODIFY]"

definition emit_media_state_pointers_media :: "media_bo bo_state \<Rightarrow> batch_writer \<Rightarrow> batch_writer" where
  "emit_media_state_pointers_media s = bw_emits [CMD_MEDIA_STATE_POINTERS OR 1, 0, gtt Vfe_state_bo s]"

definition emit_cs_urb_state_media :: "batch_writer \<Rightarrow> batch_writer" where
  "emit_cs_urb_state_media = bw_emits [CMD_CS_URB_STATE OR 0, push_bit 4 (CS_URB_SIZE_UNITS - 1) OR 1]"

definition emit_constant_buffer_media :: "media_bo bo_state \<Rightarrow> dword \<Rightarrow> batch_writer \<Rightarrow> batch_writer" where
  "emit_constant_buffer_media s cs_entry_size_units =
     (let units = (if cs_entry_size_units = 0 then 1 else cs_entry_size_units)
      in bw_emits [CMD_CONSTANT_BUFFER OR push_bit 8 1 OR 0, gtt Curbe_bo s OR ((units - 1) AND 0x1f)])"

definition emit_media_object_hello :: "media_bo bo_state \<Rightarrow> batch_writer \<Rightarrow> batch_writer" where
  "emit_media_object_hello s = bw_emits [CMD_MEDIA_OBJECT OR 4, 0, 0, 0, gtt Output_bo s, 0]"

definition emit_media_object_inline3 :: "dword \<Rightarrow> dword \<Rightarrow> dword \<Rightarrow> batch_writer \<Rightarrow> batch_writer" where
  "emit_media_object_inline3 inline0 inline1 inline2 =
     bw_emits ([CMD_MEDIA_OBJECT OR 18, 0, 0, 0, inline0, inline1, inline2] @ replicate 13 0)"

definition emit_media_object_indexed :: "dword \<Rightarrow> batch_writer \<Rightarrow> batch_writer" where
  "emit_media_object_indexed thread_index = emit_media_object_inline3 thread_index 0 0"

section \<open>State objects\<close>

abbreviation write32 :: "media_bo \<Rightarrow> nat \<Rightarrow> dword \<Rightarrow> media_bo bo_state \<Rightarrow> media_bo bo_state" where
  "write32 p \<equiv> gpu_bo_write32 (Some p)"

text \<open>Successive writes to one object.\<close>

definition writes32 :: "media_bo \<Rightarrow> (nat \<times> dword) list \<Rightarrow> media_bo bo_state \<Rightarrow> media_bo bo_state" where
  "writes32 p ws s = fold (\<lambda>(i, v). write32 p i v) ws s"

definition write_vfe_state :: "dword \<Rightarrow> media_bo bo_state \<Rightarrow> media_bo bo_state" where
  "write_vfe_state max_threads s =
     (let n = (if max_threads = 0 then 1 else max_threads);
          n = (if MEDIA_MAX_PARALLEL_THREADS < n then MEDIA_MAX_PARALLEL_THREADS else n);
          vfe1 = push_bit 3 VFE_GENERIC_MODE OR push_bit 9 (n AND 0x7f) OR push_bit 16 0 OR push_bit 25 ((n - 1) AND 0x7f)
      in writes32 Vfe_state_bo
           [(0, 0), (4, vfe1), (8, gtt Idrt_bo s AND NOT 0xf), (12, 0), (16, 0), (20, 0)]
           (gpu_bo_clear (Some Vfe_state_bo) s))"

definition write_interface_descriptor_ex ::
  "dword \<Rightarrow> dword \<Rightarrow> dword \<Rightarrow> media_bo bo_state \<Rightarrow> media_bo bo_state" where
  "write_interface_descriptor_ex binding_table_entry_count binding_table_gtt_offset curbe_read_len s =
     (let grf_reg_blocks = (if 0 < curbe_read_len then 15 else 6);
          desc0 = grf_reg_blocks OR (gtt Kernel_bo s AND NOT 0x3f);
          desc1 = push_bit 18 1 OR push_bit 26 (curbe_read_len AND 0x3f);
          desc3 = (binding_table_entry_count AND 0x1f) OR (binding_table_gtt_offset AND NOT 0x1f)
      in writes32 Idrt_bo [(0, desc0), (4, desc1), (8, 0), (12, desc3)] (gpu_bo_clear (Some Idrt_bo) s))"

definition write_interface_descriptor :: "media_bo bo_state \<Rightarrow> media_bo bo_state" where
  "write_interface_descriptor s = write_interface_descriptor_ex 0 0 0 s"

definition write_linear_surface_state_at :: "nat \<Rightarrow> dword \<Rightarrow> dword \<Rightarrow> media_bo bo_state \<Rightarrow> media_bo bo_state" where
  "write_linear_surface_state_at off base_gtt buffer_bytes s =
     (let buffer_bytes = (if buffer_bytes < 16 then 16 else buffer_bytes);
          ne_m1 = buffer_bytes div 16 - 1;
          ss0 = push_bit 29 I965_SURFACE_BUFFER OR push_bit 18 I965_SURFACEFORMAT_RAW;
          ss2 = push_bit 6 (ne_m1 AND 0x7f) OR push_bit 19 (drop_bit 7 ne_m1 AND 0x1fff);
          ss3 = push_bit 21 (drop_bit 20 ne_m1 AND 0x7f) OR push_bit 3 15
      in writes32 Surface_state_bo
           [(off + 0, ss0), (off + 4, base_gtt), (off + 8, ss2), (off + 12, ss3), (off + 16, 0), (off + 20, 0)] s)"

definition write_2d_surface_state_at ::
  "nat \<Rightarrow> dword \<Rightarrow> dword \<Rightarrow> dword \<Rightarrow> dword \<Rightarrow> media_bo bo_state \<Rightarrow> media_bo bo_state" where
  "write_2d_surface_state_at off base_gtt width_bytes height_rows pitch_bytes s =
     (let w_m1 = (if 0 < width_bytes then width_bytes - 1 else 0);
          h_m1 = (if 0 < height_rows then height_rows - 1 else 0);
          p_m1 = (if 0 < pitch_bytes then pitch_bytes - 1 else 0);
          ss0 = push_bit 29 I965_SURFACE_2D OR push_bit 18 I965_SURFACEFORMAT_R8_UINT;
          ss2 = push_bit 6 (w_m1 AND 0x1fff) OR push_bit 19 (h_m1 AND 0x1fff);
          ss3 = push_bit 3 (p_m1 AND 0x3ffff)
      in writes32 Surface_state_bo
           [(off + 0, ss0), (off + 4, base_gtt), (off + 8, ss2), (off + 12, ss3), (off + 16, 0), (off + 20, 0)] s)"

definition write_output_surface_state :: "dword \<Rightarrow> dword \<Rightarrow> media_bo bo_state \<Rightarrow> media_bo bo_state" where
  "write_output_surface_state row_bytes row_count s =
     write_linear_surface_state_at 0 (gtt Output_bo s) (row_bytes * row_count) (gpu_bo_clear (Some Surface_state_bo) s)"

definition write_binding_table_one :: "media_bo bo_state \<Rightarrow> media_bo bo_state" where
  "write_binding_table_one s = write32 Binding_table_bo 0 (gtt Surface_state_bo s) (gpu_bo_clear (Some Binding_table_bo) s)"

definition write_saxpy_surfaces :: "media_bo bo_state \<Rightarrow> media_bo bo_state" where
  "write_saxpy_surfaces s =
     (let s = gpu_bo_clear (Some Surface_state_bo) s;
          s = write_linear_surface_state_at 0 (gtt Input_x_bo s) (of_nat (bo_size (bos s Input_x_bo))) s;
          s = write_linear_surface_state_at 32 (gtt Input_y_bo s) (of_nat (bo_size (bos s Input_y_bo))) s;
          s = write_linear_surface_state_at 64 (gtt Output_bo s) (of_nat (bo_size (bos s Output_bo))) s;
          s = gpu_bo_clear (Some Binding_table_bo) s;
          ss_base = gtt Surface_state_bo s
      in writes32 Binding_table_bo [(0, ss_base + 0), (4, ss_base + 32), (8, ss_base + 64)] s)"

definition prime_markers :: "media_bo bo_state \<Rightarrow> media_bo bo_state" where
  "prime_markers s =
     writes32 Marker_bo (map (\<lambda>i. (i * 4, MEDIA_MARKER_SENTINEL)) [0..<MEDIA_MARKER_COUNT]) (gpu_bo_clear (Some Marker_bo) s)"

definition prime_output_and_markers :: "media_bo bo_state \<Rightarrow> media_bo bo_state" where
  "prime_output_and_markers s =
     prime_markers (write32 Output_bo 0 MEDIA_MARKER_SENTINEL (gpu_bo_clear (Some Output_bo) s))"

section \<open>Contexts\<close>

text \<open>The ring of clone contexts is a static object; the engine holds the shared ring buffer. The answers of
  \<open>gpu_ring_init\<close>'s kernel calls and the TAIL register are a record.\<close>

record media_driver =
  drv_engine :: engine
  media_ring :: gpu_ring
  media_ring_init :: bool

record ring_answers =
  data_ok :: bool
  shared_ok :: bool
  regs_ok :: bool
  tail_register :: nat

definition init_media_ring :: "ring_answers \<Rightarrow> media_driver \<Rightarrow> status_t \<times> media_driver" where
  "init_media_ring a d =
     (let (st, ring, hw) = gpu_ring_init False (data_ok a) (shared_ok a) (regs_ok a) (tail_register a)
            (primary_ring (drv_engine d)) (media_ring d);
          d = d\<lparr>media_ring := ring, drv_engine := (drv_engine d)\<lparr>primary_ring := hw\<rparr>\<rparr>
      in (st, if st = B_OK then d\<lparr>media_ring_init := True\<rparr> else d))"

definition bo_specs :: "(media_bo \<times> string \<times> nat \<times> nat) list" where
  "bo_specs =
     [(Batch_bo, ''media:batch'', BATCH_BO_SIZE, 4096), (Kernel_bo, ''media:kernel'', KERNEL_BO_SIZE, 64),
      (Vfe_state_bo, ''media:vfe_state'', VFE_STATE_BO_SIZE, 32), (Idrt_bo, ''media:idrt'', IDRT_BO_SIZE, 16),
      (Curbe_bo, ''media:curbe'', CURBE_BO_SIZE, 64), (Output_bo, ''media:output'', OUTPUT_BO_SIZE, 4096),
      (Marker_bo, ''media:marker'', MARKER_BO_SIZE, 64), (Surface_state_bo, ''media:surface'', SURFACE_STATE_BO_SIZE, 32),
      (Binding_table_bo, ''media:bindtbl'', BINDING_TABLE_BO_SIZE, 32), (Input_x_bo, ''media:input_x'', INPUT_BO_SIZE, 4096),
      (Input_y_bo, ''media:input_y'', INPUT_BO_SIZE, 4096)]"

definition all_bos :: "media_bo list" where
  "all_bos = [Batch_bo, Kernel_bo, Vfe_state_bo, Idrt_bo, Curbe_bo, Output_bo, Marker_bo, Surface_state_bo,
     Binding_table_bo, Input_x_bo, Input_y_bo]"

text \<open>\<open>allocator p\<close> is what the kernel answers to the allocation of the object \<open>p\<close>.\<close>

fun alloc_specs ::
  "(media_bo \<Rightarrow> nat \<Rightarrow> status_t \<times> nat) \<Rightarrow> nat \<Rightarrow> (media_bo \<times> string \<times> nat \<times> nat) list \<Rightarrow> media_bo bo_state
     \<Rightarrow> status_t \<times> media_bo bo_state" where
  "alloc_specs allocator gm [] s = (B_OK, s)"
| "alloc_specs allocator gm ((p, name, sz, align) # specs) s =
     (let (st, s) = gpu_bo_alloc (allocator p) gm (Some p) (Some name) sz align s
      in if st \<noteq> B_OK then (st, s) else alloc_specs allocator gm specs s)"

definition free_bos :: "media_bo bo_state \<Rightarrow> media_bo bo_state" where
  "free_bos s = fold (\<lambda>p. gpu_bo_free (Some p)) all_bos s"

definition media_pipeline_uninit :: "media_context option \<Rightarrow> media_context option" where
  "media_pipeline_uninit ctx = map_option (\<lambda>c. c\<lparr>store := free_bos (store c), initialized := False\<rparr>) ctx"

definition media_pipeline_init ::
  "(media_bo \<Rightarrow> nat \<Rightarrow> status_t \<times> nat) \<Rightarrow> nat \<Rightarrow> bool \<Rightarrow> ring_answers \<Rightarrow> media_context option \<Rightarrow> media_driver
     \<Rightarrow> status_t \<times> media_context option \<times> media_driver" where
  "media_pipeline_init allocator gm is_clone answers ctx d =
     (case ctx of
        None \<Rightarrow> (B_BAD_VALUE, None, d)
      | Some c \<Rightarrow>
          let s = (store c)\<lparr>bos := \<lambda>p. zero_bo\<rparr>;
              (st, s) = alloc_specs allocator gm bo_specs s
          in if st \<noteq> B_OK then (st, media_pipeline_uninit (Some (c\<lparr>store := s, initialized := False\<rparr>)), d)
             else
               let s = fold (\<lambda>p. gpu_bo_clear (Some p)) all_bos s;
                   c = c\<lparr>store := s, initialized := True\<rparr>
               in (B_OK, Some c, if is_clone then snd (init_media_ring answers d) else d))"

text \<open>The guard \<open>ctx == NULL || !ctx->initialized\<close>.\<close>

definition usable :: "media_context option \<Rightarrow> bool" where
  "usable ctx \<longleftrightarrow> (case ctx of None \<Rightarrow> False | Some c \<Rightarrow> initialized c)"

abbreviation in_store :: "(media_bo bo_state \<Rightarrow> media_bo bo_state) \<Rightarrow> media_context option \<Rightarrow> media_context option" where
  "in_store f \<equiv> map_option (store_update f)"

definition media_pipeline_upload_kernel ::
  "byte list option \<Rightarrow> media_context option \<Rightarrow> status_t \<times> media_context option" where
  "media_pipeline_upload_kernel kern ctx =
     (case kern of
        None \<Rightarrow> (B_BAD_VALUE, ctx)
      | Some bytes \<Rightarrow>
          if \<not> usable ctx then (B_BAD_VALUE, ctx)
          else if length bytes = 0 \<or> bo_size (bos (store (the ctx)) Kernel_bo) < length bytes then (B_BAD_VALUE, ctx)
          else (B_OK, in_store (\<lambda>s. gpu_bo_write (Some Kernel_bo) 0 (Some bytes) (gpu_bo_clear (Some Kernel_bo) s)) ctx))"

definition media_pipeline_setup_output_surface ::
  "dword \<Rightarrow> dword \<Rightarrow> media_context option \<Rightarrow> status_t \<times> media_context option" where
  "media_pipeline_setup_output_surface row_bytes row_count ctx =
     (if \<not> usable ctx then (B_NO_INIT, ctx)
      else if row_bytes = 0 \<or> row_count = 0 then (B_BAD_VALUE, ctx)
      else if bo_size (bos (store (the ctx)) Output_bo) < unat (row_bytes * row_count) then (B_BAD_VALUE, ctx)
      else
        (B_OK, in_store (\<lambda>s.
           let s = s\<lparr>memory := set_bytes (cpu_addr (bos s Output_bo)) (replicate (unat (row_bytes * row_count)) 0xcc) (memory s)\<rparr>
           in write_binding_table_one (write_output_surface_state row_bytes row_count s)) ctx))"

section \<open>Dispatches\<close>

text \<open>The commands before the media objects, each followed by its marker; \<open>pool\<close> is the number of threads.\<close>

definition emit_preamble :: "media_bo bo_state \<Rightarrow> dword \<Rightarrow> batch_writer \<Rightarrow> batch_writer" where
  "emit_preamble s pool w =
     (let w = bw_emit_marker s MEDIA_MARKER_START w;
          w = bw_emit_marker s MEDIA_MARKER_AFTER_MI_FLUSH_1 (emit_mi_flush_media w);
          w = bw_emit_marker s MEDIA_MARKER_AFTER_DEPTH_BUFFER (emit_3dstate_depth_buffer_null w);
          w = bw_emit_marker s MEDIA_MARKER_AFTER_PIPELINE_SELECT (emit_pipeline_select_media_cmd w);
          w = bw_emit_marker s MEDIA_MARKER_AFTER_URB_FENCE (emit_urb_fence_media pool w);
          w = bw_emit_marker s MEDIA_MARKER_AFTER_STATE_BASE (emit_state_base_address_ironlake w);
          w = bw_emit_marker s MEDIA_MARKER_AFTER_MEDIA_STATE_POINTERS (emit_media_state_pointers_media s w);
          w = bw_emit_marker s MEDIA_MARKER_AFTER_CS_URB (emit_cs_urb_state_media w)
      in bw_emit_marker s MEDIA_MARKER_AFTER_CONSTANT_BUFFER (emit_constant_buffer_media s 1 w))"

text \<open>The end of a sequence: the marker of the objects, a flush with its marker, and an even length.\<close>

definition emit_end :: "media_bo bo_state \<Rightarrow> batch_writer \<Rightarrow> batch_writer" where
  "emit_end s w =
     (let w = bw_emit_marker s MEDIA_MARKER_AFTER_MEDIA_OBJECT w;
          w = bw_emit_marker s MEDIA_MARKER_AFTER_MI_FLUSH_2 (emit_mi_flush_media w)
      in if batch_writer.count w AND 1 \<noteq> 0 then bw_emit Gen_Ops.MI_NOOP w else w)"

text \<open>Space for the whole sequence, then its dwords, in one queue object.\<close>

definition submit_direct :: "engine_env \<Rightarrow> nat list \<Rightarrow> media_driver \<Rightarrow> nat \<Rightarrow> (media_driver \<times> nat) option" where
  "submit_direct env ds d t =
     do {
       (e, t) \<leftarrow> with_queue env
         (\<lambda>r t. do { (r, t) \<leftarrow> queue_make_space (env_polls env) (length ds) r t; Some (fold queue_write ds r, t) })
         (drv_engine d) t;
       Some (d\<lparr>drv_engine := e\<rparr>, t)
     }"

definition hello_state :: "media_bo bo_state \<Rightarrow> media_bo bo_state" where
  "hello_state s = prime_output_and_markers (write_interface_descriptor (write_vfe_state 1 s))"

text \<open>The batch writer is a local variable: \<open>stack\<close> is what it holds before \<open>bw_init\<close>.\<close>

definition media_pipeline_submit_hello ::
  "engine_env \<Rightarrow> batch_writer \<Rightarrow> media_context option \<Rightarrow> media_driver \<Rightarrow> nat
     \<Rightarrow> (status_t \<times> media_context option \<times> media_driver \<times> nat) option" where
  "media_pipeline_submit_hello env stack ctx d t =
     (if \<not> usable ctx then Some (B_NO_INIT, ctx, d, t)
      else
        let ctx = in_store hello_state ctx;
            s = store (the ctx);
            w = emit_end s (emit_media_object_hello s (emit_preamble s 1 (bw_init stack)))
        in if overflow w then Some (B_NO_MEMORY, ctx, d, t)
           else do { (d, t) \<leftarrow> submit_direct env (map unat (written w)) d t; Some (B_OK, ctx, d, t) })"

definition vfe_pool :: "dword \<Rightarrow> dword" where
  "vfe_pool dispatch_count =
     (if MEDIA_MAX_PARALLEL_THREADS < dispatch_count then MEDIA_MAX_PARALLEL_THREADS else dispatch_count)"

definition parallel_state :: "dword \<Rightarrow> dword \<Rightarrow> media_bo bo_state \<Rightarrow> media_bo bo_state" where
  "parallel_state dispatch_count bt_entry_count s =
     (let s = write_vfe_state (vfe_pool dispatch_count) s;
          s = (if 0 < bt_entry_count
               then write_interface_descriptor_ex bt_entry_count (gtt Binding_table_bo s) 0 s
               else write_interface_descriptor s)
      in prime_markers s)"

definition emit_objects :: "dword \<Rightarrow> batch_writer \<Rightarrow> batch_writer" where
  "emit_objects dispatch_count w = fold (\<lambda>i. emit_media_object_indexed (of_nat i)) [0..<unat dispatch_count] w"

text \<open>The batch writer of a dispatch; \<open>stack\<close> is what it holds before \<open>bw_init\<close>.\<close>

definition parallel_batch :: "media_bo bo_state \<Rightarrow> dword \<Rightarrow> batch_writer \<Rightarrow> batch_writer" where
  "parallel_batch s n stack = emit_end s (emit_objects n (emit_preamble s (vfe_pool n) (bw_init stack)))"

definition submit_parallel_generic ::
  "engine_env \<Rightarrow> batch_writer \<Rightarrow> dword \<Rightarrow> dword \<Rightarrow> media_context option \<Rightarrow> media_driver \<Rightarrow> nat
     \<Rightarrow> (status_t \<times> media_context option \<times> media_driver \<times> nat) option" where
  "submit_parallel_generic env stack dispatch_count bt_entry_count ctx d t =
     (if \<not> usable ctx then Some (B_NO_INIT, ctx, d, t)
      else
        let dispatch_count = (if dispatch_count = 0 then 1 else dispatch_count);
            ctx = in_store (parallel_state dispatch_count bt_entry_count) ctx;
            s = store (the ctx);
            w = parallel_batch s dispatch_count stack
        in if overflow w then Some (B_NO_MEMORY, ctx, d, t)
           else do { (d, t) \<leftarrow> submit_direct env (map unat (written w)) d t; Some (B_OK, ctx, d, t) })"

definition media_pipeline_submit_parallel where
  "media_pipeline_submit_parallel env stack thread_count = submit_parallel_generic env stack thread_count 0"

definition submit_parallel_memwrite where
  "submit_parallel_memwrite env stack thread_count = submit_parallel_generic env stack thread_count 1"

definition submit_parallel_saxpy where
  "submit_parallel_saxpy env stack thread_count = submit_parallel_generic env stack thread_count 3"

text \<open>\<open>slot i\<close> is the \<open>i\<close>-th read of the output word; the result is whether it changed.\<close>

definition media_pipeline_wait_output :: "(nat \<Rightarrow> dword) \<Rightarrow> nat \<Rightarrow> media_context option \<Rightarrow> bool option" where
  "media_pipeline_wait_output slot timeout_us ctx =
     (if \<not> usable ctx then Some False
      else
        map_option (\<lambda>(elapsed, i). slot i \<noteq> MEDIA_MARKER_SENTINEL)
          (while_option (\<lambda>(elapsed, i). elapsed < timeout_us \<and> slot i = MEDIA_MARKER_SENTINEL)
             (\<lambda>(elapsed, i). (u32 (elapsed + 500), Suc i)) (0, 0)))"

definition ring_submit_via_gpu_ring ::
  "ring_answers \<Rightarrow> polls \<Rightarrow> (nat \<Rightarrow> bool) \<Rightarrow> nat list \<Rightarrow> media_driver \<Rightarrow> nat \<Rightarrow> (status_t \<times> media_driver \<times> nat) option" where
  "ring_submit_via_gpu_ring answers polls kick ds d t =
     (let (st, d) = (if media_ring_init d then (B_OK, d) else init_media_ring answers d)
      in if st \<noteq> B_OK then Some (B_NO_INIT, d, t)
         else do {
           (st, ring, t) \<leftarrow> gpu_ring_submit polls kick (media_ring d) ds t;
           Some (st, d\<lparr>media_ring := ring\<rparr>, t)
         })"

section \<open>Reading the state objects back\<close>

context word_store
begin

text \<open>Reading one of several writes to an object at ascending offsets, and reading another object.\<close>

lemma ok_writes: "ok (fold (\<lambda>(i, v). wr q i v) ws s) p i = ok s p i" "sep (fold (\<lambda>(i, v). wr q i v) ws s) p p' = sep s p p'"
  by (induction ws arbitrary: s) (auto simp: ok_wr sep_wr)

lemma rd_writes_above:
  assumes "ok s p i" and "\<forall>(j, v) \<in> set ws. ok s p j \<and> i + 4 \<le> j"
  shows "rd p i (fold (\<lambda>(i, v). wr p i v) ws s) = rd p i s"
  using assms
proof (induction ws arbitrary: s)
  case (Cons w ws)
  obtain j v where w: "w = (j, v)" by fastforce
  have "rd p i (fold (\<lambda>(i, v). wr p i v) ws (wr p j v s)) = rd p i (wr p j v s)"
    by (rule Cons.IH) (use Cons.prems w ok_wr in auto)
  also have "\<dots> = rd p i s" by (rule rd_wr_other) (use Cons.prems w in auto)
  finally show ?case by (simp add: w)
qed simp

lemma rd_writes:
  assumes "sorted_wrt (\<lambda>(i, _) (j, _). i + 4 \<le> j) ws" and "\<forall>(j, v) \<in> set ws. ok s p j" and "(i, v) \<in> set ws"
  shows "rd p i (fold (\<lambda>(i, v). wr p i v) ws s) = v"
  using assms
proof (induction ws arbitrary: s)
  case (Cons w ws)
  obtain j u where w: "w = (j, u)" by fastforce
  show ?case
  proof (cases "(i, v) \<in> set ws")
    case True
    then show ?thesis using Cons.IH [of "wr p j u s"] Cons.prems by (auto simp: w ok_wr)
  next
    case False
    then have i: "i = j" "v = u" using Cons.prems(3) w by auto
    have "rd p i (fold (\<lambda>(i, v). wr p i v) ws (wr p j u s)) = rd p i (wr p j u s)"
      by (rule rd_writes_above) (use Cons.prems w i ok_wr in fastforce)+
    also have "\<dots> = v" using rd_wr Cons.prems(2) by (simp add: i w)
    finally show ?thesis by (simp add: w)
  qed
qed simp

lemma rd_writes_apart:
  assumes "ok s p i" and "sep s p q" and "\<forall>(j, v) \<in> set ws. ok s q j"
  shows "rd p i (fold (\<lambda>(i, v). wr q i v) ws s) = rd p i s"
  using assms
proof (induction ws arbitrary: s)
  case (Cons w ws)
  obtain j v where w: "w = (j, v)" by fastforce
  have "rd p i (fold (\<lambda>(i, v). wr q i v) ws (wr q j v s)) = rd p i (wr q j v s)"
    by (rule Cons.IH) (use Cons.prems w ok_wr sep_wr in auto)
  also have "\<dots> = rd p i s" by (rule rd_wr_apart) (use Cons.prems w in auto)
  finally show ?case by (simp add: w)
qed simp

end

fun spec_size :: "media_bo \<Rightarrow> nat" where
  "spec_size Batch_bo = BATCH_BO_SIZE"
| "spec_size Kernel_bo = KERNEL_BO_SIZE"
| "spec_size Vfe_state_bo = VFE_STATE_BO_SIZE"
| "spec_size Idrt_bo = IDRT_BO_SIZE"
| "spec_size Curbe_bo = CURBE_BO_SIZE"
| "spec_size Output_bo = OUTPUT_BO_SIZE"
| "spec_size Marker_bo = MARKER_BO_SIZE"
| "spec_size Surface_state_bo = SURFACE_STATE_BO_SIZE"
| "spec_size Binding_table_bo = BINDING_TABLE_BO_SIZE"
| "spec_size Input_x_bo = INPUT_BO_SIZE"
| "spec_size Input_y_bo = INPUT_BO_SIZE"

text \<open>The objects of an initialised context: all valid, of their sizes, and none overlaps another.\<close>

definition media_ok :: "media_bo bo_state \<Rightarrow> bool" where
  "media_ok s \<longleftrightarrow> (\<forall>p. bo_valid (bos s p) \<and> bo_size (bos s p) = spec_size p)
     \<and> (\<forall>p q. p \<noteq> q \<longrightarrow> apart (bos s p) (bos s q))"

lemmas bo_sizes = BATCH_BO_SIZE_def KERNEL_BO_SIZE_def VFE_STATE_BO_SIZE_def IDRT_BO_SIZE_def CURBE_BO_SIZE_def
  OUTPUT_BO_SIZE_def MARKER_BO_SIZE_def SURFACE_STATE_BO_SIZE_def BINDING_TABLE_BO_SIZE_def INPUT_BO_SIZE_def

lemma spec_size_bound: "spec_size p < 2 ^ 32"
  by (cases p) (simp_all add: bo_sizes)

lemma media_ok_inside: "media_ok s \<Longrightarrow> i + 4 \<le> spec_size p \<Longrightarrow> inside (bos s p) i"
  using spec_size_bound [of p] by (simp add: media_ok_def inside_def)

lemma media_ok_apart: "media_ok s \<Longrightarrow> p \<noteq> q \<Longrightarrow> apart (bos s p) (bos s q)"
  by (simp add: media_ok_def)

lemma writes32_bos [simp]: "bos (writes32 p ws s) = bos s"
  unfolding writes32_def by (induction ws arbitrary: s) auto

lemma media_ok_only_bos: "bos s' = bos s \<Longrightarrow> media_ok s' = media_ok s"
  by (simp add: media_ok_def)

lemma media_ok_steps [simp]:
  "media_ok (writes32 p ws s) = media_ok s" "media_ok (gpu_bo_clear bo s) = media_ok s"
  "media_ok (gpu_bo_write32 bo i v s) = media_ok s"
  by (rule media_ok_only_bos; simp)+

text \<open>In a context the reads of what was written last, and of other objects.\<close>

abbreviation read32 :: "media_bo \<Rightarrow> nat \<Rightarrow> media_bo bo_state \<Rightarrow> dword" where
  "read32 p \<equiv> gpu_bo_read32 (Some p)"

lemma read_writes:
  assumes "media_ok s" and "sorted_wrt (\<lambda>(i, _) (j, _). i + 4 \<le> j) ws" and "\<forall>(j, v) \<in> set ws. j + 4 \<le> spec_size p"
    and "(i, v) \<in> set ws"
  shows "read32 p i (writes32 p ws s) = v"
  unfolding writes32_def
  by (rule bo.rd_writes [OF assms(2) _ assms(4)]) (use assms(1,3) media_ok_inside in auto)

lemma read_writes_other:
  assumes "media_ok s" and "p \<noteq> q" and "i + 4 \<le> spec_size p" and "\<forall>(j, v) \<in> set ws. j + 4 \<le> spec_size q"
  shows "read32 p i (writes32 q ws s) = read32 p i s"
  unfolding writes32_def
  by (rule bo.rd_writes_apart) (use assms media_ok_inside media_ok_apart in auto)

lemma read_clear_other:
  assumes "media_ok s" and "p \<noteq> q" and "i + 4 \<le> spec_size p" and "4 \<le> spec_size q"
  shows "read32 p i (gpu_bo_clear (Some q) s) = read32 p i s"
  by (rule bo.rd_clear_apart [of s p i q 0]) (use assms media_ok_inside media_ok_apart in auto)

lemma spec_size_4: "4 \<le> spec_size p"
  by (cases p) (simp_all add: bo_sizes)

section \<open>Surface states\<close>

text \<open>What the hardware takes from a surface state: the type, and the scattered fields of the size.\<close>

definition surface_type :: "dword \<Rightarrow> dword" where
  "surface_type ss0 = drop_bit 29 ss0"

definition buffer_entries_m1 :: "dword \<Rightarrow> dword \<Rightarrow> dword" where
  "buffer_entries_m1 ss2 ss3 =
     (drop_bit 6 ss2 AND 0x7f) OR push_bit 7 (drop_bit 19 ss2 AND 0x1fff) OR push_bit 20 (drop_bit 21 ss3 AND 0x7f)"

definition surface_2d_size :: "dword \<Rightarrow> dword \<Rightarrow> dword list" where
  "surface_2d_size ss2 ss3 =
     [(drop_bit 6 ss2 AND 0x1fff) + 1, (drop_bit 19 ss2 AND 0x1fff) + 1, (drop_bit 3 ss3 AND 0x3ffff) + 1]"

lemma mask_words:
  "(x :: dword) AND 0x7f = take_bit 7 x" "x AND 0x1fff = take_bit 13 x" "x AND 0x3ffff = take_bit 18 x"
  "x AND 0x1f = take_bit 5 x" "x AND 0x3f = take_bit 6 x"
  by (simp_all add: take_bit_eq_mask mask_eq_exp_minus_1)

lemma buffer_entries_fields:
  assumes "take_bit 27 n = n"
  shows "buffer_entries_m1 (push_bit 6 (n AND 0x7f) OR push_bit 19 (drop_bit 7 n AND 0x1fff))
    (push_bit 21 (drop_bit 20 n AND 0x7f) OR push_bit 3 15) = n" (is "?l = n")
proof (rule bit_word_eqI)
  fix i
  assume i: "i < LENGTH(32)"
  have high: "bit n i \<Longrightarrow> i < 27" using assms by (metis bit_take_bit_iff)
  have low: "\<not> bit (push_bit 3 15 :: dword) (21 + j)" for j
    by (auto simp: bit_simps bit_numeral_rec)
  consider "i < 7" | "7 \<le> i" "i < 20" | "20 \<le> i" "i < 27" | "27 \<le> i" by linarith
  then show "bit ?l i = bit n i"
    using i high low [of "i - 20"]
    by cases (auto simp: buffer_entries_m1_def mask_words bit_simps)
qed

lemma surface_2d_fields:
  assumes "take_bit 13 w = w" and "take_bit 13 h = h" and "take_bit 18 p = p"
  shows "surface_2d_size (push_bit 6 (w AND 0x1fff) OR push_bit 19 (h AND 0x1fff)) (push_bit 3 (p AND 0x3ffff)) = [w + 1, h + 1, p + 1]"
proof -
  have "take_bit 13 (drop_bit 6 (push_bit 6 (take_bit 13 w) OR push_bit 19 (take_bit 13 h))) = take_bit 13 w"
    by (rule bit_word_eqI) (auto simp: bit_simps)
  moreover have "take_bit 13 (drop_bit 19 (push_bit 6 (take_bit 13 w) OR push_bit 19 (take_bit 13 h))) = take_bit 13 h"
    by (rule bit_word_eqI) (auto simp: bit_simps)
  moreover have "take_bit 18 (drop_bit 3 (push_bit 3 (take_bit 18 p))) = take_bit 18 p"
    by (rule bit_word_eqI) (auto simp: bit_simps)
  ultimately show ?thesis using assms by (simp add: surface_2d_size_def mask_words)
qed

lemma unat_pow2: "k < 32 \<Longrightarrow> unat ((2 :: dword) ^ k) = 2 ^ k"
proof -
  assume k: "k < 32"
  have "unat ((2 :: dword) ^ k) = unat (of_nat (2 ^ k) :: dword)" by simp
  also have "\<dots> = 2 ^ k mod 2 ^ 32" by (simp only: unsigned_of_nat take_bit_eq_mod) simp
  also have "\<dots> = 2 ^ k" using power_strict_increasing [OF k, of "2 :: nat"] by (intro mod_less) simp
  finally show ?thesis .
qed

lemma surface_reads:
  assumes "media_ok s" and "off + 24 \<le> SURFACE_STATE_BO_SIZE"
    and "s' = writes32 Surface_state_bo [(off + 0, a), (off + 4, b), (off + 8, c), (off + 12, d), (off + 16, 0), (off + 20, 0)] s"
  shows "read32 Surface_state_bo off s' = a" and "read32 Surface_state_bo (off + 4) s' = b"
    and "read32 Surface_state_bo (off + 8) s' = c" and "read32 Surface_state_bo (off + 12) s' = d"
proof -
  let ?ws = "[(off + 0, a), (off + 4, b), (off + 8, c), (off + 12, d), (off + 16, 0), (off + 20, 0)]"
  have r: "read32 Surface_state_bo i s' = v" if "(i, v) \<in> set ?ws" for i v
    unfolding assms(3) by (rule read_writes [OF assms(1) _ _ that]) (use assms(2) in auto)
  show "read32 Surface_state_bo off s' = a" "read32 Surface_state_bo (off + 4) s' = b"
    "read32 Surface_state_bo (off + 8) s' = c" "read32 Surface_state_bo (off + 12) s' = d"
    by (rule r, simp)+
qed

text \<open>A buffer surface written at an offset of the surface state object reads back, in the fields as the
  hardware scatters them, as a buffer at its address with the number of 16-byte entries of its size, up
  to 2 GB; a two-dimensional surface as its width, height and pitch, up to the field widths.\<close>

theorem surface_state_roundtrip:
  assumes "media_ok s" and "off + 24 \<le> SURFACE_STATE_BO_SIZE" and "16 \<le> bytes" and "bytes \<le> 2 ^ 31"
    and "0 < w" and "w \<le> 2 ^ 13" and "0 < h" and "h \<le> 2 ^ 13" and "0 < pitch" and "pitch \<le> 2 ^ 18"
  shows "(let s' = write_linear_surface_state_at off base_gtt bytes s in
      surface_type (read32 Surface_state_bo off s') = I965_SURFACE_BUFFER \<and> read32 Surface_state_bo (off + 4) s' = base_gtt
      \<and> buffer_entries_m1 (read32 Surface_state_bo (off + 8) s') (read32 Surface_state_bo (off + 12) s') = bytes div 16 - 1)
    \<and> (let s' = write_2d_surface_state_at off base_gtt w h pitch s in
      surface_type (read32 Surface_state_bo off s') = I965_SURFACE_2D \<and> read32 Surface_state_bo (off + 4) s' = base_gtt
      \<and> surface_2d_size (read32 Surface_state_bo (off + 8) s') (read32 Surface_state_bo (off + 12) s') = [w, h, pitch])"
proof -
  have m1: "unat (x - 1) = unat x - 1" if "0 < x" for x :: dword
    using that by (simp add: unat_minus_one word_neq_0_conv)
  have small: "take_bit k (x - 1) = x - 1" if "0 < x" "x \<le> 2 ^ k" "k < 32" for x :: dword and k
  proof -
    have "unat x \<le> 2 ^ k" using that(2,3) by (simp add: word_le_nat_alt unat_pow2)
    moreover have "0 < unat x" using that(1) by (simp add: word_less_nat_alt)
    ultimately have "unat (x - 1) < 2 ^ k" using m1 [OF that(1)] by simp
    then show ?thesis by (intro word_eq_via) (simp add: unsigned_take_bit_eq take_bit_nat_eq_self)
  qed
  have div: "0 < bytes div 16" "bytes div 16 \<le> 2 ^ 27"
    using assms(3,4) by (simp_all add: word_less_nat_alt word_le_nat_alt unat_div)
  have e: "buffer_entries_m1 (push_bit 6 (n AND 0x7f) OR push_bit 19 (drop_bit 7 n AND 0x1fff))
    (push_bit 21 (drop_bit 20 n AND 0x7f) OR push_bit 3 15) = n" if "n = bytes div 16 - 1" for n
    unfolding that by (rule buffer_entries_fields [OF small [OF div]]) simp
  have d: "surface_2d_size (push_bit 6 (w - 1 AND 0x1fff) OR push_bit 19 (h - 1 AND 0x1fff)) (push_bit 3 (pitch - 1 AND 0x3ffff))
      = [w - 1 + 1, h - 1 + 1, pitch - 1 + 1]"
    by (rule surface_2d_fields) (rule small; use assms(5-10) in simp)+
  have size: "\<not> bytes < 16" using assms(3) by simp
  show ?thesis
    unfolding Let_def
  proof (intro conjI)
    let ?n = "bytes div 16 - 1"
    note r = surface_reads [OF assms(1,2) refl, of "push_bit 29 I965_SURFACE_BUFFER OR push_bit 18 I965_SURFACEFORMAT_RAW"
        base_gtt "push_bit 6 (?n AND 0x7f) OR push_bit 19 (drop_bit 7 ?n AND 0x1fff)"
        "push_bit 21 (drop_bit 20 ?n AND 0x7f) OR push_bit 3 15"]
    have eq: "write_linear_surface_state_at off base_gtt bytes s =
        writes32 Surface_state_bo [(off + 0, push_bit 29 I965_SURFACE_BUFFER OR push_bit 18 I965_SURFACEFORMAT_RAW),
          (off + 4, base_gtt), (off + 8, push_bit 6 (?n AND 0x7f) OR push_bit 19 (drop_bit 7 ?n AND 0x1fff)),
          (off + 12, push_bit 21 (drop_bit 20 ?n AND 0x7f) OR push_bit 3 15), (off + 16, 0), (off + 20, 0)] s"
      using size by (simp only: write_linear_surface_state_at_def Let_def if_False)
    show "surface_type (read32 Surface_state_bo off (write_linear_surface_state_at off base_gtt bytes s)) = I965_SURFACE_BUFFER"
      unfolding eq r by (simp add: surface_type_def I965_SURFACE_BUFFER_def I965_SURFACEFORMAT_RAW_def)
    show "read32 Surface_state_bo (off + 4) (write_linear_surface_state_at off base_gtt bytes s) = base_gtt"
      unfolding eq by (rule r)
    show "buffer_entries_m1 (read32 Surface_state_bo (off + 8) (write_linear_surface_state_at off base_gtt bytes s))
        (read32 Surface_state_bo (off + 12) (write_linear_surface_state_at off base_gtt bytes s)) = bytes div 16 - 1"
      unfolding eq r by (rule e [OF refl])
  next
    note r = surface_reads [OF assms(1,2) refl, of "push_bit 29 I965_SURFACE_2D OR push_bit 18 I965_SURFACEFORMAT_R8_UINT"
        base_gtt "push_bit 6 (w - 1 AND 0x1fff) OR push_bit 19 (h - 1 AND 0x1fff)" "push_bit 3 (pitch - 1 AND 0x3ffff)"]
    have eq: "write_2d_surface_state_at off base_gtt w h pitch s =
        writes32 Surface_state_bo [(off + 0, push_bit 29 I965_SURFACE_2D OR push_bit 18 I965_SURFACEFORMAT_R8_UINT),
          (off + 4, base_gtt), (off + 8, push_bit 6 (w - 1 AND 0x1fff) OR push_bit 19 (h - 1 AND 0x1fff)),
          (off + 12, push_bit 3 (pitch - 1 AND 0x3ffff)), (off + 16, 0), (off + 20, 0)] s"
      using assms(5,7,9) by (simp only: write_2d_surface_state_at_def Let_def if_True)
    show "surface_type (read32 Surface_state_bo off (write_2d_surface_state_at off base_gtt w h pitch s)) = I965_SURFACE_2D"
      unfolding eq r by (simp add: surface_type_def I965_SURFACE_2D_def I965_SURFACEFORMAT_R8_UINT_def)
    show "read32 Surface_state_bo (off + 4) (write_2d_surface_state_at off base_gtt w h pitch s) = base_gtt"
      unfolding eq by (rule r)
    show "surface_2d_size (read32 Surface_state_bo (off + 8) (write_2d_surface_state_at off base_gtt w h pitch s))
        (read32 Surface_state_bo (off + 12) (write_2d_surface_state_at off base_gtt w h pitch s)) = [w, h, pitch]"
      unfolding eq r d by simp
  qed
qed

section \<open>The command stream of a dispatch\<close>

text \<open>The emitters of the media pipeline are those of the table of generation 5.\<close>

definition marker_call :: "media_bo bo_state \<Rightarrow> media_marker_slot \<Rightarrow> emitter_call" where
  "marker_call s slot = Marker (gtt Marker_bo s + of_nat (slot_number slot) * 4) (MEDIA_MARKER_TAG slot)"

definition preamble_calls :: "media_bo bo_state \<Rightarrow> dword \<Rightarrow> emitter_call list" where
  "preamble_calls s pool =
     [marker_call s MEDIA_MARKER_START,
      Mi_flush, marker_call s MEDIA_MARKER_AFTER_MI_FLUSH_1,
      Depth_buffer_null, marker_call s MEDIA_MARKER_AFTER_DEPTH_BUFFER,
      Pipeline_select_media, marker_call s MEDIA_MARKER_AFTER_PIPELINE_SELECT,
      Urb_fence pool, marker_call s MEDIA_MARKER_AFTER_URB_FENCE,
      State_base_address, marker_call s MEDIA_MARKER_AFTER_STATE_BASE,
      Media_state_pointers (gtt Vfe_state_bo s) (gtt Idrt_bo s), marker_call s MEDIA_MARKER_AFTER_MEDIA_STATE_POINTERS,
      Cs_urb_state, marker_call s MEDIA_MARKER_AFTER_CS_URB,
      Constant_buffer (gtt Curbe_bo s) 1, marker_call s MEDIA_MARKER_AFTER_CONSTANT_BUFFER]"

lemma media_emitters:
  "bw_emit_marker s slot = run_call gen5_init_ops (marker_call s slot)"
  "emit_mi_flush_media = run_call gen5_init_ops Mi_flush"
  "emit_3dstate_depth_buffer_null = run_call gen5_init_ops Depth_buffer_null"
  "emit_pipeline_select_media_cmd = run_call gen5_init_ops Pipeline_select_media"
  "emit_urb_fence_media pool = run_call gen5_init_ops (Urb_fence pool)"
  "emit_state_base_address_ironlake = run_call gen5_init_ops State_base_address"
  "emit_media_state_pointers_media s = run_call gen5_init_ops (Media_state_pointers (gtt Vfe_state_bo s) (gtt Idrt_bo s))"
  "emit_cs_urb_state_media = run_call gen5_init_ops Cs_urb_state"
  "emit_constant_buffer_media s units = run_call gen5_init_ops (Constant_buffer (gtt Curbe_bo s) units)"
  by (simp_all only: bw_emit_marker_def emit_mi_flush_media_def emit_3dstate_depth_buffer_null_def
      emit_pipeline_select_media_cmd_def emit_urb_fence_media_def emit_state_base_address_ironlake_def
      emit_media_state_pointers_media_def emit_cs_urb_state_media_def emit_constant_buffer_media_def
      marker_call_def run_call.simps gen5_emitters gen_ops.simps gpu_debug_marker_dwords_def Let_def
      CS_URB_SIZE_UNITS_def GEN5_CS_URB_SIZE_UNITS_def of_nat_numeral)

lemma preamble_is_calls: "emit_preamble s pool = fold (run_call gen5_init_ops) (preamble_calls s pool)"
  by (rule ext) (simp add: emit_preamble_def preamble_calls_def media_emitters Let_def)

definition object_words :: "dword \<Rightarrow> dword list" where
  "object_words i = [CMD_MEDIA_OBJECT OR 18, 0, 0, 0, i, 0, 0] @ replicate 13 0"

lemma object_whole: "whole (object_words i) \<and> opcode (object_words i) = [3, 2, 1, 0] \<and> length (object_words i) = 20"
  by (simp add: whole_def object_words_def command_length_def opcode_def CMD_MEDIA_OBJECT_def CMD_GFX_def)

lemma objects_emit: "emit_objects n w = bw_emits (concat (map (\<lambda>i. object_words (of_nat i)) [0..<unat n])) w"
proof -
  have one: "emit_media_object_indexed i = bw_emits (object_words i)" for i
    by (simp only: emit_media_object_indexed_def emit_media_object_inline3_def object_words_def)
  have "fold (\<lambda>i. bw_emits (object_words (of_nat i))) is w = bw_emits (concat (map (\<lambda>i. object_words (of_nat i)) is)) w" for "is"
    by (induction "is" arbitrary: w) simp_all
  then show ?thesis unfolding emit_objects_def one by simp
qed


definition preamble_table :: "(dword list \<times> nat) list" where
  "preamble_table =
     [([0, 0x20], 4), ([0, 0x04], 1), ([0, 0x20], 4), ([3, 3, 1, 5], 6), ([0, 0x20], 4), ([3, 1, 1, 4], 1), ([0, 0x20], 4),
      ([3, 0, 0, 0], 3), ([0, 0x20], 4), ([3, 0, 1, 1], 8), ([0, 0x20], 4), ([3, 2, 0, 0], 3), ([0, 0x20], 4),
      ([3, 0, 0, 1], 2), ([0, 0x20], 4), ([3, 0, 0, 2], 2), ([0, 0x20], 4)]"

definition calls_stream :: "emitter_call list \<Rightarrow> dword list" where
  "calls_stream cs = concat (map (call_stream gen5_init_ops) cs)"

definition calls_commands :: "emitter_call list \<Rightarrow> dword list list" where
  "calls_commands cs = concat (map (call_commands gen5_init_ops) cs)"

lemma calls_split: "split_commands (calls_stream cs) = Some (calls_commands cs)"
  unfolding calls_stream_def calls_commands_def by (rule gen5.calls_whole)

lemma calls_table:
  "map (\<lambda>cmd. (opcode cmd, length cmd)) (calls_commands cs) = concat (map (command_table 5) cs)"
  by (induction cs) (simp_all add: calls_commands_def table_entry(3) [OF gen5_entry])

lemma split_length: "split_commands ds = Some cs \<Longrightarrow> length ds = sum_list (map length cs)"
proof (induction ds arbitrary: cs rule: split_commands.induct)
  case (2 h t)
  let ?n = "command_length h - 1"
  obtain ds where ds: "split_commands (drop ?n t) = Some ds" "cs = (h # take ?n t) # ds" "\<not> length t < ?n"
    using 2(2) by (auto simp: Let_def split: if_splits)
  then have "length (drop ?n t) = sum_list (map length ds)" using 2(1) [OF refl ds(3)] by simp
  then show ?case using ds(2,3) by simp
qed simp

lemma calls_length: "length (calls_stream cs) = sum_list (map snd (concat (map (command_table 5) cs)))"
  using split_length [OF calls_split [of cs]] unfolding calls_table [symmetric] by (simp add: comp_def)

lemma preamble_commands:
  "map (\<lambda>cmd. (opcode cmd, length cmd)) (calls_commands (preamble_calls s pool)) = preamble_table"
  "length (calls_stream (preamble_calls s pool)) = 62"
  by (simp_all add: calls_table calls_length preamble_calls_def marker_call_def preamble_table_def)

definition end_calls :: "media_bo bo_state \<Rightarrow> emitter_call list" where
  "end_calls s = [marker_call s MEDIA_MARKER_AFTER_MEDIA_OBJECT, Mi_flush, marker_call s MEDIA_MARKER_AFTER_MI_FLUSH_2]"

lemma end_commands:
  "map (\<lambda>cmd. (opcode cmd, length cmd)) (calls_commands (end_calls s)) = [([0, 0x20], 4), ([0, 0x04], 1), ([0, 0x20], 4)]"
  "length (calls_stream (end_calls s)) = 9"
  by (simp_all add: calls_table calls_length end_calls_def marker_call_def)

text \<open>The dwords of a dispatch of \<open>n\<close> threads, an even number.\<close>

definition dispatch_words :: "media_bo bo_state \<Rightarrow> dword \<Rightarrow> dword \<Rightarrow> dword list" where
  "dispatch_words s pool n =
     calls_stream (preamble_calls s pool) @ concat (map (\<lambda>i. object_words (of_nat i)) [0..<unat n]) @ calls_stream (end_calls s)"

lemma dispatch_length: "length (dispatch_words s pool n) = 71 + 20 * unat n"
proof -
  have "length (concat (map (\<lambda>i. object_words (of_nat i)) [0..<unat n])) = 20 * length [0..<unat n]"
    by (rule length_concat_blocks) (simp add: object_whole)
  then show ?thesis by (simp add: dispatch_words_def preamble_commands end_commands)
qed

lemma dispatch_emits:
  "emit_end s (emit_objects n (emit_preamble s pool w)) =
     (let w = bw_emits (dispatch_words s pool n) w in if batch_writer.count w AND 1 \<noteq> 0 then bw_emit Gen_Ops.MI_NOOP w else w)"
proof -
  have pre: "emit_preamble s pool w = bw_emits (calls_stream (preamble_calls s pool)) w" for w
    unfolding preamble_is_calls calls_stream_def by (rule gen5.calls_append)
  have "bw_emit_marker s MEDIA_MARKER_AFTER_MI_FLUSH_2 (emit_mi_flush_media (bw_emit_marker s MEDIA_MARKER_AFTER_MEDIA_OBJECT w))
      = bw_emits (calls_stream (end_calls s)) w" for w
    using gen5.calls_append [of "end_calls s" w]
    by (simp add: calls_stream_def end_calls_def media_emitters)
  then show ?thesis by (simp add: emit_end_def pre objects_emit dispatch_words_def Let_def)
qed


lemma parallel_batch_words:
  assumes "length (dwords stack) = BATCH_CAPACITY_DW"
  shows "unat n \<le> 1634 \<Longrightarrow> \<not> overflow (parallel_batch s n stack)
      \<and> written (parallel_batch s n stack) = dispatch_words s (vfe_pool n) n @ [Gen_Ops.MI_NOOP]"
    and "1634 < unat n \<Longrightarrow> overflow (parallel_batch s n stack)"
proof -
  let ?w = "bw_init stack" and ?ds = "dispatch_words s (vfe_pool n) n"
  have w: "bw_ok ?w" "written ?w = []" using bw_init_ok [OF assms] by auto
  have c: "batch_writer.count ?w = 0" "\<not> overflow ?w" by (simp_all add: bw_init_def)
  have b: "parallel_batch s n stack =
      (let w = bw_emits ?ds ?w in if batch_writer.count w AND 1 \<noteq> 0 then bw_emit Gen_Ops.MI_NOOP w else w)"
    unfolding parallel_batch_def by (rule dispatch_emits)
  show "\<not> overflow (parallel_batch s n stack) \<and> written (parallel_batch s n stack) = ?ds @ [Gen_Ops.MI_NOOP]"
    if n: "unat n \<le> 1634"
  proof -
    have fit: "batch_writer.count ?w + length ?ds \<le> BATCH_CAPACITY_DW"
      using n by (simp add: c dispatch_length BATCH_CAPACITY_DW_def)
    note e = bw_emits_written [OF w(1) fit]
    have odd: "batch_writer.count (bw_emits ?ds ?w) AND 1 \<noteq> 0"
      by (simp add: e(2) c dispatch_length and_one_eq mod_2_eq_odd)
    have "batch_writer.count (bw_emits ?ds ?w) + length [Gen_Ops.MI_NOOP] \<le> BATCH_CAPACITY_DW"
      using n by (simp add: e(2) c dispatch_length BATCH_CAPACITY_DW_def)
    from bw_emits_written [OF e(4) this] show ?thesis
      unfolding b Let_def using odd e(1,3) w(2) c(2) by simp
  qed
  show "overflow (parallel_batch s n stack)" if n: "1634 < unat n"
  proof -
    have "overflow (bw_emits ?ds ?w)"
      using bw_emits_overflow [of ?w ?ds] n by (simp add: c dispatch_length BATCH_CAPACITY_DW_def)
    then show ?thesis unfolding b Let_def by (simp add: bw_emit_def)
  qed
qed


section \<open>State and commands agree\<close>

text \<open>Fields of the VFE state and of the URB fence.\<close>

definition urb_entries :: "dword \<Rightarrow> dword" where "urb_entries vfe1 = drop_bit 9 vfe1 AND 0x7f"
definition threads_m1 :: "dword \<Rightarrow> dword" where "threads_m1 vfe1 = drop_bit 25 vfe1 AND 0x7f"
definition vfe_fence_of :: "dword \<Rightarrow> dword" where "vfe_fence_of fence = drop_bit 10 fence AND 0x3ff"
definition cs_fence_of :: "dword \<Rightarrow> dword" where "cs_fence_of fence = drop_bit 20 fence AND 0x3ff"

lemma vfe1_fields:
  fixes a b :: dword
  assumes "v = push_bit 9 (a AND 0x7f) OR push_bit 25 (b AND 0x7f)"
  shows "urb_entries v = take_bit 7 a" and "threads_m1 v = take_bit 7 b"
  by (rule bit_word_eqI; auto simp: assms urb_entries_def threads_m1_def mask_words bit_simps)+

lemma fence_fields:
  fixes a b :: dword
  assumes "take_bit 10 a = a" and "take_bit 10 b = b"
  shows "vfe_fence_of (push_bit 10 a OR push_bit 20 b) = a" and "cs_fence_of (push_bit 10 a OR push_bit 20 b) = b"
proof -
  have m: "(x :: dword) AND 0x3ff = take_bit 10 x" for x by (simp add: take_bit_eq_mask mask_eq_exp_minus_1)
  have "take_bit 10 (drop_bit 10 (push_bit 10 (take_bit 10 a) OR push_bit 20 b)) = take_bit 10 a"
    "take_bit 10 (drop_bit 20 (push_bit 10 (take_bit 10 a) OR push_bit 20 (take_bit 10 b))) = take_bit 10 b"
    by (rule bit_word_eqI; auto simp: bit_simps)+
  then show "vfe_fence_of (push_bit 10 a OR push_bit 20 b) = a" "cs_fence_of (push_bit 10 a OR push_bit 20 b) = b"
    unfolding vfe_fence_of_def cs_fence_of_def m assms by simp_all
qed

lemma pool_bounds: "0 < n \<Longrightarrow> 0 < vfe_pool n \<and> vfe_pool n \<le> 48"
  by (auto simp: vfe_pool_def MEDIA_MAX_PARALLEL_THREADS_def)

lemma small_take: "(x :: dword) \<le> 64 \<Longrightarrow> 7 \<le> k \<Longrightarrow> take_bit k x = x"
proof -
  assume "x \<le> 64" "7 \<le> k"
  then have "unat x < 2 ^ 7" "(2::nat) ^ 7 \<le> 2 ^ k"
    using power_increasing [of 7 k "2 :: nat"] by (auto simp: word_le_nat_alt)
  then show ?thesis by (intro word_eq_via) (simp add: unsigned_take_bit_eq take_bit_nat_eq_self)
qed

lemma state_bos [simp]:
  "bos (write_vfe_state n s) = bos s" "bos (write_interface_descriptor_ex c o' l s) = bos s"
  "bos (write_interface_descriptor s) = bos s" "bos (prime_markers s) = bos s"
  by (simp_all add: write_vfe_state_def write_interface_descriptor_ex_def write_interface_descriptor_def prime_markers_def Let_def)

lemma media_ok_states [simp]:
  "media_ok (write_vfe_state n s) = media_ok s" "media_ok (write_interface_descriptor_ex c o' l s) = media_ok s"
  "media_ok (write_interface_descriptor s) = media_ok s" "media_ok (prime_markers s) = media_ok s"
  by (rule media_ok_only_bos; simp)+

lemma gtt_bos: "bos s' = bos s \<Longrightarrow> gtt p s' = gtt p s"
  by (simp add: gtt_def)

text \<open>What each step leaves in its object, and that it leaves the other objects alone.\<close>

lemma vfe_reads:
  assumes "media_ok s" and "0 < n" and "n \<le> 48"
  shows "read32 Vfe_state_bo 4 (write_vfe_state n s) = push_bit 9 (n AND 0x7f) OR push_bit 25 ((n - 1) AND 0x7f)"
    and "read32 Vfe_state_bo 8 (write_vfe_state n s) = gtt Idrt_bo s AND NOT 0xf"
proof -
  let ?v = "push_bit 9 (n AND 0x7f) OR push_bit 25 ((n - 1) AND 0x7f)"
  let ?ws = "[(0, 0), (4, ?v), (8, gtt Idrt_bo s AND NOT 0xf), (12, 0), (16, 0), (20, 0)]"
  have n: "n \<noteq> 0" "\<not> 48 < n" using assms(2,3) by auto
  have eq: "write_vfe_state n s = writes32 Vfe_state_bo ?ws (gpu_bo_clear (Some Vfe_state_bo) s)"
    using n by (simp add: write_vfe_state_def MEDIA_MAX_PARALLEL_THREADS_def VFE_GENERIC_MODE_def)
  have r: "read32 Vfe_state_bo i (write_vfe_state n s) = v" if "(i, v) \<in> set ?ws" for i v
    unfolding eq by (rule read_writes [OF _ _ _ that]) (use assms(1) in \<open>auto simp: VFE_STATE_BO_SIZE_def\<close>)
  show "read32 Vfe_state_bo 4 (write_vfe_state n s) = ?v" "read32 Vfe_state_bo 8 (write_vfe_state n s) = gtt Idrt_bo s AND NOT 0xf"
    by (rule r, simp)+
qed

lemma descriptor_reads:
  assumes "media_ok s"
  shows "read32 Idrt_bo 0 (write_interface_descriptor_ex c off len s) = (if 0 < len then 15 else 6) OR (gtt Kernel_bo s AND NOT 0x3f)"
    and "read32 Idrt_bo 4 (write_interface_descriptor_ex c off len s) = push_bit 18 1 OR push_bit 26 (len AND 0x3f)"
    and "read32 Idrt_bo 12 (write_interface_descriptor_ex c off len s) = (c AND 0x1f) OR (off AND NOT 0x1f)"
proof -
  let ?ws = "[(0, (if 0 < len then 15 else 6) OR (gtt Kernel_bo s AND NOT 0x3f)), (4, push_bit 18 1 OR push_bit 26 (len AND 0x3f)),
      (8, 0), (12, (c AND 0x1f) OR (off AND NOT 0x1f))]"
  have eq: "write_interface_descriptor_ex c off len s = writes32 Idrt_bo ?ws (gpu_bo_clear (Some Idrt_bo) s)"
    by (simp only: write_interface_descriptor_ex_def Let_def)
  have r: "read32 Idrt_bo i (write_interface_descriptor_ex c off len s) = v" if "(i, v) \<in> set ?ws" for i v
    unfolding eq by (rule read_writes [OF _ _ _ that]) (use assms in \<open>auto simp: IDRT_BO_SIZE_def\<close>)
  show "read32 Idrt_bo 0 (write_interface_descriptor_ex c off len s) = (if 0 < len then 15 else 6) OR (gtt Kernel_bo s AND NOT 0x3f)"
    "read32 Idrt_bo 4 (write_interface_descriptor_ex c off len s) = push_bit 18 1 OR push_bit 26 (len AND 0x3f)"
    "read32 Idrt_bo 12 (write_interface_descriptor_ex c off len s) = (c AND 0x1f) OR (off AND NOT 0x1f)"
    by (rule r, simp)+
qed

lemma descriptor_other:
  "media_ok s \<Longrightarrow> p \<noteq> Idrt_bo \<Longrightarrow> i + 4 \<le> spec_size p \<Longrightarrow>
     read32 p i (write_interface_descriptor_ex c off len s) = read32 p i s"
  unfolding write_interface_descriptor_ex_def Let_def
  by (subst read_writes_other) (auto simp: IDRT_BO_SIZE_def read_clear_other)

lemma markers_other:
  "media_ok s \<Longrightarrow> p \<noteq> Marker_bo \<Longrightarrow> i + 4 \<le> spec_size p \<Longrightarrow> read32 p i (prime_markers s) = read32 p i s"
  unfolding prime_markers_def
  by (subst read_writes_other) (auto simp: MARKER_BO_SIZE_def MEDIA_MARKER_COUNT_def read_clear_other)

lemma markers_reads:
  assumes "media_ok s"
  shows "read32 Marker_bo (4 * slot_number slot) (prime_markers s) = MEDIA_MARKER_SENTINEL"
  unfolding prime_markers_def
proof (rule read_writes)
  have "slot_number slot < MEDIA_MARKER_COUNT" by (cases slot) (simp_all add: MEDIA_MARKER_COUNT_def)
  then show "(4 * slot_number slot, MEDIA_MARKER_SENTINEL) \<in> set (map (\<lambda>i. (i * 4, MEDIA_MARKER_SENTINEL)) [0..<MEDIA_MARKER_COUNT])"
    by (auto simp: mult.commute)
qed (use assms in \<open>auto simp: MEDIA_MARKER_COUNT_def MARKER_BO_SIZE_def sorted_wrt_map intro!: sorted_wrt_mono_rel [OF _ sorted_wrt_upt]\<close>)



section \<open>Initialisation\<close>

lemma alloc_bos:
  assumes "gpu_bo_alloc (allocator p) gm (Some p) name sz al s = (st, s')" and "0 < sz"
  shows "st = fst (allocator p sz)" and "q \<noteq> p \<Longrightarrow> bos s' q = bos s q"
    and "st = B_OK \<Longrightarrow> cpu_addr (bos s' p) = snd (allocator p sz) \<and> bo_size (bos s' p) = sz \<and> bo_valid (bos s' p)"
  using assms by (auto simp: gpu_bo_alloc_def Let_def split: prod.splits if_splits)

lemma free_bos_one: "bos (gpu_bo_free (Some p) s) q = (if q = p \<and> bo_valid (bos s p) then zero_bo else bos s q)"
  by (simp add: gpu_bo_free_def Let_def)

lemma frees:
  assumes "bo_inv s"
  shows "bo_inv (fold (\<lambda>p. gpu_bo_free (Some p)) ps s)
    \<and> set (live_entries (fold (\<lambda>p. gpu_bo_free (Some p)) ps s)) = set (live_entries s) - set ps
    \<and> (\<forall>q. bo_valid (bos (fold (\<lambda>p. gpu_bo_free (Some p)) ps s) q) \<longrightarrow> q \<notin> set ps \<and> bo_valid (bos s q))"
  using assms
proof (induction ps arbitrary: s)
  case (Cons p ps)
  note f = free_effect [OF Cons.prems, of p]
  have v: "bo_valid (bos (gpu_bo_free (Some p) s) q) \<Longrightarrow> q \<noteq> p \<and> bo_valid (bos s q)" for q
    by (auto simp: free_bos_one zero_bo_def split: if_splits)
  show ?case using Cons.IH [OF f(1)] f(2) v by auto
qed simp

text \<open>Allocating a list of distinct objects that hold no allocation.\<close>

lemma alloc_specs_effect:
  assumes "bo_inv s" and "\<forall>(p, name, sz, al) \<in> set specs. 0 < sz \<and> \<not> bo_valid (bos s p)" and "distinct (map fst specs)"
    and "card (set (live_entries s)) + length specs \<le> MAX_TRACKED_BOS" and "alloc_specs allocator gm specs s = (st, s')"
  shows "bo_inv s' \<and> (st = B_OK \<longrightarrow> set (live_entries s') = set (live_entries s) \<union> fst ` set specs
      \<and> (\<forall>(p, name, sz, al) \<in> set specs. cpu_addr (bos s' p) = snd (allocator p sz) \<and> bo_size (bos s' p) = sz \<and> bo_valid (bos s' p))
      \<and> (\<forall>q. q \<notin> fst ` set specs \<longrightarrow> bos s' q = bos s q))"
  using assms
proof (induction specs arbitrary: s)
  case (Cons spec specs)
  obtain p name sz al where spec: "spec = (p, name, sz, al)" by (metis prod_cases4)
  obtain st1 s1 where one: "gpu_bo_alloc (allocator p) gm (Some p) (Some name) sz al s = (st1, s1)" by fastforce
  have fresh: "\<not> bo_valid (bos s p)" "0 < sz" using Cons.prems(2) by (auto simp: spec)
  note a = alloc_effect [OF Cons.prems(1) fresh(1) one] and b = alloc_bos [of allocator p, OF one fresh(2)]
  have count: "live_count s < MAX_TRACKED_BOS"
    using Cons.prems(1,4) by (simp add: bo_inv_def table_ok_def distinct_card)
  show ?case
  proof (cases "st1 = B_OK")
    case False
    then have "st = st1" "s' = s1" using Cons.prems(5) by (simp_all add: spec one Let_def)
    then show ?thesis using False a(1) by simp
  next
    case True
    have p: "p \<notin> fst ` set specs" using Cons.prems(3) by (simp add: spec)
    have live: "set (live_entries s1) = insert p (set (live_entries s))" using a(2) True count by simp
    have rest: "alloc_specs allocator gm specs s1 = (st, s')" using Cons.prems(5) True by (simp add: spec one Let_def)
    have "0 < z \<and> \<not> bo_valid (bos s1 q)" if q: "(q, nm, z, a) \<in> set specs" for q nm z a
    proof -
      have "q \<noteq> p" using p q by (metis fst_conv image_eqI)
      then show ?thesis using Cons.prems(2) q b(2) [of q] by (auto simp: spec)
    qed
    then have "\<forall>(q, name, sz, al) \<in> set specs. 0 < sz \<and> \<not> bo_valid (bos s1 q)" by auto
    moreover have "card (set (live_entries s1)) + length specs \<le> MAX_TRACKED_BOS"
      using Cons.prems(4) card_insert_le_m1 unfolding live
      by (auto simp: card_insert_if)
    ultimately have ih: "bo_inv s' \<and> (st = B_OK \<longrightarrow> set (live_entries s') = set (live_entries s1) \<union> fst ` set specs
      \<and> (\<forall>(p, name, sz, al) \<in> set specs. cpu_addr (bos s' p) = snd (allocator p sz) \<and> bo_size (bos s' p) = sz \<and> bo_valid (bos s' p))
      \<and> (\<forall>q. q \<notin> fst ` set specs \<longrightarrow> bos s' q = bos s1 q))"
      using Cons.IH [OF a(1) _ _ _ rest] Cons.prems(3) by (simp add: spec)
    show ?thesis
    proof (intro conjI impI)
      show "bo_inv s'" using ih by blast
      assume ok: "st = B_OK"
      show "set (live_entries s') = set (live_entries s) \<union> fst ` set (spec # specs)"
        using ih ok live by (simp add: spec)
      show "\<forall>q. q \<notin> fst ` set (spec # specs) \<longrightarrow> bos s' q = bos s q"
        using ih ok b(2) by (simp add: spec)
      have "bos s' p = bos s1 p" using ih ok p by blast
      then show "\<forall>(p, name, sz, al) \<in> set (spec # specs). cpu_addr (bos s' p) = snd (allocator p sz) \<and> bo_size (bos s' p) = sz \<and> bo_valid (bos s' p)"
        using ih ok b(3) [OF True] by (simp add: spec)
    qed
  qed
qed simp

lemma clears_bos: "bos (fold (\<lambda>p. gpu_bo_clear (Some p)) ps s) = bos s" "bo_inv (fold (\<lambda>p. gpu_bo_clear (Some p)) ps s) = bo_inv s"
  "live_entries (fold (\<lambda>p. gpu_bo_clear (Some p)) ps s) = live_entries s"
  by (induction ps arbitrary: s) (simp_all, simp add: gpu_bo_clear_def live_entries_def)

lemma all_bos_all: "set all_bos = UNIV"
proof -
  have "p \<in> set all_bos" for p by (cases p) (simp_all add: all_bos_def)
  then show ?thesis by blast
qed

lemma specs_facts:
  "fst ` set bo_specs = UNIV" "distinct (map fst bo_specs)" "length bo_specs = 11"
  "(p, name, sz, al) \<in> set bo_specs \<Longrightarrow> sz = spec_size p" "\<exists>name al. (p, name, spec_size p, al) \<in> set bo_specs"
proof -
  show all: "\<exists>name al. (p, name, spec_size p, al) \<in> set bo_specs" for p
    by (cases p) (auto simp: bo_specs_def)
  then show "fst ` set bo_specs = UNIV" by (metis UNIV_eq_I fst_conv image_eqI)
  show "(p, name, sz, al) \<in> set bo_specs \<Longrightarrow> sz = spec_size p" by (auto simp: bo_specs_def)
qed (simp_all add: bo_specs_def)

text \<open>C23: Initialising a context either gets all eleven objects, which are valid, of their sizes and the only
  ones in the table of live objects, and do not overlap when the kernel's allocations do not; or it gives
  back every object it got and leaves none valid and none in the table.\<close>

theorem media_init_all_or_nothing:
  assumes "bo_inv (store c)" and "live_entries (store c) = []"
    and "media_pipeline_init allocator gm is_clone answers (Some c) d = (st, ctx, d')"
    and "\<And>p q. p \<noteq> q \<Longrightarrow> snd (allocator p (spec_size p)) + spec_size p \<le> snd (allocator q (spec_size q))
                     \<or> snd (allocator q (spec_size q)) + spec_size q \<le> snd (allocator p (spec_size p))"
  shows "\<exists>c'. ctx = Some c' \<and> bo_inv (store c')
    \<and> (if st = B_OK then initialized c' \<and> media_ok (store c') \<and> set (live_entries (store c')) = UNIV
       else \<not> initialized c' \<and> (\<forall>p. \<not> bo_valid (bos (store c') p)) \<and> live_entries (store c') = [] \<and> d' = d)"
proof -
  let ?s = "(store c)\<lparr>bos := \<lambda>p. zero_bo\<rparr>"
  obtain st1 s1 where a: "alloc_specs allocator gm bo_specs ?s = (st1, s1)" by fastforce
  have none: "live_entries ?s = []" using assms(2) by (simp add: live_entries_def)
  have inv: "bo_inv ?s" using assms(1,2) none by (simp add: bo_inv_def table_ok_def live_entries_def)
  have specs: "\<forall>(p, name, sz, al) \<in> set bo_specs. 0 < sz \<and> \<not> bo_valid (bos ?s p)"
  proof -
    have "0 < spec_size p" for p using spec_size_4 [of p] by simp
    then show ?thesis using specs_facts(4) by (force simp: zero_bo_def)
  qed
  have room: "card (set (live_entries ?s)) + length bo_specs \<le> MAX_TRACKED_BOS"
    unfolding none by (simp add: specs_facts(3) MAX_TRACKED_BOS_def)
  note e = alloc_specs_effect [OF inv specs specs_facts(2) room a]
  show ?thesis
  proof (cases "st1 = B_OK")
    case False
    then have ctx: "st = st1" "ctx = Some (c\<lparr>store := free_bos s1, initialized := False\<rparr>)" "d' = d"
      using assms(3) a by (simp_all add: media_pipeline_init_def media_pipeline_uninit_def)
    have "bo_inv s1" using e by blast
    from frees [OF this, of all_bos] show ?thesis using False ctx by (simp add: free_bos_def all_bos_all)
  next
    case True
    let ?t = "fold (\<lambda>p. gpu_bo_clear (Some p)) all_bos s1"
    have ctx: "st = B_OK" "ctx = Some (c\<lparr>store := ?t, initialized := True\<rparr>)"
      using assms(3) a True by (simp_all add: media_pipeline_init_def)
    have bo: "cpu_addr (bos s1 p) = snd (allocator p (spec_size p)) \<and> bo_size (bos s1 p) = spec_size p \<and> bo_valid (bos s1 p)" for p
      using e True specs_facts(5) [of p] by fastforce
    have "media_ok ?t" using bo assms(4) by (simp add: media_ok_def clears_bos apart_def)
    then show ?thesis using ctx e True none by (simp add: clears_bos specs_facts(1))
  qed
qed

section \<open>Submission\<close>

text \<open>Reserving the space of a whole sequence and writing it is one \<open>Put\<close> of the sequence.\<close>

lemma direct_is_put:
  assumes "queue_at k p r" and "length ds \<le> 2 ^ k"
  shows "do { (r, t) \<leftarrow> queue_make_space polls (length ds) r t; Some (fold queue_write ds r, t) } = queue_puts polls [ds] r t"
proof -
  have "queue_put polls ds r t = map_option (\<lambda>(r, t). (fold queue_write ds r, t)) (queue_make_space polls (length ds) r t)"
    by (rule queue_put_writes [OF assms])
  then show ?thesis by (cases "queue_make_space polls (length ds) r t") (auto split: prod.splits)
qed

lemma submit_direct_writes:
  assumes "queue_at k p (primary_ring (drv_engine d))" and "4 * length ds + 16 \<le> hw_space_left (primary_ring (drv_engine d))"
    and "hw_space_left (primary_ring (drv_engine d)) \<le> 4 * 2 ^ k" and "seq = u32 (last_submitted_seq (drv_engine d) + 1)"
    and "cmds = ds @ seq_store seq"
  shows "\<exists>d' t'. submit_direct env ds d t = Some (d', t')
    \<and> hw_base (primary_ring (drv_engine d')) =
        hw_base (fold queue_write (cmds @ (if odd (p + length cmds) then [0] else [])) (primary_ring (drv_engine d)))
    \<and> tail_written (drv_engine d') = hw_position (primary_ring (drv_engine d')) \<and> 8 dvd tail_written (drv_engine d')
    \<and> last_submitted_seq (drv_engine d') = seq"
proof -
  let ?e = "drv_engine d"
  have len: "length ds \<le> 2 ^ k" using assms(2,3) by simp
  have eq: "with_queue env (\<lambda>r t. do { (r, t) \<leftarrow> queue_make_space (env_polls env) (length ds) r t; Some (fold queue_write ds r, t) }) ?e t
      = with_queue env (queue_puts (env_polls env) [ds]) ?e t"
    unfolding with_queue_def direct_is_put [OF assms(1) len] by (rule refl)
  have space: "4 * length (concat [ds]) + 16 \<le> hw_space_left (primary_ring ?e)" "cmds = concat [ds] @ seq_store seq"
    using assms(2,5) by simp_all
  obtain e' t' where s: "with_queue env (queue_puts (env_polls env) [ds]) ?e t = Some (e', t')"
    "hw_base (primary_ring e') = hw_base (fold queue_write (cmds @ (if odd (p + length cmds) then [0] else [])) (primary_ring ?e))"
    "tail_written e' = hw_position (primary_ring e')" "8 dvd tail_written e'" "last_submitted_seq e' = seq"
    using queue_session [OF assms(1) space(1) assms(3,4) space(2), of env t] by auto
  then show ?thesis unfolding submit_direct_def eq by simp
qed

lemma store_update_eq: "store_update f c = c\<lparr>store := f (store c)\<rparr>"
  by (cases c) simp

text \<open>Submitting a dispatch on an initialised context: up to 1634 threads, with space counted for the sequence,
  it succeeds; the context's objects are set up, the ring holds the sequence from the position on, and TAIL
  is set behind it at an even dword. With more threads it fails without touching the ring.\<close>

theorem dispatch_reaches_ring:
  assumes "initialized c" and "length (dwords stack) = BATCH_CAPACITY_DW" and "0 < n" and "s = parallel_state n bt (store c)"
    and "queue_at k p (primary_ring (drv_engine d))" and "hw_space_left (primary_ring (drv_engine d)) \<le> 4 * 2 ^ k"
    and "4 * (72 + 20 * unat n) + 16 \<le> hw_space_left (primary_ring (drv_engine d))"
    and "seq = u32 (last_submitted_seq (drv_engine d) + 1)"
    and "cmds = map unat (written (parallel_batch s n stack)) @ seq_store seq"
  shows "(unat n \<le> 1634 \<longrightarrow> (\<exists>d' t'. submit_parallel_generic env stack n bt (Some c) d t = Some (B_OK, Some (c\<lparr>store := s\<rparr>), d', t')
        \<and> hw_base (primary_ring (drv_engine d')) =
            hw_base (fold queue_write (cmds @ (if odd (p + length cmds) then [0] else [])) (primary_ring (drv_engine d)))
        \<and> tail_written (drv_engine d') = hw_position (primary_ring (drv_engine d')) \<and> 8 dvd tail_written (drv_engine d')))
    \<and> (1634 < unat n \<longrightarrow> submit_parallel_generic env stack n bt (Some c) d t = Some (B_NO_MEMORY, Some (c\<lparr>store := s\<rparr>), d, t))"
proof -
  let ?w = "parallel_batch s n stack"
  have n: "n \<noteq> 0" using assms(3) by simp
  have st: "store_update (parallel_state n bt) c = c\<lparr>store := s\<rparr>" unfolding assms(4) by (rule store_update_eq)
  have generic: "submit_parallel_generic env stack n bt (Some c) d t =
      (if overflow ?w then Some (B_NO_MEMORY, Some (c\<lparr>store := s\<rparr>), d, t)
       else do { (d, t) \<leftarrow> submit_direct env (map unat (written ?w)) d t; Some (B_OK, Some (c\<lparr>store := s\<rparr>), d, t) })"
    using assms(1) n by (simp add: submit_parallel_generic_def usable_def Let_def st assms(4) [symmetric])
  note words = parallel_batch_words [OF assms(2), of n s]
  show ?thesis
  proof (intro conjI impI)
    assume small: "unat n \<le> 1634"
    have "length (map unat (written ?w)) = 72 + 20 * unat n" using words(1) [OF small] by (simp add: dispatch_length)
    then have "4 * length (map unat (written ?w)) + 16 \<le> hw_space_left (primary_ring (drv_engine d))" using assms(7) by simp
    from submit_direct_writes [OF assms(5) this assms(6,8,9), of env t]
    show "\<exists>d' t'. submit_parallel_generic env stack n bt (Some c) d t = Some (B_OK, Some (c\<lparr>store := s\<rparr>), d', t')
        \<and> hw_base (primary_ring (drv_engine d')) =
            hw_base (fold queue_write (cmds @ (if odd (p + length cmds) then [0] else [])) (primary_ring (drv_engine d)))
        \<and> tail_written (drv_engine d') = hw_position (primary_ring (drv_engine d')) \<and> 8 dvd tail_written (drv_engine d')"
      using words(1) [OF small] unfolding generic by auto
  next
    assume "1634 < unat n"
    then show "submit_parallel_generic env stack n bt (Some c) d t = Some (B_NO_MEMORY, Some (c\<lparr>store := s\<rparr>), d, t)"
      using words(2) unfolding generic by simp
  qed
qed

section \<open>Witnesses\<close>

fun media_index :: "media_bo \<Rightarrow> nat" where
  "media_index Batch_bo = 0" | "media_index Kernel_bo = 1" | "media_index Vfe_state_bo = 2" | "media_index Idrt_bo = 3"
| "media_index Curbe_bo = 4" | "media_index Output_bo = 5" | "media_index Marker_bo = 6" | "media_index Surface_state_bo = 7"
| "media_index Binding_table_bo = 8" | "media_index Input_x_bo = 9" | "media_index Input_y_bo = 10"

definition example_allocator :: "media_bo \<Rightarrow> nat \<Rightarrow> status_t \<times> nat" where
  "example_allocator p sz = (B_OK, 2 ^ 22 * media_index p)"

lemma example_apart:
  "p \<noteq> q \<Longrightarrow> snd (example_allocator p (spec_size p)) + spec_size p \<le> snd (example_allocator q (spec_size q))
     \<or> snd (example_allocator q (spec_size q)) + spec_size q \<le> snd (example_allocator p (spec_size p))"
proof -
  assume "p \<noteq> q"
  then have "media_index p \<noteq> media_index q" by (cases p; cases q) simp_all
  moreover have "spec_size p \<le> 2 ^ 22" "spec_size q \<le> 2 ^ 22" by ((cases p; simp add: bo_sizes), (cases q; simp add: bo_sizes))
  ultimately show ?thesis by (auto simp: example_allocator_def)
qed

definition example_store :: "media_bo bo_state" where
  "example_store = \<lparr>live_bos = replicate MAX_TRACKED_BOS None, live_count = 0,
     bos = (\<lambda>p. \<lparr>cpu_addr = 2 ^ 22 * media_index p, gtt_offset = 2 ^ 22 * media_index p, bo_size = spec_size p, alignment = 64,
                 bo_name = None, bo_valid = True\<rparr>), memory = (\<lambda>a. 0)\<rparr>"

lemma example_store_ok: "media_ok example_store"
  using example_apart by (simp add: media_ok_def example_store_def apart_def example_allocator_def)



definition example_context :: media_context where
  "example_context = \<lparr>store = example_store\<lparr>bos := \<lambda>p. zero_bo\<rparr>, initialized = False\<rparr>"

definition example_driver :: media_driver where
  "example_driver = \<lparr>drv_engine = example_engine False, media_ring = empty_ring, media_ring_init = False\<rparr>"

lemma media_init_all_or_nothing_witness:
  "\<exists>c d. media_pipeline_init example_allocator 0 False \<lparr>data_ok = True, shared_ok = True, regs_ok = True, tail_register = 0\<rparr>
      (Some example_context) example_driver = (B_OK, Some c, d) \<and> media_ok (store c)"
proof -
  let ?a = "\<lparr>data_ok = True, shared_ok = True, regs_ok = True, tail_register = 0\<rparr>"
  obtain st ctx d where i: "media_pipeline_init example_allocator 0 False ?a (Some example_context) example_driver = (st, ctx, d)"
    by (metis prod_cases3)
  have inv: "bo_inv (store example_context)" "live_entries (store example_context) = []"
    by (simp_all add: bo_inv_def table_ok_def live_entries_def example_context_def example_store_def used_def)
  have "alloc_specs example_allocator 0 specs s = (B_OK, snd (alloc_specs example_allocator 0 specs s))"
    if "\<forall>(p, name, sz, al) \<in> set specs. 0 < sz" for specs s
    using that
    by (induction specs arbitrary: s) (auto simp: gpu_bo_alloc_def example_allocator_def Let_def split: prod.splits)
  from this [of bo_specs "(store example_context)\<lparr>bos := \<lambda>p. zero_bo\<rparr>"] have "st = B_OK"
    using i by (simp add: media_pipeline_init_def bo_specs_def bo_sizes split: prod.splits if_splits)
  then show ?thesis using media_init_all_or_nothing [OF inv i example_apart] i by auto
qed

end
