(* ===== verification/Edid.thy ===== *)
theory Edid
  imports Vaio_Prelude
begin

text \<open>
  The EDID decoder, \<open>src/intel_extreme/common_src/decode_edid.c\<close>, with the packed layout of
  \<open>common_headers/edid_raw.h\<close> and the structures of \<open>edid.h\<close>. The raw data is the memory from the start of the first
  block on, a function from offsets to bytes: what the code reads behind the 128 bytes of a block is whatever
  lies there. Bit fields are declared from the highest bit on. The writes into the arrays of the result are
  recorded by index, so that an index outside the array is visible.
\<close>

section \<open>Structures\<close>

type_synonym raw_edid = "nat \<Rightarrow> nat"

text \<open>A field of \<open>w\<close> bits above the lowest \<open>lo\<close> bits.\<close>

definition bit_field :: "nat \<Rightarrow> nat \<Rightarrow> nat \<Rightarrow> nat" where
  "bit_field v lo w = take_bit w (drop_bit lo v)"

definition flag :: "nat \<Rightarrow> nat \<Rightarrow> bool" where
  "flag v i = odd (drop_bit i v)"

definition le16 :: "raw_edid \<Rightarrow> nat \<Rightarrow> nat" where
  "le16 raw p = raw p + 2 ^ 8 * raw (p + 1)"

definition le32 :: "raw_edid \<Rightarrow> nat \<Rightarrow> nat" where
  "le32 raw p = le16 raw p + 2 ^ 16 * le16 raw (p + 2)"

definition EDID1_NUM_DETAILED_MONITOR_DESC :: nat where "EDID1_NUM_DETAILED_MONITOR_DESC = 4"
definition EDID1_NUM_STD_TIMING :: nat where "EDID1_NUM_STD_TIMING = 8"
definition EDID1_NUM_EXTRA_STD_TIMING :: nat where "EDID1_NUM_EXTRA_STD_TIMING = 6"
definition EDID1_EXTRA_STRING_LEN :: nat where "EDID1_EXTRA_STRING_LEN = 13"

definition EDID1_SERIAL_NUMBER :: nat where "EDID1_SERIAL_NUMBER = 0xff"
definition EDID1_ASCII_DATA :: nat where "EDID1_ASCII_DATA = 0xfe"
definition EDID1_MONITOR_RANGES :: nat where "EDID1_MONITOR_RANGES = 0xfd"
definition EDID1_MONITOR_NAME :: nat where "EDID1_MONITOR_NAME = 0xfc"
definition EDID1_ADD_COLOUR_POINTER :: nat where "EDID1_ADD_COLOUR_POINTER = 0xfb"
definition EDID1_ADD_STD_TIMING :: nat where "EDID1_ADD_STD_TIMING = 0xfa"
definition EDID1_IS_DETAILED_TIMING :: nat where "EDID1_IS_DETAILED_TIMING = 1"

record edid1_vendor =
  manufacturer :: "nat list"
  prod_id :: nat
  serial :: nat
  week :: nat
  year :: nat

record edid1_version =
  version :: nat
  revision :: nat

record edid1_analog_params =
  input_voltage :: nat
  voltage_setup :: bool
  sep_sync :: bool
  comp_sync :: bool
  sync_on_green :: bool
  sync_serr :: bool

record edid1_digital_params =
  bit_depth :: nat
  digital_interface :: nat

record edid1_display =
  input_type :: nat
  analog_params :: edid1_analog_params
  digital_params :: edid1_digital_params
  disp_h_size :: nat
  disp_v_size :: nat
  disp_gamma :: nat
  dpms_standby :: bool
  dpms_suspend :: bool
  dpms_off :: bool
  display_type :: nat
  std_colour_space :: bool
  preferred_timing_mode :: bool
  gtf_supported :: bool
  red_x :: nat
  red_y :: nat
  green_x :: nat
  green_y :: nat
  blue_x :: nat
  blue_y :: nat
  white_x :: nat
  white_y :: nat

record edid1_established_timing =
  res_720x400x70 :: bool
  res_720x400x88 :: bool
  res_640x480x60 :: bool
  res_640x480x67 :: bool
  res_640x480x72 :: bool
  res_640x480x75 :: bool
  res_800x600x56 :: bool
  res_800x600x60 :: bool
  res_800x600x72 :: bool
  res_800x600x75 :: bool
  res_832x624x75 :: bool
  res_1024x768x87i :: bool
  res_1024x768x60 :: bool
  res_1024x768x70 :: bool
  res_1024x768x75 :: bool
  res_1280x1024x75 :: bool
  res_1152x870x75 :: bool

record edid1_std_timing =
  st_h_size :: nat
  st_v_size :: nat
  st_id :: nat
  st_ratio :: nat
  st_refresh :: nat

record edid1_whitepoint =
  wp_index :: nat
  wp_white_x :: nat
  wp_white_y :: nat
  wp_gamma :: nat

record edid1_monitor_range =
  min_v :: nat
  max_v :: nat
  min_h :: nat
  max_h :: nat
  max_clock :: nat

record edid1_detailed_timing =
  pixel_clock :: nat
  h_active :: nat
  h_blank :: nat
  v_active :: nat
  v_blank :: nat
  h_sync_off :: nat
  h_sync_width :: nat
  v_sync_off :: nat
  v_sync_width :: nat
  dt_h_size :: nat
  dt_v_size :: nat
  h_border :: nat
  v_border :: nat
  interlaced :: bool
  stereo :: nat
  sync :: nat
  misc :: nat

text \<open>The union of the data of a detailed monitor description, zero bytes when nothing was stored.\<close>

datatype monitor_data =
    No_data
  | Serial_number "nat list"
  | Ascii_data "nat list"
  | Monitor_name "nat list"
  | Monitor_range edid1_monitor_range
  | Whitepoints edid1_whitepoint edid1_whitepoint
  | Std_timings "edid1_std_timing list"
  | Detailed_timing edid1_detailed_timing

record edid1_detailed_monitor =
  monitor_desc_type :: nat
  monitor_data :: monitor_data

text \<open>The arrays of a CTA block by index; the source has 6 timings and 8 data blocks.\<close>

record cta_info =
  cta_tag :: nat
  cta_revision :: nat
  num_native_detailed :: nat
  ycbcr422_supported :: bool
  ycbcr444_supported :: bool
  audio_supported :: bool
  underscan :: bool
  cta_timings :: "nat \<Rightarrow> edid1_detailed_timing option"
  num_data_blocks :: nat
  data_blocks :: "nat \<Rightarrow> nat list option"

record displayid_info =
  did_tag :: nat
  did_version :: nat
  did_extension_count :: nat

record edid1_info =
  vendor :: edid1_vendor
  edid_version :: edid1_version
  display :: edid1_display
  established_timing :: edid1_established_timing
  std_timing :: "edid1_std_timing list"
  detailed_monitor :: "edid1_detailed_monitor list"
  num_sections :: nat
  cta_block :: cta_info
  displayid_block :: displayid_info

section \<open>The sections of a block\<close>

definition decode_vendor :: "raw_edid \<Rightarrow> edid1_vendor" where
  "decode_vendor raw =
     \<lparr>manufacturer = [bit_field (raw 8) 2 5 + 0x40, (push_bit 3 (bit_field (raw 8) 0 2) OR bit_field (raw 9) 5 3) + 0x40,
        bit_field (raw 9) 0 5 + 0x40],
      prod_id = le16 raw 10, serial = le32 raw 12, week = raw 16, year = raw 17 + 1990\<rparr>"

definition decode_version :: "raw_edid \<Rightarrow> edid1_version" where
  "decode_version raw = \<lparr>version = raw 18, revision = raw 19\<rparr>"

text \<open>The parameters of the other kind of input stay zero.\<close>

definition decode_display :: "raw_edid \<Rightarrow> edid1_display" where
  "decode_display raw =
     (let typ = bit_field (raw 20) 7 1;
          depth = bit_field (raw 20) 4 3;
          colour = (\<lambda>high low lo. push_bit 2 (raw high) OR bit_field (raw low) lo 2)
      in \<lparr>input_type = typ,
          analog_params =
            (if typ \<noteq> 0
             then \<lparr>input_voltage = 0, voltage_setup = False, sep_sync = False, comp_sync = False, sync_on_green = False, sync_serr = False\<rparr>
             else \<lparr>input_voltage = bit_field (raw 20) 5 2, voltage_setup = flag (raw 20) 4, sep_sync = flag (raw 20) 3,
               comp_sync = flag (raw 20) 2, sync_on_green = flag (raw 20) 1, sync_serr = flag (raw 20) 0\<rparr>),
          digital_params =
            (if typ \<noteq> 0
             then \<lparr>bit_depth = (if 0 < depth \<and> depth < 7 then depth * 2 + 4 else 0), digital_interface = bit_field (raw 20) 0 4\<rparr>
             else \<lparr>bit_depth = 0, digital_interface = 0\<rparr>),
          disp_h_size = raw 21, disp_v_size = raw 22, disp_gamma = raw 23,
          dpms_standby = flag (raw 24) 7, dpms_suspend = flag (raw 24) 6, dpms_off = flag (raw 24) 5,
          display_type = bit_field (raw 24) 3 2, std_colour_space = flag (raw 24) 2,
          preferred_timing_mode = flag (raw 24) 1, gtf_supported = flag (raw 24) 0,
          red_x = colour 27 25 6, red_y = colour 28 25 4, green_x = colour 29 25 2, green_y = colour 30 25 0,
          blue_x = colour 31 26 6, blue_y = colour 32 26 4, white_x = colour 33 26 2, white_y = colour 34 26 0\<rparr>)"

definition copy_established_timing :: "raw_edid \<Rightarrow> edid1_established_timing" where
  "copy_established_timing raw =
     \<lparr>res_720x400x70 = flag (raw 35) 7, res_720x400x88 = flag (raw 35) 6, res_640x480x60 = flag (raw 35) 5,
      res_640x480x67 = flag (raw 35) 4, res_640x480x72 = flag (raw 35) 3, res_640x480x75 = flag (raw 35) 2,
      res_800x600x56 = flag (raw 35) 1, res_800x600x60 = flag (raw 35) 0, res_800x600x72 = flag (raw 36) 7,
      res_800x600x75 = flag (raw 36) 6, res_832x624x75 = flag (raw 36) 5, res_1024x768x87i = flag (raw 36) 4,
      res_1024x768x60 = flag (raw 36) 3, res_1024x768x70 = flag (raw 36) 2, res_1024x768x75 = flag (raw 36) 1,
      res_1280x1024x75 = flag (raw 36) 0, res_1152x870x75 = flag (raw 37) 7\<rparr>"

definition decode_std_timing :: "raw_edid \<Rightarrow> nat \<Rightarrow> edid1_std_timing" where
  "decode_std_timing raw p =
     (let h = (raw p + 31) * 8;
          ratio = bit_field (raw (p + 1)) 6 2
      in \<lparr>st_h_size = h,
          st_v_size = (if ratio = 0 then h else if ratio = 1 then h * 3 div 4 else if ratio = 2 then h * 4 div 5 else h * 9 div 16),
          st_id = le16 raw p, st_ratio = ratio, st_refresh = bit_field (raw (p + 1)) 0 6 + 60\<rparr>)"

definition decode_whitepoint :: "raw_edid \<Rightarrow> nat \<Rightarrow> edid1_whitepoint \<times> edid1_whitepoint" where
  "decode_whitepoint raw p =
     (\<lparr>wp_index = raw p, wp_white_x = push_bit 2 (raw (p + 2)) OR bit_field (raw (p + 1)) 2 2,
       wp_white_y = push_bit 2 (raw (p + 3)) OR bit_field (raw (p + 1)) 0 2, wp_gamma = raw (p + 4)\<rparr>,
      \<lparr>wp_index = raw (p + 5), wp_white_x = push_bit 2 (raw (p + 7)) OR bit_field (raw (p + 6)) 2 2,
       wp_white_y = push_bit 2 (raw (p + 8)) OR bit_field (raw (p + 6)) 0 2, wp_gamma = raw (p + 9)\<rparr>)"

definition decode_detailed_timing :: "raw_edid \<Rightarrow> nat \<Rightarrow> edid1_detailed_timing" where
  "decode_detailed_timing raw p =
     \<lparr>pixel_clock = le16 raw p,
      h_active = push_bit 8 (bit_field (raw (p + 4)) 4 4) OR raw (p + 2),
      h_blank = push_bit 8 (bit_field (raw (p + 4)) 0 4) OR raw (p + 3),
      v_active = push_bit 8 (bit_field (raw (p + 7)) 4 4) OR raw (p + 5),
      v_blank = push_bit 8 (bit_field (raw (p + 7)) 0 4) OR raw (p + 6),
      h_sync_off = push_bit 8 (bit_field (raw (p + 11)) 6 2) OR raw (p + 8),
      h_sync_width = push_bit 8 (bit_field (raw (p + 11)) 4 2) OR raw (p + 9),
      v_sync_off = push_bit 4 (bit_field (raw (p + 11)) 2 2) OR bit_field (raw (p + 10)) 4 4,
      v_sync_width = push_bit 4 (bit_field (raw (p + 11)) 0 2) OR bit_field (raw (p + 10)) 0 4,
      dt_h_size = push_bit 8 (bit_field (raw (p + 14)) 4 4) OR raw (p + 12),
      dt_v_size = push_bit 8 (bit_field (raw (p + 14)) 0 4) OR raw (p + 13),
      h_border = raw (p + 15), v_border = raw (p + 16),
      interlaced = flag (raw (p + 17)) 7, stereo = bit_field (raw (p + 17)) 5 2, sync = bit_field (raw (p + 17)) 3 2,
      misc = bit_field (raw (p + 17)) 1 2\<rparr>"

text \<open>\<open>isgraph\<close> of the C locale.\<close>

definition is_graph :: "nat \<Rightarrow> bool" where
  "is_graph c \<longleftrightarrow> 0x21 \<le> c \<and> c \<le> 0x7e"

text \<open>The first loop copies, the second one takes trailing spaces back. The terminating zero byte is not part of the
  result.\<close>

fun copy_chars :: "nat list \<Rightarrow> nat list" where
  "copy_chars [] = []"
| "copy_chars (c # src) =
     (if c = 0xa then []
      else if \<not> is_graph c \<and> c \<noteq> 0x20 then []
      else c # copy_chars src)"

definition trim_spaces :: "nat list \<Rightarrow> nat list" where
  "trim_spaces dest = rev (dropWhile (\<lambda>c. c = 0x20) (rev dest))"

definition copy_str :: "nat list \<Rightarrow> nat list" where
  "copy_str src = trim_spaces (copy_chars src)"

definition decode_monitor_data :: "raw_edid \<Rightarrow> nat \<Rightarrow> nat \<Rightarrow> monitor_data" where
  "decode_monitor_data raw typ p =
     (let text = copy_str (map raw [p..<p + EDID1_EXTRA_STRING_LEN])
      in if typ = EDID1_SERIAL_NUMBER then Serial_number text
         else if typ = EDID1_ASCII_DATA then Ascii_data text
         else if typ = EDID1_MONITOR_RANGES
         then Monitor_range \<lparr>min_v = raw p, max_v = raw (p + 1), min_h = raw (p + 2), max_h = raw (p + 3), max_clock = raw (p + 4)\<rparr>
         else if typ = EDID1_MONITOR_NAME then Monitor_name text
         else if typ = EDID1_ADD_COLOUR_POINTER then case_prod Whitepoints (decode_whitepoint raw p)
         else if typ = EDID1_ADD_STD_TIMING
         then Std_timings (map (\<lambda>j. decode_std_timing raw (p + 2 * j)) [0..<EDID1_NUM_EXTRA_STD_TIMING])
         else No_data)"

text \<open>One turn of the loop of \<open>decode_detailed_monitor\<close>, for the 18 bytes at \<open>p\<close>.\<close>

definition decode_monitor_desc :: "raw_edid \<Rightarrow> bool \<Rightarrow> nat \<Rightarrow> edid1_detailed_monitor" where
  "decode_monitor_desc raw enableExtra p =
     (if enableExtra \<and> (raw p = 0 \<and> raw (p + 1) = 0 \<or> raw (p + 2) = 0 \<and> raw (p + 4) = 0)
      then \<lparr>monitor_desc_type = raw (p + 3), monitor_data = decode_monitor_data raw (raw (p + 3)) (p + 5)\<rparr>
      else if 0 < le16 raw p
      then \<lparr>monitor_desc_type = EDID1_IS_DETAILED_TIMING, monitor_data = Detailed_timing (decode_detailed_timing raw p)\<rparr>
      else \<lparr>monitor_desc_type = 0, monitor_data = No_data\<rparr>)"

definition decode_detailed_monitor :: "raw_edid \<Rightarrow> bool \<Rightarrow> edid1_detailed_monitor list" where
  "decode_detailed_monitor raw enableExtra =
     map (\<lambda>i. decode_monitor_desc raw enableExtra (54 + 18 * i)) [0..<EDID1_NUM_DETAILED_MONITOR_DESC]"

section \<open>Extension blocks\<close>

text \<open>The loop over the data blocks of the extension at \<open>q\<close>: each block is stored, with its header byte, at the next
  index.\<close>

function cta_data_loop :: "raw_edid \<Rightarrow> nat \<Rightarrow> nat \<Rightarrow> cta_info \<Rightarrow> cta_info" where
  "cta_data_loop raw q i c =
     (if i < raw (q + 2)
      then
        let len = bit_field (raw (q + i)) 0 5;
            c = c\<lparr>data_blocks := (data_blocks c)(num_data_blocks c \<mapsto> map raw [q + i..<q + i + len + 1]),
                  num_data_blocks := u8 (num_data_blocks c + 1)\<rparr>
        in cta_data_loop raw q (i + len + 1) c
      else c)"
  by pat_completeness auto

termination
  by (relation "measure (\<lambda>(raw, q, i, c). raw (q + 2) - i)") auto

declare cta_data_loop.simps [simp del]

function cta_timing_loop :: "raw_edid \<Rightarrow> nat \<Rightarrow> nat \<Rightarrow> nat \<Rightarrow> cta_info \<Rightarrow> cta_info" where
  "cta_timing_loop raw q i j c =
     (if i + 18 - 1 < 128
      then cta_timing_loop raw q (i + 18) (j + 1) (c\<lparr>cta_timings := (cta_timings c)(j \<mapsto> decode_detailed_timing raw (q + i))\<rparr>)
      else c)"
  by pat_completeness auto

termination
  by (relation "measure (\<lambda>(raw, q, i, j, c). 128 - i)") auto

declare cta_timing_loop.simps [simp del]

definition decode_cta_block :: "raw_edid \<Rightarrow> nat \<Rightarrow> cta_info \<Rightarrow> cta_info" where
  "decode_cta_block raw q c =
     (let c = c\<lparr>cta_tag := raw q, cta_revision := raw (q + 1), num_native_detailed := bit_field (raw (q + 3)) 0 4,
            ycbcr422_supported := flag (raw (q + 3)) 4, ycbcr444_supported := flag (raw (q + 3)) 5,
            audio_supported := flag (raw (q + 3)) 6, underscan := flag (raw (q + 3)) 7, num_data_blocks := 0\<rparr>
      in cta_timing_loop raw q (raw (q + 2)) 0 (cta_data_loop raw q 4 c))"

definition decode_displayid_block :: "raw_edid \<Rightarrow> nat \<Rightarrow> displayid_info" where
  "decode_displayid_block raw q = \<lparr>did_tag = raw q, did_version = raw (q + 1), did_extension_count = raw (q + 4)\<rparr>"

text \<open>One turn of the loop over the extension blocks.\<close>

definition decode_section :: "raw_edid \<Rightarrow> nat \<Rightarrow> edid1_info \<Rightarrow> edid1_info" where
  "decode_section raw i e =
     (let q = 128 * i
      in if raw q = 0x2 then e\<lparr>cta_block := decode_cta_block raw q (cta_block e)\<rparr>
         else if raw q = 0x70 then e\<lparr>displayid_block := decode_displayid_block raw q\<rparr>
         else e)"

definition zero_cta :: cta_info where
  "zero_cta = \<lparr>cta_tag = 0, cta_revision = 0, num_native_detailed = 0, ycbcr422_supported = False, ycbcr444_supported = False,
     audio_supported = False, underscan = False, cta_timings = Map.empty, num_data_blocks = 0, data_blocks = Map.empty\<rparr>"

definition edid_decode :: "raw_edid \<Rightarrow> edid1_info" where
  "edid_decode raw =
     (let v = decode_version raw;
          e = \<lparr>vendor = decode_vendor raw, edid_version = v, display = decode_display raw,
               established_timing = copy_established_timing raw,
               std_timing = map (\<lambda>i. decode_std_timing raw (38 + 2 * i)) [0..<EDID1_NUM_STD_TIMING],
               detailed_monitor = decode_detailed_monitor raw (version v = 1 \<and> 1 \<le> revision v),
               num_sections = raw 126, cta_block = zero_cta,
               displayid_block = \<lparr>did_tag = 0, did_version = 0, did_extension_count = 0\<rparr>\<rparr>
      in fold (decode_section raw) [1..<1 + num_sections e] e)"

section \<open>The layout of a block as an encoder\<close>

text \<open>Fields from the lowest one on, each with its number of bits.\<close>

fun packed :: "(nat \<times> nat) list \<Rightarrow> nat" where
  "packed [] = 0"
| "packed ((w, v) # fs) = v + 2 ^ w * packed fs"

declare packed.simps [simp del]

lemma bit_field_0: "bit_field v 0 w = v mod 2 ^ w"
  by (simp add: bit_field_def take_bit_eq_mod)

lemma bit_field_here: "v < 2 ^ w \<Longrightarrow> bit_field (packed ((w, v) # fs)) 0 w = v"
  by (simp add: bit_field_def take_bit_eq_mod packed.simps)

lemma bit_field_later:
  assumes "v < 2 ^ w" "w \<le> lo"
  shows "bit_field (packed ((w, v) # fs)) lo n = bit_field (packed fs) (lo - w) n"
proof -
  have "(2::nat) ^ lo = 2 ^ w * 2 ^ (lo - w)"
    using assms by (simp flip: power_add)
  with assms show ?thesis
    by (simp add: bit_field_def drop_bit_eq_div div_mult2_eq packed.simps)
qed

lemma flag_bit_field: "flag v i \<longleftrightarrow> bit_field v i 1 = 1"
  by (simp add: flag_def bit_field_def take_bit_eq_mod odd_iff_mod_2_eq_one)

lemma packed_less: "(\<forall>(w, v)\<in>set fs. v < 2 ^ w) \<Longrightarrow> packed fs < 2 ^ sum_list (map fst fs)"
proof (induction fs rule: packed.induct)
  case (2 w v fs)
  then have "v < 2 ^ w" "packed fs + 1 \<le> 2 ^ sum_list (map fst fs)"
    by auto
  then have "v + 2 ^ w * packed fs < 2 ^ w * (packed fs + 1)" "2 ^ w * (packed fs + 1) \<le> 2 ^ w * 2 ^ sum_list (map fst fs)"
    by (simp, intro mult_le_mono2)
  then show ?case
    by (simp add: power_add packed.simps)
qed (simp add: packed.simps)

text \<open>The bytes \<open>bs\<close> lie at \<open>p\<close>.\<close>

definition holds :: "raw_edid \<Rightarrow> nat \<Rightarrow> nat list \<Rightarrow> bool" where
  "holds raw p bs \<longleftrightarrow> (\<forall>k<length bs. raw (p + k) = bs ! k)"

lemma holds_Nil [simp]: "holds raw p []"
  by (simp add: holds_def)

lemma holds_Cons [simp]: "holds raw p (b # bs) \<longleftrightarrow> raw p = b \<and> holds raw (Suc p) bs"
  by (auto simp: holds_def less_Suc_eq_0_disj)

lemma holds_append: "holds raw p (xs @ ys) \<longleftrightarrow> holds raw p xs \<and> holds raw (p + length xs) ys"
  by (induction xs arbitrary: p) auto

lemma holds_map: "holds raw p bs \<Longrightarrow> n = length bs \<Longrightarrow> map raw [p..<p + n] = bs"
  by (auto simp: holds_def intro: nth_equalityI)

lemma holds_concat:
  "holds raw p (concat (map f xs)) \<Longrightarrow> \<forall>x\<in>set xs. length (f x) = m \<Longrightarrow> k < length xs \<Longrightarrow> holds raw (p + m * k) (f (xs ! k))"
proof (induction xs arbitrary: p k)
  case (Cons x xs)
  then show ?case
    by (cases k) (force simp: holds_append add.assoc)+
qed simp

fun le_bytes :: "nat \<Rightarrow> nat \<Rightarrow> nat list" where
  "le_bytes 0 v = []"
| "le_bytes (Suc n) v = v mod 256 # le_bytes n (v div 256)"

lemma length_le_bytes [simp]: "length (le_bytes n v) = n"
  by (induction n arbitrary: v) auto

lemma holds_nth: "holds raw p bs \<Longrightarrow> k < length bs \<Longrightarrow> raw (p + k) = bs ! k"
  by (simp add: holds_def)

lemma le16_step: "v < 65536 \<Longrightarrow> v mod 256 + 256 * (v div 256 mod 256) = (v::nat)"
  by simp

lemma le_bytes_2: "le_bytes 2 v = [v mod 256, v div 256 mod 256]"
  by (simp add: numeral_2_eq_2)

lemma le_bytes_4: "le_bytes 4 v = [v mod 256, v div 256 mod 256, v div 65536 mod 256, v div 16777216 mod 256]"
proof -
  have "le_bytes (Suc (Suc (Suc (Suc 0)))) v = [v mod 256, v div 256 mod 256, v div 65536 mod 256, v div 16777216 mod 256]"
    by (simp add: div_mult2_eq [symmetric])
  moreover have "(4::nat) = Suc (Suc (Suc (Suc 0)))"
    by simp
  ultimately show ?thesis
    by (simp only:)
qed

lemma le16_le_bytes:
  assumes "holds raw p (le_bytes 2 v)" "v < 2 ^ 16"
  shows "le16 raw p = v"
  using holds_nth [OF assms(1), of 0] holds_nth [OF assms(1), of 1] assms(2) le16_step [of v]
  by (simp add: le16_def le_bytes_2)

lemma le32_le_bytes:
  assumes "holds raw p (le_bytes 4 v)" "v < 2 ^ 32"
  shows "le32 raw p = v"
proof -
  have "le32 raw p = v mod 256 + 256 * (v div 256 mod 256) + 65536 * (v div 65536 mod 256 + 256 * (v div 16777216 mod 256))"
    using holds_nth [OF assms(1), of 0] holds_nth [OF assms(1), of 1] holds_nth [OF assms(1), of 2] holds_nth [OF assms(1), of 3]
    by (simp add: le32_def le16_def le_bytes_4 numeral_3_eq_3)
  also have "v div 65536 mod 256 + 256 * (v div 16777216 mod 256) = v div 65536"
    using le16_step [of "v div 65536"] assms(2) by (simp add: div_mult2_eq [symmetric])
  also have "v mod 256 + 256 * (v div 256 mod 256) = v mod 65536"
    using mod_mult2_eq [of v 256 256] by simp
  also have "v mod 65536 + 65536 * (v div 65536) = v"
    by simp
  finally show ?thesis .
qed

section \<open>Sections and their bytes\<close>

definition vendor_bytes :: "edid1_vendor \<Rightarrow> nat list" where
  "vendor_bytes v =
     (let c = (\<lambda>k. manufacturer v ! k - 0x40)
      in [packed [(2, c 1 div 8), (5, c 0)], packed [(5, c 2), (3, c 1 mod 8)]] @ le_bytes 2 (prod_id v) @ le_bytes 4 (serial v)
         @ [week v, year v - 1990])"

definition vendor_ok :: "edid1_vendor \<Rightarrow> bool" where
  "vendor_ok v \<longleftrightarrow> length (manufacturer v) = 3 \<and> (\<forall>c\<in>set (manufacturer v). 0x40 \<le> c \<and> c < 0x60) \<and>
     prod_id v < 2 ^ 16 \<and> serial v < 2 ^ 32 \<and> week v < 2 ^ 8 \<and> 1990 \<le> year v \<and> year v < 1990 + 2 ^ 8"

lemmas fields = bit_field_here bit_field_later flag_bit_field

lemma or_fields: "c < 2 ^ k \<Longrightarrow> push_bit k v OR c = v * 2 ^ k + (c::nat)"
  by (metis or_add_disjoint push_bit_eq_mult)

lemma decode_vendor_bytes:
  assumes "holds raw 8 (vendor_bytes v)" "vendor_ok v"
  shows "decode_vendor raw = v"
proof -
  obtain a b c where m: "manufacturer v = [a, b, c]"
    using assms(2) by (auto simp: vendor_ok_def numeral_3_eq_3 length_Suc_conv)
  let ?b = "b - 0x40"
  have r: "0x40 \<le> a" "a - 0x40 < 2 ^ 5" "0x40 \<le> b" "?b div 8 < 2 ^ 2" "0x40 \<le> c" "c - 0x40 < 2 ^ 5" "?b mod 8 < 2 ^ 3"
    using assms(2) by (auto simp: m vendor_ok_def)
  have h: "raw 8 = packed [(2, ?b div 8), (5, a - 0x40)]" "raw 9 = packed [(5, c - 0x40), (3, ?b mod 8)]"
    "holds raw 10 (le_bytes 2 (prod_id v))" "holds raw 12 (le_bytes 4 (serial v))" "raw 16 = week v" "raw 17 = year v - 1990"
    using assms(1) by (simp_all add: m vendor_bytes_def holds_append)
  have "(push_bit 3 (bit_field (raw 8) 0 2) OR bit_field (raw 9) 5 3) = ?b"
    unfolding h using r by (simp add: fields or_fields)
  then show ?thesis
    using assms(2) r by (simp add: decode_vendor_def h m fields le16_le_bytes le32_le_bytes vendor_ok_def del: packed.simps)
qed


lemma or_split: "push_bit k (x div 2 ^ k) OR x mod 2 ^ k = (x::nat)"
  using or_fields [of "x mod 2 ^ k" k "x div 2 ^ k"] by (simp add: div_mult_mod_eq)

lemmas or_split_2 = or_split [of 2, simplified]
lemmas or_split_4 = or_split [of 4, simplified]
lemmas or_split_8 = or_split [of 8, simplified]

abbreviation no_analog :: edid1_analog_params where
  "no_analog \<equiv> \<lparr>input_voltage = 0, voltage_setup = False, sep_sync = False, comp_sync = False, sync_on_green = False, sync_serr = False\<rparr>"

abbreviation no_digital :: edid1_digital_params where
  "no_digital \<equiv> \<lparr>bit_depth = 0, digital_interface = 0\<rparr>"

definition input_byte :: "edid1_display \<Rightarrow> nat" where
  "input_byte d =
     (let a = analog_params d; g = digital_params d
      in if input_type d = 0
         then packed [(1, of_bool (sync_serr a)), (1, of_bool (sync_on_green a)), (1, of_bool (comp_sync a)), (1, of_bool (sep_sync a)),
           (1, of_bool (voltage_setup a)), (2, input_voltage a), (1, 0)]
         else packed [(4, digital_interface g), (3, if bit_depth g = 0 then 0 else (bit_depth g - 4) div 2), (1, 1)])"

definition display_bytes :: "edid1_display \<Rightarrow> nat list" where
  "display_bytes d =
     [input_byte d, disp_h_size d, disp_v_size d, disp_gamma d,
      packed [(1, of_bool (gtf_supported d)), (1, of_bool (preferred_timing_mode d)), (1, of_bool (std_colour_space d)),
        (2, display_type d), (1, of_bool (dpms_off d)), (1, of_bool (dpms_suspend d)), (1, of_bool (dpms_standby d))],
      packed [(2, green_y d mod 4), (2, green_x d mod 4), (2, red_y d mod 4), (2, red_x d mod 4)],
      packed [(2, white_y d mod 4), (2, white_x d mod 4), (2, blue_y d mod 4), (2, blue_x d mod 4)],
      red_x d div 4, red_y d div 4, green_x d div 4, green_y d div 4, blue_x d div 4, blue_y d div 4, white_x d div 4, white_y d div 4]"

definition display_ok :: "edid1_display \<Rightarrow> bool" where
  "display_ok d \<longleftrightarrow>
     (if input_type d = 0
      then input_voltage (analog_params d) < 2 ^ 2 \<and> digital_params d = no_digital
      else input_type d = 1 \<and> analog_params d = no_analog \<and> bit_depth (digital_params d) \<in> {0, 6, 8, 10, 12, 14, 16} \<and>
        digital_interface (digital_params d) < 2 ^ 4) \<and>
     disp_h_size d < 2 ^ 8 \<and> disp_v_size d < 2 ^ 8 \<and> disp_gamma d < 2 ^ 8 \<and> display_type d < 2 ^ 2 \<and>
     (\<forall>c\<in>{red_x d, red_y d, green_x d, green_y d, blue_x d, blue_y d, white_x d, white_y d}. c < 2 ^ 10)"

lemma bit_less [simp]: "of_bool b < (2::nat) ^ 1" "of_bool b < (2::nat)"
  by simp_all

lemma decode_input:
  assumes "raw 20 = input_byte d" "display_ok d"
  shows "input_type (decode_display raw) = input_type d" "analog_params (decode_display raw) = analog_params d"
    "digital_params (decode_display raw) = digital_params d"
proof -
  have "input_type (decode_display raw) = input_type d \<and> analog_params (decode_display raw) = analog_params d \<and>
    digital_params (decode_display raw) = digital_params d"
  proof (cases "input_type d = 0")
    case True
    then show ?thesis
      using assms by (simp add: decode_display_def Let_def input_byte_def display_ok_def fields)
  next
    case False
    then show ?thesis
      using assms by (auto simp add: decode_display_def Let_def input_byte_def display_ok_def fields)
  qed
  then show "input_type (decode_display raw) = input_type d" "analog_params (decode_display raw) = analog_params d"
    "digital_params (decode_display raw) = digital_params d"
    by simp_all
qed

lemma decode_display_bytes:
  assumes "holds raw 20 (display_bytes d)" "display_ok d"
  shows "decode_display raw = d"
proof -
  have "raw 20 = input_byte d"
    using assms(1) by (simp add: display_bytes_def)
  note i = decode_input [of raw, OF this assms(2)]
  have "decode_display raw = d\<lparr>input_type := input_type (decode_display raw), analog_params := analog_params (decode_display raw),
    digital_params := digital_params (decode_display raw)\<rparr>"
    using assms by (simp add: decode_display_def Let_def display_bytes_def fields display_ok_def or_split_2)
  then show ?thesis
    by (simp add: i)
qed

definition established_bytes :: "edid1_established_timing \<Rightarrow> nat list" where
  "established_bytes e =
     [packed [(1, of_bool (res_800x600x60 e)), (1, of_bool (res_800x600x56 e)), (1, of_bool (res_640x480x75 e)),
        (1, of_bool (res_640x480x72 e)), (1, of_bool (res_640x480x67 e)), (1, of_bool (res_640x480x60 e)),
        (1, of_bool (res_720x400x88 e)), (1, of_bool (res_720x400x70 e))],
      packed [(1, of_bool (res_1280x1024x75 e)), (1, of_bool (res_1024x768x75 e)), (1, of_bool (res_1024x768x70 e)),
        (1, of_bool (res_1024x768x60 e)), (1, of_bool (res_1024x768x87i e)), (1, of_bool (res_832x624x75 e)),
        (1, of_bool (res_800x600x75 e)), (1, of_bool (res_800x600x72 e))],
      packed [(7, 0), (1, of_bool (res_1152x870x75 e))]]"

lemma copy_established_bytes: "holds raw 35 (established_bytes e) \<Longrightarrow> copy_established_timing raw = e"
  by (simp add: copy_established_timing_def established_bytes_def fields)

definition std_timing_bytes :: "edid1_std_timing \<Rightarrow> nat list" where
  "std_timing_bytes t = [st_h_size t div 8 - 31, packed [(6, st_refresh t - 60), (2, st_ratio t)]]"

lemma length_std_timing_bytes [simp]: "length (std_timing_bytes t) = 2"
  by (simp add: std_timing_bytes_def)

lemma length_std_timings_bytes [simp]: "length (concat (map std_timing_bytes ts)) = 2 * length ts"
  by (rule length_concat_blocks) simp

text \<open>The vertical size and the identification follow from the two bytes.\<close>

definition std_timing_ok :: "edid1_std_timing \<Rightarrow> bool" where
  "std_timing_ok t \<longleftrightarrow>
     8 dvd st_h_size t \<and> 31 * 8 \<le> st_h_size t \<and> st_h_size t < (31 + 2 ^ 8) * 8 \<and> st_ratio t < 2 ^ 2 \<and>
     60 \<le> st_refresh t \<and> st_refresh t < 60 + 2 ^ 6 \<and>
     st_v_size t = [st_h_size t, st_h_size t * 3 div 4, st_h_size t * 4 div 5, st_h_size t * 9 div 16] ! st_ratio t \<and>
     st_id t = st_h_size t div 8 - 31 + 2 ^ 8 * (st_refresh t - 60 + 2 ^ 6 * st_ratio t)"

lemma decode_std_timing_bytes:
  assumes "holds raw p (std_timing_bytes t)" "std_timing_ok t"
  shows "decode_std_timing raw p = t"
proof -
  obtain k where k: "st_h_size t = 8 * k"
    using assms(2) by (auto simp: std_timing_ok_def)
  have r: "st_ratio t < 2 ^ 2" "st_refresh t - 60 < 2 ^ 6" "60 \<le> st_refresh t" "31 \<le> k"
    using assms(2) by (auto simp: std_timing_ok_def k)
  have h: "raw p = k - 31" "raw (Suc p) = packed [(6, st_refresh t - 60), (2, st_ratio t)]"
    using assms(1) by (simp_all add: std_timing_bytes_def k)
  have ratio: "bit_field (raw (Suc p)) 6 2 = st_ratio t" and refresh: "bit_field (raw (Suc p)) 0 6 = st_refresh t - 60"
    unfolding h using r by (simp_all add: fields)
  have h_size: "st_h_size (decode_std_timing raw p) = st_h_size t"
    using r by (simp add: decode_std_timing_def Let_def h k)
  have "st_ratio t = 0 \<or> st_ratio t = 1 \<or> st_ratio t = 2 \<or> st_ratio t = 3"
    using r by auto
  then have v_size: "st_v_size (decode_std_timing raw p) = st_v_size t"
    using assms(2) h_size by (auto simp: decode_std_timing_def Let_def ratio std_timing_ok_def)
  have "le16 raw p = st_id t"
    using assms(2) by (simp add: le16_def h k std_timing_ok_def packed.simps) arith
  then show ?thesis
    using h_size v_size r by (simp add: decode_std_timing_def Let_def ratio refresh)
qed

definition whitepoint_bytes :: "edid1_whitepoint \<Rightarrow> nat list" where
  "whitepoint_bytes w =
     [wp_index w, packed [(2, wp_white_y w mod 4), (2, wp_white_x w mod 4), (4, 0)], wp_white_x w div 4, wp_white_y w div 4, wp_gamma w]"

definition whitepoint_ok :: "edid1_whitepoint \<Rightarrow> bool" where
  "whitepoint_ok w \<longleftrightarrow> wp_index w < 2 ^ 8 \<and> wp_white_x w < 2 ^ 10 \<and> wp_white_y w < 2 ^ 10 \<and> wp_gamma w < 2 ^ 8"

lemma decode_whitepoint_bytes:
  assumes "holds raw p (whitepoint_bytes v @ whitepoint_bytes w)"
  shows "decode_whitepoint raw p = (v, w)"
proof -
  have h: "raw (p + k) = (whitepoint_bytes v @ whitepoint_bytes w) ! k" if "k < 10" for k
    using holds_nth [OF assms] that by (simp add: whitepoint_bytes_def)
  show ?thesis
    using h [of 0] h [of 1] h [of 2] by (simp add: decode_whitepoint_def h whitepoint_bytes_def fields or_split_2)
qed

definition detailed_timing_bytes :: "edid1_detailed_timing \<Rightarrow> nat list" where
  "detailed_timing_bytes t =
     le_bytes 2 (pixel_clock t) @
     [h_active t mod 256, h_blank t mod 256, packed [(4, h_blank t div 256), (4, h_active t div 256)],
      v_active t mod 256, v_blank t mod 256, packed [(4, v_blank t div 256), (4, v_active t div 256)],
      h_sync_off t mod 256, h_sync_width t mod 256, packed [(4, v_sync_width t mod 16), (4, v_sync_off t mod 16)],
      packed [(2, v_sync_width t div 16), (2, v_sync_off t div 16), (2, h_sync_width t div 256), (2, h_sync_off t div 256)],
      dt_h_size t mod 256, dt_v_size t mod 256, packed [(4, dt_v_size t div 256), (4, dt_h_size t div 256)],
      h_border t, v_border t, packed [(1, 0), (2, misc t), (2, sync t), (2, stereo t), (1, of_bool (interlaced t))]]"

definition detailed_timing_ok :: "edid1_detailed_timing \<Rightarrow> bool" where
  "detailed_timing_ok t \<longleftrightarrow>
     pixel_clock t < 2 ^ 16 \<and> (\<forall>n\<in>{h_active t, h_blank t, v_active t, v_blank t, dt_h_size t, dt_v_size t}. n < 2 ^ 12) \<and>
     h_sync_off t < 2 ^ 10 \<and> h_sync_width t < 2 ^ 10 \<and> v_sync_off t < 2 ^ 6 \<and> v_sync_width t < 2 ^ 6 \<and>
     h_border t < 2 ^ 8 \<and> v_border t < 2 ^ 8 \<and> stereo t < 2 ^ 2 \<and> sync t < 2 ^ 2 \<and> misc t < 2 ^ 2"

lemma length_detailed_timing_bytes [simp]: "length (detailed_timing_bytes t) = 18"
  by (simp add: detailed_timing_bytes_def)

lemma decode_detailed_timing_bytes:
  assumes "holds raw p (detailed_timing_bytes t)" "detailed_timing_ok t"
  shows "decode_detailed_timing raw p = t"
proof -
  have h: "raw (p + k) = detailed_timing_bytes t ! k" if "k < 18" for k
    using holds_nth [OF assms(1)] that by simp
  have "le16 raw p = pixel_clock t"
    using assms by (intro le16_le_bytes) (simp_all add: detailed_timing_bytes_def holds_append detailed_timing_ok_def)
  then show ?thesis
    using assms(2) h [of 2]
    by (simp add: decode_detailed_timing_def h detailed_timing_bytes_def le_bytes_2 fields or_split_4 or_split_8 detailed_timing_ok_def
        less_mult_imp_div_less)
qed


section \<open>The whole block\<close>

text \<open>A text is closed with a line feed and filled with spaces, unless it takes all 13 bytes.\<close>

definition text_bytes :: "nat list \<Rightarrow> nat list" where
  "text_bytes s = take EDID1_EXTRA_STRING_LEN (s @ 0xa # replicate EDID1_EXTRA_STRING_LEN 0x20)"

definition text_ok :: "nat list \<Rightarrow> bool" where
  "text_ok s \<longleftrightarrow> length s \<le> EDID1_EXTRA_STRING_LEN \<and> (\<forall>c\<in>set s. is_graph c \<or> c = 0x20) \<and> (s = [] \<or> last s \<noteq> 0x20)"

lemma copy_chars_append: "\<forall>c\<in>set s. is_graph c \<or> c = 0x20 \<Longrightarrow> copy_chars (s @ rest) = s @ copy_chars rest"
  by (induction s) (auto simp: is_graph_def)

lemma trim_spaces_last: "s = [] \<or> last s \<noteq> 0x20 \<Longrightarrow> trim_spaces s = s"
  by (cases s rule: rev_cases) (auto simp: trim_spaces_def)

lemma copy_str_text: "text_ok s \<Longrightarrow> copy_str (text_bytes s) = s"
proof -
  assume s: "text_ok s"
  have "copy_chars (text_bytes s) = s"
  proof (cases "length s = EDID1_EXTRA_STRING_LEN")
    case True
    with s show ?thesis
      using copy_chars_append [of s "[]"] by (simp add: text_bytes_def text_ok_def)
  next
    case False
    then have "\<exists>rest. text_bytes s = s @ 0xa # rest"
      using s by (simp add: text_bytes_def text_ok_def take_Cons')
    with s show ?thesis
      by (auto simp: copy_chars_append text_ok_def)
  qed
  with s show ?thesis
    by (simp add: copy_str_def trim_spaces_last text_ok_def)
qed

lemma length_text_bytes: "length (text_bytes s) = 13"
  by (simp add: text_bytes_def EDID1_EXTRA_STRING_LEN_def)

lemmas monitor_types = EDID1_SERIAL_NUMBER_def EDID1_ASCII_DATA_def EDID1_MONITOR_RANGES_def EDID1_MONITOR_NAME_def
  EDID1_ADD_COLOUR_POINTER_def EDID1_ADD_STD_TIMING_def EDID1_IS_DETAILED_TIMING_def

fun monitor_data_bytes :: "monitor_data \<Rightarrow> nat list" where
  "monitor_data_bytes (Serial_number s) = text_bytes s"
| "monitor_data_bytes (Ascii_data s) = text_bytes s"
| "monitor_data_bytes (Monitor_name s) = text_bytes s"
| "monitor_data_bytes (Monitor_range r) = [min_v r, max_v r, min_h r, max_h r, max_clock r] @ replicate 8 0"
| "monitor_data_bytes (Whitepoints v w) = whitepoint_bytes v @ whitepoint_bytes w @ replicate 3 0"
| "monitor_data_bytes (Std_timings ts) = concat (map std_timing_bytes ts) @ [0]"
| "monitor_data_bytes _ = replicate 13 0"

fun monitor_data_ok :: "nat \<Rightarrow> monitor_data \<Rightarrow> bool" where
  "monitor_data_ok typ (Serial_number s) \<longleftrightarrow> typ = EDID1_SERIAL_NUMBER \<and> text_ok s"
| "monitor_data_ok typ (Ascii_data s) \<longleftrightarrow> typ = EDID1_ASCII_DATA \<and> text_ok s"
| "monitor_data_ok typ (Monitor_name s) \<longleftrightarrow> typ = EDID1_MONITOR_NAME \<and> text_ok s"
| "monitor_data_ok typ (Monitor_range r) \<longleftrightarrow>
     typ = EDID1_MONITOR_RANGES \<and> (\<forall>n\<in>{min_v r, max_v r, min_h r, max_h r, max_clock r}. n < 2 ^ 8)"
| "monitor_data_ok typ (Whitepoints v w) \<longleftrightarrow> typ = EDID1_ADD_COLOUR_POINTER \<and> whitepoint_ok v \<and> whitepoint_ok w"
| "monitor_data_ok typ (Std_timings ts) \<longleftrightarrow>
     typ = EDID1_ADD_STD_TIMING \<and> length ts = EDID1_NUM_EXTRA_STD_TIMING \<and> (\<forall>t\<in>set ts. std_timing_ok t)"
| "monitor_data_ok typ No_data \<longleftrightarrow> typ < 0xfa"
| "monitor_data_ok typ (Detailed_timing t) \<longleftrightarrow> False"

lemma decode_monitor_data_bytes:
  assumes "holds raw p (monitor_data_bytes m)" "monitor_data_ok typ m"
  shows "decode_monitor_data raw typ p = m"
proof -
  have text_read: "copy_str (map raw [p..<p + EDID1_EXTRA_STRING_LEN]) = s" if "holds raw p (text_bytes s)" "text_ok s" for s
    using holds_map [OF that(1)] that(2) by (simp add: length_text_bytes EDID1_EXTRA_STRING_LEN_def copy_str_text)
  show ?thesis
  proof (cases m)
    case (Monitor_range r)
    have "raw (p + k) = [min_v r, max_v r, min_h r, max_h r, max_clock r] ! k" if "k < 5" for k
      using assms(1) that by (intro holds_nth) (simp_all add: Monitor_range holds_append)
    from this [of 0] this [of 1] this [of 2] this show ?thesis
      using assms(2) by (simp add: Monitor_range decode_monitor_data_def monitor_types)
  next
    case (Whitepoints v w)
    have "decode_whitepoint raw p = (v, w)"
      using assms(1) by (intro decode_whitepoint_bytes) (simp add: Whitepoints holds_append)
    then show ?thesis
      using assms(2) by (simp add: Whitepoints decode_monitor_data_def monitor_types)
  next
    case (Std_timings ts)
    have "decode_std_timing raw (p + 2 * j) = ts ! j" if "j < length ts" for j
      using assms that
      by (intro decode_std_timing_bytes holds_concat [where xs = ts])
        (auto simp: Std_timings holds_append)
    then have "map (\<lambda>j. decode_std_timing raw (p + 2 * j)) [0..<length ts] = ts"
      by (auto intro: nth_equalityI)
    then show ?thesis
      using assms(2) by (simp add: Std_timings decode_monitor_data_def monitor_types)
  qed (use assms text_read in \<open>simp_all add: decode_monitor_data_def monitor_types\<close>)
qed


lemma length_monitor_data_bytes: "monitor_data_ok typ m \<Longrightarrow> length (monitor_data_bytes m) = 13"
  by (cases m) (auto simp: length_text_bytes whitepoint_bytes_def length_concat_blocks EDID1_NUM_EXTRA_STD_TIMING_def)

text \<open>A timing is told from a description by its pixel clock and the bytes 2 and 4.\<close>

fun monitor_bytes :: "edid1_detailed_monitor \<Rightarrow> nat list" where
  "monitor_bytes m =
     (case monitor_data m of
        Detailed_timing t \<Rightarrow> detailed_timing_bytes t
      | d \<Rightarrow> [0, 0, 0, monitor_desc_type m, 0] @ monitor_data_bytes d)"

fun monitor_ok :: "edid1_detailed_monitor \<Rightarrow> bool" where
  "monitor_ok m =
     (case monitor_data m of
        Detailed_timing t \<Rightarrow>
          monitor_desc_type m = EDID1_IS_DETAILED_TIMING \<and> detailed_timing_ok t \<and> 0 < pixel_clock t \<and> (0 < h_active t \<or> 256 \<le> h_blank t)
      | d \<Rightarrow> monitor_data_ok (monitor_desc_type m) d)"

declare monitor_bytes.simps [simp del] monitor_ok.simps [simp del]

lemma decode_monitor_desc_bytes:
  assumes "holds raw p (monitor_bytes m)" "monitor_ok m"
  shows "decode_monitor_desc raw True p = m"
proof (cases "\<exists>t. monitor_data m = Detailed_timing t")
  case True
  then obtain t where t: "monitor_data m = Detailed_timing t" ..
  then have h: "holds raw p (detailed_timing_bytes t)"
    and ok: "detailed_timing_ok t" "0 < pixel_clock t" "0 < h_active t \<or> 256 \<le> h_blank t" "monitor_desc_type m = 1"
    using assms by (simp_all add: monitor_bytes.simps monitor_ok.simps monitor_types)
  have at: "raw (p + k) = detailed_timing_bytes t ! k" if "k < 18" for k
    using holds_nth [OF h] that by simp
  have clock: "le16 raw p = pixel_clock t"
    using h ok by (intro le16_le_bytes) (simp_all add: detailed_timing_bytes_def holds_append detailed_timing_ok_def)
  then have "\<not> (raw p = 0 \<and> raw (p + 1) = 0)"
    using ok by (auto simp: le16_def)
  moreover have "\<not> (raw (p + 2) = 0 \<and> raw (p + 4) = 0)"
  proof
    assume "raw (p + 2) = 0 \<and> raw (p + 4) = 0"
    then have "h_active t mod 256 = 0" "h_blank t div 256 = 0" "h_active t div 256 = 0"
      using at [of 2] at [of 4] by (simp_all add: detailed_timing_bytes_def le_bytes_2 packed.simps)
    with ok show False
      by (simp add: div_eq_0_iff)
  qed
  ultimately show ?thesis
    using decode_detailed_timing_bytes [OF h] ok clock t by (auto simp: decode_monitor_desc_def monitor_types)
next
  case False
  then have h: "holds raw p ([0, 0, 0, monitor_desc_type m, 0] @ monitor_data_bytes (monitor_data m))"
    and ok: "monitor_data_ok (monitor_desc_type m) (monitor_data m)"
    using assms by (auto simp: monitor_bytes.simps monitor_ok.simps split: monitor_data.splits)
  have d: "holds raw (p + 5) (monitor_data_bytes (monitor_data m))"
    using h unfolding holds_append by (simp add: eval_nat_numeral del: holds_Cons)
  have "raw (p + k) = ([0, 0, 0, monitor_desc_type m, 0] @ monitor_data_bytes (monitor_data m)) ! k" if "k < 5" for k
    using holds_nth [OF h, of k] that by simp
  from this [of 0] this [of 1] this [of 3] show ?thesis
    using decode_monitor_data_bytes [OF d ok] by (simp add: decode_monitor_desc_def)
qed

lemma length_monitor_bytes: "monitor_ok m \<Longrightarrow> length (monitor_bytes m) = 18"
  using length_monitor_data_bytes [of "monitor_desc_type m" "monitor_data m"]
  by (auto simp: monitor_bytes.simps monitor_ok.simps split: monitor_data.splits)

lemma length_monitors_bytes: "\<forall>m\<in>set ms. monitor_ok m \<Longrightarrow> length (concat (map monitor_bytes ms)) = 18 * length ms"
  by (rule length_concat_blocks) (simp add: length_monitor_bytes)

text \<open>A block, without extensions, and its checksum.\<close>

definition header_bytes :: "nat list" where
  "header_bytes = [0, 0xff, 0xff, 0xff, 0xff, 0xff, 0xff, 0]"

definition block_bytes :: "edid1_info \<Rightarrow> nat list" where
  "block_bytes e =
     header_bytes @ vendor_bytes (vendor e) @ [version (edid_version e), revision (edid_version e)] @
     display_bytes (display e) @ established_bytes (established_timing e) @ concat (map std_timing_bytes (std_timing e)) @
     concat (map monitor_bytes (detailed_monitor e)) @ [num_sections e]"

definition edid_bytes :: "edid1_info \<Rightarrow> nat list" where
  "edid_bytes e = block_bytes e @ [(256 - sum_list (block_bytes e) mod 256) mod 256]"

definition edid_ok :: "edid1_info \<Rightarrow> bool" where
  "edid_ok e \<longleftrightarrow>
     vendor_ok (vendor e) \<and> version (edid_version e) = 1 \<and> revision (edid_version e) \<in> {1..4} \<and> display_ok (display e) \<and>
     length (std_timing e) = EDID1_NUM_STD_TIMING \<and> (\<forall>t\<in>set (std_timing e). std_timing_ok t) \<and>
     length (detailed_monitor e) = EDID1_NUM_DETAILED_MONITOR_DESC \<and> (\<forall>m\<in>set (detailed_monitor e). monitor_ok m) \<and>
     num_sections e = 0 \<and> cta_block e = zero_cta \<and> displayid_block e = \<lparr>did_tag = 0, did_version = 0, did_extension_count = 0\<rparr>"

lemma length_header_bytes: "length header_bytes = 8"
  by (simp add: header_bytes_def)

lemma length_vendor_bytes: "length (vendor_bytes v) = 10"
  by (simp add: vendor_bytes_def)

lemma length_display_bytes: "length (display_bytes d) = 15"
  by (simp add: display_bytes_def)

lemma length_established_bytes: "length (established_bytes t) = 3"
  by (simp add: established_bytes_def)

lemma length_edid_bytes: "edid_ok e \<Longrightarrow> length (edid_bytes e) = 128"
  by (simp add: edid_bytes_def block_bytes_def edid_ok_def length_header_bytes length_vendor_bytes length_display_bytes length_established_bytes
      length_monitors_bytes EDID1_NUM_STD_TIMING_def EDID1_NUM_DETAILED_MONITOR_DESC_def)

lemma map_decoded: "(\<And>i. i < length xs \<Longrightarrow> f i = xs ! i) \<Longrightarrow> n = length xs \<Longrightarrow> map f [0..<n] = xs"
  by (auto intro: nth_equalityI)

lemma edid_decode_bytes:
  assumes "holds raw 0 (edid_bytes e)" "edid_ok e"
  shows "edid_decode raw = e"
proof -
  have lengths: "length (std_timing e) = 8" "length (concat (map monitor_bytes (detailed_monitor e))) = 72"
    using assms(2) by (simp_all add: edid_ok_def length_monitors_bytes EDID1_NUM_STD_TIMING_def EDID1_NUM_DETAILED_MONITOR_DESC_def)
  have h: "holds raw 8 (vendor_bytes (vendor e))" "raw 18 = version (edid_version e)" "raw 19 = revision (edid_version e)"
    "holds raw 20 (display_bytes (display e))" "holds raw 35 (established_bytes (established_timing e))"
    "holds raw 38 (concat (map std_timing_bytes (std_timing e)))"
    "holds raw 54 (concat (map monitor_bytes (detailed_monitor e)))" "raw 126 = num_sections e"
    using assms(1)
    by (simp_all add: edid_bytes_def block_bytes_def holds_append length_header_bytes length_vendor_bytes length_display_bytes length_established_bytes lengths)
  have "map (\<lambda>i. decode_std_timing raw (38 + 2 * i)) [0..<EDID1_NUM_STD_TIMING] = std_timing e"
    using assms(2) h(6) by (intro map_decoded decode_std_timing_bytes holds_concat) (auto simp: edid_ok_def)
  moreover have "map (\<lambda>i. decode_monitor_desc raw True (54 + 18 * i)) [0..<EDID1_NUM_DETAILED_MONITOR_DESC] = detailed_monitor e"
    using assms(2) h(7)
    by (intro map_decoded decode_monitor_desc_bytes holds_concat) (auto simp: edid_ok_def length_monitor_bytes)
  ultimately show ?thesis
    using assms(2) h decode_vendor_bytes [OF h(1)] decode_display_bytes [OF h(4)] copy_established_bytes [OF h(5)]
    by (simp add: edid_decode_def Let_def decode_version_def decode_detailed_monitor_def edid_ok_def)
qed

text \<open>All of them are bytes.\<close>

definition all_bytes :: "nat list \<Rightarrow> bool" where
  "all_bytes bs \<longleftrightarrow> (\<forall>b\<in>set bs. b < 256)"

lemma all_bytes_simps [simp]: "all_bytes []" "all_bytes (b # bs) \<longleftrightarrow> b < 256 \<and> all_bytes bs" "all_bytes (xs @ ys) \<longleftrightarrow> all_bytes xs \<and> all_bytes ys"
  "all_bytes (replicate n c) \<longleftrightarrow> n = 0 \<or> c < 256" "all_bytes (concat bss) \<longleftrightarrow> (\<forall>bs\<in>set bss. all_bytes bs)"
  by (auto simp: all_bytes_def)

lemma all_bytes_le_bytes [simp]: "all_bytes (le_bytes n v)"
  by (induction n arbitrary: v) simp_all

lemma packed_byte: "sum_list (map fst fs) \<le> 8 \<Longrightarrow> \<forall>(w, v)\<in>set fs. v < 2 ^ w \<Longrightarrow> packed fs < 256"
  using packed_less [of fs] power_increasing [of "sum_list (map fst fs)" 8 "2 :: nat"] by simp

lemma vendor_bytes_small: "vendor_ok v \<Longrightarrow> all_bytes (vendor_bytes v)"
proof -
  assume v: "vendor_ok v"
  have "manufacturer v ! k - 0x40 < 32" if "k < 3" for k
  proof -
    have "manufacturer v ! k \<in> set (manufacturer v)"
      using v that by (simp add: vendor_ok_def)
    with v have "manufacturer v ! k < 0x60"
      by (simp add: vendor_ok_def)
    then show ?thesis
      by simp
  qed
  from this [of 0] this [of 1] this [of 2] v show ?thesis
    by (auto simp: vendor_bytes_def vendor_ok_def packed_byte)
qed

lemma display_bytes_small: "display_ok d \<Longrightarrow> all_bytes (display_bytes d)"
proof -
  assume d: "display_ok d"
  have "input_byte d < 256"
  proof (cases "input_type d = 0")
    case True
    with d show ?thesis
      by (simp add: input_byte_def Let_def display_ok_def packed_byte split: if_splits)
  next
    case False
    then have "(bit_depth (digital_params d) - 4) div 2 < 8" "digital_interface (digital_params d) < 16"
      using d by (auto simp: display_ok_def)
    with False show ?thesis
      by (simp add: input_byte_def Let_def packed_byte)
  qed
  with d show ?thesis
    by (simp add: display_bytes_def display_ok_def packed_byte less_mult_imp_div_less)
qed

lemma established_bytes_small: "all_bytes (established_bytes t)"
  by (simp add: established_bytes_def packed_byte)

lemma std_timing_bytes_small: "std_timing_ok t \<Longrightarrow> all_bytes (std_timing_bytes t)"
  by (auto simp: std_timing_bytes_def std_timing_ok_def packed_byte)

lemma whitepoint_bytes_small: "whitepoint_ok w \<Longrightarrow> all_bytes (whitepoint_bytes w)"
  by (simp add: whitepoint_bytes_def whitepoint_ok_def packed_byte less_mult_imp_div_less)

lemma detailed_timing_bytes_small: "detailed_timing_ok t \<Longrightarrow> all_bytes (detailed_timing_bytes t)"
  by (simp add: detailed_timing_bytes_def detailed_timing_ok_def packed_byte less_mult_imp_div_less)

lemma text_bytes_small: "text_ok s \<Longrightarrow> all_bytes (text_bytes s)"
  by (auto simp: text_bytes_def text_ok_def all_bytes_def is_graph_def dest!: in_set_takeD)

lemma monitor_data_bytes_small: "typ < 256 \<Longrightarrow> monitor_data_ok typ m \<Longrightarrow> all_bytes (monitor_data_bytes m)"
  by (cases m) (auto simp: text_bytes_small whitepoint_bytes_small std_timing_bytes_small)

lemma monitor_data_type: "monitor_data_ok typ m \<Longrightarrow> typ < 256"
  by (cases m) (auto simp: monitor_types)

lemma monitor_bytes_small: "monitor_ok m \<Longrightarrow> all_bytes (monitor_bytes m)"
  using monitor_data_type [of "monitor_desc_type m" "monitor_data m"] monitor_data_bytes_small [of "monitor_desc_type m" "monitor_data m"]
  by (auto simp: monitor_bytes.simps monitor_ok.simps detailed_timing_bytes_small split: monitor_data.splits)

lemma edid_bytes_small: "edid_ok e \<Longrightarrow> all_bytes (edid_bytes e)"
  by (auto simp: edid_bytes_def block_bytes_def edid_ok_def header_bytes_def vendor_bytes_small display_bytes_small
      established_bytes_small std_timing_bytes_small monitor_bytes_small)

text \<open>
  C27: the decoder is the inverse of the EDID layout: for every description \<open>e\<close> of a monitor whose fields are in the
  range of their bits (vendor, display parameters, established and standard timings, and four monitor descriptions of
  any kind, timings and texts among them), the block that encodes it decodes to exactly \<open>e\<close>.
\<close>

theorem edid_roundtrip: "holds raw 0 (edid_bytes e) \<Longrightarrow> edid_ok e \<Longrightarrow> edid_decode raw = e"
  by (rule edid_decode_bytes)

section \<open>CTA extensions\<close>

text \<open>A data block is its length in the low bits of the first byte, then the payload.\<close>

definition is_data_block :: "nat list \<Rightarrow> bool" where
  "is_data_block b \<longleftrightarrow> b \<noteq> [] \<and> bit_field (hd b) 0 5 + 1 = length b"

text \<open>What was stored before the loop stays where no block is written.\<close>

definition slots :: "nat \<Rightarrow> 'a list \<Rightarrow> (nat \<Rightarrow> 'a option) \<Rightarrow> nat \<Rightarrow> 'a option" where
  "slots n xs m = (\<lambda>k. if n \<le> k \<and> k < n + length xs then Some (xs ! (k - n)) else m k)"

lemma slots_Nil [simp]: "slots n [] m = m"
  by (rule ext) (auto simp: slots_def)

lemma slots_Cons: "slots (Suc n) xs (m(n \<mapsto> x)) = slots n (x # xs) m"
proof
  fix k
  have "(x # xs) ! (k - n) = xs ! (k - Suc n)" if "n < k"
    using that by (simp add: nth_Cons' diff_Suc)
  then show "slots (Suc n) xs (m(n \<mapsto> x)) k = slots n (x # xs) m k"
    by (auto simp: slots_def)
qed

lemma dom_slots: "dom (slots n xs m) = {n..<n + length xs} \<union> dom m"
  by (auto simp: slots_def split: if_splits)

lemma cta_data_loop_blocks:
  assumes "holds raw (q + i) (concat bs)" "\<forall>b\<in>set bs. is_data_block b" "raw (q + 2) = i + length (concat bs)"
    "num_data_blocks c + length bs < 256"
  shows "cta_data_loop raw q i c = c\<lparr>data_blocks := slots (num_data_blocks c) bs (data_blocks c), num_data_blocks := num_data_blocks c + length bs\<rparr>"
  using assms
proof (induction bs arbitrary: i c)
  case Nil
  then show ?case
    by (subst cta_data_loop.simps) simp
next
  case (Cons b bs)
  have h: "holds raw (q + i) b" "holds raw (q + (i + length b)) (concat bs)"
    using Cons.prems(1) by (simp_all add: holds_append add.assoc)
  obtain x xs where b: "b = x # xs" "bit_field x 0 5 = length xs"
    using Cons.prems(2) by (cases b) (auto simp: is_data_block_def)
  have m: "map raw [q + i..<q + i + length xs + 1] = b"
    using holds_map [OF h(1) refl] by (simp add: b)
  let ?c = "c\<lparr>data_blocks := (data_blocks c)(num_data_blocks c \<mapsto> b), num_data_blocks := num_data_blocks c + 1\<rparr>"
  have "cta_data_loop raw q i c = cta_data_loop raw q (i + length b) ?c"
    using h(1) Cons.prems(3,4) m by (subst cta_data_loop.simps) (simp add: b u8_id)
  also have "\<dots> = ?c\<lparr>data_blocks := slots (num_data_blocks ?c) bs (data_blocks ?c), num_data_blocks := num_data_blocks ?c + length bs\<rparr>"
    using Cons.prems h(2) by (intro Cons.IH) simp_all
  finally show ?case
    by (simp add: slots_Cons)
qed

lemma cta_timing_loop_slots:
  "cta_timing_loop raw q i j c =
     c\<lparr>cta_timings := slots j (map (\<lambda>k. decode_detailed_timing raw (q + i + 18 * k)) [0..<(128 - i) div 18]) (cta_timings c)\<rparr>"
proof (induction raw q i j c rule: cta_timing_loop.induct)
  case (1 raw q i j c)
  show ?case
  proof (cases "i + 18 - 1 < 128")
    case True
    then have n: "(128 - i) div 18 = Suc ((128 - (i + 18)) div 18)"
      using le_div_geq [of 18 "128 - i"] by simp
    have "map (\<lambda>k. decode_detailed_timing raw (q + i + 18 * k)) [0..<(128 - i) div 18] =
      decode_detailed_timing raw (q + i) # map (\<lambda>k. decode_detailed_timing raw (q + (i + 18) + 18 * k)) [0..<(128 - (i + 18)) div 18]"
      unfolding n by (simp add: upt_conv_Cons map_Suc_upt [symmetric] comp_def add.assoc del: upt_Suc)
    with True show ?thesis
      using 1 [OF True] by (subst cta_timing_loop.simps) (simp add: slots_Cons [symmetric] fun_upd_def)
  next
    case False
    then show ?thesis
      by (subst cta_timing_loop.simps) simp
  qed
qed


text \<open>The blocks start behind the four bytes of the header, and the timings follow them up to the end of the extension.\<close>

lemma decode_cta_block_slots:
  assumes "holds raw (q + 4) (concat bs)" "\<forall>b\<in>set bs. is_data_block b" "raw (q + 2) = 4 + length (concat bs)" "length bs < 256"
  shows "num_data_blocks (decode_cta_block raw q c) = length bs"
    "data_blocks (decode_cta_block raw q c) = slots 0 bs (data_blocks c)"
    "cta_timings (decode_cta_block raw q c) =
       slots 0 (map (\<lambda>k. decode_detailed_timing raw (q + raw (q + 2) + 18 * k)) [0..<(128 - raw (q + 2)) div 18]) (cta_timings c)"
  using assms by (simp_all add: decode_cta_block_def Let_def cta_data_loop_blocks cta_timing_loop_slots)

text \<open>
  A CTA extension that holds the data blocks \<open>bs\<close> and behind them the timings \<open>ts\<close> is decoded to these blocks, in
  order and complete, and to these timings, followed by what the rest of the extension decodes to.
\<close>

theorem cta_block_decoded:
  assumes "holds raw (q + 4) (concat bs @ concat (map detailed_timing_bytes ts))" "raw (q + 2) = 4 + length (concat bs)"
    "\<forall>b\<in>set bs. is_data_block b" "\<forall>t\<in>set ts. detailed_timing_ok t" "raw (q + 2) + 18 * length ts \<le> 128"
  shows "num_data_blocks (decode_cta_block raw q c) = length bs \<and>
    (\<forall>i<length bs. data_blocks (decode_cta_block raw q c) i = Some (bs ! i)) \<and>
    (\<forall>i<length ts. cta_timings (decode_cta_block raw q c) i = Some (ts ! i))"
proof -
  have h: "holds raw (q + 4) (concat bs)" "holds raw (q + raw (q + 2)) (concat (map detailed_timing_bytes ts))"
    using assms(1) unfolding assms(2) holds_append by (simp_all add: add.assoc)
  have "length bs \<le> length (concat bs)"
    using assms(3) by (induction bs) (auto simp: is_data_block_def Suc_le_eq add_less_le_mono)
  then have "length bs < 256"
    using assms(2,5) by simp
  note s = decode_cta_block_slots [OF h(1) assms(3,2) this]
  have "decode_detailed_timing raw (q + raw (q + 2) + 18 * i) = ts ! i" if "i < length ts" for i
    using assms(4) that by (intro decode_detailed_timing_bytes holds_concat [OF h(2)]) auto
  moreover have "i < (128 - raw (q + 2)) div 18" if "i < length ts" for i
    using that assms(5) by (simp add: less_eq_div_iff_mult_less_eq Suc_le_eq [symmetric])
  ultimately show ?thesis
    by (simp add: s slots_def)
qed

lemma cta_data_loop_timings: "cta_timings (cta_data_loop raw q i c) = cta_timings c"
  by (induction raw q i c rule: cta_data_loop.induct) (subst cta_data_loop.simps, simp add: Let_def)

text \<open>
  The structure has room for 8 data blocks and 6 timings. Decoding an extension with the blocks \<open>bs\<close> writes only
  slots of the first array if and only if there are no more than 8 of them, and decoding any extension writes only
  slots of the second one if and only if its timings do not start before offset 3: the decoder itself checks
  neither, and offset 0, an extension without timings, is written as seven timings.
\<close>

theorem cta_array_bounds:
  assumes "holds raw (q + 4) (concat bs)" "\<forall>b\<in>set bs. is_data_block b" "raw (q + 2) = 4 + length (concat bs)" "length bs < 256"
  shows "(dom (data_blocks (decode_cta_block raw q zero_cta)) \<subseteq> {..<8} \<longleftrightarrow> length bs \<le> 8) \<and>
    (\<forall>raw' q'. dom (cta_timings (decode_cta_block raw' q' zero_cta)) \<subseteq> {..<6} \<longleftrightarrow> 3 \<le> raw' (q' + 2))"
proof -
  have "{0..<n} \<subseteq> {..<m} \<longleftrightarrow> n \<le> m" for n m :: nat
    by (metis atLeast0LessThan lessThan_subset_iff)
  moreover have "(128 - n) div 18 \<le> 6 \<longleftrightarrow> 3 \<le> n" for n :: nat
    by (simp add: less_Suc_eq_le [symmetric] div_less_iff_less_mult) arith
  ultimately show ?thesis
    by (simp add: decode_cta_block_slots(2) [OF assms] dom_slots zero_cta_def)
      (simp add: decode_cta_block_def Let_def cta_timing_loop_slots cta_data_loop_timings dom_slots)
qed


section \<open>Examples\<close>

text \<open>A panel of 1366 by 768 pixels with a name, and three empty descriptions.\<close>

definition panel_timing :: edid1_detailed_timing where
  "panel_timing = \<lparr>pixel_clock = 7630, h_active = 1366, h_blank = 216, v_active = 768, v_blank = 36, h_sync_off = 48, h_sync_width = 32,
     v_sync_off = 3, v_sync_width = 5, dt_h_size = 344, dt_v_size = 193, h_border = 0, v_border = 0, interlaced = False, stereo = 0,
     sync = 3, misc = 1\<rparr>"

definition panel_edid :: edid1_info where
  "panel_edid =
     \<lparr>vendor = \<lparr>manufacturer = [0x4d, 0x53, 0x5f], prod_id = 0x1234, serial = 0x12345678, week = 12, year = 2010\<rparr>,
      edid_version = \<lparr>version = 1, revision = 3\<rparr>,
      display = \<lparr>input_type = 1, analog_params = no_analog, digital_params = \<lparr>bit_depth = 6, digital_interface = 5\<rparr>,
        disp_h_size = 34, disp_v_size = 19, disp_gamma = 120, dpms_standby = False, dpms_suspend = True, dpms_off = True, display_type = 1,
        std_colour_space = False, preferred_timing_mode = True, gtf_supported = False, red_x = 593, red_y = 358, green_x = 340,
        green_y = 585, blue_x = 159, blue_y = 113, white_x = 321, white_y = 337\<rparr>,
      established_timing = \<lparr>res_720x400x70 = False, res_720x400x88 = False, res_640x480x60 = True, res_640x480x67 = False,
        res_640x480x72 = False, res_640x480x75 = False, res_800x600x56 = False, res_800x600x60 = True, res_800x600x72 = False,
        res_800x600x75 = False, res_832x624x75 = False, res_1024x768x87i = False, res_1024x768x60 = True, res_1024x768x70 = False,
        res_1024x768x75 = False, res_1280x1024x75 = False, res_1152x870x75 = False\<rparr>,
      std_timing = replicate 8 \<lparr>st_h_size = 256, st_v_size = 256, st_id = 0x101, st_ratio = 0, st_refresh = 61\<rparr>,
      detailed_monitor = [\<lparr>monitor_desc_type = 1, monitor_data = Detailed_timing panel_timing\<rparr>,
        \<lparr>monitor_desc_type = 0xfc, monitor_data = Monitor_name [0x56, 0x41, 0x49, 0x4f, 0x20, 0x45, 0x42]\<rparr>,
        \<lparr>monitor_desc_type = 0xfd, monitor_data = Monitor_range \<lparr>min_v = 50, max_v = 75, min_h = 30, max_h = 60, max_clock = 8\<rparr>\<rparr>,
        \<lparr>monitor_desc_type = 0x10, monitor_data = No_data\<rparr>],
      num_sections = 0, cta_block = zero_cta, displayid_block = \<lparr>did_tag = 0, did_version = 0, did_extension_count = 0\<rparr>\<rparr>"

definition memory :: "nat list \<Rightarrow> raw_edid" where
  "memory bs k = (if k < length bs then bs ! k else 0)"

lemma holds_memory: "holds (memory (xs @ bs @ ys)) (length xs) bs"
  by (simp add: holds_def memory_def nth_append)

lemma holds_memory_0: "holds (memory bs) 0 bs"
  by (simp add: holds_def memory_def)

lemma panel_timing_ok: "detailed_timing_ok panel_timing"
  by (simp add: detailed_timing_ok_def panel_timing_def)

lemma panel_edid_ok: "edid_ok panel_edid"
  using panel_timing_ok
  by (simp add: edid_ok_def panel_edid_def vendor_ok_def display_ok_def std_timing_ok_def monitor_ok.simps text_ok_def is_graph_def
      monitor_types EDID1_NUM_STD_TIMING_def EDID1_NUM_DETAILED_MONITOR_DESC_def EDID1_EXTRA_STRING_LEN_def)
    (simp add: panel_timing_def)

theorem edid_roundtrip_witness: "edid_decode (memory (edid_bytes panel_edid)) = panel_edid"
  by (rule edid_roundtrip [OF holds_memory_0 panel_edid_ok])

end
