(* ===== verification/Device.thy ===== *)
theory Device
  imports Edid
begin

text \<open>
  What the accelerant knows of the graphics device, from \<open>src/intel_extreme/accelerant/intel_extreme.h\<close>: the class
  \<open>DeviceType\<close>, the platform controller hub, the outputs that the video BIOS declares; and the registers, which
  \<open>accelerant.h\<close> reads and writes by encoded numbers. The hardware is a function of everything that was done before:
  a history of register accesses, clock readings and sleeps. Each access is appended to the history.
\<close>

section \<open>Device types\<close>

definition INTEL_FAMILY_MASK :: nat where "INTEL_FAMILY_MASK = 0x00ff0000"
definition INTEL_GROUP_MASK :: nat where "INTEL_GROUP_MASK = 0x00fffff0"
definition INTEL_MODEL_MASK :: nat where "INTEL_MODEL_MASK = 0x00ffffff"
definition INTEL_TYPE_MASK :: nat where "INTEL_TYPE_MASK = 0x0000000f"

definition INTEL_FAMILY_8xx :: nat where "INTEL_FAMILY_8xx = 0x00020000"
definition INTEL_FAMILY_9xx :: nat where "INTEL_FAMILY_9xx = 0x00040000"
definition INTEL_FAMILY_SER5 :: nat where "INTEL_FAMILY_SER5 = 0x00080000"
definition INTEL_FAMILY_SOC0 :: nat where "INTEL_FAMILY_SOC0 = 0x00200000"
definition INTEL_FAMILY_LAKE :: nat where "INTEL_FAMILY_LAKE = 0x00400000"

definition INTEL_GROUP_83x :: nat where "INTEL_GROUP_83x = INTEL_FAMILY_8xx OR 0x0010"
definition INTEL_GROUP_85x :: nat where "INTEL_GROUP_85x = INTEL_FAMILY_8xx OR 0x0020"
definition INTEL_GROUP_91x :: nat where "INTEL_GROUP_91x = INTEL_FAMILY_9xx OR 0x0010"
definition INTEL_GROUP_94x :: nat where "INTEL_GROUP_94x = INTEL_FAMILY_9xx OR 0x0020"
definition INTEL_GROUP_96x :: nat where "INTEL_GROUP_96x = INTEL_FAMILY_9xx OR 0x0040"
definition INTEL_GROUP_Gxx :: nat where "INTEL_GROUP_Gxx = INTEL_FAMILY_9xx OR 0x0080"
definition INTEL_GROUP_G4x :: nat where "INTEL_GROUP_G4x = INTEL_FAMILY_9xx OR 0x0100"
definition INTEL_GROUP_PIN :: nat where "INTEL_GROUP_PIN = INTEL_FAMILY_9xx OR 0x0200"
definition INTEL_GROUP_ILK :: nat where "INTEL_GROUP_ILK = INTEL_FAMILY_SER5 OR 0x0010"
definition INTEL_GROUP_SNB :: nat where "INTEL_GROUP_SNB = INTEL_FAMILY_SER5 OR 0x0020"
definition INTEL_GROUP_IVB :: nat where "INTEL_GROUP_IVB = INTEL_FAMILY_SER5 OR 0x0040"
definition INTEL_GROUP_HAS :: nat where "INTEL_GROUP_HAS = INTEL_FAMILY_SER5 OR 0x0080"
definition INTEL_GROUP_VLV :: nat where "INTEL_GROUP_VLV = INTEL_FAMILY_SOC0 OR 0x0010"
definition INTEL_GROUP_CHV :: nat where "INTEL_GROUP_CHV = INTEL_FAMILY_SOC0 OR 0x0020"
definition INTEL_GROUP_BDW :: nat where "INTEL_GROUP_BDW = INTEL_FAMILY_SOC0 OR 0x0040"
definition INTEL_GROUP_SKY :: nat where "INTEL_GROUP_SKY = INTEL_FAMILY_LAKE OR 0x0010"
definition INTEL_GROUP_KBY :: nat where "INTEL_GROUP_KBY = INTEL_FAMILY_LAKE OR 0x0020"
definition INTEL_GROUP_CFL :: nat where "INTEL_GROUP_CFL = INTEL_FAMILY_LAKE OR 0x0040"
definition INTEL_GROUP_CML :: nat where "INTEL_GROUP_CML = INTEL_FAMILY_LAKE OR 0x0080"
definition INTEL_GROUP_JSL :: nat where "INTEL_GROUP_JSL = INTEL_FAMILY_LAKE OR 0x0100"
definition INTEL_GROUP_TGL :: nat where "INTEL_GROUP_TGL = INTEL_FAMILY_LAKE OR 0x0200"
definition INTEL_GROUP_ALD :: nat where "INTEL_GROUP_ALD = INTEL_FAMILY_LAKE OR 0x0400"

definition INTEL_TYPE_MOBILE :: nat where "INTEL_TYPE_MOBILE = 0x0008"
definition INTEL_MODEL_G33 :: nat where "INTEL_MODEL_G33 = INTEL_GROUP_Gxx"

text \<open>The argument of each is the number \<open>type\<close> of the device.\<close>

definition InFamily :: "nat \<Rightarrow> nat \<Rightarrow> bool" where
  "InFamily t family \<longleftrightarrow> t AND INTEL_FAMILY_MASK = family"

definition InGroup :: "nat \<Rightarrow> nat \<Rightarrow> bool" where
  "InGroup t grp \<longleftrightarrow> t AND INTEL_GROUP_MASK = grp"

definition IsModel :: "nat \<Rightarrow> nat \<Rightarrow> bool" where
  "IsModel t model \<longleftrightarrow> t AND INTEL_MODEL_MASK = model"

definition IsMobile :: "nat \<Rightarrow> bool" where
  "IsMobile t \<longleftrightarrow> t AND INTEL_TYPE_MASK = INTEL_TYPE_MOBILE"

definition SupportsHDMI :: "nat \<Rightarrow> bool" where
  "SupportsHDMI t \<longleftrightarrow> InGroup t INTEL_GROUP_G4x \<or> InFamily t INTEL_FAMILY_SER5 \<or> InFamily t INTEL_FAMILY_SOC0"

definition Generation :: "nat \<Rightarrow> nat" where
  "Generation t =
     (if InFamily t INTEL_FAMILY_8xx then 2
      else if InGroup t INTEL_GROUP_91x \<or> InGroup t INTEL_GROUP_94x \<or> IsModel t INTEL_MODEL_G33 \<or> InGroup t INTEL_GROUP_PIN then 3
      else if InFamily t INTEL_FAMILY_9xx then 4
      else if InGroup t INTEL_GROUP_ILK then 5
      else if InGroup t INTEL_GROUP_SNB then 6
      else if InFamily t INTEL_FAMILY_SER5 \<or> InGroup t INTEL_GROUP_VLV then 7
      else if InGroup t INTEL_GROUP_CHV \<or> InGroup t INTEL_GROUP_BDW then 8
      else if InGroup t INTEL_GROUP_JSL then 11
      else if InGroup t INTEL_GROUP_TGL \<or> InGroup t INTEL_GROUP_ALD then 12
      else if InFamily t INTEL_FAMILY_LAKE then 9
      else 0)"

definition HasDDI :: "nat \<Rightarrow> bool" where
  "HasDDI t \<longleftrightarrow> InGroup t INTEL_GROUP_HAS \<or> 8 \<le> Generation t"

text \<open>Ordered as the enumeration, so that hubs can be compared.\<close>

datatype pch_info =
  INTEL_PCH_NONE | INTEL_PCH_IBX | INTEL_PCH_CPT | INTEL_PCH_LPT | INTEL_PCH_SPT | INTEL_PCH_CNP | INTEL_PCH_ICP | INTEL_PCH_JSP
  | INTEL_PCH_MCC | INTEL_PCH_TGP | INTEL_PCH_ADP | INTEL_PCH_NOP

fun pch_number :: "pch_info \<Rightarrow> nat" where
  "pch_number INTEL_PCH_NONE = 0"
| "pch_number INTEL_PCH_IBX = 1"
| "pch_number INTEL_PCH_CPT = 2"
| "pch_number INTEL_PCH_LPT = 3"
| "pch_number INTEL_PCH_SPT = 4"
| "pch_number INTEL_PCH_CNP = 5"
| "pch_number INTEL_PCH_ICP = 6"
| "pch_number INTEL_PCH_JSP = 7"
| "pch_number INTEL_PCH_MCC = 8"
| "pch_number INTEL_PCH_TGP = 9"
| "pch_number INTEL_PCH_ADP = 10"
| "pch_number INTEL_PCH_NOP = 11"

lemma pch_number_inj: "pch_number p = pch_number q \<Longrightarrow> p = q"
  by (cases p; cases q) simp_all

instantiation pch_info :: linorder
begin

definition less_eq_pch_info :: "pch_info \<Rightarrow> pch_info \<Rightarrow> bool" where
  "less_eq_pch_info p q \<longleftrightarrow> pch_number p \<le> pch_number q"

definition less_pch_info :: "pch_info \<Rightarrow> pch_info \<Rightarrow> bool" where
  "less_pch_info p q \<longleftrightarrow> pch_number p < pch_number q"

instance
  by standard (auto simp: less_eq_pch_info_def less_pch_info_def intro: pch_number_inj)

end

section \<open>Outputs in the video BIOS table\<close>

datatype port_index =
  INTEL_PORT_ANY | INTEL_PORT_A | INTEL_PORT_B | INTEL_PORT_C | INTEL_PORT_D | INTEL_PORT_E | INTEL_PORT_F | INTEL_PORT_G

datatype dvo_port =
  DVO_PORT_HDMIA | DVO_PORT_HDMIB | DVO_PORT_HDMIC | DVO_PORT_HDMID | DVO_PORT_LVDS | DVO_PORT_TV | DVO_PORT_CRT | DVO_PORT_DPB
  | DVO_PORT_DPC | DVO_PORT_DPD | DVO_PORT_DPA | DVO_PORT_DPE | DVO_PORT_HDMIE | DVO_PORT_DPF | DVO_PORT_HDMIF | DVO_PORT_DPG
  | DVO_PORT_HDMIG | DVO_PORT_DPH | DVO_PORT_HDMIH | DVO_PORT_DPI | DVO_PORT_HDMII

text \<open>The enumeration in order; a byte behind its end is no port.\<close>

definition dvo_ports :: "dvo_port list" where
  "dvo_ports =
     [DVO_PORT_HDMIA, DVO_PORT_HDMIB, DVO_PORT_HDMIC, DVO_PORT_HDMID, DVO_PORT_LVDS, DVO_PORT_TV, DVO_PORT_CRT, DVO_PORT_DPB,
      DVO_PORT_DPC, DVO_PORT_DPD, DVO_PORT_DPA, DVO_PORT_DPE, DVO_PORT_HDMIE, DVO_PORT_DPF, DVO_PORT_HDMIF, DVO_PORT_DPG,
      DVO_PORT_HDMIG, DVO_PORT_DPH, DVO_PORT_HDMIH, DVO_PORT_DPI, DVO_PORT_HDMII]"

definition DEVICE_TYPE_DISPLAYPORT_OUTPUT :: nat where "DEVICE_TYPE_DISPLAYPORT_OUTPUT = 2 ^ 2"
definition DEVICE_TYPE_TMDS_DVI_SIGNALING :: nat where "DEVICE_TYPE_TMDS_DVI_SIGNALING = 2 ^ 4"
definition DEVICE_TYPE_NOT_HDMI_OUTPUT :: nat where "DEVICE_TYPE_NOT_HDMI_OUTPUT = 2 ^ 11"
definition DEVICE_TYPE_INTERNAL_CONNECTOR :: nat where "DEVICE_TYPE_INTERNAL_CONNECTOR = 2 ^ 12"

text \<open>The fields of \<open>child_device_config\<close> that the ports read.\<close>

record child_device_config =
  cfg_device_type :: nat
  cfg_dvo_port :: nat
  cfg_ddc_pin :: nat
  cfg_aux_channel :: nat

text \<open>The fields of \<open>intel_shared_info\<close> that the ports read; the configurations are the first
  \<open>device_config_count\<close> entries of the array, and \<open>has_vesa_edid_info\<close> tells whether the VESA description is there.\<close>

record shared_info =
  device_type :: nat
  pch :: pch_info
  device_configs :: "child_device_config list"
  hw_cdclk :: nat
  hraw_clock :: nat
  vesa_edid_info :: "edid1_info option"
  got_vbt :: bool

section \<open>Registers\<close>

definition REGS_NORTH_SHARED :: nat where "REGS_NORTH_SHARED = 2 ^ 24"
definition REGS_NORTH_PIPE_AND_PORT :: nat where "REGS_NORTH_PIPE_AND_PORT = 2 * 2 ^ 24"
definition REGS_NORTH_PLANE_CONTROL :: nat where "REGS_NORTH_PLANE_CONTROL = 3 * 2 ^ 24"
definition REGS_SOUTH_SHARED :: nat where "REGS_SOUTH_SHARED = 4 * 2 ^ 24"
definition REGS_SOUTH_TRANSCODER_PORT :: nat where "REGS_SOUTH_TRANSCODER_PORT = 5 * 2 ^ 24"

datatype access =
    Reg_read nat
  | Reg_write nat "32 word"
  | Clock_read
  | Spun nat
  | Snoozed nat

type_synonym history = "access list"

text \<open>What a register answers, and the time, after a history.\<close>

record hardware =
  reg_answer :: "history \<Rightarrow> nat \<Rightarrow> 32 word"
  time_answer :: "history \<Rightarrow> int"

definition read32 :: "hardware \<Rightarrow> nat \<Rightarrow> history \<Rightarrow> 32 word \<times> history" where
  "read32 hw reg h = (reg_answer hw h reg, h @ [Reg_read reg])"

definition write32 :: "nat \<Rightarrow> 32 word \<Rightarrow> history \<Rightarrow> history" where
  "write32 reg v h = h @ [Reg_write reg v]"

definition system_time :: "hardware \<Rightarrow> history \<Rightarrow> int \<times> history" where
  "system_time hw h = (time_answer hw h, h @ [Clock_read])"

definition snooze :: "nat \<Rightarrow> history \<Rightarrow> history" where
  "snooze n h = h @ [Snoozed n]"

text \<open>The values written to a register, in order.\<close>

definition written :: "nat \<Rightarrow> history \<Rightarrow> 32 word list" where
  "written reg h = [v. Reg_write r v \<leftarrow> h, r = reg]"

lemma written_append [simp]: "written reg (h @ h') = written reg h @ written reg h'"
  by (simp add: written_def)

lemma written_Nil [simp]: "written reg [] = []"
  by (simp add: written_def)

lemma written_Cons [simp]:
  "written reg (Reg_write r v # h) = (if r = reg then v # written reg h else written reg h)"
  "written reg (Reg_read r # h) = written reg h" "written reg (Clock_read # h) = written reg h"
  "written reg (Spun n # h) = written reg h" "written reg (Snoozed n # h) = written reg h"
  by (simp_all add: written_def)

end
