(* ===== verification/Port_Registers.thy ===== *)
theory Port_Registers
  imports Device
begin

text \<open>
  Which output a port stands for, and which registers belong to it: the lookups of \<open>src/intel_extreme/accelerant/Ports.cpp\<close>
  in the table of the video BIOS (\<open>_IsPortInVBT\<close> and its users, \<open>_DDCPin\<close>, \<open>_DpAuxChannel\<close>) and the
  virtual methods \<open>_DDCRegister\<close> and \<open>_PortRegister\<close> of the classes of ports. Register 0 stands for no register.
\<close>

section \<open>Register numbers\<close>

abbreviation south_shared :: "nat \<Rightarrow> nat" where "south_shared r \<equiv> r OR REGS_SOUTH_SHARED"
abbreviation transcoder_port :: "nat \<Rightarrow> nat" where "transcoder_port r \<equiv> r OR REGS_SOUTH_TRANSCODER_PORT"
abbreviation pipe_and_port :: "nat \<Rightarrow> nat" where "pipe_and_port r \<equiv> r OR REGS_NORTH_PIPE_AND_PORT"

definition INTEL_I2C_IO_A :: nat where "INTEL_I2C_IO_A = south_shared 0x5010"
definition INTEL_I2C_IO_B :: nat where "INTEL_I2C_IO_B = south_shared 0x5014"
definition INTEL_I2C_IO_C :: nat where "INTEL_I2C_IO_C = south_shared 0x5018"
definition INTEL_I2C_IO_D :: nat where "INTEL_I2C_IO_D = south_shared 0x501c"
definition INTEL_I2C_IO_E :: nat where "INTEL_I2C_IO_E = south_shared 0x5020"
definition INTEL_I2C_IO_F :: nat where "INTEL_I2C_IO_F = south_shared 0x5024"
definition INTEL_I2C_IO_I :: nat where "INTEL_I2C_IO_I = south_shared 0x5030"
definition INTEL_I2C_IO_J :: nat where "INTEL_I2C_IO_J = south_shared 0x5034"
definition INTEL_I2C_IO_K :: nat where "INTEL_I2C_IO_K = south_shared 0x5038"
definition INTEL_I2C_IO_L :: nat where "INTEL_I2C_IO_L = south_shared 0x503c"
definition INTEL_I2C_IO_M :: nat where "INTEL_I2C_IO_M = south_shared 0x5040"
definition INTEL_I2C_IO_N :: nat where "INTEL_I2C_IO_N = south_shared 0x5044"

lemmas i2c_registers = INTEL_I2C_IO_A_def INTEL_I2C_IO_B_def INTEL_I2C_IO_C_def INTEL_I2C_IO_D_def INTEL_I2C_IO_E_def INTEL_I2C_IO_F_def
  INTEL_I2C_IO_I_def INTEL_I2C_IO_J_def INTEL_I2C_IO_K_def INTEL_I2C_IO_L_def INTEL_I2C_IO_M_def INTEL_I2C_IO_N_def REGS_SOUTH_SHARED_def

definition INTEL_ANALOG_PORT :: nat where "INTEL_ANALOG_PORT = transcoder_port 0x1100"
definition INTEL_DIGITAL_PORT_A :: nat where "INTEL_DIGITAL_PORT_A = transcoder_port 0x1120"
definition INTEL_DIGITAL_PORT_B :: nat where "INTEL_DIGITAL_PORT_B = transcoder_port 0x1140"
definition INTEL_DIGITAL_PORT_C :: nat where "INTEL_DIGITAL_PORT_C = transcoder_port 0x1160"
definition INTEL_DIGITAL_LVDS_PORT :: nat where "INTEL_DIGITAL_LVDS_PORT = transcoder_port 0x1180"
definition INTEL_HDMI_PORT_B :: nat where "INTEL_HDMI_PORT_B = transcoder_port 0x1140"
definition INTEL_HDMI_PORT_C :: nat where "INTEL_HDMI_PORT_C = transcoder_port 0x1160"
definition PCH_HDMI_PORT_B :: nat where "PCH_HDMI_PORT_B = transcoder_port 0x1140"
definition PCH_HDMI_PORT_C :: nat where "PCH_HDMI_PORT_C = transcoder_port 0x1150"
definition PCH_HDMI_PORT_D :: nat where "PCH_HDMI_PORT_D = transcoder_port 0x1160"
definition GEN4_HDMI_PORT_B :: nat where "GEN4_HDMI_PORT_B = transcoder_port 0x1140"
definition GEN4_HDMI_PORT_C :: nat where "GEN4_HDMI_PORT_C = transcoder_port 0x1160"
definition CHV_HDMI_PORT_D :: nat where "CHV_HDMI_PORT_D = transcoder_port 0x116c"
definition DDI_BUF_CTL_A :: nat where "DDI_BUF_CTL_A = pipe_and_port 0x4000"
definition DDI_BUF_CTL_B :: nat where "DDI_BUF_CTL_B = pipe_and_port 0x4100"
definition DDI_BUF_CTL_C :: nat where "DDI_BUF_CTL_C = pipe_and_port 0x4200"
definition DDI_BUF_CTL_D :: nat where "DDI_BUF_CTL_D = pipe_and_port 0x4300"
definition DDI_BUF_CTL_E :: nat where "DDI_BUF_CTL_E = pipe_and_port 0x4400"
definition DDI_BUF_CTL_F :: nat where "DDI_BUF_CTL_F = pipe_and_port 0x4500"
definition DDI_BUF_CTL_G :: nat where "DDI_BUF_CTL_G = pipe_and_port 0x4600"
definition INTEL_DISPLAY_PORT_A :: nat where "INTEL_DISPLAY_PORT_A = pipe_and_port 0x4000"
definition INTEL_DISPLAY_PORT_B :: nat where "INTEL_DISPLAY_PORT_B = transcoder_port 0x4100"
definition INTEL_DISPLAY_PORT_C :: nat where "INTEL_DISPLAY_PORT_C = transcoder_port 0x4200"
definition INTEL_DISPLAY_PORT_D :: nat where "INTEL_DISPLAY_PORT_D = transcoder_port 0x4300"
definition VLV_DISPLAY_BASE :: nat where "VLV_DISPLAY_BASE = 0x180000"
definition VLV_DISPLAY_PORT_B :: nat where "VLV_DISPLAY_PORT_B = VLV_DISPLAY_BASE + 0x64100"
definition VLV_DISPLAY_PORT_C :: nat where "VLV_DISPLAY_PORT_C = VLV_DISPLAY_BASE + 0x64200"
definition CHV_DISPLAY_PORT_D :: nat where "CHV_DISPLAY_PORT_D = VLV_DISPLAY_BASE + 0x64300"

section \<open>The table of the video BIOS\<close>

fun port_matches :: "port_index \<Rightarrow> dvo_port \<Rightarrow> bool" where
  "port_matches INTEL_PORT_A p \<longleftrightarrow> p = DVO_PORT_HDMIA \<or> p = DVO_PORT_DPA"
| "port_matches INTEL_PORT_B p \<longleftrightarrow> p = DVO_PORT_HDMIB \<or> p = DVO_PORT_DPB"
| "port_matches INTEL_PORT_C p \<longleftrightarrow> p = DVO_PORT_HDMIC \<or> p = DVO_PORT_DPC"
| "port_matches INTEL_PORT_D p \<longleftrightarrow> p = DVO_PORT_HDMID \<or> p = DVO_PORT_DPD"
| "port_matches INTEL_PORT_E p \<longleftrightarrow> p = DVO_PORT_HDMIE \<or> p = DVO_PORT_DPE \<or> p = DVO_PORT_CRT"
| "port_matches INTEL_PORT_F p \<longleftrightarrow> p = DVO_PORT_HDMIF \<or> p = DVO_PORT_DPF"
| "port_matches INTEL_PORT_G p \<longleftrightarrow> p = DVO_PORT_HDMIG \<or> p = DVO_PORT_DPG"
| "port_matches INTEL_PORT_ANY p \<longleftrightarrow> False"

text \<open>The loop from configuration \<open>i\<close> on. The result is the index of the first configuration found.\<close>

fun vbt_loop :: "port_index \<Rightarrow> child_device_config list \<Rightarrow> nat \<Rightarrow> nat option" where
  "vbt_loop port [] i = None"
| "vbt_loop port (config # configs) i =
     (if length dvo_ports - 1 < cfg_dvo_port config then vbt_loop port configs (i + 1)
      else if port_matches port (dvo_ports ! cfg_dvo_port config) then Some i
      else vbt_loop port configs (i + 1))"

definition IsPortInVBT :: "shared_info \<Rightarrow> port_index \<Rightarrow> nat option" where
  "IsPortInVBT si port = vbt_loop port (device_configs si) 0"

definition IsDisplayPortInVBT :: "shared_info \<Rightarrow> port_index \<Rightarrow> bool" where
  "IsDisplayPortInVBT si port =
     (case IsPortInVBT si port of
        None \<Rightarrow> False
      | Some foundIndex \<Rightarrow>
          let config = device_configs si ! foundIndex
          in 0 < cfg_aux_channel config \<and> cfg_device_type config AND DEVICE_TYPE_DISPLAYPORT_OUTPUT \<noteq> 0)"

definition IsHdmiInVBT :: "shared_info \<Rightarrow> port_index \<Rightarrow> bool" where
  "IsHdmiInVBT si port =
     (case IsPortInVBT si port of
        None \<Rightarrow> False
      | Some foundIndex \<Rightarrow>
          let config = device_configs si ! foundIndex
          in 0 < cfg_ddc_pin config \<and>
             (cfg_device_type config AND DEVICE_TYPE_NOT_HDMI_OUTPUT = 0 \<or> cfg_device_type config AND DEVICE_TYPE_TMDS_DVI_SIGNALING \<noteq> 0))"

definition IsEDPPort :: "shared_info \<Rightarrow> port_index \<Rightarrow> bool" where
  "IsEDPPort si port =
     (case IsPortInVBT si port of
        None \<Rightarrow> False
      | Some foundIndex \<Rightarrow>
          let config = device_configs si ! foundIndex;
              both = DEVICE_TYPE_INTERNAL_CONNECTOR OR DEVICE_TYPE_DISPLAYPORT_OUTPUT
          in cfg_device_type config AND both = both)"

text \<open>The DDC register of a pin on a device.\<close>

definition ddc_pin_register :: "shared_info \<Rightarrow> nat \<Rightarrow> nat" where
  "ddc_pin_register si pin =
     (if INTEL_PCH_ICP \<le> pch si then
        (if pin = 1 then INTEL_I2C_IO_A else if pin = 2 then INTEL_I2C_IO_B else if pin = 3 then INTEL_I2C_IO_C
         else if pin = 4 then INTEL_I2C_IO_I else if pin = 5 then INTEL_I2C_IO_J else if pin = 6 then INTEL_I2C_IO_K
         else if pin = 7 then INTEL_I2C_IO_L else if pin = 8 then INTEL_I2C_IO_M else if pin = 9 then INTEL_I2C_IO_N else 0)
      else if INTEL_PCH_CNP \<le> pch si then
        (if pin = 1 then INTEL_I2C_IO_A else if pin = 2 then INTEL_I2C_IO_B else if pin = 3 then INTEL_I2C_IO_D
         else if pin = 4 then INTEL_I2C_IO_C else 0)
      else if Generation (device_type si) = 9 then
        (if pin = 4 then INTEL_I2C_IO_D else if pin = 5 then INTEL_I2C_IO_E else if pin = 6 then INTEL_I2C_IO_F else 0)
      else if InGroup (device_type si) INTEL_GROUP_BDW then
        (if pin = 2 then INTEL_I2C_IO_A else if pin = 4 then INTEL_I2C_IO_D else if pin = 5 then INTEL_I2C_IO_E
         else if pin = 6 then INTEL_I2C_IO_F else 0)
      else
        (if pin = 1 then INTEL_I2C_IO_B else if pin = 2 then INTEL_I2C_IO_A else if pin = 3 then INTEL_I2C_IO_C
         else if pin = 4 then INTEL_I2C_IO_D else if pin = 5 then INTEL_I2C_IO_E else if pin = 6 then INTEL_I2C_IO_F else 0))"

definition DDCPin :: "shared_info \<Rightarrow> port_index \<Rightarrow> nat" where
  "DDCPin si port =
     (case IsPortInVBT si port of
        None \<Rightarrow> 0
      | Some foundIndex \<Rightarrow> ddc_pin_register si (cfg_ddc_pin (device_configs si ! foundIndex)))"

text \<open>The number of the AUX channel, 0 for \<open>AUX_CH_A\<close>.\<close>

definition DpAuxChannel :: "shared_info \<Rightarrow> port_index \<Rightarrow> nat" where
  "DpAuxChannel si port =
     (case IsPortInVBT si port of
        None \<Rightarrow> 0
      | Some foundIndex \<Rightarrow>
          let aux = cfg_aux_channel (device_configs si ! foundIndex)
          in if aux = 0x10 then 1 else if aux = 0x20 then 2 else if aux = 0x30 then 3 else if aux = 0x50 then 4
             else if aux = 0x60 then 5 else 0)"

section \<open>The classes of ports\<close>

datatype port_class = AnalogPort | LVDSPort | DigitalPort | HDMIPort | DisplayPort | EmbeddedDisplayPort | DigitalDisplayInterface

definition digital_ddc_register :: "port_index \<Rightarrow> nat" where
  "digital_ddc_register port =
     (case port of INTEL_PORT_B \<Rightarrow> INTEL_I2C_IO_E | INTEL_PORT_C \<Rightarrow> INTEL_I2C_IO_D | INTEL_PORT_D \<Rightarrow> INTEL_I2C_IO_F | _ \<Rightarrow> 0)"

fun DDCRegister :: "shared_info \<Rightarrow> port_class \<Rightarrow> port_index \<Rightarrow> nat" where
  "DDCRegister si AnalogPort port = INTEL_I2C_IO_A"
| "DDCRegister si LVDSPort port = INTEL_I2C_IO_C"
| "DDCRegister si DigitalPort port = digital_ddc_register port"
| "DDCRegister si HDMIPort port = digital_ddc_register port"
| "DDCRegister si DisplayPort port = 0"
| "DDCRegister si EmbeddedDisplayPort port = 0"
| "DDCRegister si DigitalDisplayInterface port = DDCPin si port"

definition digital_port_register :: "port_index \<Rightarrow> nat" where
  "digital_port_register port =
     (case port of INTEL_PORT_A \<Rightarrow> INTEL_DIGITAL_PORT_A | INTEL_PORT_B \<Rightarrow> INTEL_DIGITAL_PORT_B | INTEL_PORT_C \<Rightarrow> INTEL_DIGITAL_PORT_C | _ \<Rightarrow> 0)"

definition hdmi_port_register :: "shared_info \<Rightarrow> port_index \<Rightarrow> nat" where
  "hdmi_port_register si port =
     (let hasPCH = (pch si \<noteq> INTEL_PCH_NONE); fourthGen = InGroup (device_type si) INTEL_GROUP_VLV
      in case port of
           INTEL_PORT_B \<Rightarrow> if fourthGen then GEN4_HDMI_PORT_B else if hasPCH then PCH_HDMI_PORT_B else INTEL_HDMI_PORT_B
         | INTEL_PORT_C \<Rightarrow> if fourthGen then GEN4_HDMI_PORT_C else if hasPCH then PCH_HDMI_PORT_C else INTEL_HDMI_PORT_C
         | INTEL_PORT_D \<Rightarrow>
             if InGroup (device_type si) INTEL_GROUP_CHV then CHV_HDMI_PORT_D else if hasPCH then PCH_HDMI_PORT_D else 0
         | _ \<Rightarrow> 0)"

definition display_port_register :: "shared_info \<Rightarrow> port_index \<Rightarrow> nat" where
  "display_port_register si port =
     (let vlv = InGroup (device_type si) INTEL_GROUP_VLV; chv = InGroup (device_type si) INTEL_GROUP_CHV
      in if vlv \<or> chv then 0
         else case port of
           INTEL_PORT_A \<Rightarrow> INTEL_DISPLAY_PORT_A
         | INTEL_PORT_B \<Rightarrow> if vlv then VLV_DISPLAY_PORT_B else INTEL_DISPLAY_PORT_B
         | INTEL_PORT_C \<Rightarrow> if vlv then VLV_DISPLAY_PORT_C else INTEL_DISPLAY_PORT_C
         | INTEL_PORT_D \<Rightarrow> if chv then CHV_DISPLAY_PORT_D else if vlv then 0 else INTEL_DISPLAY_PORT_D
         | _ \<Rightarrow> 0)"

definition ddi_port_register :: "shared_info \<Rightarrow> port_index \<Rightarrow> nat" where
  "ddi_port_register si port =
     (case port of
        INTEL_PORT_A \<Rightarrow> DDI_BUF_CTL_A
      | INTEL_PORT_B \<Rightarrow> DDI_BUF_CTL_B
      | INTEL_PORT_C \<Rightarrow> DDI_BUF_CTL_C
      | INTEL_PORT_D \<Rightarrow> DDI_BUF_CTL_D
      | INTEL_PORT_E \<Rightarrow> DDI_BUF_CTL_E
      | INTEL_PORT_F \<Rightarrow>
          if 8 < Generation (device_type si) \<and> \<not> InGroup (device_type si) INTEL_GROUP_SKY then DDI_BUF_CTL_F else 0
      | INTEL_PORT_G \<Rightarrow> if 12 \<le> Generation (device_type si) then DDI_BUF_CTL_G else 0
      | INTEL_PORT_ANY \<Rightarrow> 0)"

fun PortRegister :: "shared_info \<Rightarrow> port_class \<Rightarrow> port_index \<Rightarrow> nat" where
  "PortRegister si AnalogPort port = INTEL_ANALOG_PORT"
| "PortRegister si LVDSPort port = INTEL_DIGITAL_LVDS_PORT"
| "PortRegister si DigitalPort port = digital_port_register port"
| "PortRegister si HDMIPort port = hdmi_port_register si port"
| "PortRegister si DisplayPort port = display_port_register si port"
| "PortRegister si EmbeddedDisplayPort port = display_port_register si port"
| "PortRegister si DigitalDisplayInterface port = ddi_port_register si port"

section \<open>Lookups\<close>

text \<open>The lookup finds the first configuration whose output the port stands for.\<close>

definition stands_for :: "port_index \<Rightarrow> child_device_config \<Rightarrow> bool" where
  "stands_for port config \<longleftrightarrow> cfg_dvo_port config < length dvo_ports \<and> port_matches port (dvo_ports ! cfg_dvo_port config)"

lemma vbt_loop_find: "vbt_loop port configs i = map_option (\<lambda>k. i + k) (find (\<lambda>k. stands_for port (configs ! k)) [0..<length configs])"
proof (induction configs arbitrary: i)
  case (Cons config configs)
  have "length dvo_ports - 1 < n \<longleftrightarrow> \<not> n < length dvo_ports" for n
    by (auto simp: dvo_ports_def)
  moreover have "find (\<lambda>k. stands_for port ((config # configs) ! k)) [0..<length (config # configs)] =
    (if stands_for port config then Some 0
     else map_option Suc (find (\<lambda>k. stands_for port (configs ! k)) [0..<length configs]))"
  proof -
    have "find P (map Suc xs) = map_option Suc (find (\<lambda>k. P (Suc k)) xs)" for P xs
      by (induction xs) auto
    then show ?thesis
      by (simp add: upt_conv_Cons map_Suc_upt [symmetric] del: upt_Suc)
  qed
  ultimately show ?case
    by (auto simp: Cons stands_for_def map_option.compositionality comp_def)
qed simp

lemma IsPortInVBT_Some:
  assumes "IsPortInVBT si port = Some i"
  shows "i < length (device_configs si)" "stands_for port (device_configs si ! i)"
    "\<And>j. j < i \<Longrightarrow> \<not> stands_for port (device_configs si ! j)"
  using assms
  by (auto simp: IsPortInVBT_def vbt_loop_find find_Some_iff)

lemma ddc_register_values:
  "INTEL_I2C_IO_A = 0x4005010" "INTEL_I2C_IO_B = 0x4005014" "INTEL_I2C_IO_C = 0x4005018" "INTEL_I2C_IO_D = 0x400501c"
  "INTEL_I2C_IO_E = 0x4005020" "INTEL_I2C_IO_F = 0x4005024" "INTEL_I2C_IO_I = 0x4005030" "INTEL_I2C_IO_J = 0x4005034"
  "INTEL_I2C_IO_K = 0x4005038" "INTEL_I2C_IO_L = 0x400503c" "INTEL_I2C_IO_M = 0x4005040" "INTEL_I2C_IO_N = 0x4005044"
  by (simp_all add: i2c_registers)

text \<open>A table with different entries tells its keys apart.\<close>

definition entry :: "(nat \<times> nat) list \<Rightarrow> nat \<Rightarrow> nat" where
  "entry t k = (case map_of t k of None \<Rightarrow> 0 | Some r \<Rightarrow> r)"

lemma entry_Nil [simp]: "entry [] k = 0"
  by (simp add: entry_def)

lemma entry_Cons [simp]: "entry ((k', r) # t) k = (if k = k' then r else entry t k)"
  by (simp add: entry_def)

lemma entries_apart:
  assumes "distinct (map snd t)" "entry t p = entry t q" "entry t p \<noteq> 0"
  shows "p = q"
proof -
  obtain r where "map_of t p = Some r" "map_of t q = Some r"
    using assms(2,3) by (auto simp: entry_def split: option.splits)
  then have "(p, r) \<in> set t" "(q, r) \<in> set t"
    by (auto dest: map_of_SomeD)
  with assms(1) show ?thesis
    by (metis distinct_map inj_onD prod.inject snd_conv)
qed

text \<open>The pins of the hubs and devices as such tables.\<close>

lemma ddc_pin_entries:
  obtains t where "distinct (map snd t)" "\<And>pin. ddc_pin_register si pin = entry t pin"
proof -
  let ?icp = "[(1, INTEL_I2C_IO_A), (2, INTEL_I2C_IO_B), (3, INTEL_I2C_IO_C), (4, INTEL_I2C_IO_I), (5, INTEL_I2C_IO_J), (6, INTEL_I2C_IO_K),
    (7, INTEL_I2C_IO_L), (8, INTEL_I2C_IO_M), (9, INTEL_I2C_IO_N)]"
  let ?cnp = "[(1, INTEL_I2C_IO_A), (2, INTEL_I2C_IO_B), (3, INTEL_I2C_IO_D), (4, INTEL_I2C_IO_C)]"
  let ?gen9 = "[(4, INTEL_I2C_IO_D), (5, INTEL_I2C_IO_E), (6, INTEL_I2C_IO_F)]"
  let ?bdw = "(2, INTEL_I2C_IO_A) # ?gen9"
  let ?old = "[(1, INTEL_I2C_IO_B), (2, INTEL_I2C_IO_A), (3, INTEL_I2C_IO_C)] @ ?gen9"
  define t :: "(nat \<times> nat) list" where "t = (if INTEL_PCH_ICP \<le> pch si then ?icp else if INTEL_PCH_CNP \<le> pch si then ?cnp
    else if Generation (device_type si) = 9 then ?gen9 else if InGroup (device_type si) INTEL_GROUP_BDW then ?bdw else ?old)"
  have "distinct (map snd t)"
    by (simp add: t_def ddc_register_values)
  moreover have "ddc_pin_register si pin = entry t pin" for pin
    unfolding ddc_pin_register_def t_def by (simp only: if_distrib [of "\<lambda>t. entry t pin"] entry_Cons entry_Nil append.simps)
  ultimately show ?thesis
    by (rule that)
qed

text \<open>
  On every device, the video BIOS pins that have a DDC register have different ones: two digital outputs whose table
  entries name different pins never talk on each other's lines.
\<close>

theorem ddc_pins_apart: "ddc_pin_register si p = ddc_pin_register si q \<Longrightarrow> ddc_pin_register si p \<noteq> 0 \<Longrightarrow> p = q"
  by (rule ddc_pin_entries [of si]) (auto dest: entries_apart)

definition icelake_info :: shared_info where
  "icelake_info = \<lparr>device_type = INTEL_GROUP_JSL, pch = INTEL_PCH_ICP, device_configs = [], hw_cdclk = 0, hraw_clock = 0,
     vesa_edid_info = None, got_vbt = False\<rparr>"

end
