(* ===== verification/I2c.thy ===== *)
theory I2c
  imports Vaio_Prelude
begin

text \<open>
  The bit banged I2C master of \<open>src/intel_extreme/common_src/i2c.c\<close>, with \<open>common_headers/i2c.h\<close>, and the callbacks
  of \<open>accelerant/Ports.cpp\<close> that drive the two lines through a GPIO register. The lines are booleans. A
  bus is a record of its callbacks over a state \<open>'c\<close> of everything outside the driver: the cookie, the
  devices on the bus and the clock that \<open>system_time\<close> reads. \<open>None\<close> stands for a wait that never ends, which
  \<open>i2c_returns\<close> excludes for a clock that runs. The specification is what an observer of the lines sees:
  start and stop conditions and the bits sampled while the clock is high.
\<close>

section \<open>Buses\<close>

record i2c_timing =
  t_buf :: int
  t_hd_sta :: int
  t_low :: int
  t_high :: int
  t_su_sta :: int
  t_hd_dat :: int
  t_su_dat :: int
  t_r :: int
  t_f :: int
  t_su_sto :: int
  t_start_timeout :: int
  t_byte_timeout :: int
  t_bit_timeout :: int
  t_ack_start_timeout :: int
  t_ack_timeout :: int

definition kTiming100k :: i2c_timing where
  "kTiming100k = \<lparr>t_buf = 5, t_hd_sta = 4, t_low = 5, t_high = 4, t_su_sta = 5, t_hd_dat = 1, t_su_dat = 2, t_r = 2, t_f = 2,
     t_su_sto = 4, t_start_timeout = 5, t_byte_timeout = 5, t_bit_timeout = 5, t_ack_start_timeout = 5, t_ack_timeout = 5\<rparr>"

definition kTiming400k :: i2c_timing where
  "kTiming400k = \<lparr>t_buf = 2, t_hd_sta = 1, t_low = 2, t_high = 1, t_su_sta = 1, t_hd_dat = 0, t_su_dat = 1, t_r = 1, t_f = 1,
     t_su_sto = 1, t_start_timeout = 2, t_byte_timeout = 2, t_bit_timeout = 2, t_ack_start_timeout = 2, t_ack_timeout = 2\<rparr>"

text \<open>\<open>system_clock\<close> stands for \<open>system_time()\<close>. A \<open>send_receive\<close> hook gets the slave address, the bytes to write and
  the buffer to read into, and returns the buffer.\<close>

record 'c i2c_bus =
  timing :: i2c_timing
  set_signals :: "bool \<Rightarrow> bool \<Rightarrow> 'c \<Rightarrow> 'c"
  get_signals :: "'c \<Rightarrow> (bool \<times> bool) \<times> 'c"
  system_clock :: "'c \<Rightarrow> int \<times> 'c"
  send_receive :: "(nat \<Rightarrow> nat list \<Rightarrow> nat list \<Rightarrow> 'c \<Rightarrow> (status_t \<times> nat list \<times> 'c) option) option"

section \<open>Signals\<close>

partial_function (option) spin_until :: "'c i2c_bus \<Rightarrow> int \<Rightarrow> int \<Rightarrow> 'c \<Rightarrow> 'c option" where
  "spin_until bus startTime delay w =
     (let (now, w) = system_clock bus w
      in if now - startTime < delay then spin_until bus startTime delay w else Some w)"

definition spin :: "'c i2c_bus \<Rightarrow> int \<Rightarrow> 'c \<Rightarrow> 'c option" where
  "spin bus delay w = (let (startTime, w) = system_clock bus w in spin_until bus startTime delay w)"

partial_function (option) clk_loop :: "'c i2c_bus \<Rightarrow> int \<Rightarrow> int \<Rightarrow> 'c \<Rightarrow> (status_t \<times> 'c) option" where
  "clk_loop bus timeout startTime w =
     (let ((clk, data), w) = get_signals bus w
      in if clk then Some (B_OK, w)
         else
           let (now, w) = system_clock bus w
           in if timeout < now - startTime then Some (B_TIMEOUT, w)
              else do { w \<leftarrow> spin bus (t_r (timing bus)) w; clk_loop bus timeout startTime w })"

definition wait_for_clk :: "'c i2c_bus \<Rightarrow> int \<Rightarrow> 'c \<Rightarrow> (status_t \<times> 'c) option" where
  "wait_for_clk bus timeout w =
     do {
       w \<leftarrow> spin bus (t_r (timing bus)) w;
       let (startTime, w) = system_clock bus w;
       clk_loop bus timeout startTime w
     }"

definition send_start_condition :: "'c i2c_bus \<Rightarrow> 'c \<Rightarrow> (status_t \<times> 'c) option" where
  "send_start_condition bus w =
     do {
       (st, w) \<leftarrow> wait_for_clk bus (t_start_timeout (timing bus)) (set_signals bus True True w);
       if st \<noteq> B_OK then Some (st, w)
       else do {
         w \<leftarrow> spin bus (t_su_sta (timing bus)) w;
         w \<leftarrow> spin bus (t_hd_sta (timing bus)) (set_signals bus True False w);
         w \<leftarrow> spin bus (t_f (timing bus)) (set_signals bus False False w);
         Some (B_OK, w)
       }
     }"

definition send_stop_condition :: "'c i2c_bus \<Rightarrow> 'c \<Rightarrow> (status_t \<times> 'c) option" where
  "send_stop_condition bus w =
     do {
       w \<leftarrow> spin bus (t_r (timing bus)) (set_signals bus False False w);
       (st, w) \<leftarrow> wait_for_clk bus (t_ack_timeout (timing bus)) (set_signals bus True False w);
       if st \<noteq> B_OK then Some (st, w)
       else do {
         w \<leftarrow> spin bus (t_su_sto (timing bus)) w;
         w \<leftarrow> spin bus (t_buf (timing bus)) (set_signals bus True True w);
         Some (B_OK, w)
       }
     }"

text \<open>The bit is the lowest one of the argument.\<close>

definition send_bit :: "'c i2c_bus \<Rightarrow> nat \<Rightarrow> int \<Rightarrow> 'c \<Rightarrow> (status_t \<times> 'c) option" where
  "send_bit bus b timeout w =
     do {
       w \<leftarrow> spin bus (t_su_dat (timing bus)) (set_signals bus False (odd b) w);
       (st, w) \<leftarrow> wait_for_clk bus timeout (set_signals bus True (odd b) w);
       if st \<noteq> B_OK then Some (st, w)
       else do {
         w \<leftarrow> spin bus (t_high (timing bus)) w;
         w \<leftarrow> spin bus (t_f (timing bus) + t_low (timing bus)) (set_signals bus False (odd b) w);
         Some (B_OK, w)
       }
     }"

partial_function (option) ack_loop :: "'c i2c_bus \<Rightarrow> int \<Rightarrow> 'c \<Rightarrow> (status_t \<times> 'c) option" where
  "ack_loop bus startTime w =
     (let ((clk, data), w) = get_signals bus w
      in if \<not> data then Some (B_OK, w)
         else
           let (now, w) = system_clock bus w
           in if t_ack_timeout (timing bus) < now - startTime then Some (B_TIMEOUT, w)
              else do { w \<leftarrow> spin bus (t_r (timing bus)) w; ack_loop bus startTime w })"

definition send_acknowledge :: "'c i2c_bus \<Rightarrow> 'c \<Rightarrow> (status_t \<times> 'c) option" where
  "send_acknowledge bus w =
     do {
       w \<leftarrow> spin bus (t_su_dat (timing bus)) (set_signals bus False True w);
       (st, w) \<leftarrow> wait_for_clk bus (t_ack_start_timeout (timing bus)) (set_signals bus True True w);
       if st \<noteq> B_OK then Some (st, w)
       else do {
         let (startTime, w) = system_clock bus w;
         (st, w) \<leftarrow> ack_loop bus startTime w;
         if st \<noteq> B_OK then Some (st, w)
         else do {
           w \<leftarrow> spin bus (t_high (timing bus)) w;
           w \<leftarrow> spin bus (t_f (timing bus) + t_low (timing bus)) (set_signals bus False True w);
           Some (B_OK, w)
         }
       }
     }"

section \<open>Bytes\<close>

text \<open>The timeout of bit \<open>i\<close> of a byte.\<close>

definition bit_wait :: "'c i2c_bus \<Rightarrow> nat \<Rightarrow> int" where
  "bit_wait bus i = (if i = 7 then t_byte_timeout (timing bus) else t_bit_timeout (timing bus))"

fun send_bits :: "'c i2c_bus \<Rightarrow> nat \<Rightarrow> nat list \<Rightarrow> 'c \<Rightarrow> (status_t \<times> 'c) option" where
  "send_bits bus byte [] w = Some (B_OK, w)"
| "send_bits bus byte (i # is) w =
     do {
       (st, w) \<leftarrow> send_bit bus (drop_bit i byte) (bit_wait bus i) w;
       if st \<noteq> B_OK then Some (st, w) else send_bits bus byte is w
     }"

definition send_byte :: "'c i2c_bus \<Rightarrow> nat \<Rightarrow> bool \<Rightarrow> 'c \<Rightarrow> (status_t \<times> 'c) option" where
  "send_byte bus byte acknowledge w =
     do {
       (st, w) \<leftarrow> send_bits bus byte (rev [0..<8]) w;
       if st \<noteq> B_OK then Some (st, w)
       else if acknowledge then send_acknowledge bus w else Some (B_OK, w)
     }"

text \<open>\<open>slaveAddress\<close> is a \<open>uint8\<close>.\<close>

definition send_slave_address :: "'c i2c_bus \<Rightarrow> nat \<Rightarrow> bool \<Rightarrow> 'c \<Rightarrow> (status_t \<times> 'c) option" where
  "send_slave_address bus slaveAddress isWrite w =
     do {
       (st, w) \<leftarrow> send_byte bus ((slaveAddress AND 0xfe) OR (if isWrite then 0 else 1)) True w;
       if st \<noteq> B_OK then Some (st, w)
       else if slaveAddress AND 0xff \<noteq> 0 \<and> slaveAddress AND 0xf8 \<noteq> 0xf0 then Some (B_OK, w)
       else send_byte bus (drop_bit 8 slaveAddress) True w
     }"

definition receive_bit :: "'c i2c_bus \<Rightarrow> bool \<Rightarrow> int \<Rightarrow> 'c \<Rightarrow> (status_t \<times> bool \<times> 'c) option" where
  "receive_bit bus b timeout w =
     do {
       (st, w) \<leftarrow> wait_for_clk bus timeout (set_signals bus True True w);
       if st \<noteq> B_OK then Some (st, b, w)
       else do {
         let ((clk, data), w) = get_signals bus w;
         w \<leftarrow> spin bus (t_high (timing bus)) w;
         w \<leftarrow> spin bus (t_f (timing bus) + t_low (timing bus)) (set_signals bus False True w);
         Some (B_OK, data, w)
       }
     }"

text \<open>The bits of a byte; \<open>byte\<close> holds those received so far. The bit of the loop body is a new variable in
  every turn, whose value is not read before it is set.\<close>

fun receive_bits :: "'c i2c_bus \<Rightarrow> nat \<Rightarrow> nat list \<Rightarrow> 'c \<Rightarrow> (status_t \<times> nat \<times> 'c) option" where
  "receive_bits bus byte [] w = Some (B_OK, byte, w)"
| "receive_bits bus byte (i # is) w =
     do {
       (st, b, w) \<leftarrow> receive_bit bus False (bit_wait bus i) w;
       if st \<noteq> B_OK then Some (st, byte, w) else receive_bits bus (u8 (push_bit 1 byte OR of_bool b)) is w
     }"

text \<open>\<open>old\<close> is what the place of the result holds.\<close>

definition receive_byte :: "'c i2c_bus \<Rightarrow> nat \<Rightarrow> bool \<Rightarrow> 'c \<Rightarrow> (status_t \<times> nat \<times> 'c) option" where
  "receive_byte bus old acknowledge w =
     do {
       (st, byte, w) \<leftarrow> receive_bits bus 0 (rev [0..<8]) (set_signals bus False True w);
       if st \<noteq> B_OK then Some (st, old, w)
       else do {
         (st, w) \<leftarrow> send_bit bus (if acknowledge then 0 else 1) (t_bit_timeout (timing bus)) w;
         Some (st, byte, w)
       }
     }"

fun send_bytes :: "'c i2c_bus \<Rightarrow> nat list \<Rightarrow> 'c \<Rightarrow> (status_t \<times> 'c) option" where
  "send_bytes bus [] w = Some (B_OK, w)"
| "send_bytes bus (b # bs) w =
     do {
       (st, w) \<leftarrow> send_byte bus b True w;
       if st \<noteq> B_OK then Some (st, w) else send_bytes bus bs w
     }"

fun receive_bytes :: "'c i2c_bus \<Rightarrow> nat list \<Rightarrow> 'c \<Rightarrow> (status_t \<times> nat list \<times> 'c) option" where
  "receive_bytes bus [] w = Some (B_OK, [], w)"
| "receive_bytes bus (b # bs) w =
     do {
       (st, b, w) \<leftarrow> receive_byte bus b (bs \<noteq> []) w;
       if st \<noteq> B_OK then Some (st, b # bs, w)
       else do { (st, bs, w) \<leftarrow> receive_bytes bus bs w; Some (st, b # bs, w) }
     }"

section \<open>Transactions\<close>

text \<open>The end of a failed transaction: a stop condition whose own failure is ignored.\<close>

definition cancel_transmission :: "'c i2c_bus \<Rightarrow> status_t \<Rightarrow> nat list \<Rightarrow> 'c \<Rightarrow> (status_t \<times> nat list \<times> 'c) option" where
  "cancel_transmission bus st buf w = do { (_, w) \<leftarrow> send_stop_condition bus w; Some (st, buf, w) }"

definition i2c_send_receive_callback ::
  "'c i2c_bus \<Rightarrow> nat \<Rightarrow> nat list \<Rightarrow> nat list \<Rightarrow> 'c \<Rightarrow> (status_t \<times> nat list \<times> 'c) option" where
  "i2c_send_receive_callback bus slaveAddress writeBuffer readBuffer w =
     (let slaveAddress = u32 (push_bit 1 slaveAddress)
      in if 0xff < slaveAddress then Some (B_BAD_VALUE, readBuffer, w)
         else do {
           (st, w) \<leftarrow> send_start_condition bus w;
           if st \<noteq> B_OK then Some (st, readBuffer, w)
           else do {
             (st, w) \<leftarrow> send_slave_address bus slaveAddress True w;
             if st \<noteq> B_OK then cancel_transmission bus st readBuffer w
             else do {
               (st, w) \<leftarrow> send_bytes bus writeBuffer w;
               if st \<noteq> B_OK then cancel_transmission bus st readBuffer w
               else do {
                 (st, w) \<leftarrow> send_start_condition bus w;
                 if st \<noteq> B_OK then Some (st, readBuffer, w)
                 else do {
                   (st, w) \<leftarrow> send_slave_address bus slaveAddress False w;
                   if st \<noteq> B_OK then cancel_transmission bus st readBuffer w
                   else do {
                     (st, readBuffer, w) \<leftarrow> receive_bytes bus readBuffer w;
                     if st \<noteq> B_OK then cancel_transmission bus st readBuffer w
                     else do { (st, w) \<leftarrow> send_stop_condition bus w; Some (st, readBuffer, w) }
                   }
                 }
               }
             }
           }
         })"

definition i2c_get100k_timing :: i2c_timing where
  "i2c_get100k_timing = kTiming100k"

definition i2c_get400k_timing :: i2c_timing where
  "i2c_get400k_timing = kTiming400k"

section \<open>What is seen on the lines\<close>

text \<open>A level of the two lines is the pair of clock and data. A bit is the level of the data line over a whole high
  period of the clock; a change of the data line while the clock is high is a start or stop condition.\<close>

datatype symbol = Start | Stop | Bit bool

text \<open>The observer keeps the symbols, the clock, the data line, and whether the high period has had no condition.\<close>

fun observe :: "bool \<times> bool \<Rightarrow> symbol list \<times> bool \<times> bool \<times> bool \<Rightarrow> symbol list \<times> bool \<times> bool \<times> bool" where
  "observe (c', d') (syms, c, d, steady) =
     (if c \<and> c' then
        (if d \<and> \<not> d' then (syms @ [Start], True, False, False)
         else if \<not> d \<and> d' then (syms @ [Stop], True, True, False)
         else (syms, True, d, steady))
      else if c then (if steady then syms @ [Bit d] else syms, False, d', False)
      else (syms, c', d', c'))"

definition watch :: "(bool \<times> bool) list \<Rightarrow> symbol list \<times> bool \<times> bool \<times> bool" where
  "watch levels = fold observe levels ([], True, True, False)"

definition seen :: "(bool \<times> bool) list \<Rightarrow> symbol list" where
  "seen levels = fst (watch levels)"

definition clock_low :: "(bool \<times> bool) list \<Rightarrow> bool" where
  "clock_low levels \<longleftrightarrow> \<not> fst (snd (watch levels))"

text \<open>Both lines released, and the last high period ended by a condition.\<close>

definition bus_idle :: "(bool \<times> bool) list \<Rightarrow> bool" where
  "bus_idle levels \<longleftrightarrow> snd (watch levels) = (True, True, False)"

lemma watch_append: "watch (xs @ ys) = fold observe ys (watch xs)"
  by (simp add: watch_def)

lemma watch_low: "clock_low l \<longleftrightarrow> (\<exists>d s. watch l = (seen l, False, d, s))"
  by (cases "watch l") (auto simp: clock_low_def seen_def)

lemma watch_idle: "bus_idle l \<longleftrightarrow> watch l = (seen l, True, True, False)"
  by (cases "watch l") (auto simp: bus_idle_def seen_def)

text \<open>The symbols of a byte with the slot of its acknowledge, in which the master releases the data line.\<close>

definition byte_symbols :: "nat \<Rightarrow> symbol list" where
  "byte_symbols b = map Bit (to_bits 8 b) @ [Bit True]"

definition address_symbols :: "nat \<Rightarrow> bool \<Rightarrow> symbol list" where
  "address_symbols a wr =
     byte_symbols ((a AND 0xfe) OR (if wr then 0 else 1))
     @ (if a AND 0xff \<noteq> 0 \<and> a AND 0xf8 \<noteq> 0xf0 then [] else byte_symbols (drop_bit 8 a))"

text \<open>The slots of \<open>n\<close> bytes that the slave sends: eight released bits, and the master's acknowledge, negative for
  the last byte.\<close>

fun read_symbols :: "nat \<Rightarrow> symbol list" where
  "read_symbols 0 = []"
| "read_symbols (Suc n) = replicate 8 (Bit True) @ [Bit (n = 0)] @ read_symbols n"

definition i2c_frame :: "nat \<Rightarrow> nat list \<Rightarrow> nat \<Rightarrow> symbol list" where
  "i2c_frame a bytes n =
     [Start] @ address_symbols (2 * a) True @ concat (map byte_symbols bytes)
     @ [Start] @ address_symbols (2 * a) False @ read_symbols n @ [Stop]"

section \<open>Results of partial operations\<close>

text \<open>\<open>all_results m P\<close>: every result of \<open>m\<close> satisfies \<open>P\<close>. The rules follow the text of an operation.\<close>

definition all_results :: "'a option \<Rightarrow> ('a \<Rightarrow> bool) \<Rightarrow> bool" where
  "all_results m P \<longleftrightarrow> (\<forall>r. m = Some r \<longrightarrow> P r)"

named_theorems results \<open>rules for the results of an operation\<close>

lemma results_Some [results]: "P r \<Longrightarrow> all_results (Some r) P"
  by (simp add: all_results_def)

lemma results_bind [results]: "all_results m (\<lambda>x. all_results (k x) P) \<Longrightarrow> all_results (m \<bind> k) P"
  by (auto simp: all_results_def bind_eq_Some_conv)

lemma results_if [results]:
  "(b \<Longrightarrow> all_results m P) \<Longrightarrow> (\<not> b \<Longrightarrow> all_results n P) \<Longrightarrow> all_results (if b then m else n) P"
  by simp

lemma results_pair [results]: "all_results (f a b) P \<Longrightarrow> all_results (case (a, b) of (x, y) \<Rightarrow> f x y) P"
  by simp

lemma results_case [results]: "(\<And>a b. r = (a, b) \<Longrightarrow> P a b) \<Longrightarrow> case r of (a, b) \<Rightarrow> P a b"
  by (cases r) simp

lemma all_resultsD: "all_results m P \<Longrightarrow> m = Some r \<Longrightarrow> P r"
  by (simp add: all_results_def)

lemma all_results_weaken: "all_results m P \<Longrightarrow> (\<And>r. P r \<Longrightarrow> Q r) \<Longrightarrow> all_results m Q"
  by (simp add: all_results_def)

section \<open>The signals of the operations\<close>

text \<open>What the master relies on: the outside records the levels it is given, and only those.\<close>

locale i2c_signals =
  fixes bus :: "'c i2c_bus" and log :: "'c \<Rightarrow> (bool \<times> bool) list"
  assumes log_set [simp]: "log (set_signals bus c d w) = log w @ [(c, d)]"
    and log_get: "log (snd (get_signals bus w)) = log w"
    and log_clock: "log (snd (system_clock bus w)) = log w"
begin

lemma results_clock [results]:
  "(\<And>t w'. log w' = log w \<Longrightarrow> all_results (k t w') P) \<Longrightarrow> all_results (let (t, w) = system_clock bus w in k t w) P"
  using log_clock [of w] by (cases "system_clock bus w") simp

lemma results_get [results]:
  "(\<And>c d w'. log w' = log w \<Longrightarrow> all_results (k c d w') P) \<Longrightarrow> all_results (let ((c, d), w) = get_signals bus w in k c d w) P"
  using log_get [of w] by (cases "get_signals bus w") (auto split: prod.splits)

lemma spin_until_log: "spin_until b t d w = Some w' \<Longrightarrow> b = bus \<Longrightarrow> log w' = log w"
proof (induction b t d w w' rule: spin_until.raw_induct [rotated, consumes 1, case_names step])
  case (step loop b t d w w')
  have b: "b = bus" by (rule step(3))
  have "all_results (let (now, w) = system_clock bus w in if now - t < d then loop bus t d w else Some w) (\<lambda>w'. log w' = log w)"
    by (intro results) (use step in \<open>auto simp: all_results_def\<close>)
  then show ?case using step(2) unfolding b by (rule all_resultsD)
qed

lemma results_spin [results]: "(\<And>w'. log w' = log w \<Longrightarrow> P w') \<Longrightarrow> all_results (spin bus d w) P"
  unfolding spin_def
  by (intro results) (auto simp: all_results_def dest!: spin_until_log)

definition waited :: "'c \<Rightarrow> status_t \<times> 'c \<Rightarrow> bool" where
  "waited w r \<longleftrightarrow> log (snd r) = log w \<and> fst r \<in> {B_OK, B_TIMEOUT}"

lemma clk_loop_log: "clk_loop b to t w = Some r \<Longrightarrow> b = bus \<Longrightarrow> waited w r"
proof (induction b to t w r rule: clk_loop.raw_induct [rotated, consumes 1, case_names step])
  case (step loop b to t w r)
  have b: "b = bus" by (rule step(3))
  have "all_results (let ((clk, data), w) = get_signals bus w in if clk then Some (B_OK, w)
      else let (now, w) = system_clock bus w in if to < now - t then Some (B_TIMEOUT, w)
        else do { w \<leftarrow> spin bus (t_r (timing bus)) w; loop bus to t w }) (waited w)"
    by (intro results) (use step in \<open>auto simp: waited_def all_results_def\<close>)
  then show ?case using step(2) unfolding b by (rule all_resultsD)
qed

lemma ack_loop_log: "ack_loop b t w = Some r \<Longrightarrow> b = bus \<Longrightarrow> waited w r"
proof (induction b t w r rule: ack_loop.raw_induct [rotated, consumes 1, case_names step])
  case (step loop b t w r)
  have b: "b = bus" by (rule step(3))
  have "all_results (let ((clk, data), w) = get_signals bus w in if \<not> data then Some (B_OK, w)
      else let (now, w) = system_clock bus w in if t_ack_timeout (timing bus) < now - t then Some (B_TIMEOUT, w)
        else do { w \<leftarrow> spin bus (t_r (timing bus)) w; loop bus t w }) (waited w)"
    by (intro results) (use step in \<open>auto simp: waited_def all_results_def\<close>)
  then show ?case using step(2) unfolding b by (rule all_resultsD)
qed

lemma results_loops [results]:
  "(\<And>st w'. log w' = log w \<Longrightarrow> st = B_OK \<or> st = B_TIMEOUT \<Longrightarrow> P (st, w')) \<Longrightarrow> all_results (clk_loop bus to t w) P"
  "(\<And>st w'. log w' = log w \<Longrightarrow> st = B_OK \<or> st = B_TIMEOUT \<Longrightarrow> P (st, w')) \<Longrightarrow> all_results (ack_loop bus t w) P"
  using clk_loop_log [OF _ refl] ack_loop_log [OF _ refl] by (force simp: all_results_def waited_def)+

lemma results_wait [results]:
  "(\<And>st w'. log w' = log w \<Longrightarrow> st = B_OK \<or> st = B_TIMEOUT \<Longrightarrow> P (st, w')) \<Longrightarrow> all_results (wait_for_clk bus to w) P"
  unfolding wait_for_clk_def by (intro results) simp_all

text \<open>The levels that each operation puts on the lines: all of them, or those before a timeout.\<close>

definition puts :: "(bool \<times> bool) list \<Rightarrow> (bool \<times> bool) list \<Rightarrow> 'c \<Rightarrow> status_t \<times> 'c \<Rightarrow> bool" where
  "puts ok failed w r \<longleftrightarrow> (fst r = B_OK \<and> log (snd r) = log w @ ok) \<or> (fst r = B_TIMEOUT \<and> log (snd r) = log w @ failed)"

lemma start_levels:
  "all_results (send_start_condition bus w) (puts [(True, True), (True, False), (False, False)] [(True, True)] w)"
  unfolding send_start_condition_def by (intro results) (auto simp: puts_def)

lemma stop_levels:
  "all_results (send_stop_condition bus w) (puts [(False, False), (True, False), (True, True)] [(False, False), (True, False)] w)"
  unfolding send_stop_condition_def by (intro results) (auto simp: puts_def)

lemma bit_levels:
  "all_results (send_bit bus b to w) (puts [(False, odd b), (True, odd b), (False, odd b)] [(False, odd b), (True, odd b)] w)"
  unfolding send_bit_def by (intro results) (auto simp: puts_def)

lemma acknowledge_levels:
  "all_results (send_acknowledge bus w) (puts [(False, True), (True, True), (False, True)] [(False, True), (True, True)] w)"
  unfolding send_acknowledge_def by (intro results) (auto simp: puts_def)

lemma receive_bit_levels:
  "all_results (receive_bit bus old to w) (\<lambda>(st, b, w'). puts [(True, True), (False, True)] [(True, True)] w (st, w'))"
  unfolding receive_bit_def by (intro results) (auto simp: puts_def)


section \<open>The symbols of the operations\<close>

text \<open>From a low clock, a sender either sends all its symbols and leaves the clock low, or times out, and what is
  seen once the clock falls is a part of its symbols.\<close>

definition sends :: "symbol list \<Rightarrow> 'c \<Rightarrow> status_t \<times> 'c \<Rightarrow> bool" where
  "sends fr w r \<longleftrightarrow>
     (if fst r = B_OK then clock_low (log (snd r)) \<and> seen (log (snd r)) = seen (log w) @ fr
      else fst r = B_TIMEOUT \<and> (\<exists>k. seen (log (snd r) @ [(False, False)]) = seen (log w) @ take k fr))"

definition transmits :: "('c \<Rightarrow> (status_t \<times> 'c) option) \<Rightarrow> symbol list \<Rightarrow> bool" where
  "transmits f fr \<longleftrightarrow> (\<forall>w. clock_low (log w) \<longrightarrow> all_results (f w) (sends fr w))"

lemma puts_sends:
  assumes "clock_low (log w)" and "puts ok failed w r"
    and "\<And>d s. fold observe ok (seen (log w), False, d, s) = (seen (log w) @ fr, False, d', s')"
    and "\<And>d s. fst (fold observe (failed @ [(False, False)]) (seen (log w), False, d, s)) = seen (log w) @ take k fr"
  shows "sends fr w r"
proof -
  obtain d s where w: "watch (log w) = (seen (log w), False, d, s)" using assms(1) by (auto simp: watch_low)
  show ?thesis
  proof (cases "fst r = B_OK")
    case True
    then have "watch (log (snd r)) = (seen (log w) @ fr, False, d', s')"
      using assms(2,3) by (auto simp: puts_def watch_append w)
    then show ?thesis using True by (simp add: sends_def seen_def clock_low_def)
  next
    case False
    then have "seen (log (snd r) @ [(False, False)]) = seen (log w) @ take k fr"
      using assms(2) assms(4) [of d s] by (auto simp: puts_def seen_def [of "_ @ _"] watch_append w)
    then show ?thesis using False assms(2) by (auto simp: sends_def puts_def)
  qed
qed

lemma transmits_done: "transmits (\<lambda>w. Some (B_OK, w)) []"
  by (simp add: transmits_def all_results_def sends_def)

lemma sends_then: "sends fr w (B_OK, w1) \<Longrightarrow> sends gr w1 r \<Longrightarrow> sends (fr @ gr) w r"
proof -
  have later: "\<exists>k'. fr @ take k gr = take k' (fr @ gr)" for k
    by (rule exI [of _ "length fr + k"]) simp
  assume "sends fr w (B_OK, w1)" "sends gr w1 r"
  then show ?thesis by (auto simp: sends_def later simp del: take_append split: if_splits)
qed

lemma sends_failed: "sends fr w (st, w1) \<Longrightarrow> st \<noteq> B_OK \<Longrightarrow> sends (fr @ gr) w (st, w1)"
proof -
  have "take k fr = take (min k (length fr)) (fr @ gr)" for k by (simp add: min_def)
  then show "sends fr w (st, w1) \<Longrightarrow> st \<noteq> B_OK \<Longrightarrow> sends (fr @ gr) w (st, w1)"
    by (simp add: sends_def del: take_append) metis
qed

lemmas sends_Cons = sends_then [where fr = "[x]" for x, simplified] sends_failed [where fr = "[x]" for x, simplified]

lemma sends_low: "sends fr w (B_OK, w1) \<Longrightarrow> clock_low (log w1)"
  by (simp add: sends_def)

lemma transmitsD: "transmits f fr \<Longrightarrow> clock_low (log w) \<Longrightarrow> (\<And>st w'. sends fr w (st, w') \<Longrightarrow> P (st, w')) \<Longrightarrow> all_results (f w) P"
  by (auto simp: transmits_def intro: all_results_weaken)

lemma transmits_then:
  assumes "transmits f fr" and "transmits g gr"
  shows "transmits (\<lambda>w. do { (st, w) \<leftarrow> f w; if st \<noteq> B_OK then Some (st, w) else g w }) (fr @ gr)"
  unfolding transmits_def
  by (intro allI impI results transmitsD [OF assms(1)] transmitsD [OF assms(2)])
    (auto intro: sends_failed sends_low sends_then)

lemma transmits_bit: "transmits (send_bit bus b to) [Bit (odd b)]"
  unfolding transmits_def
  by (auto intro!: all_results_weaken [OF bit_levels] puts_sends [where k = 1])

lemma transmits_acknowledge: "transmits (send_acknowledge bus) [Bit True]"
  unfolding transmits_def
  by (auto intro!: all_results_weaken [OF acknowledge_levels] puts_sends [where k = 1])

lemma transmits_bits: "transmits (send_bits bus byte is) (map (\<lambda>i. Bit (bit byte i)) is)"
proof (induction "is")
  case Nil
  then show ?case using transmits_done by simp
next
  case (Cons i "is")
  have "odd (drop_bit i byte) = bit byte i" by (simp add: bit_iff_odd_drop_bit)
  with transmits_then [OF transmits_bit [of "drop_bit i byte" "bit_wait bus i"] Cons] show ?case by simp
qed

lemma byte_bits_sent: "map (\<lambda>i. Bit (bit byte i)) (rev [0..<8]) = map Bit (to_bits 8 byte)"
  by (simp add: to_bits_def upt_rec eval_nat_numeral)

lemma send_byte_eq:
  "send_byte bus byte True = (\<lambda>w. do { (st, w) \<leftarrow> send_bits bus byte (rev [0..<8]) w;
     if st \<noteq> B_OK then Some (st, w) else send_acknowledge bus w })"
  by (rule ext) (simp only: send_byte_def if_True)

lemma transmits_byte: "transmits (send_byte bus byte True) (byte_symbols byte)"
  using transmits_then [OF transmits_bits [of byte "rev [0..<8]"] transmits_acknowledge]
  unfolding byte_bits_sent byte_symbols_def send_byte_eq .

lemma transmits_bytes: "transmits (send_bytes bus bs) (concat (map byte_symbols bs))"
proof (induction bs)
  case Nil
  then show ?case using transmits_done by simp
next
  case (Cons b bs)
  with transmits_then [OF transmits_byte [of b] Cons] show ?case by simp
qed

lemma transmits_address: "transmits (send_slave_address bus a wr) (address_symbols a wr)"
proof -
  let ?b = "(a AND 0xfe) OR (if wr then 0 else 1)" and ?last = "a AND 0xff \<noteq> 0 \<and> a AND 0xf8 \<noteq> 0xf0"
  have "transmits (\<lambda>w. if P then Some (B_OK, w) else send_byte bus (drop_bit 8 a) True w)
      (if P then [] else byte_symbols (drop_bit 8 a))" for P
    using transmits_done transmits_byte [of "drop_bit 8 a"] by (cases P) simp_all
  from transmits_then [OF transmits_byte [of ?b] this [of ?last]] show ?thesis
    unfolding address_symbols_def send_slave_address_def [abs_def] .
qed

text \<open>A receiver is a sender of released bits.\<close>

lemma receive_bit_sends:
  "clock_low (log w) \<Longrightarrow> all_results (receive_bit bus old to w) (\<lambda>(st, b, w'). sends [Bit True] w (st, w'))"
  by (rule all_results_weaken [OF receive_bit_levels]) (auto intro!: puts_sends [where k = 1])

lemma receive_bits_sends:
  "clock_low (log w) \<Longrightarrow>
     all_results (receive_bits bus byte is w) (\<lambda>(st, b, w'). sends (replicate (length is) (Bit True)) w (st, w'))"
proof (induction "is" arbitrary: byte w)
  case Nil
  then show ?case by (auto simp: sends_def intro!: results)
next
  case (Cons i "is")
  have "all_results (receive_bits bus byte (i # is) w) (\<lambda>(st, b, w'). sends ([Bit True] @ replicate (length is) (Bit True)) w (st, w'))"
    unfolding receive_bits.simps
    by (intro results all_results_weaken [OF receive_bit_sends [OF Cons.prems]])
      (auto intro!: results sends_Cons(2) all_results_weaken [OF Cons.IH] dest: sends_low elim!: sends_Cons(1))
  then show ?case by simp
qed

lemma release_low:
  "clock_low (log w) \<Longrightarrow> clock_low (log (set_signals bus False d w)) \<and> seen (log (set_signals bus False d w)) = seen (log w)"
proof -
  assume "clock_low (log w)"
  then have "watch (log (set_signals bus False d w)) = (seen (log w), False, d, False)"
    by (auto simp: watch_low watch_append)
  then show ?thesis by (simp add: seen_def clock_low_def)
qed

lemma receive_byte_sends:
  assumes "clock_low (log w)"
  shows "all_results (receive_byte bus old a w) (\<lambda>(st, b, w'). sends (replicate 8 (Bit True) @ [Bit (\<not> a)]) w (st, w'))"
proof -
  let ?w = "set_signals bus False True w"
  have eq: "sends fr ?w = sends fr w" for fr
    using release_low [OF assms] by (simp add: sends_def fun_eq_iff)
  note bits = receive_bits_sends [of ?w 0 "rev [0..<8]"]
  have ack: "transmits (send_bit bus (if a then 0 else 1) to) [Bit (\<not> a)]" for to
    using transmits_bit [of "if a then 0 else 1"] by (cases a) simp_all
  show ?thesis
    unfolding receive_byte_def
  proof (intro results, rule all_results_weaken [OF bits])
    show "clock_low (log ?w)" using release_low [OF assms] by blast
    fix r :: "status_t \<times> nat \<times> 'c"
    assume r: "case r of (st, b, w') \<Rightarrow> sends (replicate (length (rev [0..<8])) (Bit True)) ?w (st, w')"
    obtain st byte w1 where r': "r = (st, byte, w1)" by (cases r)
    have s: "sends (replicate 8 (Bit True)) w (st, w1)" using r by (simp add: r' eq)
    show "all_results (case r of (st, byte, w) \<Rightarrow> if st \<noteq> B_OK then Some (st, old, w)
        else do { (st, w) \<leftarrow> send_bit bus (if a then 0 else 1) (t_bit_timeout (timing bus)) w; Some (st, byte, w) })
      (\<lambda>(st, b, w'). sends (replicate 8 (Bit True) @ [Bit (\<not> a)]) w (st, w'))"
    proof (cases "st = B_OK")
      case True
      with s have sent: "all_results (send_bit bus (if a then 0 else 1) to w1) (sends (replicate 8 (Bit True) @ [Bit (\<not> a)]) w)" for to
        by (intro transmitsD [OF ack]) (auto dest: sends_low sends_then)
      have "all_results (do { (st, w) \<leftarrow> send_bit bus (if a then 0 else 1) to w1; Some (st, byte, w) })
          (\<lambda>(st, b, w'). sends (replicate 8 (Bit True) @ [Bit (\<not> a)]) w (st, w'))" for to
        by (intro results all_results_weaken [OF sent]) (auto intro!: results)
      then show ?thesis unfolding r' True by (simp only: prod.case simp_thms if_False)
    next
      case False
      then show ?thesis using s by (auto simp: r' intro!: results sends_failed)
    qed
  qed
qed

lemma receive_bytes_sends:
  "clock_low (log w) \<Longrightarrow> all_results (receive_bytes bus bs w) (\<lambda>(st, b, w'). sends (read_symbols (length bs)) w (st, w'))"
proof (induction bs arbitrary: w)
  case Nil
  then show ?case by (auto simp: sends_def intro!: results)
next
  case (Cons b bs)
  have "all_results (receive_bytes bus (b # bs) w)
      (\<lambda>(st, b, w'). sends ((replicate 8 (Bit True) @ [Bit (bs = [])]) @ read_symbols (length bs)) w (st, w'))"
    unfolding receive_bytes.simps
    by (intro results all_results_weaken [OF receive_byte_sends [OF Cons.prems]])
      (auto intro!: results sends_failed all_results_weaken [OF Cons.IH] dest: sends_low elim!: sends_then simp del: append_assoc)
  then show ?case by simp
qed

section \<open>Transactions on the lines\<close>

lemma stop_seen:
  "all_results (send_stop_condition bus w) (\<lambda>(st, w'). (st = B_OK \<or> st = B_TIMEOUT)
     \<and> (if st = B_OK then bus_idle (log w') \<and> seen (log w') = seen (log w @ [(False, False)]) @ [Stop]
        else seen (log w') = seen (log w @ [(False, False)])))"
proof (rule all_results_weaken [OF stop_levels])
  fix r :: "status_t \<times> 'c"
  assume p: "puts [(False, False), (True, False), (True, True)] [(False, False), (True, False)] w r"
  obtain S c d s where w: "watch (log w) = (S, c, d, s)" by (cases "watch (log w)") auto
  let ?x = "seen (log w @ [(False, False)])"
  have x: "?x = (if c \<and> s then S @ [Bit d] else S)" by (simp add: seen_def watch_append w)
  have ok: "watch (log w @ [(False, False), (True, False), (True, True)]) = (?x @ [Stop], True, True, False)"
    and failed: "watch (log w @ [(False, False), (True, False)]) = (?x, True, False, True)"
    unfolding x by (simp_all add: watch_append w)
  show "case r of (st, w') \<Rightarrow> (st = B_OK \<or> st = B_TIMEOUT)
     \<and> (if st = B_OK then bus_idle (log w') \<and> seen (log w') = ?x @ [Stop] else seen (log w') = ?x)"
  proof (cases "fst r = B_OK")
    case True
    then have "log (snd r) = log w @ [(False, False), (True, False), (True, True)]" using p by (auto simp: puts_def)
    then show ?thesis using True ok by (cases r) (simp add: bus_idle_def seen_def)
  next
    case False
    then have "log (snd r) = log w @ [(False, False), (True, False)]" "fst r = B_TIMEOUT" using p by (auto simp: puts_def)
    then show ?thesis using failed by (cases r) (simp add: seen_def)
  qed
qed

text \<open>A transaction that fails is cut short, and closed by a stop condition or not.\<close>

definition cut_short :: "symbol list \<Rightarrow> symbol list \<Rightarrow> 'c \<Rightarrow> bool" where
  "cut_short before fr w \<longleftrightarrow> (\<exists>k. seen (log w) = before @ take k fr \<or> seen (log w) = before @ take k fr @ [Stop])"

definition outcome :: "symbol list \<Rightarrow> symbol list \<Rightarrow> nat list \<Rightarrow> status_t \<times> nat list \<times> 'c \<Rightarrow> bool" where
  "outcome before fr buf r = (case r of (st, buf', w) \<Rightarrow> length buf' = length buf \<and>
     (if st = B_OK then bus_idle (log w) \<and> seen (log w) = before @ fr else st = B_TIMEOUT \<and> cut_short before fr w))"

lemma cancel_outcome:
  assumes "sends fr w (B_TIMEOUT, w1)" and "seen (log w) = before @ pre" and "length buf' = length buf"
  shows "all_results (cancel_transmission bus B_TIMEOUT buf' w1) (outcome before (pre @ fr @ post) buf)"
proof -
  obtain k where "seen (log w1 @ [(False, False)]) = before @ pre @ take k fr"
    using assms(1,2) by (auto simp: sends_def)
  moreover have "pre @ take k fr = take (length pre + min k (length fr)) (pre @ fr @ post)" by (simp add: min_def)
  ultimately have "seen (log w1 @ [(False, False)]) = before @ take (length pre + min k (length fr)) (pre @ fr @ post)"
    by (simp only:)
  then show ?thesis
    unfolding cancel_transmission_def
    by (intro results all_results_weaken [OF stop_seen])
      (auto simp: outcome_def cut_short_def assms(3) simp del: take_append append_assoc intro!: results split: if_splits)
qed

lemma sends_status: "sends fr w (st, w1) \<Longrightarrow> st \<noteq> B_OK \<Longrightarrow> st = B_TIMEOUT"
  by (simp add: sends_def)

lemma start_idle:
  assumes "bus_idle (log w)"
  shows "all_results (send_start_condition bus w) (\<lambda>(st, w'). if st = B_OK then clock_low (log w') \<and> seen (log w') = seen (log w) @ [Start]
     else st = B_TIMEOUT \<and> seen (log w') = seen (log w))"
  using assms unfolding watch_idle
  by (intro all_results_weaken [OF start_levels])
    (auto simp: puts_def watch_append clock_low_def seen_def [of "_ @ _"])

lemma start_repeated:
  assumes "clock_low (log w)"
  shows "all_results (send_start_condition bus w) (\<lambda>(st, w'). if st = B_OK then clock_low (log w') \<and> seen (log w') = seen (log w) @ [Start]
     else st = B_TIMEOUT \<and> seen (log w') = seen (log w))"
  using assms unfolding watch_low
  by (intro all_results_weaken [OF start_levels])
    (auto simp: puts_def watch_append clock_low_def seen_def [of "_ @ _"])

lemma receive_bytes_length: "all_results (receive_bytes bus bs w) (\<lambda>(st, bs', w'). length bs' = length bs)"
proof (induction bs arbitrary: w)
  case (Cons b bs)
  then show ?case by (fastforce simp: all_results_def bind_eq_Some_conv split: if_splits)
qed (auto intro!: results)

lemma results_both: "all_results m P \<Longrightarrow> all_results m Q \<Longrightarrow> all_results m (\<lambda>r. P r \<and> Q r)"
  by (simp add: all_results_def)

lemma results_status:
  "all_results (f w) (sends fr w) \<Longrightarrow>
     (\<And>w1. sends fr w (B_TIMEOUT, w1) \<Longrightarrow> all_results (h w1) P) \<Longrightarrow>
     (\<And>w1. sends fr w (B_OK, w1) \<Longrightarrow> all_results (g w1) P) \<Longrightarrow>
     all_results (do { (st, w) \<leftarrow> f w; if st \<noteq> B_OK then k st w else g w }) P"
  if "\<And>w1. k B_TIMEOUT w1 = h w1"
proof (intro results, erule all_results_weaken)
  fix r :: "status_t \<times> 'c"
  assume h: "\<And>w1. sends fr w (B_TIMEOUT, w1) \<Longrightarrow> all_results (h w1) P"
    and g: "\<And>w1. sends fr w (B_OK, w1) \<Longrightarrow> all_results (g w1) P" and s: "sends fr w r"
  obtain st w1 where r: "r = (st, w1)" by (cases r)
  show "all_results (case r of (st, w) \<Rightarrow> if st \<noteq> B_OK then k st w else g w) P"
    using s h [of w1] g [of w1] sends_status [of fr w st w1] that by (cases "st = B_OK") (simp_all add: r)
qed

text \<open>The phases of a transaction after its first start condition.\<close>

definition reading_phase :: "nat list \<Rightarrow> 'c \<Rightarrow> (status_t \<times> nat list \<times> 'c) option" where
  "reading_phase rd w = do { (st, rd, w) \<leftarrow> receive_bytes bus rd w;
      if st \<noteq> B_OK then cancel_transmission bus st rd w
      else do { (st, w) \<leftarrow> send_stop_condition bus w; Some (st, rd, w) } }"

definition addressing_phase :: "nat \<Rightarrow> nat list \<Rightarrow> 'c \<Rightarrow> (status_t \<times> nat list \<times> 'c) option" where
  "addressing_phase a rd w = do { (st, w) \<leftarrow> send_slave_address bus a False w;
      if st \<noteq> B_OK then cancel_transmission bus st rd w else reading_phase rd w }"

definition restarting_phase :: "nat \<Rightarrow> nat list \<Rightarrow> 'c \<Rightarrow> (status_t \<times> nat list \<times> 'c) option" where
  "restarting_phase a rd w = do { (st, w) \<leftarrow> send_start_condition bus w;
      if st \<noteq> B_OK then Some (st, rd, w) else addressing_phase a rd w }"

definition writing_phase :: "nat \<Rightarrow> nat list \<Rightarrow> nat list \<Rightarrow> 'c \<Rightarrow> (status_t \<times> nat list \<times> 'c) option" where
  "writing_phase a wr rd w = do { (st, w) \<leftarrow> send_bytes bus wr w;
      if st \<noteq> B_OK then cancel_transmission bus st rd w else restarting_phase a rd w }"

lemma callback_phases:
  assumes "a < 128"
  shows "i2c_send_receive_callback bus a wr rd w = do { (st, w) \<leftarrow> send_start_condition bus w;
      if st \<noteq> B_OK then Some (st, rd, w)
      else do { (st, w) \<leftarrow> send_slave_address bus (2 * a) True w;
        if st \<noteq> B_OK then cancel_transmission bus st rd w else writing_phase (2 * a) wr rd w } }"
proof -
  have a: "u32 (push_bit 1 a) = 2 * a" "\<not> 0xff < 2 * a" using assms by (simp_all add: u32_def push_bit_eq_mult)
  show ?thesis
    unfolding i2c_send_receive_callback_def Let_def a(1) writing_phase_def restarting_phase_def addressing_phase_def reading_phase_def
    using a(2) by (simp only: if_False)
qed

lemma transaction_symbols:
  assumes "bus_idle (log w)" and "a < 128"
  shows "all_results (i2c_send_receive_callback bus a wr rd w) (outcome (seen (log w)) (i2c_frame a wr (length rd)) rd)"
proof -
  let ?S = "seen (log w)" and ?F = "i2c_frame a wr (length rd)"
  let ?A = "address_symbols (2 * a) True" and ?B = "concat (map byte_symbols wr)"
    and ?A' = "address_symbols (2 * a) False" and ?R = "read_symbols (length rd)"
  have F: "?F = [Start] @ ?A @ ?B @ [Start] @ ?A' @ ?R @ [Stop]"
    "?F = ([Start] @ ?A) @ ?B @ ([Start] @ ?A' @ ?R @ [Stop])"
    "?F = ([Start] @ ?A @ ?B @ [Start]) @ ?A' @ (?R @ [Stop])"
    "?F = ([Start] @ ?A @ ?B @ [Start] @ ?A') @ ?R @ [Stop]"
    by (simp_all add: i2c_frame_def)
  have cut: "outcome ?S ?F rd (B_TIMEOUT, rd, w')" if "seen (log w') = ?S @ pre" "?F = pre @ post" for w' pre post
    using that by (auto simp: outcome_def cut_short_def intro!: exI [of _ "length pre"])
  have read: "all_results (reading_phase rd w4) (outcome ?S ?F rd)"
    if w4: "clock_low (log w4)" "seen (log w4) = ?S @ [Start] @ ?A @ ?B @ [Start] @ ?A'" for w4
    unfolding reading_phase_def
  proof (intro results all_results_weaken [OF results_both [OF receive_bytes_sends [OF w4(1), of rd] receive_bytes_length]])
    fix r :: "status_t \<times> nat list \<times> 'c"
    obtain st buf w5 where r: "r = (st, buf, w5)" by (cases r)
    assume "(case r of (st, b, w') \<Rightarrow> sends ?R w4 (st, w')) \<and> (case r of (st, bs', w') \<Rightarrow> length bs' = length rd)"
    then have s: "sends ?R w4 (st, w5)" and len: "length buf = length rd" by (simp_all add: r)
    show "all_results (case r of (st, rd, w) \<Rightarrow> if st \<noteq> B_OK then cancel_transmission bus st rd w
        else do { (st, w) \<leftarrow> send_stop_condition bus w; Some (st, rd, w) }) (outcome ?S ?F rd)"
    proof (cases "st = B_OK")
      case True
      then have seen5: "seen (log w5) = ?S @ [Start] @ ?A @ ?B @ [Start] @ ?A' @ ?R" and "clock_low (log w5)"
        using s w4(2) by (simp_all add: sends_def)
      then have x: "seen (log w5 @ [(False, False)]) = ?S @ [Start] @ ?A @ ?B @ [Start] @ ?A' @ ?R"
        using release_low [of w5 False] by simp
      have "all_results (do { (st, w) \<leftarrow> send_stop_condition bus w5; Some (st, buf, w) }) (outcome ?S ?F rd)"
      proof (intro results all_results_weaken [OF stop_seen])
        fix q :: "status_t \<times> 'c"
        obtain st w6 where q: "q = (st, w6)" by (cases q)
        assume "case q of (st, w') \<Rightarrow> (st = B_OK \<or> st = B_TIMEOUT)
          \<and> (if st = B_OK then bus_idle (log w') \<and> seen (log w') = seen (log w5 @ [(False, False)]) @ [Stop]
             else seen (log w') = seen (log w5 @ [(False, False)]))"
        moreover have "?F = ([Start] @ ?A @ ?B @ [Start] @ ?A' @ ?R) @ [Stop]" using F(1) by simp
        ultimately have "outcome ?S ?F rd (st, buf, w6)" unfolding x q
          using len cut [of w6 "[Start] @ ?A @ ?B @ [Start] @ ?A' @ ?R" "[Stop]"]
          by (cases "st = B_OK") (auto simp: outcome_def F(1))
        then show "all_results (case q of (st, w) \<Rightarrow> Some (st, buf, w)) (outcome ?S ?F rd)"
          by (auto simp: q intro: results)
      qed
      then show ?thesis by (simp add: r True)
    next
      case False
      then have "st = B_TIMEOUT" using sends_status [OF s] by simp
      then show ?thesis
        using cancel_outcome [of ?R w4 w5 ?S "[Start] @ ?A @ ?B @ [Start] @ ?A'" buf rd "[Stop]"] s len w4(2)
        by (simp add: r F(4))
    qed
  qed
  have addr: "all_results (addressing_phase (2 * a) rd w3) (outcome ?S ?F rd)"
    if w3: "clock_low (log w3)" "seen (log w3) = ?S @ [Start] @ ?A @ ?B @ [Start]" for w3
    unfolding addressing_phase_def
  proof (rule results_status [where fr = ?A', OF refl])
    show "all_results (send_slave_address bus (2 * a) False w3) (sends ?A' w3)"
      using transmits_address w3(1) by (simp add: transmits_def)
    show "all_results (cancel_transmission bus B_TIMEOUT rd w1) (outcome ?S ?F rd)" if "sends ?A' w3 (B_TIMEOUT, w1)" for w1
      using cancel_outcome [OF that w3(2) refl, where post = "?R @ [Stop]"] F(3) by simp
    show "all_results (reading_phase rd w1) (outcome ?S ?F rd)" if "sends ?A' w3 (B_OK, w1)" for w1
      using that w3(2) by (intro read) (simp_all add: sends_def)
  qed
  have start: "all_results (restarting_phase (2 * a) rd w2) (outcome ?S ?F rd)"
    if w2: "clock_low (log w2)" "seen (log w2) = ?S @ [Start] @ ?A @ ?B" for w2
    unfolding restarting_phase_def
  proof (intro results all_results_weaken [OF start_repeated [OF w2(1)]])
    fix r :: "status_t \<times> 'c"
    obtain st w3 where r: "r = (st, w3)" by (cases r)
    assume "case r of (st, w') \<Rightarrow> if st = B_OK then clock_low (log w') \<and> seen (log w') = seen (log w2) @ [Start]
        else st = B_TIMEOUT \<and> seen (log w') = seen (log w2)"
    then show "all_results (case r of (st, w) \<Rightarrow> if st \<noteq> B_OK then Some (st, rd, w) else addressing_phase (2 * a) rd w) (outcome ?S ?F rd)"
      using w2(2) cut [of w3 "[Start] @ ?A @ ?B" "[Start] @ ?A' @ ?R @ [Stop]"] F(1) addr [of w3]
      by (cases "st = B_OK") (auto simp: r intro!: results)
  qed
  have send: "all_results (writing_phase (2 * a) wr rd w1) (outcome ?S ?F rd)"
    if w1: "clock_low (log w1)" "seen (log w1) = ?S @ [Start] @ ?A" for w1
    unfolding writing_phase_def
  proof (rule results_status [where fr = ?B, OF refl])
    show "all_results (send_bytes bus wr w1) (sends ?B w1)" using transmits_bytes w1(1) by (simp add: transmits_def)
    show "all_results (cancel_transmission bus B_TIMEOUT rd w2) (outcome ?S ?F rd)" if "sends ?B w1 (B_TIMEOUT, w2)" for w2
      using cancel_outcome [OF that w1(2) refl, where post = "[Start] @ ?A' @ ?R @ [Stop]"] F(2) by simp
    show "all_results (restarting_phase (2 * a) rd w2) (outcome ?S ?F rd)" if "sends ?B w1 (B_OK, w2)" for w2
      using that w1(2) by (intro start) (simp_all add: sends_def)
  qed
  have first: "all_results (do { (st, w) \<leftarrow> send_slave_address bus (2 * a) True w1;
      if st \<noteq> B_OK then cancel_transmission bus st rd w else writing_phase (2 * a) wr rd w }) (outcome ?S ?F rd)"
    if w1: "clock_low (log w1)" "seen (log w1) = ?S @ [Start]" for w1
  proof (rule results_status [where fr = ?A, OF refl])
    show "all_results (send_slave_address bus (2 * a) True w1) (sends ?A w1)"
      using transmits_address w1(1) by (simp add: transmits_def)
    show "all_results (cancel_transmission bus B_TIMEOUT rd w2) (outcome ?S ?F rd)" if "sends ?A w1 (B_TIMEOUT, w2)" for w2
      using cancel_outcome [OF that w1(2) refl, where post = "?B @ [Start] @ ?A' @ ?R @ [Stop]"] F(1) by simp
    show "all_results (writing_phase (2 * a) wr rd w2) (outcome ?S ?F rd)" if "sends ?A w1 (B_OK, w2)" for w2
      using that w1(2) by (intro send) (simp_all add: sends_def)
  qed
  show ?thesis
    unfolding callback_phases [OF assms(2)]
  proof (intro results all_results_weaken [OF start_idle [OF assms(1)]])
    fix r :: "status_t \<times> 'c"
    obtain st w1 where r: "r = (st, w1)" by (cases r)
    assume "case r of (st, w') \<Rightarrow> if st = B_OK then clock_low (log w') \<and> seen (log w') = seen (log w) @ [Start]
        else st = B_TIMEOUT \<and> seen (log w') = seen (log w)"
    then show "all_results (case r of (st, w) \<Rightarrow> if st \<noteq> B_OK then Some (st, rd, w)
        else do { (st, w) \<leftarrow> send_slave_address bus (2 * a) True w;
          if st \<noteq> B_OK then cancel_transmission bus st rd w else writing_phase (2 * a) wr rd w }) (outcome ?S ?F rd)"
      using cut [of w1 "[]" ?F] first [of w1] by (cases "st = B_OK") (auto simp: r intro!: results)
  qed
qed

end

section \<open>Clocks\<close>

text \<open>A clock that runs: \<open>now\<close> bounds the next reading from below, no operation turns it back, and reading it
  again and again passes every bound.\<close>

definition tick :: "'c i2c_bus \<Rightarrow> 'c \<Rightarrow> 'c" where
  "tick bus w = snd (system_clock bus w)"

definition clock_runs :: "'c i2c_bus \<Rightarrow> ('c \<Rightarrow> int) \<Rightarrow> bool" where
  "clock_runs bus now \<longleftrightarrow>
     (\<forall>w. now w \<le> fst (system_clock bus w) \<and> fst (system_clock bus w) \<le> now (tick bus w))
     \<and> (\<forall>c d w. now w \<le> now (set_signals bus c d w)) \<and> (\<forall>w. now w \<le> now (snd (get_signals bus w)))
     \<and> (\<forall>w b. \<exists>n. b \<le> now ((tick bus ^^ n) w))"

lemma spin_until_returns:
  assumes "clock_runs bus now"
  shows "t0 + delay \<le> now ((tick bus ^^ n) w) \<Longrightarrow>
     \<exists>w'. spin_until bus t0 delay w = Some w' \<and> now w \<le> now w' \<and> t0 + delay \<le> now w'"
proof (induction n arbitrary: w)
  case 0
  obtain t w1 where k: "system_clock bus w = (t, w1)" by fastforce
  have "now w \<le> t" "t \<le> now w1" using assms k unfolding clock_runs_def tick_def by (metis fst_conv snd_conv)+
  then show ?case using 0 by (subst spin_until.simps) (simp add: k)
next
  case (Suc n)
  obtain t w1 where k: "system_clock bus w = (t, w1)" by fastforce
  have t: "now w \<le> t" "t \<le> now w1" using assms k unfolding clock_runs_def tick_def by (metis fst_conv snd_conv)+
  have w1: "tick bus w = w1" by (simp add: tick_def k)
  have "t0 + delay \<le> now ((tick bus ^^ n) w1)" using Suc.prems by (simp add: funpow_Suc_right w1 del: funpow.simps)
  from Suc.IH [OF this] obtain w' where "spin_until bus t0 delay w1 = Some w'" "now w1 \<le> now w'" "t0 + delay \<le> now w'" by blast
  then show ?case using t by (subst spin_until.simps) (auto simp: k)
qed

lemma spin_returns:
  assumes "clock_runs bus now"
  shows "\<exists>w'. spin bus delay w = Some w' \<and> now w \<le> now w' \<and> now w + delay \<le> now w'"
proof -
  obtain t w1 where k: "system_clock bus w = (t, w1)" by fastforce
  have t: "now w \<le> t" "t \<le> now w1" using assms k unfolding clock_runs_def tick_def by (metis fst_conv snd_conv)+
  obtain n where "t + delay \<le> now ((tick bus ^^ n) w1)" using assms unfolding clock_runs_def by blast
  from spin_until_returns [OF assms this] show ?thesis using t by (auto simp: spin_def k)
qed

lemma clk_loop_returns:
  assumes "clock_runs bus now" and "0 < t_r (timing bus)"
  shows "clk_loop bus timeout t0 w \<noteq> None"
proof (induction "nat (t0 + timeout + 1 - now w)" arbitrary: w rule: less_induct)
  case less
  obtain c d w1 where g: "get_signals bus w = ((c, d), w1)" by (metis prod.collapse)
  obtain t w2 where k: "system_clock bus w1 = (t, w2)" by fastforce
  have now: "now w \<le> now w1" "now w1 \<le> t" "t \<le> now w2"
    using assms(1) g k unfolding clock_runs_def tick_def by (metis fst_conv snd_conv)+
  obtain w3 where s: "spin bus (t_r (timing bus)) w2 = Some w3" "now w2 + t_r (timing bus) \<le> now w3"
    using spin_returns [OF assms(1)] by blast
  show ?case
  proof (cases "c \<or> timeout < t - t0")
    case True
    then show ?thesis by (subst clk_loop.simps) (auto simp: g k)
  next
    case False
    then have "clk_loop bus timeout t0 w3 \<noteq> None" using now s(2) assms(2) by (intro less) linarith
    then show ?thesis using False s(1) by (subst clk_loop.simps) (simp add: g k)
  qed
qed

lemma ack_loop_returns:
  assumes "clock_runs bus now" and "0 < t_r (timing bus)"
  shows "ack_loop bus t0 w \<noteq> None"
proof (induction "nat (t0 + t_ack_timeout (timing bus) + 1 - now w)" arbitrary: w rule: less_induct)
  case less
  obtain c d w1 where g: "get_signals bus w = ((c, d), w1)" by (metis prod.collapse)
  obtain t w2 where k: "system_clock bus w1 = (t, w2)" by fastforce
  have now: "now w \<le> now w1" "now w1 \<le> t" "t \<le> now w2"
    using assms(1) g k unfolding clock_runs_def tick_def by (metis fst_conv snd_conv)+
  obtain w3 where s: "spin bus (t_r (timing bus)) w2 = Some w3" "now w2 + t_r (timing bus) \<le> now w3"
    using spin_returns [OF assms(1)] by blast
  show ?case
  proof (cases "\<not> d \<or> t_ack_timeout (timing bus) < t - t0")
    case True
    then show ?thesis by (subst ack_loop.simps) (auto simp: g k)
  next
    case False
    then have "ack_loop bus t0 w3 \<noteq> None" using now s(2) assms(2) by (intro less) linarith
    then show ?thesis using False s(1) by (subst ack_loop.simps) (simp add: g k)
  qed
qed

named_theorems returns \<open>operations that return\<close>

lemma returns_bind [returns]: "m \<noteq> None \<Longrightarrow> (\<And>x. k x \<noteq> None) \<Longrightarrow> m \<bind> k \<noteq> None"
  by (cases m) auto

lemma returns_Some [returns]: "Some x \<noteq> None"
  by simp

lemma returns_if [returns]: "m \<noteq> None \<Longrightarrow> n \<noteq> None \<Longrightarrow> (if b then m else n) \<noteq> None"
  by simp

lemma returns_case [returns]: "(\<And>a b. f a b \<noteq> None) \<Longrightarrow> (case r of (a, b) \<Rightarrow> f a b) \<noteq> None"
  by (cases r) simp

lemma returns_case_fun [returns]: "(\<And>a b. f a b x \<noteq> None) \<Longrightarrow> (case r of (a, b) \<Rightarrow> f a b) x \<noteq> None"
  by (cases r) simp

lemma i2c_returns:
  assumes "clock_runs bus now" and "0 < t_r (timing bus)"
  shows "i2c_send_receive_callback bus a wr rd w \<noteq> None"
proof -
  note [returns] = clk_loop_returns [OF assms] ack_loop_returns [OF assms]
  have spin [returns]: "spin bus delay w \<noteq> None" for delay w using spin_returns [OF assms(1)] by (metis option.distinct(1))
  have wait [returns]: "wait_for_clk bus timeout w \<noteq> None" for timeout w
    unfolding wait_for_clk_def Let_def by (intro returns)
  have start [returns]: "send_start_condition bus w \<noteq> None" for w
    unfolding send_start_condition_def by (intro returns)
  have stop [returns]: "send_stop_condition bus w \<noteq> None" for w
    unfolding send_stop_condition_def by (intro returns)
  have sbit [returns]: "send_bit bus b to w \<noteq> None" for b to w
    unfolding send_bit_def by (intro returns)
  have ack [returns]: "send_acknowledge bus w \<noteq> None" for w
    unfolding send_acknowledge_def Let_def by (intro returns)
  have sbits [returns]: "send_bits bus b is w \<noteq> None" for b "is" w
    by (induction "is" arbitrary: w; unfold send_bits.simps; intro returns; assumption)
  have sbyte [returns]: "send_byte bus b acknowledge w \<noteq> None" for b acknowledge w
    unfolding send_byte_def by (intro returns)
  have addr [returns]: "send_slave_address bus a wr w \<noteq> None" for a wr w
    unfolding send_slave_address_def by (intro returns)
  have rbit [returns]: "receive_bit bus b to w \<noteq> None" for b to w
    unfolding receive_bit_def Let_def by (intro returns)
  have rbits [returns]: "receive_bits bus b is w \<noteq> None" for b "is" w
    by (induction "is" arbitrary: b w; unfold receive_bits.simps; intro returns; assumption)
  have rbyte [returns]: "receive_byte bus old acknowledge w \<noteq> None" for old acknowledge w
    unfolding receive_byte_def by (intro returns)
  have sbytes [returns]: "send_bytes bus bs w \<noteq> None" for bs w
    by (induction bs arbitrary: w; unfold send_bytes.simps; intro returns; assumption)
  have rbytes [returns]: "receive_bytes bus bs w \<noteq> None" for bs w
    by (induction bs arbitrary: w; unfold receive_bytes.simps; intro returns; assumption)
  show ?thesis unfolding i2c_send_receive_callback_def cancel_transmission_def Let_def by (intro returns)
qed

section \<open>A slave that answers\<close>

definition data_line :: "(bool \<times> bool) list \<Rightarrow> bool" where
  "data_line levels = fst (snd (snd (watch levels)))"

text \<open>The slave acknowledges the bytes of a list that follow the symbols \<open>S\<close>.\<close>

fun acks :: "(symbol list \<Rightarrow> bool) \<Rightarrow> symbol list \<Rightarrow> nat list \<Rightarrow> bool" where
  "acks drive S [] \<longleftrightarrow> True"
| "acks drive S (b # bs) \<longleftrightarrow> \<not> drive (S @ map Bit (to_bits 8 b)) \<and> acks drive (S @ byte_symbols b) bs"

text \<open>The bytes it sends in the slots of a reading.\<close>

definition sent_byte :: "(symbol list \<Rightarrow> bool) \<Rightarrow> symbol list \<Rightarrow> nat" where
  "sent_byte drive S = bits_val (map (\<lambda>j. drive (S @ replicate j (Bit True))) [0..<8])"

fun sent_bytes :: "(symbol list \<Rightarrow> bool) \<Rightarrow> symbol list \<Rightarrow> nat \<Rightarrow> nat list" where
  "sent_bytes drive S 0 = []"
| "sent_bytes drive S (Suc n) =
     sent_byte drive S # sent_bytes drive (S @ replicate 8 (Bit True) @ [Bit (n = 0)]) n"

lemma clock_low_snoc: "clock_low (l @ [(c, d)]) \<longleftrightarrow> \<not> c"
  by (cases "watch l") (auto simp: clock_low_def watch_append)

lemma clock_low_last [simp]: "clock_low (l @ x # xs) \<longleftrightarrow> \<not> fst (last (x # xs))"
proof -
  have "l @ x # xs = (l @ butlast (x # xs)) @ [last (x # xs)]"
    by simp
  then show ?thesis
    using clock_low_snoc [of "l @ butlast (x # xs)" "fst (last (x # xs))" "snd (last (x # xs))"] by (metis prod.collapse)
qed

text \<open>It never holds the clock, and drives the data line by what it has seen; the line is low when either side
  pulls it.\<close>

locale i2c_answering = i2c_signals +
  fixes drive :: "symbol list \<Rightarrow> bool"
  assumes answer: "\<not> clock_low (log w) \<Longrightarrow> fst (get_signals bus w) = (True, data_line (log w) \<and> drive (seen (log w)))"
begin

lemma answer_get:
  "\<not> clock_low (log w) \<Longrightarrow> (\<And>w'. log w' = log w \<Longrightarrow> all_results (k True (data_line (log w) \<and> drive (seen (log w))) w') P) \<Longrightarrow>
     all_results (let ((c, d), w) = get_signals bus w in k c d w) P"
  using answer [of w] log_get [of w] by (cases "get_signals bus w") auto

lemma clk_loop_ok: "\<not> clock_low (log w) \<Longrightarrow> all_results (clk_loop bus to t w) (\<lambda>(st, w'). st = B_OK \<and> log w' = log w)"
  by (subst clk_loop.simps) (rule answer_get, auto intro!: results)

lemma wait_ok: "\<not> clock_low (log w) \<Longrightarrow> (\<And>w'. log w' = log w \<Longrightarrow> P (B_OK, w')) \<Longrightarrow> all_results (wait_for_clk bus to w) P"
  unfolding wait_for_clk_def
  by (rule results_bind, rule results_spin, rule results_clock, rule all_results_weaken [OF clk_loop_ok]) auto

lemma ack_loop_ok:
  "\<not> clock_low (log w) \<Longrightarrow> \<not> (data_line (log w) \<and> drive (seen (log w))) \<Longrightarrow> (\<And>w'. log w' = log w \<Longrightarrow> P (B_OK, w')) \<Longrightarrow> all_results (ack_loop bus t w) P"
  by (subst ack_loop.simps) (rule answer_get, auto intro!: results)

lemma bit_ok: "all_results (send_bit bus b to w) (\<lambda>r. fst r = B_OK)"
  unfolding send_bit_def by (rule results_bind, rule results_spin, rule results_bind, rule wait_ok) (auto intro!: results)

lemma high_after_release:
  "clock_low (log w) \<Longrightarrow> seen (log w @ [(False, True), (True, True)]) = seen (log w) \<and> data_line (log w @ [(False, True), (True, True)])"
  "clock_low (log w) \<Longrightarrow> seen (log w @ [(True, True)]) = seen (log w) \<and> data_line (log w @ [(True, True)])"
  by (auto simp: watch_low data_line_def watch_append seen_def [of "_ @ _"])

lemma acknowledge_ok:
  assumes "clock_low (log w)" and "\<not> drive (seen (log w))"
  shows "all_results (send_acknowledge bus w) (\<lambda>r. fst r = B_OK)"
proof -
  have "\<not> (data_line (log w2) \<and> drive (seen (log w2)))"
    if "log w2 = log w @ [(False, True), (True, True)]" for w2
    using high_after_release(1) [OF assms(1)] assms(2) that by simp
  then show ?thesis
    unfolding send_acknowledge_def
    by (intro results_bind results_spin wait_ok results_pair results_if results_clock results_case ack_loop_ok) (auto intro!: results)
qed

lemma receive_bit_ok:
  assumes "clock_low (log w)"
  shows "all_results (receive_bit bus old to w) (\<lambda>(st, b, w'). st = B_OK \<and> b = drive (seen (log w)))"
proof -
  have "data_line (log w2) \<and> drive (seen (log w2)) \<longleftrightarrow> drive (seen (log w))" if "log w2 = log w @ [(True, True)]" for w2
    using high_after_release(2) [OF assms] that by simp
  then show ?thesis
    unfolding receive_bit_def
    by (intro results_bind wait_ok results_pair results_if answer_get) (auto intro!: results)
qed

text \<open>With the signals of the operations, the status says what has been seen.\<close>

lemma transmits_ok:
  assumes "transmits f fr" and "clock_low (log w)" and "all_results (f w) (\<lambda>r. fst r = B_OK)"
    and "\<And>w'. clock_low (log w') \<Longrightarrow> seen (log w') = seen (log w) @ fr \<Longrightarrow> P (B_OK, w')"
  shows "all_results (f w) P"
  using assms by (auto simp: transmits_def all_results_def sends_def split: if_splits)

lemma bits_ok: "all_results (send_bits bus byte is w) (\<lambda>r. fst r = B_OK)"
proof (induction "is" arbitrary: w)
  case (Cons i "is")
  show ?case
    unfolding send_bits.simps by (intro results_bind all_results_weaken [OF bit_ok]) (auto intro!: results Cons)
qed (auto intro!: results)

lemma byte_ok:
  assumes "clock_low (log w)" and "\<not> drive (seen (log w) @ map Bit (to_bits 8 b))"
  shows "all_results (send_byte bus b True w) (\<lambda>r. fst r = B_OK)"
  unfolding send_byte_eq
  by (intro results_bind transmits_ok [OF transmits_bits assms(1) bits_ok]) 
    (use assms(2) in \<open>auto simp: byte_bits_sent intro!: acknowledge_ok\<close>)

lemma bytes_ok:
  "clock_low (log w) \<Longrightarrow> acks drive (seen (log w)) bs \<Longrightarrow> all_results (send_bytes bus bs w) (\<lambda>r. fst r = B_OK)"
proof (induction bs arbitrary: w)
  case (Cons b bs)
  show ?case
    unfolding send_bytes.simps
    by (intro results_bind transmits_ok [OF transmits_byte Cons.prems(1) byte_ok])
      (use Cons in \<open>auto intro!: Cons.IH\<close>)
qed (auto intro!: results)

lemma receive_bits_ok:
  "clock_low (log w) \<Longrightarrow>
     all_results (receive_bits bus byte is w) (\<lambda>(st, b, w'). st = B_OK
       \<and> b = foldl (\<lambda>a c. u8 (push_bit 1 a OR of_bool c)) byte (map (\<lambda>j. drive (seen (log w) @ replicate j (Bit True))) [0..<length is]))"
proof (induction "is" arbitrary: byte w)
  case (Cons i "is")
  have shift: "map (\<lambda>j. drive (S @ replicate j (Bit True))) [0..<Suc n]
      = drive S # map (\<lambda>j. drive ((S @ [Bit True]) @ replicate j (Bit True))) [0..<n]" for S n
    by (simp add: upt_conv_Cons map_Suc_upt [symmetric] comp_def del: upt_Suc)
  show ?case
    unfolding receive_bits.simps
    by (intro results_bind all_results_weaken [OF results_both [OF receive_bit_ok receive_bit_sends]] Cons.prems)
      (auto simp: sends_def shift simp del: upt_Suc intro!: all_results_weaken [OF Cons.IH])
qed (auto intro!: results)

lemma shifted_bits:
  "a < 2 ^ k \<Longrightarrow> k + length cs \<le> 8 \<Longrightarrow>
     foldl (\<lambda>a c. u8 (push_bit 1 a OR of_bool c)) a cs = a * 2 ^ length cs + bits_val cs"
proof (induction cs arbitrary: a k)
  case (Cons c cs)
  have or: "push_bit 1 a OR of_bool c = 2 * a + of_bool c"
    using or_add_disjoint [of "of_bool c" 1 a] by (simp add: push_bit_eq_mult mult.commute)
  have less: "2 * a + of_bool c < 2 ^ Suc k" using Cons.prems(1) by (cases c) simp_all
  moreover have "(2::nat) ^ Suc k \<le> 2 ^ 8" using Cons.prems(2) by (intro power_increasing) auto
  ultimately have "u8 (2 * a + of_bool c) = 2 * a + of_bool c" by (intro u8_id) linarith
  moreover have "foldl (\<lambda>a c. u8 (push_bit 1 a OR of_bool c)) (2 * a + of_bool c) cs = (2 * a + of_bool c) * 2 ^ length cs + bits_val cs"
    using Cons.IH [OF less] Cons.prems(2) by simp
  ultimately show ?case by (simp only: foldl.simps or bits_val_Cons) (simp add: algebra_simps)
qed simp

lemma receive_byte_ok:
  assumes "clock_low (log w)"
  shows "all_results (receive_byte bus old a w) (\<lambda>(st, b, w'). st = B_OK \<and> b = sent_byte drive (seen (log w)))"
proof -
  let ?w = "set_signals bus False True w"
  have low: "clock_low (log ?w)" "seen (log ?w) = seen (log w)" using release_low [OF assms] by blast+
  have val: "foldl (\<lambda>a c. u8 (push_bit 1 a OR of_bool c)) 0 (map f [0..<8]) = bits_val (map f [0..<8])" for f
    using shifted_bits [of 0 0 "map f [0..<8]"] by simp
  note bits = receive_bits_ok [OF low(1), of 0 "rev [0..<8]", unfolded low(2) length_rev length_upt diff_zero val]
  show ?thesis
    unfolding receive_byte_def
    by (intro results_bind all_results_weaken [OF bits])
      (auto simp: sent_byte_def intro!: results all_results_weaken [OF bit_ok])
qed

lemma receive_bytes_ok:
  "clock_low (log w) \<Longrightarrow>
     all_results (receive_bytes bus bs w) (\<lambda>(st, bs', w'). st = B_OK \<and> bs' = sent_bytes drive (seen (log w)) (length bs))"
proof (induction bs arbitrary: w)
  case (Cons b bs)
  show ?case
    unfolding receive_bytes.simps
    by (intro results_bind all_results_weaken [OF results_both [OF receive_byte_ok receive_byte_sends]] Cons.prems)
      (auto simp: sends_def intro!: results all_results_weaken [OF Cons.IH])
qed (auto intro!: results)

text \<open>An ordinary address: not the general call, nor a prefix of the 10-bit addresses.\<close>

definition ordinary_address :: "nat \<Rightarrow> bool" where
  "ordinary_address a \<longleftrightarrow> 0 < a \<and> a < 0x78"

lemma and_shifted: "x AND (2 ^ k * m) = 2 ^ k * ((x div 2 ^ k) AND m)" for x m :: nat
proof -
  have "x AND push_bit k m = push_bit k (drop_bit k x AND m)" by (rule bit_eqI) (auto simp: bit_simps)
  then show ?thesis by (simp add: push_bit_eq_mult drop_bit_eq_div mult.commute)
qed

lemma ordinary_masks:
  assumes "ordinary_address a"
  shows "(2 * a) AND 0xff \<noteq> 0" and "(2 * a) AND 0xf8 \<noteq> 0xf0"
    and "((2 * a) AND 0xfe) OR (if wr then 0 else 1) = 2 * a + of_bool (\<not> wr)"
proof -
  have a: "0 < a" "a < 120" using assms by (simp_all add: ordinary_address_def)
  show "(2 * a) AND 0xff \<noteq> 0" using and_ones [of "2 * a" 8] a by simp
  have "(2 * a) AND 0xfe = 2 * (a AND 0x7f)" using and_shifted [of "2 * a" 1 127] by simp
  moreover have "a AND 0x7f = a" using and_ones [of a 7] a by simp
  ultimately have "(2 * a) AND 0xfe = 2 * a" by simp
  moreover have "2 * a OR 1 = 2 * a + 1" using or_add_disjoint [of 1 1 a] by (simp add: push_bit_eq_mult mult.commute)
  ultimately show "((2 * a) AND 0xfe) OR (if wr then 0 else 1) = 2 * a + of_bool (\<not> wr)" by (cases wr) simp_all
  have "(2 * a) AND 0xf8 = 8 * ((2 * a) div 8 AND 31)" using and_shifted [of "2 * a" 3 31] by simp
  also have "\<dots> = 8 * ((2 * a) div 8)" using and_ones [of "(2 * a) div 8" 5] a by simp
  finally show "(2 * a) AND 0xf8 \<noteq> 0xf0" using a by simp
qed

lemma ordinary_symbols:
  assumes "ordinary_address a"
  shows "address_symbols (2 * a) True = byte_symbols (2 * a)" and "address_symbols (2 * a) False = byte_symbols (2 * a + 1)"
  using ordinary_masks(1,2) [OF assms] ordinary_masks(3) [OF assms, of True] ordinary_masks(3) [OF assms, of False]
  by (simp_all add: address_symbols_def)

lemma address_ok:
  assumes "ordinary_address a" and "clock_low (log w)" and "\<not> drive (seen (log w) @ map Bit (to_bits 8 (2 * a + of_bool (\<not> wr))))"
  shows "all_results (send_slave_address bus (2 * a) wr w) (\<lambda>r. fst r = B_OK)"
proof -
  note m = ordinary_masks(1,2) [OF assms(1)] and b = ordinary_masks(3) [OF assms(1), of wr]
  show ?thesis
    unfolding send_slave_address_def b
    by (intro results_bind all_results_weaken [OF byte_ok [OF assms(2,3)]]) (use m in \<open>auto intro!: results\<close>)
qed

lemma start_ok: "all_results (send_start_condition bus w) (\<lambda>r. fst r = B_OK)"
  unfolding send_start_condition_def by (intro results_bind wait_ok) (auto intro!: results)

lemma stop_ok: "all_results (send_stop_condition bus w) (\<lambda>r. fst r = B_OK)"
  unfolding send_stop_condition_def by (intro results_bind results_spin wait_ok) (auto intro!: results)

lemma start_then:
  assumes "bus_idle (log w) \<or> clock_low (log w)"
    and "\<And>w'. clock_low (log w') \<Longrightarrow> seen (log w') = seen (log w) @ [Start] \<Longrightarrow> P (B_OK, w')"
  shows "all_results (send_start_condition bus w) P"
proof -
  from assms(1) have "all_results (send_start_condition bus w) (\<lambda>r. (case r of (st, w') \<Rightarrow>
      if st = B_OK then clock_low (log w') \<and> seen (log w') = seen (log w) @ [Start]
      else st = B_TIMEOUT \<and> seen (log w') = seen (log w)) \<and> fst r = B_OK)"
    by (elim disjE) (intro results_both start_ok start_idle start_repeated; assumption)+
  then show ?thesis by (rule all_results_weaken) (use assms(2) in auto)
qed

lemma transaction_answered:
  assumes "bus_idle (log w)" and "ordinary_address a" and "acks drive (seen (log w) @ [Start]) (2 * a # wr)"
    and "S = seen (log w) @ [Start] @ concat (map byte_symbols (2 * a # wr)) @ [Start]"
    and "\<not> drive (S @ map Bit (to_bits 8 (2 * a + 1)))"
  shows "all_results (i2c_send_receive_callback bus a wr rd w)
    (\<lambda>(st, buf, w'). st = B_OK \<and> buf = sent_bytes drive (S @ byte_symbols (2 * a + 1)) (length rd))"
proof -
  define P :: "status_t \<times> nat list \<times> 'a \<Rightarrow> bool" where "P = (\<lambda>(st, buf, w'). st = B_OK \<and> buf = sent_bytes drive (S @ byte_symbols (2 * a + 1)) (length rd))"
  have a: "a < 128" using assms(2) by (simp add: ordinary_address_def)
  note sym = ordinary_symbols [OF assms(2)]
  have reading: "all_results (reading_phase rd w4) P"
    if "clock_low (log w4)" "seen (log w4) = S @ byte_symbols (2 * a + 1)" for w4
    unfolding reading_phase_def
    by (intro results_bind all_results_weaken [OF receive_bytes_ok [OF that(1)]])
      (auto simp: that(2) P_def intro!: results all_results_weaken [OF stop_ok])
  have addressing: "all_results (addressing_phase (2 * a) rd w3) P" if "clock_low (log w3)" "seen (log w3) = S" for w3
    unfolding addressing_phase_def
    by (intro results_bind transmits_ok [OF transmits_address that(1) address_ok [OF assms(2) that(1)]])
      (use assms(5) in \<open>simp_all add: that(2) sym reading\<close>)
  have restarting: "all_results (restarting_phase (2 * a) rd w2) P"
    if "clock_low (log w2)" "seen (log w2) @ [Start] = S" for w2
    unfolding restarting_phase_def
    by (intro results_bind start_then) (use that in \<open>auto intro!: addressing\<close>)
  have writing: "all_results (writing_phase (2 * a) wr rd w1) P"
    if "clock_low (log w1)" "seen (log w1) = seen (log w) @ [Start] @ byte_symbols (2 * a)" for w1
    unfolding writing_phase_def
    by (intro results_bind transmits_ok [OF transmits_bytes that(1) bytes_ok [OF that(1)]])
      (use that assms(3,4) in \<open>auto intro!: restarting\<close>)
  have first: "all_results (do { (st, w) \<leftarrow> send_slave_address bus (2 * a) True w1;
      if st \<noteq> B_OK then cancel_transmission bus st rd w else writing_phase (2 * a) wr rd w }) P"
    if "clock_low (log w1)" "seen (log w1) = seen (log w) @ [Start]" for w1
    by (intro results_bind transmits_ok [OF transmits_address that(1) address_ok [OF assms(2) that(1)]])
      (use that assms(3) sym in \<open>auto intro!: writing\<close>)
  show ?thesis
    unfolding callback_phases [OF a] P_def [symmetric]
    by (intro results_bind start_then) (use assms(1) in \<open>auto intro!: first\<close>)
qed

end

section \<open>What a bus keeps\<close>

text \<open>A property of the outside that the three callbacks keep is kept by every operation.\<close>

locale i2c_kept =
  fixes bus :: "'c i2c_bus" and good :: "'c \<Rightarrow> bool"
  assumes good_set: "good w \<Longrightarrow> good (set_signals bus c d w)"
    and good_get: "good w \<Longrightarrow> good (snd (get_signals bus w))"
    and good_clock: "good w \<Longrightarrow> good (snd (system_clock bus w))"
begin

text \<open>A kept operation ends good after a good start.\<close>

definition kept :: "('c \<Rightarrow> (status_t \<times> 'c) option) \<Rightarrow> bool" where
  "kept f \<longleftrightarrow> (\<forall>w. good w \<longrightarrow> all_results (f w) (\<lambda>r. good (snd r)))"

lemma kept_clock:
  "good w \<Longrightarrow> (\<And>t w'. good w' \<Longrightarrow> all_results (k t w') P) \<Longrightarrow> all_results (let (t, w) = system_clock bus w in k t w) P"
  using good_clock [of w] by (cases "system_clock bus w") simp

lemma kept_get:
  "good w \<Longrightarrow> (\<And>c d w'. good w' \<Longrightarrow> all_results (k c d w') P) \<Longrightarrow> all_results (let ((c, d), w) = get_signals bus w in k c d w) P"
  using good_get [of w] by (cases "get_signals bus w") (auto split: prod.splits)

lemma spin_until_kept: "spin_until b t d w = Some w' \<Longrightarrow> b = bus \<Longrightarrow> good w \<Longrightarrow> good w'"
proof (induction b t d w w' rule: spin_until.raw_induct [rotated, consumes 1, case_names step])
  case (step loop b t d w w')
  have b: "b = bus" by (rule step(3))
  have "all_results (let (now, w) = system_clock bus w in if now - t < d then loop bus t d w else Some w) good"
    by (intro kept_clock results) (use step in \<open>auto simp: all_results_def\<close>)
  then show ?case using step(2) unfolding b by (rule all_resultsD)
qed

lemma kept_spin: "good w \<Longrightarrow> (\<And>w'. good w' \<Longrightarrow> P w') \<Longrightarrow> all_results (spin bus d w) P"
  unfolding spin_def
  by (intro kept_clock) (auto simp: all_results_def dest!: spin_until_kept)

lemma clk_loop_kept: "clk_loop b to t w = Some r \<Longrightarrow> b = bus \<Longrightarrow> good w \<Longrightarrow> good (snd r)"
proof (induction b to t w r rule: clk_loop.raw_induct [rotated, consumes 1, case_names step])
  case (step loop b to t w r)
  have b: "b = bus" by (rule step(3))
  have "all_results (let ((clk, data), w) = get_signals bus w in if clk then Some (B_OK, w)
      else let (now, w) = system_clock bus w in if to < now - t then Some (B_TIMEOUT, w)
        else do { w \<leftarrow> spin bus (t_r (timing bus)) w; loop bus to t w }) (\<lambda>r. good (snd r))"
    by (intro kept_get kept_clock results kept_spin) (use step in \<open>auto simp: all_results_def\<close>)
  then show ?case using step(2) unfolding b by (rule all_resultsD)
qed

lemma ack_loop_kept: "ack_loop b t w = Some r \<Longrightarrow> b = bus \<Longrightarrow> good w \<Longrightarrow> good (snd r)"
proof (induction b t w r rule: ack_loop.raw_induct [rotated, consumes 1, case_names step])
  case (step loop b t w r)
  have b: "b = bus" by (rule step(3))
  have "all_results (let ((clk, data), w) = get_signals bus w in if \<not> data then Some (B_OK, w)
      else let (now, w) = system_clock bus w in if t_ack_timeout (timing bus) < now - t then Some (B_TIMEOUT, w)
        else do { w \<leftarrow> spin bus (t_r (timing bus)) w; loop bus t w }) (\<lambda>r. good (snd r))"
    by (intro kept_get kept_clock results kept_spin) (use step in \<open>auto simp: all_results_def\<close>)
  then show ?case using step(2) unfolding b by (rule all_resultsD)
qed

lemma keptD: "kept f \<Longrightarrow> good w \<Longrightarrow> (\<And>st w'. good w' \<Longrightarrow> P (st, w')) \<Longrightarrow> all_results (f w) P"
  by (auto simp: kept_def all_results_def)

named_theorems keeps \<open>kept operations\<close>

lemma loops_kept [keeps]: "kept (clk_loop bus to t)" "kept (ack_loop bus t)"
  using clk_loop_kept [OF _ refl] ack_loop_kept [OF _ refl] by (auto simp: kept_def all_results_def)

lemmas steps_kept = results_Some results_bind results_if results_pair results_case kept_clock kept_get kept_spin good_set

lemma wait_kept [keeps]: "kept (wait_for_clk bus to)"
  unfolding kept_def wait_for_clk_def by (intro allI impI steps_kept keptD [OF loops_kept(1)]) simp_all

lemma start_kept [keeps]: "kept (send_start_condition bus)"
  unfolding kept_def send_start_condition_def by (intro allI impI steps_kept keptD [OF wait_kept]) simp_all

lemma stop_kept [keeps]: "kept (send_stop_condition bus)"
  unfolding kept_def send_stop_condition_def by (intro allI impI steps_kept keptD [OF wait_kept]) simp_all

lemma bit_kept [keeps]: "kept (send_bit bus b to)"
  unfolding kept_def send_bit_def by (intro allI impI steps_kept keptD [OF wait_kept]) simp_all

lemma acknowledge_kept [keeps]: "kept (send_acknowledge bus)"
  unfolding kept_def send_acknowledge_def
  by (intro allI impI steps_kept keptD [OF wait_kept] keptD [OF loops_kept(2)]) simp_all

lemma bits_kept [keeps]: "kept (send_bits bus byte is)"
proof (induction "is")
  case (Cons i "is")
  then show ?case
    unfolding kept_def send_bits.simps by (intro allI impI steps_kept keptD [OF bit_kept]) auto
qed (auto simp: kept_def intro: results_Some)

lemma byte_kept [keeps]: "kept (send_byte bus byte a)"
  unfolding kept_def send_byte_def by (intro allI impI steps_kept keptD [OF bits_kept] keptD [OF acknowledge_kept]) simp_all

lemma address_kept [keeps]: "kept (send_slave_address bus a wr)"
  unfolding kept_def send_slave_address_def by (intro allI impI steps_kept keptD [OF byte_kept]) simp_all

lemma bytes_kept [keeps]: "kept (send_bytes bus bs)"
proof (induction bs)
  case (Cons b bs)
  then show ?case
    unfolding kept_def send_bytes.simps by (intro allI impI steps_kept keptD [OF byte_kept]) auto
qed (auto simp: kept_def intro: results_Some)

lemma receive_bit_kept: "good w \<Longrightarrow> (\<And>st c w'. good w' \<Longrightarrow> P (st, c, w')) \<Longrightarrow> all_results (receive_bit bus b to w) P"
  unfolding receive_bit_def by (intro steps_kept keptD [OF wait_kept]) simp_all

lemma receive_bits_kept:
  "good w \<Longrightarrow> (\<And>st c w'. good w' \<Longrightarrow> P (st, c, w')) \<Longrightarrow> all_results (receive_bits bus b is w) P"
proof (induction "is" arbitrary: b w)
  case (Cons i "is")
  then show ?case
    unfolding receive_bits.simps by (intro steps_kept receive_bit_kept) auto
qed (auto intro: results_Some)

lemma receive_byte_kept: "good w \<Longrightarrow> (\<And>st c w'. good w' \<Longrightarrow> P (st, c, w')) \<Longrightarrow> all_results (receive_byte bus old a w) P"
  unfolding receive_byte_def by (intro steps_kept receive_bits_kept keptD [OF bit_kept]) auto

lemma receive_bytes_kept: "good w \<Longrightarrow> (\<And>st c w'. good w' \<Longrightarrow> P (st, c, w')) \<Longrightarrow> all_results (receive_bytes bus bs w) P"
proof (induction bs arbitrary: w P)
  case (Cons b bs)
  show ?case
    unfolding receive_bytes.simps by (intro steps_kept receive_byte_kept Cons.IH) (use Cons.prems in auto)
qed (auto intro: results_Some)

lemma transaction_kept:
  assumes "good w"
  shows "all_results (i2c_send_receive_callback bus a wr rd w) (\<lambda>(st, buf, w'). good w')"
  unfolding i2c_send_receive_callback_def cancel_transmission_def Let_def
  by (intro steps_kept keptD [OF start_kept] keptD [OF stop_kept] keptD [OF address_kept] keptD [OF bytes_kept]
      receive_bytes_kept) (use assms in \<open>simp_all add: steps_kept\<close>)

end

end
