(* ===== verification/Ddc.thy ===== *)
theory Ddc
  imports I2c Edid
begin

text \<open>
  DDC, \<open>src/intel_extreme/common_src/ddc.c\<close>: reading the first block of a monitor's EDID over an I2C bus, with its
  checksum, its repetitions and its decoding. Nothing else is in the way of what comes over the wire: the
  theorems say what a reading that succeeds has checked, and that a monitor that holds the block of a
  description hands over this description.
\<close>

section \<open>Reading\<close>

definition READ_RETRIES :: nat where "READ_RETRIES = 4"

text \<open>The loop over the bytes, with the sum and the disjunction of the bytes.\<close>

fun checksum_loop :: "nat list \<Rightarrow> nat \<Rightarrow> nat \<Rightarrow> nat \<times> nat" where
  "checksum_loop [] acc allOr = (acc, allOr)"
| "checksum_loop (d # data) acc allOr = checksum_loop data (u8 (acc + d)) (allOr OR d)"

definition verify_checksum :: "nat list \<Rightarrow> status_t" where
  "verify_checksum data =
     (let (acc, allOr) = checksum_loop data 0 0
      in if allOr = 0 then B_ERROR else if acc \<noteq> 0 then B_IO_ERROR else B_OK)"

definition call_send_receive :: "'c i2c_bus \<Rightarrow> nat \<Rightarrow> nat list \<Rightarrow> nat list \<Rightarrow> 'c \<Rightarrow> (status_t \<times> nat list \<times> 'c) option" where
  "call_send_receive bus slave_address writeBuffer readBuffer w =
     (case send_receive bus of
        None \<Rightarrow> i2c_send_receive_callback bus slave_address writeBuffer readBuffer w
      | Some hook \<Rightarrow> hook slave_address writeBuffer readBuffer w)"

text \<open>The loop of \<open>ddc2_read\<close> with the number of turns that are left.\<close>

fun ddc2_tries :: "'c i2c_bus \<Rightarrow> nat list \<Rightarrow> nat \<Rightarrow> status_t \<Rightarrow> nat list \<Rightarrow> 'c \<Rightarrow> (status_t \<times> nat list \<times> 'c) option" where
  "ddc2_tries bus writeBuffer 0 status buffer w = Some (status, buffer, w)"
| "ddc2_tries bus writeBuffer (Suc n) status buffer w =
     do {
       (status, buffer, w) \<leftarrow> call_send_receive bus 0x50 writeBuffer buffer w;
       let status = (if status = B_OK then verify_checksum buffer else status);
       if status = B_OK then Some (status, buffer, w) else ddc2_tries bus writeBuffer n status buffer w
     }"

definition ddc2_read :: "'c i2c_bus \<Rightarrow> nat \<Rightarrow> nat list \<Rightarrow> 'c \<Rightarrow> (status_t \<times> nat list \<times> 'c) option" where
  "ddc2_read bus start buffer w =
     ddc2_tries bus (take (if start < 0x100 then 1 else 2) [start AND 0xff, drop_bit 8 start AND 0xff]) READ_RETRIES B_OK buffer w"

definition ddc2_init_timing :: "'c i2c_bus \<Rightarrow> 'c i2c_bus" where
  "ddc2_init_timing bus =
     bus\<lparr>send_receive := None,
       timing := i2c_get100k_timing\<lparr>t_start_timeout := 550, t_byte_timeout := 2200, t_bit_timeout := 40,
         t_ack_start_timeout := 40, t_ack_timeout := 40\<rparr>\<rparr>"

text \<open>\<open>stack\<close> is the memory from the local block on. The decoder is given the address of the block, whose bytes are the
  buffer's. The result holds the description when the function stores one; both VDIF arguments are null, as at
  its callers.\<close>

definition over :: "nat list \<Rightarrow> raw_edid \<Rightarrow> raw_edid" where
  "over buf stack k = (if k < length buf then buf ! k else stack k)"

definition ddc2_read_edid1 :: "'c i2c_bus \<Rightarrow> raw_edid \<Rightarrow> 'c \<Rightarrow> (status_t \<times> edid1_info option \<times> 'c) option" where
  "ddc2_read_edid1 bus stack w =
     do {
       (status, buf, w) \<leftarrow> ddc2_read bus 0 (map stack [0..<128]) w;
       let raw = over buf stack;
       if status \<noteq> B_OK then Some (status, None, w)
       else if raw 18 \<noteq> 1 \<or> 4 < raw 19 then Some (B_ERROR, None, w)
       else Some (B_OK, Some (edid_decode raw), w)
     }"

section \<open>What a reading has checked\<close>

lemma checksum_loop_value: "checksum_loop data s a = (u8 (s + sum_list data), fold (\<lambda>d a. a OR d) data a)" if "s < 256"
  using that
proof (induction data arbitrary: s a)
  case (Cons d data)
  have "u8 (u8 (s + d) + sum_list data) = u8 (s + d + sum_list data)"
    by (simp add: u8_def mod_add_left_eq)
  then show ?case
    using Cons.IH [of "u8 (s + d)"] u8_less [of "s + d"] by (simp add: add.assoc)
qed (simp add: u8_id)

lemma or_zero: "fold (\<lambda>d a. a OR d) data a = 0 \<longleftrightarrow> a = 0 \<and> (\<forall>d\<in>set data. d = (0::nat))"
proof (induction data arbitrary: a)
  case (Cons d data)
  then show ?case
    by (simp only: fold_Cons comp_def list.set ball_simps or_eq_0_iff) blast
qed simp

definition checked :: "nat list \<Rightarrow> bool" where
  "checked data \<longleftrightarrow> sum_list data mod 256 = 0 \<and> (\<exists>d\<in>set data. d \<noteq> 0)"

lemma verify_checksum_checked: "verify_checksum data = B_OK \<longleftrightarrow> checked data"
  using or_zero [of data 0] by (auto simp: verify_checksum_def checksum_loop_value checked_def u8_def)

lemma edid_bytes_checked: "checked (edid_bytes e)"
proof -
  have "(s + (256 - s mod 256) mod 256) mod 256 = 0" for s :: nat
  proof -
    have "s mod 256 \<le> 256"
      by (simp add: less_imp_le)
    then have "s + (256 - s mod 256) = (s - s mod 256) + 256"
      by simp
    also have "\<dots> mod 256 = 0"
      by (simp add: minus_mod_eq_mult_div)
    finally show ?thesis
      by (simp only: mod_add_right_eq)
  qed
  then have "sum_list (edid_bytes e) mod 256 = 0"
    by (simp add: edid_bytes_def)
  moreover have "0xff \<in> set (edid_bytes e)"
    by (simp add: edid_bytes_def block_bytes_def header_bytes_def)
  ultimately show ?thesis
    unfolding checked_def by (intro conjI bexI [of _ 255]) simp_all
qed

lemma ddc2_tries_checked:
  "all_results (ddc2_tries bus wr n st buf w) (\<lambda>(st', buf', w'). st' = B_OK \<longrightarrow> checked buf' \<or> (n = 0 \<and> st = B_OK))"
proof (induction n arbitrary: st buf w)
  case (Suc n)
  define P :: "status_t \<times> nat list \<times> 'a \<Rightarrow> bool" where "P = (\<lambda>(st', buf', w'). st' = B_OK \<longrightarrow> checked buf')"
  have again: "all_results (ddc2_tries bus wr n st buf w) P" if "st \<noteq> B_OK" for st buf w
    by (rule all_results_weaken [OF Suc]) (use that in \<open>auto simp: P_def\<close>)
  have "all_results (ddc2_tries bus wr (Suc n) st buf w) P"
    unfolding ddc2_tries.simps Let_def
    by (rule results_bind, unfold all_results_def [of "call_send_receive _ _ _ _ _"])
      (auto simp: verify_checksum_checked P_def [THEN fun_cong] again intro!: results_if results_Some split: if_splits)
  then show ?case
    by (rule all_results_weaken) (auto simp: P_def)
qed (auto intro: results)

text \<open>What the first block is decoded from when a reading succeeds: bytes that sum up to zero and are not all zero,
  of version 1.\<close>

lemma ddc2_read_checked: "all_results (ddc2_read bus start buf w) (\<lambda>(st, buf', w'). st = B_OK \<longrightarrow> checked buf')"
  unfolding ddc2_read_def by (rule all_results_weaken [OF ddc2_tries_checked]) (auto simp: READ_RETRIES_def)

text \<open>A description that comes from a block of version 1 with a good checksum, in front of the memory \<open>stack\<close>.\<close>

definition decoded_from :: "raw_edid \<Rightarrow> edid1_info \<Rightarrow> bool" where
  "decoded_from stack e \<longleftrightarrow> (\<exists>buf. e = edid_decode (over buf stack) \<and> checked buf \<and> over buf stack 18 = 1 \<and> over buf stack 19 \<le> 4)"

lemma decoded_fromI:
  "checked buf \<Longrightarrow> over buf stack 18 = 1 \<Longrightarrow> over buf stack 19 \<le> 4 \<Longrightarrow> decoded_from stack (edid_decode (over buf stack))"
  unfolding decoded_from_def by blast

lemma reading_checked:
  "all_results (ddc2_read_edid1 bus stack w)
     (\<lambda>(st, edid, w'). case edid of None \<Rightarrow> st \<noteq> B_OK | Some e \<Rightarrow> st = B_OK \<and> decoded_from stack e)"
proof -
  define P :: "status_t \<times> edid1_info option \<times> 'a \<Rightarrow> bool" where
    "P = (\<lambda>(st, edid, w'). case edid of None \<Rightarrow> st \<noteq> B_OK | Some e \<Rightarrow> st = B_OK \<and> decoded_from stack e)"
  show ?thesis
    unfolding ddc2_read_edid1_def Let_def P_def [symmetric]
    by (intro results_bind all_results_weaken [OF ddc2_read_checked])
      (auto simp: P_def intro!: results_if results_Some decoded_fromI)
qed


section \<open>Readings return\<close>

lemma reading_returns:
  assumes "\<And>a wr rd w. call_send_receive bus a wr rd w \<noteq> None"
  shows "ddc2_read_edid1 bus stack w \<noteq> None"
proof -
  have tries: "ddc2_tries bus wr n st buf w \<noteq> None" for wr n st buf w
  proof (induction n arbitrary: st buf w)
    case (Suc n)
    show ?case
      unfolding ddc2_tries.simps Let_def by (intro returns assms Suc)
  qed simp
  then show ?thesis
    unfolding ddc2_read_edid1_def ddc2_read_def Let_def by (intro returns tries)
qed

lemma ddc2_read_edid1_returns:
  "clock_runs bus now \<Longrightarrow> 0 < t_r (timing bus) \<Longrightarrow> send_receive bus = None \<Longrightarrow> ddc2_read_edid1 bus stack w \<noteq> None"
  by (rule reading_returns) (simp only: call_send_receive_def option.case i2c_returns not_False_eq_True)

section \<open>A monitor on the bus\<close>

text \<open>After the symbols \<open>S\<close>, a monitor acknowledges the reading of its first block and sends the bytes \<open>bs\<close>.\<close>

definition monitor_sends :: "(symbol list \<Rightarrow> bool) \<Rightarrow> symbol list \<Rightarrow> nat list \<Rightarrow> bool" where
  "monitor_sends drive S bs \<longleftrightarrow>
     (let T = S @ [Start] @ byte_symbols 0xa0 @ byte_symbols 0 @ [Start]
      in acks drive (S @ [Start]) [0xa0, 0] \<and> \<not> drive (T @ map Bit (to_bits 8 0xa1)) \<and>
         sent_bytes drive (T @ byte_symbols 0xa1) (length bs) = bs)"

context i2c_answering
begin

lemma monitor_answers:
  assumes "bus_idle (log w)" "monitor_sends drive (seen (log w)) bs" "length buf = length bs"
  shows "all_results (i2c_send_receive_callback bus 0x50 [0] buf w) (\<lambda>(st, buf', w'). st = B_OK \<and> buf' = bs)"
  using assms
  by (intro all_results_weaken [OF transaction_answered [OF assms(1) _ _ refl]])
    (auto simp: monitor_sends_def Let_def ordinary_address_def)

lemma ddc2_read_monitor:
  assumes "bus_idle (log w)" "monitor_sends drive (seen (log w)) bs" "length buf = length bs" "checked bs" "send_receive bus = None"
  shows "all_results (ddc2_read bus 0 buf w) (\<lambda>(st, buf', w'). st = B_OK \<and> buf' = bs)"
proof -
  define P :: "status_t \<times> nat list \<times> 'a \<Rightarrow> bool" where "P = (\<lambda>(st, buf', w'). st = B_OK \<and> buf' = bs)"
  have "all_results (ddc2_tries bus [0] (Suc 3) B_OK buf w) P"
    unfolding ddc2_tries.simps Let_def call_send_receive_def assms(5) option.case
    by (intro results_bind all_results_weaken [OF monitor_answers [OF assms(1-3)]])
      (use assms(4) in \<open>auto simp: P_def verify_checksum_checked intro!: results_Some\<close>)
  then show ?thesis
    by (simp add: ddc2_read_def READ_RETRIES_def P_def)
qed

lemma ddc2_read_edid1_monitor:
  assumes "bus_idle (log w)" "monitor_sends drive (seen (log w)) (edid_bytes e)" "edid_ok e" "send_receive bus = None"
  shows "all_results (ddc2_read_edid1 bus stack w) (\<lambda>(st, edid, w'). st = B_OK \<and> edid = Some e)"
proof -
  define P :: "status_t \<times> edid1_info option \<times> 'a \<Rightarrow> bool" where "P = (\<lambda>(st, edid, w'). st = B_OK \<and> edid = Some e)"
  have h: "holds (over (edid_bytes e) stack) 0 (edid_bytes e)"
    by (simp add: holds_def over_def)
  have "over (edid_bytes e) stack 18 = version (edid_version e)" "over (edid_bytes e) stack 19 = revision (edid_version e)"
    using h by (simp_all add: edid_bytes_def block_bytes_def holds_append length_header_bytes length_vendor_bytes)
  then have v: "over (edid_bytes e) stack 18 = 1" "over (edid_bytes e) stack 19 \<le> 4"
    using assms(3) by (auto simp: edid_ok_def)
  show ?thesis
    unfolding ddc2_read_edid1_def Let_def P_def [symmetric]
    by (intro results_bind all_results_weaken [OF ddc2_read_monitor [OF assms(1,2) _ edid_bytes_checked assms(4)]])
      (use v edid_decode_bytes [OF h assms(3)] in
        \<open>auto simp: P_def length_edid_bytes [OF assms(3)] intro!: results_Some\<close>)
qed

end

end
