(* ===== verification/Dp_Aux.thy ===== *)
theory Dp_Aux
  imports Port_Registers Ddc
begin

text \<open>
  The AUX channel of the display ports, \<open>Port::_DpAuxTransfer\<close> and \<open>Port::_DpAuxSendReceive\<close> of
  \<open>src/intel_extreme/accelerant/Ports.cpp\<close> with the message of \<open>common_headers/dp.h\<close>: a raw transfer puts up to 20 bytes
  into the data registers, starts the channel and collects the answer; a message is a request with an address and
  retries while the sink defers; a transaction cuts an I2C transfer into messages of 16 bytes. \<open>spin\<close> is an entry
  of the history: what it waits for is the clock alone (theory \<open>I2c\<close>). The counters of the loops are fuel
  with the bounds of the code.
\<close>

unbundle bit_operations_syntax

section \<open>Channel registers\<close>

definition DP_AUX_CH_CTL :: "nat \<Rightarrow> nat" where
  "DP_AUX_CH_CTL aux = pipe_and_port 0x4010 + (pipe_and_port 0x4110 - pipe_and_port 0x4010) * aux"

definition DP_AUX_CH_DATA :: "nat \<Rightarrow> nat \<Rightarrow> nat" where
  "DP_AUX_CH_DATA aux i = pipe_and_port 0x4014 + (pipe_and_port 0x4114 - pipe_and_port 0x4014) * aux + i * 4"

text \<open>On the hub, for the channels from \<open>AUX_CH_B\<close> on.\<close>

definition PCH_DP_AUX_CH_CTL :: "nat \<Rightarrow> nat" where
  "PCH_DP_AUX_CH_CTL aux = transcoder_port 0x4110 + (transcoder_port 0x4210 - transcoder_port 0x4110) * (aux - 1)"

definition PCH_DP_AUX_CH_DATA :: "nat \<Rightarrow> nat \<Rightarrow> nat" where
  "PCH_DP_AUX_CH_DATA aux i = transcoder_port 0x4114 + (transcoder_port 0x4214 - transcoder_port 0x4114) * (aux - 1) + i * 4"

definition INTEL_DP_AUX_CTL_BUSY :: "32 word" where "INTEL_DP_AUX_CTL_BUSY = 0x80000000"
definition INTEL_DP_AUX_CTL_DONE :: "32 word" where "INTEL_DP_AUX_CTL_DONE = 0x40000000"
definition INTEL_DP_AUX_CTL_INTERRUPT :: "32 word" where "INTEL_DP_AUX_CTL_INTERRUPT = 0x20000000"
definition INTEL_DP_AUX_CTL_TIMEOUT_ERROR :: "32 word" where "INTEL_DP_AUX_CTL_TIMEOUT_ERROR = 0x10000000"
definition INTEL_DP_AUX_CTL_TIMEOUT_400us :: "32 word" where "INTEL_DP_AUX_CTL_TIMEOUT_400us = 0"
definition INTEL_DP_AUX_CTL_TIMEOUT_600us :: "32 word" where "INTEL_DP_AUX_CTL_TIMEOUT_600us = 0x04000000"
definition INTEL_DP_AUX_CTL_TIMEOUT_1600us :: "32 word" where "INTEL_DP_AUX_CTL_TIMEOUT_1600us = 0x0c000000"
definition INTEL_DP_AUX_CTL_RECEIVE_ERROR :: "32 word" where "INTEL_DP_AUX_CTL_RECEIVE_ERROR = 0x02000000"
definition INTEL_DP_AUX_CTL_MSG_SIZE_MASK :: "32 word" where "INTEL_DP_AUX_CTL_MSG_SIZE_MASK = 0x01f00000"

section \<open>Waiting\<close>

text \<open>The loops of \<open>wait_for_set\<close>, \<open>wait_for_clear\<close> and \<open>wait_for_clear_status\<close> from \<open>i\<close> on.\<close>

function set_loop :: "hardware \<Rightarrow> nat \<Rightarrow> 32 word \<Rightarrow> nat \<Rightarrow> nat \<Rightarrow> history \<Rightarrow> bool \<times> history" where
  "set_loop hw address bits timeout i h =
     (if i \<le> timeout then
        let (v, h) = read32 hw address (h @ [Spun 50])
        in if v AND bits \<noteq> 0 then (True, h) else set_loop hw address bits timeout (i + 50) h
      else (False, h))"
  by pat_completeness auto

termination
  by (relation "measure (\<lambda>(hw, address, bits, timeout, i, h). timeout + 1 - i)") auto

function clear_loop :: "hardware \<Rightarrow> nat \<Rightarrow> 32 word \<Rightarrow> nat \<Rightarrow> nat \<Rightarrow> history \<Rightarrow> bool \<times> history" where
  "clear_loop hw address bits timeout i h =
     (if i \<le> timeout then
        let (v, h) = read32 hw address (h @ [Spun 50])
        in if v AND bits = 0 then (True, h) else clear_loop hw address bits timeout (i + 50) h
      else (False, h))"
  by pat_completeness auto

termination
  by (relation "measure (\<lambda>(hw, address, bits, timeout, i, h). timeout + 1 - i)") auto

function clear_status_loop :: "hardware \<Rightarrow> nat \<Rightarrow> 32 word \<Rightarrow> nat \<Rightarrow> nat \<Rightarrow> 32 word \<Rightarrow> history \<Rightarrow> 32 word \<times> history" where
  "clear_status_loop hw address bits timeout i status h =
     (if i \<le> timeout then
        let (status, h) = read32 hw address (h @ [Spun 50])
        in if status AND bits = 0 then (status, h) else clear_status_loop hw address bits timeout (i + 50) status h
      else (status, h))"
  by pat_completeness auto

termination
  by (relation "measure (\<lambda>(hw, address, bits, timeout, i, status, h). timeout + 1 - i)") auto

declare set_loop.simps [simp del] clear_loop.simps [simp del] clear_status_loop.simps [simp del]

definition wait_for_set :: "hardware \<Rightarrow> nat \<Rightarrow> 32 word \<Rightarrow> nat \<Rightarrow> history \<Rightarrow> bool \<times> history" where
  "wait_for_set hw address bits timeout h = set_loop hw address bits timeout 0 h"

definition wait_for_clear :: "hardware \<Rightarrow> nat \<Rightarrow> 32 word \<Rightarrow> nat \<Rightarrow> history \<Rightarrow> bool \<times> history" where
  "wait_for_clear hw address bits timeout h = clear_loop hw address bits timeout 0 h"

definition wait_for_clear_status :: "hardware \<Rightarrow> nat \<Rightarrow> 32 word \<Rightarrow> nat \<Rightarrow> history \<Rightarrow> 32 word \<times> history" where
  "wait_for_clear_status hw address bits timeout h = clear_status_loop hw address bits timeout 0 0 h"

section \<open>Raw transfers\<close>

text \<open>The registers of the channel of a port, control and data, if the device is known.\<close>

definition aux_registers :: "shared_info \<Rightarrow> port_index \<Rightarrow> (nat \<times> (nat \<Rightarrow> nat)) option" where
  "aux_registers si port =
     (let channel = DpAuxChannel si port
      in if 9 \<le> Generation (device_type si) \<or> (pch si \<noteq> INTEL_PCH_NONE \<and> channel = 0)
         then Some (DP_AUX_CH_CTL channel, DP_AUX_CH_DATA channel)
         else if pch si \<noteq> INTEL_PCH_NONE then Some (PCH_DP_AUX_CH_CTL channel, PCH_DP_AUX_CH_DATA channel)
         else None)"

text \<open>The loop before a transfer, with \<open>tries\<close> readings left after this one.\<close>

fun aux_idle_loop :: "hardware \<Rightarrow> nat \<Rightarrow> nat \<Rightarrow> history \<Rightarrow> bool \<times> history" where
  "aux_idle_loop hw ctl tries h =
     (let (v, h) = read32 hw ctl h
      in if v AND INTEL_DP_AUX_CTL_BUSY = 0 then (True, h)
         else case tries of 0 \<Rightarrow> (False, h) | Suc tries \<Rightarrow> aux_idle_loop hw ctl tries (snooze 1000 h))"

declare aux_idle_loop.simps [simp del]

definition aux_send_control :: "shared_info \<Rightarrow> port_index \<Rightarrow> nat \<Rightarrow> 32 word" where
  "aux_send_control si port transmitSize =
     (let channel = DpAuxChannel si port
      in if 9 \<le> Generation (device_type si)
         then INTEL_DP_AUX_CTL_BUSY OR INTEL_DP_AUX_CTL_DONE OR INTEL_DP_AUX_CTL_INTERRUPT OR INTEL_DP_AUX_CTL_TIMEOUT_ERROR
           OR INTEL_DP_AUX_CTL_TIMEOUT_1600us OR INTEL_DP_AUX_CTL_RECEIVE_ERROR OR push_bit 20 (word_of_nat transmitSize)
           OR push_bit 5 31 OR 31
         else
           let frequency = (if channel \<noteq> 0 then hraw_clock si else hw_cdclk si);
               aux_clock_divider = (if pch si = INTEL_PCH_LPT \<and> channel \<noteq> 0 then 0x48 else u32 (frequency + 1000) div 2000);
               timeout = (if InGroup (device_type si) INTEL_GROUP_BDW then INTEL_DP_AUX_CTL_TIMEOUT_600us else INTEL_DP_AUX_CTL_TIMEOUT_400us)
           in INTEL_DP_AUX_CTL_BUSY OR INTEL_DP_AUX_CTL_DONE OR INTEL_DP_AUX_CTL_INTERRUPT OR INTEL_DP_AUX_CTL_TIMEOUT_ERROR
              OR timeout OR INTEL_DP_AUX_CTL_RECEIVE_ERROR OR push_bit 20 (word_of_nat transmitSize) OR push_bit 16 3
              OR word_of_nat aux_clock_divider)"

text \<open>Four bytes of a message, fewer at its end, as the value of a data register.\<close>

definition aux_word :: "nat list \<Rightarrow> 32 word" where
  "aux_word bs =
     (let b = (\<lambda>k. if k < length bs then word_of_nat (bs ! k) else 0)
      in push_bit 24 (b 0) OR push_bit 16 (b 1) OR push_bit 8 (b 2) OR b 3)"

function aux_write_data :: "(nat \<Rightarrow> nat) \<Rightarrow> nat \<Rightarrow> nat list \<Rightarrow> history \<Rightarrow> history" where
  "aux_write_data dat index tx h =
     (if tx = [] then h else aux_write_data dat (index + 1) (drop 4 tx) (write32 (dat index) (aux_word (take 4 tx)) h))"
  by pat_completeness auto

termination
  by (relation "measure (\<lambda>(dat, index, tx, h). length tx)") auto

text \<open>The bytes of a register, from the highest one on.\<close>

definition aux_bytes :: "32 word \<Rightarrow> nat list" where
  "aux_bytes v = map (\<lambda>k. u8 (unat (drop_bit k v))) [24, 16, 8, 0]"

function aux_read_data :: "hardware \<Rightarrow> (nat \<Rightarrow> nat) \<Rightarrow> nat \<Rightarrow> nat \<Rightarrow> history \<Rightarrow> nat list \<times> history" where
  "aux_read_data hw dat index bytes h =
     (if bytes = 0 then ([], h)
      else
        let (v, h) = read32 hw (dat index) h;
            (rest, h) = aux_read_data hw dat (index + 1) (bytes - 4) h
        in (take bytes (aux_bytes v) @ rest, h))"
  by pat_completeness auto

termination
  by (relation "measure (\<lambda>(hw, dat, index, bytes, h). bytes)") auto

declare aux_write_data.simps [simp del] aux_read_data.simps [simp del]

text \<open>The retries of a transfer: the last status. A turn that sees the channel done leaves the loop.\<close>

fun aux_attempts :: "hardware \<Rightarrow> nat \<Rightarrow> (nat \<Rightarrow> nat) \<Rightarrow> 32 word \<Rightarrow> nat list \<Rightarrow> nat \<Rightarrow> 32 word \<Rightarrow> history \<Rightarrow> 32 word \<times> history" where
  "aux_attempts hw ctl dat sendControl tx 0 status h = (status, h)"
| "aux_attempts hw ctl dat sendControl tx (Suc n) status h =
     (let h = aux_write_data dat 0 tx h;
          h = write32 ctl sendControl h;
          (status, h) = wait_for_clear_status hw ctl INTEL_DP_AUX_CTL_BUSY 10000 h;
          h = write32 ctl (status OR INTEL_DP_AUX_CTL_DONE OR INTEL_DP_AUX_CTL_TIMEOUT_ERROR OR INTEL_DP_AUX_CTL_RECEIVE_ERROR) h
      in if status AND INTEL_DP_AUX_CTL_TIMEOUT_ERROR \<noteq> 0 then aux_attempts hw ctl dat sendControl tx n status h
         else if status AND INTEL_DP_AUX_CTL_RECEIVE_ERROR \<noteq> 0 then aux_attempts hw ctl dat sendControl tx n status (snooze 400 h)
         else if status AND INTEL_DP_AUX_CTL_DONE \<noteq> 0 then (status, h)
         else aux_attempts hw ctl dat sendControl tx n status h)"

text \<open>The result is an error or the bytes received, at least one. \<open>tx\<close> are the bytes to send.\<close>

definition DpAuxTransfer ::
  "hardware \<Rightarrow> shared_info \<Rightarrow> port_index \<Rightarrow> nat list \<Rightarrow> nat \<Rightarrow> history \<Rightarrow> (status_t + nat list) \<times> history" where
  "DpAuxTransfer hw si port tx receiveSize h =
     (case aux_registers si port of
        None \<Rightarrow> (Inl B_BUSY, h)
      | Some (ctl, dat) \<Rightarrow>
          if 20 < length tx \<or> 20 < receiveSize then (Inl E2BIG, h)
          else
            let (idle, h) = aux_idle_loop hw ctl 3 h
            in if \<not> idle then (Inl B_BUSY, h)
               else
                 let (status, h) = aux_attempts hw ctl dat (aux_send_control si port (length tx)) tx 5 0 h
                 in if status AND INTEL_DP_AUX_CTL_DONE = 0 then (Inl B_BUSY, h)
                    else if status AND INTEL_DP_AUX_CTL_RECEIVE_ERROR \<noteq> 0 then (Inl B_IO_ERROR, h)
                    else if status AND INTEL_DP_AUX_CTL_TIMEOUT_ERROR \<noteq> 0 then (Inl B_TIMEOUT, h)
                    else
                      let bytes = unat (drop_bit 20 (status AND INTEL_DP_AUX_CTL_MSG_SIZE_MASK))
                      in if bytes = 0 \<or> 20 < bytes then (Inl B_BUSY, h)
                         else apfst Inr (aux_read_data hw dat 0 (min bytes receiveSize) h))"

section \<open>Messages\<close>

definition DP_AUX_NATIVE_WRITE :: nat where "DP_AUX_NATIVE_WRITE = 0x8"
definition DP_AUX_NATIVE_READ :: nat where "DP_AUX_NATIVE_READ = 0x9"
definition DP_AUX_NATIVE_REPLY_ACK :: nat where "DP_AUX_NATIVE_REPLY_ACK = 0"
definition DP_AUX_NATIVE_REPLY_NACK :: nat where "DP_AUX_NATIVE_REPLY_NACK = 1"
definition DP_AUX_NATIVE_REPLY_DEFER :: nat where "DP_AUX_NATIVE_REPLY_DEFER = 2"
definition DP_AUX_NATIVE_REPLY_MASK :: nat where "DP_AUX_NATIVE_REPLY_MASK = 3"
definition DP_AUX_I2C_WRITE :: nat where "DP_AUX_I2C_WRITE = 0x0"
definition DP_AUX_I2C_READ :: nat where "DP_AUX_I2C_READ = 0x1"
definition DP_AUX_I2C_WRITE_STATUS_UPDATE :: nat where "DP_AUX_I2C_WRITE_STATUS_UPDATE = 0x2"
definition DP_AUX_I2C_MOT :: nat where "DP_AUX_I2C_MOT = 0x4"
definition DP_AUX_I2C_REPLY_ACK :: nat where "DP_AUX_I2C_REPLY_ACK = 0"
definition DP_AUX_I2C_REPLY_NACK :: nat where "DP_AUX_I2C_REPLY_NACK = 4"
definition DP_AUX_I2C_REPLY_DEFER :: nat where "DP_AUX_I2C_REPLY_DEFER = 8"
definition DP_AUX_I2C_REPLY_MASK :: nat where "DP_AUX_I2C_REPLY_MASK = 12"

lemmas reply_codes = DP_AUX_NATIVE_REPLY_ACK_def DP_AUX_NATIVE_REPLY_NACK_def DP_AUX_NATIVE_REPLY_DEFER_def DP_AUX_NATIVE_REPLY_MASK_def
  DP_AUX_I2C_REPLY_ACK_def DP_AUX_I2C_REPLY_NACK_def DP_AUX_I2C_REPLY_DEFER_def DP_AUX_I2C_REPLY_MASK_def

lemmas request_codes = DP_AUX_NATIVE_WRITE_def DP_AUX_NATIVE_READ_def DP_AUX_I2C_WRITE_def DP_AUX_I2C_READ_def
  DP_AUX_I2C_WRITE_STATUS_UPDATE_def DP_AUX_I2C_MOT_def

text \<open>The buffer holds the \<open>msg_size\<close> bytes that the message points to, or is absent.\<close>

record dp_aux_msg =
  msg_address :: nat
  msg_request :: nat
  msg_reply :: nat
  msg_buffer :: "nat list option"
  msg_size :: nat

datatype request_kind = Aux_write | Aux_read | Aux_unknown

text \<open>The cases of the request, without the bit for the middle of a transmission.\<close>

definition request_kind :: "nat \<Rightarrow> request_kind" where
  "request_kind request =
     (let r = request AND 0xfb
      in if r = DP_AUX_NATIVE_WRITE \<or> r = DP_AUX_I2C_WRITE \<or> r = DP_AUX_I2C_WRITE_STATUS_UPDATE then Aux_write
         else if r = DP_AUX_NATIVE_READ \<or> r = DP_AUX_I2C_READ then Aux_read
         else Aux_unknown)"

definition aux_header :: "dp_aux_msg \<Rightarrow> nat list" where
  "aux_header msg =
     [u8 (push_bit 4 (msg_request msg) OR (drop_bit 16 (msg_address msg) AND 0xf)), drop_bit 8 (msg_address msg) AND 0xff,
      msg_address msg AND 0xff, u8 (if msg_size msg \<noteq> 0 then msg_size msg - 1 else 0)]"

text \<open>The bytes that are sent: the header, of three bytes for a bare address, and the payload of a write.\<close>

definition aux_transmit :: "dp_aux_msg \<Rightarrow> nat list" where
  "aux_transmit msg =
     take (if 0 < msg_size msg then 4 else 3) (aux_header msg)
     @ (if request_kind (msg_request msg) = Aux_write then (case msg_buffer msg of None \<Rightarrow> [] | Some buf \<Rightarrow> take (msg_size msg) buf) else [])"

text \<open>The message after an answer: the reply, and for a read the bytes that came.\<close>

definition aux_received :: "dp_aux_msg \<Rightarrow> nat list \<Rightarrow> dp_aux_msg" where
  "aux_received msg rx =
     (let msg = msg\<lparr>msg_reply := drop_bit 4 (hd rx)\<rparr>
      in if request_kind (msg_request msg) = Aux_read
         then msg\<lparr>msg_buffer := map_option (\<lambda>buf. tl rx @ drop (length rx - 1) buf) (msg_buffer msg)\<rparr>
         else msg)"

text \<open>The type of a raw transfer: the bytes to send and the room for the answer.\<close>

type_synonym raw_transfer = "nat list \<Rightarrow> nat \<Rightarrow> history \<Rightarrow> (status_t + nat list) \<times> history"

fun aux_tries :: "raw_transfer \<Rightarrow> nat \<Rightarrow> dp_aux_msg \<Rightarrow> history \<Rightarrow> status_t \<times> dp_aux_msg \<times> history" where
  "aux_tries raw 0 msg h = (B_IO_ERROR, msg, h)"
| "aux_tries raw (Suc n) msg h =
     (if request_kind (msg_request msg) = Aux_unknown then (B_ERROR, msg, h)
      else
        case raw (aux_transmit msg) (if request_kind (msg_request msg) = Aux_write then 2 else u8 (msg_size msg + 1)) h of
          (Inl err, h) \<Rightarrow> if err = B_BUSY then aux_tries raw n msg h else (err, msg, h)
        | (Inr rx, h) \<Rightarrow>
            let msg = aux_received msg rx; reply = msg_reply msg AND DP_AUX_NATIVE_REPLY_MASK
            in if reply = DP_AUX_NATIVE_REPLY_ACK then (B_OK, msg, h)
               else if reply = DP_AUX_NATIVE_REPLY_NACK then (B_IO_ERROR, msg, h)
               else if reply = DP_AUX_NATIVE_REPLY_DEFER then aux_tries raw n msg (snooze 400 h)
               else (B_IO_ERROR, msg, h))"

definition DpAuxMessage :: "raw_transfer \<Rightarrow> dp_aux_msg \<Rightarrow> history \<Rightarrow> status_t \<times> dp_aux_msg \<times> history" where
  "DpAuxMessage raw msg h =
     (if 16 < msg_size msg then (B_ERROR, msg, h)
      else if 0 < msg_size msg \<and> msg_buffer msg = None then (B_ERROR, msg, h)
      else aux_tries raw 7 msg h)"

section \<open>Transactions\<close>

text \<open>The inner loop for one piece of the buffer, with the attempts left: an I2C reply of the sink decides, and when
  the attempts are used up the piece counts as done.\<close>

fun aux_piece :: "raw_transfer \<Rightarrow> nat \<Rightarrow> dp_aux_msg \<Rightarrow> history \<Rightarrow> status_t \<times> dp_aux_msg \<times> history" where
  "aux_piece raw 0 msg h = (B_OK, msg, h)"
| "aux_piece raw (Suc n) msg h =
     (let (result, msg, h) = DpAuxMessage raw msg h
      in if result \<noteq> B_OK then (result, msg, h)
         else
           let reply = msg_reply msg AND DP_AUX_I2C_REPLY_MASK
           in if reply = DP_AUX_I2C_REPLY_ACK then (B_OK, msg, h)
              else if reply = DP_AUX_I2C_REPLY_NACK then (B_IO_ERROR, msg, h)
              else if reply = DP_AUX_I2C_REPLY_DEFER then aux_piece raw n msg (snooze 400 h)
              else (B_ERROR, msg, h))"

definition with_mot :: "bool \<Rightarrow> nat \<Rightarrow> nat" where
  "with_mot mid request = (if mid then request OR DP_AUX_I2C_MOT else request AND 0xfb)"

text \<open>The loop over the pieces of 16 bytes. The result has the buffer as the pieces leave it.\<close>

function aux_pieces :: "raw_transfer \<Rightarrow> dp_aux_msg \<Rightarrow> nat list \<Rightarrow> history \<Rightarrow> status_t \<times> nat list \<times> dp_aux_msg \<times> history" where
  "aux_pieces raw msg buf h =
     (if buf = [] then (B_OK, [], msg, h)
      else
        let msg = msg\<lparr>msg_buffer := Some (take 16 buf), msg_size := min 16 (length buf),
              msg_request := with_mot (16 < length buf) (msg_request msg)\<rparr>;
            (st, msg, h) = aux_piece raw 7 msg h;
            piece = the (msg_buffer msg)
        in if st \<noteq> B_OK then (st, piece @ drop 16 buf, msg, h)
           else let (st, rest, msg, h) = aux_pieces raw msg (drop 16 buf) h in (st, piece @ rest, msg, h))"
  by pat_completeness auto

termination
  by (relation "measure (\<lambda>(raw, msg, buf, h). length buf)") auto

declare aux_pieces.simps [simp del]

text \<open>A phase of a transaction: the bare address, then the pieces. No buffer, no phase.\<close>

definition aux_phase ::
  "raw_transfer \<Rightarrow> nat \<Rightarrow> nat \<Rightarrow> nat list \<Rightarrow> dp_aux_msg \<Rightarrow> history \<Rightarrow> status_t \<times> nat list \<times> dp_aux_msg \<times> history" where
  "aux_phase raw request slaveAddress buf msg h =
     (let msg = msg\<lparr>msg_address := slaveAddress, msg_buffer := None, msg_request := request, msg_size := 0\<rparr>;
          (st, msg, h) = DpAuxMessage raw msg h
      in if st \<noteq> B_OK then (st, buf, msg, h) else aux_pieces raw msg buf h)"

definition DpAuxSendReceive ::
  "raw_transfer \<Rightarrow> nat \<Rightarrow> nat list option \<Rightarrow> nat list option \<Rightarrow> history \<Rightarrow> status_t \<times> nat list option \<times> history" where
  "DpAuxSendReceive raw slaveAddress writeBuffer readBuffer h =
     (let msg = \<lparr>msg_address = 0, msg_request = 0, msg_reply = 0, msg_buffer = None, msg_size = 0\<rparr>;
          (st, msg, h) =
            (case writeBuffer of
               None \<Rightarrow> (B_OK, msg, h)
             | Some wr \<Rightarrow> let (st, _, msg, h) = aux_phase raw DP_AUX_I2C_WRITE slaveAddress wr msg h in (st, msg, h))
      in if st \<noteq> B_OK then (st, readBuffer, h)
         else case readBuffer of
           None \<Rightarrow> (B_OK, None, h)
         | Some rd \<Rightarrow> let (st, rd, msg, h) = aux_phase raw DP_AUX_I2C_READ slaveAddress rd msg h in (st, Some rd, h))"

text \<open>The hook of the I2C bus, and its set-up.\<close>

definition DpAuxSendReceiveHook ::
  "hardware \<Rightarrow> shared_info \<Rightarrow> port_index \<Rightarrow> nat \<Rightarrow> nat list \<Rightarrow> nat list \<Rightarrow> history \<Rightarrow> (status_t \<times> nat list \<times> history) option" where
  "DpAuxSendReceiveHook hw si port slaveAddress writeBuffer readBuffer h =
     (let (st, rd, h) = DpAuxSendReceive (DpAuxTransfer hw si port) slaveAddress (Some writeBuffer) (Some readBuffer) h
      in Some (st, the rd, h))"

definition ICL_PWR_WELL_CTL_AUX2 :: nat where "ICL_PWR_WELL_CTL_AUX2 = 0x5444 OR REGS_NORTH_SHARED"
definition HSW_PWR_WELL_CTL_REQ :: "nat \<Rightarrow> 32 word" where "HSW_PWR_WELL_CTL_REQ i = push_bit (2 * i) 2"
definition HSW_PWR_WELL_CTL_STATE :: "nat \<Rightarrow> 32 word" where "HSW_PWR_WELL_CTL_STATE i = push_bit (2 * i) 1"

definition SetupDpAuxI2c ::
  "hardware \<Rightarrow> shared_info \<Rightarrow> port_index \<Rightarrow> history i2c_bus \<Rightarrow> history \<Rightarrow> status_t \<times> history i2c_bus \<times> history" where
  "SetupDpAuxI2c hw si port bus h =
     (let bus = (ddc2_init_timing bus)\<lparr>send_receive := Some (DpAuxSendReceiveHook hw si port)\<rparr>
      in if 11 \<le> Generation (device_type si) then
           let (v, h) = read32 hw ICL_PWR_WELL_CTL_AUX2 h
           in if v AND HSW_PWR_WELL_CTL_STATE 0 \<noteq> 0 then (B_OK, bus, h)
              else
                let h = write32 ICL_PWR_WELL_CTL_AUX2 (v OR HSW_PWR_WELL_CTL_REQ 0) h;
                    (_, h) = wait_for_set hw ICL_PWR_WELL_CTL_AUX2 (HSW_PWR_WELL_CTL_STATE 0) 1000 h
                in (B_OK, bus, h)
         else (B_OK, bus, h))"

section \<open>Bytes and data registers\<close>

lemma bit_of_byte:
  fixes x :: "32 word"
  assumes "x < 256" "bit x k"
  shows "k < 8"
proof -
  have "take_bit 8 (unat x) = unat x"
    using assms(1) by (simp add: take_bit_nat_eq_self word_less_nat_alt)
  moreover have "bit (unat x) k"
    using assms(2) by (simp add: bit_unsigned_iff)
  ultimately show ?thesis
    by (metis bit_take_bit_iff)
qed

lemma word_bytes:
  fixes a b c d :: "32 word"
  assumes "a < 256" "b < 256" "c < 256" "d < 256"
  defines "v \<equiv> push_bit 24 a OR push_bit 16 b OR push_bit 8 c OR d"
  shows "u8 (unat (drop_bit 24 v)) = unat a" "u8 (unat (drop_bit 16 v)) = unat b" "u8 (unat (drop_bit 8 v)) = unat c"
    "u8 (unat v) = unat d"
proof -
  have u: "u8 (unat x) = unat (take_bit 8 x)" for x :: "32 word"
    by (simp only: u8_def unsigned_take_bit_eq take_bit_eq_mod [symmetric])
  note high = assms(1-4) [THEN bit_of_byte]
  have "take_bit 8 (drop_bit 24 v) = a" "take_bit 8 (drop_bit 16 v) = b" "take_bit 8 (drop_bit 8 v) = c" "take_bit 8 v = d"
    unfolding v_def by (rule bit_word_eqI; use high in \<open>auto simp: bit_simps dest: high\<close>; fastforce dest: high)+
  then show "u8 (unat (drop_bit 24 v)) = unat a" "u8 (unat (drop_bit 16 v)) = unat b" "u8 (unat (drop_bit 8 v)) = unat c"
    "u8 (unat v) = unat d"
    by (simp_all add: u)
qed

text \<open>The bytes of a register that holds a piece of a message are the piece, filled with zeros.\<close>

lemma aux_bytes_word:
  assumes "length bs \<le> 4" "\<forall>b\<in>set bs. b < 256"
  shows "aux_bytes (aux_word bs) = bs @ replicate (4 - length bs) 0"
proof -
  define b where "b = (\<lambda>k. if k < length bs then bs ! k else 0)"
  have b: "b k < 256" for k
    using assms(2) by (simp add: b_def)
  have less: "(word_of_nat (b k) :: 32 word) < 256" "unat (word_of_nat (b k) :: 32 word) = b k" for k
    using b [of k] by (simp_all add: word_less_nat_alt unsigned_of_nat take_bit_nat_eq_self)
  have "aux_word bs = push_bit 24 (word_of_nat (b 0)) OR push_bit 16 (word_of_nat (b 1)) OR push_bit 8 (word_of_nat (b 2)) OR word_of_nat (b 3)"
    by (simp add: aux_word_def b_def)
  then have "aux_bytes (aux_word bs) = [b 0, b 1, b 2, b 3]"
    using word_bytes [OF less(1) less(1) less(1) less(1)] less(2) by (simp add: aux_bytes_def)
  moreover have "length bs = 0 \<or> length bs = 1 \<or> length bs = 2 \<or> length bs = 3 \<or> length bs = 4"
    using assms(1) by linarith
  ultimately show ?thesis
    by (intro nth_equalityI) (auto simp: b_def nth_append nth_Cons numeral_3_eq_3 numeral_2_eq_2 split: nat.splits)
qed


text \<open>A register file: it answers what was written last.\<close>

definition register_file :: hardware where
  "register_file = \<lparr>reg_answer = (\<lambda>h r. if written r h = [] then 0 else last (written r h)), time_answer = (\<lambda>h. 0)\<rparr>"

lemma written_data_other:
  "\<forall>k. index \<le> k \<longrightarrow> dat k \<noteq> r \<Longrightarrow> written r (aux_write_data dat index tx h) = written r h"
proof (induction dat index tx h rule: aux_write_data.induct)
  case (1 dat index tx h)
  then show ?case
    by (subst aux_write_data.simps) (simp add: write32_def)
qed

lemma written_data:
  assumes "inj dat" "4 * k < length tx"
  shows "written (dat (index + k)) (aux_write_data dat index tx h) = written (dat (index + k)) h @ [aux_word (take 4 (drop (4 * k) tx))]"
  using assms
proof (induction dat index tx h arbitrary: k rule: aux_write_data.induct)
  case (1 dat index tx h)
  show ?case
  proof (cases k)
    case 0
    have "dat n \<noteq> dat index" if "index + 1 \<le> n" for n
      using inj_eq [OF 1(2)] that by simp
    then show ?thesis
      using 1(3) 0 by (subst aux_write_data.simps) (simp add: written_data_other write32_def)
  next
    case (Suc j)
    then have "written (dat (index + 1 + j)) (aux_write_data dat (index + 1) (drop 4 tx) h') =
      written (dat (index + 1 + j)) h' @ [aux_word (take 4 (drop (4 * j) (drop 4 tx)))]" if "h' = write32 (dat index) (aux_word (take 4 tx)) h" for h'
      unfolding that using 1(2,3) by (intro 1(1)) auto
    moreover have "dat index \<noteq> dat (index + 1 + j)"
      using inj_eq [OF 1(2)] by simp
    ultimately show ?thesis
      using 1(3) Suc by (subst aux_write_data.simps) (auto simp: write32_def add.commute)
  qed
qed

text \<open>Hardware that reading does not change, and that has the bytes of an answer in its data registers, hands them over.\<close>

definition read_only :: "hardware \<Rightarrow> bool" where
  "read_only hw \<longleftrightarrow> (\<forall>h r s. reg_answer hw (h @ [Reg_read r]) s = reg_answer hw h s)"

lemma aux_read_data_bytes:
  assumes "read_only hw"
  shows "(\<And>k. 4 * k < length rx \<Longrightarrow> reg_answer hw h (dat (index + k)) = aux_word (take 4 (drop (4 * k) rx))) \<Longrightarrow> \<forall>b\<in>set rx. b < 256 \<Longrightarrow>
     n \<le> length rx \<Longrightarrow> fst (aux_read_data hw dat index n h) = take n rx"
proof (induction n arbitrary: rx index h rule: less_induct)
  case (less n)
  show ?case
  proof (cases "n = 0")
    case False
    have "reg_answer hw h (dat index) = aux_word (take 4 rx)"
      using less(2) [of 0] False less(4) by (cases rx) simp_all
    moreover have "take n (aux_bytes (aux_word (take 4 rx))) = take n (take 4 rx)"
      using less(3,4) by (subst aux_bytes_word) (auto dest: in_set_takeD simp: min_def)
    moreover have "fst (aux_read_data hw dat (index + 1) (n - 4) (h @ [Reg_read (dat index)])) = take (n - 4) (drop 4 rx)"
    proof (rule less(1))
      fix k
      assume k: "4 * k < length (drop 4 rx)"
      have "reg_answer hw (h @ [Reg_read (dat index)]) (dat (index + 1 + k)) = reg_answer hw h (dat (index + Suc k))"
        using assms by (simp add: read_only_def)
      also have "\<dots> = aux_word (take 4 (drop (4 * Suc k) rx))"
        using k by (intro less(2)) simp
      finally show "reg_answer hw (h @ [Reg_read (dat index)]) (dat (index + 1 + k)) = aux_word (take 4 (drop (4 * k) (drop 4 rx)))"
        by (simp add: add.commute)
    qed (use less(3,4) False in \<open>auto dest: in_set_dropD\<close>)
    moreover have "take n (take 4 rx) @ take (n - 4) (drop 4 rx) = take n rx"
      by (cases "4 \<le> n") (simp_all add: min_def take_add [symmetric] flip: take_add)
    ultimately show ?thesis
      using False by (subst aux_read_data.simps) (simp add: read32_def case_prod_beta)
  qed (simp add: aux_read_data.simps)
qed

lemma read_only_register_file: "read_only register_file"
  by (simp add: read_only_def register_file_def)

lemma inj_DP_AUX_CH_DATA: "inj (DP_AUX_CH_DATA aux)"
  by (simp add: inj_def DP_AUX_CH_DATA_def)

text \<open>
  C32: the data registers carry a message unharmed: what \<open>_DpAuxTransfer\<close> writes for any message of bytes, four to a
  register from the highest byte on and the last register filled with zeros, is what its reading loop gets back
  from registers that keep their values.
\<close>

theorem aux_data_roundtrip:
  "\<forall>b\<in>set tx. b < 256 \<Longrightarrow>
     fst (aux_read_data register_file (DP_AUX_CH_DATA channel) 0 (length tx) (aux_write_data (DP_AUX_CH_DATA channel) 0 tx h)) = tx"
proof -
  assume tx: "\<forall>b\<in>set tx. b < 256"
  have "reg_answer register_file (aux_write_data (DP_AUX_CH_DATA channel) 0 tx h) (DP_AUX_CH_DATA channel k) = aux_word (take 4 (drop (4 * k) tx))"
    if "4 * k < length tx" for k
    using written_data [OF inj_DP_AUX_CH_DATA that, of channel 0] by (simp add: register_file_def)
  with tx show ?thesis
    by (subst aux_read_data_bytes [OF read_only_register_file, of tx]) simp_all
qed

definition sample_message :: "nat list" where
  "sample_message = [0x50, 0, 0x50, 1, 0xde, 0xad]"

theorem aux_data_roundtrip_witness:
  "fst (aux_read_data register_file (DP_AUX_CH_DATA 1) 0 (length sample_message) (aux_write_data (DP_AUX_CH_DATA 1) 0 sample_message [])) =
     sample_message"
  by (rule aux_data_roundtrip) (simp add: sample_message_def)

section \<open>How long a transaction takes\<close>

lemma clear_status_loop_length:
  "i \<le> timeout + 50 \<Longrightarrow> length (snd (clear_status_loop hw a b timeout i st h)) \<le> length h + 2 * ((timeout + 50 - i) div 50)"
proof (induction hw a b timeout i st h rule: clear_status_loop.induct)
  case (1 hw a b timeout i st h)
  show ?case
  proof (cases "i \<le> timeout")
    case True
    then have n: "(timeout + 50 - i) div 50 = Suc ((timeout + 50 - (i + 50)) div 50)"
      using le_div_geq [of 50 "timeout + 50 - i"] by simp
    have "length (snd (clear_status_loop hw a b timeout (i + 50) v (h @ [Spun 50, Reg_read a]))) \<le>
        length h + 2 + 2 * ((timeout + 50 - (i + 50)) div 50)"
      if "v = reg_answer hw (h @ [Spun 50]) a" "v AND b \<noteq> 0" for v
      using 1(1) [OF True, of "(v, h @ [Spun 50, Reg_read a])" v "h @ [Spun 50, Reg_read a]"] that True by (simp add: read32_def)
    then show ?thesis
      using True by (subst clear_status_loop.simps) (auto simp: read32_def n Let_def)
  qed (simp add: clear_status_loop.simps)
qed

lemma wait_for_clear_status_length: "length (snd (wait_for_clear_status hw a b timeout h)) \<le> length h + 2 * (timeout div 50 + 1)"
  using clear_status_loop_length [of 0 timeout hw a b 0 h] div_add_self2 [of 50 timeout] by (simp add: wait_for_clear_status_def)

lemma aux_idle_loop_length: "length (snd (aux_idle_loop hw ctl n h)) \<le> length h + 2 * n + 1"
proof (induction n arbitrary: h)
  case (Suc n)
  show ?case
    using Suc [of "snooze 1000 (h @ [Reg_read ctl])"] by (subst aux_idle_loop.simps) (simp add: read32_def snooze_def)
qed (subst aux_idle_loop.simps, simp add: read32_def)

lemma aux_write_data_length: "length (aux_write_data dat i tx h) = length h + (length tx + 3) div 4"
proof (induction dat i tx h rule: aux_write_data.induct)
  case (1 dat i tx h)
  show ?case
  proof (cases "tx = []")
    case False
    then have "(length tx + 3) div 4 = Suc ((length tx - 4 + 3) div 4)"
      using le_div_geq [of 4 "length tx + 3"] by (cases "4 \<le> length tx") (auto simp: Suc_le_eq)
    with 1 [OF False] False show ?thesis
      by (subst aux_write_data.simps) (simp add: write32_def)
  qed (simp add: aux_write_data.simps)
qed

lemma aux_read_data_length: "length (snd (aux_read_data hw dat i n h)) = length h + (n + 3) div 4"
proof (induction n arbitrary: i h rule: less_induct)
  case (less n)
  show ?case
  proof (cases "n = 0")
    case False
    then have "(n + 3) div 4 = Suc ((n - 4 + 3) div 4)"
      using le_div_geq [of 4 "n + 3"] by (cases "4 \<le> n") (auto simp: Suc_le_eq)
    with less [of "n - 4" "i + 1" "h @ [Reg_read (dat i)]"] False show ?thesis
      by (subst aux_read_data.simps) (simp add: read32_def case_prod_beta)
  qed (simp add: aux_read_data.simps)
qed

lemma aux_attempts_length:
  "length tx \<le> 20 \<Longrightarrow> length (snd (aux_attempts hw ctl dat sc tx n st h)) \<le> length h + n * 410"
proof (induction n arbitrary: st h)
  case (Suc n)
  let ?h = "write32 ctl sc (aux_write_data dat 0 tx h)"
  obtain v h' where w: "wait_for_clear_status hw ctl INTEL_DP_AUX_CTL_BUSY 10000 ?h = (v, h')"
    by fastforce
  have "length ?h \<le> length h + 6"
    using Suc.prems by (simp add: write32_def aux_write_data_length)
  moreover have "length h' \<le> length ?h + 402"
    using wait_for_clear_status_length [of hw ctl INTEL_DP_AUX_CTL_BUSY 10000 ?h] by (simp add: w)
  ultimately have "length h' \<le> length h + 408"
    by simp
  moreover have "length (snd (aux_attempts hw ctl dat sc tx n v (write32 ctl c h'))) \<le> length h' + 1 + n * 410"
    "length (snd (aux_attempts hw ctl dat sc tx n v (snooze 400 (write32 ctl c h')))) \<le> length h' + 2 + n * 410" for c
    using Suc.IH [OF Suc.prems, of v "write32 ctl c h'"] Suc.IH [OF Suc.prems, of v "snooze 400 (write32 ctl c h')"]
    by (simp_all add: write32_def snooze_def)
  ultimately show ?case
    by (simp add: Let_def w, intro conjI impI; (fastforce simp: write32_def intro: le_trans)?)
qed simp


lemma DpAuxTransfer_length: "length (snd (DpAuxTransfer hw si port tx n h)) \<le> length h + 2062"
proof (cases "aux_registers si port")
  case (Some regs)
  obtain ctl dat where regs: "regs = (ctl, dat)"
    by fastforce
  obtain idle h1 where i: "aux_idle_loop hw ctl 3 h = (idle, h1)"
    by fastforce
  obtain st h2 where a: "aux_attempts hw ctl dat (aux_send_control si port (length tx)) tx 5 0 h1 = (st, h2)"
    by fastforce
  have h1: "length h1 \<le> length h + 7"
    using aux_idle_loop_length [of hw ctl 3 h] by (simp add: i)
  have h2: "length h2 \<le> length h1 + 2050" if "length tx \<le> 20"
    using aux_attempts_length [OF that, of hw ctl dat "aux_send_control si port (length tx)" 5 0 h1] by (simp add: a)
  have h3: "length (snd (aux_read_data hw dat 0 (min b n) h2)) \<le> length h2 + 5" if "n \<le> 20" for b
    using that by (simp add: aux_read_data_length)
  show ?thesis
    using h1 h2 h3 [of "unat (drop_bit 20 (st AND INTEL_DP_AUX_CTL_MSG_SIZE_MASK))"]
    by (auto simp add: DpAuxTransfer_def Some regs i a Let_def simp del: aux_attempts.simps)
qed (simp add: DpAuxTransfer_def)

text \<open>A raw transfer that appends at most \<open>B\<close> entries.\<close>

definition bounded :: "nat \<Rightarrow> raw_transfer \<Rightarrow> bool" where
  "bounded B raw \<longleftrightarrow> (\<forall>tx n h. length (snd (raw tx n h)) \<le> length h + B)"

lemma boundedD: "bounded B raw \<Longrightarrow> raw tx n h = (r, h') \<Longrightarrow> length h' \<le> length h + B"
  unfolding bounded_def by (metis snd_conv)

lemma aux_tries_length: "bounded B raw \<Longrightarrow> aux_tries raw n msg h = (st, msg', h') \<Longrightarrow> length h' \<le> length h + n * (B + 1)"
proof (induction n arbitrary: msg h)
  case (Suc n)
  obtain r h1 where r: "raw (aux_transmit msg) (if request_kind (msg_request msg) = Aux_write then 2 else u8 (msg_size msg + 1)) h = (r, h1)"
    by fastforce
  have h1: "length h1 \<le> length h + B"
    by (rule boundedD [OF Suc.prems(1) r])
  have rec: "length h' \<le> length h2 + n * (B + 1)" if "aux_tries raw n m h2 = (st, msg', h')" for m h2
    by (rule Suc.IH [OF Suc.prems(1) that])
  show ?case
    using Suc.prems(2) h1 rec [of msg h1] rec [of _ "snooze 400 h1"]
    by (fastforce simp: r Let_def snooze_def split: if_splits sum.splits)
qed simp

lemma DpAuxMessage_length:
  "bounded B raw \<Longrightarrow> DpAuxMessage raw msg h = (st, msg', h') \<Longrightarrow> length h' \<le> length h + 7 * (B + 1)"
  by (auto simp: DpAuxMessage_def split: if_splits dest!: aux_tries_length)

lemma aux_piece_length:
  "bounded B raw \<Longrightarrow> aux_piece raw n msg h = (st, msg', h') \<Longrightarrow> length h' \<le> length h + n * (7 * (B + 1) + 1)"
proof (induction n arbitrary: msg h)
  case (Suc n)
  obtain r m h1 where r: "DpAuxMessage raw msg h = (r, m, h1)"
    by (metis prod_cases3)
  have h1: "length h1 \<le> length h + 7 * (B + 1)"
    by (rule DpAuxMessage_length [OF Suc.prems(1) r])
  have rec: "length h' \<le> length h2 + n * (7 * (B + 1) + 1)" if "aux_piece raw n m h2 = (st, msg', h')" for m h2
    by (rule Suc.IH [OF Suc.prems(1) that])
  show ?case
    using Suc.prems(2) h1 rec [of m "snooze 400 h1"]
    by (fastforce simp: r Let_def snooze_def split: if_splits)
qed simp


lemma aux_pieces_length:
  "bounded B raw \<Longrightarrow> aux_pieces raw msg buf h = (st, buf', msg', h') \<Longrightarrow>
     length h' \<le> length h + (length buf + 15) div 16 * (7 * (7 * (B + 1) + 1))"
proof (induction "length buf" arbitrary: msg buf h st buf' msg' h' rule: less_induct)
  case less
  show ?case
  proof (cases "buf = []")
    case True
    then show ?thesis
      using less.prems(2) by (simp add: aux_pieces.simps)
  next
    case False
    define m where "m = msg\<lparr>msg_buffer := Some (take 16 buf), msg_size := min 16 (length buf),
      msg_request := with_mot (16 < length buf) (msg_request msg)\<rparr>"
    obtain st1 m1 h1 where r: "aux_piece raw 7 m h = (st1, m1, h1)"
      by (metis prod_cases3)
    obtain st2 b2 m2 h2 where r2: "aux_pieces raw m1 (drop 16 buf) h1 = (st2, b2, m2, h2)"
      by (metis prod_cases4)
    have h1: "length h1 \<le> length h + 7 * (7 * (B + 1) + 1)"
      by (rule aux_piece_length [OF less.prems(1) r])
    have h2: "length h2 \<le> length h1 + (length buf - 16 + 15) div 16 * (7 * (7 * (B + 1) + 1))"
      using less.hyps [OF _ less.prems(1) r2] False by simp
    have "(length buf + 15) div 16 = Suc ((length buf - 16 + 15) div 16)"
      using le_div_geq [of 16 "length buf + 15"] False by (cases "16 \<le> length buf") (auto simp: Suc_le_eq)
    moreover have "h' = h1 \<or> h' = h2"
      using less.prems(2) False r r2 unfolding m_def
      by (subst (asm) aux_pieces.simps) (auto simp: Let_def split: if_splits)
    ultimately show ?thesis
      using h1 h2 by auto
  qed
qed

lemma aux_phase_length:
  assumes "bounded B raw" "aux_phase raw req a buf msg h = (st, buf', msg', h')"
  shows "length h' \<le> length h + 7 * (B + 1) + (length buf + 15) div 16 * (7 * (7 * (B + 1) + 1))"
proof -
  obtain st1 m1 h1 where r: "DpAuxMessage raw (msg\<lparr>msg_address := a, msg_buffer := None, msg_request := req, msg_size := 0\<rparr>) h = (st1, m1, h1)"
    by (metis prod_cases3)
  have "length h1 \<le> length h + 7 * (B + 1)"
    by (rule DpAuxMessage_length [OF assms(1) r])
  moreover have "length h' \<le> length h1 + (length buf + 15) div 16 * (7 * (7 * (B + 1) + 1))"
    using assms(2) aux_pieces_length [OF assms(1)] by (auto simp: aux_phase_def r Let_def split: if_splits)
  ultimately show ?thesis by linarith
qed

lemma DpAuxTransfer_bounded: "bounded 2062 (DpAuxTransfer hw si port)"
  by (simp add: bounded_def DpAuxTransfer_length)

text \<open>
  C33: a transfer over the AUX channel ends, whatever the hardware answers and how often the sink defers: it returns after at most
  101,094 register accesses and waits for each 16 bytes that are written or read, and 14,441 for each direction.
\<close>

theorem aux_transfer_ends:
  "\<exists>st rd' h'. DpAuxSendReceiveHook hw si port a wr rd h = Some (st, rd', h') \<and>
     length h' \<le> length h + 2 * 14441 + ((length wr + 15) div 16 + (length rd + 15) div 16) * 101094"
proof -
  let ?raw = "DpAuxTransfer hw si port"
  obtain st1 b1 m1 h1 where w: "aux_phase ?raw DP_AUX_I2C_WRITE a wr
      \<lparr>msg_address = 0, msg_request = 0, msg_reply = 0, msg_buffer = None, msg_size = 0\<rparr> h = (st1, b1, m1, h1)"
    by (metis prod_cases4)
  obtain st2 b2 m2 h2 where r: "aux_phase ?raw DP_AUX_I2C_READ a rd m1 h1 = (st2, b2, m2, h2)"
    by (metis prod_cases4)
  have "length h1 \<le> length h + 14441 + (length wr + 15) div 16 * 101094" "length h2 \<le> length h1 + 14441 + (length rd + 15) div 16 * 101094"
    using aux_phase_length [OF DpAuxTransfer_bounded w] aux_phase_length [OF DpAuxTransfer_bounded r] by simp_all
  then show ?thesis
    by (simp add: DpAuxSendReceiveHook_def DpAuxSendReceive_def Let_def w r add_mult_distrib)
qed

section \<open>What a transfer does on a channel that answers\<close>

lemma aux_idle_now: "reg_answer hw h ctl AND INTEL_DP_AUX_CTL_BUSY = 0 \<Longrightarrow> aux_idle_loop hw ctl n h = (True, h @ [Reg_read ctl])"
  by (subst aux_idle_loop.simps) (simp add: read32_def)

lemma wait_clear_now:
  "reg_answer hw (h @ [Spun 50]) ctl AND b = 0 \<Longrightarrow>
     wait_for_clear_status hw ctl b t h = (reg_answer hw (h @ [Spun 50]) ctl, h @ [Spun 50, Reg_read ctl])"
  by (simp add: wait_for_clear_status_def, subst clear_status_loop.simps) (simp add: read32_def)

text \<open>The history when the channel has answered in the first attempt.\<close>

definition aux_sent :: "nat \<Rightarrow> (nat \<Rightarrow> nat) \<Rightarrow> 32 word \<Rightarrow> nat list \<Rightarrow> history \<Rightarrow> history" where
  "aux_sent ctl dat sc tx h = write32 ctl sc (aux_write_data dat 0 tx (h @ [Reg_read ctl]))"

definition aux_acknowledged :: "nat \<Rightarrow> 32 word \<Rightarrow> history \<Rightarrow> history" where
  "aux_acknowledged ctl status h =
     write32 ctl (status OR INTEL_DP_AUX_CTL_DONE OR INTEL_DP_AUX_CTL_TIMEOUT_ERROR OR INTEL_DP_AUX_CTL_RECEIVE_ERROR)
       (h @ [Spun 50, Reg_read ctl])"

text \<open>A status that says that \<open>n\<close> bytes have come.\<close>

definition came :: "nat \<Rightarrow> 32 word" where
  "came n = INTEL_DP_AUX_CTL_DONE OR push_bit 20 (word_of_nat n)"

lemma came_flags:
  assumes "n \<le> 20"
  shows "came n AND INTEL_DP_AUX_CTL_BUSY = 0" "came n AND INTEL_DP_AUX_CTL_TIMEOUT_ERROR = 0"
    "came n AND INTEL_DP_AUX_CTL_RECEIVE_ERROR = 0" "came n AND INTEL_DP_AUX_CTL_DONE \<noteq> 0"
    "unat (drop_bit 20 (came n AND INTEL_DP_AUX_CTL_MSG_SIZE_MASK)) = n"
proof -
  have "n \<in> set [0..<21]"
    using assms by simp
  moreover have "\<forall>n\<in>set [0..<21]. came n AND INTEL_DP_AUX_CTL_BUSY = 0 \<and> came n AND INTEL_DP_AUX_CTL_TIMEOUT_ERROR = 0 \<and>
    came n AND INTEL_DP_AUX_CTL_RECEIVE_ERROR = 0 \<and> came n AND INTEL_DP_AUX_CTL_DONE \<noteq> 0 \<and>
    unat (drop_bit 20 (came n AND INTEL_DP_AUX_CTL_MSG_SIZE_MASK)) = n"
    by code_simp
  ultimately show "came n AND INTEL_DP_AUX_CTL_BUSY = 0" "came n AND INTEL_DP_AUX_CTL_TIMEOUT_ERROR = 0"
    "came n AND INTEL_DP_AUX_CTL_RECEIVE_ERROR = 0" "came n AND INTEL_DP_AUX_CTL_DONE \<noteq> 0"
    "unat (drop_bit 20 (came n AND INTEL_DP_AUX_CTL_MSG_SIZE_MASK)) = n"
    by blast+
qed

lemma DpAuxTransfer_answered:
  assumes "aux_registers si port = Some (ctl, dat)" "length tx \<le> 20" "n \<le> 20" "0 < k" "k \<le> 20"
    and "reg_answer hw h ctl AND INTEL_DP_AUX_CTL_BUSY = 0"
    and "h' = aux_sent ctl dat (aux_send_control si port (length tx)) tx h"
    and "reg_answer hw (h' @ [Spun 50]) ctl = came k"
  shows "DpAuxTransfer hw si port tx n h = apfst Inr (aux_read_data hw dat 0 (min k n) (aux_acknowledged ctl (came k) h'))"
proof -
  have five: "(5::nat) = Suc 4"
    by simp
  have "aux_attempts hw ctl dat (aux_send_control si port (length tx)) tx 5 0 (h @ [Reg_read ctl]) = (came k, aux_acknowledged ctl (came k) h')"
    unfolding five aux_attempts.simps aux_sent_def [symmetric] assms(7) [symmetric] Let_def
    using assms(8) by (subst wait_clear_now) (simp_all add: came_flags [OF assms(5)] aux_acknowledged_def)
  then show ?thesis
    using assms by (simp add: DpAuxTransfer_def aux_idle_now came_flags [OF assms(5)] Let_def del: drop_bit_and)
qed

text \<open>Data registers and control registers are different.\<close>

lemma aux_registers_apart:
  assumes "aux_registers si port = Some (ctl, dat)"
  shows "dat k = dat 0 + 4 * k" "ctl + 4 = dat 0"
proof -
  show "dat k = dat 0 + 4 * k"
    using assms by (auto simp: aux_registers_def Let_def DP_AUX_CH_DATA_def PCH_DP_AUX_CH_DATA_def split: if_splits)
  show "ctl + 4 = dat 0"
    using assms
    by (auto simp: aux_registers_def Let_def DP_AUX_CH_DATA_def PCH_DP_AUX_CH_DATA_def DP_AUX_CH_CTL_def PCH_DP_AUX_CH_CTL_def
        REGS_NORTH_PIPE_AND_PORT_def REGS_SOUTH_TRANSCODER_PORT_def split: if_splits)
qed


section \<open>A sink that defers\<close>

text \<open>The requests of a transaction.\<close>

definition i2c_request :: "nat \<Rightarrow> bool" where
  "i2c_request r \<longleftrightarrow> r \<in> {0, 1, 4, 5}"

lemma with_mot_request:
  assumes "i2c_request r"
  shows "i2c_request (with_mot b r)" "request_kind (with_mot b r) = request_kind r" "request_kind r \<noteq> Aux_unknown" "r < 16"
proof -
  have "r = 0 \<or> r = 1 \<or> r = 4 \<or> r = 5"
    using assms by (simp add: i2c_request_def)
  then show "i2c_request (with_mot b r)" "request_kind (with_mot b r) = request_kind r" "request_kind r \<noteq> Aux_unknown" "r < 16"
    by (elim disjE; simp add: i2c_request_def with_mot_def request_kind_def request_codes)+
qed

text \<open>Every message is answered with one byte, an acknowledge of the native layer and a deferral of the I2C layer.\<close>

definition defers :: "raw_transfer \<Rightarrow> bool" where
  "defers raw \<longleftrightarrow> (\<forall>tx n h. length tx \<le> 20 \<and> 0 < n \<and> n \<le> 20 \<longrightarrow> (\<exists>h'. raw tx n h = (Inr [0x80], h')))"

text \<open>A message that the sink acknowledges at once. \<open>room\<close> is what is left for the answer.\<close>

definition room :: "dp_aux_msg \<Rightarrow> nat" where
  "room msg = (if request_kind (msg_request msg) = Aux_write then 2 else u8 (msg_size msg + 1))"

lemma DpAuxMessage_acknowledged:
  assumes "raw (aux_transmit msg) (room msg) h = (Inr rx, h')" "msg_reply (aux_received msg rx) AND 3 = 0"
    "msg_size msg \<le> 16" "msg_size msg = 0 \<or> msg_buffer msg \<noteq> None" "i2c_request (msg_request msg)"
  shows "DpAuxMessage raw msg h = (B_OK, aux_received msg rx, h')"
proof -
  have "(7::nat) = Suc 6"
    by simp
  moreover have "aux_tries raw (Suc 6) msg h = (B_OK, aux_received msg rx, h')"
    unfolding aux_tries.simps room_def [symmetric] using assms(1,2) with_mot_request(3) [OF assms(5)] by (simp add: reply_codes Let_def)
  ultimately show ?thesis
    using assms(3,4) by (auto simp: DpAuxMessage_def)
qed

lemma deferred_message:
  assumes "defers raw" "msg_size msg \<le> 16" "msg_size msg = 0 \<or> msg_buffer msg \<noteq> None" "i2c_request (msg_request msg)"
  shows "\<exists>h'. DpAuxMessage raw msg h = (B_OK, msg\<lparr>msg_reply := 8\<rparr>, h')"
proof -
  have "length (aux_transmit msg) \<le> 20"
    using assms(2) by (auto simp: aux_transmit_def split: option.splits)
  moreover have "0 < u8 (msg_size msg + 1)" "u8 (msg_size msg + 1) \<le> 20"
    using assms(2) by (simp_all add: u8_id)
  ultimately obtain h' where "raw (aux_transmit msg) (room msg) h = (Inr [0x80], h')"
    using assms(1) unfolding defers_def room_def by fastforce
  moreover have "aux_received msg [0x80] = msg\<lparr>msg_reply := 8\<rparr>"
    by (cases msg) (simp add: aux_received_def Let_def drop_bit_eq_div option.map_ident)
  ultimately show ?thesis
    using DpAuxMessage_acknowledged [of raw msg h "[0x80]" h'] assms(2-4) by simp
qed

lemma deferred_piece:
  assumes "defers raw" "msg_size msg \<le> 16" "msg_size msg = 0 \<or> msg_buffer msg \<noteq> None" "i2c_request (msg_request msg)"
    "msg_reply msg = 8"
  shows "\<exists>h'. aux_piece raw n msg h = (B_OK, msg, h')"
proof (induction n arbitrary: h)
  case (Suc n)
  obtain h1 where "DpAuxMessage raw msg h = (B_OK, msg\<lparr>msg_reply := 8\<rparr>, h1)"
    using deferred_message [OF assms(1-4)] by blast
  moreover have "msg\<lparr>msg_reply := 8\<rparr> = msg"
    using assms(5) by (cases msg) simp
  ultimately show ?case
    using Suc assms(5) by (simp add: reply_codes)
qed simp


lemma deferred_pieces:
  "defers raw \<Longrightarrow> i2c_request (msg_request msg) \<Longrightarrow> msg_reply msg = 8 \<Longrightarrow> \<exists>m h'. aux_pieces raw msg buf h = (B_OK, buf, m, h') \<and> msg_reply m = 8"
proof (induction "length buf" arbitrary: msg buf h rule: less_induct)
  case less
  show ?case
  proof (cases "buf = []")
    case True
    then show ?thesis
      using less.prems(3) by (simp add: aux_pieces.simps)
  next
    case False
    define m where "m = msg\<lparr>msg_buffer := Some (take 16 buf), msg_size := min 16 (length buf),
      msg_request := with_mot (16 < length buf) (msg_request msg)\<rparr>"
    have m: "i2c_request (msg_request m)" "msg_reply m = 8" "msg_size m \<le> 16" "msg_buffer m = Some (take 16 buf)"
      using less.prems with_mot_request by (simp_all add: m_def)
    obtain h1 where r: "aux_piece raw 7 m h = (B_OK, m, h1)"
      using deferred_piece [OF less.prems(1) m(3) _ m(1,2)] m(4) by auto
    obtain m2 h2 where "aux_pieces raw m (drop 16 buf) h1 = (B_OK, drop 16 buf, m2, h2)" "msg_reply m2 = 8"
      using less.hyps [OF _ less.prems(1) m(1,2), of "drop 16 buf" h1] False by auto
    then show ?thesis
      using False r m(4) unfolding m_def by (subst aux_pieces.simps) (simp add: Let_def)
  qed
qed

lemma deferred_phase:
  assumes "defers raw" "i2c_request r"
  shows "\<exists>m h'. aux_phase raw r a buf msg h = (B_OK, buf, m, h')"
proof -
  let ?msg = "msg\<lparr>msg_address := a, msg_buffer := None, msg_request := r, msg_size := 0\<rparr>"
  obtain h1 where "DpAuxMessage raw ?msg h = (B_OK, ?msg\<lparr>msg_reply := 8\<rparr>, h1)"
    using deferred_message [OF assms(1), of ?msg h] assms(2) by auto
  then show ?thesis
    using deferred_pieces [OF assms(1), of "?msg\<lparr>msg_reply := 8\<rparr>" buf h1] assms(2) by (auto simp: aux_phase_def)
qed

lemma read_one: "0 < n \<Longrightarrow> reg_answer hw h (dat 0) = 0x80000000 \<Longrightarrow> fst (aux_read_data hw dat 0 (min 1 n) h) = [0x80]"
  by (subst aux_read_data.simps, subst aux_read_data.simps) (simp add: read32_def aux_bytes_def u8_def)

lemma came_1: "came 1 = 0x40100000"
  by (simp add: came_def INTEL_DP_AUX_CTL_DONE_def)

text \<open>
  C34: a sink that defers every time is taken for one that has obeyed. When the channel answers each request with a native acknowledge
  and an I2C deferral, a transfer gives up on each piece after seven attempts and counts it as done: the status is \<open>B_OK\<close>,
  nothing was written, and the buffer holds what was in it before.
\<close>

theorem deferral_is_success:
  assumes "aux_registers si port = Some (ctl, dat)" "\<forall>h. reg_answer hw h ctl = 0x40100000" "\<forall>h. reg_answer hw h (dat 0) = 0x80000000"
  shows "\<exists>h'. DpAuxSendReceiveHook hw si port a wr rd h = Some (B_OK, rd, h')"
proof -
  let ?raw = "DpAuxTransfer hw si port"
  have "\<exists>h'. ?raw tx n h = (Inr [0x80], h')" if "length tx \<le> 20 \<and> 0 < n \<and> n \<le> 20" for tx n h
  proof -
    let ?h = "aux_sent ctl dat (aux_send_control si port (length tx)) tx h"
    have "?raw tx n h = apfst Inr (aux_read_data hw dat 0 (min 1 n) (aux_acknowledged ctl (came 1) ?h))"
      using that assms(2) by (intro DpAuxTransfer_answered [OF assms(1)]) (simp_all add: INTEL_DP_AUX_CTL_BUSY_def came_1 [simplified])
    moreover have "fst (aux_read_data hw dat 0 (min 1 n) h') = [0x80]" for h'
      using read_one that assms(3) by blast
    ultimately show ?thesis
      by (metis apfst_conv prod.collapse)
  qed
  then have d: "defers ?raw"
    by (simp add: defers_def)
  have r: "i2c_request DP_AUX_I2C_WRITE" "i2c_request DP_AUX_I2C_READ"
    by (simp_all add: i2c_request_def request_codes)
  obtain m1 h1 where "aux_phase ?raw DP_AUX_I2C_WRITE a wr
      \<lparr>msg_address = 0, msg_request = 0, msg_reply = 0, msg_buffer = None, msg_size = 0\<rparr> h = (B_OK, wr, m1, h1)"
    using deferred_phase [OF d r(1)] by metis
  moreover obtain m2 h2 where "aux_phase ?raw DP_AUX_I2C_READ a rd m1 h1 = (B_OK, rd, m2, h2)"
    using deferred_phase [OF d r(2)] by metis
  ultimately show ?thesis
    by (simp add: DpAuxSendReceiveHook_def DpAuxSendReceive_def)
qed


text \<open>An Ironlake with its hub and an empty table: port A is on the AUX channel A of the processor.\<close>

definition ironlake_info :: shared_info where
  "ironlake_info = \<lparr>device_type = INTEL_GROUP_ILK, pch = INTEL_PCH_IBX, device_configs = [], hw_cdclk = 400000, hraw_clock = 125000,
     vesa_edid_info = None, got_vbt = False\<rparr>"

lemma ironlake_aux: "aux_registers ironlake_info INTEL_PORT_A = Some (DP_AUX_CH_CTL 0, DP_AUX_CH_DATA 0)"
  by (simp add: aux_registers_def ironlake_info_def DpAuxChannel_def IsPortInVBT_def)

definition deferring_panel :: hardware where
  "deferring_panel =
     \<lparr>reg_answer = (\<lambda>h r. if r = DP_AUX_CH_CTL 0 then 0x40100000 else 0x80000000), time_answer = (\<lambda>h. 0)\<rparr>"

theorem deferral_is_success_witness:
  "\<exists>h'. DpAuxSendReceiveHook deferring_panel ironlake_info INTEL_PORT_A 0x50 [0] [7, 7, 7] [] = Some (B_OK, [7, 7, 7], h')"
  using aux_registers_apart(2) [OF ironlake_aux]
  by (intro deferral_is_success [OF ironlake_aux]) (simp_all add: deferring_panel_def)

end
