(* ===== verification/Dp_Sink.thy ===== *)
theory Dp_Sink
  imports Dp_Aux
begin

text \<open>
  The other end of the AUX channel: what a transfer achieves with a sink that serves it, and that a monitor's EDID comes
  over the channel as it is. The sink is hardware of the model: registers that answer by what was written before.
\<close>


section \<open>Sinks that serve a transaction\<close>

text \<open>\<open>left\<close> is what the sink has still to send. A write is acknowledged, a read gets the next bytes.\<close>

definition serves :: "raw_transfer \<Rightarrow> (history \<Rightarrow> nat list) \<Rightarrow> bool" where
  "serves raw left \<longleftrightarrow>
     (\<forall>msg h. i2c_request (msg_request msg) \<and> msg_size msg \<le> 16 \<longrightarrow>
        (if request_kind (msg_request msg) = Aux_write
         then \<exists>h'. raw (aux_transmit msg) (room msg) h = (Inr [0], h') \<and> left h' = left h
         else msg_size msg \<le> length (left h) \<longrightarrow>
           (\<exists>h'. raw (aux_transmit msg) (room msg) h = (Inr (0 # take (msg_size msg) (left h)), h') \<and> left h' = drop (msg_size msg) (left h))))"

lemma serves_write:
  assumes "serves raw left" "i2c_request (msg_request msg)" "msg_size msg \<le> 16" "request_kind (msg_request msg) = Aux_write"
    "msg_size msg = 0 \<or> msg_buffer msg \<noteq> None"
  shows "\<exists>h'. DpAuxMessage raw msg h = (B_OK, msg\<lparr>msg_reply := 0\<rparr>, h') \<and> left h' = left h"
proof -
  obtain h' where h': "raw (aux_transmit msg) (room msg) h = (Inr [0], h')" "left h' = left h"
    using assms(1-4) unfolding serves_def by metis
  moreover have "aux_received msg [0] = msg\<lparr>msg_reply := 0\<rparr>"
    using assms(4) by (simp add: aux_received_def Let_def)
  ultimately show ?thesis
    using DpAuxMessage_acknowledged [of raw msg h "[0]" h'] assms(2,3,5) by auto
qed

lemma serves_read:
  assumes "serves raw left" "i2c_request (msg_request msg)" "msg_size msg \<le> 16" "request_kind (msg_request msg) \<noteq> Aux_write"
    "msg_size msg \<le> length (left h)" "msg_buffer msg = (if msg_size msg = 0 then None else Some buf)" "length buf = msg_size msg"
  shows "\<exists>h'. DpAuxMessage raw msg h = (B_OK, msg\<lparr>msg_reply := 0,
      msg_buffer := (if msg_size msg = 0 then None else Some (take (msg_size msg) (left h)))\<rparr>, h') \<and> left h' = drop (msg_size msg) (left h)"
proof -
  obtain h' where h': "raw (aux_transmit msg) (room msg) h = (Inr (0 # take (msg_size msg) (left h)), h')" "left h' = drop (msg_size msg) (left h)"
    using assms(1-5) unfolding serves_def by (metis (full_types))
  moreover have "request_kind (msg_request msg) = Aux_read"
    using with_mot_request(3) [OF assms(2)] assms(4) by (cases "request_kind (msg_request msg)") simp_all
  then have "aux_received msg (0 # take (msg_size msg) (left h)) = msg\<lparr>msg_reply := 0,
      msg_buffer := (if msg_size msg = 0 then None else Some (take (msg_size msg) (left h)))\<rparr>"
    using assms(5-7) by (simp add: aux_received_def Let_def)
  ultimately show ?thesis
    using DpAuxMessage_acknowledged [of raw msg h "0 # take (msg_size msg) (left h)" h'] assms(2,3,6) by auto
qed

text \<open>The pieces of a write are taken, those of a read are filled.\<close>

lemma served_write:
  "serves raw left \<Longrightarrow> i2c_request (msg_request msg) \<Longrightarrow> request_kind (msg_request msg) = Aux_write \<Longrightarrow>
     \<exists>m h'. aux_pieces raw msg buf h = (B_OK, buf, m, h') \<and> left h' = left h"
proof (induction "length buf" arbitrary: msg buf h rule: less_induct)
  case less
  show ?case
  proof (cases "buf = []")
    case True
    then show ?thesis
      by (simp add: aux_pieces.simps)
  next
    case False
    define m where "m = msg\<lparr>msg_buffer := Some (take 16 buf), msg_size := min 16 (length buf),
      msg_request := with_mot (16 < length buf) (msg_request msg)\<rparr>"
    have m: "i2c_request (msg_request m)" "msg_size m \<le> 16" "request_kind (msg_request m) = Aux_write" "msg_buffer m = Some (take 16 buf)"
      using less.prems with_mot_request by (simp_all add: m_def)
    obtain h1 where r: "DpAuxMessage raw m h = (B_OK, m\<lparr>msg_reply := 0\<rparr>, h1)" "left h1 = left h"
      using serves_write [OF less.prems(1) m(1-3)] m(4) by blast
    have seven: "(7::nat) = Suc 6"
      by simp
    have "aux_piece raw 7 m h = (B_OK, m\<lparr>msg_reply := 0\<rparr>, h1)"
      unfolding seven aux_piece.simps by (simp add: r reply_codes)
    moreover obtain m2 h2 where "aux_pieces raw (m\<lparr>msg_reply := 0\<rparr>) (drop 16 buf) h1 = (B_OK, drop 16 buf, m2, h2)" "left h2 = left h1"
      using less.hyps [of "drop 16 buf" "m\<lparr>msg_reply := 0\<rparr>" h1] less.prems(1) m False by auto
    ultimately show ?thesis
      using False m(4) r(2) unfolding m_def by (subst aux_pieces.simps) (simp add: Let_def)
  qed
qed

lemma served_read:
  "serves raw left \<Longrightarrow> i2c_request (msg_request msg) \<Longrightarrow> request_kind (msg_request msg) \<noteq> Aux_write \<Longrightarrow> length buf \<le> length (left h) \<Longrightarrow>
     \<exists>m h'. aux_pieces raw msg buf h = (B_OK, take (length buf) (left h), m, h') \<and> left h' = drop (length buf) (left h)"
proof (induction "length buf" arbitrary: msg buf h rule: less_induct)
  case less
  show ?case
  proof (cases "buf = []")
    case True
    then show ?thesis
      by (simp add: aux_pieces.simps)
  next
    case False
    define n where "n = min 16 (length buf)"
    define m where "m = msg\<lparr>msg_buffer := Some (take 16 buf), msg_size := n,
      msg_request := with_mot (16 < length buf) (msg_request msg)\<rparr>"
    have n: "0 < n" "n \<le> 16" "n \<le> length (left h)" "length (take 16 buf) = n"
      using False less.prems(4) by (auto simp: n_def)
    have m: "i2c_request (msg_request m)" "request_kind (msg_request m) \<noteq> Aux_write" "msg_buffer m = Some (take 16 buf)" "msg_size m = n"
      using less.prems with_mot_request by (simp_all add: m_def)
    define m1 where "m1 = m\<lparr>msg_reply := 0, msg_buffer := Some (take n (left h))\<rparr>"
    obtain h1 where r: "DpAuxMessage raw m h = (B_OK, m1, h1)" "left h1 = drop n (left h)"
      using serves_read [OF less.prems(1) m(1) _ m(2), of h "take 16 buf"] m(3,4) n unfolding m1_def by auto
    have seven: "(7::nat) = Suc 6"
      by simp
    have piece: "aux_piece raw 7 m h = (B_OK, m1, h1)"
      unfolding seven aux_piece.simps by (simp add: r(1) reply_codes m1_def)
    have m1: "i2c_request (msg_request m1)" "request_kind (msg_request m1) \<noteq> Aux_write" "msg_buffer m1 = Some (take n (left h))"
      using m by (simp_all add: m1_def)
    have "length (drop 16 buf) < length buf" "length (drop 16 buf) \<le> length (left h1)"
      using False less.prems(4) r(2) by (auto simp: n_def)
    then obtain m2 h2 where rest: "aux_pieces raw m1 (drop 16 buf) h1 = (B_OK, take (length (drop 16 buf)) (left h1), m2, h2)"
      "left h2 = drop (length (drop 16 buf)) (left h1)"
      using less.hyps [OF _ less.prems(1) m1(1,2)] by blast
    have all: "n + length (drop 16 buf) = length buf"
      by (simp add: n_def)
    have "take n (left h) @ take (length (drop 16 buf)) (drop n (left h)) = take (length buf) (left h)"
      by (simp only: all take_add [symmetric])
    moreover have "drop (length (drop 16 buf)) (drop n (left h)) = drop (length buf) (left h)"
      by (simp only: drop_drop add.commute all)
    ultimately show ?thesis
      using False piece rest r(2) m1(3) unfolding m_def n_def by (subst aux_pieces.simps) (simp add: Let_def)
  qed
qed

lemma served_transaction:
  assumes "serves raw left" "length rd \<le> length (left h)"
  shows "\<exists>h'. DpAuxSendReceive raw a (Some wr) (Some rd) h = (B_OK, Some (take (length rd) (left h)), h') \<and> left h' = drop (length rd) (left h)"
proof -
  define msg where "msg = \<lparr>msg_address = 0, msg_request = 0, msg_reply = 0, msg_buffer = None, msg_size = 0\<rparr>"
  have r: "i2c_request DP_AUX_I2C_WRITE" "i2c_request DP_AUX_I2C_READ" "request_kind DP_AUX_I2C_WRITE = Aux_write"
    "request_kind DP_AUX_I2C_READ = Aux_read"
    by (simp_all add: i2c_request_def request_codes request_kind_def)
  define w where "w = msg\<lparr>msg_address := a, msg_buffer := None, msg_request := DP_AUX_I2C_WRITE, msg_size := 0\<rparr>"
  obtain h1 where h1: "DpAuxMessage raw w h = (B_OK, w\<lparr>msg_reply := 0\<rparr>, h1)" "left h1 = left h"
    using serves_write [OF assms(1), of w h] r by (auto simp: w_def)
  obtain m2 h2 where h2: "aux_pieces raw (w\<lparr>msg_reply := 0\<rparr>) wr h1 = (B_OK, wr, m2, h2)" "left h2 = left h"
    using served_write [OF assms(1), of "w\<lparr>msg_reply := 0\<rparr>" wr h1] r h1(2) by (auto simp: w_def)
  define v where "v = m2\<lparr>msg_address := a, msg_buffer := None, msg_request := DP_AUX_I2C_READ, msg_size := 0\<rparr>"
  obtain h3 where h3: "DpAuxMessage raw v h2 = (B_OK, v\<lparr>msg_reply := 0\<rparr>, h3)" "left h3 = left h"
    using serves_read [OF assms(1), of v h2 "[]"] r h2(2) by (auto simp: v_def)
  obtain m4 h4 where "aux_pieces raw (v\<lparr>msg_reply := 0\<rparr>) rd h3 = (B_OK, take (length rd) (left h), m4, h4)" "left h4 = drop (length rd) (left h)"
    using served_read [OF assms(1), of "v\<lparr>msg_reply := 0\<rparr>" rd h3] r h3(2) assms(2) by (auto simp: v_def)
  then show ?thesis
    using h1 h2 h3 by (simp add: DpAuxSendReceive_def aux_phase_def msg_def [symmetric] w_def [symmetric] v_def [symmetric])
qed

section \<open>A sink in the registers\<close>

text \<open>The state of the sink: the first data register, how many bytes have been sent, and the answer in the registers. A write of
  the control register with the busy bit starts a transfer, which \<open>bare\<close> marks as one with an address only.\<close>

fun sink_step :: "nat \<Rightarrow> nat \<Rightarrow> 32 word \<Rightarrow> nat list \<Rightarrow> access \<Rightarrow> 32 word \<times> nat \<times> nat list \<Rightarrow> 32 word \<times> nat \<times> nat list" where
  "sink_step ctl d0 bare content (Reg_write r v) (w, sent, reply) =
     (if r = d0 then (v, sent, reply)
      else if r = ctl \<and> v AND INTEL_DP_AUX_CTL_BUSY \<noteq> 0 then
        (if request_kind (hd (aux_bytes w) div 16) = Aux_read
         then let n = (if v = bare then 0 else last (aux_bytes w) + 1) in (w, sent + n, 0 # take n (drop sent content))
         else (w, sent, [0]))
      else (w, sent, reply))"
| "sink_step ctl d0 bare content _ s = s"

definition sink_state :: "nat \<Rightarrow> nat \<Rightarrow> 32 word \<Rightarrow> nat list \<Rightarrow> history \<Rightarrow> 32 word \<times> nat \<times> nat list" where
  "sink_state ctl d0 bare content h = fold (sink_step ctl d0 bare content) h (0, 0, [])"

definition sink :: "nat \<Rightarrow> nat \<Rightarrow> 32 word \<Rightarrow> nat list \<Rightarrow> hardware" where
  "sink ctl d0 bare content =
     \<lparr>reg_answer = (\<lambda>h r. let (w, sent, reply) = sink_state ctl d0 bare content h
        in if r = ctl then came (min 20 (length reply)) else aux_word (take 4 (drop (r - d0) reply))),
      time_answer = (\<lambda>h. 0)\<rparr>"

definition sink_left :: "nat \<Rightarrow> nat \<Rightarrow> 32 word \<Rightarrow> nat list \<Rightarrow> history \<Rightarrow> nat list" where
  "sink_left ctl d0 bare content h = drop (fst (snd (sink_state ctl d0 bare content h))) content"

lemma sink_state_append: "sink_state ctl d0 bare content (h @ h') = fold (sink_step ctl d0 bare content) h' (sink_state ctl d0 bare content h)"
  by (simp add: sink_state_def)

lemma sink_quiet:
  "sink_state ctl d0 bare content (h @ [Reg_read r]) = sink_state ctl d0 bare content h"
  "sink_state ctl d0 bare content (h @ [Spun n]) = sink_state ctl d0 bare content h"
  "sink_state ctl d0 bare content (h @ [Spun n, Reg_read r]) = sink_state ctl d0 bare content h"
  "sink_state ctl d0 bare content (h @ [Snoozed n]) = sink_state ctl d0 bare content h"
  by (cases "sink_state ctl d0 bare content h"; simp add: sink_state_append)+

lemma sink_read_only: "read_only (sink ctl d0 bare content)"
  by (simp add: read_only_def sink_def sink_quiet)

lemma aux_read_data_quiet:
  "sink_state ctl d0 bare content (snd (aux_read_data hw dat i n h)) = sink_state ctl d0 bare content h"
proof (induction n arbitrary: i h rule: less_induct)
  case (less n)
  then show ?case
    by (subst aux_read_data.simps) (simp add: read32_def case_prod_beta sink_quiet)
qed

text \<open>The first data register has the first four bytes, and the others do not matter.\<close>

lemma sink_data_others:
  "(\<And>k. i \<le> k \<Longrightarrow> dat k \<noteq> d0 \<and> dat k \<noteq> ctl) \<Longrightarrow>
     sink_state ctl d0 bare content (aux_write_data dat i tx h) = sink_state ctl d0 bare content h"
proof (induction dat i tx h rule: aux_write_data.induct)
  case (1 dat i tx h)
  have "sink_state ctl d0 bare content (write32 (dat i) v h) = sink_state ctl d0 bare content h" for v
    using 1(2) [of i] by (cases "sink_state ctl d0 bare content h") (simp add: write32_def sink_state_append)
  then show ?case
    using 1 by (subst aux_write_data.simps) simp
qed

lemma sink_data:
  assumes "\<And>k. dat k = d0 + 4 * k" "ctl + 4 = d0" "tx \<noteq> []" "sink_state ctl d0 bare content h = (w, sent, reply)"
  shows "sink_state ctl d0 bare content (aux_write_data dat 0 tx h) = (aux_word (take 4 tx), sent, reply)"
proof -
  have "sink_state ctl d0 bare content (write32 (dat 0) (aux_word (take 4 tx)) h) = (aux_word (take 4 tx), sent, reply)"
    using assms by (simp add: write32_def sink_state_append)
  then show ?thesis
    using assms(1-3) by (subst aux_write_data.simps) (simp add: sink_data_others)
qed


text \<open>The control value of a transfer has the busy bit, and tells a bare address from one with a size.\<close>

lemma send_control_busy: "aux_send_control si port n AND INTEL_DP_AUX_CTL_BUSY \<noteq> 0"
proof -
  have "(INTEL_DP_AUX_CTL_BUSY OR x) AND INTEL_DP_AUX_CTL_BUSY = INTEL_DP_AUX_CTL_BUSY" for x
    by (rule bit_word_eqI) (auto simp: bit_simps)
  then show ?thesis
    by (simp add: aux_send_control_def Let_def INTEL_DP_AUX_CTL_BUSY_def)
qed

lemma high_bit_of_nat: "n < 2 ^ k \<Longrightarrow> \<not> bit (word_of_nat n :: 32 word) k"
  by (metis bit_of_nat_iff bit_take_bit_iff less_irrefl take_bit_nat_eq_self)

lemmas aux_control_bits = INTEL_DP_AUX_CTL_BUSY_def INTEL_DP_AUX_CTL_DONE_def INTEL_DP_AUX_CTL_INTERRUPT_def
  INTEL_DP_AUX_CTL_TIMEOUT_ERROR_def INTEL_DP_AUX_CTL_TIMEOUT_400us_def INTEL_DP_AUX_CTL_TIMEOUT_600us_def
  INTEL_DP_AUX_CTL_TIMEOUT_1600us_def INTEL_DP_AUX_CTL_RECEIVE_ERROR_def

lemma send_control_size: "bit (aux_send_control si port n) 22 \<longleftrightarrow> bit (push_bit 20 (word_of_nat n) :: 32 word) 22"
proof -
  have "u32 (f + 1000) div 2000 < 2 ^ 22" for f
    using u32_less_numeral [of "f + 1000"] by (simp add: div_less_iff_less_mult del: u32_less_numeral)
  then have "\<not> bit (word_of_nat (u32 (f + 1000) div 2000) :: 32 word) 22" for f
    by (rule high_bit_of_nat)
  then show ?thesis
    unfolding aux_send_control_def Let_def aux_control_bits bit_or_iff if_distrib [of "\<lambda>w. bit w 22"] if_distrib [of word_of_nat]
    by simp
qed

lemma send_control_bare: "aux_send_control si port 4 \<noteq> aux_send_control si port 3"
proof -
  have "bit (aux_send_control si port 4) 22" "\<not> bit (aux_send_control si port 3) 22"
    unfolding send_control_size by simp_all
  then show ?thesis
    by metis
qed


text \<open>The first bytes of a message name the request and its size.\<close>

lemma header_bytes_small: "\<forall>b\<in>set (aux_header msg). b < 256"
proof -
  have "x AND 0xff < 256" for x :: nat
    using and_ones [of x 8] by simp
  then show ?thesis
    using u8_less by (simp add: aux_header_def)
qed

lemma header_request:
  assumes "msg_request msg < 16"
  shows "aux_header msg ! 0 div 16 = msg_request msg"
proof -
  have "drop_bit 16 (msg_address msg) AND 0xf < 2 ^ 4"
    using and_ones [of "drop_bit 16 (msg_address msg)" 4] by simp
  then have v: "push_bit 4 (msg_request msg) OR (drop_bit 16 (msg_address msg) AND 0xf) = msg_request msg * 16 + (drop_bit 16 (msg_address msg) AND 0xf)"
    using or_fields [of "drop_bit 16 (msg_address msg) AND 0xf" 4 "msg_request msg"] by simp
  have small: "drop_bit 16 (msg_address msg) AND 0xf < 16"
    using and_ones [of "drop_bit 16 (msg_address msg)" 4] by simp
  then have "msg_request msg * 16 + (drop_bit 16 (msg_address msg) AND 0xf) < 2 ^ 8"
    using assms by simp
  with small show ?thesis
    unfolding aux_header_def nth_Cons_0 v by (simp add: u8_id)
qed

lemma sent_header:
  assumes "msg_request msg < 16" "msg_size msg \<le> 16"
  defines "w \<equiv> aux_word (take 4 (aux_transmit msg))"
  shows "hd (aux_bytes w) div 16 = msg_request msg" "0 < msg_size msg \<Longrightarrow> last (aux_bytes w) + 1 = msg_size msg"
    "msg_size msg = 0 \<Longrightarrow> length (aux_transmit msg) = 3"
    "0 < msg_size msg \<Longrightarrow> request_kind (msg_request msg) \<noteq> Aux_write \<Longrightarrow> length (aux_transmit msg) = 4"
    "length (aux_transmit msg) \<le> 20" "aux_transmit msg \<noteq> []"
proof -
  have four: "length (aux_header msg) = 4"
    by (simp add: aux_header_def)
  have t: "take 4 (aux_transmit msg) = take (if 0 < msg_size msg then 4 else 3) (aux_header msg)"
    using four by (auto simp: aux_transmit_def split: option.splits)
  have w: "aux_bytes w = (if 0 < msg_size msg then aux_header msg else take 3 (aux_header msg) @ [0])"
    unfolding w_def t using header_bytes_small [of msg] four by (subst aux_bytes_word) (auto dest: in_set_takeD)
  show "hd (aux_bytes w) div 16 = msg_request msg"
    using header_request [OF assms(1)] four by (simp add: w hd_append hd_conv_nth [of "aux_header msg"] hd_conv_nth [of "take 3 (aux_header msg)"])
      (auto simp: hd_conv_nth)
  show "0 < msg_size msg \<Longrightarrow> last (aux_bytes w) + 1 = msg_size msg"
    using assms(2) by (simp add: w aux_header_def u8_id)
  show "msg_size msg = 0 \<Longrightarrow> length (aux_transmit msg) = 3"
    "0 < msg_size msg \<Longrightarrow> request_kind (msg_request msg) \<noteq> Aux_write \<Longrightarrow> length (aux_transmit msg) = 4"
    "length (aux_transmit msg) \<le> 20" "aux_transmit msg \<noteq> []"
    using four assms(2) by (auto simp: aux_transmit_def split: option.splits)
qed


lemma came_not_busy:
  "n \<le> 20 \<Longrightarrow> (came n OR INTEL_DP_AUX_CTL_DONE OR INTEL_DP_AUX_CTL_TIMEOUT_ERROR OR INTEL_DP_AUX_CTL_RECEIVE_ERROR) AND INTEL_DP_AUX_CTL_BUSY = 0"
  using came_flags(1) [of n] by (simp add: bit.conj_disj_distrib2 aux_control_bits)

text \<open>What the sink makes of a transfer whose request has come.\<close>

lemma sink_transfer:
  assumes "aux_registers si port = Some (ctl, dat)" "bare = aux_send_control si port 3" "\<forall>b\<in>set content. b < 256"
    and "sink_state ctl (dat 0) bare content h = (w, sent, reply)"
    and "tx = aux_transmit msg" "msg_request msg < 16" "msg_size msg \<le> 16" "0 < n" "n \<le> 20"
    and "reply' = (if request_kind (msg_request msg) = Aux_read then 0 # take (msg_size msg) (drop sent content) else [0])"
  shows "\<exists>h'. DpAuxTransfer (sink ctl (dat 0) bare content) si port tx n h = (Inr (take n reply'), h') \<and>
    fst (snd (sink_state ctl (dat 0) bare content h')) = (if request_kind (msg_request msg) = Aux_read then sent + msg_size msg else sent)"
proof -
  let ?hw = "sink ctl (dat 0) bare content" and ?st = "sink_state ctl (dat 0) bare content"
  let ?sc = "aux_send_control si port (length tx)"
  let ?w = "aux_word (take 4 tx)" and ?sent = "if request_kind (msg_request msg) = Aux_read then sent + msg_size msg else sent"
  note regs = aux_registers_apart [OF assms(1)]
  note hdr = sent_header [OF assms(6,7), folded assms(5)]
  have ctl: "ctl \<noteq> dat k" for k
    using regs(1) [of k] regs(2) by simp
  define h1 where "h1 = aux_sent ctl dat ?sc tx h"
  have "?st (aux_write_data dat 0 tx (h @ [Reg_read ctl])) = (?w, sent, reply)"
    using assms(4) hdr(6) by (intro sink_data [OF regs]) (simp_all add: sink_quiet)
  moreover have "request_kind (msg_request msg) = Aux_read \<Longrightarrow>
      (if ?sc = bare then 0 else last (aux_bytes ?w) + 1) = msg_size msg"
    using hdr(2-4) send_control_bare [of si port] by (cases "msg_size msg = 0") (auto simp: assms(2))
  ultimately have st1: "?st h1 = (?w, ?sent, reply')"
    using ctl [of 0] send_control_busy [of si port "length tx"] hdr(1)
    by (simp add: h1_def aux_sent_def write32_def sink_state_append assms(10) Let_def)
  let ?k = "length reply'"
  have k: "0 < ?k" "?k \<le> 20"
    using assms(7) by (auto simp: assms(10))
  define h2 where "h2 = aux_acknowledged ctl (came ?k) h1"
  have st2: "?st h2 = (?w, ?sent, reply')"
    using st1 ctl [of 0] came_not_busy [OF k(2)]
    by (simp add: h2_def aux_acknowledged_def write32_def sink_state_append [of _ _ _ _ "h1 @ [Spun 50, Reg_read ctl]" "[_]", simplified] sink_quiet)
  have "DpAuxTransfer ?hw si port tx n h = apfst Inr (aux_read_data ?hw dat 0 (min ?k n) h2)"
    unfolding h2_def h1_def
  proof (rule DpAuxTransfer_answered [OF assms(1) hdr(5) assms(9) k _ refl])
    show "reg_answer ?hw h ctl AND INTEL_DP_AUX_CTL_BUSY = 0"
      using assms(4) by (simp add: sink_def came_flags(1))
    show "reg_answer ?hw (aux_sent ctl dat ?sc tx h @ [Spun 50]) ctl = came ?k"
      using st1 k(2) by (simp add: sink_def sink_quiet h1_def)
  qed
  moreover have "fst (aux_read_data ?hw dat 0 (min ?k n) h2) = take (min ?k n) reply'"
  proof (rule aux_read_data_bytes [OF sink_read_only])
    fix j
    show "reg_answer ?hw h2 (dat (0 + j)) = aux_word (take 4 (drop (4 * j) reply'))"
      using st2 ctl [of j] regs(1) [of j] by (simp add: sink_def)
  qed (use assms(3) in \<open>auto simp: assms(10) dest!: in_set_takeD in_set_dropD\<close>)
  ultimately have "DpAuxTransfer ?hw si port tx n h = (Inr (take n reply'), snd (aux_read_data ?hw dat 0 (min ?k n) h2))"
    by (simp add: apfst_def map_prod_def case_prod_beta min_def)
  then show ?thesis
    using st2 by (simp add: aux_read_data_quiet)
qed

lemma sink_serves:
  assumes "aux_registers si port = Some (ctl, dat)" "bare = aux_send_control si port 3" "\<forall>b\<in>set content. b < 256"
  shows "serves (DpAuxTransfer (sink ctl (dat 0) bare content) si port) (sink_left ctl (dat 0) bare content)"
  unfolding serves_def
proof (intro allI impI)
  fix msg :: dp_aux_msg and h
  assume m: "i2c_request (msg_request msg) \<and> msg_size msg \<le> 16"
  obtain w sent reply where st: "sink_state ctl (dat 0) bare content h = (w, sent, reply)"
    by (metis prod_cases3)
  have kind: "request_kind (msg_request msg) = Aux_write \<or> request_kind (msg_request msg) = Aux_read"
    using m with_mot_request(3) by (cases "request_kind (msg_request msg)") auto
  have room: "0 < room msg" "room msg \<le> 20" "request_kind (msg_request msg) = Aux_read \<Longrightarrow> room msg = msg_size msg + 1"
    "request_kind (msg_request msg) = Aux_write \<Longrightarrow> room msg = 2"
    using m by (simp_all add: room_def u8_id)
  obtain h' where h': "DpAuxTransfer (sink ctl (dat 0) bare content) si port (aux_transmit msg) (room msg) h =
      (Inr (take (room msg) (if request_kind (msg_request msg) = Aux_read then 0 # take (msg_size msg) (drop sent content) else [0])), h')"
    "fst (snd (sink_state ctl (dat 0) bare content h')) = (if request_kind (msg_request msg) = Aux_read then sent + msg_size msg else sent)"
    using sink_transfer [OF assms st refl _ _ room(1,2) refl] m with_mot_request(4) by blast
  show "if request_kind (msg_request msg) = Aux_write
      then \<exists>h'. DpAuxTransfer (sink ctl (dat 0) bare content) si port (aux_transmit msg) (room msg) h = (Inr [0], h') \<and>
        sink_left ctl (dat 0) bare content h' = sink_left ctl (dat 0) bare content h
      else msg_size msg \<le> length (sink_left ctl (dat 0) bare content h) \<longrightarrow>
        (\<exists>h'. DpAuxTransfer (sink ctl (dat 0) bare content) si port (aux_transmit msg) (room msg) h =
            (Inr (0 # take (msg_size msg) (sink_left ctl (dat 0) bare content h)), h') \<and>
          sink_left ctl (dat 0) bare content h' = drop (msg_size msg) (sink_left ctl (dat 0) bare content h))"
    using kind h' room(3,4) st by (auto simp: sink_left_def add.commute)
qed


section \<open>EDID over the channel\<close>

text \<open>The sink of a display port of the device with the block of a description.\<close>

definition edid_sink :: "shared_info \<Rightarrow> port_index \<Rightarrow> edid1_info \<Rightarrow> hardware" where
  "edid_sink si port e =
     (case aux_registers si port of
        None \<Rightarrow> sink 0 0 0 []
      | Some (ctl, dat) \<Rightarrow> sink ctl (dat 0) (aux_send_control si port 3) (edid_bytes e))"

lemma ddc2_read_hook:
  assumes "send_receive bus = Some hook" "hook 0x50 [0] buf h = Some (B_OK, bs, h')" "checked bs"
  shows "ddc2_read bus 0 buf h = Some (B_OK, bs, h')"
proof -
  have "ddc2_tries bus [0] (Suc 3) B_OK buf h = Some (B_OK, bs, h')"
    unfolding ddc2_tries.simps using assms by (simp add: call_send_receive_def verify_checksum_checked)
  then show ?thesis
    by (simp add: ddc2_read_def READ_RETRIES_def)
qed

lemma ddc2_read_edid1_hook:
  assumes "send_receive bus = Some hook" "hook 0x50 [0] (map stack [0..<128]) h = Some (B_OK, edid_bytes e, h')" "edid_ok e"
  shows "ddc2_read_edid1 bus stack h = Some (B_OK, Some e, h')"
proof -
  have h: "holds (over (edid_bytes e) stack) 0 (edid_bytes e)"
    by (simp add: holds_def over_def)
  have "over (edid_bytes e) stack 18 = version (edid_version e)" "over (edid_bytes e) stack 19 = revision (edid_version e)"
    using h by (simp_all add: edid_bytes_def block_bytes_def holds_append length_header_bytes length_vendor_bytes)
  then have v: "over (edid_bytes e) stack 18 = 1" "over (edid_bytes e) stack 19 \<le> 4"
    using assms(3) by (auto simp: edid_ok_def)
  have "ddc2_read bus 0 (map stack [0..<128]) h = Some (B_OK, edid_bytes e, h')"
    by (rule ddc2_read_hook [OF assms(1,2) edid_bytes_checked])
  then show ?thesis
    using v edid_decode_bytes [OF h assms(3)] by (simp add: ddc2_read_edid1_def Let_def)
qed

text \<open>Setting up the bus does not disturb a sink: the power well of the channel is another register.\<close>

lemma sink_power_well:
  assumes "ctl \<noteq> ICL_PWR_WELL_CTL_AUX2" "d0 \<noteq> ICL_PWR_WELL_CTL_AUX2"
  shows "sink_state ctl d0 bare content (snd (snd (SetupDpAuxI2c hw si port bus h))) = sink_state ctl d0 bare content h"
proof -
  have loop: "sink_state ctl d0 bare content (snd (set_loop hw a b t i h)) = sink_state ctl d0 bare content h" for a b t i h
  proof (induction hw a b t i h rule: set_loop.induct)
    case (1 hw a b t i h)
    then show ?case
      by (subst set_loop.simps) (auto simp: read32_def Let_def sink_quiet [of _ _ _ _ h])
  qed
  have "sink_state ctl d0 bare content (h @ [Reg_read r, Reg_write ICL_PWR_WELL_CTL_AUX2 v]) = sink_state ctl d0 bare content h" for r v h
    using assms by (cases "sink_state ctl d0 bare content h") (simp add: sink_state_append)
  with loop show ?thesis
    by (simp add: SetupDpAuxI2c_def Let_def read32_def write32_def wait_for_set_def sink_quiet case_prod_beta)
qed

lemma aux_registers_power_well:
  assumes "aux_registers si port = Some (ctl, dat)"
  shows "ctl \<noteq> ICL_PWR_WELL_CTL_AUX2" "dat 0 \<noteq> ICL_PWR_WELL_CTL_AUX2"
  using assms
  by (auto simp: aux_registers_def Let_def DP_AUX_CH_DATA_def PCH_DP_AUX_CH_DATA_def DP_AUX_CH_CTL_def PCH_DP_AUX_CH_CTL_def
      REGS_NORTH_PIPE_AND_PORT_def REGS_SOUTH_TRANSCODER_PORT_def ICL_PWR_WELL_CTL_AUX2_def REGS_NORTH_SHARED_def split: if_splits)

lemma SetupDpAuxI2c_bus:
  "fst (SetupDpAuxI2c hw si port bus h) = B_OK \<and> send_receive (fst (snd (SetupDpAuxI2c hw si port bus h))) = Some (DpAuxSendReceiveHook hw si port)"
  by (simp add: SetupDpAuxI2c_def Let_def case_prod_beta)



end
