(* ===== verification/Port_Edid.thy ===== *)
theory Port_Edid
  imports Dp_Aux
begin

text \<open>
  How the ports of \<open>src/intel_extreme/accelerant/Ports.cpp\<close> find out about a monitor: the two lines of an I2C bus in a
  GPIO register (\<open>_GetI2CSignals\<close>, \<open>_SetI2CSignals\<close>), the choice of the bus (\<open>SetupI2c\<close> and its overrides),
  \<open>GetEDID\<close> with its state, and \<open>IsConnected\<close> of every class. The master of theory \<open>I2c\<close> runs on this
  register: its contracts are interpreted on the bus of a port.
\<close>

unbundle bit_operations_syntax

section \<open>Lines of a register\<close>

definition I2C_CLOCK_DIRECTION_MASK :: "32 word" where "I2C_CLOCK_DIRECTION_MASK = push_bit 0 1"
definition I2C_CLOCK_DIRECTION_OUT :: "32 word" where "I2C_CLOCK_DIRECTION_OUT = push_bit 1 1"
definition I2C_CLOCK_VALUE_MASK :: "32 word" where "I2C_CLOCK_VALUE_MASK = push_bit 2 1"
definition I2C_CLOCK_VALUE_OUT :: "32 word" where "I2C_CLOCK_VALUE_OUT = push_bit 3 1"
definition I2C_CLOCK_VALUE_IN :: "32 word" where "I2C_CLOCK_VALUE_IN = push_bit 4 1"
definition I2C_DATA_DIRECTION_MASK :: "32 word" where "I2C_DATA_DIRECTION_MASK = push_bit 8 1"
definition I2C_DATA_DIRECTION_OUT :: "32 word" where "I2C_DATA_DIRECTION_OUT = push_bit 9 1"
definition I2C_DATA_VALUE_MASK :: "32 word" where "I2C_DATA_VALUE_MASK = push_bit 10 1"
definition I2C_DATA_VALUE_OUT :: "32 word" where "I2C_DATA_VALUE_OUT = push_bit 11 1"
definition I2C_DATA_VALUE_IN :: "32 word" where "I2C_DATA_VALUE_IN = push_bit 12 1"
definition I2C_RESERVED :: "32 word" where "I2C_RESERVED = push_bit 13 1 OR push_bit 5 1"

lemmas i2c_bits = I2C_CLOCK_DIRECTION_MASK_def I2C_CLOCK_DIRECTION_OUT_def I2C_CLOCK_VALUE_MASK_def I2C_CLOCK_VALUE_OUT_def
  I2C_CLOCK_VALUE_IN_def I2C_DATA_DIRECTION_MASK_def I2C_DATA_DIRECTION_OUT_def I2C_DATA_VALUE_MASK_def I2C_DATA_VALUE_OUT_def
  I2C_DATA_VALUE_IN_def I2C_RESERVED_def

text \<open>The levels of clock and data.\<close>

definition GetI2CSignals :: "hardware \<Rightarrow> nat \<Rightarrow> history \<Rightarrow> (bool \<times> bool) \<times> history" where
  "GetI2CSignals hw ioRegister h =
     (let (v, h) = read32 hw ioRegister h
      in ((v AND I2C_CLOCK_VALUE_IN \<noteq> 0, v AND I2C_DATA_VALUE_IN \<noteq> 0), h))"

text \<open>The value for the levels, over the reserved bits.\<close>

definition i2c_value :: "32 word \<Rightarrow> bool \<Rightarrow> bool \<Rightarrow> 32 word" where
  "i2c_value reserved clock data =
     (let v = reserved OR I2C_DATA_VALUE_MASK OR I2C_CLOCK_VALUE_MASK;
          v = v OR (if data then I2C_DATA_DIRECTION_MASK else I2C_DATA_DIRECTION_MASK OR I2C_DATA_DIRECTION_OUT)
      in v OR (if clock then I2C_CLOCK_DIRECTION_MASK else I2C_CLOCK_DIRECTION_MASK OR I2C_CLOCK_DIRECTION_OUT))"

definition SetI2CSignals :: "hardware \<Rightarrow> shared_info \<Rightarrow> nat \<Rightarrow> bool \<Rightarrow> bool \<Rightarrow> history \<Rightarrow> history" where
  "SetI2CSignals hw si ioRegister clock data h =
     (let (v, h) =
            (if InGroup (device_type si) INTEL_GROUP_83x then (0, h)
             else let (v, h) = read32 hw ioRegister h in (v AND I2C_RESERVED, h));
          h = write32 ioRegister (i2c_value v clock data) h
      in snd (read32 hw ioRegister h))"

section \<open>Buses of a port\<close>

text \<open>The bus over the register, from what the caller of the set-up has on its stack; the clock is the system's.\<close>

definition gpio_bus :: "hardware \<Rightarrow> shared_info \<Rightarrow> nat \<Rightarrow> history i2c_bus \<Rightarrow> history i2c_bus" where
  "gpio_bus hw si ddcRegister bus =
     (ddc2_init_timing bus)\<lparr>set_signals := SetI2CSignals hw si ddcRegister, get_signals := GetI2CSignals hw ddcRegister,
       system_clock := system_time hw\<rparr>"

record port =
  fPortClass :: port_class
  fPortIndex :: port_index
  fEDIDState :: status_t
  fEDIDInfo :: edid1_info

text \<open>\<open>Port::SetupI2c\<close>.\<close>

definition PortSetupI2c :: "hardware \<Rightarrow> shared_info \<Rightarrow> port \<Rightarrow> history i2c_bus \<Rightarrow> status_t \<times> port \<times> history i2c_bus" where
  "PortSetupI2c hw si p bus =
     (let ddcRegister = DDCRegister si (fPortClass p) (fPortIndex p)
      in if ddcRegister = 0 then (B_ERROR, p\<lparr>fEDIDState := B_ERROR\<rparr>, bus)
         else (B_OK, p, gpio_bus hw si ddcRegister bus))"

text \<open>The virtual \<open>SetupI2c\<close>: the display ports and the digital display interfaces take the AUX channel, unless the video
  BIOS says that the output is no display port.\<close>

definition SetupI2c :: "hardware \<Rightarrow> shared_info \<Rightarrow> port \<Rightarrow> history i2c_bus \<Rightarrow> history \<Rightarrow> status_t \<times> port \<times> history i2c_bus \<times> history" where
  "SetupI2c hw si p bus h =
     (if fPortClass p \<in> {DisplayPort, EmbeddedDisplayPort, DigitalDisplayInterface} \<and>
         \<not> (6 \<le> Generation (device_type si) \<and> device_configs si \<noteq> [] \<and> \<not> IsDisplayPortInVBT si (fPortIndex p))
      then let (st, bus, h) = SetupDpAuxI2c hw si (fPortIndex p) bus h in (st, p, bus, h)
      else let (st, p, bus) = PortSetupI2c hw si p bus in (st, p, bus, h))"

definition SetupI2cFallback :: "hardware \<Rightarrow> shared_info \<Rightarrow> port \<Rightarrow> history i2c_bus \<Rightarrow> status_t \<times> port \<times> history i2c_bus" where
  "SetupI2cFallback hw si p bus =
     (if fPortClass p = DigitalDisplayInterface \<and> 6 \<le> Generation (device_type si) \<and> device_configs si \<noteq> [] \<and>
         IsDisplayPortInVBT si (fPortIndex p) \<and> IsHdmiInVBT si (fPortIndex p)
      then PortSetupI2c hw si p bus
      else (B_ERROR, p, bus))"

text \<open>The result of a reading in the state of the port: the description is stored only when there is one.\<close>

definition store_edid :: "status_t \<Rightarrow> edid1_info option \<Rightarrow> port \<Rightarrow> port" where
  "store_edid st edid p = p\<lparr>fEDIDState := st, fEDIDInfo := (case edid of None \<Rightarrow> fEDIDInfo p | Some e \<Rightarrow> e)\<rparr>"

text \<open>The result has the copy for the caller, \<open>None\<close> when nothing is copied. \<open>bus\<close> and \<open>stack\<close> are what the stack
  holds.\<close>

definition GetEDID ::
  "hardware \<Rightarrow> shared_info \<Rightarrow> history i2c_bus \<Rightarrow> raw_edid \<Rightarrow> bool \<Rightarrow> port \<Rightarrow> history \<Rightarrow> (status_t \<times> edid1_info option \<times> port \<times> history) option" where
  "GetEDID hw si bus stack forceRead p h =
     (let finish = (\<lambda>p h. if fEDIDState p \<noteq> B_OK then Some (fEDIDState p, None, p, h) else Some (B_OK, Some (fEDIDInfo p), p, h))
      in if fEDIDState p = B_NO_INIT \<or> forceRead then
           let (st, p, bus, h) = SetupI2c hw si p bus h
           in if st \<noteq> B_OK then Some (fEDIDState p, None, p, h)
              else do {
                (st, edid, h) \<leftarrow> ddc2_read_edid1 bus stack h;
                let p = store_edid st edid p;
                if fEDIDState p = B_OK then finish p h
                else
                  let (st, p, bus) = SetupI2cFallback hw si p bus
                  in if st = B_OK then do {
                       (st, edid, h) \<leftarrow> ddc2_read_edid1 bus stack h;
                       finish (store_edid st edid p) h
                     }
                     else finish p h
              }
         else finish p h)"

definition HasEDID :: "hardware \<Rightarrow> shared_info \<Rightarrow> history i2c_bus \<Rightarrow> raw_edid \<Rightarrow> port \<Rightarrow> history \<Rightarrow> (bool \<times> port \<times> history) option" where
  "HasEDID hw si bus stack p h =
     (if fEDIDState p = B_NO_INIT
      then do { (_, _, p, h) \<leftarrow> GetEDID hw si bus stack False p h; Some (fEDIDState p = B_OK, p, h) }
      else Some (fEDIDState p = B_OK, p, h))"

section \<open>Connected ports\<close>

definition DISPLAY_MONITOR_PORT_ENABLED :: "32 word" where "DISPLAY_MONITOR_PORT_ENABLED = push_bit 31 1"
definition DISPLAY_MONITOR_PORT_DETECTED :: "32 word" where "DISPLAY_MONITOR_PORT_DETECTED = push_bit 2 1"
definition PCH_LVDS_DETECTED :: "32 word" where "PCH_LVDS_DETECTED = push_bit 1 1"
definition LVDS_PORT_EN :: "32 word" where "LVDS_PORT_EN = push_bit 31 1"
definition PIPE_DDI_FUNC_CTL_A :: nat where "PIPE_DDI_FUNC_CTL_A = pipe_and_port 0x0400"
definition PIPE_DDI_FUNC_CTL_B :: nat where "PIPE_DDI_FUNC_CTL_B = pipe_and_port 0x1400"
definition PIPE_DDI_FUNC_CTL_C :: nat where "PIPE_DDI_FUNC_CTL_C = pipe_and_port 0x2400"
definition PIPE_DDI_FUNC_CTL_EDP :: nat where "PIPE_DDI_FUNC_CTL_EDP = pipe_and_port 0xf400"
definition PIPE_DDI_FUNC_CTL_ENABLE :: "32 word" where "PIPE_DDI_FUNC_CTL_ENABLE = push_bit 31 1"
definition PIPE_DDI_SELECT_MASK :: "32 word" where "PIPE_DDI_SELECT_MASK = push_bit 28 7"

text \<open>The VESA description in place of one that could not be read.\<close>

definition use_vesa :: "edid1_info \<Rightarrow> port \<Rightarrow> port" where
  "use_vesa e p = p\<lparr>fEDIDInfo := e, fEDIDState := B_OK\<rparr>"

type_synonym detection = "(bool \<times> port \<times> history) option"

definition LVDSIsConnected :: "hardware \<Rightarrow> shared_info \<Rightarrow> history i2c_bus \<Rightarrow> raw_edid \<Rightarrow> port \<Rightarrow> history \<Rightarrow> detection" where
  "LVDSIsConnected hw si bus stack p h =
     (if pch si \<noteq> INTEL_PCH_NONE then
        let (registerValue, h) = read32 hw (PortRegister si (fPortClass p) (fPortIndex p)) h
        in if registerValue AND PCH_LVDS_DETECTED = 0 then Some (False, p, h)
           else do {
             (has, p, h) \<leftarrow> HasEDID hw si bus stack p h;
             if has then Some (True, p, h)
             else case vesa_edid_info si of
               Some e \<Rightarrow> Some (True, use_vesa e p, h)
             | None \<Rightarrow>
                 if got_vbt si then Some (True, p, h)
                 else if registerValue AND LVDS_PORT_EN \<noteq> 0 then Some (True, p, h)
                 else Some (False, p, h)
           }
      else if Generation (device_type si) \<le> 4 then
        (if \<not> IsMobile (device_type si) then Some (False, p, h)
         else do {
           (has, p, h) \<leftarrow> HasEDID hw si bus stack p h;
           if has then HasEDID hw si bus stack p h
           else case vesa_edid_info si of
             Some e \<Rightarrow> HasEDID hw si bus stack (use_vesa e p) h
           | None \<Rightarrow> if got_vbt si then Some (True, p, h) else Some (False, p, h)
         })
      else HasEDID hw si bus stack p h)"

text \<open>The check of the video BIOS table before a digital output is looked at.\<close>

definition not_in_vbt :: "shared_info \<Rightarrow> port \<Rightarrow> bool" where
  "not_in_vbt si p \<longleftrightarrow> 6 \<le> Generation (device_type si) \<and> device_configs si \<noteq> [] \<and> IsPortInVBT si (fPortIndex p) = None"

definition HDMIIsConnected :: "hardware \<Rightarrow> shared_info \<Rightarrow> history i2c_bus \<Rightarrow> raw_edid \<Rightarrow> port \<Rightarrow> history \<Rightarrow> detection" where
  "HDMIIsConnected hw si bus stack p h =
     (let portRegister = PortRegister si (fPortClass p) (fPortIndex p)
      in if \<not> SupportsHDMI (device_type si) then Some (False, p, h)
         else if portRegister = 0 then Some (False, p, h)
         else if not_in_vbt si p then Some (False, p, h)
         else
           let (v, h) = read32 hw portRegister h
           in if v AND DISPLAY_MONITOR_PORT_ENABLED = 0 then Some (False, p, h) else HasEDID hw si bus stack p h)"

definition DisplayPortIsConnected :: "hardware \<Rightarrow> shared_info \<Rightarrow> history i2c_bus \<Rightarrow> raw_edid \<Rightarrow> port \<Rightarrow> history \<Rightarrow> detection" where
  "DisplayPortIsConnected hw si bus stack p h =
     (let portRegister = PortRegister si (fPortClass p) (fPortIndex p)
      in if portRegister = 0 then Some (False, p, h)
         else if not_in_vbt si p then Some (False, p, h)
         else
           let (v, h) = read32 hw portRegister h
           in if v AND DISPLAY_MONITOR_PORT_ENABLED = 0 then Some (False, p, h)
              else do {
                (edidDetected, p, h) \<leftarrow> HasEDID hw si bus stack p h;
                if (IsMobile (device_type si) \<or> IsEDPPort si (fPortIndex p)) \<and> fPortIndex p = INTEL_PORT_A \<and> \<not> edidDetected
                then (case vesa_edid_info si of Some e \<Rightarrow> Some (True, use_vesa e p, h) | None \<Rightarrow> Some (True, p, h))
                else Some (True, p, h)
              })"

definition EmbeddedIsConnected :: "hardware \<Rightarrow> shared_info \<Rightarrow> history i2c_bus \<Rightarrow> raw_edid \<Rightarrow> port \<Rightarrow> history \<Rightarrow> detection" where
  "EmbeddedIsConnected hw si bus stack p h =
     (if \<not> IsMobile (device_type si) then Some (False, p, h)
      else
        let (v, h) = read32 hw (PortRegister si (fPortClass p) (fPortIndex p)) h
        in if v AND DISPLAY_MONITOR_PORT_DETECTED = 0 then Some (False, p, h)
           else do { (_, p, h) \<leftarrow> HasEDID hw si bus stack p h; Some (True, p, h) })"

text \<open>The loop over the pipes that looks for the one with this port; \<open>fMaxLanes\<close> is left out.\<close>

definition ddi_select :: "32 word \<Rightarrow> nat" where
  "ddi_select pipeState = unat (drop_bit 28 (pipeState AND PIPE_DDI_SELECT_MASK))"

fun port_number :: "port_index \<Rightarrow> nat" where
  "port_number INTEL_PORT_ANY = 0"
| "port_number INTEL_PORT_A = 1"
| "port_number INTEL_PORT_B = 2"
| "port_number INTEL_PORT_C = 3"
| "port_number INTEL_PORT_D = 4"
| "port_number INTEL_PORT_E = 5"
| "port_number INTEL_PORT_F = 6"
| "port_number INTEL_PORT_G = 7"

fun ddi_pipe_loop :: "hardware \<Rightarrow> port_index \<Rightarrow> nat list \<Rightarrow> history \<Rightarrow> bool \<times> history" where
  "ddi_pipe_loop hw index [] h = (False, h)"
| "ddi_pipe_loop hw index (reg # regs) h =
     (let (pipeState, h) = read32 hw reg h
      in if ddi_select pipeState + 1 = port_number index \<and> pipeState AND PIPE_DDI_FUNC_CTL_ENABLE \<noteq> 0 then (True, h)
         else ddi_pipe_loop hw index regs h)"

text \<open>The second loop leaves in its first turn, whatever it reads.\<close>

definition DDIIsConnected :: "hardware \<Rightarrow> shared_info \<Rightarrow> history i2c_bus \<Rightarrow> raw_edid \<Rightarrow> port \<Rightarrow> history \<Rightarrow> detection" where
  "DDIIsConnected hw si bus stack p h =
     (let portRegister = PortRegister si (fPortClass p) (fPortIndex p)
      in if portRegister = 0 then Some (False, p, h)
         else
           let h = (if Generation (device_type si) < 9 \<or> InGroup (device_type si) INTEL_GROUP_SKY then snd (read32 hw DDI_BUF_CTL_A h) else h)
           in if not_in_vbt si p then Some (False, p, h)
              else do {
                (edidDetected, p, h) \<leftarrow> HasEDID hw si bus stack p h;
                if (IsMobile (device_type si) \<or> IsEDPPort si (fPortIndex p)) \<and> fPortIndex p = INTEL_PORT_A then
                  let (down, h) =
                        (if Generation (device_type si) < 12
                         then let (pipeState, h) = read32 hw PIPE_DDI_FUNC_CTL_EDP h in (pipeState AND PIPE_DDI_FUNC_CTL_ENABLE = 0, h)
                         else (False, h))
                  in if down then Some (False, p, h)
                     else if edidDetected then Some (True, p, h)
                     else case vesa_edid_info si of
                       Some e \<Rightarrow> Some (True, use_vesa e p, h)
                     | None \<Rightarrow> Some (got_vbt si, p, h)
                else
                  let (found, h) = ddi_pipe_loop hw (fPortIndex p) [PIPE_DDI_FUNC_CTL_A, PIPE_DDI_FUNC_CTL_B, PIPE_DDI_FUNC_CTL_C] h
                  in if found then Some (True, p, h)
                     else if edidDetected then
                       let (pipeState, h) = read32 hw PIPE_DDI_FUNC_CTL_A h
                       in Some (pipeState AND PIPE_DDI_FUNC_CTL_ENABLE \<noteq> 0, p, h)
                     else Some (False, p, h)
              })"

fun IsConnected :: "hardware \<Rightarrow> shared_info \<Rightarrow> history i2c_bus \<Rightarrow> raw_edid \<Rightarrow> port \<Rightarrow> history \<Rightarrow> detection" where
  "IsConnected hw si bus stack p h =
     (case fPortClass p of
        AnalogPort \<Rightarrow> HasEDID hw si bus stack p h
      | LVDSPort \<Rightarrow> LVDSIsConnected hw si bus stack p h
      | DigitalPort \<Rightarrow> HasEDID hw si bus stack p h
      | HDMIPort \<Rightarrow> HDMIIsConnected hw si bus stack p h
      | DisplayPort \<Rightarrow> DisplayPortIsConnected hw si bus stack p h
      | EmbeddedDisplayPort \<Rightarrow> EmbeddedIsConnected hw si bus stack p h
      | DigitalDisplayInterface \<Rightarrow> DDIIsConnected hw si bus stack p h)"

declare IsConnected.simps [simp del]

section \<open>Levels on the lines\<close>

text \<open>A latched value pulls the line whose bits begin at \<open>b\<close> down when it is an output with value 0. Nothing ever makes it an
  output with value 1: a released line is pulled up outside.\<close>

definition pulls_down :: "32 word \<Rightarrow> nat \<Rightarrow> bool" where
  "pulls_down v b \<longleftrightarrow> bit v b \<and> bit v (b + 1) \<and> bit v (b + 2) \<and> \<not> bit v (b + 3)"

definition levels :: "nat \<Rightarrow> history \<Rightarrow> (bool \<times> bool) list" where
  "levels reg h = map (\<lambda>v. (\<not> pulls_down v 0, \<not> pulls_down v 8)) (written reg h)"

lemma levels_append [simp]: "levels reg (h @ h') = levels reg h @ levels reg h'"
  by (simp add: levels_def)

lemma bit_single: "bit (push_bit k 1 :: 32 word) n \<longleftrightarrow> n = k" if "k < 32"
  using that by (simp only: bit_push_bit_iff bit_1_iff) auto

lemma i2c_mask_bits:
  "bit I2C_CLOCK_DIRECTION_MASK n \<longleftrightarrow> n = 0" "bit I2C_CLOCK_DIRECTION_OUT n \<longleftrightarrow> n = 1" "bit I2C_CLOCK_VALUE_MASK n \<longleftrightarrow> n = 2"
  "bit I2C_CLOCK_VALUE_IN n \<longleftrightarrow> n = 4"
  "bit I2C_DATA_DIRECTION_MASK n \<longleftrightarrow> n = 8" "bit I2C_DATA_DIRECTION_OUT n \<longleftrightarrow> n = 9" "bit I2C_DATA_VALUE_MASK n \<longleftrightarrow> n = 10"
  "bit I2C_DATA_VALUE_IN n \<longleftrightarrow> n = 12" "bit I2C_RESERVED n \<longleftrightarrow> n = 13 \<or> n = 5"
  unfolding i2c_bits bit_or_iff by ((rule bit_single, simp)+, (subst bit_single, simp)+, rule refl)

lemma i2c_value_bits:
  "bit (i2c_value r c d) n \<longleftrightarrow> bit r n \<or> n = 0 \<or> n = 2 \<or> n = 8 \<or> n = 10 \<or> (n = 1 \<and> \<not> c) \<or> (n = 9 \<and> \<not> d)"
  by (cases c; cases d) (simp_all only: i2c_value_def Let_def if_True if_False bit_or_iff i2c_mask_bits, auto)

lemma reserved_bits: "bit (v AND I2C_RESERVED) n \<Longrightarrow> n = 5 \<or> n = 13"
  by (simp only: bit_and_iff i2c_mask_bits) auto

text \<open>The reserved bits that a call keeps, the history after it, and the value it has written.\<close>

definition kept_bits :: "hardware \<Rightarrow> shared_info \<Rightarrow> nat \<Rightarrow> history \<Rightarrow> 32 word" where
  "kept_bits hw si reg h = (if InGroup (device_type si) INTEL_GROUP_83x then 0 else reg_answer hw h reg AND I2C_RESERVED)"

lemma SetI2CSignals_history:
  "SetI2CSignals hw si reg c d h =
     h @ (if InGroup (device_type si) INTEL_GROUP_83x then [] else [Reg_read reg]) @ [Reg_write reg (i2c_value (kept_bits hw si reg h) c d), Reg_read reg]"
  by (simp add: SetI2CSignals_def kept_bits_def read32_def write32_def)

lemma kept_bits: "n \<noteq> 5 \<Longrightarrow> n \<noteq> 13 \<Longrightarrow> \<not> bit (kept_bits hw si reg h) n"
  using reserved_bits [of "reg_answer hw h reg" n] by (auto simp: kept_bits_def)

lemma value_levels:
  "\<not> pulls_down (i2c_value (kept_bits hw si reg h) c d) 0 \<longleftrightarrow> c" "\<not> pulls_down (i2c_value (kept_bits hw si reg h) c d) 8 \<longleftrightarrow> d"
  by (simp_all add: pulls_down_def i2c_value_bits kept_bits)

lemma levels_set: "levels reg (SetI2CSignals hw si reg c d h) = levels reg h @ [(c, d)]"
  by (simp add: SetI2CSignals_history levels_def value_levels)

lemma levels_get: "levels reg (snd (GetI2CSignals hw reg h)) = levels reg h"
  by (simp add: GetI2CSignals_def read32_def levels_def)

lemma levels_clock: "levels reg (snd (system_time hw h)) = levels reg h"
  by (simp add: system_time_def levels_def)

lemma gpio_bus_calls:
  "set_signals (gpio_bus hw si reg bus) = SetI2CSignals hw si reg" "get_signals (gpio_bus hw si reg bus) = GetI2CSignals hw reg"
  "system_clock (gpio_bus hw si reg bus) = system_time hw" "send_receive (gpio_bus hw si reg bus) = None"
  "t_r (timing (gpio_bus hw si reg bus)) = 2"
  by (simp_all add: gpio_bus_def ddc2_init_timing_def i2c_get100k_timing_def kTiming100k_def)

interpretation gpio: i2c_signals "gpio_bus hw si reg bus" "levels reg" for hw si reg bus
  by unfold_locales (simp_all add: gpio_bus_calls levels_set levels_get levels_clock)

section \<open>The port as an open drain master\<close>

text \<open>What a call may do to the hardware after a history \<open>h\<close>: read the clock of the system or the register, or write a value that
  pulls lines down and never up, with the reserved bits of the reading just before.\<close>

definition open_drain :: "32 word \<Rightarrow> bool" where
  "open_drain v \<longleftrightarrow> (\<forall>n<32. bit v n \<longrightarrow> n \<in> {0, 1, 2, 5, 8, 9, 10, 13}) \<and> bit v 0 \<and> bit v 2 \<and> bit v 8 \<and> bit v 10"

definition reserved_kept :: "hardware \<Rightarrow> shared_info \<Rightarrow> nat \<Rightarrow> history \<Rightarrow> 32 word \<Rightarrow> bool" where
  "reserved_kept hw si reg h v \<longleftrightarrow>
     (if InGroup (device_type si) INTEL_GROUP_83x then v AND I2C_RESERVED = 0
      else h \<noteq> [] \<and> last h = Reg_read reg \<and> v AND I2C_RESERVED = reg_answer hw (butlast h) reg AND I2C_RESERVED)"

fun line_access :: "hardware \<Rightarrow> shared_info \<Rightarrow> nat \<Rightarrow> history \<Rightarrow> access \<Rightarrow> bool" where
  "line_access hw si reg h (Reg_read r) \<longleftrightarrow> r = reg"
| "line_access hw si reg h (Reg_write r v) \<longleftrightarrow> r = reg \<and> open_drain v \<and> reserved_kept hw si reg h v"
| "line_access hw si reg h Clock_read \<longleftrightarrow> True"
| "line_access hw si reg h (Spun n) \<longleftrightarrow> False"
| "line_access hw si reg h (Snoozed n) \<longleftrightarrow> False"

fun line_accesses :: "hardware \<Rightarrow> shared_info \<Rightarrow> nat \<Rightarrow> history \<Rightarrow> history \<Rightarrow> bool" where
  "line_accesses hw si reg h [] \<longleftrightarrow> True"
| "line_accesses hw si reg h (x # k) \<longleftrightarrow> line_access hw si reg h x \<and> line_accesses hw si reg (h @ [x]) k"

lemma line_accesses_append [simp]:
  "line_accesses hw si reg h (k @ k') \<longleftrightarrow> line_accesses hw si reg h k \<and> line_accesses hw si reg (h @ k) k'"
  by (induction k arbitrary: h) simp_all

definition good_line :: "hardware \<Rightarrow> shared_info \<Rightarrow> nat \<Rightarrow> history \<Rightarrow> history \<Rightarrow> bool" where
  "good_line hw si reg h0 h \<longleftrightarrow> (\<exists>k. h = h0 @ k \<and> line_accesses hw si reg h0 k)"

lemma good_lineI: "good_line hw si reg h0 h \<Longrightarrow> line_accesses hw si reg h k \<Longrightarrow> good_line hw si reg h0 (h @ k)"
  by (auto simp: good_line_def)

lemma value_open_drain: "open_drain (i2c_value (kept_bits hw si reg h) c d)"
  unfolding open_drain_def i2c_value_bits using kept_bits by auto

lemma value_reserved: "i2c_value r c d AND I2C_RESERVED = r AND I2C_RESERVED"
  by (rule bit_eqI) (auto simp: bit_and_iff i2c_value_bits i2c_mask_bits)

lemma good_line_set: "good_line hw si reg h0 h \<Longrightarrow> good_line hw si reg h0 (SetI2CSignals hw si reg c d h)"
  unfolding SetI2CSignals_history
  by (rule good_lineI)
    (use value_open_drain [of hw si reg h] in \<open>auto simp: reserved_kept_def value_reserved kept_bits_def and.assoc split: if_splits\<close>)

lemma good_line_get: "good_line hw si reg h0 h \<Longrightarrow> good_line hw si reg h0 (snd (GetI2CSignals hw reg h))"
  by (simp add: GetI2CSignals_def read32_def good_lineI)

lemma good_line_clock: "good_line hw si reg h0 h \<Longrightarrow> good_line hw si reg h0 (snd (system_time hw h))"
  by (simp add: system_time_def good_lineI)

interpretation gpio_kept: i2c_kept "gpio_bus hw si reg bus" "good_line hw si reg h0" for hw si reg bus h0
  by unfold_locales (simp_all add: gpio_bus_calls good_line_set good_line_get good_line_clock)

text \<open>
  C30: the master of a port is an open drain master. Whatever the devices on the bus do, and whether the transaction succeeds, a transaction
  touches no register but that of the port, never drives a line high (a value with an output bit set is never written), and
  keeps the reserved bits of the register as it has just read them, or zero on the 83x chips.
\<close>

theorem gpio_open_drain:
  "all_results (i2c_send_receive_callback (gpio_bus hw si reg bus) a wr rd h)
     (\<lambda>(st, buf, h'). \<exists>k. h' = h @ k \<and> line_accesses hw si reg h k)"
  using gpio_kept.transaction_kept [of hw si reg h h bus a wr rd] by (simp add: good_line_def)

text \<open>
  C26: what an observer of the two lines sees of a transaction. From an idle bus, a transaction that succeeds is exactly the frame of the
  I2C protocol: start, the address for writing and the bytes with a released slot after each for the acknowledge, a repeated start,
  the address for reading, eight released slots for each byte to read with the acknowledge of the master, stop; and the bus
  is idle again. A transaction that fails is a timeout whose symbols are a part of the frame, closed by a stop or not.
\<close>

theorem gpio_frame:
  assumes "bus_idle (levels reg h)" "a < 128"
  shows "all_results (i2c_send_receive_callback (gpio_bus hw si reg bus) a wr rd h) (\<lambda>(st, buf, h'). length buf = length rd \<and>
     (if st = B_OK then bus_idle (levels reg h') \<and> seen (levels reg h') = seen (levels reg h) @ i2c_frame a wr (length rd)
      else st = B_TIMEOUT \<and> (\<exists>k. seen (levels reg h') = seen (levels reg h) @ take k (i2c_frame a wr (length rd)) \<or>
        seen (levels reg h') = seen (levels reg h) @ take k (i2c_frame a wr (length rd)) @ [Stop])))"
  using gpio.transaction_symbols [OF assms]
  unfolding gpio.outcome_def gpio.cut_short_def .


lemma gpio_frame_witness:
  "\<forall>hw si reg bus. all_results (i2c_send_receive_callback (gpio_bus hw si reg bus) 0x50 [0] (replicate 128 0) []) (\<lambda>(st, buf, h'). length buf = length (replicate 128 (0::nat)) \<and>
     (if st = B_OK then bus_idle (levels reg h') \<and> seen (levels reg h') = seen (levels reg []) @ i2c_frame 0x50 [0] (length (replicate 128 (0::nat)))
      else st = B_TIMEOUT \<and> (\<exists>k. seen (levels reg h') = seen (levels reg []) @ take k (i2c_frame 0x50 [0] (length (replicate 128 (0::nat)))) \<or>
        seen (levels reg h') = seen (levels reg []) @ take k (i2c_frame 0x50 [0] (length (replicate 128 (0::nat)))) @ [Stop])))"
  by (intro allI gpio_frame) (simp_all add: bus_idle_def watch_def levels_def)

section \<open>Time\<close>

text \<open>A clock of the hardware that runs: it is not turned back by anything, and reading it again and again passes every bound.\<close>

definition steady_clock :: "hardware \<Rightarrow> (history \<Rightarrow> int) \<Rightarrow> bool" where
  "steady_clock hw now \<longleftrightarrow>
     (\<forall>h. now h \<le> time_answer hw h \<and> time_answer hw h \<le> now (h @ [Clock_read])) \<and> (\<forall>h k. now h \<le> now (h @ k)) \<and>
     (\<forall>h b. \<exists>n. b \<le> now (h @ replicate n Clock_read))"

lemma ticks: "(tick (gpio_bus hw si reg bus) ^^ n) h = h @ replicate n Clock_read"
  by (induction n) (simp_all add: tick_def gpio_bus_calls system_time_def replicate_append_same [symmetric])

lemma gpio_clock_runs:
  assumes "steady_clock hw now"
  shows "clock_runs (gpio_bus hw si reg bus) now"
  using assms
  by (simp add: clock_runs_def steady_clock_def ticks tick_def gpio_bus_calls system_time_def SetI2CSignals_history GetI2CSignals_def read32_def)

lemma gpio_reading_returns: "steady_clock hw now \<Longrightarrow> ddc2_read_edid1 (gpio_bus hw si reg bus) stack h \<noteq> None"
  using ddc2_read_edid1_returns [OF gpio_clock_runs] by (simp add: gpio_bus_calls)

section \<open>A monitor on the lines\<close>

text \<open>Hardware whose register shows the lines: the clock is high when the master releases it, the data line is low when
  the master or the monitor pulls it down.\<close>

definition line_bits :: "bool \<Rightarrow> bool \<Rightarrow> 32 word \<Rightarrow> 32 word" where
  "line_bits c d v =
     (v AND NOT (I2C_CLOCK_VALUE_IN OR I2C_DATA_VALUE_IN)) OR (if c then I2C_CLOCK_VALUE_IN else 0) OR (if d then I2C_DATA_VALUE_IN else 0)"

definition monitor_line :: "(symbol list \<Rightarrow> bool) \<Rightarrow> nat \<Rightarrow> hardware \<Rightarrow> hardware" where
  "monitor_line drive reg hw =
     hw\<lparr>reg_answer := (\<lambda>h r. if r = reg
       then line_bits (\<not> clock_low (levels reg h)) (data_line (levels reg h) \<and> drive (seen (levels reg h))) (reg_answer hw h r)
       else reg_answer hw h r)\<rparr>"

lemma and_mask_bit: "v AND w \<noteq> 0 \<longleftrightarrow> bit v n" if "\<And>m. bit w m \<longleftrightarrow> m = n" for v w :: "32 word"
proof
  assume "v AND w \<noteq> 0"
  then obtain m where "bit (v AND w) m"
    using bit_eqI [of "v AND w" 0] by auto
  then show "bit v n"
    using that by (auto simp: bit_and_iff)
next
  assume "bit v n"
  then have "bit (v AND w) n"
    using that by (simp add: bit_and_iff)
  then show "v AND w \<noteq> 0"
    by auto
qed

lemma line_bits_read:
  "line_bits c d v AND I2C_CLOCK_VALUE_IN \<noteq> 0 \<longleftrightarrow> c" "line_bits c d v AND I2C_DATA_VALUE_IN \<noteq> 0 \<longleftrightarrow> d"
  by (simp_all add: and_mask_bit i2c_mask_bits) (simp_all add: line_bits_def bit_simps i2c_mask_bits)

interpretation gpio_monitor: i2c_answering "gpio_bus (monitor_line drive reg hw) si reg bus" "levels reg" drive
  for drive reg hw si bus
  by unfold_locales (simp add: gpio_bus_calls GetI2CSignals_def read32_def monitor_line_def line_bits_read)


lemma steady_monitor_line: "steady_clock (monitor_line drive reg hw) now \<longleftrightarrow> steady_clock hw now"
  by (simp add: steady_clock_def monitor_line_def)

text \<open>
  C24: a monitor on the lines of a port hands over its EDID. When the port has a DDC register and takes its GPIO bus, the bus is idle,
  the clock runs, and the monitor acknowledges and sends the block of a description \<open>e\<close>, then \<open>GetEDID\<close> of a port
  that has not been asked returns, with \<open>B_OK\<close> and exactly \<open>e\<close>, and keeps \<open>e\<close> in the port.
\<close>

theorem gpio_edid_read:
  assumes "fPortClass p \<in> {AnalogPort, LVDSPort, DigitalPort, HDMIPort}" "DDCRegister si (fPortClass p) (fPortIndex p) = reg" "reg \<noteq> 0"
    and "fEDIDState p = B_NO_INIT" "edid_ok e" "steady_clock hw now"
    and "bus_idle (levels reg h)" "monitor_sends drive (seen (levels reg h)) (edid_bytes e)"
  shows "\<exists>h'. GetEDID (monitor_line drive reg hw) si bus stack False p h = Some (B_OK, Some e, p\<lparr>fEDIDState := B_OK, fEDIDInfo := e\<rparr>, h')"
proof -
  let ?hw = "monitor_line drive reg hw"
  let ?bus = "gpio_bus ?hw si reg bus"
  obtain st edid h' where r: "ddc2_read_edid1 ?bus stack h = Some (st, edid, h')"
    using gpio_reading_returns [of ?hw now si reg bus stack h] assms(6) by (auto simp: steady_monitor_line)
  have "st = B_OK \<and> edid = Some e"
    using gpio_monitor.ddc2_read_edid1_monitor [OF assms(7,8,5), of hw si bus stack] r
    by (simp add: all_results_def gpio_bus_calls)
  with r show ?thesis
    using assms(1-4) by (auto simp: GetEDID_def SetupI2c_def PortSetupI2c_def store_edid_def)
qed

text \<open>A monitor that plays its answers by the number of symbols it has seen, and a clock that counts its readings.\<close>

definition player :: "nat list \<Rightarrow> symbol list \<Rightarrow> bool" where
  "player bytes S = (let n = length S - 29 in 29 \<le> length S \<and> bit (bytes ! (n div 9)) (7 - n mod 9))"

lemma player_byte:
  assumes "length S = 29 + 9 * i" "i < length bytes" "bytes ! i < 256"
  shows "sent_byte (player bytes) S = bytes ! i"
proof -
  have "player bytes (S @ replicate j (Bit True)) = bit (bytes ! i) (7 - j)" if "j < 8" for j
    using that assms(1) by (simp add: player_def)
  then have "map (\<lambda>j. player bytes (S @ replicate j (Bit True))) [0..<8] = map (\<lambda>j. bit (bytes ! i) (7 - j)) [0..<8]"
    by (intro map_cong) simp_all
  also have "\<dots> = to_bits 8 (bytes ! i)"
    by (simp add: to_bits_def upt_rec)
  finally show ?thesis
    unfolding sent_byte_def using assms(3) by simp
qed

lemma player_bytes:
  "length S = 29 + 9 * i \<Longrightarrow> i + n = length bytes \<Longrightarrow> \<forall>b\<in>set bytes. b < 256 \<Longrightarrow> sent_bytes (player bytes) S n = drop i bytes"
proof (induction n arbitrary: S i)
  case (Suc n)
  have "sent_byte (player bytes) S = bytes ! i"
    using Suc.prems by (intro player_byte) auto
  moreover have "sent_bytes (player bytes) (S @ replicate 8 (Bit True) @ [Bit (n = 0)]) n = drop (Suc i) bytes"
    using Suc.prems by (intro Suc.IH) simp_all
  ultimately show ?case
    using Suc.prems by (simp add: Cons_nth_drop_Suc)
qed simp

lemma player_sends: "\<forall>b\<in>set bytes. b < 256 \<Longrightarrow> monitor_sends (player bytes) [] bytes"
  by (simp add: monitor_sends_def Let_def player_bytes [of _ 0] byte_symbols_def) (simp add: player_def)

definition counting_clock :: hardware where
  "counting_clock = \<lparr>reg_answer = (\<lambda>h r. 0), time_answer = (\<lambda>h. int (count_list h Clock_read))\<rparr>"

lemma steady_counting_clock: "steady_clock counting_clock (\<lambda>h. int (count_list h Clock_read))"
proof -
  have "count_list (replicate n Clock_read) Clock_read = n" for n
    by (induction n) simp_all
  moreover have "\<exists>n. b \<le> int m + int n" for b m
    by (rule exI [of _ "nat b"]) simp
  ultimately show ?thesis
    by (simp add: steady_clock_def counting_clock_def)
qed

definition analog_port :: port where
  "analog_port = \<lparr>fPortClass = AnalogPort, fPortIndex = INTEL_PORT_A, fEDIDState = B_NO_INIT, fEDIDInfo = edid_decode (\<lambda>k. 0)\<rparr>"

lemma gpio_edid_read_witness:
  "\<forall>bus stack. \<exists>h'. GetEDID (monitor_line (player (edid_bytes panel_edid)) INTEL_I2C_IO_A counting_clock) ironlake_info bus stack False analog_port []
     = Some (B_OK, Some panel_edid, analog_port\<lparr>fEDIDState := B_OK, fEDIDInfo := panel_edid\<rparr>, h')"
proof (intro allI, rule gpio_edid_read [OF _ _ _ _ panel_edid_ok steady_counting_clock])
  show "monitor_sends (player (edid_bytes panel_edid)) (seen (levels INTEL_I2C_IO_A [])) (edid_bytes panel_edid)"
    using edid_bytes_small [OF panel_edid_ok] player_sends [of "edid_bytes panel_edid"]
    by (simp add: levels_def seen_def watch_def all_bytes_def)
qed (simp_all add: analog_port_def bus_idle_def watch_def levels_def i2c_registers)

end
