(* ===== verification/Port_Detect.thy ===== *)
theory Port_Detect
  imports Port_Edid
begin

text \<open>
  What finding out about a monitor comes to, for every class of port of \<open>src/intel_extreme/accelerant/Ports.cpp\<close>: it
  returns, on the lines of a register as over an AUX channel; and what the state of the port says afterwards.
\<close>

section \<open>Finding out returns\<close>

lemma call_hook_returns: "send_receive bus = Some (DpAuxSendReceiveHook hw si port) \<Longrightarrow> call_send_receive bus a wr rd h \<noteq> None"
  by (simp add: call_send_receive_def DpAuxSendReceiveHook_def case_prod_beta)

lemma aux_reading_returns: "SetupDpAuxI2c hw si port bus h = (st, bus', h') \<Longrightarrow> ddc2_read_edid1 bus' stack h'' \<noteq> None"
  by (rule reading_returns, rule call_hook_returns [of _ hw si port])
    (auto simp: SetupDpAuxI2c_def Let_def split: prod.splits if_splits)

lemma set_up_reading_returns:
  assumes "steady_clock hw now"
  shows "SetupI2c hw si p bus h = (B_OK, p', bus', h') \<Longrightarrow> ddc2_read_edid1 bus' stack h'' \<noteq> None"
    and "SetupI2cFallback hw si p bus = (B_OK, p', bus') \<Longrightarrow> ddc2_read_edid1 bus' stack h'' \<noteq> None"
  using gpio_reading_returns [OF assms] aux_reading_returns
  by (auto simp: SetupI2c_def SetupI2cFallback_def PortSetupI2c_def Let_def split: prod.splits if_splits)

text \<open>Rules that remember where a branch comes from.\<close>

lemma returns_by_case:
  "(b \<Longrightarrow> m \<noteq> None) \<Longrightarrow> (\<not> b \<Longrightarrow> n \<noteq> None) \<Longrightarrow> (if b then m else n) \<noteq> None"
  "(\<And>x y. r = (x, y) \<Longrightarrow> f x y \<noteq> None) \<Longrightarrow> (case r of (x, y) \<Rightarrow> f x y) \<noteq> None"
  "k \<noteq> None \<Longrightarrow> (\<And>z. g z \<noteq> None) \<Longrightarrow> (case c of None \<Rightarrow> k | Some z \<Rightarrow> g z) \<noteq> None"
  by (simp_all split: prod.splits option.splits)

lemma GetEDID_returns:
  assumes "steady_clock hw now"
  shows "GetEDID hw si bus stack forceRead p h \<noteq> None"
  unfolding GetEDID_def Let_def
  by (intro returns_by_case returns_bind returns_Some; hypsubst?; simp only: not_not; rule set_up_reading_returns [OF assms]; assumption)

lemma HasEDID_returns: "steady_clock hw now \<Longrightarrow> HasEDID hw si bus stack p h \<noteq> None"
  unfolding HasEDID_def by (intro returns GetEDID_returns)

text \<open>
  C28: finding out whether a port is connected returns, for every class of port, every answer of the registers and every state of the port,
  as long as the clock of the system runs.
\<close>

theorem connection_found_out:
  assumes "steady_clock hw now"
  shows "\<exists>connected p' h'. IsConnected hw si bus stack p h = Some (connected, p', h')"
proof -
  have "IsConnected hw si bus stack p h \<noteq> None"
    by (cases "fPortClass p")
      (simp_all only: IsConnected.simps port_class.case LVDSIsConnected_def HDMIIsConnected_def DisplayPortIsConnected_def EmbeddedIsConnected_def
        DDIIsConnected_def Let_def, (intro returns_by_case returns_bind returns_Some HasEDID_returns [OF assms])+)
  then show ?thesis
    by auto
qed


lemma connection_found_out_witness:
  "\<forall>bus stack. \<exists>connected p' h'. IsConnected counting_clock ironlake_info bus stack analog_port [] = Some (connected, p', h')"
  by (intro allI connection_found_out) (rule steady_counting_clock)

section \<open>The state of a port\<close>

text \<open>The description of a port in state \<open>B_OK\<close> comes from a block that was checked, or from the video BIOS.\<close>

definition checked_edid :: "edid1_info \<Rightarrow> bool" where
  "checked_edid e \<longleftrightarrow> (\<exists>stack. decoded_from stack e)"

definition port_ok :: "shared_info \<Rightarrow> port \<Rightarrow> bool" where
  "port_ok si p \<longleftrightarrow> (fEDIDState p = B_OK \<longrightarrow> checked_edid (fEDIDInfo p) \<or> vesa_edid_info si = Some (fEDIDInfo p))"

definition same_port :: "port \<Rightarrow> port \<Rightarrow> bool" where
  "same_port p p' \<longleftrightarrow> fPortClass p' = fPortClass p \<and> fPortIndex p' = fPortIndex p"

definition port_kept :: "shared_info \<Rightarrow> port \<Rightarrow> port \<Rightarrow> bool" where
  "port_kept si p p' \<longleftrightarrow> same_port p p' \<and> (port_ok si p \<longrightarrow> port_ok si p')"

lemma port_kept_refl [simp]: "port_kept si p p"
  by (simp add: port_kept_def same_port_def)

lemma port_kept_trans [trans]: "port_kept si p q \<Longrightarrow> port_kept si q r \<Longrightarrow> port_kept si p r"
  by (simp add: port_kept_def same_port_def)

lemma port_kept_use_vesa: "vesa_edid_info si = Some e \<Longrightarrow> port_kept si p q \<Longrightarrow> port_kept si p (use_vesa e q)"
  by (auto simp: port_kept_def same_port_def port_ok_def use_vesa_def)

lemma store_edid_kept:
  "(case edid of None \<Rightarrow> st \<noteq> B_OK | Some e \<Rightarrow> st = B_OK \<and> decoded_from stack e) \<Longrightarrow> port_kept si p q \<Longrightarrow> port_kept si p (store_edid st edid q)"
  by (cases edid) (auto simp: port_kept_def same_port_def port_ok_def store_edid_def checked_edid_def)

lemma set_up_kept:
  "SetupI2c hw si p bus h = (st, p', bus', h') \<Longrightarrow> port_kept si p p'" "SetupI2cFallback hw si p bus = (st, p', bus') \<Longrightarrow> port_kept si p p'"
  by (auto simp: SetupI2c_def SetupI2cFallback_def PortSetupI2c_def Let_def port_kept_def same_port_def port_ok_def split: prod.splits if_splits)


text \<open>A reading on the way from the port \<open>p\<close> to the port \<open>q\<close>.\<close>

lemma results_reading:
  assumes "port_kept si p q"
    and "\<And>st edid h'. port_kept si p (store_edid st edid q) \<Longrightarrow> all_results (k st edid h') P"
  shows "all_results (ddc2_read_edid1 bus stack h \<bind> (\<lambda>(st, edid, h'). k st edid h')) P"
  by (intro results_bind all_results_weaken [OF reading_checked]) (auto intro!: assms(2) store_edid_kept assms(1))

lemma results_by_case:
  "(b \<Longrightarrow> all_results m P) \<Longrightarrow> (\<not> b \<Longrightarrow> all_results n P) \<Longrightarrow> all_results (if b then m else n) P"
  "(\<And>x y. r = (x, y) \<Longrightarrow> all_results (f x y) P) \<Longrightarrow> all_results (case r of (x, y) \<Rightarrow> f x y) P"
  "(c = None \<Longrightarrow> all_results m P) \<Longrightarrow> (\<And>z. c = Some z \<Longrightarrow> all_results (g z) P) \<Longrightarrow> all_results (case c of None \<Rightarrow> m | Some z \<Rightarrow> g z) P"
  by (simp_all split: prod.splits option.splits)

lemma GetEDID_kept:
  "all_results (GetEDID hw si bus stack forceRead p h) (\<lambda>(st, copy, p', h'). port_kept si p p' \<and> (\<forall>e. copy = Some e \<longrightarrow> fEDIDState p' = B_OK \<and> e = fEDIDInfo p'))"
  unfolding GetEDID_def Let_def
  by (intro results_by_case results_Some results_reading) (auto intro: port_kept_trans dest: set_up_kept)


lemma HasEDID_kept: "all_results (HasEDID hw si bus stack p h) (\<lambda>(c, p', h'). c = (fEDIDState p' = B_OK) \<and> port_kept si p p')"
  unfolding HasEDID_def
  by (intro results_by_case results_Some results_bind all_results_weaken [OF GetEDID_kept]) (auto intro: results_Some)

lemma results_HasEDID:
  assumes "port_kept si p q"
    and "\<And>c q' h'. c = (fEDIDState q' = B_OK) \<Longrightarrow> port_kept si p q' \<Longrightarrow> all_results (k c q' h') P"
  shows "all_results (HasEDID hw si bus stack q h \<bind> (\<lambda>(c, q', h'). k c q' h')) P"
  by (intro results_bind all_results_weaken [OF HasEDID_kept]) (auto intro!: assms(2) intro: port_kept_trans assms(1))

text \<open>What an answer may say: a port that is connected for its EDID alone has one.\<close>

definition found :: "shared_info \<Rightarrow> port \<Rightarrow> bool \<times> port \<times> history \<Rightarrow> bool" where
  "found si p r = (case r of (connected, p', h') \<Rightarrow> port_kept si p p' \<and>
     (connected \<longrightarrow> fPortClass p \<in> {AnalogPort, DigitalPort, HDMIPort} \<longrightarrow> fEDIDState p' = B_OK))"

lemma found_HasEDID: "port_kept si p q \<Longrightarrow> all_results (HasEDID hw si bus stack q h) (found si p)"
  by (rule all_results_weaken [OF HasEDID_kept]) (auto simp: found_def intro: port_kept_trans)

lemma found_IsConnected: "all_results (IsConnected hw si bus stack p h) (found si p)"
proof (cases "fPortClass p \<in> {AnalogPort, DigitalPort, HDMIPort}")
  case True
  then show ?thesis
    by (auto simp: IsConnected.simps HDMIIsConnected_def Let_def found_def split: prod.splits intro!: results_by_case results_Some found_HasEDID)
next
  case False
  have "all_results (LVDSIsConnected hw si bus stack p h) (found si p)" "all_results (DisplayPortIsConnected hw si bus stack p h) (found si p)"
    "all_results (EmbeddedIsConnected hw si bus stack p h) (found si p)" "all_results (DDIIsConnected hw si bus stack p h) (found si p)"
    unfolding LVDSIsConnected_def DisplayPortIsConnected_def EmbeddedIsConnected_def DDIIsConnected_def Let_def
    by (intro results_by_case results_Some results_HasEDID found_HasEDID; use False in \<open>auto simp: found_def intro: port_kept_use_vesa\<close>)+
  with False show ?thesis
    by (cases "fPortClass p") (simp_all add: IsConnected.simps)
qed



end
