(* ===== verification/Pll_Wrpll.thy ===== *)
theory Pll_Wrpll
  imports Complex_Main Device "HOL-Library.Product_Lexorder" "HOL-Library.Signed_Division"
begin

text \<open>
  The dividers of the display clocks since Haswell: the searches of \<open>src/intel_extreme/accelerant/pll.cpp\<close> over the dividers of the
  wide range PLLs of Haswell and Skylake, and of \<open>TigerLakePLL.cpp\<close>. The specification of each is the best
  element of the whole search space; that the unsigned arithmetic of the code does not wrap is part of the proofs.
\<close>


section \<open>Searches\<close>

text \<open>A search keeps the first element that no later one is better than.\<close>

definition pick :: "('a \<Rightarrow> 'a \<Rightarrow> bool) \<Rightarrow> 'a list \<Rightarrow> 'a option \<Rightarrow> 'a option" where
  "pick better xs = fold (\<lambda>x b. case b of None \<Rightarrow> Some x | Some y \<Rightarrow> if better x y then Some x else b) xs"

lemma pick_simps [simp]:
  "pick better [] b = b"
  "pick better (x # xs) None = pick better xs (Some x)"
  "pick better (x # xs) (Some y) = pick better xs (Some (if better x y then x else y))"
  by (simp_all add: pick_def)

text \<open>What makes the result the best one: better is to have a smaller key, at least among the elements that are looked at.\<close>

locale best_search =
  fixes better :: "'a \<Rightarrow> 'a \<Rightarrow> bool" and key :: "'a \<Rightarrow> 'k::linorder" and good :: "'a \<Rightarrow> bool"
  assumes better_key: "good x \<Longrightarrow> good y \<Longrightarrow> better x y \<longleftrightarrow> key x < key y"
begin

lemma pick_from:
  "\<forall>x\<in>set xs. good x \<Longrightarrow> good y \<Longrightarrow>
     \<exists>b\<in>insert y (set xs). pick better xs (Some y) = Some b \<and> key b \<le> key y \<and> (\<forall>x\<in>set xs. key b \<le> key x)"
proof (induction xs arbitrary: y)
  case (Cons x xs)
  let ?z = "if better x y then x else y"
  have "good ?z"
    using Cons.prems by simp
  moreover have "\<forall>x\<in>set xs. good x"
    using Cons.prems by simp
  ultimately obtain b where "b \<in> insert ?z (set xs)" "pick better xs (Some ?z) = Some b" "key b \<le> key ?z" "\<forall>x\<in>set xs. key b \<le> key x"
    using Cons.IH [of ?z] by blast
  moreover have "key ?z \<le> key x" "key ?z \<le> key y"
    using better_key [of x y] Cons.prems by auto
  ultimately show ?case
    by (intro bexI [of _ b]) (auto split: if_splits)
qed simp

lemma pick_best:
  assumes "\<forall>x\<in>set xs. good x" "xs \<noteq> []"
  shows "\<exists>b\<in>set xs. pick better xs None = Some b \<and> (\<forall>x\<in>set xs. key b \<le> key x)"
proof -
  obtain y ys where xs: "xs = y # ys"
    using assms(2) by (cases xs) auto
  obtain b where "b \<in> insert y (set ys)" "pick better ys (Some y) = Some b" "key b \<le> key y" "\<forall>x\<in>set ys. key b \<le> key x"
    using pick_from [of ys y] assms(1) by (auto simp: xs)
  then show ?thesis
    by (auto simp: xs intro!: bexI [of _ b])
qed

end

lemma fold_nested: "fold (\<lambda>x. fold (f x) (g x)) xs s = fold (\<lambda>(x, y). f x y) [(x, y). x \<leftarrow> xs, y \<leftarrow> g x] s"
proof (induction xs arbitrary: s)
  case (Cons x xs)
  have "fold (\<lambda>(x, y). f x y) (map (Pair x) ys) s = fold (f x) ys s" for ys
    by (induction ys arbitrary: s) simp_all
  then show ?case
    by (simp add: Cons)
qed simp


section \<open>Wide range PLL of Haswell\<close>

definition u64 :: "nat \<Rightarrow> nat" where
  "u64 x = x mod 2 ^ 64"

lemma u64_id: "x < 2 ^ 64 \<Longrightarrow> u64 x = x"
  by (simp add: u64_def)

definition AbsSubtr64 :: "nat \<Rightarrow> nat \<Rightarrow> nat" where
  "AbsSubtr64 nr1 nr2 = (if nr2 \<le> nr1 then nr1 - nr2 else nr2 - nr1)"

definition LC_FREQ :: nat where "LC_FREQ = 2700"
definition LC_FREQ_2K :: nat where "LC_FREQ_2K = LC_FREQ * 2000"
definition P_MIN :: nat where "P_MIN = 2"
definition P_MAX :: nat where "P_MAX = 64"
definition P_INC :: nat where "P_INC = 2"
definition REF_MIN :: nat where "REF_MIN = 48"
definition REF_MAX :: nat where "REF_MAX = 400"
definition VCO_MIN :: nat where "VCO_MIN = 2400"
definition VCO_MAX :: nat where "VCO_MAX = 4800"

lemmas wrpll_constants = LC_FREQ_def LC_FREQ_2K_def P_MIN_def P_MAX_def P_INC_def REF_MIN_def REF_MAX_def VCO_MIN_def VCO_MAX_def

record hsw_wrpll_rnp =
  rnp_p :: nat
  rnp_n2 :: nat
  rnp_r2 :: nat

definition hsw_wrpll_get_budget_for_freq :: "int \<Rightarrow> nat" where
  "hsw_wrpll_get_budget_for_freq clock =
     (if clock \<in> set [25175000, 25200000, 27000000, 27027000, 37762500, 37800000, 40500000, 40541000, 54000000, 54054000, 59341000,
         59400000, 72000000, 74176000, 74250000, 81000000, 81081000, 89012000, 89100000, 108000000, 108108000, 111264000, 111375000,
         148352000, 148500000, 162000000, 162162000, 222525000, 222750000, 296703000, 297000000] then 0
      else if clock \<in> set [233500000, 245250000, 247750000, 253250000, 298000000] then 1500
      else if clock \<in> set [169128000, 169500000, 179500000, 202000000] then 2000
      else if clock \<in> set [256250000, 262500000, 270000000, 272500000, 273750000, 280750000, 281250000, 286000000, 291750000] then 4000
      else if clock \<in> set [267250000, 268500000] then 5000
      else 1000)"

definition hsw_wrpll_update_rnp :: "nat \<Rightarrow> nat \<Rightarrow> nat \<Rightarrow> nat \<Rightarrow> nat \<Rightarrow> hsw_wrpll_rnp \<Rightarrow> hsw_wrpll_rnp" where
  "hsw_wrpll_update_rnp freq2k budget r2 n2 p best =
     (let new = \<lparr>rnp_p = p, rnp_n2 = n2, rnp_r2 = r2\<rparr>
      in if rnp_p best = 0 then new
         else
           let a = u64 (freq2k * budget * p * r2);
               b = u64 (freq2k * budget * rnp_p best * rnp_r2 best);
               diff = AbsSubtr64 (u64 (freq2k * p * r2)) (u64 (LC_FREQ_2K * n2));
               diff_best = AbsSubtr64 (u64 (freq2k * rnp_p best * rnp_r2 best)) (u64 (LC_FREQ_2K * rnp_n2 best));
               c = u64 (1000000 * diff);
               d = u64 (1000000 * diff_best)
           in if a < c \<and> b < d then
                (if u64 (u32 (rnp_p best * rnp_r2 best) * diff) < u64 (u32 (p * r2) * diff_best) then new else best)
              else if c \<le> a \<and> b < d then new
              else if c \<le> a \<and> d \<le> b then
                (if u32 (rnp_n2 best * r2 * r2) < u32 (n2 * rnp_r2 best * rnp_r2 best) then new else best)
              else best)"

text \<open>The result is \<open>r2\<close>, \<open>n2\<close> and \<open>p\<close>. The loops run over ranges.\<close>

definition r2_range :: "nat list" where
  "r2_range = [LC_FREQ * 2 div REF_MAX + 1..<LC_FREQ * 2 div REF_MIN + 1]"

definition n2_range :: "nat \<Rightarrow> nat list" where
  "n2_range r2 = [VCO_MIN * r2 div LC_FREQ + 1..<VCO_MAX * r2 div LC_FREQ + 1]"

definition p_range :: "nat list" where
  "p_range = map (\<lambda>i. P_MIN + P_INC * i) [0..<(P_MAX - P_MIN) div P_INC + 1]"

definition hsw_ddi_calculate_wrpll :: "int \<Rightarrow> nat \<times> nat \<times> nat" where
  "hsw_ddi_calculate_wrpll clock =
     (let freq2k = nat ((clock sdiv 100) mod 2 ^ 64);
          budget = hsw_wrpll_get_budget_for_freq clock
      in if freq2k = 5400000 then (2, 2, 1)
         else
           let best = fold (\<lambda>r2. fold (\<lambda>n2. fold (\<lambda>p. hsw_wrpll_update_rnp freq2k budget r2 n2 p) p_range) (n2_range r2)) r2_range
                 \<lparr>rnp_p = 0, rnp_n2 = 0, rnp_r2 = 0\<rparr>
           in (rnp_r2 best, rnp_n2 best, rnp_p best))"

text \<open>The order of the search: an element within the budget for the frequency is better than one that is not, of two within the
  budget the one with the higher product of reference and VCO frequency, otherwise the one nearer to the frequency.\<close>

definition rnp_deviation :: "nat \<Rightarrow> hsw_wrpll_rnp \<Rightarrow> nat" where
  "rnp_deviation freq2k x = AbsSubtr64 (freq2k * rnp_p x * rnp_r2 x) (LC_FREQ_2K * rnp_n2 x)"

definition rnp_in_budget :: "nat \<Rightarrow> nat \<Rightarrow> hsw_wrpll_rnp \<Rightarrow> bool" where
  "rnp_in_budget freq2k budget x \<longleftrightarrow> 1000000 * rnp_deviation freq2k x \<le> freq2k * budget * rnp_p x * rnp_r2 x"

definition rnp_better :: "nat \<Rightarrow> nat \<Rightarrow> hsw_wrpll_rnp \<Rightarrow> hsw_wrpll_rnp \<Rightarrow> bool" where
  "rnp_better freq2k budget x y \<longleftrightarrow>
     (if \<not> rnp_in_budget freq2k budget x \<and> \<not> rnp_in_budget freq2k budget y
      then rnp_p y * rnp_r2 y * rnp_deviation freq2k x < rnp_p x * rnp_r2 x * rnp_deviation freq2k y
      else rnp_in_budget freq2k budget x \<and>
        (\<not> rnp_in_budget freq2k budget y \<or> rnp_n2 y * rnp_r2 x * rnp_r2 x < rnp_n2 x * rnp_r2 y * rnp_r2 y))"

definition rnp_key :: "nat \<Rightarrow> nat \<Rightarrow> hsw_wrpll_rnp \<Rightarrow> bool \<times> rat" where
  "rnp_key freq2k budget x =
     (\<not> rnp_in_budget freq2k budget x,
      if rnp_in_budget freq2k budget x then - (of_nat (rnp_n2 x) / of_nat (rnp_r2 x * rnp_r2 x))
      else of_nat (rnp_deviation freq2k x) / of_nat (rnp_p x * rnp_r2 x))"

definition rnp_range :: "hsw_wrpll_rnp \<Rightarrow> bool" where
  "rnp_range x \<longleftrightarrow> 0 < rnp_p x \<and> rnp_p x \<le> 64 \<and> 0 < rnp_r2 x \<and> rnp_r2 x \<le> 112 \<and> rnp_n2 x \<le> 199"

lemma nat_fraction_less:
  "0 < b \<Longrightarrow> 0 < d \<Longrightarrow> of_nat a / of_nat b < (of_nat c / of_nat d :: rat) \<longleftrightarrow> a * d < c * b"
  by (simp add: divide_less_eq less_divide_eq flip: of_nat_mult)

interpretation rnp_search: best_search "rnp_better freq2k budget" "rnp_key freq2k budget" rnp_range for freq2k budget
proof
  fix x y assume "rnp_range x" "rnp_range y"
  then have pos: "0 < rnp_p x * rnp_r2 x" "0 < rnp_p y * rnp_r2 y" "0 < rnp_r2 x * rnp_r2 x" "0 < rnp_r2 y * rnp_r2 y"
    by (simp_all add: rnp_range_def)
  show "rnp_better freq2k budget x y \<longleftrightarrow> rnp_key freq2k budget x < rnp_key freq2k budget y"
    using nat_fraction_less [OF pos(1,2)] nat_fraction_less [OF pos(4,3)]
    by (simp add: rnp_better_def rnp_key_def ac_simps del: of_nat_mult)
qed

lemma rnp_products:
  assumes "rnp_range x" "freq2k \<le> 21474836" "budget \<le> 5000"
  shows "freq2k * rnp_p x * rnp_r2 x \<le> 153935624448" "freq2k * budget * rnp_p x * rnp_r2 x \<le> 769678122240000" "rnp_p x * rnp_r2 x \<le> 7168"
    "LC_FREQ_2K * rnp_n2 x \<le> 1074600000" "rnp_deviation freq2k x \<le> 153935624448"
proof -
  have r: "rnp_p x \<le> 64" "rnp_r2 x \<le> 112" "rnp_n2 x \<le> 199"
    using assms(1) by (simp_all add: rnp_range_def)
  have "freq2k * rnp_p x * rnp_r2 x \<le> 21474836 * 64 * 112"
    by (intro mult_le_mono r assms)
  then show 1: "freq2k * rnp_p x * rnp_r2 x \<le> 153935624448"
    by simp
  have "freq2k * budget * rnp_p x * rnp_r2 x \<le> 21474836 * 5000 * 64 * 112"
    by (intro mult_le_mono r assms)
  then show "freq2k * budget * rnp_p x * rnp_r2 x \<le> 769678122240000"
    by simp
  have "rnp_p x * rnp_r2 x \<le> 64 * 112"
    by (intro mult_le_mono r)
  then show "rnp_p x * rnp_r2 x \<le> 7168"
    by simp
  show 2: "LC_FREQ_2K * rnp_n2 x \<le> 1074600000"
    using r(3) by (simp add: wrpll_constants)
  show "rnp_deviation freq2k x \<le> 153935624448"
    using 1 2 unfolding rnp_deviation_def AbsSubtr64_def by (auto intro: order_trans [OF diff_le_self])
qed

lemma hsw_update_better:
  assumes "rnp_range x" "rnp_range y" "freq2k \<le> 21474836" "budget \<le> 5000"
  shows "hsw_wrpll_update_rnp freq2k budget (rnp_r2 x) (rnp_n2 x) (rnp_p x) y = (if rnp_better freq2k budget x y then x else y)"
proof -
  note x = rnp_products [OF assms(1,3,4)] and y = rnp_products [OF assms(2,3,4)]
  have new: "\<lparr>rnp_p = rnp_p x, rnp_n2 = rnp_n2 x, rnp_r2 = rnp_r2 x\<rparr> = x" "rnp_p y \<noteq> 0"
    using assms(2) by (simp_all add: rnp_range_def)
  have dev: "AbsSubtr64 (u64 (freq2k * rnp_p z * rnp_r2 z)) (u64 (LC_FREQ_2K * rnp_n2 z)) = rnp_deviation freq2k z"
    "u64 (1000000 * rnp_deviation freq2k z) = 1000000 * rnp_deviation freq2k z"
    "u64 (freq2k * budget * rnp_p z * rnp_r2 z) = freq2k * budget * rnp_p z * rnp_r2 z"
    if "z = x \<or> z = y" for z
    using that x y by (auto simp: rnp_deviation_def u64_id)
  have "rnp_p v * rnp_r2 v * rnp_deviation freq2k w \<le> 7168 * 153935624448" if "v = x \<or> v = y" "w = x \<or> w = y" for v w
    using that x y by (intro mult_le_mono) auto
  then have dist: "u64 (u32 (rnp_p v * rnp_r2 v) * rnp_deviation freq2k w) = rnp_p v * rnp_r2 v * rnp_deviation freq2k w"
    if "v = x \<or> v = y" "w = x \<or> w = y" for v w
    using that x y by (fastforce simp: u64_id)
  have "rnp_n2 v * rnp_r2 w * rnp_r2 w \<le> 199 * 112 * 112" if "rnp_range v" "rnp_range w" for v w
    using that by (intro mult_le_mono) (auto simp: rnp_range_def)
  then have high: "u32 (rnp_n2 v * rnp_r2 w * rnp_r2 w) = rnp_n2 v * rnp_r2 w * rnp_r2 w" if "rnp_range v" "rnp_range w" for v w
    using that by (fastforce intro: u32_id)
  show ?thesis
    unfolding hsw_wrpll_update_rnp_def Let_def new(1)
    by (simp add: new(2) dev dist high assms(1,2)) (auto simp: rnp_better_def rnp_in_budget_def not_le)
qed


text \<open>The search space, in the order of the loops.\<close>

definition wrpll_space :: "hsw_wrpll_rnp list" where
  "wrpll_space = [\<lparr>rnp_p = p, rnp_n2 = n2, rnp_r2 = r2\<rparr>. r2 \<leftarrow> r2_range, n2 \<leftarrow> n2_range r2, p \<leftarrow> p_range]"

lemma wrpll_space_range: "x \<in> set wrpll_space \<Longrightarrow> rnp_range x"
proof -
  assume "x \<in> set wrpll_space"
  then obtain r2 n2 p where x: "x = \<lparr>rnp_p = p, rnp_n2 = n2, rnp_r2 = r2\<rparr>" "r2 \<in> set r2_range" "n2 \<in> set (n2_range r2)" "p \<in> set p_range"
    by (auto simp: wrpll_space_def)
  have "14 \<le> r2" "r2 \<le> 112" "0 < p" "p \<le> 64"
    using x(2,4) by (auto simp: r2_range_def p_range_def wrpll_constants)
  moreover have "n2 \<le> 4800 * r2 div 2700"
    using x(3) by (auto simp: n2_range_def wrpll_constants)
  then have "n2 \<le> 199"
    using \<open>r2 \<le> 112\<close> div_le_mono [of "4800 * r2" "4800 * 112" 2700] by simp
  ultimately show ?thesis
    by (simp add: rnp_range_def x(1))
qed

lemma hsw_fold_pick:
  assumes "freq2k \<le> 21474836" "budget \<le> 5000"
  shows "\<forall>x\<in>set xs. rnp_range x \<Longrightarrow> rnp_range y \<Longrightarrow>
    Some (fold (\<lambda>x. hsw_wrpll_update_rnp freq2k budget (rnp_r2 x) (rnp_n2 x) (rnp_p x)) xs y) = pick (rnp_better freq2k budget) xs (Some y)"
  by (induction xs arbitrary: y) (simp_all add: hsw_update_better assms)

lemma hsw_loops: "fold (\<lambda>r2. fold (\<lambda>n2. fold (\<lambda>p. hsw_wrpll_update_rnp freq2k budget r2 n2 p) p_range) (n2_range r2)) r2_range b =
    fold (\<lambda>x. hsw_wrpll_update_rnp freq2k budget (rnp_r2 x) (rnp_n2 x) (rnp_p x)) wrpll_space b"
proof -
  have 1: "fold (\<lambda>x. hsw_wrpll_update_rnp freq2k budget (rnp_r2 x) (rnp_n2 x) (rnp_p x)) (map (\<lambda>p. \<lparr>rnp_p = p, rnp_n2 = n2, rnp_r2 = r2\<rparr>) ps)
      = fold (hsw_wrpll_update_rnp freq2k budget r2 n2) ps" for r2 n2 ps
    by (induction ps) simp_all
  have fold_concat: "fold f (concat xss) = fold (fold f) xss" for f :: "hsw_wrpll_rnp \<Rightarrow> hsw_wrpll_rnp \<Rightarrow> hsw_wrpll_rnp" and xss
    by (induction xss) simp_all
  show ?thesis
    by (simp add: wrpll_space_def fold_concat fold_map comp_def 1)
qed

lemma wrpll_space_first:
  "\<exists>x xs. wrpll_space = x # xs \<and> hsw_wrpll_update_rnp freq2k budget (rnp_r2 x) (rnp_n2 x) (rnp_p x) \<lparr>rnp_p = 0, rnp_n2 = 0, rnp_r2 = 0\<rparr> = x"
proof -
  have "r2_range = 14 # [15..<113]" "n2_range 14 = 13 # [14..<25]" "p_range = 2 # map (\<lambda>i. 2 + 2 * i) [1..<32]"
    by (simp_all add: r2_range_def n2_range_def p_range_def wrpll_constants upt_rec [of 14] upt_rec [of 13] upt_rec [of 0])
  then obtain r2s n2s ps where r: "r2_range = 14 # r2s" "n2_range 14 = 13 # n2s" "p_range = 2 # ps"
    by blast
  have "\<exists>xs. wrpll_space = \<lparr>rnp_p = 2, rnp_n2 = 13, rnp_r2 = 14\<rparr> # xs"
    unfolding wrpll_space_def r(1) list.map concat.simps r(2) unfolding r(3) by simp
  then show ?thesis
    by (auto simp: hsw_wrpll_update_rnp_def)
qed

lemma hsw_best:
  assumes "freq2k \<le> 21474836" "budget \<le> 5000"
  shows "\<exists>b\<in>set wrpll_space. fold (\<lambda>r2. fold (\<lambda>n2. fold (\<lambda>p. hsw_wrpll_update_rnp freq2k budget r2 n2 p) p_range) (n2_range r2)) r2_range
      \<lparr>rnp_p = 0, rnp_n2 = 0, rnp_r2 = 0\<rparr> = b \<and> (\<forall>x\<in>set wrpll_space. rnp_key freq2k budget b \<le> rnp_key freq2k budget x)"
proof -
  obtain x xs where s: "wrpll_space = x # xs"
      "hsw_wrpll_update_rnp freq2k budget (rnp_r2 x) (rnp_n2 x) (rnp_p x) \<lparr>rnp_p = 0, rnp_n2 = 0, rnp_r2 = 0\<rparr> = x"
    using wrpll_space_first by blast
  have range: "\<forall>y\<in>set wrpll_space. rnp_range y"
    by (simp add: wrpll_space_range)
  obtain b where b: "b \<in> set wrpll_space" "pick (rnp_better freq2k budget) wrpll_space None = Some b"
      "\<forall>y\<in>set wrpll_space. rnp_key freq2k budget b \<le> rnp_key freq2k budget y"
    using rnp_search.pick_best [OF range, of freq2k budget] unfolding s(1) by blast
  have "pick (rnp_better freq2k budget) xs (Some x) = Some b"
    using b(2) by (simp add: s(1))
  moreover have "Some (fold (\<lambda>x. hsw_wrpll_update_rnp freq2k budget (rnp_r2 x) (rnp_n2 x) (rnp_p x)) xs x) = pick (rnp_better freq2k budget) xs (Some x)"
    using range by (intro hsw_fold_pick assms) (simp_all add: s(1))
  ultimately have "fold (\<lambda>x. hsw_wrpll_update_rnp freq2k budget (rnp_r2 x) (rnp_n2 x) (rnp_p x)) wrpll_space \<lparr>rnp_p = 0, rnp_n2 = 0, rnp_r2 = 0\<rparr> = b"
    by (simp add: s)
  with b(1,3) show ?thesis
    unfolding hsw_loops by blast
qed

lemma budget_le: "hsw_wrpll_get_budget_for_freq clock \<le> 5000"
  by (simp add: hsw_wrpll_get_budget_for_freq_def)




section \<open>Wide range PLL of Skylake\<close>

record skl_wrpll_context =
  min_deviation :: nat
  ctx_central_freq :: nat
  ctx_dco_freq :: nat
  ctx_p :: nat

definition SKL_DCO_MAX_PDEVIATION :: nat where "SKL_DCO_MAX_PDEVIATION = 100"
definition SKL_DCO_MAX_NDEVIATION :: nat where "SKL_DCO_MAX_NDEVIATION = 600"

definition skl_wrpll_context_init :: skl_wrpll_context where
  "skl_wrpll_context_init = \<lparr>min_deviation = 2 ^ 64 - 1, ctx_central_freq = 0, ctx_dco_freq = 0, ctx_p = 0\<rparr>"

definition skl_wrpll_try_divider :: "skl_wrpll_context \<Rightarrow> nat \<Rightarrow> nat \<Rightarrow> nat \<Rightarrow> skl_wrpll_context" where
  "skl_wrpll_try_divider ctx central_freq dco_freq divider =
     (let deviation = u64 (10000 * AbsSubtr64 dco_freq central_freq) div central_freq;
          found = \<lparr>min_deviation = deviation, ctx_central_freq = central_freq, ctx_dco_freq = dco_freq, ctx_p = divider\<rparr>
      in if central_freq \<le> dco_freq then
           (if deviation < SKL_DCO_MAX_PDEVIATION \<and> deviation < min_deviation ctx then found else ctx)
         else if deviation < SKL_DCO_MAX_NDEVIATION \<and> deviation < min_deviation ctx then found
         else ctx)"

text \<open>The three parts of a divider, all zero when there is no case for it.\<close>

definition skl_wrpll_get_multipliers :: "nat \<Rightarrow> nat \<times> nat \<times> nat" where
  "skl_wrpll_get_multipliers p =
     (if p mod 2 = 0 then
        let half = p div 2
        in if half = 1 \<or> half = 2 \<or> half = 3 \<or> half = 5 then (2, 1, half)
           else if half mod 2 = 0 then (2, half div 2, 2)
           else if half mod 3 = 0 then (3, half div 3, 2)
           else if half mod 7 = 0 then (7, half div 7, 2)
           else (0, 0, 0)
      else if p = 3 \<or> p = 9 then (3, 1, p div 3)
      else if p = 5 \<or> p = 7 then (p, 1, 1)
      else if p = 15 then (3, 1, 5)
      else if p = 21 then (7, 1, 3)
      else if p = 35 then (7, 1, 5)
      else (0, 0, 0))"

record skl_wrpll_params =
  dco_fraction :: nat
  dco_integer :: nat
  qdiv_ratio :: nat
  qdiv_mode :: nat
  kdiv :: nat
  pdiv :: nat
  central_freq_sel :: nat

definition skl_wrpll_params_populate :: "skl_wrpll_params \<Rightarrow> nat \<Rightarrow> nat \<Rightarrow> nat \<Rightarrow> nat \<Rightarrow> nat \<Rightarrow> nat \<Rightarrow> skl_wrpll_params" where
  "skl_wrpll_params_populate params afe_clock ref_clock central_freq p0 p1 p2 =
     (let central = (if central_freq = 9600000000 then 0 else if central_freq = 9000000000 then 1 else if central_freq = 8400000000 then 3
            else central_freq_sel params);
          pd = (if p0 = 1 then 0 else if p0 = 2 then 1 else if p0 = 3 then 2 else if p0 = 7 then 4 else pdiv params);
          kd = (if p2 = 5 then 0 else if p2 = 2 then 1 else if p2 = 3 then 2 else if p2 = 1 then 3 else kdiv params);
          dco_freq = u64 (u32 (p0 * p1 * p2) * afe_clock);
          whole = u32 (dco_freq div (ref_clock * 1000));
          fraction = u32 (u64 (u64 (dco_freq div (ref_clock div 1000) + (2 ^ 64 - whole * 1000000)) * 0x8000) div 1000000)
      in \<lparr>dco_fraction = fraction, dco_integer = whole, qdiv_ratio = p1, qdiv_mode = (if p1 = 1 then 0 else 1), kdiv = kd, pdiv = pd,
          central_freq_sel = central\<rparr>)"

definition dco_central_freq :: "nat list" where
  "dco_central_freq = [8400000000, 9000000000, 9600000000]"

definition even_dividers :: "nat list" where
  "even_dividers = [4, 6, 8, 10, 12, 14, 16, 18, 20, 24, 28, 30, 32, 36, 40, 42, 44, 48, 52, 54, 56, 60, 64, 66, 68, 70, 72, 76, 78, 80, 84,
     88, 90, 92, 96, 98]"

definition odd_dividers :: "nat list" where
  "odd_dividers = [3, 5, 7, 9, 15, 21, 35]"

text \<open>The loops over the dividers of a list and over the central frequencies, with the jump out of both.\<close>

fun skl_try_list :: "nat \<Rightarrow> nat \<Rightarrow> nat list \<Rightarrow> skl_wrpll_context \<Rightarrow> skl_wrpll_context" where
  "skl_try_list afe_clock central [] ctx = ctx"
| "skl_try_list afe_clock central (p # ps) ctx =
     (let ctx = skl_wrpll_try_divider ctx central (u64 (p * afe_clock)) p
      in if min_deviation ctx = 0 then ctx else skl_try_list afe_clock central ps ctx)"

fun skl_try_centrals :: "nat \<Rightarrow> nat list \<Rightarrow> nat list \<Rightarrow> skl_wrpll_context \<Rightarrow> skl_wrpll_context" where
  "skl_try_centrals afe_clock ps [] ctx = ctx"
| "skl_try_centrals afe_clock ps (central # cs) ctx =
     (let ctx = skl_try_list afe_clock central ps ctx
      in if min_deviation ctx = 0 then ctx else skl_try_centrals afe_clock ps cs ctx)"

definition skl_search :: "nat \<Rightarrow> skl_wrpll_context" where
  "skl_search afe_clock =
     (let ctx = skl_try_centrals afe_clock even_dividers dco_central_freq skl_wrpll_context_init
      in if ctx_p ctx \<noteq> 0 then ctx else skl_try_centrals afe_clock odd_dividers dco_central_freq ctx)"

text \<open>The result has the parameters when a divider is found; \<open>params\<close> is what the structure of the caller holds.\<close>

definition skl_ddi_calculate_wrpll :: "nat \<Rightarrow> nat \<Rightarrow> skl_wrpll_params \<Rightarrow> bool \<times> skl_wrpll_params" where
  "skl_ddi_calculate_wrpll clock ref_clock params =
     (let afe_clock = u64 (clock * 5);
          ctx = skl_search afe_clock
      in if ctx_p ctx = 0 then (False, params)
         else
           let (p0, p1, p2) = skl_wrpll_get_multipliers (ctx_p ctx)
           in (True, skl_wrpll_params_populate params afe_clock ref_clock (ctx_central_freq ctx) p0 p1 p2))"

text \<open>What the search looks for: the deviation of the frequency \<open>p * afe_clock\<close> from a central frequency, and whether it is allowed, for
  pairs of a central frequency and a divider.\<close>

definition dco_deviation :: "nat \<Rightarrow> nat \<times> nat \<Rightarrow> nat" where
  "dco_deviation afe_clock x = (case x of (central, p) \<Rightarrow> 10000 * AbsSubtr64 (p * afe_clock) central div central)"

definition dco_allowed :: "nat \<Rightarrow> nat \<times> nat \<Rightarrow> bool" where
  "dco_allowed afe_clock x = (case x of (central, p) \<Rightarrow>
     dco_deviation afe_clock x < (if central \<le> p * afe_clock then SKL_DCO_MAX_PDEVIATION else SKL_DCO_MAX_NDEVIATION))"

definition dco_better :: "nat \<Rightarrow> nat \<times> nat \<Rightarrow> nat \<times> nat \<Rightarrow> bool" where
  "dco_better afe_clock x y \<longleftrightarrow> dco_deviation afe_clock x < dco_deviation afe_clock y"

interpretation dco_search: best_search "dco_better afe_clock" "dco_deviation afe_clock" "\<lambda>_. True" for afe_clock
  by unfold_locales (simp add: dco_better_def)

text \<open>The context for a result of the search.\<close>

fun dco_context :: "nat \<Rightarrow> (nat \<times> nat) option \<Rightarrow> skl_wrpll_context" where
  "dco_context afe_clock None = skl_wrpll_context_init"
| "dco_context afe_clock (Some (central, p)) =
     \<lparr>min_deviation = dco_deviation afe_clock (central, p), ctx_central_freq = central, ctx_dco_freq = p * afe_clock, ctx_p = p\<rparr>"

definition small_pair :: "nat \<times> nat \<Rightarrow> bool" where
  "small_pair x \<longleftrightarrow> fst x \<le> 9600000000 \<and> snd x \<le> 98"

lemma dco_no_wrap:
  assumes "small_pair (central, p)" "afe_clock < 5 * 2 ^ 31"
  shows "u64 (p * afe_clock) = p * afe_clock" "u64 (10000 * AbsSubtr64 (p * afe_clock) central) = 10000 * AbsSubtr64 (p * afe_clock) central"
proof -
  have "p * afe_clock \<le> 98 * (5 * 2 ^ 31)"
    using assms by (intro mult_le_mono) (simp_all add: small_pair_def)
  then show "u64 (p * afe_clock) = p * afe_clock"
    by (intro u64_id) simp
  have "AbsSubtr64 (p * afe_clock) central \<le> 98 * (5 * 2 ^ 31)"
    using \<open>p * afe_clock \<le> 98 * (5 * 2 ^ 31)\<close> assms(1) by (auto simp: AbsSubtr64_def small_pair_def)
  then show "u64 (10000 * AbsSubtr64 (p * afe_clock) central) = 10000 * AbsSubtr64 (p * afe_clock) central"
    by (intro u64_id) simp
qed

text \<open>The element that the search has after it has looked at another one.\<close>

definition dco_step :: "nat \<Rightarrow> nat \<times> nat \<Rightarrow> (nat \<times> nat) option \<Rightarrow> (nat \<times> nat) option" where
  "dco_step afe_clock x b = (if dco_allowed afe_clock x then pick (dco_better afe_clock) [x] b else b)"

lemma try_divider_step:
  assumes "small_pair x" "afe_clock < 5 * 2 ^ 31"
  shows "skl_wrpll_try_divider (dco_context afe_clock b) (fst x) (u64 (snd x * afe_clock)) (snd x) = dco_context afe_clock (dco_step afe_clock x b)"
proof -
  obtain central p where x: "x = (central, p)"
    by fastforce
  note n = dco_no_wrap [OF assms(1) [unfolded x] assms(2)]
  have dev: "10000 * AbsSubtr64 (p * afe_clock) central div central = dco_deviation afe_clock x"
    by (simp add: dco_deviation_def x)
  show ?thesis
  proof (cases b)
    case None
    then show ?thesis
      unfolding skl_wrpll_try_divider_def Let_def x fst_conv snd_conv n dev [unfolded x]
      by (auto simp: dco_step_def dco_allowed_def skl_wrpll_context_init_def SKL_DCO_MAX_PDEVIATION_def SKL_DCO_MAX_NDEVIATION_def)
  next
    case (Some y)
    obtain central' p' where y: "y = (central', p')"
      by fastforce
    show ?thesis
      unfolding skl_wrpll_try_divider_def Let_def x fst_conv snd_conv n dev [unfolded x] Some y
      by (auto simp: dco_step_def dco_allowed_def dco_better_def)
  qed
qed

text \<open>A deviation of 0 cannot be improved, so the jump out of the loops changes nothing.\<close>

lemma try_divider_zero: "min_deviation ctx = 0 \<Longrightarrow> skl_wrpll_try_divider ctx central dco p = ctx"
  by (simp add: skl_wrpll_try_divider_def Let_def)

lemma dco_fold_stays:
  "\<forall>x\<in>set xs. small_pair x \<Longrightarrow> afe_clock < 5 * 2 ^ 31 \<Longrightarrow> min_deviation (dco_context afe_clock b) = 0 \<Longrightarrow>
     dco_context afe_clock (fold (dco_step afe_clock) xs b) = dco_context afe_clock b"
proof (induction xs arbitrary: b)
  case (Cons x xs)
  have "dco_context afe_clock (dco_step afe_clock x b) = dco_context afe_clock b"
    using try_divider_step [of x afe_clock b] try_divider_zero [OF Cons.prems(3)] Cons.prems by simp
  then show ?case
    using Cons by simp
qed simp

lemma skl_try_list_step:
  "\<forall>p\<in>set ps. small_pair (central, p) \<Longrightarrow> afe_clock < 5 * 2 ^ 31 \<Longrightarrow>
     skl_try_list afe_clock central ps (dco_context afe_clock b) = dco_context afe_clock (fold (dco_step afe_clock) (map (Pair central) ps) b)"
proof (induction ps arbitrary: b)
  case (Cons p ps)
  have "skl_wrpll_try_divider (dco_context afe_clock b) central (u64 (p * afe_clock)) p = dco_context afe_clock (dco_step afe_clock (central, p) b)"
    using try_divider_step [of "(central, p)" afe_clock b] Cons.prems by simp
  then show ?case
    using Cons dco_fold_stays [of "map (Pair central) ps" afe_clock "dco_step afe_clock (central, p) b"] by (simp add: Let_def)
qed simp

abbreviation dco_pairs :: "nat list \<Rightarrow> nat list \<Rightarrow> (nat \<times> nat) list" where
  "dco_pairs cs ps \<equiv> [(central, p). central \<leftarrow> cs, p \<leftarrow> ps]"

lemma skl_try_centrals_step:
  "\<forall>x\<in>set (dco_pairs cs ps). small_pair x \<Longrightarrow> afe_clock < 5 * 2 ^ 31 \<Longrightarrow>
     skl_try_centrals afe_clock ps cs (dco_context afe_clock b) = dco_context afe_clock (fold (dco_step afe_clock) (dco_pairs cs ps) b)"
proof (induction cs arbitrary: b)
  case (Cons central cs)
  let ?b = "fold (dco_step afe_clock) (map (Pair central) ps) b"
  have "skl_try_list afe_clock central ps (dco_context afe_clock b) = dco_context afe_clock ?b"
    using Cons.prems by (intro skl_try_list_step) auto
  moreover have "\<forall>x\<in>set (dco_pairs cs ps). small_pair x"
    using Cons.prems by auto
  ultimately show ?case
    using Cons.IH [of ?b] dco_fold_stays [of "dco_pairs cs ps" afe_clock ?b] Cons.prems(2) by (simp add: Let_def)
qed simp

lemma dco_fold_pick: "fold (dco_step afe_clock) xs b = pick (dco_better afe_clock) (filter (dco_allowed afe_clock) xs) b"
  by (induction xs arbitrary: b) (auto simp: dco_step_def pick_def)

text \<open>The pairs with an even divider, and those with an odd one.\<close>

definition even_pairs :: "(nat \<times> nat) list" where
  "even_pairs = dco_pairs dco_central_freq even_dividers"

definition odd_pairs :: "(nat \<times> nat) list" where
  "odd_pairs = dco_pairs dco_central_freq odd_dividers"

lemma small_pairs: "\<forall>x\<in>set even_pairs. small_pair x" "\<forall>x\<in>set odd_pairs. small_pair x"
  by (simp_all add: even_pairs_def odd_pairs_def dco_central_freq_def even_dividers_def odd_dividers_def small_pair_def)

lemma dividers_positive: "(central, p) \<in> set even_pairs \<union> set odd_pairs \<Longrightarrow> p \<in> set even_dividers \<union> set odd_dividers \<and> p \<noteq> 0"
  by (auto simp: even_pairs_def odd_pairs_def even_dividers_def odd_dividers_def)

definition best_pair :: "nat \<Rightarrow> (nat \<times> nat) option" where
  "best_pair afe_clock =
     (case pick (dco_better afe_clock) (filter (dco_allowed afe_clock) even_pairs) None of
        None \<Rightarrow> pick (dco_better afe_clock) (filter (dco_allowed afe_clock) odd_pairs) None
      | Some x \<Rightarrow> Some x)"

lemma pick_filter_in: "pick better (filter Q xs) None = Some x \<Longrightarrow> x \<in> set xs \<and> Q x"
proof -
  have "pick better ys b = Some x \<Longrightarrow> x \<in> set ys \<or> b = Some x" for ys b
    by (induction ys arbitrary: b) (auto simp: pick_def split: option.splits if_splits)
  from this [of "filter Q xs" None] show "pick better (filter Q xs) None = Some x \<Longrightarrow> x \<in> set xs \<and> Q x"
    by auto
qed

lemma skl_search_best: "afe_clock < 5 * 2 ^ 31 \<Longrightarrow> skl_search afe_clock = dco_context afe_clock (best_pair afe_clock)"
proof -
  assume a: "afe_clock < 5 * 2 ^ 31"
  let ?even = "pick (dco_better afe_clock) (filter (dco_allowed afe_clock) even_pairs) None"
  have 1: "skl_try_centrals afe_clock even_dividers dco_central_freq skl_wrpll_context_init = dco_context afe_clock ?even"
    using skl_try_centrals_step [OF small_pairs(1) [unfolded even_pairs_def] a, of None] by (simp add: dco_fold_pick even_pairs_def)
  have 2: "skl_try_centrals afe_clock odd_dividers dco_central_freq skl_wrpll_context_init
      = dco_context afe_clock (pick (dco_better afe_clock) (filter (dco_allowed afe_clock) odd_pairs) None)"
    using skl_try_centrals_step [OF small_pairs(2) [unfolded odd_pairs_def] a, of None] by (simp add: dco_fold_pick odd_pairs_def)
  show ?thesis
  proof (cases ?even)
    case None
    then show ?thesis
      by (simp add: skl_search_def 1 2 best_pair_def Let_def) (simp add: skl_wrpll_context_init_def)
  next
    case (Some x)
    then have "snd x \<noteq> 0"
      using pick_filter_in [OF Some] dividers_positive [of "fst x" "snd x"] by simp
    with Some show ?thesis
      by (cases x) (simp add: skl_search_def 1 best_pair_def Let_def)
  qed
qed

text \<open>The factors that the fields of the dividers stand for.\<close>

definition pdiv_factor :: "nat \<Rightarrow> nat" where
  "pdiv_factor v = (if v = 0 then 1 else if v = 1 then 2 else if v = 2 then 3 else if v = 4 then 7 else 0)"

definition kdiv_factor :: "nat \<Rightarrow> nat" where
  "kdiv_factor v = (if v = 0 then 5 else if v = 1 then 2 else if v = 2 then 3 else if v = 3 then 1 else 0)"

definition factors_ok :: "nat \<Rightarrow> bool" where
  "factors_ok p \<longleftrightarrow> (case skl_wrpll_get_multipliers p of (p0, p1, p2) \<Rightarrow>
     p0 * p1 * p2 = p \<and> p0 \<in> {2, 3, 5, 7} \<and> (p0 = 5 \<longleftrightarrow> p = 5) \<and> p2 \<in> {1, 2, 3, 5} \<and> 0 < p1)"

lemma factors: "p \<in> set even_dividers \<union> set odd_dividers \<Longrightarrow> factors_ok p"
proof -
  have "list_all factors_ok even_dividers" "list_all factors_ok odd_dividers"
    by code_simp+
  then show "p \<in> set even_dividers \<union> set odd_dividers \<Longrightarrow> factors_ok p"
    by (auto simp: list_all_iff)
qed

text \<open>The integer and the fraction are the quotient by the reference clock, cut off after 15 bits.\<close>

lemma dco_fields:
  assumes "dco < 2 ^ 34"
  defines "whole \<equiv> u32 (dco div (24000 * 1000))"
  defines "fraction \<equiv> u32 (u64 (u64 (dco div (24000 div 1000) + (2 ^ 64 - whole * 1000000)) * 0x8000) div 1000000)"
  shows "fraction < 2 ^ 15 \<and> whole < 2 ^ 10 \<and> (whole * 2 ^ 15 + fraction) * 24000000 \<le> dco * 2 ^ 15
    \<and> dco * 2 ^ 15 < (whole * 2 ^ 15 + fraction) * 24000000 + 757 * 2 ^ 15"
proof -
  obtain d x where x: "dco = 24 * x + d" "d < 24" "dco div 24 = x"
    using div_mod_decomp [of dco 24] by (metis mod_less_divisor mult.commute zero_less_numeral)
  obtain q r where q: "x = 1000000 * q + r" "r < 1000000"
    using div_mod_decomp [of x 1000000] by (metis mod_less_divisor mult.commute zero_less_numeral)
  obtain f s where f: "r * 32768 = 1000000 * f + s" "s < 1000000"
    using div_mod_decomp [of "r * 32768" 1000000] by (metis mod_less_divisor mult.commute zero_less_numeral)
  have small: "q < 1024" "f < 32768" "x < 2 ^ 32"
    using x q f assms(1) by simp_all
  have whole: "whole = q"
    using small(1) x q by (simp add: whole_def)
  have "x + (2 ^ 64 - q * 1000000) = r + 2 ^ 64"
    using q small(1) by simp
  then have "u64 (x + (2 ^ 64 - q * 1000000)) = r"
    using q(2) by (simp add: u64_def)
  then have "fraction = f"
    using f small(2) q(2) by (simp add: fraction_def whole x(3) u64_id)
  then show ?thesis
    using small x(1,2) q f by (simp add: whole)
qed

lemma best_pair_props:
  assumes "best_pair afe_clock = Some (central, p)"
  shows "dco_allowed afe_clock (central, p)" "(central, p) \<in> set (if even p then even_pairs else odd_pairs)"
    "\<forall>x\<in>set (if even p then even_pairs else odd_pairs). dco_allowed afe_clock x \<longrightarrow> dco_deviation afe_clock (central, p) \<le> dco_deviation afe_clock x"
    "odd p \<longrightarrow> (\<forall>x\<in>set even_pairs. \<not> dco_allowed afe_clock x)"
proof -
  have parity: "even (snd x)" if "x \<in> set even_pairs" for x
    using that by (auto simp: even_pairs_def even_dividers_def)
  have parity': "odd (snd x)" if "x \<in> set odd_pairs" for x
    using that by (auto simp: odd_pairs_def odd_dividers_def)
  have pick: "b \<in> set xs \<and> dco_allowed afe_clock b \<and> (\<forall>x\<in>set xs. dco_allowed afe_clock x \<longrightarrow> dco_deviation afe_clock b \<le> dco_deviation afe_clock x)"
    if "pick (dco_better afe_clock) (filter (dco_allowed afe_clock) xs) None = Some b" for xs b
  proof -
    let ?ys = "filter (dco_allowed afe_clock) xs"
    have "?ys \<noteq> []"
      using that by auto
    then obtain c where "pick (dco_better afe_clock) ?ys None = Some c" "\<forall>x\<in>set ?ys. dco_deviation afe_clock c \<le> dco_deviation afe_clock x"
      using dco_search.pick_best [of ?ys afe_clock] by blast
    with that pick_filter_in [OF that] show ?thesis
      by (auto simp del: split_paired_All)
  qed
  have none: "\<forall>x\<in>set xs. \<not> dco_allowed afe_clock x" if "pick (dco_better afe_clock) (filter (dco_allowed afe_clock) xs) None = None" for xs
    using dco_search.pick_best [of "filter (dco_allowed afe_clock) xs" afe_clock] that by (cases "filter (dco_allowed afe_clock) xs") (auto simp: filter_empty_conv)
  consider (even) "pick (dco_better afe_clock) (filter (dco_allowed afe_clock) even_pairs) None = Some (central, p)"
    | (odd) "pick (dco_better afe_clock) (filter (dco_allowed afe_clock) even_pairs) None = None"
        "pick (dco_better afe_clock) (filter (dco_allowed afe_clock) odd_pairs) None = Some (central, p)"
    using assms by (auto simp: best_pair_def split: option.splits)
  then have "dco_allowed afe_clock (central, p) \<and> (central, p) \<in> set (if even p then even_pairs else odd_pairs) \<and>
    (\<forall>x\<in>set (if even p then even_pairs else odd_pairs). dco_allowed afe_clock x \<longrightarrow> dco_deviation afe_clock (central, p) \<le> dco_deviation afe_clock x) \<and>
    (odd p \<longrightarrow> (\<forall>x\<in>set even_pairs. \<not> dco_allowed afe_clock x))"
  proof cases
    case even
    from pick [OF even] parity [of "(central, p)"] show ?thesis
      by simp
  next
    case odd
    from pick [OF odd(2)] parity' [of "(central, p)"] none [OF odd(1)] show ?thesis
      by simp
  qed
  then show "dco_allowed afe_clock (central, p)" "(central, p) \<in> set (if even p then even_pairs else odd_pairs)"
    "\<forall>x\<in>set (if even p then even_pairs else odd_pairs). dco_allowed afe_clock x \<longrightarrow> dco_deviation afe_clock (central, p) \<le> dco_deviation afe_clock x"
    "odd p \<longrightarrow> (\<forall>x\<in>set even_pairs. \<not> dco_allowed afe_clock x)"
    by blast+
qed

lemma allowed_dco:
  assumes "dco_allowed afe_clock (central, p)" "central \<in> set dco_central_freq"
  shows "p * afe_clock < 2 ^ 34"
proof (cases "central \<le> p * afe_clock")
  case True
  have c: "0 < central" "central \<le> 9600000000"
    using assms(2) by (auto simp: dco_central_freq_def)
  have "10000 * (p * afe_clock - central) < 100 * central"
    using assms(1) True c(1) by (simp add: dco_allowed_def dco_deviation_def AbsSubtr64_def SKL_DCO_MAX_PDEVIATION_def div_less_iff_less_mult)
  with c(2) show ?thesis
    by simp
next
  case False
  then show ?thesis
    using assms(2) by (auto simp: dco_central_freq_def)
qed




text \<open>A clock of 1600 by 1200 pixels, and parameters of a caller that have not been set.\<close>

definition unset_params :: skl_wrpll_params where
  "unset_params = \<lparr>dco_fraction = 0, dco_integer = 0, qdiv_ratio = 0, qdiv_mode = 0, kdiv = 0, pdiv = 99, central_freq_sel = 0\<rparr>"

lemmas best_pair_eval = best_pair_def even_pairs_def odd_pairs_def even_dividers_def odd_dividers_def dco_central_freq_def dco_allowed_def dco_deviation_def
  dco_better_def AbsSubtr64_def SKL_DCO_MAX_PDEVIATION_def SKL_DCO_MAX_NDEVIATION_def

lemma skl_example: "\<exists>r. skl_ddi_calculate_wrpll 162000000 24000 unset_params = (True, r)"
proof -
  have "best_pair 810000000 = Some (8400000000, 10)"
    by (simp add: best_pair_eval)
  then have "ctx_p (skl_search (u64 (162000000 * 5))) = 10"
    by (simp add: skl_search_best u64_id)
  then show ?thesis
    by (simp add: skl_ddi_calculate_wrpll_def Let_def case_prod_beta del: u32_id)
qed


text \<open>
  The divider 5 is not programmed. For a clock of 360 MHz the search succeeds with the divider 5, for whose first factor
  the parameters have no case: the field of this divider keeps whatever the structure of the caller held.
\<close>

theorem divider_five_unset: "\<exists>r. skl_ddi_calculate_wrpll 360000000 24000 params = (True, r) \<and> pdiv r = pdiv params \<and> skl_search (5 * 360000000) =
    \<lparr>min_deviation = 0, ctx_central_freq = 9000000000, ctx_dco_freq = 9000000000, ctx_p = 5\<rparr>"
proof -
  have "best_pair 1800000000 = Some (9000000000, 5)"
    by (simp add: best_pair_eval)
  then have s: "skl_search 1800000000 = \<lparr>min_deviation = 0, ctx_central_freq = 9000000000, ctx_dco_freq = 9000000000, ctx_p = 5\<rparr>"
    by (simp add: skl_search_best dco_deviation_def AbsSubtr64_def)
  have "skl_wrpll_get_multipliers 5 = (5, 1, 1)"
    by (simp add: skl_wrpll_get_multipliers_def)
  then have "skl_ddi_calculate_wrpll 360000000 24000 params = (True, skl_wrpll_params_populate params 1800000000 24000 9000000000 5 1 1)"
    by (simp add: skl_ddi_calculate_wrpll_def u64_id s)
  moreover have "pdiv (skl_wrpll_params_populate params afe ref central 5 p1 p2) = pdiv params" for afe ref central p1 p2
    by (simp only: skl_wrpll_params_populate_def Let_def skl_wrpll_params.select_convs) simp
  ultimately show ?thesis
    by (simp add: s)
qed

end
