(* ===== verification/TigerLake_Pll.thy ===== *)
theory TigerLake_Pll
  imports Pll_Wrpll I2c
begin

text \<open>
  The clock of Tiger Lake, \<open>src/intel_extreme/accelerant/TigerLakePLL.cpp\<close>: the divider for a symbol clock, its factors, and the sequence
  of register accesses that programs them. The floating point numbers of the search are integers small enough to be exact, so they are
  naturals here; the split of the frequency into an integer and a fraction is an argument.
\<close>

section \<open>Dividers of a symbol clock\<close>

definition dividerlist :: "nat list" where
  "dividerlist = [2, 4, 6, 8, 10, 12, 14, 16, 18, 20, 24, 28, 30, 32, 36, 40, 42, 44, 48, 50, 52, 54, 56, 60, 64, 66, 68, 70, 72, 76, 78, 80,
     84, 88, 90, 92, 96, 98, 100, 102, 3, 5, 7, 9, 15, 21]"

definition dcomin :: nat where "dcomin = 7998"
definition dcomax :: nat where "dcomax = 10000"
definition dcomid :: nat where "dcomid = 8999"

lemmas dco_limits = dcomin_def dcomax_def dcomid_def

definition dcocentrality :: "nat \<Rightarrow> nat" where
  "dcocentrality dco = AbsSubtr64 dco dcomid"

text \<open>The body of the loop: the best centrality, the divider and its frequency.\<close>

definition hdmi_try :: "nat \<Rightarrow> nat \<Rightarrow> nat \<times> nat \<times> nat \<Rightarrow> nat \<times> nat \<times> nat" where
  "hdmi_try afeclk divider best =
     (let dco = afeclk * divider
      in if dco \<le> dcomax \<and> dcomin \<le> dco \<and> dcocentrality dco < fst best then (dcocentrality dco, divider, dco) else best)"

text \<open>The factors \<open>P\<close>, \<open>Q\<close> and \<open>K\<close>, when there is a case for the divider.\<close>

definition hdmi_factors :: "nat \<Rightarrow> (nat \<times> nat \<times> nat) option" where
  "hdmi_factors bestdiv =
     (if bestdiv mod 2 = 0 then
        (if bestdiv = 2 then Some (2, 1, 1)
         else if bestdiv mod 4 = 0 then Some (2, bestdiv div 4, 2)
         else if bestdiv mod 6 = 0 then Some (3, bestdiv div 6, 2)
         else if bestdiv mod 5 = 0 then Some (5, bestdiv div 10, 2)
         else if bestdiv mod 14 = 0 then Some (7, bestdiv div 14, 2)
         else None)
      else if bestdiv = 3 \<or> bestdiv = 5 \<or> bestdiv = 7 then Some (bestdiv, 1, 1)
      else Some (bestdiv div 3, 1, 3))"

text \<open>The result of success: the factors, if they are set, and the frequency.\<close>

definition ComputeHdmiDpll :: "nat \<Rightarrow> ((nat \<times> nat \<times> nat) option \<times> nat) option" where
  "ComputeHdmiDpll freq =
     (let afeclk = 5 * freq div 1000;
          (_, bestdiv, bestdco) = fold (hdmi_try afeclk) dividerlist (999999, 0, 0)
      in if bestdiv \<noteq> 0 then Some (hdmi_factors bestdiv, bestdco) else None)"

definition ComputeDisplayPortDpll :: "nat \<Rightarrow> ((nat \<times> nat \<times> nat) option \<times> nat) option" where
  "ComputeDisplayPortDpll freq = Some (Some (3, 1, 2), 8090)"

definition dco_in_range :: "nat \<Rightarrow> bool" where
  "dco_in_range dco \<longleftrightarrow> dcomin \<le> dco \<and> dco \<le> dcomax"

definition hdmi_better :: "nat \<Rightarrow> nat \<Rightarrow> nat \<Rightarrow> bool" where
  "hdmi_better afeclk d e \<longleftrightarrow> dcocentrality (afeclk * d) < dcocentrality (afeclk * e)"

interpretation hdmi_search: best_search "hdmi_better afeclk" "\<lambda>d. dcocentrality (afeclk * d)" "\<lambda>_. True" for afeclk
  by unfold_locales (simp add: hdmi_better_def)

fun hdmi_state :: "nat \<Rightarrow> nat option \<Rightarrow> nat \<times> nat \<times> nat" where
  "hdmi_state afeclk None = (999999, 0, 0)"
| "hdmi_state afeclk (Some d) = (dcocentrality (afeclk * d), d, afeclk * d)"

lemma hdmi_fold: "fold (hdmi_try afeclk) ds (hdmi_state afeclk b)
    = hdmi_state afeclk (pick (hdmi_better afeclk) (filter (\<lambda>d. dco_in_range (afeclk * d)) ds) b)"
proof (induction ds arbitrary: b)
  case (Cons d ds)
  have "hdmi_try afeclk d (hdmi_state afeclk b)
      = hdmi_state afeclk (if dco_in_range (afeclk * d) then pick (hdmi_better afeclk) [d] b else b)"
    by (cases b) (auto simp: hdmi_try_def Let_def dco_in_range_def hdmi_better_def dco_limits dcocentrality_def AbsSubtr64_def)
  then show ?case
    using Cons by (auto simp: pick_def)
qed simp

definition hdmi_factors_ok :: "nat \<Rightarrow> bool" where
  "hdmi_factors_ok d \<longleftrightarrow> (case hdmi_factors d of None \<Rightarrow> False
     | Some (P, Q, K) \<Rightarrow> P * Q * K = d \<and> P \<in> {2, 3, 5, 7} \<and> K \<in> {1, 2, 3} \<and> (K = 2 \<or> Q = 1) \<and> 0 < Q \<and> Q \<le> 255)"

lemma hdmi_all_factors: "d \<in> set dividerlist \<Longrightarrow> hdmi_factors_ok d"
proof -
  have "list_all hdmi_factors_ok dividerlist"
    by code_simp
  then show "d \<in> set dividerlist \<Longrightarrow> hdmi_factors_ok d"
    by (auto simp: list_all_iff)
qed


end
