(* ===== verification/Hda_Codec.thy ===== *)
theory Hda_Codec
  imports Vaio_Prelude
begin

text \<open>
  The codecs of the HDA audio driver, \<open>src/hda/hda_codec.cpp\<close> with the constants of \<open>hda_codec_defs.h\<close> and the structures of
  \<open>driver.h\<close>: the verbs, the quirks, what is read of a widget (streams, amplifiers, connections, pins), the associations of the pins,
  and the parsing of an audio function group. A link to the codec takes a list of verbs and gives a status with the responses; it is
  an argument here, the one of the controller is in \<open>Hda_Controller\<close>. The formats and rates of a stream, flags of a
  system header, are sets. The union \<open>d\<close> of a widget is two pairs of fields, of which the type of the widget selects one.
\<close>

section \<open>Constants of the codec\<close>

definition VID_GET_PARAMETER :: "32 word" where "VID_GET_PARAMETER = 0xf0000"
definition VID_GET_CONNECTION_SELECT :: "32 word" where "VID_GET_CONNECTION_SELECT = 0xf0100"
definition VID_SET_CONNECTION_SELECT :: "32 word" where "VID_SET_CONNECTION_SELECT = 0x70100"
definition VID_GET_CONNECTION_LIST_ENTRY :: "32 word" where "VID_GET_CONNECTION_LIST_ENTRY = 0xf0200"
definition VID_SET_COEFFICIENT_INDEX :: "32 word" where "VID_SET_COEFFICIENT_INDEX = 0x50000"
definition VID_GET_PROCESSING_COEFFICIENT :: "32 word" where "VID_GET_PROCESSING_COEFFICIENT = 0xc0000"
definition VID_SET_PROCESSING_COEFFICIENT :: "32 word" where "VID_SET_PROCESSING_COEFFICIENT = 0x40000"
definition VID_SET_AMPLIFIER_GAIN_MUTE :: "32 word" where "VID_SET_AMPLIFIER_GAIN_MUTE = 0x30000"
definition VID_SET_CONVERTER_FORMAT :: "32 word" where "VID_SET_CONVERTER_FORMAT = 0x20000"
definition VID_SET_CONVERTER_STREAM_CHANNEL :: "32 word" where "VID_SET_CONVERTER_STREAM_CHANNEL = 0x70600"
definition VID_SET_DIGITAL_CONVERTER_CONTROL1 :: "32 word" where "VID_SET_DIGITAL_CONVERTER_CONTROL1 = 0x70d00"
definition VID_SET_POWER_STATE :: "32 word" where "VID_SET_POWER_STATE = 0x70500"
definition VID_SET_PIN_WIDGET_CONTROL :: "32 word" where "VID_SET_PIN_WIDGET_CONTROL = 0x70700"
definition VID_SET_UNSOLRESP :: "32 word" where "VID_SET_UNSOLRESP = 0x70800"
definition VID_GET_PINSENSE :: "32 word" where "VID_GET_PINSENSE = 0xf0900"
definition VID_GET_EAPDBTL_EN :: "32 word" where "VID_GET_EAPDBTL_EN = 0xf0c00"
definition VID_SET_EAPDBTL_EN :: "32 word" where "VID_SET_EAPDBTL_EN = 0x70c00"
definition VID_SET_VOLUME_KNOB_CONTROL :: "32 word" where "VID_SET_VOLUME_KNOB_CONTROL = 0x70f00"
definition VID_SET_GPIO_DATA :: "32 word" where "VID_SET_GPIO_DATA = 0x71500"
definition VID_SET_GPIO_EN :: "32 word" where "VID_SET_GPIO_EN = 0x71600"
definition VID_SET_GPIO_DIR :: "32 word" where "VID_SET_GPIO_DIR = 0x71700"
definition VID_GET_SUBSYSTEMID :: "32 word" where "VID_GET_SUBSYSTEMID = 0xf2000"
definition VID_GET_CONFIGURATION_DEFAULT :: "32 word" where "VID_GET_CONFIGURATION_DEFAULT = 0xf1c00"
definition PID_VENDOR_ID :: "32 word" where "PID_VENDOR_ID = 0x00"
definition PID_SUBSYSTEM_ID :: "32 word" where "PID_SUBSYSTEM_ID = 0x01"
definition PID_REVISION_ID :: "32 word" where "PID_REVISION_ID = 0x02"
definition PID_SUB_NODE_COUNT :: "32 word" where "PID_SUB_NODE_COUNT = 0x04"
definition PID_FUNCTION_GROUP_TYPE :: "32 word" where "PID_FUNCTION_GROUP_TYPE = 0x05"
definition PID_AUDIO_GROUP_CAP :: "32 word" where "PID_AUDIO_GROUP_CAP = 0x08"
definition PID_AUDIO_WIDGET_CAP :: "32 word" where "PID_AUDIO_WIDGET_CAP = 0x09"
definition PID_PCM_SUPPORT :: "32 word" where "PID_PCM_SUPPORT = 0x0a"
definition PID_STREAM_SUPPORT :: "32 word" where "PID_STREAM_SUPPORT = 0x0b"
definition PID_PIN_CAP :: "32 word" where "PID_PIN_CAP = 0x0c"
definition PID_INPUT_AMPLIFIER_CAP :: "32 word" where "PID_INPUT_AMPLIFIER_CAP = 0x0d"
definition PID_CONNECTION_LIST_LENGTH :: "32 word" where "PID_CONNECTION_LIST_LENGTH = 0x0e"
definition PID_POWERSTATE_SUPPORT :: "32 word" where "PID_POWERSTATE_SUPPORT = 0x0f"
definition PID_GPIO_COUNT :: "32 word" where "PID_GPIO_COUNT = 0x11"
definition PID_OUTPUT_AMPLIFIER_CAP :: "32 word" where "PID_OUTPUT_AMPLIFIER_CAP = 0x12"
definition AUDIO_CAP_TYPE_MASK :: "32 word" where "AUDIO_CAP_TYPE_MASK = 0x00f00000"
definition AUDIO_CAP_STEREO :: "32 word" where "AUDIO_CAP_STEREO = 0x1"
definition AUDIO_CAP_INPUT_AMPLIFIER :: "32 word" where "AUDIO_CAP_INPUT_AMPLIFIER = 0x2"
definition AUDIO_CAP_OUTPUT_AMPLIFIER :: "32 word" where "AUDIO_CAP_OUTPUT_AMPLIFIER = 0x4"
definition AUDIO_CAP_AMPLIFIER_OVERRIDE :: "32 word" where "AUDIO_CAP_AMPLIFIER_OVERRIDE = 0x8"
definition AUDIO_CAP_FORMAT_OVERRIDE :: "32 word" where "AUDIO_CAP_FORMAT_OVERRIDE = 0x10"
definition AUDIO_CAP_UNSOLICITED_RESPONSES :: "32 word" where "AUDIO_CAP_UNSOLICITED_RESPONSES = 0x80"
definition AUDIO_CAP_DIGITAL :: "32 word" where "AUDIO_CAP_DIGITAL = 0x200"
definition AUDIO_CAP_POWER_CONTROL :: "32 word" where "AUDIO_CAP_POWER_CONTROL = 0x400"
definition AMP_CAP_OFFSET_MASK :: "32 word" where "AMP_CAP_OFFSET_MASK = 0x0000007f"
definition PIN_CAP_PRES_DETECT :: "32 word" where "PIN_CAP_PRES_DETECT = 0x4"
definition PIN_CAP_OUTPUT :: "32 word" where "PIN_CAP_OUTPUT = 0x10"
definition PIN_CAP_INPUT :: "32 word" where "PIN_CAP_INPUT = 0x20"
definition PIN_CAP_VREF_CTRL_50 :: "32 word" where "PIN_CAP_VREF_CTRL_50 = 0x200"
definition PIN_CAP_VREF_CTRL_80 :: "32 word" where "PIN_CAP_VREF_CTRL_80 = 0x1000"
definition PIN_CAP_VREF_CTRL_100 :: "32 word" where "PIN_CAP_VREF_CTRL_100 = 0x2000"
definition PIN_CAP_EAPD_CAP :: "32 word" where "PIN_CAP_EAPD_CAP = 0x10000"
definition PCM_8_BIT :: "32 word" where "PCM_8_BIT = 0x10000"
definition PCM_16_BIT :: "32 word" where "PCM_16_BIT = 0x20000"
definition PCM_20_BIT :: "32 word" where "PCM_20_BIT = 0x40000"
definition PCM_24_BIT :: "32 word" where "PCM_24_BIT = 0x80000"
definition PCM_32_BIT :: "32 word" where "PCM_32_BIT = 0x100000"
definition STREAM_AC3 :: "32 word" where "STREAM_AC3 = 0x00000004"
definition STREAM_FLOAT :: "32 word" where "STREAM_FLOAT = 0x00000002"
definition STREAM_PCM :: "32 word" where "STREAM_PCM = 0x00000001"
definition AMP_SET_OUTPUT :: "32 word" where "AMP_SET_OUTPUT = 0x8000"
definition AMP_SET_INPUT :: "32 word" where "AMP_SET_INPUT = 0x4000"
definition AMP_SET_LEFT_CHANNEL :: "32 word" where "AMP_SET_LEFT_CHANNEL = 0x2000"
definition AMP_SET_RIGHT_CHANNEL :: "32 word" where "AMP_SET_RIGHT_CHANNEL = 0x1000"
definition AMP_SET_INPUT_INDEX_MASK :: "32 word" where "AMP_SET_INPUT_INDEX_MASK = 0x00000f00"
definition AMP_MUTE :: "32 word" where "AMP_MUTE = 0x80"
definition PIN_ENABLE_HEAD_PHONE :: "32 word" where "PIN_ENABLE_HEAD_PHONE = 0x80"
definition PIN_ENABLE_OUTPUT :: "32 word" where "PIN_ENABLE_OUTPUT = 0x40"
definition PIN_ENABLE_INPUT :: "32 word" where "PIN_ENABLE_INPUT = 0x20"
definition PIN_ENABLE_VREF_50 :: "32 word" where "PIN_ENABLE_VREF_50 = 1"
definition PIN_ENABLE_VREF_GROUND :: "32 word" where "PIN_ENABLE_VREF_GROUND = 2"
definition PIN_ENABLE_VREF_80 :: "32 word" where "PIN_ENABLE_VREF_80 = 4"
definition PIN_ENABLE_VREF_100 :: "32 word" where "PIN_ENABLE_VREF_100 = 5"
definition UNSOLRESP_ENABLE :: "32 word" where "UNSOLRESP_ENABLE = 0x80"
definition PIN_SENSE_PRESENCE_DETECT :: "32 word" where "PIN_SENSE_PRESENCE_DETECT = 0x80000000"
definition EAPDBTL_ENABLE_EAPD :: "32 word" where "EAPDBTL_ENABLE_EAPD = 0x2"

lemmas hda_consts =
  VID_GET_PARAMETER_def VID_GET_CONNECTION_SELECT_def VID_SET_CONNECTION_SELECT_def VID_GET_CONNECTION_LIST_ENTRY_def
  VID_SET_COEFFICIENT_INDEX_def VID_GET_PROCESSING_COEFFICIENT_def VID_SET_PROCESSING_COEFFICIENT_def VID_SET_AMPLIFIER_GAIN_MUTE_def
  VID_SET_CONVERTER_FORMAT_def VID_SET_CONVERTER_STREAM_CHANNEL_def VID_SET_DIGITAL_CONVERTER_CONTROL1_def VID_SET_POWER_STATE_def
  VID_SET_PIN_WIDGET_CONTROL_def VID_SET_UNSOLRESP_def VID_GET_PINSENSE_def VID_GET_EAPDBTL_EN_def
  VID_SET_EAPDBTL_EN_def VID_SET_VOLUME_KNOB_CONTROL_def VID_SET_GPIO_DATA_def VID_SET_GPIO_EN_def
  VID_SET_GPIO_DIR_def VID_GET_SUBSYSTEMID_def VID_GET_CONFIGURATION_DEFAULT_def PID_VENDOR_ID_def
  PID_SUBSYSTEM_ID_def PID_REVISION_ID_def PID_SUB_NODE_COUNT_def PID_FUNCTION_GROUP_TYPE_def
  PID_AUDIO_GROUP_CAP_def PID_AUDIO_WIDGET_CAP_def PID_PCM_SUPPORT_def PID_STREAM_SUPPORT_def
  PID_PIN_CAP_def PID_INPUT_AMPLIFIER_CAP_def PID_CONNECTION_LIST_LENGTH_def PID_POWERSTATE_SUPPORT_def
  PID_GPIO_COUNT_def PID_OUTPUT_AMPLIFIER_CAP_def AUDIO_CAP_TYPE_MASK_def AUDIO_CAP_STEREO_def
  AUDIO_CAP_INPUT_AMPLIFIER_def AUDIO_CAP_OUTPUT_AMPLIFIER_def AUDIO_CAP_AMPLIFIER_OVERRIDE_def AUDIO_CAP_FORMAT_OVERRIDE_def
  AUDIO_CAP_UNSOLICITED_RESPONSES_def AUDIO_CAP_DIGITAL_def AUDIO_CAP_POWER_CONTROL_def AMP_CAP_OFFSET_MASK_def
  PIN_CAP_PRES_DETECT_def PIN_CAP_OUTPUT_def PIN_CAP_INPUT_def PIN_CAP_VREF_CTRL_50_def
  PIN_CAP_VREF_CTRL_80_def PIN_CAP_VREF_CTRL_100_def PIN_CAP_EAPD_CAP_def PCM_8_BIT_def
  PCM_16_BIT_def PCM_20_BIT_def PCM_24_BIT_def PCM_32_BIT_def
  STREAM_AC3_def STREAM_FLOAT_def STREAM_PCM_def AMP_SET_OUTPUT_def
  AMP_SET_INPUT_def AMP_SET_LEFT_CHANNEL_def AMP_SET_RIGHT_CHANNEL_def AMP_SET_INPUT_INDEX_MASK_def
  AMP_MUTE_def PIN_ENABLE_HEAD_PHONE_def PIN_ENABLE_OUTPUT_def PIN_ENABLE_INPUT_def
  PIN_ENABLE_VREF_50_def PIN_ENABLE_VREF_GROUND_def PIN_ENABLE_VREF_80_def PIN_ENABLE_VREF_100_def
  UNSOLRESP_ENABLE_def PIN_SENSE_PRESENCE_DETECT_def EAPDBTL_ENABLE_EAPD_def

definition MAKE_VERB :: "nat \<Rightarrow> nat \<Rightarrow> 32 word \<Rightarrow> 32 word \<Rightarrow> 32 word" where
  "MAKE_VERB cad nid vid payload = push_bit 28 (of_nat cad) OR push_bit 20 (of_nat nid) OR vid OR payload"

definition SUB_NODE_COUNT_TOTAL :: "32 word \<Rightarrow> nat" where "SUB_NODE_COUNT_TOTAL c = unat (c AND 0xff)"
definition SUB_NODE_COUNT_START :: "32 word \<Rightarrow> nat" where "SUB_NODE_COUNT_START c = unat (drop_bit 16 (c AND 0xff0000))"
definition AMP_CAP_OFFSET :: "32 word \<Rightarrow> 32 word" where "AMP_CAP_OFFSET c = c AND AMP_CAP_OFFSET_MASK"
definition AMP_SET_INPUT_INDEX :: "nat \<Rightarrow> 32 word" where "AMP_SET_INPUT_INDEX x = push_bit 8 (of_nat x) AND AMP_SET_INPUT_INDEX_MASK"
definition CONF_DEFAULT_SEQUENCE :: "32 word \<Rightarrow> nat" where "CONF_DEFAULT_SEQUENCE c = unat (c AND 0xf)"
definition CONF_DEFAULT_ASSOCIATION :: "32 word \<Rightarrow> nat" where "CONF_DEFAULT_ASSOCIATION c = unat (drop_bit 4 (c AND 0xf0))"
definition CONF_DEFAULT_MISC :: "32 word \<Rightarrow> 32 word" where "CONF_DEFAULT_MISC c = drop_bit 8 (c AND 0xf00)"
definition CONF_DEFAULT_DEVICE :: "32 word \<Rightarrow> nat" where "CONF_DEFAULT_DEVICE c = unat (drop_bit 20 (c AND 0xf00000))"
definition CONF_DEFAULT_CONNECTIVITY :: "32 word \<Rightarrow> nat" where "CONF_DEFAULT_CONNECTIVITY c = unat (drop_bit 30 (c AND 0xc0000000))"
definition GPIO_COUNT_NUM_GPIO :: "32 word \<Rightarrow> nat" where "GPIO_COUNT_NUM_GPIO c = unat (c AND 0xff)"
definition PIN_CAP_IS_OUTPUT :: "32 word \<Rightarrow> bool" where "PIN_CAP_IS_OUTPUT c \<longleftrightarrow> c AND PIN_CAP_OUTPUT \<noteq> 0"
definition PIN_CAP_IS_INPUT :: "32 word \<Rightarrow> bool" where "PIN_CAP_IS_INPUT c \<longleftrightarrow> c AND PIN_CAP_INPUT \<noteq> 0"
definition PIN_CAP_IS_VREF_CTRL_50_CAP :: "32 word \<Rightarrow> bool" where "PIN_CAP_IS_VREF_CTRL_50_CAP c \<longleftrightarrow> c AND PIN_CAP_VREF_CTRL_50 \<noteq> 0"
definition PIN_CAP_IS_VREF_CTRL_80_CAP :: "32 word \<Rightarrow> bool" where "PIN_CAP_IS_VREF_CTRL_80_CAP c \<longleftrightarrow> c AND PIN_CAP_VREF_CTRL_80 \<noteq> 0"
definition PIN_CAP_IS_VREF_CTRL_100_CAP :: "32 word \<Rightarrow> bool" where "PIN_CAP_IS_VREF_CTRL_100_CAP c \<longleftrightarrow> c AND PIN_CAP_VREF_CTRL_100 \<noteq> 0"
definition PIN_CAP_IS_EAPD_CAP :: "32 word \<Rightarrow> bool" where "PIN_CAP_IS_EAPD_CAP c \<longleftrightarrow> c AND PIN_CAP_EAPD_CAP \<noteq> 0"

text \<open>The default device of a pin, a number of four bits.\<close>

definition PIN_DEV_LINE_OUT :: nat where "PIN_DEV_LINE_OUT = 0"
definition PIN_DEV_SPEAKER :: nat where "PIN_DEV_SPEAKER = 1"
definition PIN_DEV_HEAD_PHONE_OUT :: nat where "PIN_DEV_HEAD_PHONE_OUT = 2"
definition PIN_DEV_CD :: nat where "PIN_DEV_CD = 3"
definition PIN_DEV_DIGITAL_OTHER_OUT :: nat where "PIN_DEV_DIGITAL_OTHER_OUT = 5"
definition PIN_DEV_LINE_IN :: nat where "PIN_DEV_LINE_IN = 8"
definition PIN_DEV_AUX :: nat where "PIN_DEV_AUX = 9"
definition PIN_DEV_MIC_IN :: nat where "PIN_DEV_MIC_IN = 10"

lemmas pin_dev_defs = PIN_DEV_LINE_OUT_def PIN_DEV_SPEAKER_def PIN_DEV_HEAD_PHONE_OUT_def PIN_DEV_CD_def PIN_DEV_DIGITAL_OTHER_OUT_def
  PIN_DEV_LINE_IN_def PIN_DEV_AUX_def PIN_DEV_MIC_IN_def

datatype hda_widget_type = WT_AUDIO_OUTPUT | WT_AUDIO_INPUT | WT_AUDIO_MIXER | WT_AUDIO_SELECTOR | WT_PIN_COMPLEX | WT_POWER
  | WT_VOLUME_KNOB | WT_BEEP_GENERATOR | WT_VENDOR_DEFINED | WT_UNNAMED nat

text \<open>The conversion of the four bits to the enumeration.\<close>

definition widget_type_of :: "nat \<Rightarrow> hda_widget_type" where
  "widget_type_of n = (case find (\<lambda>p. fst p = n) [(0, WT_AUDIO_OUTPUT), (1, WT_AUDIO_INPUT), (2, WT_AUDIO_MIXER), (3, WT_AUDIO_SELECTOR),
       (4, WT_PIN_COMPLEX), (5, WT_POWER), (6, WT_VOLUME_KNOB), (7, WT_BEEP_GENERATOR), (15, WT_VENDOR_DEFINED)] of
     Some (_, t) \<Rightarrow> t | None \<Rightarrow> WT_UNNAMED n)"

section \<open>Structures\<close>

datatype stream_rate = B_SR_8000 | B_SR_11025 | B_SR_16000 | B_SR_22050 | B_SR_32000 | B_SR_44100 | B_SR_48000 | B_SR_88200
  | B_SR_96000 | B_SR_176400 | B_SR_192000 | B_SR_384000

datatype stream_format = B_FMT_8BIT_S | B_FMT_16BIT | B_FMT_20BIT | B_FMT_24BIT | B_FMT_32BIT | B_FMT_FLOAT | B_FMT_BITSTREAM

definition MAX_INPUTS :: nat where "MAX_INPUTS = 32"
definition MAX_IO_WIDGETS :: nat where "MAX_IO_WIDGETS = 8"
definition MAX_ASSOCIATIONS :: nat where "MAX_ASSOCIATIONS = 32"
definition MAX_ASSOCIATION_PINS :: nat where "MAX_ASSOCIATION_PINS = 16"
definition WIDGET_FLAG_OUTPUT_PATH :: "32 word" where "WIDGET_FLAG_OUTPUT_PATH = 0x01"
definition WIDGET_FLAG_INPUT_PATH :: "32 word" where "WIDGET_FLAG_INPUT_PATH = 0x02"

record hda_widget =
  node_id :: nat
  num_inputs :: nat
  active_input :: int
  inputs :: "nat list"
  flags :: "32 word"
  widget_type :: hda_widget_type
  pm :: "32 word"
  cap_audio :: "32 word"
  cap_output_amplifier :: "32 word"
  cap_input_amplifier :: "32 word"
  io_formats :: "stream_format set"
  io_rates :: "stream_rate set"
  pin_capabilities :: "32 word"
  pin_config :: "32 word"

record hda_association =
  assoc_index :: nat
  enabled :: bool
  pin_count :: nat
  pins :: "nat list"

record hda_audio_group =
  group_widget :: hda_widget
  widget_start :: nat
  widget_count :: nat
  association_count :: nat
  gpio :: "32 word"
  widgets :: "hda_widget list"
  associations :: "hda_association list"

record hda_codec =
  vendor_id :: nat
  product_id :: nat
  subsystem_id :: nat
  major :: nat
  minor :: nat
  revision :: nat
  stepping :: nat
  addr :: nat
  quirks :: "32 word"

text \<open>What \<open>calloc\<close> gives.\<close>

definition zero_widget :: hda_widget where
  "zero_widget = \<lparr>node_id = 0, num_inputs = 0, active_input = 0, inputs = replicate MAX_INPUTS 0, flags = 0, widget_type = WT_AUDIO_OUTPUT, pm = 0,
     cap_audio = 0, cap_output_amplifier = 0, cap_input_amplifier = 0, io_formats = {}, io_rates = {}, pin_capabilities = 0, pin_config = 0\<rparr>"

definition zero_association :: hda_association where
  "zero_association = \<lparr>assoc_index = 0, enabled = False, pin_count = 0, pins = replicate MAX_ASSOCIATION_PINS 0\<rparr>"

definition zero_group :: hda_audio_group where
  "zero_group = \<lparr>group_widget = zero_widget, widget_start = 0, widget_count = 0, association_count = 0, gpio = 0, widgets = [],
     associations = replicate MAX_ASSOCIATIONS zero_association\<rparr>"

section \<open>Quirks\<close>

definition HDA_ALL :: nat where "HDA_ALL = 0xffffffff"
definition HDA_QUIRK_GPIO_COUNT :: nat where "HDA_QUIRK_GPIO_COUNT = 8"
definition HDA_QUIRK_GPIO0 :: "32 word" where "HDA_QUIRK_GPIO0 = push_bit 0 1"
definition HDA_QUIRK_GPIO1 :: "32 word" where "HDA_QUIRK_GPIO1 = push_bit 1 1"
definition HDA_QUIRK_GPIO3 :: "32 word" where "HDA_QUIRK_GPIO3 = push_bit 3 1"
definition HDA_QUIRK_IVREF50 :: "32 word" where "HDA_QUIRK_IVREF50 = push_bit 8 1"
definition HDA_QUIRK_IVREF80 :: "32 word" where "HDA_QUIRK_IVREF80 = push_bit 9 1"
definition HDA_QUIRK_IVREF100 :: "32 word" where "HDA_QUIRK_IVREF100 = push_bit 10 1"
definition HDA_QUIRK_OVREF50 :: "32 word" where "HDA_QUIRK_OVREF50 = push_bit 11 1"
definition HDA_QUIRK_OVREF80 :: "32 word" where "HDA_QUIRK_OVREF80 = push_bit 12 1"
definition HDA_QUIRK_OVREF100 :: "32 word" where "HDA_QUIRK_OVREF100 = push_bit 13 1"
definition HDA_QUIRK_IVREF :: "32 word" where "HDA_QUIRK_IVREF = HDA_QUIRK_IVREF50 OR HDA_QUIRK_IVREF80 OR HDA_QUIRK_IVREF100"
definition HDA_QUIRK_SONY_VAIO :: "32 word" where "HDA_QUIRK_SONY_VAIO = push_bit 14 1"

definition SONY_VENDORID :: nat where "SONY_VENDORID = 0x104d"
definition CIRRUSLOGIC_VENDORID :: nat where "CIRRUSLOGIC_VENDORID = 0x1013"
definition IDT_VENDORID :: nat where "IDT_VENDORID = 0x111d"
definition REALTEK_VENDORID :: nat where "REALTEK_VENDORID = 0x10ec"
definition SIGMATEL_VENDORID :: nat where "SIGMATEL_VENDORID = 0x8384"

lemmas quirk_defs = HDA_ALL_def HDA_QUIRK_GPIO0_def HDA_QUIRK_GPIO1_def HDA_QUIRK_GPIO3_def HDA_QUIRK_IVREF50_def HDA_QUIRK_IVREF80_def
  HDA_QUIRK_IVREF100_def HDA_QUIRK_OVREF50_def HDA_QUIRK_OVREF80_def HDA_QUIRK_OVREF100_def HDA_QUIRK_IVREF_def HDA_QUIRK_SONY_VAIO_def
  SONY_VENDORID_def CIRRUSLOGIC_VENDORID_def IDT_VENDORID_def REALTEK_VENDORID_def SIGMATEL_VENDORID_def

text \<open>Subsystem vendor and device, codec vendor and device, quirks and quirks that do not apply.\<close>

definition kCodecQuirks :: "(nat \<times> nat \<times> nat \<times> nat \<times> 32 word \<times> 32 word) list" where
  "kCodecQuirks =
    [(HDA_ALL, HDA_ALL, HDA_ALL, HDA_ALL, HDA_QUIRK_IVREF, 0),
     (HDA_ALL, HDA_ALL, HDA_ALL, HDA_ALL, HDA_QUIRK_IVREF, 0),
     (0x10de, 0x0d94, CIRRUSLOGIC_VENDORID, HDA_ALL, HDA_QUIRK_GPIO1 OR HDA_QUIRK_GPIO3, 0),
     (0x10de, 0xcb79, CIRRUSLOGIC_VENDORID, 0x4206, HDA_QUIRK_GPIO1 OR HDA_QUIRK_GPIO3, 0),
     (0x10de, 0xcb89, CIRRUSLOGIC_VENDORID, 0x4206, HDA_QUIRK_GPIO1 OR HDA_QUIRK_GPIO3, 0),
     (0x8384, 0x7680, SIGMATEL_VENDORID, 0x7680, HDA_QUIRK_GPIO0 OR HDA_QUIRK_GPIO1, 0),
     (0x106b, 0x00a0, REALTEK_VENDORID, 0x0885, HDA_QUIRK_GPIO0 OR HDA_QUIRK_OVREF80, 0),
     (0x106b, 0x00a1, REALTEK_VENDORID, 0x0885, HDA_QUIRK_GPIO0 OR HDA_QUIRK_OVREF50, 0),
     (0x106b, 0x00a3, REALTEK_VENDORID, 0x0885, HDA_QUIRK_GPIO0, 0),
     (0x106b, 0x7200, CIRRUSLOGIC_VENDORID, 0x4208, HDA_QUIRK_GPIO0, 0),
     (HDA_ALL, HDA_ALL, IDT_VENDORID, 0x76b2, HDA_QUIRK_GPIO0, 0),
     (SONY_VENDORID, HDA_ALL, REALTEK_VENDORID, 0x0269, HDA_QUIRK_SONY_VAIO, HDA_QUIRK_IVREF)]"

definition quirk_matches :: "nat \<Rightarrow> nat \<Rightarrow> bool" where
  "quirk_matches entry value \<longleftrightarrow> entry = HDA_ALL \<or> entry = value"

definition quirk_step :: "hda_codec \<Rightarrow> nat \<times> nat \<times> nat \<times> nat \<times> 32 word \<times> 32 word \<Rightarrow> 32 word \<Rightarrow> 32 word" where
  "quirk_step codec e q = (case e of (sub_vendor, sub, vendor, product, on, off) \<Rightarrow>
     if quirk_matches sub (subsystem_id codec mod 2 ^ 16) \<and> quirk_matches sub_vendor (subsystem_id codec div 2 ^ 16)
       \<and> quirk_matches vendor (vendor_id codec) \<and> quirk_matches product (product_id codec)
     then (q OR on) AND NOT off else q)"

definition hda_codec_get_quirks :: "hda_codec \<Rightarrow> hda_codec" where
  "hda_codec_get_quirks codec = codec\<lparr>quirks := fold (quirk_step codec) kCodecQuirks 0\<rparr>"

section \<open>Verbs\<close>

type_synonym 'h link = "32 word list \<Rightarrow> 'h \<Rightarrow> (status_t \<times> 32 word list) \<times> 'h"

text \<open>One verb with its response, and verbs whose status and responses are ignored.\<close>

definition ask :: "'h link \<Rightarrow> 32 word \<Rightarrow> 'h \<Rightarrow> 32 word option \<times> 'h" where
  "ask send v h = (case send [v] h of ((st, rs), h) \<Rightarrow> (if st = B_OK then Some (hd rs) else None, h))"

definition tell :: "'h link \<Rightarrow> 32 word list \<Rightarrow> 'h \<Rightarrow> 'h" where
  "tell send vs h = snd (send vs h)"

definition hda_verb_write :: "'h link \<Rightarrow> hda_codec \<Rightarrow> nat \<Rightarrow> 32 word \<Rightarrow> 16 word \<Rightarrow> 'h \<Rightarrow> 'h" where
  "hda_verb_write send codec nid vid payload h = tell send [MAKE_VERB (addr codec) nid vid (ucast payload)] h"

definition hda_verb_read :: "'h link \<Rightarrow> hda_codec \<Rightarrow> nat \<Rightarrow> 32 word \<Rightarrow> 'h \<Rightarrow> 32 word option \<times> 'h" where
  "hda_verb_read send codec nid vid h = ask send (MAKE_VERB (addr codec) nid vid 0) h"

section \<open>What is read of a widget\<close>

text \<open>Power states and streams of a node.\<close>

definition get_parameter :: "'h link \<Rightarrow> hda_codec \<Rightarrow> nat \<Rightarrow> 32 word \<Rightarrow> 'h \<Rightarrow> 32 word option \<times> 'h" where
  "get_parameter send codec nid pid h = ask send (MAKE_VERB (addr codec) nid VID_GET_PARAMETER pid) h"

definition hda_get_pm_support :: "'h link \<Rightarrow> hda_codec \<Rightarrow> hda_widget \<Rightarrow> 'h \<Rightarrow> hda_widget \<times> 'h" where
  "hda_get_pm_support send codec w h = (case get_parameter send codec (node_id w) PID_POWERSTATE_SUPPORT h of
     (Some response, h) \<Rightarrow> (w\<lparr>pm := response AND 0xf\<rparr>, h)
   | (None, h) \<Rightarrow> (w, h))"

definition rate_bits :: "(nat \<times> stream_rate) list" where
  "rate_bits = [(0, B_SR_8000), (1, B_SR_11025), (2, B_SR_16000), (3, B_SR_22050), (4, B_SR_32000), (5, B_SR_44100), (6, B_SR_48000),
     (7, B_SR_88200), (8, B_SR_96000), (9, B_SR_176400), (10, B_SR_192000), (11, B_SR_384000)]"

definition format_bits :: "(32 word \<times> stream_format) list" where
  "format_bits = [(PCM_8_BIT, B_FMT_8BIT_S), (PCM_16_BIT, B_FMT_16BIT), (PCM_20_BIT, B_FMT_20BIT), (PCM_24_BIT, B_FMT_24BIT),
     (PCM_32_BIT, B_FMT_32BIT)]"

definition stream_rates :: "32 word \<Rightarrow> 32 word \<Rightarrow> stream_rate set" where
  "stream_rates streams pcm = (if streams AND (STREAM_FLOAT OR STREAM_PCM) \<noteq> 0 then set (map snd (filter (\<lambda>p. bit pcm (fst p)) rate_bits)) else {})"

definition stream_formats :: "32 word \<Rightarrow> 32 word \<Rightarrow> stream_format set" where
  "stream_formats streams pcm =
     (if streams AND (STREAM_FLOAT OR STREAM_PCM) \<noteq> 0 then set (map snd (filter (\<lambda>p. pcm AND fst p \<noteq> 0) format_bits)) else {})
     \<union> (if streams AND STREAM_FLOAT \<noteq> 0 then {B_FMT_FLOAT} else {})
     \<union> (if streams AND STREAM_AC3 \<noteq> 0 then {B_FMT_BITSTREAM} else {})"

definition hda_get_stream_support :: "'h link \<Rightarrow> hda_codec \<Rightarrow> hda_widget \<Rightarrow> 'h \<Rightarrow> hda_widget \<times> 'h" where
  "hda_get_stream_support send codec w h =
     (case send [MAKE_VERB (addr codec) (node_id w) VID_GET_PARAMETER PID_STREAM_SUPPORT, MAKE_VERB (addr codec) (node_id w) VID_GET_PARAMETER PID_PCM_SUPPORT] h of
       ((st, resp), h) \<Rightarrow>
         (if st = B_OK then w\<lparr>io_formats := stream_formats (resp ! 0) (resp ! 1), io_rates := stream_rates (resp ! 0) (resp ! 1)\<rparr> else w, h))"

definition hda_widget_get_stream_support :: "'h link \<Rightarrow> hda_codec \<Rightarrow> hda_audio_group \<Rightarrow> hda_widget \<Rightarrow> 'h \<Rightarrow> hda_widget \<times> 'h" where
  "hda_widget_get_stream_support send codec g w h =
     (if node_id (group_widget g) \<noteq> node_id w \<and> cap_audio w AND AUDIO_CAP_FORMAT_OVERRIDE = 0
      then (w\<lparr>io_formats := io_formats (group_widget g), io_rates := io_rates (group_widget g)\<rparr>, h)
      else hda_get_stream_support send codec w h)"

text \<open>Amplifiers: a failure to read the output amplifier skips the input amplifier.\<close>

definition hda_widget_get_amplifier_capabilities :: "'h link \<Rightarrow> hda_codec \<Rightarrow> hda_audio_group \<Rightarrow> hda_widget \<Rightarrow> 'h \<Rightarrow> hda_widget \<times> 'h" where
  "hda_widget_get_amplifier_capabilities send codec g w h =
     (let root = (node_id (group_widget g) = node_id w);
          own = (cap_audio w AND AUDIO_CAP_AMPLIFIER_OVERRIDE \<noteq> 0 \<or> root);
          (ok, w, h) =
            (if cap_audio w AND AUDIO_CAP_OUTPUT_AMPLIFIER \<noteq> 0 \<or> root then
               (if own then (case get_parameter send codec (node_id w) PID_OUTPUT_AMPLIFIER_CAP h of
                    (Some response, h) \<Rightarrow> (True, w\<lparr>cap_output_amplifier := response\<rparr>, h)
                  | (None, h) \<Rightarrow> (False, w, h))
                else (True, w\<lparr>cap_output_amplifier := cap_output_amplifier (group_widget g)\<rparr>, h))
             else (True, w, h))
      in if \<not> ok then (w, h)
         else if cap_audio w AND AUDIO_CAP_INPUT_AMPLIFIER \<noteq> 0 \<or> root then
           (if own then (case get_parameter send codec (node_id w) PID_INPUT_AMPLIFIER_CAP h of
                (Some response, h) \<Rightarrow> (w\<lparr>cap_input_amplifier := response\<rparr>, h)
              | (None, h) \<Rightarrow> (w, h))
            else (w\<lparr>cap_input_amplifier := cap_input_amplifier (group_widget g)\<rparr>, h))
         else (w, h))"

text \<open>
  The widget of a node, as an index. The check lets the node after the last one pass, whose index is beyond the array; so the list
  \<open>widgets\<close> has one element more than \<open>widget_count\<close>, which stands for whatever memory lies there.
\<close>

definition hda_audio_group_get_widget :: "hda_audio_group \<Rightarrow> nat \<Rightarrow> nat option" where
  "hda_audio_group_get_widget g nid =
     (if nid < widget_start g \<or> widget_start g + widget_count g < nid then None else Some (nid - widget_start g))"

section \<open>Connections\<close>

text \<open>The state of the loop: the last response, the node before a range (or -1), and the inputs found.\<close>

record connections =
  con_response :: "32 word"
  previous_input :: int
  found_inputs :: "nat list"

text \<open>\<open>inputs[numInputs++]\<close>, while there is room.\<close>

definition add_inputs :: "nat list \<Rightarrow> connections \<Rightarrow> connections" where
  "add_inputs ns c = c\<lparr>found_inputs := take MAX_INPUTS (found_inputs c @ ns)\<rparr>"

definition connection_entry :: "nat \<Rightarrow> nat \<Rightarrow> connections \<Rightarrow> connections" where
  "connection_entry per_entry i c =
     (let shift = 32 div per_entry;
          input = take_bit shift (drop_bit (shift * (i mod per_entry)) (con_response c))
      in if bit input (shift - 1) then
           (let last = uint (take_bit (shift - 1) input)
            in if last < previous_input c \<or> previous_input c = - 1 then c
               else (add_inputs (map nat [previous_input c + 1..last]) c)\<lparr>previous_input := - 1\<rparr>)
         else if length (found_inputs c) < MAX_INPUTS then (add_inputs [unat input] c)\<lparr>previous_input := uint input\<rparr>
         else c)"

primrec connection_loop :: "'h link \<Rightarrow> hda_codec \<Rightarrow> nat \<Rightarrow> nat \<Rightarrow> nat list \<Rightarrow> connections \<Rightarrow> 'h \<Rightarrow> connections \<times> 'h" where
  "connection_loop send codec nid per_entry [] c h = (c, h)"
| "connection_loop send codec nid per_entry (i # is) c h =
     (if i mod per_entry = 0 then
        (case ask send (MAKE_VERB (addr codec) nid VID_GET_CONNECTION_LIST_ENTRY (of_nat i)) h of
           (None, h) \<Rightarrow> (c, h)
         | (Some response, h) \<Rightarrow> connection_loop send codec nid per_entry is (connection_entry per_entry i (c\<lparr>con_response := response\<rparr>)) h)
      else connection_loop send codec nid per_entry is (connection_entry per_entry i c) h)"

text \<open>The array keeps its 32 elements; \<open>num_inputs\<close> is 0 when the widgets are parsed, so the active connection is never asked for.\<close>

definition store_inputs :: "nat list \<Rightarrow> hda_widget \<Rightarrow> hda_widget" where
  "store_inputs ns w = w\<lparr>inputs := ns @ drop (length ns) (inputs w), num_inputs := length ns,
     active_input := (if length ns = 1 then 0 else active_input w)\<rparr>"

definition hda_widget_get_connections :: "'h link \<Rightarrow> hda_codec \<Rightarrow> hda_widget \<Rightarrow> 'h \<Rightarrow> hda_widget \<times> 'h" where
  "hda_widget_get_connections send codec w h =
     (case get_parameter send codec (node_id w) PID_CONNECTION_LIST_LENGTH h of
        (None, h) \<Rightarrow> (w, h)
      | (Some response, h) \<Rightarrow>
         (let listEntries = unat (response AND 0x7f);
              longForm = (response AND 0xf0 \<noteq> 0)
          in if listEntries = 0 then (w, h)
             else let (w, response, h) =
                    (if 1 < num_inputs w then
                       (case ask send (MAKE_VERB (addr codec) (node_id w) VID_GET_CONNECTION_SELECT 0) h of
                          (Some r, h) \<Rightarrow> (w\<lparr>active_input := uint (r AND 0xff)\<rparr>, r, h)
                        | (None, h) \<Rightarrow> (w, response, h))
                     else (w, response, h));
                    (c, h) = connection_loop send codec (node_id w) (if longForm then 2 else 4) [0..<listEntries]
                      \<lparr>con_response = response, previous_input = - 1, found_inputs = []\<rparr> h
              in (store_inputs (found_inputs c) w, h)))"

section \<open>Associations of the pins\<close>

text \<open>The inner loop over the widgets, from \<open>j\<close> on: \<open>None\<close> is the error return with the associations so far.\<close>

definition add_pin :: "nat \<Rightarrow> hda_widget \<Rightarrow> hda_association list \<Rightarrow> hda_association list" where
  "add_pin index w as =
     (let a = as ! index;
          a = (if pin_count a = 0 then a\<lparr>assoc_index := index, enabled := True\<rparr> else a);
          seqn = CONF_DEFAULT_SEQUENCE (pin_config w);
          a = (if pins a ! seqn \<noteq> 0 then a\<lparr>enabled := False\<rparr> else a)
      in as[index := a\<lparr>pins := (pins a)[seqn := node_id w], pin_count := pin_count a + 1\<rparr>])"

primrec association_widgets :: "nat \<Rightarrow> hda_widget list \<Rightarrow> nat \<Rightarrow> hda_association list \<Rightarrow> bool \<times> nat \<times> hda_association list" where
  "association_widgets i [] index as = (True, index, as)"
| "association_widgets i (w # ws) index as =
     (if MAX_ASSOCIATIONS \<le> index then (False, index, as)
      else if widget_type w \<noteq> WT_PIN_COMPLEX \<or> CONF_DEFAULT_ASSOCIATION (pin_config w) \<noteq> i then association_widgets i ws index as
      else association_widgets i ws (if i = 15 then Suc index else index) (add_pin index w as))"

primrec association_loop :: "hda_widget list \<Rightarrow> nat list \<Rightarrow> nat \<Rightarrow> hda_association list \<Rightarrow> bool \<times> nat \<times> hda_association list" where
  "association_loop ws [] index as = (True, index, as)"
| "association_loop ws (i # is) index as =
     (case association_widgets i ws index as of (ok, index, as) \<Rightarrow>
        if \<not> ok then (False, index, as)
        else association_loop ws is (if i \<noteq> 15 \<and> pin_count (as ! index) \<noteq> 0 then Suc index else index) as)"

definition hda_widget_get_associations :: "hda_audio_group \<Rightarrow> status_t \<times> hda_audio_group" where
  "hda_widget_get_associations g =
     (case association_loop (take (widget_count g) (widgets g)) [0..<MAX_ASSOCIATIONS] 0 (associations g) of (ok, index, as) \<Rightarrow>
        if ok then (B_OK, g\<lparr>associations := as, association_count := index\<rparr>) else (B_ERROR, g\<lparr>associations := as\<rparr>))"

definition hda_widget_prepare_pin_ctrl :: "hda_codec \<Rightarrow> hda_widget \<Rightarrow> bool \<Rightarrow> 32 word" where
  "hda_widget_prepare_pin_ctrl codec w isOutput =
     (let ctrl = (if isOutput then PIN_ENABLE_HEAD_PHONE OR PIN_ENABLE_OUTPUT else PIN_ENABLE_INPUT);
          ctrl = (if PIN_CAP_IS_VREF_CTRL_50_CAP (pin_capabilities w)
              \<and> quirks codec AND (if isOutput then HDA_QUIRK_OVREF50 else HDA_QUIRK_IVREF50) \<noteq> 0 then ctrl OR PIN_ENABLE_VREF_50 else ctrl);
          ctrl = (if PIN_CAP_IS_VREF_CTRL_80_CAP (pin_capabilities w)
              \<and> quirks codec AND (if isOutput then HDA_QUIRK_OVREF80 else HDA_QUIRK_IVREF80) \<noteq> 0 then ctrl OR PIN_ENABLE_VREF_80 else ctrl)
      in if PIN_CAP_IS_VREF_CTRL_100_CAP (pin_capabilities w)
              \<and> quirks codec AND (if isOutput then HDA_QUIRK_OVREF100 else HDA_QUIRK_IVREF100) \<noteq> 0 then ctrl OR PIN_ENABLE_VREF_100 else ctrl)"

section \<open>Parsing of an audio function group\<close>

text \<open>Nodes of some codecs that are not of the type they say.\<close>

definition codec_id :: "hda_codec \<Rightarrow> nat" where
  "codec_id codec = vendor_id codec * 2 ^ 16 + product_id codec"

definition beeper_node :: "nat \<Rightarrow> nat option" where
  "beeper_node cid =
     (if cid \<in> {0x11d41882, 0x11d41883, 0x11d41884, 0x11d4194a, 0x11d4194b, 0x11d41987, 0x11d41988, 0x11d4198b, 0x11d4989b} then Some 26
      else if cid = 0x10ec0260 then Some 23
      else if cid \<in> {0x10ec0262, 0x10ec0268, 0x10ec0880, 0x10ec0882, 0x10ec0883, 0x10ec0885, 0x10ec0888, 0x10ec0889} then Some 29
      else None)"

definition corrected_type :: "nat \<Rightarrow> nat \<Rightarrow> hda_widget_type \<Rightarrow> hda_widget_type" where
  "corrected_type cid nid t =
     (if beeper_node cid = Some nid then WT_BEEP_GENERATOR
      else if cid = 0x10ec0269 \<and> (nid = 0x23 \<or> nid = 0x24) then WT_AUDIO_SELECTOR
      else t)"

definition parse_pin :: "'h link \<Rightarrow> hda_codec \<Rightarrow> hda_widget \<Rightarrow> 'h \<Rightarrow> hda_widget \<times> 'h" where
  "parse_pin send codec w h =
     (let (r, h) = get_parameter send codec (node_id w) PID_PIN_CAP h;
          w = (case r of Some c \<Rightarrow> w\<lparr>pin_capabilities := c\<rparr> | None \<Rightarrow> w);
          (r, h) = ask send (MAKE_VERB (addr codec) (node_id w) VID_GET_CONFIGURATION_DEFAULT 0) h
      in (case r of Some c \<Rightarrow> w\<lparr>pin_config := c\<rparr> | None \<Rightarrow> w, h))"

text \<open>The body of the loop over the widgets; \<open>None\<close> is the error return.\<close>

definition parse_widget :: "'h link \<Rightarrow> hda_codec \<Rightarrow> hda_audio_group \<Rightarrow> nat \<Rightarrow> 'h \<Rightarrow> hda_widget option \<times> 'h" where
  "parse_widget send codec g nid h =
     (case get_parameter send codec nid PID_AUDIO_WIDGET_CAP h of
        (None, h) \<Rightarrow> (None, h)
      | (Some caps, h) \<Rightarrow>
         (let w = zero_widget\<lparr>widget_type := corrected_type (codec_id codec) nid (widget_type_of (unat (drop_bit 20 (caps AND AUDIO_CAP_TYPE_MASK)))),
                active_input := - 1, cap_audio := caps, node_id := nid\<rparr>;
              h = (if caps AND AUDIO_CAP_POWER_CONTROL \<noteq> 0 then tell send [MAKE_VERB (addr codec) nid VID_SET_POWER_STATE 0] h else h);
              (w, h) = (if caps AND (AUDIO_CAP_INPUT_AMPLIFIER OR AUDIO_CAP_OUTPUT_AMPLIFIER) \<noteq> 0
                then hda_widget_get_amplifier_capabilities send codec g w h else (w, h));
              (w, h) = (case widget_type w of
                  WT_AUDIO_OUTPUT \<Rightarrow> hda_widget_get_stream_support send codec g w h
                | WT_AUDIO_INPUT \<Rightarrow> hda_widget_get_stream_support send codec g w h
                | WT_PIN_COMPLEX \<Rightarrow> parse_pin send codec w h
                | WT_VOLUME_KNOB \<Rightarrow> (w, tell send [MAKE_VERB (addr codec) nid VID_SET_VOLUME_KNOB_CONTROL 0] h)
                | _ \<Rightarrow> (w, h));
              (w, h) = hda_get_pm_support send codec w h;
              (w, h) = hda_widget_get_connections send codec w h
          in (Some w, h)))"

primrec parse_widgets :: "'h link \<Rightarrow> hda_codec \<Rightarrow> hda_audio_group \<Rightarrow> nat list \<Rightarrow> 'h \<Rightarrow> hda_widget list option \<times> 'h" where
  "parse_widgets send codec g [] h = (Some [], h)"
| "parse_widgets send codec g (nid # nids) h =
     (case parse_widget send codec g nid h of
        (None, h) \<Rightarrow> (None, h)
      | (Some w, h) \<Rightarrow> (case parse_widgets send codec g nids h of
           (None, h) \<Rightarrow> (None, h)
         | (Some ws, h) \<Rightarrow> (Some (w # ws), h)))"

definition init_codec :: "'h link \<Rightarrow> hda_codec \<Rightarrow> 32 word \<Rightarrow> 'h \<Rightarrow> 'h" where
  "init_codec send codec junk h =
     (if codec_id codec = 0x10ec0888 then
        (let h = hda_verb_write send codec 0x20 VID_SET_COEFFICIENT_INDEX 0 h;
             (r, h) = hda_verb_read send codec 0x20 VID_GET_PROCESSING_COEFFICIENT h;
             tmp = (case r of Some t \<Rightarrow> t | None \<Rightarrow> junk);
             h = hda_verb_write send codec 0x20 VID_SET_COEFFICIENT_INDEX 7 h
         in hda_verb_write send codec 0x20 VID_SET_PROCESSING_COEFFICIENT (if tmp AND 0xf0 = 0x20 then 0x830 else 0x3030) h)
      else h)"

text \<open>
  The widgets of a group. \<open>mem\<close> says whether there is memory for them, \<open>behind\<close> is what lies behind them, \<open>junk\<close> what a local
  variable holds that a failed verb leaves unset.
\<close>

definition parse_group_widgets ::
    "'h link \<Rightarrow> hda_codec \<Rightarrow> bool \<Rightarrow> hda_widget \<Rightarrow> 32 word \<Rightarrow> hda_audio_group \<Rightarrow> 'h \<Rightarrow> (status_t \<times> hda_audio_group) \<times> 'h" where
  "parse_group_widgets send codec mem behind junk g h =
     (if \<not> mem then ((B_NO_MEMORY, g), h)
      else case parse_widgets send codec g [widget_start g..<widget_start g + widget_count g] h of
         (None, h) \<Rightarrow> ((B_ERROR, g), h)
       | (Some ws, h) \<Rightarrow> ((B_OK, snd (hda_widget_get_associations (g\<lparr>widgets := ws @ [behind]\<rparr>))), init_codec send codec junk h))"

definition hda_codec_parse_audio_group ::
    "'h link \<Rightarrow> hda_codec \<Rightarrow> bool \<Rightarrow> hda_widget \<Rightarrow> 32 word \<Rightarrow> hda_audio_group \<Rightarrow> 'h \<Rightarrow> (status_t \<times> hda_audio_group) \<times> 'h" where
  "hda_codec_parse_audio_group send codec mem behind junk g h =
     (let nid = node_id (group_widget g);
          h = tell send [MAKE_VERB (addr codec) nid VID_SET_POWER_STATE 0] h;
          (w, h) = hda_widget_get_stream_support send codec g (group_widget g) h;
          g = g\<lparr>group_widget := w\<rparr>;
          (w, h) = hda_get_pm_support send codec (group_widget g) h;
          g = g\<lparr>group_widget := w\<rparr>;
          (w, h) = hda_widget_get_amplifier_capabilities send codec g (group_widget g) h;
          g = g\<lparr>group_widget := w\<rparr>;
          ((st, resp), h) = send (map (MAKE_VERB (addr codec) nid VID_GET_PARAMETER) [PID_AUDIO_GROUP_CAP, PID_GPIO_COUNT, PID_SUB_NODE_COUNT]) h
      in if st \<noteq> B_OK then ((B_ERROR, g), h)
         else parse_group_widgets send codec mem behind junk
           (g\<lparr>gpio := resp ! 1, widget_start := SUB_NODE_COUNT_START (resp ! 2), widget_count := SUB_NODE_COUNT_TOTAL (resp ! 2)\<rparr>) h)"

section \<open>Quirks of this laptop\<close>

text \<open>
  The quirks of a Sony laptop with the codec ALC269 are exactly the one for its speaker crosstalk: the reference voltage of
  the inputs, which applies to every other codec, is taken back.
\<close>

lemma vaio_quirks:
  assumes "subsystem_id codec div 2 ^ 16 = SONY_VENDORID" "vendor_id codec = REALTEK_VENDORID" "product_id codec = 0x0269"
  shows "quirks (hda_codec_get_quirks codec) = HDA_QUIRK_SONY_VAIO"
proof -
  have "subsystem_id codec div 65536 = 4173"
    using assms(1) by (simp add: quirk_defs)
  then show ?thesis
    using assms(2,3) by (simp add: hda_codec_get_quirks_def kCodecQuirks_def quirk_step_def quirk_matches_def quirk_defs)
qed

section \<open>What a connection list stands for\<close>

text \<open>A connection list names nodes one by one, or as the end of a range that begins after the node before.\<close>

datatype connection = Node nat | Range_to nat

fun expand_connections :: "nat option \<Rightarrow> connection list \<Rightarrow> nat list" where
  "expand_connections p [] = []"
| "expand_connections p (Node n # cs) = n # expand_connections (Some n) cs"
| "expand_connections (Some m) (Range_to n # cs) = [Suc m..<Suc n] @ expand_connections None cs"
| "expand_connections None (Range_to n # cs) = expand_connections None cs"

text \<open>The codes fit their width, and a range follows a node that is not above its end.\<close>

fun connections_ok :: "nat \<Rightarrow> nat option \<Rightarrow> connection list \<Rightarrow> bool" where
  "connections_ok shift p [] \<longleftrightarrow> True"
| "connections_ok shift p (Node n # cs) \<longleftrightarrow> n < 2 ^ (shift - 1) \<and> connections_ok shift (Some n) cs"
| "connections_ok shift (Some m) (Range_to n # cs) \<longleftrightarrow> m \<le> n \<and> n < 2 ^ (shift - 1) \<and> connections_ok shift None cs"
| "connections_ok shift None (Range_to n # cs) \<longleftrightarrow> False"

fun connection_code :: "nat \<Rightarrow> connection \<Rightarrow> nat" where
  "connection_code shift (Node n) = n"
| "connection_code shift (Range_to n) = 2 ^ (shift - 1) + n"

text \<open>A codec without a state of its own: a function from verbs to responses.\<close>

definition answering :: "(32 word \<Rightarrow> 32 word) \<Rightarrow> 'h link" where
  "answering f vs h = ((B_OK, map f vs), h)"

lemma ask_answering [simp]: "ask (answering f) v h = (Some (f v), h)"
  by (simp add: ask_def answering_def)

lemma get_parameter_answering [simp]: "get_parameter (answering f) codec nid pid h = (Some (f (MAKE_VERB (addr codec) nid VID_GET_PARAMETER pid)), h)"
  by (simp add: get_parameter_def)

text \<open>The codec lists the connections of a node: their number, with bit 7 for the long form, and their codes in groups of two or four.\<close>

definition lists_connections :: "(32 word \<Rightarrow> 32 word) \<Rightarrow> nat \<Rightarrow> nat \<Rightarrow> bool \<Rightarrow> connection list \<Rightarrow> bool" where
  "lists_connections f cad nid longForm cs \<longleftrightarrow>
     (let per_entry = (if longForm then 2 else 4); shift = 32 div per_entry
      in length cs < 128 \<and>
         f (MAKE_VERB cad nid VID_GET_PARAMETER PID_CONNECTION_LIST_LENGTH) = of_nat (length cs) OR (if longForm then 0x80 else 0) \<and>
         (\<forall>j<length cs. take_bit shift (drop_bit (shift * (j mod per_entry))
            (f (MAKE_VERB cad nid VID_GET_CONNECTION_LIST_ENTRY (of_nat (j - j mod per_entry))))) = of_nat (connection_code shift (cs ! j))))"

lemma code_word:
  assumes "shift = 8 \<or> shift = 16" "n < 2 ^ (shift - 1)"
  shows "\<not> bit (of_nat n :: 32 word) (shift - 1)" "uint (of_nat n :: 32 word) = int n" "unat (of_nat n :: 32 word) = n"
    "bit (of_nat (2 ^ (shift - 1) + n) :: 32 word) (shift - 1)"
    "uint (take_bit (shift - 1) (of_nat (2 ^ (shift - 1) + n) :: 32 word)) = int n"
proof -
  have n: "n < 2 ^ 15"
    using assms by auto
  show "\<not> bit (of_nat n :: 32 word) (shift - 1)"
    using assms unfolding bit_of_nat_iff by (auto simp: bit_iff_odd)
  show "uint (of_nat n :: 32 word) = int n" "unat (of_nat n :: 32 word) = n"
    using n by (simp_all add: unsigned_of_nat take_bit_nat_eq_self)
  have "(2 ^ (shift - 1) + n) div 2 ^ (shift - 1) = 1"
    using assms(2) by (simp add: div_add_self1)
  then show "bit (of_nat (2 ^ (shift - 1) + n) :: 32 word) (shift - 1)"
    using assms(1) unfolding bit_of_nat_iff by (auto simp: bit_iff_odd)
  have "take_bit (shift - 1) (of_nat (2 ^ (shift - 1) + n) :: 32 word) = of_nat n"
    using assms(2) by (simp only: take_bit_of_nat) (simp add: take_bit_eq_mod)
  then show "uint (take_bit (shift - 1) (of_nat (2 ^ (shift - 1) + n) :: 32 word)) = int n"
    using n by (simp add: unsigned_of_nat take_bit_nat_eq_self)
qed

text \<open>One code, in the state that stands for the node before it.\<close>

definition previous_of :: "nat option \<Rightarrow> int" where
  "previous_of p = (case p of None \<Rightarrow> - 1 | Some m \<Rightarrow> int m)"

lemma map_nat_upto: "map nat [int m + 1..int n] = [Suc m..<Suc n]"
  by (rule nth_equalityI) (auto simp: nth_upto simp del: upt_Suc)

lemma connection_entry_code:
  assumes "per_entry \<in> {2, 4}" "shift = 32 div per_entry" "length (found_inputs c) \<le> MAX_INPUTS" "previous_input c = previous_of p"
    "take_bit shift (drop_bit (shift * (i mod per_entry)) (con_response c)) = of_nat (connection_code shift x)"
    "connections_ok shift p (x # cs)" "length (found_inputs c @ expand_connections p (x # cs)) \<le> MAX_INPUTS"
  shows "\<exists>q ns. connection_entry per_entry i c = c\<lparr>found_inputs := found_inputs c @ ns, previous_input := previous_of q\<rparr> \<and>
     connections_ok shift q cs \<and> expand_connections p (x # cs) = ns @ expand_connections q cs"
proof (cases x)
  case (Node n)
  have s: "shift = 8 \<or> shift = 16" "n < 2 ^ (shift - 1)"
    using assms(1,2,6) Node by auto
  have "connection_entry per_entry i c = (add_inputs [n] c)\<lparr>previous_input := int n\<rparr>"
    using assms(5,7) Node code_word [OF s] by (simp add: connection_entry_def Let_def flip: assms(2))
  then show ?thesis
    using assms(6,7) Node by (intro exI [of _ "Some n"] exI [of _ "[n]"]) (simp add: add_inputs_def previous_of_def)
next
  case (Range_to n)
  then obtain m where m: "p = Some m" "m \<le> n" "n < 2 ^ (shift - 1)"
    using assms(6) by (cases p) auto
  have s: "shift = 8 \<or> shift = 16"
    using assms(1,2) by auto
  have "connection_entry per_entry i c = (add_inputs (map nat [int m + 1..int n]) c)\<lparr>previous_input := - 1\<rparr>"
    using assms(4,5) Range_to m(1,2) code_word [OF s m(3)]
    by (simp add: connection_entry_def Let_def previous_of_def flip: assms(2) del: of_nat_add of_nat_power)
  then show ?thesis
    using assms(6,7) Range_to m
    by (intro exI [of _ None] exI [of _ "[Suc m..<Suc n]"]) (simp add: add_inputs_def previous_of_def map_nat_upto del: upt_Suc)
qed

text \<open>The loop from the code \<open>i\<close> on, with the response that holds it unless it is the first of its group.\<close>

lemma connection_loop_codes:
  assumes "per_entry \<in> {2, 4}" "shift = 32 div per_entry"
    and layout: "\<forall>j<length cs. take_bit shift (drop_bit (shift * (j mod per_entry))
        (f (MAKE_VERB (addr codec) nid VID_GET_CONNECTION_LIST_ENTRY (of_nat (j - j mod per_entry))))) = of_nat (connection_code shift (cs ! j))"
  shows "i \<le> length cs \<Longrightarrow> (i mod per_entry \<noteq> 0 \<Longrightarrow> con_response c = f (MAKE_VERB (addr codec) nid VID_GET_CONNECTION_LIST_ENTRY (of_nat (i - i mod per_entry)))) \<Longrightarrow>
    previous_input c = previous_of p \<Longrightarrow> connections_ok shift p (drop i cs) \<Longrightarrow>
    length (found_inputs c @ expand_connections p (drop i cs)) \<le> MAX_INPUTS \<Longrightarrow>
    \<exists>d. connection_loop (answering f) codec nid per_entry [i..<length cs] c h = (d, h) \<and> found_inputs d = found_inputs c @ expand_connections p (drop i cs)"
proof (induction "length cs - i" arbitrary: i c p)
  case 0
  then show ?case by simp
next
  case (Suc k)
  then have i: "i < length cs" by simp
  define r where "r = f (MAKE_VERB (addr codec) nid VID_GET_CONNECTION_LIST_ENTRY (of_nat (i - i mod per_entry)))"
  let ?c = "c\<lparr>con_response := r\<rparr>"
  have x: "drop i cs = cs ! i # drop (Suc i) cs"
    using i by (simp add: Cons_nth_drop_Suc)
  obtain q ns where q: "connection_entry per_entry i ?c = ?c\<lparr>found_inputs := found_inputs c @ ns, previous_input := previous_of q\<rparr>"
      "connections_ok shift q (drop (Suc i) cs)" "expand_connections p (drop i cs) = ns @ expand_connections q (drop (Suc i) cs)"
    using connection_entry_code [OF assms(1,2), of ?c p i "cs ! i" "drop (Suc i) cs"] Suc.prems(3-5) layout [rule_format, OF i]
    unfolding x r_def [symmetric] by auto
  have "Suc i mod per_entry \<noteq> 0 \<Longrightarrow> Suc i - Suc i mod per_entry = i - i mod per_entry"
    using assms(1) by (auto simp: mod_Suc)
  then have next_group: "Suc i mod per_entry \<noteq> 0 \<Longrightarrow> f (MAKE_VERB (addr codec) nid VID_GET_CONNECTION_LIST_ENTRY (of_nat (Suc i - Suc i mod per_entry))) = r"
    unfolding r_def by (rule arg_cong)
  have "\<exists>d. connection_loop (answering f) codec nid per_entry [Suc i..<length cs] (connection_entry per_entry i ?c) h = (d, h) \<and>
      found_inputs d = found_inputs (connection_entry per_entry i ?c) @ expand_connections q (drop (Suc i) cs)"
    using Suc.hyps(2) Suc.prems(5) i q(2,3) next_group
    by (intro Suc.hyps(1)) (auto simp: q(1) simp del: of_nat_diff)
  moreover have "connection_loop (answering f) codec nid per_entry [i..<length cs] c h
      = connection_loop (answering f) codec nid per_entry [Suc i..<length cs] (connection_entry per_entry i ?c) h"
  proof (cases "i mod per_entry = 0")
    case True
    then show ?thesis using i by (simp add: upt_conv_Cons r_def)
  next
    case False
    then have "?c = c"
      using Suc.prems(2) unfolding r_def by simp
    then show ?thesis using i False by (simp add: upt_conv_Cons)
  qed
  ultimately show ?case
    by (auto simp: q(1,3))
qed

lemma connection_length:
  assumes "n < 128" "longForm \<or> n < 16"
  shows "(of_nat n OR (if longForm then 0x80 else 0) :: 32 word) AND 0x7f = of_nat n \<and>
    ((of_nat n OR (if longForm then 0x80 else 0) :: 32 word) AND 0xf0 \<noteq> 0 \<longleftrightarrow> longForm)"
proof (intro conjI)
  have "x AND 0x7f = take_bit 7 x" for x :: "32 word"
    by (simp add: take_bit_eq_mask mask_eq_exp_minus_1)
  moreover have "take_bit 7 (of_nat n :: 32 word) = of_nat n"
    using assms(1) by (simp only: take_bit_of_nat) (simp add: take_bit_nat_eq_self)
  ultimately show "(of_nat n OR (if longForm then 0x80 else 0) :: 32 word) AND 0x7f = of_nat n"
    by simp
  show "(of_nat n OR (if longForm then 0x80 else 0) :: 32 word) AND 0xf0 \<noteq> 0 \<longleftrightarrow> longForm"
  proof (cases longForm)
    case True
    have "bit ((of_nat n OR 0x80) AND 0xf0 :: 32 word) 7"
      by (simp add: bit_simps)
    then have "(of_nat n OR 0x80) AND 0xf0 \<noteq> (0 :: 32 word)"
      by (metis bit_0_eq bot_apply bot_bool_def)
    then show ?thesis using True by simp
  next
    case False
    then have "of_nat n = take_bit 4 (of_nat n :: 32 word)"
      using assms(2) by (simp only: take_bit_of_nat) (simp add: take_bit_nat_eq_self)
    moreover have "take_bit 4 x = x AND 0xf" for x :: "32 word"
      by (simp add: take_bit_eq_mask mask_eq_exp_minus_1)
    ultimately have "of_nat n AND 0xf0 = of_nat n AND (0xf AND 0xf0 :: 32 word)"
      by (metis and.assoc)
    then show ?thesis using False by simp
  qed
qed



lemma connection_entry_extends: "length (found_inputs c) \<le> MAX_INPUTS \<Longrightarrow>
    \<exists>ns. found_inputs (connection_entry per_entry i c) = found_inputs c @ ns \<and> length (found_inputs (connection_entry per_entry i c)) \<le> MAX_INPUTS"
  by (auto simp: connection_entry_def Let_def add_inputs_def)

lemma connection_loop_extends: "length (found_inputs c) \<le> MAX_INPUTS \<Longrightarrow>
    \<exists>ns. found_inputs (fst (connection_loop send codec nid per_entry is c h)) = found_inputs c @ ns"
proof (induction "is" arbitrary: c h)
  case (Cons i "is")
  have step: "\<exists>ns. found_inputs (fst (connection_loop send codec nid per_entry is (connection_entry per_entry i c') h)) = found_inputs c @ ns"
    if "found_inputs c' = found_inputs c" for c' h
    using Cons.IH [of "connection_entry per_entry i c'" h] connection_entry_extends [of c' per_entry i] Cons.prems that by fastforce
  then show ?case
    by (auto split: prod.split option.split)
qed simp

lemma connection_loop_answering: "snd (connection_loop (answering f) codec nid per_entry is c h) = h"
  by (induction "is" arbitrary: c) simp_all

lemma sixteen_codes:
  assumes "16 \<le> n" "n < 128"
  shows "of_nat n AND 0xf0 \<noteq> (0 :: 32 word)"
proof
  assume z: "of_nat n AND 0xf0 = (0 :: 32 word)"
  have "of_nat n AND 0x70 = (of_nat n AND 0xf0) AND (0x70 :: 32 word)"
    unfolding and.assoc by simp
  then have "of_nat n AND (0x70 OR 0xf) = of_nat n AND (0xf :: 32 word)"
    unfolding z bit.conj_disj_distrib by simp
  then have "of_nat n = take_bit 4 (of_nat n :: 32 word)"
    using connection_length [of n True] assms(2) by (simp add: take_bit_eq_mask mask_eq_exp_minus_1 bit.conj_disj_distrib2)
  then have "unat (of_nat n :: 32 word) = take_bit 4 (unat (of_nat n :: 32 word))"
    by (metis unsigned_take_bit_eq)
  then show False
    using assms by (simp add: unsigned_of_nat take_bit_eq_mod)
qed

lemma paired_codes:
  assumes "take_bit 8 r = (of_nat a :: 32 word)" "take_bit 8 (drop_bit 8 r) = of_nat b" "a < 2 ^ 7" "b < 2 ^ 7"
  shows "take_bit 16 r = of_nat (a + 2 ^ 8 * b)"
proof -
  have "unat (take_bit 8 r) = a" "unat (take_bit 8 (drop_bit 8 r)) = b"
    using assms by (simp_all add: unsigned_of_nat take_bit_nat_eq_self)
  then have "unat r mod 2 ^ 8 = a" "unat r div 2 ^ 8 mod 2 ^ 8 = b"
    using mod_less [OF unsigned_less [of r]] unfolding unsigned_take_bit_eq unsigned_drop_bit_eq by (simp_all add: take_bit_eq_mod drop_bit_eq_div)
  then have "unat r mod (2 ^ 8 * 2 ^ 8) = a + 2 ^ 8 * b"
    using mod_mult2_eq [of "unat r" 256 256] by simp
  then have "unat (take_bit 16 r) = a + 2 ^ 8 * b"
    unfolding unsigned_take_bit_eq by (simp add: take_bit_eq_mod)
  then show ?thesis
    by (metis of_nat_unat ucast_id)
qed

text \<open>
  A short list of 16 connections or more is misread. The test for the long form looks at four bits of the length instead of one,
  so the entries are taken in pairs: the first input that is found is the number that the first two codes make together.
\<close>

lemma short_list_misread:
  assumes "lists_connections f (addr codec) (node_id w) False cs" "16 \<le> length cs" "num_inputs w = 0"
    and "cs ! 0 = Node a" "cs ! 1 = Node b" "a < 2 ^ 7" "b < 2 ^ 7" "0 < b"
  shows "\<exists>w'. hda_widget_get_connections (answering f) codec w h = (w', h) \<and> 0 < num_inputs w' \<and>
    inputs w' ! 0 = a + 2 ^ 8 * b \<and> inputs w' ! 0 \<noteq> hd (expand_connections None cs)"
proof -
  define n where "n = length cs"
  have n: "16 \<le> n" "n < 128"
    using assms(1,2) by (auto simp: n_def lists_connections_def Let_def)
  define r where "r = f (MAKE_VERB (addr codec) (node_id w) VID_GET_CONNECTION_LIST_ENTRY 0)"
  have len: "f (MAKE_VERB (addr codec) (node_id w) VID_GET_PARAMETER PID_CONNECTION_LIST_LENGTH) = of_nat n"
    and codes: "take_bit 8 r = of_nat a" "take_bit 8 (drop_bit 8 r) = of_nat b"
    using assms(1) n assms(4,5) by (auto simp: lists_connections_def Let_def n_def r_def dest: spec [of _ 0] spec [of _ 1])
  have count: "unat (of_nat n AND 0x7f :: 32 word) = n" and long: "of_nat n AND 0xf0 \<noteq> (0 :: 32 word)"
    using connection_length [of n True] n sixteen_codes [OF n] by (simp_all add: unsigned_of_nat take_bit_nat_eq_self bit.conj_disj_distrib2)
  let ?input = "a + 2 ^ 8 * b" and ?start = "\<lparr>con_response = of_nat n, previous_input = - 1, found_inputs = []\<rparr>"
  have "connection_entry 2 0 (?start\<lparr>con_response := r\<rparr>) = \<lparr>con_response = r, previous_input = int ?input, found_inputs = [?input]\<rparr>"
    using paired_codes [OF codes assms(6,7)] code_word [of 16 ?input] assms(6,7)
    by (simp add: connection_entry_def Let_def add_inputs_def MAX_INPUTS_def del: of_nat_add)
  moreover have "[0..<n] = 0 # [1..<n]"
    using n(1) by (simp add: upt_conv_Cons)
  ultimately obtain d ns where d: "connection_loop (answering f) codec (node_id w) 2 [0..<n] ?start h = (d, h)" "found_inputs d = ?input # ns"
    using connection_loop_extends [of "\<lparr>con_response = r, previous_input = int ?input, found_inputs = [?input]\<rparr>" "answering f" codec "node_id w" 2 "[1..<n]" h]
    by (auto simp: MAX_INPUTS_def simp flip: r_def) (metis prod.collapse connection_loop_answering)
  have "hda_widget_get_connections (answering f) codec w h = (store_inputs (?input # ns) w, h)"
    using n(1) assms(3) by (simp add: hda_widget_get_connections_def len count long Let_def d)
  moreover have "hd (expand_connections None cs) = a"
    using assms(4) n by (cases cs) (auto simp: n_def)
  ultimately show ?thesis
    using assms(8) by (simp add: store_inputs_def)
qed

section \<open>Reference voltages\<close>

text \<open>
  The codes of the reference voltages are combined bit by bit. A microphone pin that can do 50 and 80 percent, but not 100, is set to the
  code for 100 percent when the quirks allow both voltages, as they do for every codec without an entry of its own.
\<close>

lemma vref_codes_combine:
  assumes "PIN_CAP_IS_VREF_CTRL_50_CAP (pin_capabilities w)" "PIN_CAP_IS_VREF_CTRL_80_CAP (pin_capabilities w)"
    and "\<not> PIN_CAP_IS_VREF_CTRL_100_CAP (pin_capabilities w)"
    and "quirks codec AND HDA_QUIRK_IVREF50 \<noteq> 0" "quirks codec AND HDA_QUIRK_IVREF80 \<noteq> 0"
  shows "hda_widget_prepare_pin_ctrl codec w False = PIN_ENABLE_INPUT OR PIN_ENABLE_VREF_100"
  using assms by (simp add: hda_widget_prepare_pin_ctrl_def hda_consts)

end
