(* ===== verification/Hda_Paths.thy ===== *)
theory Hda_Paths
  imports Hda_Codec
begin

text \<open>
  The signal paths of an HDA codec, the second half of \<open>src/hda/hda_codec.cpp\<close>: the search for a converter behind each output pin and
  for a pin before each input converter, the trees built of them, the selection of the connections, the headphone detection, and what is
  opened for a stream. The searches are bounded by their depth; what they mark is shown to be paths that lead somewhere.
\<close>

section \<open>The searches\<close>

definition widget_at :: "hda_audio_group \<Rightarrow> nat \<Rightarrow> hda_widget" where
  "widget_at g k = widgets g ! k"

definition update_widget :: "nat \<Rightarrow> (hda_widget \<Rightarrow> hda_widget) \<Rightarrow> hda_audio_group \<Rightarrow> hda_audio_group" where
  "update_widget k f g = g\<lparr>widgets := (widgets g)[k := f (widgets g ! k)]\<rparr>"

text \<open>\<open>if (active_input == -1) active_input = i; flags |= flag\<close>.\<close>

definition mark_input :: "32 word \<Rightarrow> nat \<Rightarrow> hda_widget \<Rightarrow> hda_widget" where
  "mark_input flag i w = w\<lparr>active_input := (if active_input w = - 1 then int i else active_input w), flags := flags w OR flag\<rparr>"

definition mark_leaf :: "32 word \<Rightarrow> hda_widget \<Rightarrow> hda_widget" where
  "mark_leaf flag w = w\<lparr>flags := flags w OR flag\<rparr>"

text \<open>The inputs of a widget with their indices; the search does not change them.\<close>

definition input_list :: "hda_audio_group \<Rightarrow> nat \<Rightarrow> (nat \<times> nat) list" where
  "input_list g k = List.enumerate 0 (take (num_inputs (widget_at g k)) (inputs (widget_at g k)))"

text \<open>The loop over the inputs of a mixer or selector, with the search one level deeper as an argument.\<close>

fun output_inputs :: "(nat option \<Rightarrow> hda_audio_group \<Rightarrow> bool \<times> bool \<times> hda_audio_group) \<Rightarrow> nat \<Rightarrow> (nat \<times> nat) list \<Rightarrow>
    bool \<Rightarrow> bool \<Rightarrow> hda_audio_group \<Rightarrow> bool \<times> bool \<times> hda_audio_group" where
  "output_inputs search k [] found alreadyUsed g = (found, alreadyUsed, g)"
| "output_inputs search k ((i, nid) # ins) found alreadyUsed g =
     (case search (hda_audio_group_get_widget g nid) g of (f, alreadyUsed, g) \<Rightarrow>
        if f then output_inputs search k ins True alreadyUsed (update_widget k (mark_input WIDGET_FLAG_OUTPUT_PATH i) g)
        else output_inputs search k ins found alreadyUsed g)"

text \<open>The search with \<open>n\<close> levels left: found, already used, and the group.\<close>

primrec output_search :: "nat \<Rightarrow> nat option \<Rightarrow> hda_audio_group \<Rightarrow> bool \<times> bool \<times> hda_audio_group" where
  "output_search 0 w g = (False, False, g)"
| "output_search (Suc n) w g = (case w of None \<Rightarrow> (False, False, g)
     | Some k \<Rightarrow>
        if widget_type (widget_at g k) = WT_AUDIO_OUTPUT then (True, False, update_widget k (mark_leaf WIDGET_FLAG_OUTPUT_PATH) g)
        else if widget_type (widget_at g k) = WT_AUDIO_MIXER \<or> widget_type (widget_at g k) = WT_AUDIO_SELECTOR then
          (if flags (widget_at g k) AND WIDGET_FLAG_OUTPUT_PATH \<noteq> 0 then (False, True, g)
           else output_inputs (output_search n) k (input_list g k) False False g)
        else (False, False, g))"

definition hda_widget_find_output_path :: "nat option \<Rightarrow> nat \<Rightarrow> hda_audio_group \<Rightarrow> bool \<times> bool \<times> hda_audio_group" where
  "hda_widget_find_output_path w depth = output_search (17 - depth) w"

fun input_inputs :: "(nat option \<Rightarrow> hda_audio_group \<Rightarrow> bool \<times> hda_audio_group) \<Rightarrow> nat \<Rightarrow> (nat \<times> nat) list \<Rightarrow>
    bool \<Rightarrow> hda_audio_group \<Rightarrow> bool \<times> hda_audio_group" where
  "input_inputs search k [] found g = (found, g)"
| "input_inputs search k ((i, nid) # ins) found g =
     (case search (hda_audio_group_get_widget g nid) g of (f, g) \<Rightarrow>
        if f then input_inputs search k ins True (update_widget k (mark_input WIDGET_FLAG_INPUT_PATH i) g)
        else input_inputs search k ins found g)"

definition on_any_path :: "hda_widget \<Rightarrow> bool" where
  "on_any_path w \<longleftrightarrow> flags w AND (WIDGET_FLAG_INPUT_PATH OR WIDGET_FLAG_OUTPUT_PATH) \<noteq> 0"

definition is_source_pin :: "hda_widget \<Rightarrow> bool" where
  "is_source_pin w \<longleftrightarrow> widget_type w = WT_PIN_COMPLEX \<and> PIN_CAP_IS_INPUT (pin_capabilities w)
     \<and> CONF_DEFAULT_DEVICE (pin_config w) \<in> {PIN_DEV_CD, PIN_DEV_LINE_IN, PIN_DEV_MIC_IN}"

primrec input_search :: "nat \<Rightarrow> nat option \<Rightarrow> hda_audio_group \<Rightarrow> bool \<times> hda_audio_group" where
  "input_search 0 w g = (False, g)"
| "input_search (Suc n) w g = (case w of None \<Rightarrow> (False, g)
     | Some k \<Rightarrow>
        if widget_type (widget_at g k) = WT_PIN_COMPLEX then
          (if on_any_path (widget_at g k) then (False, g)
           else if is_source_pin (widget_at g k) then (True, update_widget k (mark_leaf WIDGET_FLAG_INPUT_PATH) g)
           else (False, g))
        else if widget_type (widget_at g k) \<in> {WT_AUDIO_INPUT, WT_AUDIO_MIXER, WT_AUDIO_SELECTOR} then
          (if on_any_path (widget_at g k) then (False, g)
           else input_inputs (input_search n) k (input_list g k) False g)
        else (False, g))"

definition hda_widget_find_input_path :: "nat option \<Rightarrow> nat \<Rightarrow> hda_audio_group \<Rightarrow> bool \<times> hda_audio_group" where
  "hda_widget_find_input_path w depth = input_search (17 - depth) w"

section \<open>The trees\<close>

definition is_output_pin :: "hda_widget \<Rightarrow> bool" where
  "is_output_pin w \<longleftrightarrow> widget_type w = WT_PIN_COMPLEX \<and> PIN_CAP_IS_OUTPUT (pin_capabilities w)"

definition is_playback_pin :: "hda_widget \<Rightarrow> bool" where
  "is_playback_pin w \<longleftrightarrow> is_output_pin w
     \<and> CONF_DEFAULT_DEVICE (pin_config w) \<in> {PIN_DEV_HEAD_PHONE_OUT, PIN_DEV_DIGITAL_OTHER_OUT, PIN_DEV_SPEAKER, PIN_DEV_LINE_OUT}"

text \<open>The loop over the inputs of a pin, up to the first that leads somewhere.\<close>

fun output_pin_inputs :: "bool \<Rightarrow> nat \<Rightarrow> (nat \<times> nat) list \<Rightarrow> hda_audio_group \<Rightarrow> bool \<times> hda_audio_group" where
  "output_pin_inputs useMixer k [] g = (False, g)"
| "output_pin_inputs useMixer k ((j, nid) # ins) g =
     (case hda_audio_group_get_widget g nid of None \<Rightarrow> output_pin_inputs useMixer k ins g
      | Some m \<Rightarrow>
         if useMixer \<and> widget_type (widget_at g m) \<noteq> WT_AUDIO_MIXER \<and> widget_type (widget_at g m) \<noteq> WT_AUDIO_SELECTOR
         then output_pin_inputs useMixer k ins g
         else (case hda_widget_find_output_path (Some m) 0 g of (f, alreadyUsed, g) \<Rightarrow>
           if f \<or> CONF_DEFAULT_DEVICE (pin_config (widget_at g k)) = PIN_DEV_HEAD_PHONE_OUT \<and> alreadyUsed
           then (True, update_widget k (mark_input WIDGET_FLAG_OUTPUT_PATH j) g)
           else output_pin_inputs useMixer k ins g))"

definition output_pin_step :: "bool \<Rightarrow> nat \<Rightarrow> bool \<times> hda_audio_group \<Rightarrow> bool \<times> hda_audio_group" where
  "output_pin_step useMixer k s = (case s of (found, g) \<Rightarrow>
     if is_playback_pin (widget_at g k) then (case output_pin_inputs useMixer k (input_list g k) g of (f, g) \<Rightarrow> (found \<or> f, g)) else (found, g))"

definition hda_audio_group_build_output_tree :: "bool \<Rightarrow> hda_audio_group \<Rightarrow> bool \<times> hda_audio_group" where
  "hda_audio_group_build_output_tree useMixer g = fold (output_pin_step useMixer) [0..<widget_count g] (False, g)"

fun input_converter_inputs :: "nat \<Rightarrow> (nat \<times> nat) list \<Rightarrow> hda_audio_group \<Rightarrow> bool \<times> hda_audio_group" where
  "input_converter_inputs k [] g = (False, g)"
| "input_converter_inputs k ((j, nid) # ins) g =
     (case hda_audio_group_get_widget g nid of None \<Rightarrow> input_converter_inputs k ins g
      | Some m \<Rightarrow> (case hda_widget_find_input_path (Some m) 0 g of (f, g) \<Rightarrow>
           if f then (True, update_widget k (mark_input WIDGET_FLAG_INPUT_PATH j) g)
           else input_converter_inputs k ins g))"

definition input_converter_step :: "nat \<Rightarrow> bool \<times> hda_audio_group \<Rightarrow> bool \<times> hda_audio_group" where
  "input_converter_step k s = (case s of (found, g) \<Rightarrow>
     if widget_type (widget_at g k) = WT_AUDIO_INPUT then (case input_converter_inputs k (input_list g k) g of (f, g) \<Rightarrow> (found \<or> f, g)) else (found, g))"

definition hda_audio_group_build_input_tree :: "hda_audio_group \<Rightarrow> bool \<times> hda_audio_group" where
  "hda_audio_group_build_input_tree g = fold input_converter_step [0..<widget_count g] (False, g)"

text \<open>The active connections are selected, then the GPIO pins and the reference voltage of the laptop are set.\<close>

definition select_step :: "'h link \<Rightarrow> hda_codec \<Rightarrow> nat \<Rightarrow> hda_audio_group \<times> 'h \<Rightarrow> hda_audio_group \<times> 'h" where
  "select_step send codec k s = (case s of (g, h) \<Rightarrow>
     let g = update_widget k (\<lambda>w. if active_input w = - 1 then w\<lparr>active_input := 0\<rparr> else w) g;
         w = widget_at g k
     in if num_inputs w < 2 \<or> widget_type w \<notin> {WT_AUDIO_INPUT, WT_AUDIO_SELECTOR, WT_PIN_COMPLEX} then (g, h)
        else (g, tell send [MAKE_VERB (addr codec) (node_id w) VID_SET_CONNECTION_SELECT (of_int (active_input w))] h))"

definition gpio_value :: "hda_codec \<Rightarrow> hda_audio_group \<Rightarrow> 32 word" where
  "gpio_value codec g = fold (\<lambda>i v. if quirks codec AND push_bit i 1 \<noteq> 0 then v OR push_bit i 1 else v)
     [0..<min (GPIO_COUNT_NUM_GPIO (gpio g)) HDA_QUIRK_GPIO_COUNT] 0"

definition set_gpio :: "'h link \<Rightarrow> hda_codec \<Rightarrow> hda_audio_group \<Rightarrow> 'h \<Rightarrow> 'h" where
  "set_gpio send codec g h =
     (let v = gpio_value codec g
      in if v \<noteq> 0 then tell send (map (\<lambda>vid. MAKE_VERB (addr codec) (node_id (group_widget g)) vid v) [VID_SET_GPIO_DATA, VID_SET_GPIO_EN, VID_SET_GPIO_DIR]) h
         else h)"

definition set_vaio_vref :: "'h link \<Rightarrow> hda_codec \<Rightarrow> 'h \<Rightarrow> 'h" where
  "set_vaio_vref send codec h =
     (if quirks codec AND HDA_QUIRK_SONY_VAIO \<noteq> 0
      then tell send [MAKE_VERB (addr codec) 0x19 VID_SET_PIN_WIDGET_CONTROL PIN_ENABLE_VREF_GROUND] h else h)"

definition hda_audio_group_build_tree :: "'h link \<Rightarrow> hda_codec \<Rightarrow> hda_audio_group \<Rightarrow> 'h \<Rightarrow> (status_t \<times> hda_audio_group) \<times> 'h" where
  "hda_audio_group_build_tree send codec g h =
     (let (found, g) = hda_audio_group_build_output_tree True g;
          (found, g) = (if found then (True, g) else hda_audio_group_build_output_tree False g)
      in if \<not> found then ((ENODEV, g), h)
         else let (_, g) = hda_audio_group_build_input_tree g;
                  (g, h) = fold (select_step send codec) [0..<widget_count g] (g, h)
              in ((B_OK, g), set_vaio_vref send codec (set_gpio send codec g h)))"

section \<open>Paths\<close>

text \<open>
  A widget is on a path when it has the flag. It leads to an end when it is an end itself, or when its active input is a widget on the path that
  leads to one.
\<close>

definition on_path :: "32 word \<Rightarrow> hda_audio_group \<Rightarrow> nat \<Rightarrow> bool" where
  "on_path F g k \<longleftrightarrow> flags (widget_at g k) AND F \<noteq> 0"

definition active_widget :: "hda_audio_group \<Rightarrow> nat \<Rightarrow> nat option" where
  "active_widget g k = (let w = widget_at g k in
     if 0 \<le> active_input w \<and> active_input w < int (num_inputs w) then hda_audio_group_get_widget g (inputs w ! nat (active_input w)) else None)"

inductive path_to :: "32 word \<Rightarrow> (hda_widget \<Rightarrow> bool) \<Rightarrow> hda_audio_group \<Rightarrow> nat \<Rightarrow> bool" for F terminal g where
  End: "k < widget_count g \<Longrightarrow> on_path F g k \<Longrightarrow> terminal (widget_at g k) \<Longrightarrow> path_to F terminal g k"
| Via: "k < widget_count g \<Longrightarrow> on_path F g k \<Longrightarrow> active_widget g k = Some j \<Longrightarrow> path_to F terminal g j \<Longrightarrow> path_to F terminal g k"

inductive_cases path_toE: "path_to F terminal g k"

text \<open>What the searches leave alone: everything but the flags and the active inputs.\<close>

definition plain :: "hda_widget \<Rightarrow> hda_widget" where
  "plain w = w\<lparr>flags := 0, active_input := 0\<rparr>"

definition same_shape :: "hda_audio_group \<Rightarrow> hda_audio_group \<Rightarrow> bool" where
  "same_shape g g' \<longleftrightarrow> widget_start g' = widget_start g \<and> widget_count g' = widget_count g \<and> length (widgets g') = length (widgets g) \<and>
     (\<forall>k<length (widgets g). plain (widget_at g' k) = plain (widget_at g k))"

text \<open>The connections stay inside the array: none of them names the node after the last one.\<close>

definition in_range :: "hda_audio_group \<Rightarrow> bool" where
  "in_range g \<longleftrightarrow> length (widgets g) = Suc (widget_count g) \<and>
     (\<forall>k<widget_count g. num_inputs (widget_at g k) \<le> length (inputs (widget_at g k)) \<and>
        (\<forall>i<num_inputs (widget_at g k). inputs (widget_at g k) ! i \<noteq> widget_start g + widget_count g))"

lemma plain_fields:
  assumes "plain w = plain v"
  shows "num_inputs w = num_inputs v" "inputs w = inputs v" "widget_type w = widget_type v" "pin_capabilities w = pin_capabilities v"
    "pin_config w = pin_config v" "node_id w = node_id v" "cap_audio w = cap_audio v" "io_formats w = io_formats v"
  using arg_cong [OF assms, of num_inputs] arg_cong [OF assms, of inputs] arg_cong [OF assms, of widget_type]
    arg_cong [OF assms, of pin_capabilities] arg_cong [OF assms, of pin_config] arg_cong [OF assms, of node_id]
    arg_cong [OF assms, of cap_audio] arg_cong [OF assms, of io_formats] by (simp_all add: plain_def)

lemma same_shape_refl [simp]: "same_shape g g"
  by (simp add: same_shape_def)

lemma same_shape_trans: "same_shape g g' \<Longrightarrow> same_shape g' g'' \<Longrightarrow> same_shape g g''"
  by (simp add: same_shape_def)

lemma same_shape_get: "same_shape g g' \<Longrightarrow> hda_audio_group_get_widget g' = hda_audio_group_get_widget g"
  by (simp add: same_shape_def hda_audio_group_get_widget_def fun_eq_iff)

lemma same_shape_at:
  assumes "same_shape g g'" "k < length (widgets g)"
  shows "num_inputs (widget_at g' k) = num_inputs (widget_at g k)" "inputs (widget_at g' k) = inputs (widget_at g k)"
    "widget_type (widget_at g' k) = widget_type (widget_at g k)" "input_list g' k = input_list g k"
    "pin_config (widget_at g' k) = pin_config (widget_at g k)" "is_playback_pin (widget_at g' k) = is_playback_pin (widget_at g k)"
  using assms plain_fields [of "widget_at g' k" "widget_at g k"]
  by (simp_all add: same_shape_def input_list_def is_playback_pin_def is_output_pin_def)

lemma same_shape_in_range: "same_shape g g' \<Longrightarrow> in_range g \<Longrightarrow> in_range g'"
proof -
  assume s: "same_shape g g'" and r: "in_range g"
  then have "num_inputs (widget_at g' k) = num_inputs (widget_at g k)" "inputs (widget_at g' k) = inputs (widget_at g k)" if "k < widget_count g" for k
    using same_shape_at(1,2) [OF s, of k] that by (simp_all add: in_range_def)
  with s r show "in_range g'"
    by (simp add: in_range_def same_shape_def)
qed

lemma get_widget_less:
  assumes "in_range g" "k < widget_count g" "i < num_inputs (widget_at g k)" "hda_audio_group_get_widget g (inputs (widget_at g k) ! i) = Some j"
  shows "j < widget_count g"
proof -
  have "inputs (widget_at g k) ! i \<noteq> widget_start g + widget_count g"
    using assms(1-3) by (simp add: in_range_def)
  then show ?thesis
    using assms(4) by (auto simp: hda_audio_group_get_widget_def split: if_splits)
qed

lemma widget_at_update: "k < length (widgets g) \<Longrightarrow> widget_at (update_widget k f g) m = (if m = k then f (widget_at g k) else widget_at g m)"
  by (auto simp: widget_at_def update_widget_def)

lemma update_widget_simps [simp]: "widget_count (update_widget k f g) = widget_count g" "widget_start (update_widget k f g) = widget_start g"
  "length (widgets (update_widget k f g)) = length (widgets g)" "hda_audio_group_get_widget (update_widget k f g) = hda_audio_group_get_widget g"
  by (simp_all add: update_widget_def hda_audio_group_get_widget_def fun_eq_iff)

lemma same_shape_update: "k < length (widgets g) \<Longrightarrow> plain (f (widget_at g k)) = plain (widget_at g k) \<Longrightarrow> same_shape g (update_widget k f g)"
  by (simp add: same_shape_def widget_at_update)

lemma plain_mark [simp]: "plain (mark_input F i w) = plain w" "plain (mark_leaf F w) = plain w"
  by (simp_all add: plain_def mark_input_def mark_leaf_def)

lemma input_list_mem: "(i, nid) \<in> set (input_list g k) \<Longrightarrow> num_inputs (widget_at g k) \<le> length (inputs (widget_at g k)) \<Longrightarrow>
    i < num_inputs (widget_at g k) \<and> nid = inputs (widget_at g k) ! i"
  by (auto simp: input_list_def in_set_enumerate_eq)

text \<open>
  One step of a search: an end gets the flag, a widget gets it with an input on the path, or a widget that is exempt gets it. \<open>E\<close> are flags of other
  paths, whose widgets stay as they are.
\<close>

inductive path_step :: "32 word \<Rightarrow> 32 word \<Rightarrow> (hda_widget \<Rightarrow> bool) \<Rightarrow> (hda_widget \<Rightarrow> bool) \<Rightarrow> (hda_widget \<Rightarrow> bool) \<Rightarrow>
    hda_audio_group \<Rightarrow> hda_audio_group \<Rightarrow> bool" for F E terminal inner exempt where
  Leaf: "k < widget_count g \<Longrightarrow> terminal (widget_at g k) \<Longrightarrow> path_step F E terminal inner exempt g (update_widget k (mark_leaf F) g)"
| Inner: "k < widget_count g \<Longrightarrow> inner (widget_at g k) \<Longrightarrow> i < num_inputs (widget_at g k) \<Longrightarrow>
    hda_audio_group_get_widget g (inputs (widget_at g k) ! i) = Some j \<Longrightarrow> on_path F g j \<Longrightarrow> \<not> exempt (widget_at g j) \<Longrightarrow>
    flags (widget_at g k) AND E = 0 \<Longrightarrow> path_step F E terminal inner exempt g (update_widget k (mark_input F i) g)"
| Exempt: "k < widget_count g \<Longrightarrow> exempt (widget_at g k) \<Longrightarrow> path_step F E terminal inner exempt g (update_widget k (mark_input F i) g)"

text \<open>The invariant: what is on the path leads to an end, and what is on no path has no active input that was chosen.\<close>

definition paths_good :: "32 word \<Rightarrow> 32 word \<Rightarrow> (hda_widget \<Rightarrow> bool) \<Rightarrow> (hda_widget \<Rightarrow> bool) \<Rightarrow> (hda_widget \<Rightarrow> bool) \<Rightarrow> hda_audio_group \<Rightarrow> bool" where
  "paths_good F E terminal inner exempt g \<longleftrightarrow> (\<forall>k<widget_count g.
     (on_path F g k \<longrightarrow> \<not> exempt (widget_at g k) \<longrightarrow> path_to F terminal g k) \<and>
     (on_path F g k \<longrightarrow> terminal (widget_at g k) \<or> inner (widget_at g k) \<or> exempt (widget_at g k)) \<and>
     (\<not> on_path F g k \<longrightarrow> flags (widget_at g k) AND E = 0 \<longrightarrow>
        active_input (widget_at g k) = - 1 \<or> num_inputs (widget_at g k) = 1 \<and> active_input (widget_at g k) = 0))"

lemma word_and_or_nonzero: "(a::32 word) AND m \<noteq> 0 \<Longrightarrow> (a OR b) AND m \<noteq> 0"
  by (metis bit.conj_disj_distrib2 or_eq_0_iff)

lemma on_path_mark:
  assumes "on_path F g m" "k < length (widgets g)"
  shows "on_path F (update_widget k (mark_input F' i) g) m" "on_path F (update_widget k (mark_leaf F') g) m"
  using assms word_and_or_nonzero by (auto simp: on_path_def widget_at_update mark_input_def mark_leaf_def)

lemma path_step_shape: "path_step F E terminal inner exempt g g' \<Longrightarrow> in_range g \<Longrightarrow> same_shape g g'"
  by (erule path_step.cases) (auto intro!: same_shape_update simp: in_range_def)

lemma path_steps_shape: "(path_step F E terminal inner exempt)\<^sup>*\<^sup>* g g' \<Longrightarrow> in_range g \<Longrightarrow> same_shape g g'"
proof (induction rule: rtranclp_induct)
  case (step g' g'')
  then show ?case
    using path_step_shape same_shape_in_range same_shape_trans by blast
qed simp

lemma path_step_form: "path_step F E terminal inner exempt g g' \<Longrightarrow>
    \<exists>k f. g' = update_widget k f g \<and> k < widget_count g \<and> (f = mark_leaf F \<or> (\<exists>i. f = mark_input F i))"
  by (erule path_step.cases) blast+

text \<open>Flags of other kinds are left alone.\<close>

lemma path_step_mask:
  assumes "path_step F E terminal inner exempt g g'" "in_range g" "F AND M = 0"
  shows "flags (widget_at g' m) AND M = flags (widget_at g m) AND M"
  using path_step_form [OF assms(1)] assms(2,3) by (auto simp: widget_at_update mark_leaf_def mark_input_def in_range_def bit.conj_disj_distrib2)

lemma path_steps_mask:
  "(path_step F E terminal inner exempt)\<^sup>*\<^sup>* g g' \<Longrightarrow> in_range g \<Longrightarrow> F AND M = 0 \<Longrightarrow> flags (widget_at g' m) AND M = flags (widget_at g m) AND M"
proof (induction rule: rtranclp_induct)
  case (step g' g'')
  then show ?case
    using path_step_mask [OF step(2) _ step(5)] path_steps_shape [OF step(1,4)] same_shape_in_range [OF _ step(4)] by simp
qed simp

text \<open>What leads somewhere still does after a step, whatever flags the step is about.\<close>

lemma step_flags_active:
  assumes "path_step F E terminal inner exempt g g'" "in_range g" "m < widget_count g"
  shows "on_path F' g m \<Longrightarrow> on_path F' g' m" "0 \<le> active_input (widget_at g m) \<Longrightarrow> active_input (widget_at g' m) = active_input (widget_at g m)"
proof -
  obtain k f where "g' = update_widget k f g" "k < length (widgets g)" "f = mark_leaf F \<or> (\<exists>i. f = mark_input F i)"
    using path_step_form [OF assms(1)] assms(2) by (metis in_range_def less_SucI)
  then show "on_path F' g m \<Longrightarrow> on_path F' g' m" "0 \<le> active_input (widget_at g m) \<Longrightarrow> active_input (widget_at g' m) = active_input (widget_at g m)"
    using on_path_mark by (auto simp: widget_at_update mark_leaf_def mark_input_def)
qed

lemma steps_flags_active:
  assumes "(path_step F E terminal inner exempt)\<^sup>*\<^sup>* g g'" "in_range g" "m < widget_count g"
  shows "(on_path F' g m \<longrightarrow> on_path F' g' m) \<and> (0 \<le> active_input (widget_at g m) \<longrightarrow> active_input (widget_at g' m) = active_input (widget_at g m))"
  using assms(1)
proof induction
  case (step g' g'')
  have "in_range g'" "m < widget_count g'"
    using path_steps_shape [OF step(1) assms(2)] same_shape_in_range assms(2,3) by (blast, simp add: same_shape_def)
  then show ?case
    using step(3) step_flags_active [OF step(2)] by metis
qed simp

lemma active_widget_nonneg: "active_widget g k = Some j \<Longrightarrow> 0 \<le> active_input (widget_at g k)"
  by (auto simp: active_widget_def Let_def split: if_splits)

lemma path_to_kept:
  assumes "path_to F terminal g k" "in_range g" "same_shape g g'"
    and "\<And>w v. plain w = plain v \<Longrightarrow> terminal w = terminal v"
    and "\<And>m. m < widget_count g \<Longrightarrow> on_path F g m \<Longrightarrow> on_path F g' m"
    and "\<And>m. m < widget_count g \<Longrightarrow> 0 \<le> active_input (widget_at g m) \<Longrightarrow> active_input (widget_at g' m) = active_input (widget_at g m)"
  shows "path_to F terminal g' k"
  using assms(1)
proof induction
  case (End k)
  have "plain (widget_at g' k) = plain (widget_at g k)"
    using End(1) assms(2,3) by (simp add: in_range_def same_shape_def)
  then have "terminal (widget_at g' k) = terminal (widget_at g k)"
    by (rule assms(4))
  with End(3) have "terminal (widget_at g' k)"
    by simp
  then show ?case
    using End(1,2) assms(3,5) by (intro path_to.End) (auto simp: same_shape_def)
next
  case (Via k j)
  have k: "k < length (widgets g)"
    using Via(1) assms(2) by (simp add: in_range_def)
  have "active_widget g' k = active_widget g k"
    using assms(6) [OF Via(1) active_widget_nonneg [OF Via(3)]] same_shape_at(1,2) [OF assms(3) k] same_shape_get [OF assms(3)]
    by (simp add: active_widget_def Let_def)
  then show ?case
    using Via(1,2,3,5) assms(3,5) by (intro path_to.Via [of k g' F j]) (simp_all add: same_shape_def)
qed

text \<open>The loop over the inputs of a widget in both searches, without the second result of the one for the outputs.\<close>

fun mark_inputs :: "32 word \<Rightarrow> (nat option \<Rightarrow> hda_audio_group \<Rightarrow> bool \<times> hda_audio_group) \<Rightarrow> nat \<Rightarrow> (nat \<times> nat) list \<Rightarrow>
    bool \<Rightarrow> hda_audio_group \<Rightarrow> bool \<times> hda_audio_group" where
  "mark_inputs F search k [] found g = (found, g)"
| "mark_inputs F search k ((i, nid) # ins) found g =
     (case search (hda_audio_group_get_widget g nid) g of (f, g) \<Rightarrow>
        if f then mark_inputs F search k ins True (update_widget k (mark_input F i) g)
        else mark_inputs F search k ins found g)"

definition without_used :: "('w \<Rightarrow> 'g \<Rightarrow> bool \<times> bool \<times> 'g) \<Rightarrow> 'w \<Rightarrow> 'g \<Rightarrow> bool \<times> 'g" where
  "without_used search w g = (case search w g of (f, used, g) \<Rightarrow> (f, g))"

lemma input_inputs_mark: "input_inputs search k ins found g = mark_inputs WIDGET_FLAG_INPUT_PATH search k ins found g"
  by (induction search k ins found g rule: input_inputs.induct) (auto split: prod.split)

lemma output_inputs_mark: "without_used (\<lambda>found g. output_inputs search k ins found used g) found g
    = mark_inputs WIDGET_FLAG_OUTPUT_PATH (without_used search) k ins found g"
  by (induction search k ins found used g rule: output_inputs.induct) (auto simp: without_used_def split: prod.split)

text \<open>What the searches for either direction share: the kinds of widgets depend on nothing the searches change.\<close>

locale path_flags =
  fixes F E :: "32 word" and terminal inner exempt :: "hda_widget \<Rightarrow> bool"
  assumes plain_kinds: "plain w = plain v \<Longrightarrow> terminal w = terminal v \<and> inner w = inner v \<and> exempt w = exempt v"
    and apart: "inner w \<Longrightarrow> \<not> exempt w"
    and flag: "F \<noteq> 0" "F AND E = 0"
begin

lemma marked: "(x OR F) AND F \<noteq> 0"
  using flag(1) by (metis word_and_or_nonzero and.idem or.commute)

lemma kinds_kept:
  assumes "same_shape g g'" "m < length (widgets g)"
  shows "terminal (widget_at g' m) = terminal (widget_at g m)" "inner (widget_at g' m) = inner (widget_at g m)"
    "exempt (widget_at g' m) = exempt (widget_at g m)"
  using plain_kinds [of "widget_at g' m" "widget_at g m"] assms by (auto simp: same_shape_def)

lemma step_path_to:
  assumes "path_step F E terminal inner exempt g g'" "in_range g" "path_to F terminal g k"
  shows "path_to F terminal g' k"
proof (rule path_to_kept [OF assms(3,2) path_step_shape [OF assms(1,2)]])
  show "terminal w = terminal v" if "plain w = plain v" for w v
    using plain_kinds [OF that] by blast
qed (use step_flags_active [OF assms(1,2)] in blast)+

lemma inner_path:
  assumes "k < widget_count g" "inner (widget_at g k)" "i < num_inputs (widget_at g k)" "in_range g" "j < widget_count g"
    and "hda_audio_group_get_widget g (inputs (widget_at g k) ! i) = Some j" "on_path F g j" "\<not> exempt (widget_at g j)"
    and "flags (widget_at g k) AND E = 0" "paths_good F E terminal inner exempt g"
  defines "g' \<equiv> update_widget k (mark_input F i) g"
  assumes "path_to F terminal g' j"
  shows "path_to F terminal g' k"
proof (cases "path_to F terminal g k")
  case True
  have "path_step F E terminal inner exempt g g'"
    unfolding g'_def using assms(1-3,6-9) by (rule path_step.Inner)
  then show ?thesis
    using step_path_to [OF _ assms(4) True] by simp
next
  case False
  have k: "k < length (widgets g)"
    using assms(1,4) by (simp add: in_range_def)
  show ?thesis
  proof (cases "on_path F g k")
    case True
    then show ?thesis
      using False assms(1,2,10) apart by (auto simp: paths_good_def)
  next
    case off: False
    then have "active_input (widget_at g k) = - 1 \<or> num_inputs (widget_at g k) = 1 \<and> active_input (widget_at g k) = 0"
      using assms(1,9,10) by (auto simp: paths_good_def)
    then have "active_input (widget_at g' k) = int i"
      using assms(3) k by (auto simp: g'_def widget_at_update mark_input_def)
    then have "active_widget g' k = Some j"
      using assms(3,6) k by (simp add: active_widget_def Let_def g'_def widget_at_update mark_input_def)
    moreover have "on_path F g' k"
      using marked k by (simp add: on_path_def g'_def widget_at_update mark_input_def)
    moreover have "k < widget_count g'"
      using assms(1) by (simp add: g'_def)
    ultimately show ?thesis
      using assms(12) by (blast intro: path_to.Via)
  qed
qed

lemma step_new:
  assumes "path_step F E terminal inner exempt g g'" "in_range g" "paths_good F E terminal inner exempt g"
  shows "\<exists>k f. g' = update_widget k f g \<and> k < widget_count g \<and> (f = mark_leaf F \<or> (\<exists>i. f = mark_input F i)) \<and>
     (exempt (widget_at g k) \<or> path_to F terminal g' k) \<and> (terminal (widget_at g k) \<or> inner (widget_at g k) \<or> exempt (widget_at g k))"
  using assms(1)
proof (cases rule: path_step.cases)
  case (Leaf k)
  have k: "k < length (widgets g)"
    using Leaf(2) assms(2) by (simp add: in_range_def)
  have "path_to F terminal g' k"
    using marked Leaf(2,3) k kinds_kept(1) [OF path_step_shape [OF assms(1,2)] k]
    by (intro path_to.End) (simp_all add: Leaf(1) on_path_def widget_at_update mark_leaf_def)
  then show ?thesis
    using Leaf by blast
next
  case (Inner k i j)
  have j: "j < widget_count g"
    using get_widget_less [OF assms(2) Inner(2,4,5)] .
  then have "path_to F terminal g j"
    using assms(3) Inner(6,7) by (simp add: paths_good_def)
  then have "path_to F terminal g' j"
    by (rule step_path_to [OF assms(1,2)])
  then have "path_to F terminal g' k"
    using inner_path [OF Inner(2-4) assms(2) j Inner(5-8) assms(3)] by (simp add: Inner(1))
  then show ?thesis
    using Inner by blast
qed blast

lemma step_good:
  assumes "path_step F E terminal inner exempt g g'" "in_range g" "paths_good F E terminal inner exempt g"
  shows "paths_good F E terminal inner exempt g'"
proof -
  note shape = path_step_shape [OF assms(1,2)]
  obtain k f where k: "g' = update_widget k f g" "k < widget_count g" "f = mark_leaf F \<or> (\<exists>i. f = mark_input F i)"
    and new: "exempt (widget_at g k) \<or> path_to F terminal g' k" "terminal (widget_at g k) \<or> inner (widget_at g k) \<or> exempt (widget_at g k)"
    using step_new [OF assms] by blast
  then have kl: "k < length (widgets g)"
    using assms(2) by (simp add: in_range_def)
  have on: "on_path F g' k"
    using k(3) marked kl by (auto simp: k(1) on_path_def widget_at_update mark_leaf_def mark_input_def)
  show ?thesis
    unfolding paths_good_def
  proof (intro allI impI conjI)
    fix m
    assume m: "m < widget_count g'"
    then have ml: "m < widget_count g" "m < length (widgets g)"
      using shape assms(2) by (simp_all add: same_shape_def in_range_def)
    note kinds = kinds_kept [OF shape ml(2)]
    have old: "on_path F g' m \<longleftrightarrow> on_path F g m" "flags (widget_at g' m) = flags (widget_at g m)"
        "active_input (widget_at g' m) = active_input (widget_at g m)" if "m \<noteq> k"
      using that kl by (simp_all add: k(1) on_path_def widget_at_update)
    show "path_to F terminal g' m" if "on_path F g' m" "\<not> exempt (widget_at g' m)"
    proof (cases "m = k")
      case False
      then have "path_to F terminal g m"
        using that old(1) kinds(3) assms(3) ml(1) by (simp add: paths_good_def)
      then show ?thesis
        using step_path_to [OF assms(1,2)] by blast
    qed (use new that kinds(3) in blast)
    show "terminal (widget_at g' m) \<or> inner (widget_at g' m) \<or> exempt (widget_at g' m)" if "on_path F g' m"
      using that new old(1) kinds assms(3) ml(1) by (cases "m = k") (auto simp: paths_good_def)
    show "active_input (widget_at g' m) = - 1 \<or> num_inputs (widget_at g' m) = 1 \<and> active_input (widget_at g' m) = 0"
      if "\<not> on_path F g' m" "flags (widget_at g' m) AND E = 0"
      using that on old same_shape_at(1) [OF shape ml(2)] assms(3) ml(1) by (cases "m = k") (auto simp: paths_good_def)
  qed
qed

lemma steps_good:
  assumes "(path_step F E terminal inner exempt)\<^sup>*\<^sup>* g g'" "in_range g" "paths_good F E terminal inner exempt g"
  shows "paths_good F E terminal inner exempt g'"
  using assms(1)
proof induction
  case (step g' g'')
  then show ?case
    using step_good path_steps_shape [OF step(1) assms(2)] same_shape_in_range assms(2) by blast
qed (rule assms(3))

lemmas step_other_flags = path_step_mask [OF _ _ flag(2)]
lemmas steps_other_flags = path_steps_mask [OF _ _ flag(2)]

text \<open>What a search promises to its caller, and what the loop over the inputs makes of it.\<close>

definition found_in :: "nat option \<Rightarrow> hda_audio_group \<Rightarrow> bool \<Rightarrow> hda_audio_group \<Rightarrow> bool" where
  "found_in w g f g' \<longleftrightarrow> (path_step F E terminal inner exempt)\<^sup>*\<^sup>* g g' \<and>
     (f \<longrightarrow> (\<exists>k. w = Some k \<and> on_path F g' k \<and> \<not> exempt (widget_at g' k)))"

lemma mark_inputs_found:
  assumes search: "\<And>w g. in_range g \<Longrightarrow> (\<And>k. w = Some k \<Longrightarrow> k < widget_count g) \<Longrightarrow>
      found_in w g (fst (search w g)) (snd (search w g))"
  shows "in_range g \<Longrightarrow> k < widget_count g \<Longrightarrow> set ins \<subseteq> set (input_list g k) \<Longrightarrow> inner (widget_at g k) \<Longrightarrow>
    flags (widget_at g k) AND E = 0 \<Longrightarrow> mark_inputs F search k ins found g = (f, g') \<Longrightarrow>
    (path_step F E terminal inner exempt)\<^sup>*\<^sup>* g g' \<and> (f \<longrightarrow> found \<or> on_path F g' k)"
proof (induction ins arbitrary: found g)
  case (Cons x ins)
  obtain i nid where x: "x = (i, nid)"
    by fastforce
  obtain f1 g1 where s: "search (hda_audio_group_get_widget g nid) g = (f1, g1)"
    by fastforce
  have i: "i < num_inputs (widget_at g k)" "nid = inputs (widget_at g k) ! i"
    using input_list_mem [of i nid g k] Cons.prems(1-3) by (auto simp: x in_range_def)
  have found1: "found_in (hda_audio_group_get_widget g nid) g f1 g1"
    using search [of g "hda_audio_group_get_widget g nid"] get_widget_less [OF Cons.prems(1,2) i(1)] Cons.prems(1) i(2) s by auto
  then have shape: "same_shape g g1"
    using path_steps_shape Cons.prems(1) by (auto simp: found_in_def)
  have kl: "k < length (widgets g)"
    using Cons.prems(1,2) by (simp add: in_range_def)
  note at = same_shape_at [OF shape kl]
  have inner1: "inner (widget_at g1 k)"
    using kinds_kept(2) [OF shape kl] Cons.prems(4) by simp
  have free: "flags (widget_at g1 k) AND E = 0"
    using steps_other_flags [OF conjunct1 [OF found1 [unfolded found_in_def]] Cons.prems(1), where m = k] Cons.prems(5) by simp
  have g1: "in_range g1" "k < widget_count g1" "set ins \<subseteq> set (input_list g1 k)"
    using same_shape_in_range [OF shape] Cons.prems(1-3) shape at(4) by (auto simp: same_shape_def)
  show ?case
  proof (cases f1)
    case False
    then have "mark_inputs F search k ins found g1 = (f, g')"
      using Cons.prems(6) by (simp add: x s)
    with Cons.IH [OF g1 inner1 free] found1 show ?thesis
      unfolding found_in_def by (meson rtranclp_trans)
  next
    case True
    then obtain j where j: "hda_audio_group_get_widget g nid = Some j" "on_path F g1 j" "\<not> exempt (widget_at g1 j)"
      using found1 by (auto simp: found_in_def)
    let ?g2 = "update_widget k (mark_input F i) g1"
    have step: "path_step F E terminal inner exempt g1 ?g2"
      using g1(2) inner1 i at(1,2) j free same_shape_get [OF shape] by (intro path_step.Inner) auto
    then have shape2: "same_shape g1 ?g2"
      using path_step_shape g1(1) by blast
    have kl1: "k < length (widgets g1)"
      using g1(1,2) by (simp add: in_range_def)
    have "in_range ?g2" "k < widget_count ?g2" "set ins \<subseteq> set (input_list ?g2 k)" "inner (widget_at ?g2 k)"
      using same_shape_in_range [OF shape2 g1(1)] g1(2,3) same_shape_at(4) [OF shape2 kl1] kinds_kept(2) [OF shape2 kl1] inner1 by simp_all
    moreover have "mark_inputs F search k ins True ?g2 = (f, g')"
      using Cons.prems(6) True by (simp add: x s)
    ultimately have "(path_step F E terminal inner exempt)\<^sup>*\<^sup>* ?g2 g'"
      using Cons.IH [of ?g2 True] step_other_flags [OF step g1(1), where m = k] free by simp
    moreover have "on_path F ?g2 k"
      using marked kl1 by (simp add: on_path_def widget_at_update mark_input_def)
    ultimately have "on_path F g' k"
      using steps_flags_active [of _ _ _ _ _ ?g2 g' k] \<open>in_range ?g2\<close> \<open>k < widget_count ?g2\<close> by blast
    then show ?thesis
      using found1 step \<open>(path_step F E terminal inner exempt)\<^sup>*\<^sup>* ?g2 g'\<close> unfolding found_in_def by (meson rtranclp.rtrancl_into_rtrancl rtranclp_trans)
  qed
qed simp

end

section \<open>What the searches mark\<close>

definition output_inner :: "hda_widget \<Rightarrow> bool" where
  "output_inner w \<longleftrightarrow> widget_type w = WT_AUDIO_MIXER \<or> widget_type w = WT_AUDIO_SELECTOR
     \<or> is_playback_pin w \<and> CONF_DEFAULT_DEVICE (pin_config w) \<noteq> PIN_DEV_HEAD_PHONE_OUT"

definition headphone_pin :: "hda_widget \<Rightarrow> bool" where
  "headphone_pin w \<longleftrightarrow> is_playback_pin w \<and> CONF_DEFAULT_DEVICE (pin_config w) = PIN_DEV_HEAD_PHONE_OUT"

definition output_converter :: "hda_widget \<Rightarrow> bool" where
  "output_converter w \<longleftrightarrow> widget_type w = WT_AUDIO_OUTPUT"

definition input_inner :: "hda_widget \<Rightarrow> bool" where
  "input_inner w \<longleftrightarrow> widget_type w \<in> {WT_AUDIO_INPUT, WT_AUDIO_MIXER, WT_AUDIO_SELECTOR}"

interpretation output_paths: path_flags WIDGET_FLAG_OUTPUT_PATH 0 output_converter output_inner headphone_pin
proof unfold_locales
  fix w v :: hda_widget
  show "output_converter w = output_converter v \<and> output_inner w = output_inner v \<and> headphone_pin w = headphone_pin v" if "plain w = plain v"
    using plain_fields [OF that] by (simp add: output_converter_def output_inner_def headphone_pin_def is_playback_pin_def is_output_pin_def)
qed (auto simp: output_inner_def headphone_pin_def is_playback_pin_def is_output_pin_def WIDGET_FLAG_OUTPUT_PATH_def)

interpretation input_paths: path_flags WIDGET_FLAG_INPUT_PATH WIDGET_FLAG_OUTPUT_PATH is_source_pin input_inner "\<lambda>_. False"
proof unfold_locales
  fix w v :: hda_widget
  show "is_source_pin w = is_source_pin v \<and> input_inner w = input_inner v \<and> False = False" if "plain w = plain v"
    using plain_fields [OF that] by (simp add: is_source_pin_def input_inner_def)
qed (auto simp: WIDGET_FLAG_INPUT_PATH_def WIDGET_FLAG_OUTPUT_PATH_def)

abbreviation output_steps :: "hda_audio_group \<Rightarrow> hda_audio_group \<Rightarrow> bool" where
  "output_steps \<equiv> (path_step WIDGET_FLAG_OUTPUT_PATH 0 output_converter output_inner headphone_pin)\<^sup>*\<^sup>*"

abbreviation input_steps :: "hda_audio_group \<Rightarrow> hda_audio_group \<Rightarrow> bool" where
  "input_steps \<equiv> (path_step WIDGET_FLAG_INPUT_PATH WIDGET_FLAG_OUTPUT_PATH is_source_pin input_inner (\<lambda>_. False))\<^sup>*\<^sup>*"


lemma output_search_found:
  "in_range g \<Longrightarrow> (\<And>k. w = Some k \<Longrightarrow> k < widget_count g) \<Longrightarrow>
     output_paths.found_in w g (fst (without_used (output_search n) w g)) (snd (without_used (output_search n) w g))"
proof (induction n arbitrary: w g)
  case 0
  then show ?case by (simp add: output_paths.found_in_def without_used_def)
next
  case (Suc n)
  show ?case
  proof (cases w)
    case None
    then show ?thesis by (simp add: output_paths.found_in_def without_used_def)
  next
    case (Some k)
    then have k: "k < widget_count g" "k < length (widgets g)"
      using Suc.prems by (auto simp: in_range_def)
    consider (leaf) "widget_type (widget_at g k) = WT_AUDIO_OUTPUT"
      | (inner) "widget_type (widget_at g k) = WT_AUDIO_MIXER \<or> widget_type (widget_at g k) = WT_AUDIO_SELECTOR"
      | (other) "widget_type (widget_at g k) \<notin> {WT_AUDIO_OUTPUT, WT_AUDIO_MIXER, WT_AUDIO_SELECTOR}"
      by blast
    then show ?thesis
    proof cases
      case leaf
      let ?g = "update_widget k (mark_leaf WIDGET_FLAG_OUTPUT_PATH) g"
      have "output_steps g ?g"
        using k leaf by (intro r_into_rtranclp path_step.Leaf) (simp_all add: output_converter_def)
      moreover have "on_path WIDGET_FLAG_OUTPUT_PATH ?g k" "\<not> headphone_pin (widget_at ?g k)"
        using output_paths.marked k(2) leaf
        by (simp_all add: on_path_def widget_at_update mark_leaf_def headphone_pin_def is_playback_pin_def is_output_pin_def)
      ultimately show ?thesis
        by (simp add: Some leaf output_paths.found_in_def without_used_def)
    next
      case inner
      have i: "output_inner (widget_at g k)" "\<not> headphone_pin (widget_at g k)"
        using inner by (auto simp: output_inner_def headphone_pin_def is_playback_pin_def is_output_pin_def)
      obtain f u g' where r: "output_inputs (output_search n) k (input_list g k) False False g = (f, u, g')"
        by (metis prod_cases3)
      have "mark_inputs WIDGET_FLAG_OUTPUT_PATH (without_used (output_search n)) k (input_list g k) False g = (f, g')"
        using output_inputs_mark [of "output_search n" k "input_list g k" False False g] by (simp add: without_used_def r)
      then have steps: "output_steps g g' \<and> (f \<longrightarrow> False \<or> on_path WIDGET_FLAG_OUTPUT_PATH g' k)"
        using output_paths.mark_inputs_found [OF Suc.IH Suc.prems(1) k(1) order_refl i(1), of False f g'] by simp
      moreover have "\<not> headphone_pin (widget_at g' k)"
        using i(2) output_paths.kinds_kept(3) [OF path_steps_shape [OF conjunct1 [OF steps] Suc.prems(1)] k(2)] by simp
      ultimately show ?thesis
        using inner by (auto simp: Some r output_paths.found_in_def without_used_def)
    next
      case other
      then show ?thesis
        by (simp add: Some output_paths.found_in_def without_used_def)
    qed
  qed
qed

lemma if_if_cases: "(if A then x else if B then y else z) = w \<Longrightarrow> (x = w \<Longrightarrow> P) \<Longrightarrow> (B \<Longrightarrow> y = w \<Longrightarrow> P) \<Longrightarrow> (z = w \<Longrightarrow> P) \<Longrightarrow> P"
  by (simp split: if_splits)

lemma output_pin_inputs_steps:
  "in_range g \<Longrightarrow> k < widget_count g \<Longrightarrow> set ins \<subseteq> set (input_list g k) \<Longrightarrow> is_playback_pin (widget_at g k) \<Longrightarrow>
    output_pin_inputs useMixer k ins g = (f, g') \<Longrightarrow> output_steps g g' \<and> (f \<longrightarrow> on_path WIDGET_FLAG_OUTPUT_PATH g' k)"
proof (induction ins arbitrary: g)
  case (Cons x ins)
  obtain i nid where x: "x = (i, nid)"
    by fastforce
  have i: "i < num_inputs (widget_at g k)" "nid = inputs (widget_at g k) ! i"
    using input_list_mem [of i nid g k] Cons.prems(1-3) by (auto simp: x in_range_def)
  have kl: "k < length (widgets g)"
    using Cons.prems(1,2) by (simp add: in_range_def)
  show ?case
  proof (cases "hda_audio_group_get_widget g nid")
    case None
    then show ?thesis
      using Cons by (simp add: x)
  next
    case (Some m)
    obtain f1 u1 g1 where s: "hda_widget_find_output_path (Some m) 0 g = (f1, u1, g1)"
      by (metis prod_cases3)
    have m: "m < widget_count g"
      using get_widget_less [OF Cons.prems(1,2) i(1)] Some i(2) by simp
    then have found1: "output_paths.found_in (Some m) g f1 g1"
      using output_search_found [of g "Some m" 17] Cons.prems(1) s by (auto simp: hda_widget_find_output_path_def without_used_def)
    then have shape: "same_shape g g1"
      using path_steps_shape Cons.prems(1) by (auto simp: output_paths.found_in_def)
    have g1: "in_range g1" "k < widget_count g1" "set ins \<subseteq> set (input_list g1 k)" "is_playback_pin (widget_at g1 k)"
      using same_shape_in_range [OF shape] Cons.prems(1-4) shape same_shape_at [OF shape kl] by (auto simp: same_shape_def)
    have kl1: "k < length (widgets g1)"
      using g1(1,2) by (simp add: in_range_def)
    let ?head = "CONF_DEFAULT_DEVICE (pin_config (widget_at g1 k)) = PIN_DEV_HEAD_PHONE_OUT"
    let ?g2 = "update_widget k (mark_input WIDGET_FLAG_OUTPUT_PATH i) g1"
    have step: "path_step WIDGET_FLAG_OUTPUT_PATH 0 output_converter output_inner headphone_pin g1 ?g2" if "f1 \<or> ?head \<and> u1"
    proof (cases ?head)
      case True
      then show ?thesis
        using g1 by (intro path_step.Exempt) (simp_all add: headphone_pin_def)
    next
      case False
      then have "f1"
        using that by blast
      then have "on_path WIDGET_FLAG_OUTPUT_PATH g1 m" "\<not> headphone_pin (widget_at g1 m)"
        using found1 by (auto simp: output_paths.found_in_def)
      then show ?thesis
        using False g1(2,4) i Some same_shape_at(1,2) [OF shape kl] same_shape_get [OF shape]
        by (intro path_step.Inner [of k g1 output_inner i m]) (simp_all add: output_inner_def)
    qed
    have on: "on_path WIDGET_FLAG_OUTPUT_PATH ?g2 k"
      using output_paths.marked kl1 by (simp add: on_path_def widget_at_update mark_input_def)
    have r: "output_pin_inputs useMixer k (x # ins) g
        = (if useMixer \<and> widget_type (widget_at g m) \<noteq> WT_AUDIO_MIXER \<and> widget_type (widget_at g m) \<noteq> WT_AUDIO_SELECTOR
           then output_pin_inputs useMixer k ins g
           else if f1 \<or> ?head \<and> u1 then (True, ?g2) else output_pin_inputs useMixer k ins g1)"
      by (simp add: x Some s)
    from Cons.prems(5) [unfolded r] show ?thesis
    proof (rule if_if_cases)
      assume "output_pin_inputs useMixer k ins g = (f, g')"
      then show ?thesis using Cons by simp
    next
      assume b: "f1 \<or> ?head \<and> u1" and e: "(True, ?g2) = (f, g')"
      have "output_steps g ?g2"
        using found1 step [OF b] unfolding output_paths.found_in_def by (meson rtranclp.rtrancl_into_rtrancl)
      then show ?thesis
        using on e by simp
    next
      assume "output_pin_inputs useMixer k ins g1 = (f, g')"
      then show ?thesis
        using Cons.IH [OF g1] found1 unfolding output_paths.found_in_def by (meson rtranclp_trans)
    qed
  qed
qed simp

lemma output_tree_steps:
  assumes "in_range g" "hda_audio_group_build_output_tree useMixer g = (f, g')"
  shows "output_steps g g' \<and> (f \<longrightarrow> (\<exists>k<widget_count g. is_playback_pin (widget_at g' k) \<and> on_path WIDGET_FLAG_OUTPUT_PATH g' k))"
proof -
  have "output_steps g (snd (fold (output_pin_step useMixer) ks (False, g))) \<and>
      (fst (fold (output_pin_step useMixer) ks (False, g)) \<longrightarrow> (\<exists>k<widget_count g. is_playback_pin (widget_at (snd (fold (output_pin_step useMixer) ks (False, g))) k)
         \<and> on_path WIDGET_FLAG_OUTPUT_PATH (snd (fold (output_pin_step useMixer) ks (False, g))) k))"
    if "set ks \<subseteq> {..<widget_count g}" for ks
    using that
  proof (induction ks rule: rev_induct)
    case (snoc k ks)
    obtain f1 g1 where p: "fold (output_pin_step useMixer) ks (False, g) = (f1, g1)"
      by fastforce
    have s1: "output_steps g g1" "f1 \<longrightarrow> (\<exists>k<widget_count g. is_playback_pin (widget_at g1 k) \<and> on_path WIDGET_FLAG_OUTPUT_PATH g1 k)"
      using snoc p by auto
    then have shape: "same_shape g g1" "in_range g1"
      using path_steps_shape [OF s1(1) assms(1)] same_shape_in_range assms(1) by blast+
    then have k: "k < widget_count g1" "widget_count g1 = widget_count g"
      using snoc.prems by (simp_all add: same_shape_def)
    have fold_snoc: "fold (output_pin_step useMixer) (ks @ [k]) (False, g) = output_pin_step useMixer k (f1, g1)"
      by (simp add: p)
    show ?case
    proof (cases "is_playback_pin (widget_at g1 k)")
      case False
      then have same: "output_pin_step useMixer k (f1, g1) = (f1, g1)"
        by (simp add: output_pin_step_def)
      show ?thesis
        unfolding fold_snoc same using s1 by simp
    next
      case True
      obtain f2 g2 where r: "output_pin_inputs useMixer k (input_list g1 k) g1 = (f2, g2)"
        by fastforce
      have s2: "output_steps g1 g2" "f2 \<longrightarrow> on_path WIDGET_FLAG_OUTPUT_PATH g2 k"
        using output_pin_inputs_steps [OF shape(2) k(1) _ True r] by simp_all
      note shape2 = path_steps_shape [OF s2(1) shape(2)]
      have keep: "is_playback_pin (widget_at g2 m) = is_playback_pin (widget_at g1 m)" "on_path WIDGET_FLAG_OUTPUT_PATH g1 m \<longrightarrow> on_path WIDGET_FLAG_OUTPUT_PATH g2 m"
        if "m < widget_count g" for m
        using same_shape_at(6) [OF shape2, of m] steps_flags_active [OF s2(1) shape(2), of m] that shape(2) k(2) by (simp_all add: in_range_def)
      have "output_steps g g2"
        using s1(1) s2(1) by (rule rtranclp_trans)
      moreover have "f1 \<or> f2 \<longrightarrow> (\<exists>k<widget_count g. is_playback_pin (widget_at g2 k) \<and> on_path WIDGET_FLAG_OUTPUT_PATH g2 k)"
      proof (intro impI)
        assume "f1 \<or> f2"
        then obtain m where "m < widget_count g" "is_playback_pin (widget_at g1 m)" "on_path WIDGET_FLAG_OUTPUT_PATH g2 m"
          using s1(2) s2(2) keep(2) True k by auto
        then show "\<exists>k<widget_count g. is_playback_pin (widget_at g2 k) \<and> on_path WIDGET_FLAG_OUTPUT_PATH g2 k"
          using keep(1) by blast
      qed
      moreover have both: "output_pin_step useMixer k (f1, g1) = (f1 \<or> f2, g2)"
        by (simp add: output_pin_step_def True r)
      ultimately show ?thesis
        unfolding fold_snoc both by simp
    qed
  qed simp
  from this [of "[0..<widget_count g]"] show ?thesis
    using assms(2) by (simp add: hda_audio_group_build_output_tree_def lessThan_atLeast0)
qed

text \<open>The same for the inputs: the converters are roots of their own, which no output path contains.\<close>

lemma not_on_any_path: "\<not> on_any_path w \<Longrightarrow> flags w AND WIDGET_FLAG_OUTPUT_PATH = 0"
  by (auto simp: on_any_path_def bit.conj_disj_distrib or_eq_0_iff)

lemma input_search_found:
  "in_range g \<Longrightarrow> (\<And>k. w = Some k \<Longrightarrow> k < widget_count g) \<Longrightarrow> input_paths.found_in w g (fst (input_search n w g)) (snd (input_search n w g))"
proof (induction n arbitrary: w g)
  case 0
  then show ?case by (simp add: input_paths.found_in_def)
next
  case (Suc n)
  show ?case
  proof (cases w)
    case None
    then show ?thesis by (simp add: input_paths.found_in_def)
  next
    case (Some k)
    then have k: "k < widget_count g" "k < length (widgets g)"
      using Suc.prems by (auto simp: in_range_def)
    consider (leaf) "\<not> on_any_path (widget_at g k)" "is_source_pin (widget_at g k)"
      | (inner) "\<not> on_any_path (widget_at g k)" "input_inner (widget_at g k)"
      | (other) "input_search (Suc n) w g = (False, g)"
      by (cases "on_any_path (widget_at g k)"; cases "is_source_pin (widget_at g k)"; cases "input_inner (widget_at g k)") (simp_all add: Some input_inner_def)
    then show ?thesis
    proof cases
      case leaf
      let ?g = "update_widget k (mark_leaf WIDGET_FLAG_INPUT_PATH) g"
      have "input_steps g ?g"
        using k leaf by (intro r_into_rtranclp path_step.Leaf) simp_all
      moreover have "on_path WIDGET_FLAG_INPUT_PATH ?g k"
        using input_paths.marked k(2) by (simp add: on_path_def widget_at_update mark_leaf_def)
      moreover have "widget_type (widget_at g k) = WT_PIN_COMPLEX"
        using leaf(2) by (simp add: is_source_pin_def)
      ultimately show ?thesis
        using leaf by (simp add: Some input_paths.found_in_def)
    next
      case inner
      obtain f g' where r: "input_inputs (input_search n) k (input_list g k) False g = (f, g')"
        by fastforce
      then have "mark_inputs WIDGET_FLAG_INPUT_PATH (input_search n) k (input_list g k) False g = (f, g')"
        by (simp add: input_inputs_mark)
      then have "input_steps g g' \<and> (f \<longrightarrow> False \<or> on_path WIDGET_FLAG_INPUT_PATH g' k)"
        using input_paths.mark_inputs_found [OF Suc.IH Suc.prems(1) k(1) order_refl inner(2) not_on_any_path [OF inner(1)], of False f g'] by simp
      moreover have "widget_type (widget_at g k) \<noteq> WT_PIN_COMPLEX" "widget_type (widget_at g k) \<in> {WT_AUDIO_INPUT, WT_AUDIO_MIXER, WT_AUDIO_SELECTOR}"
        using inner(2) by (auto simp: input_inner_def)
      ultimately show ?thesis
        using inner(1) by (simp add: Some r input_paths.found_in_def)
    next
      case other
      then show ?thesis
        by (simp add: input_paths.found_in_def)
    qed
  qed
qed

lemma input_converter_inputs_steps:
  "in_range g \<Longrightarrow> k < widget_count g \<Longrightarrow> set ins \<subseteq> set (input_list g k) \<Longrightarrow> widget_type (widget_at g k) = WT_AUDIO_INPUT \<Longrightarrow>
    flags (widget_at g k) AND WIDGET_FLAG_OUTPUT_PATH = 0 \<Longrightarrow> input_steps g (snd (input_converter_inputs k ins g))"
proof (induction ins arbitrary: g)
  case (Cons x ins)
  obtain i nid where x: "x = (i, nid)"
    by fastforce
  have i: "i < num_inputs (widget_at g k)" "nid = inputs (widget_at g k) ! i"
    using input_list_mem [of i nid g k] Cons.prems(1-3) by (auto simp: x in_range_def)
  have kl: "k < length (widgets g)"
    using Cons.prems(1,2) by (simp add: in_range_def)
  show ?case
  proof (cases "hda_audio_group_get_widget g nid")
    case None
    then show ?thesis
      using Cons by (simp add: x)
  next
    case (Some m)
    obtain f1 g1 where s: "hda_widget_find_input_path (Some m) 0 g = (f1, g1)"
      by fastforce
    have m: "m < widget_count g"
      using get_widget_less [OF Cons.prems(1,2) i(1)] Some i(2) by simp
    then have found1: "input_paths.found_in (Some m) g f1 g1"
      using input_search_found [of g "Some m" 17] Cons.prems(1) s by (auto simp: hda_widget_find_input_path_def)
    then have steps1: "input_steps g g1" and shape: "same_shape g g1"
      using path_steps_shape Cons.prems(1) by (auto simp: input_paths.found_in_def)
    have free: "flags (widget_at g1 k) AND WIDGET_FLAG_OUTPUT_PATH = 0"
      using input_paths.steps_other_flags [OF steps1 Cons.prems(1), where m = k] Cons.prems(5) by simp
    have g1: "in_range g1" "k < widget_count g1" "set ins \<subseteq> set (input_list g1 k)" "widget_type (widget_at g1 k) = WT_AUDIO_INPUT"
      using same_shape_in_range [OF shape] Cons.prems(1-4) shape same_shape_at [OF shape kl] by (auto simp: same_shape_def)
    show ?thesis
    proof (cases f1)
      case True
      then have "on_path WIDGET_FLAG_INPUT_PATH g1 m"
        using found1 by (auto simp: input_paths.found_in_def)
      then have "path_step WIDGET_FLAG_INPUT_PATH WIDGET_FLAG_OUTPUT_PATH is_source_pin input_inner (\<lambda>_. False) g1
          (update_widget k (mark_input WIDGET_FLAG_INPUT_PATH i) g1)"
        using g1(2,4) free i Some same_shape_at(1,2) [OF shape kl] same_shape_get [OF shape]
        by (intro path_step.Inner [of k g1 input_inner i m]) (simp_all add: input_inner_def)
      then show ?thesis
        using True steps1 by (simp add: x Some s)
    next
      case False
      then show ?thesis
        using Cons.IH [OF g1 free] steps1 by (simp add: x Some s)
    qed
  qed
qed simp

lemma input_tree_steps:
  assumes "in_range g" "\<forall>k<widget_count g. widget_type (widget_at g k) = WT_AUDIO_INPUT \<longrightarrow> flags (widget_at g k) AND WIDGET_FLAG_OUTPUT_PATH = 0"
  shows "input_steps g (snd (hda_audio_group_build_input_tree g))"
proof -
  have "input_steps g (snd (fold input_converter_step ks (False, g)))" if "set ks \<subseteq> {..<widget_count g}" for ks
    using that
  proof (induction ks rule: rev_induct)
    case (snoc k ks)
    obtain f1 g1 where p: "fold input_converter_step ks (False, g) = (f1, g1)"
      by fastforce
    have s1: "input_steps g g1"
      using snoc p by auto
    then have shape: "same_shape g g1" "in_range g1"
      using path_steps_shape [OF s1 assms(1)] same_shape_in_range assms(1) by blast+
    have k: "k < widget_count g1" "k < widget_count g" "k < length (widgets g)"
      using snoc.prems shape(1) assms(1) by (auto simp: same_shape_def in_range_def)
    have "input_steps g1 (snd (input_converter_step k (f1, g1)))"
    proof (cases "widget_type (widget_at g1 k) = WT_AUDIO_INPUT")
      case True
      then have "flags (widget_at g1 k) AND WIDGET_FLAG_OUTPUT_PATH = 0"
        using assms(2) k(2) same_shape_at(3) [OF shape(1) k(3)] input_paths.steps_other_flags [OF s1 assms(1), where m = k] by simp
      then show ?thesis
        using input_converter_inputs_steps [OF shape(2) k(1) order_refl True] True by (auto simp: input_converter_step_def split: prod.split)
    qed (simp add: input_converter_step_def)
    moreover have "fold input_converter_step (ks @ [k]) (False, g) = input_converter_step k (f1, g1)"
      by (simp add: p)
    ultimately show ?case
      using s1 by simp
  qed simp
  from this [of "[0..<widget_count g]"] show ?thesis
    by (simp add: hda_audio_group_build_input_tree_def lessThan_atLeast0)
qed

section \<open>What parsing leaves\<close>

definition fresh_widget :: "hda_widget \<Rightarrow> bool" where
  "fresh_widget w \<longleftrightarrow> flags w = 0 \<and> num_inputs w \<le> MAX_INPUTS \<and> length (inputs w) = MAX_INPUTS \<and>
     (active_input w = - 1 \<or> num_inputs w = 1 \<and> active_input w = 0)"

definition inputs_of :: "hda_widget \<Rightarrow> 32 word \<times> int \<times> nat \<times> nat list" where
  "inputs_of w = (flags w, active_input w, num_inputs w, inputs w)"

lemma inputs_kept:
  "inputs_of (fst (hda_get_pm_support send codec w h)) = inputs_of w"
  "inputs_of (fst (hda_widget_get_stream_support send codec g w h)) = inputs_of w"
  "inputs_of (fst (hda_widget_get_amplifier_capabilities send codec g w h)) = inputs_of w"
  "inputs_of (fst (parse_pin send codec w h)) = inputs_of w"
  by (auto simp: hda_get_pm_support_def hda_widget_get_stream_support_def hda_get_stream_support_def hda_widget_get_amplifier_capabilities_def
      parse_pin_def inputs_of_def Let_def split: prod.split option.split)

lemma connection_loop_bound: "length (found_inputs c) \<le> MAX_INPUTS \<Longrightarrow>
    length (found_inputs (fst (connection_loop send codec nid per_entry is c h))) \<le> MAX_INPUTS"
proof (induction "is" arbitrary: c h)
  case (Cons i "is")
  have "length (found_inputs (connection_entry per_entry i d)) \<le> MAX_INPUTS" if "found_inputs d = found_inputs c" for d
    using connection_entry_extends [of d per_entry i] Cons.prems that by auto
  then show ?case
    using Cons.IH Cons.prems by (auto split: prod.split option.split)
qed simp

lemma get_connections_fresh:
  assumes "inputs_of w = (0, - 1, 0, replicate MAX_INPUTS 0)"
  shows "fresh_widget (fst (hda_widget_get_connections send codec w h))"
proof -
  have fresh: "fresh_widget w" and w: "num_inputs w = 0"
    using assms by (auto simp: fresh_widget_def inputs_of_def)
  have store: "fresh_widget (store_inputs ns w)" if "length ns \<le> MAX_INPUTS" for ns
    using assms that by (auto simp: fresh_widget_def inputs_of_def store_inputs_def)
  have stored: "fresh_widget (store_inputs (found_inputs c) w)"
    if "connection_loop send codec nid per_entry is \<lparr>con_response = r, previous_input = - 1, found_inputs = []\<rparr> h = (c, h')" for nid per_entry "is" r h c h'
    using connection_loop_bound [of "\<lparr>con_response = r, previous_input = - 1, found_inputs = []\<rparr>" send codec nid per_entry "is" h] that
    by (intro store) simp
  show ?thesis
    using fresh w by (auto simp: hda_widget_get_connections_def Let_def split: prod.split option.split intro: stored)
qed

lemma parse_widget_fresh: "parse_widget send codec g nid h = (Some w, h') \<Longrightarrow> fresh_widget w"
proof -
  assume p: "parse_widget send codec g nid h = (Some w, h')"
  obtain caps h1 where c: "get_parameter send codec nid PID_AUDIO_WIDGET_CAP h = (Some caps, h1)"
    using p by (auto simp: parse_widget_def split: prod.splits option.splits)
  define w0 where "w0 = zero_widget\<lparr>widget_type := corrected_type (codec_id codec) nid (widget_type_of (unat (drop_bit 20 (caps AND AUDIO_CAP_TYPE_MASK)))),
                active_input := - 1, cap_audio := caps, node_id := nid\<rparr>"
  have w0: "inputs_of w0 = (0, - 1, 0, replicate MAX_INPUTS 0)"
    by (simp add: w0_def inputs_of_def zero_widget_def)
  define h2 where "h2 = (if caps AND AUDIO_CAP_POWER_CONTROL \<noteq> 0 then tell send [MAKE_VERB (addr codec) nid VID_SET_POWER_STATE 0] h1 else h1)"
  obtain w1 h3 where a: "(if caps AND (AUDIO_CAP_INPUT_AMPLIFIER OR AUDIO_CAP_OUTPUT_AMPLIFIER) \<noteq> 0
      then hda_widget_get_amplifier_capabilities send codec g w0 h2 else (w0, h2)) = (w1, h3)"
    by fastforce
  then have w1: "inputs_of w1 = inputs_of w0"
    using inputs_kept(3) [of send codec g w0 h2] by (auto split: if_splits)
  obtain w2 h4 where t: "(case widget_type w1 of
        WT_AUDIO_OUTPUT \<Rightarrow> hda_widget_get_stream_support send codec g w1 h3
      | WT_AUDIO_INPUT \<Rightarrow> hda_widget_get_stream_support send codec g w1 h3
      | WT_PIN_COMPLEX \<Rightarrow> parse_pin send codec w1 h3
      | WT_VOLUME_KNOB \<Rightarrow> (w1, tell send [MAKE_VERB (addr codec) nid VID_SET_VOLUME_KNOB_CONTROL 0] h3)
      | _ \<Rightarrow> (w1, h3)) = (w2, h4)"
    by fastforce
  then have w2: "inputs_of w2 = inputs_of w1"
    using inputs_kept(2) [of send codec g w1 h3] inputs_kept(4) [of send codec w1 h3] by (auto split: hda_widget_type.splits)
  obtain w3 h5 where m: "hda_get_pm_support send codec w2 h4 = (w3, h5)"
    by fastforce
  then have w3: "inputs_of w3 = inputs_of w2"
    using inputs_kept(1) [of send codec w2 h4] by simp
  have "parse_widget send codec g nid h = (case hda_widget_get_connections send codec w3 h5 of (w, h) \<Rightarrow> (Some w, h))"
    unfolding parse_widget_def c prod.case option.case Let_def w0_def [symmetric] h2_def [symmetric] a t m by (rule refl)
  then show ?thesis
    using p get_connections_fresh [of w3 send codec h5] w0 w1 w2 w3 by (auto split: prod.splits)
qed

lemma parse_widgets_fresh: "parse_widgets send codec g nids h = (Some ws, h') \<Longrightarrow> length ws = length nids \<and> (\<forall>w\<in>set ws. fresh_widget w)"
  by (induction nids arbitrary: h ws) (auto split: prod.splits option.splits dest: parse_widget_fresh)

lemma parse_group_widgets_fresh:
  assumes "parse_group_widgets send codec mem behind junk g0 h = ((B_OK, g), h')"
  shows "length (widgets g) = Suc (widget_count g) \<and> (\<forall>k<widget_count g. fresh_widget (widget_at g k))"
proof -
  obtain ws h2 where p: "parse_widgets send codec g0 [widget_start g0..<widget_start g0 + widget_count g0] h = (Some ws, h2)"
      "g = snd (hda_widget_get_associations (g0\<lparr>widgets := ws @ [behind]\<rparr>))"
    using assms by (auto simp: parse_group_widgets_def split: prod.splits option.splits if_splits)
  then have "widgets g = ws @ [behind]" "widget_count g = widget_count g0"
    by (auto simp: hda_widget_get_associations_def split: prod.split if_split)
  then show ?thesis
    using parse_widgets_fresh [OF p(1)] by (auto simp: widget_at_def nth_append)
qed

lemma parse_group_fresh:
  assumes "hda_codec_parse_audio_group send codec mem behind junk g0 h = ((B_OK, g), h')"
  shows "length (widgets g) = Suc (widget_count g) \<and> (\<forall>k<widget_count g. fresh_widget (widget_at g k))"
  using assms by (auto simp: hda_codec_parse_audio_group_def Let_def split: prod.splits if_splits dest!: parse_group_widgets_fresh)

section \<open>The tree of a parsed codec\<close>

lemma fresh_good:
  assumes "length (widgets g) = Suc (widget_count g)" "\<forall>k<widget_count g. fresh_widget (widget_at g k)"
  shows "paths_good WIDGET_FLAG_OUTPUT_PATH 0 output_converter output_inner headphone_pin g" "\<not> on_path M g k \<or> widget_count g \<le> k"
  using assms by (auto simp: paths_good_def fresh_widget_def on_path_def not_less)

lemma select_fold:
  assumes "in_range g" "fold (select_step send codec) ks (g, h) = (g', h')" "set ks \<subseteq> {..<widget_count g}"
  shows "same_shape g g' \<and> (\<forall>m<widget_count g. flags (widget_at g' m) = flags (widget_at g m) \<and>
    (0 \<le> active_input (widget_at g m) \<longrightarrow> active_input (widget_at g' m) = active_input (widget_at g m)))"
  using assms(2,3)
proof (induction ks arbitrary: g' h' rule: rev_induct)
  case (snoc k ks)
  obtain g1 h1 where p: "fold (select_step send codec) ks (g, h) = (g1, h1)"
    by fastforce
  have i: "same_shape g g1 \<and> (\<forall>m<widget_count g. flags (widget_at g1 m) = flags (widget_at g m) \<and>
    (0 \<le> active_input (widget_at g m) \<longrightarrow> active_input (widget_at g1 m) = active_input (widget_at g m)))"
    using snoc p by simp
  let ?f = "\<lambda>w. if active_input w = - 1 then w\<lparr>active_input := 0\<rparr> else w"
  have g': "g' = update_widget k ?f g1"
  proof -
    have "select_step send codec k (g1, h1) = (g', h')"
      using snoc.prems(1) by (simp add: p)
    then show ?thesis
      by (auto simp: select_step_def Let_def split: if_splits)
  qed
  have k: "k < length (widgets g1)"
    using i snoc.prems(2) assms(1) by (simp add: same_shape_def in_range_def)
  have "same_shape g1 g'"
    unfolding g' by (rule same_shape_update [OF k]) (simp add: plain_def)
  moreover have "flags (widget_at g' m) = flags (widget_at g1 m) \<and>
      (0 \<le> active_input (widget_at g1 m) \<longrightarrow> active_input (widget_at g' m) = active_input (widget_at g1 m))" for m
    unfolding g' using k by (simp add: widget_at_update)
  ultimately show ?case
    using i same_shape_trans by metis
qed simp

text \<open>The three phases of the tree one after the other.\<close>

lemma build_tree_phases:
  assumes "hda_audio_group_build_tree send codec g h = ((B_OK, g'), h')" "in_range g"
  shows "\<exists>g1 g2. output_steps g g1 \<and> (\<exists>k<widget_count g. is_playback_pin (widget_at g1 k) \<and> on_path WIDGET_FLAG_OUTPUT_PATH g1 k) \<and>
    g2 = snd (hda_audio_group_build_input_tree g1) \<and> (\<exists>h''. fold (select_step send codec) [0..<widget_count g2] (g2, h) = (g', h''))"
proof -
  obtain f1 g1 where t1: "hda_audio_group_build_output_tree True g = (f1, g1)"
    by fastforce
  obtain f2 g2 where t2: "(if f1 then (True, g1) else hda_audio_group_build_output_tree False g1) = (f2, g2)"
    by fastforce
  obtain f3 g3 where t3: "hda_audio_group_build_input_tree g2 = (f3, g3)"
    by fastforce
  obtain g4 h4 where t4: "fold (select_step send codec) [0..<widget_count g3] (g3, h) = (g4, h4)"
    by fastforce
  have e: "hda_audio_group_build_tree send codec g h = (if \<not> f2 then ((ENODEV, g2), h) else ((B_OK, g4), set_vaio_vref send codec (set_gpio send codec g4 h4)))"
    unfolding hda_audio_group_build_tree_def Let_def t1 prod.case t2 t3 t4 by (rule refl)
  have f2: "f2" "g' = g4"
    using assms(1) unfolding e by (auto split: if_splits)
  note s1 = output_tree_steps [OF assms(2) t1]
  have "output_steps g g2 \<and> (\<exists>k<widget_count g. is_playback_pin (widget_at g2 k) \<and> on_path WIDGET_FLAG_OUTPUT_PATH g2 k)"
  proof (cases f1)
    case True
    then show ?thesis
      using s1 t2 by auto
  next
    case False
    have "same_shape g g1"
      using path_steps_shape s1 assms(2) by blast
    then have "in_range g1" "widget_count g1 = widget_count g"
      using same_shape_in_range assms(2) by (blast, simp add: same_shape_def)
    moreover have "hda_audio_group_build_output_tree False g1 = (True, g2)"
      using False t2 f2(1) by simp
    ultimately show ?thesis
      using output_tree_steps [of g1 False True g2] s1 by (metis rtranclp_trans)
  qed
  then show ?thesis
    using t3 t4 f2(2) by (intro exI [of _ g2] exI [of _ g3]) auto
qed

text \<open>The codec connects its widgets among themselves: no connection is to the node after the last one.\<close>

definition connections_inside :: "hda_audio_group \<Rightarrow> bool" where
  "connections_inside g \<longleftrightarrow>
     (\<forall>k<widget_count g. \<forall>i<num_inputs (widget_at g k). inputs (widget_at g k) ! i \<noteq> widget_start g + widget_count g)"

definition playback_path :: "hda_audio_group \<Rightarrow> nat \<Rightarrow> bool" where
  "playback_path = path_to WIDGET_FLAG_OUTPUT_PATH output_converter"

definition capture_path :: "hda_audio_group \<Rightarrow> nat \<Rightarrow> bool" where
  "capture_path = path_to WIDGET_FLAG_INPUT_PATH is_source_pin"

lemma built_tree:
  assumes "length (widgets g) = Suc (widget_count g) \<and> (\<forall>k<widget_count g. fresh_widget (widget_at g k))" "connections_inside g"
    and "hda_audio_group_build_tree send codec g h = ((B_OK, g'), h')"
  shows "same_shape g g' \<and> in_range g' \<and> (\<exists>k<widget_count g'. is_playback_pin (widget_at g' k) \<and> on_path WIDGET_FLAG_OUTPUT_PATH g' k) \<and>
    (\<forall>k<widget_count g'. on_path WIDGET_FLAG_OUTPUT_PATH g' k \<longrightarrow> \<not> headphone_pin (widget_at g' k) \<longrightarrow> playback_path g' k) \<and>
    (\<forall>k<widget_count g'. on_path WIDGET_FLAG_INPUT_PATH g' k \<longrightarrow> capture_path g' k)"
proof -
  have g: "in_range g"
    using assms(1,2) by (auto simp: in_range_def connections_inside_def fresh_widget_def)
  note good = fresh_good [OF conjunct1 [OF assms(1)] conjunct2 [OF assms(1)]]
  obtain g1 g2 h'' where p: "output_steps g g1" "\<exists>k<widget_count g. is_playback_pin (widget_at g1 k) \<and> on_path WIDGET_FLAG_OUTPUT_PATH g1 k"
      "g2 = snd (hda_audio_group_build_input_tree g1)" "fold (select_step send codec) [0..<widget_count g2] (g2, h) = (g', h'')"
    using build_tree_phases [OF assms(3) g] by blast
  have s1: "same_shape g g1" and r1: "in_range g1"
    using path_steps_shape [OF p(1) g] same_shape_in_range [OF _ g] by blast+
  have good1: "paths_good WIDGET_FLAG_OUTPUT_PATH 0 output_converter output_inner headphone_pin g1"
    using output_paths.steps_good [OF p(1) g good(1)] .
  have no_input: "\<not> on_path WIDGET_FLAG_INPUT_PATH g1 k" if "k < widget_count g1" for k
  proof -
    have "flags (widget_at g1 k) AND WIDGET_FLAG_INPUT_PATH = flags (widget_at g k) AND WIDGET_FLAG_INPUT_PATH"
      by (rule path_steps_mask [OF p(1) g]) (simp add: WIDGET_FLAG_INPUT_PATH_def WIDGET_FLAG_OUTPUT_PATH_def)
    then show ?thesis
      using good(2) [of WIDGET_FLAG_INPUT_PATH k] that s1 by (auto simp: on_path_def same_shape_def)
  qed
  have converters: "flags (widget_at g1 k) AND WIDGET_FLAG_OUTPUT_PATH = 0" if "k < widget_count g1" "widget_type (widget_at g1 k) = WT_AUDIO_INPUT" for k
  proof (rule ccontr)
    assume "flags (widget_at g1 k) AND WIDGET_FLAG_OUTPUT_PATH \<noteq> 0"
    then have "output_converter (widget_at g1 k) \<or> output_inner (widget_at g1 k) \<or> headphone_pin (widget_at g1 k)"
      using good1 that(1) by (auto simp: paths_good_def on_path_def)
    then show False
      using that(2) by (auto simp: output_converter_def output_inner_def headphone_pin_def is_playback_pin_def is_output_pin_def)
  qed
  have i: "input_steps g1 g2"
    unfolding p(3) using converters by (intro input_tree_steps [OF r1]) blast
  have s2: "same_shape g1 g2" and r2: "in_range g2"
    using path_steps_shape [OF i r1] same_shape_in_range [OF _ r1] by blast+
  have "paths_good WIDGET_FLAG_INPUT_PATH WIDGET_FLAG_OUTPUT_PATH is_source_pin input_inner (\<lambda>_. False) g1"
    using no_input good1 by (auto simp: paths_good_def on_path_def)
  then have good2: "paths_good WIDGET_FLAG_INPUT_PATH WIDGET_FLAG_OUTPUT_PATH is_source_pin input_inner (\<lambda>_. False) g2"
    by (rule input_paths.steps_good [OF i r1])
  note sel = select_fold [OF r2 p(4)]
  have s3: "same_shape g2 g'" and keep: "\<And>m. m < widget_count g2 \<Longrightarrow> flags (widget_at g' m) = flags (widget_at g2 m)"
      "\<And>m. m < widget_count g2 \<Longrightarrow> 0 \<le> active_input (widget_at g2 m) \<Longrightarrow> active_input (widget_at g' m) = active_input (widget_at g2 m)"
    using sel by (auto simp: lessThan_atLeast0)
  have counts: "widget_count g1 = widget_count g" "widget_count g2 = widget_count g" "widget_count g' = widget_count g"
    using s1 s2 s3 by (simp_all add: same_shape_def)
  have out_flag: "on_path WIDGET_FLAG_OUTPUT_PATH g' m \<longleftrightarrow> on_path WIDGET_FLAG_OUTPUT_PATH g1 m" if "m < widget_count g" for m
    using input_paths.steps_other_flags [OF i r1, where m = m] keep(1) [of m] that counts by (simp add: on_path_def)
  have in_flag: "on_path WIDGET_FLAG_INPUT_PATH g' m \<longleftrightarrow> on_path WIDGET_FLAG_INPUT_PATH g2 m" if "m < widget_count g" for m
    using keep(1) [of m] that counts by (simp add: on_path_def)
  have s13: "same_shape g1 g'"
    using s2 s3 by (rule same_shape_trans)
  have out: "playback_path g' k" if "path_to WIDGET_FLAG_OUTPUT_PATH output_converter g1 k" for k
    unfolding playback_path_def
  proof (rule path_to_kept [OF that r1 s13])
    show "output_converter w = output_converter v" if "plain w = plain v" for w v
      using output_paths.plain_kinds [OF that] by blast
    show "active_input (widget_at g' m) = active_input (widget_at g1 m)" if "m < widget_count g1" "0 \<le> active_input (widget_at g1 m)" for m
      using steps_flags_active [OF i r1 that(1)] that(2) keep(2) [of m] that(1) counts by simp
  qed (use out_flag counts in simp)
  have inp: "capture_path g' k" if "path_to WIDGET_FLAG_INPUT_PATH is_source_pin g2 k" for k
    unfolding capture_path_def
  proof (rule path_to_kept [OF that r2 s3])
    show "is_source_pin w = is_source_pin v" if "plain w = plain v" for w v
      using input_paths.plain_kinds [OF that] by blast
  qed (use in_flag keep(2) counts in simp_all)
  have kinds: "is_playback_pin (widget_at g' k) = is_playback_pin (widget_at g1 k)" "headphone_pin (widget_at g' k) = headphone_pin (widget_at g1 k)"
    if "k < widget_count g" for k
    using same_shape_at(6) [OF s13, of k] output_paths.kinds_kept(3) [OF s13, of k] r1 counts that by (simp_all add: in_range_def)
  show ?thesis
  proof (intro conjI)
    show "same_shape g g'" "in_range g'"
      using same_shape_trans [OF s1 s13] same_shape_in_range [OF s3 r2] by blast+
    show "\<exists>k<widget_count g'. is_playback_pin (widget_at g' k) \<and> on_path WIDGET_FLAG_OUTPUT_PATH g' k"
      using p(2) kinds(1) out_flag counts by auto
    show "\<forall>k<widget_count g'. on_path WIDGET_FLAG_OUTPUT_PATH g' k \<longrightarrow> \<not> headphone_pin (widget_at g' k) \<longrightarrow> playback_path g' k"
      using good1 out kinds(2) out_flag counts by (auto simp: paths_good_def)
    show "\<forall>k<widget_count g'. on_path WIDGET_FLAG_INPUT_PATH g' k \<longrightarrow> capture_path g' k"
      using good2 inp in_flag counts by (auto simp: paths_good_def)
  qed
qed


section \<open>A small codec\<close>

text \<open>A codec of four widgets: a converter (node 2) for a line output (3), and a converter (4) for the built-in microphone (5).\<close>

definition small_answers :: "(32 word \<times> 32 word) list" where
  "small_answers =
    [(0x1f0004, 0x00020004), (0x1f000b, 1), (0x1f000a, 0x20040),
     (0x2f0009, 0x1),
     (0x3f0009, 0x00400000), (0x3f000c, 0x10), (0x3f1c00, 0), (0x3f000e, 1), (0x3f0200, 2),
     (0x4f0009, 0x00100001), (0x4f000e, 1), (0x4f0200, 5),
     (0x5f0009, 0x00400000), (0x5f000c, 0x20), (0x5f1c00, 0x80a00000)]"

definition small_codec_answer :: "32 word \<Rightarrow> 32 word" where
  "small_codec_answer v = (case map_of small_answers v of Some r \<Rightarrow> r | None \<Rightarrow> 0)"

definition small_codec :: hda_codec where
  "small_codec = \<lparr>vendor_id = 0, product_id = 0, subsystem_id = 0, major = 0, minor = 0, revision = 0, stepping = 0, addr = 0, quirks = 0\<rparr>"

definition small_widgets :: "hda_widget list" where
  "small_widgets =
    [zero_widget\<lparr>node_id := 2, active_input := - 1, cap_audio := 1, io_formats := {B_FMT_16BIT}, io_rates := {B_SR_48000}\<rparr>,
     zero_widget\<lparr>node_id := 3, widget_type := WT_PIN_COMPLEX, active_input := 0, num_inputs := 1, inputs := 2 # replicate 31 0, cap_audio := 0x400000,
       pin_capabilities := 0x10\<rparr>,
     zero_widget\<lparr>node_id := 4, widget_type := WT_AUDIO_INPUT, active_input := 0, num_inputs := 1, inputs := 5 # replicate 31 0, cap_audio := 0x100001,
       io_formats := {B_FMT_16BIT}, io_rates := {B_SR_48000}\<rparr>,
     zero_widget\<lparr>node_id := 5, widget_type := WT_PIN_COMPLEX, active_input := - 1, cap_audio := 0x400000, pin_capabilities := 0x20, pin_config := 0x80a00000\<rparr>]"

lemma small_parse_widget:
  assumes "i < 4" "io_formats (group_widget g) = {B_FMT_16BIT}" "io_rates (group_widget g) = {B_SR_48000}" "node_id (group_widget g) = 1"
  shows "parse_widget (answering small_codec_answer) small_codec g (2 + i) h = (Some (small_widgets ! i), h)"
proof -
  have "i \<in> {0, 1, 2, 3}" using assms(1) by auto
  then show ?thesis
    using assms(2-4) by (elim insertE) (simp_all add: parse_widget_def MAKE_VERB_def small_codec_def small_codec_answer_def small_answers_def hda_consts Let_def
      widget_type_of_def corrected_type_def beeper_node_def codec_id_def hda_get_pm_support_def hda_widget_get_connections_def hda_widget_get_stream_support_def
      parse_pin_def small_widgets_def zero_widget_def connection_entry_def add_inputs_def store_inputs_def MAX_INPUTS_def)
qed

lemma small_codec_simps: "addr small_codec = 0" "vendor_id small_codec = 0" "product_id small_codec = 0" "quirks small_codec = 0"
  by (simp_all add: small_codec_def)

lemmas small_codec_defs = MAKE_VERB_def small_codec_simps small_codec_answer_def small_answers_def hda_consts

definition small_group :: hda_audio_group where
  "small_group = snd (hda_widget_get_associations (zero_group\<lparr>group_widget := zero_widget\<lparr>node_id := 1, io_formats := {B_FMT_16BIT}, io_rates := {B_SR_48000}\<rparr>,
     widget_start := 2, widget_count := 4, widgets := small_widgets @ [zero_widget]\<rparr>))"

lemma small_parse_widgets:
  assumes "io_formats (group_widget g) = {B_FMT_16BIT}" "io_rates (group_widget g) = {B_SR_48000}" "node_id (group_widget g) = 1"
  shows "parse_widgets (answering small_codec_answer) small_codec g [2..<6] h = (Some small_widgets, h)"
proof -
  have "[2..<6] = [2 + 0, 2 + 1, 2 + 2, 2 + (3 :: nat)]"
    by (simp add: upt_rec)
  moreover have "small_widgets = [small_widgets ! 0, small_widgets ! 1, small_widgets ! 2, small_widgets ! 3]"
    by (simp add: small_widgets_def)
  ultimately show ?thesis
    using small_parse_widget [of 0 g h] small_parse_widget [of 1 g h] small_parse_widget [of 2 g h] small_parse_widget [of 3 g h] assms
    by (simp del: upt_conv_Cons)
qed

lemma small_parse: "hda_codec_parse_audio_group (answering small_codec_answer) small_codec True zero_widget 0
    (zero_group\<lparr>group_widget := zero_widget\<lparr>node_id := 1\<rparr>\<rparr>) h = ((B_OK, small_group), h)"
proof -
  have "hda_widget_get_stream_support (answering small_codec_answer) small_codec (zero_group\<lparr>group_widget := zero_widget\<lparr>node_id := 1\<rparr>\<rparr>)
      (zero_widget\<lparr>node_id := 1\<rparr>) h = (zero_widget\<lparr>node_id := 1, io_formats := {B_FMT_16BIT}, io_rates := {B_SR_48000}\<rparr>, h)"
    by (simp add: hda_widget_get_stream_support_def hda_get_stream_support_def answering_def stream_formats_def stream_rates_def format_bits_def rate_bits_def
        zero_group_def small_codec_defs)
  moreover have "parse_widgets (answering small_codec_answer) small_codec (zero_group\<lparr>group_widget := zero_widget\<lparr>node_id := 1, io_formats := {B_FMT_16BIT}, io_rates := {B_SR_48000}\<rparr>,
      widget_start := 2, widget_count := 4\<rparr>) [2..<6] h = (Some small_widgets, h)"
    by (rule small_parse_widgets) simp_all
  ultimately show ?thesis
    by (simp add: hda_codec_parse_audio_group_def Let_def hda_get_pm_support_def hda_widget_get_amplifier_capabilities_def parse_group_widgets_def
        tell_def answering_def small_codec_defs SUB_NODE_COUNT_START_def SUB_NODE_COUNT_TOTAL_def init_codec_def codec_id_def small_group_def zero_group_def zero_widget_def
        del: upt_rec_numeral)
qed

lemma small_group_fields: "widgets small_group = small_widgets @ [zero_widget]" "widget_start small_group = 2" "widget_count small_group = 4"
  "gpio small_group = 0"
  by (simp_all add: small_group_def hda_widget_get_associations_def zero_group_def split: prod.split)

lemma small_inside: "connections_inside small_group"
  by (auto simp: connections_inside_def widget_at_def small_group_fields small_widgets_def zero_widget_def numeral_eq_Suc less_Suc_eq)

lemma small_indices: "[0..<4] = [0, 1, 2, 3 :: nat]"
  by (simp add: upt_rec)

lemma find_output_path_converter: "widget_type (widgets g ! k) = WT_AUDIO_OUTPUT \<Longrightarrow>
    hda_widget_find_output_path (Some k) 0 g = (True, False, update_widget k (mark_leaf WIDGET_FLAG_OUTPUT_PATH) g)"
  by (simp add: hda_widget_find_output_path_def eval_nat_numeral widget_at_def)

lemma small_built: "fst (fst (hda_audio_group_build_tree (answering small_codec_answer) small_codec small_group h)) = B_OK"
proof -
  have "hda_audio_group_build_output_tree True small_group = (False, small_group)"
    by (simp add: hda_audio_group_build_output_tree_def small_indices small_group_fields output_pin_step_def is_playback_pin_def is_output_pin_def widget_at_def
        small_widgets_def zero_widget_def input_list_def hda_audio_group_get_widget_def PIN_CAP_IS_OUTPUT_def hda_consts CONF_DEFAULT_DEVICE_def pin_dev_defs)
  moreover obtain found g1 where "hda_audio_group_build_output_tree False small_group = (found, g1)"
    by (cases "hda_audio_group_build_output_tree False small_group") blast
  moreover have "fst (hda_audio_group_build_output_tree False small_group)"
    by (simp add: hda_audio_group_build_output_tree_def small_indices small_group_fields output_pin_step_def is_playback_pin_def is_output_pin_def widget_at_def
        small_widgets_def zero_widget_def input_list_def hda_audio_group_get_widget_def PIN_CAP_IS_OUTPUT_def hda_consts CONF_DEFAULT_DEVICE_def pin_dev_defs
        find_output_path_converter update_widget_def mark_leaf_def mark_input_def)
  ultimately show ?thesis
    by (simp add: hda_audio_group_build_tree_def Let_def split: prod.split)
qed


section \<open>Streams\<close>

datatype stream_direction = STREAM_PLAYBACK | STREAM_RECORD

record hda_stream =
  stream_id :: nat
  stream_offset :: nat
  running :: bool
  stream_type :: stream_direction
  pin_widget :: nat
  io_widgets :: "nat list"
  num_io_widgets :: nat
  sample_rate :: "stream_rate set"
  sample_format :: "stream_format set"
  num_buffers :: nat
  num_channels :: nat
  buffer_length :: nat
  buffer_size :: nat
  sample_size :: nat
  rate :: nat
  bps :: nat

definition zero_stream :: "stream_direction \<Rightarrow> hda_stream" where
  "zero_stream t = \<lparr>stream_id = 0, stream_offset = 0, running = False, stream_type = t, pin_widget = 0, io_widgets = replicate MAX_IO_WIDGETS 0,
     num_io_widgets = 0, sample_rate = {}, sample_format = {}, num_buffers = 0, num_channels = 0, buffer_length = 0, buffer_size = 0,
     sample_size = 0, rate = 0, bps = 0\<rparr>"

definition CONF_CONNECTIVITY_FIXED :: nat where "CONF_CONNECTIVITY_FIXED = 2"

definition is_fixed_mic :: "hda_widget \<Rightarrow> bool" where
  "is_fixed_mic w \<longleftrightarrow> CONF_DEFAULT_DEVICE (pin_config w) = PIN_DEV_MIC_IN \<and> CONF_DEFAULT_CONNECTIVITY (pin_config w) = CONF_CONNECTIVITY_FIXED"

text \<open>The loop along the active inputs, with \<open>n\<close> steps left.\<close>

primrec reaches_fixed_mic :: "nat \<Rightarrow> hda_audio_group \<Rightarrow> nat option \<Rightarrow> bool" where
  "reaches_fixed_mic 0 g w = False"
| "reaches_fixed_mic (Suc n) g w = (case w of None \<Rightarrow> False
     | Some k \<Rightarrow> if widget_type (widget_at g k) = WT_PIN_COMPLEX then is_fixed_mic (widget_at g k)
         else reaches_fixed_mic n g (active_widget g k))"

definition hda_adc_reaches_fixed_mic :: "hda_audio_group \<Rightarrow> nat \<Rightarrow> bool" where
  "hda_adc_reaches_fixed_mic g nid = reaches_fixed_mic 16 g (hda_audio_group_get_widget g nid)"

section \<open>Opening the path of a stream\<close>

definition enable_pin :: "'h link \<Rightarrow> hda_codec \<Rightarrow> bool \<Rightarrow> hda_widget \<Rightarrow> 'h \<Rightarrow> 'h" where
  "enable_pin send codec isOutput w h =
     (let h = tell send [MAKE_VERB (addr codec) (node_id w) VID_SET_PIN_WIDGET_CONTROL (hda_widget_prepare_pin_ctrl codec w isOutput)] h
      in if PIN_CAP_IS_EAPD_CAP (pin_capabilities w) then
           (case ask send (MAKE_VERB (addr codec) (node_id w) VID_GET_EAPDBTL_EN 0) h of
              (None, h) \<Rightarrow> h
            | (Some r, h) \<Rightarrow> tell send [MAKE_VERB (addr codec) (node_id w) VID_SET_EAPDBTL_EN ((r AND 0xff) OR EAPDBTL_ENABLE_EAPD)] h)
         else h)"

definition output_gain_verb :: "hda_codec \<Rightarrow> hda_widget \<Rightarrow> 32 word" where
  "output_gain_verb codec w = MAKE_VERB (addr codec) (node_id w) VID_SET_AMPLIFIER_GAIN_MUTE
     (AMP_SET_OUTPUT OR AMP_SET_LEFT_CHANNEL OR AMP_SET_RIGHT_CHANNEL OR AMP_CAP_OFFSET (cap_output_amplifier w))"

text \<open>All inputs but the active one are muted.\<close>

definition input_gain_verb :: "hda_codec \<Rightarrow> hda_widget \<Rightarrow> nat \<Rightarrow> 32 word" where
  "input_gain_verb codec w i = MAKE_VERB (addr codec) (node_id w) VID_SET_AMPLIFIER_GAIN_MUTE
     (AMP_SET_INPUT OR AMP_SET_LEFT_CHANNEL OR AMP_SET_RIGHT_CHANNEL OR AMP_SET_INPUT_INDEX i
      OR (if active_input w = int i then 0 else AMP_MUTE) OR AMP_CAP_OFFSET (cap_input_amplifier w))"

definition open_widget :: "'h link \<Rightarrow> hda_codec \<Rightarrow> bool \<Rightarrow> hda_widget \<Rightarrow> 'h \<Rightarrow> 'h" where
  "open_widget send codec isOutput w h =
     (let h = (if widget_type w = WT_PIN_COMPLEX then enable_pin send codec isOutput w h else h);
          h = (if cap_output_amplifier w \<noteq> 0 then tell send [output_gain_verb codec w] h else h)
      in if cap_input_amplifier w \<noteq> 0 then fold (\<lambda>i. tell send [input_gain_verb codec w i]) [0..<num_inputs w] h else h)"

definition stream_flag :: "stream_direction \<Rightarrow> 32 word" where
  "stream_flag t = (case t of STREAM_PLAYBACK \<Rightarrow> WIDGET_FLAG_OUTPUT_PATH | STREAM_RECORD \<Rightarrow> WIDGET_FLAG_INPUT_PATH)"

definition is_stream_converter :: "stream_direction \<Rightarrow> hda_widget \<Rightarrow> bool" where
  "is_stream_converter t w \<longleftrightarrow> widget_type w = (case t of STREAM_PLAYBACK \<Rightarrow> WT_AUDIO_OUTPUT | STREAM_RECORD \<Rightarrow> WT_AUDIO_INPUT)
     \<and> flags w AND stream_flag t \<noteq> 0 \<and> cap_audio w AND (AUDIO_CAP_STEREO OR AUDIO_CAP_DIGITAL) = AUDIO_CAP_STEREO \<and> io_formats w \<noteq> {}"

definition add_converter :: "hda_widget \<Rightarrow> hda_stream \<Rightarrow> nat \<Rightarrow> hda_stream" where
  "add_converter w s n =
     (let s = (if n = 0 then s\<lparr>sample_format := io_formats w, sample_rate := io_rates w\<rparr>
               else s\<lparr>sample_format := sample_format s \<inter> io_formats w, sample_rate := sample_rate s \<inter> io_rates w\<rparr>)
      in s\<lparr>io_widgets := (io_widgets s)[n := node_id w]\<rparr>)"

text \<open>The loop over the widgets; it ends when the array of converters is full.\<close>

definition get_widgets_step :: "'h link \<Rightarrow> hda_codec \<Rightarrow> hda_widget \<Rightarrow> hda_stream \<times> nat \<times> 'h \<Rightarrow> hda_stream \<times> nat \<times> 'h" where
  "get_widgets_step send codec w s = (case s of (s, n, h) \<Rightarrow>
     if MAX_IO_WIDGETS \<le> n then (s, n, h)
     else let t = stream_type s; on = (flags w AND stream_flag t \<noteq> 0);
              s = (if on \<and> widget_type w = WT_PIN_COMPLEX then s\<lparr>pin_widget := node_id w\<rparr> else s);
              h = (if on then open_widget send codec (t = STREAM_PLAYBACK) w h else h)
          in if is_stream_converter t w then (add_converter w s n, Suc n, h) else (s, n, h))"

text \<open>Of several converters a record stream keeps one: the first that reaches the built-in microphone, or the first.\<close>

definition capture_converter :: "hda_audio_group \<Rightarrow> nat list \<Rightarrow> nat" where
  "capture_converter g nids = (case find (hda_adc_reaches_fixed_mic g) nids of Some nid \<Rightarrow> nid | None \<Rightarrow> hd nids)"

definition hda_audio_group_get_widgets :: "'h link \<Rightarrow> hda_codec \<Rightarrow> hda_audio_group \<Rightarrow> hda_stream \<Rightarrow> 'h \<Rightarrow> (status_t \<times> hda_stream) \<times> 'h" where
  "hda_audio_group_get_widgets send codec g s h =
     (case fold (get_widgets_step send codec) (take (widget_count g) (widgets g)) (s, 0, h) of (s, n, h) \<Rightarrow>
        let (s, n) = (if stream_type s = STREAM_RECORD \<and> 1 < n
              then (s\<lparr>io_widgets := (io_widgets s)[0 := capture_converter g (take n (io_widgets s))]\<rparr>, 1) else (s, n))
        in if n = 0 then ((B_ENTRY_NOT_FOUND, s), h) else ((B_OK, s\<lparr>num_io_widgets := n\<rparr>), h))"

section \<open>Detection of headphones\<close>

definition reports_presence :: "hda_widget \<Rightarrow> bool" where
  "reports_presence w \<longleftrightarrow> widget_type w = WT_PIN_COMPLEX \<and> cap_audio w AND AUDIO_CAP_UNSOLICITED_RESPONSES \<noteq> 0
     \<and> pin_capabilities w AND PIN_CAP_PRES_DETECT \<noteq> 0 \<and> CONF_DEFAULT_MISC (pin_config w) AND 1 = 0"

definition hda_audio_group_switch_init :: "'h link \<Rightarrow> hda_codec \<Rightarrow> hda_audio_group \<Rightarrow> 'h \<Rightarrow> 'h" where
  "hda_audio_group_switch_init send codec g h =
     fold (\<lambda>w. tell send [MAKE_VERB (addr codec) (node_id w) VID_SET_UNSOLRESP UNSOLRESP_ENABLE]) (filter reports_presence (take (widget_count g) (widgets g))) h"

definition pin_control_verb :: "hda_codec \<Rightarrow> hda_widget \<Rightarrow> bool \<Rightarrow> 32 word" where
  "pin_control_verb codec w enable = MAKE_VERB (addr codec) (node_id w) VID_SET_PIN_WIDGET_CONTROL
     (if enable then hda_widget_prepare_pin_ctrl codec w True else 0)"

text \<open>The first headphone pin is asked; \<open>junk\<close> is the response when the verb fails.\<close>

definition sense_headphone :: "'h link \<Rightarrow> hda_codec \<Rightarrow> hda_audio_group \<Rightarrow> 32 word \<Rightarrow> bool \<Rightarrow> 'h \<Rightarrow> bool \<times> 'h" where
  "sense_headphone send codec g junk disable h =
     (case find (\<lambda>w. is_output_pin w \<and> CONF_DEFAULT_DEVICE (pin_config w) = PIN_DEV_HEAD_PHONE_OUT) (take (widget_count g) (widgets g)) of
        None \<Rightarrow> (disable, h)
      | Some w \<Rightarrow>
         (let (r, h) = ask send (MAKE_VERB (addr codec) (node_id w) VID_GET_PINSENSE 0) h;
              disable = ((case r of Some x \<Rightarrow> x | None \<Rightarrow> junk) AND PIN_SENSE_PRESENCE_DETECT \<noteq> 0)
          in (disable, tell send [pin_control_verb codec w disable] h)))"

definition is_speaker_pin :: "hda_widget \<Rightarrow> bool" where
  "is_speaker_pin w \<longleftrightarrow> is_output_pin w \<and> CONF_DEFAULT_DEVICE (pin_config w) \<in> {PIN_DEV_AUX, PIN_DEV_SPEAKER, PIN_DEV_LINE_OUT}"

definition hda_audio_group_check_sense :: "'h link \<Rightarrow> hda_codec \<Rightarrow> hda_audio_group \<Rightarrow> 32 word \<Rightarrow> bool \<Rightarrow> 'h \<Rightarrow> 'h" where
  "hda_audio_group_check_sense send codec g junk disable h =
     (case sense_headphone send codec g junk disable h of (disable, h) \<Rightarrow>
        fold (\<lambda>w. tell send [pin_control_verb codec w (\<not> disable)]) (filter is_speaker_pin (take (widget_count g) (widgets g))) h)"

section \<open>What is sent to the codec\<close>

text \<open>A codec that answers by a function, with the verbs that were sent to it.\<close>

definition recording :: "(32 word \<Rightarrow> 32 word) \<Rightarrow> 32 word list link" where
  "recording f vs log = ((B_OK, map f vs), log @ vs)"

lemma recording_simps [simp]:
  "tell (recording f) vs log = log @ vs" "ask (recording f) v log = (Some (f v), log @ [v])"
  by (simp_all add: tell_def ask_def recording_def)

lemma tells_recording: "fold (\<lambda>x. tell (recording f) (v x)) xs log = log @ concat (map v xs)"
  by (induction xs arbitrary: log) simp_all

text \<open>The verbs that open a widget: its pin, its amplifier, and its inputs, all but the active one muted.\<close>

definition pin_verbs :: "(32 word \<Rightarrow> 32 word) \<Rightarrow> hda_codec \<Rightarrow> bool \<Rightarrow> hda_widget \<Rightarrow> 32 word list" where
  "pin_verbs f codec isOutput w =
     MAKE_VERB (addr codec) (node_id w) VID_SET_PIN_WIDGET_CONTROL (hda_widget_prepare_pin_ctrl codec w isOutput) #
     (if PIN_CAP_IS_EAPD_CAP (pin_capabilities w)
      then let get = MAKE_VERB (addr codec) (node_id w) VID_GET_EAPDBTL_EN 0
           in [get, MAKE_VERB (addr codec) (node_id w) VID_SET_EAPDBTL_EN ((f get AND 0xff) OR EAPDBTL_ENABLE_EAPD)]
      else [])"

definition open_verbs :: "(32 word \<Rightarrow> 32 word) \<Rightarrow> hda_codec \<Rightarrow> bool \<Rightarrow> hda_widget \<Rightarrow> 32 word list" where
  "open_verbs f codec isOutput w =
     (if widget_type w = WT_PIN_COMPLEX then pin_verbs f codec isOutput w else []) @
     (if cap_output_amplifier w \<noteq> 0 then [output_gain_verb codec w] else []) @
     (if cap_input_amplifier w \<noteq> 0 then map (input_gain_verb codec w) [0..<num_inputs w] else [])"

lemma open_widget_recording: "open_widget (recording f) codec isOutput w log = log @ open_verbs f codec isOutput w"
  using tells_recording [of f "\<lambda>i. [input_gain_verb codec w i]" "[0..<num_inputs w]"]
  by (simp add: open_widget_def enable_pin_def open_verbs_def pin_verbs_def Let_def)

text \<open>The state of the loop over the widgets, as long as there is room for their converters.\<close>

definition stream_of :: "hda_widget list \<Rightarrow> hda_stream \<Rightarrow> bool" where
  "stream_of convs s \<longleftrightarrow> length (io_widgets s) = MAX_IO_WIDGETS \<and> take (length convs) (io_widgets s) = map node_id convs \<and>
     (\<forall>w\<in>set convs. sample_format s \<subseteq> io_formats w \<and> sample_rate s \<subseteq> io_rates w)"

lemma add_converter_stream:
  assumes "stream_of convs s" "length convs < MAX_IO_WIDGETS"
  shows "stream_of (convs @ [w]) (add_converter w s (length convs)) \<and> stream_type (add_converter w s (length convs)) = stream_type s"
  using assms by (auto simp: stream_of_def add_converter_def Let_def take_Suc_conv_app_nth)

lemma get_widgets_fold:
  assumes "stream_of [] s" "length (filter (is_stream_converter (stream_type s)) ws) < MAX_IO_WIDGETS"
  shows "\<exists>s'. fold (get_widgets_step (recording f) codec) ws (s, 0, log) = (s', length (filter (is_stream_converter (stream_type s)) ws),
       log @ concat (map (open_verbs f codec (stream_type s = STREAM_PLAYBACK)) (filter (\<lambda>w. flags w AND stream_flag (stream_type s) \<noteq> 0) ws))) \<and>
     stream_type s' = stream_type s \<and> stream_of (filter (is_stream_converter (stream_type s)) ws) s'"
  using assms(2)
proof (induction ws rule: rev_induct)
  case (snoc w ws)
  let ?t = "stream_type s" and ?convs = "filter (is_stream_converter (stream_type s)) ws"
  obtain s1 where s1: "fold (get_widgets_step (recording f) codec) ws (s, 0, log) = (s1, length ?convs,
        log @ concat (map (open_verbs f codec (?t = STREAM_PLAYBACK)) (filter (\<lambda>w. flags w AND stream_flag ?t \<noteq> 0) ws)))"
      "stream_type s1 = ?t" "stream_of ?convs s1"
    using snoc by (auto split: if_splits)
  have n: "length ?convs < MAX_IO_WIDGETS"
    using snoc.prems by (auto split: if_splits)
  let ?s2 = "if flags w AND stream_flag ?t \<noteq> 0 \<and> widget_type w = WT_PIN_COMPLEX then s1\<lparr>pin_widget := node_id w\<rparr> else s1"
  have s2: "stream_of ?convs ?s2" "stream_type ?s2 = ?t"
    using s1(2,3) by (simp_all add: stream_of_def)
  define s3 where "s3 = ?s2"
  define log1 where "log1 = log @ concat (map (open_verbs f codec (?t = STREAM_PLAYBACK)) (filter (\<lambda>w. flags w AND stream_flag ?t \<noteq> 0) ws))"
  have step: "get_widgets_step (recording f) codec w (s1, length ?convs, log1)
      = (if is_stream_converter ?t w then (add_converter w s3 (length ?convs), Suc (length ?convs), log1 @ (if flags w AND stream_flag ?t \<noteq> 0 then open_verbs f codec (?t = STREAM_PLAYBACK) w else []))
         else (s3, length ?convs, log1 @ (if flags w AND stream_flag ?t \<noteq> 0 then open_verbs f codec (?t = STREAM_PLAYBACK) w else [])))"
    using n by (simp add: get_widgets_step_def Let_def open_widget_recording s1(2) s3_def)
  have "fold (get_widgets_step (recording f) codec) (ws @ [w]) (s, 0, log) = get_widgets_step (recording f) codec w (s1, length ?convs, log1)"
    by (simp add: s1(1) log1_def)
  then show ?case
    unfolding step using add_converter_stream [OF s2(1) n, of w] s2 unfolding s3_def [symmetric]
    by (cases "is_stream_converter ?t w"; cases "flags w AND stream_flag ?t \<noteq> 0") (simp_all add: log1_def)
qed (simp add: assms(1))



section \<open>A headphone pin that leads nowhere\<close>

text \<open>
  What \<open>headphone_pin\<close> excepts: a converter (node 2) behind a selector (3), which feeds a line output (5) directly and a headphone
  output (6) through a mixer (4).
\<close>

definition mixed_headphone :: hda_audio_group where
  "mixed_headphone = zero_group\<lparr>widget_start := 2, widget_count := 5, widgets :=
    [zero_widget\<lparr>node_id := 2, active_input := - 1\<rparr>,
     zero_widget\<lparr>node_id := 3, widget_type := WT_AUDIO_SELECTOR, num_inputs := 1, inputs := 2 # replicate 31 0\<rparr>,
     zero_widget\<lparr>node_id := 4, widget_type := WT_AUDIO_MIXER, num_inputs := 1, inputs := 3 # replicate 31 0\<rparr>,
     zero_widget\<lparr>node_id := 5, widget_type := WT_PIN_COMPLEX, num_inputs := 1, inputs := 3 # replicate 31 0, pin_capabilities := 0x10\<rparr>,
     zero_widget\<lparr>node_id := 6, widget_type := WT_PIN_COMPLEX, num_inputs := 1, inputs := 4 # replicate 31 0, pin_capabilities := 0x10, pin_config := 0x200000\<rparr>,
     zero_widget]\<rparr>"

lemma output_search_numeral: "output_search (numeral n) w g = output_search (Suc (pred_numeral n)) w g"
  by (simp add: numeral_eq_Suc)

text \<open>
  The headphone output is put on the path because its selector is already in use; the mixer between them is not, so nothing opens it.
\<close>

lemma headphone_dead_end:
  "let g = snd (hda_audio_group_build_output_tree True mixed_headphone) in
     on_path WIDGET_FLAG_OUTPUT_PATH g 4 \<and> active_widget g 4 = Some 2 \<and> \<not> on_path WIDGET_FLAG_OUTPUT_PATH g 2 \<and> \<not> playback_path g 4"
proof -
  have indices: "[0..<5] = [0, 1, 2, 3, 4 :: nat]"
    by (simp add: upt_rec)
  note search = output_search_numeral [unfolded output_search.simps]
  have tree: "widgets (snd (hda_audio_group_build_output_tree True mixed_headphone)) =
     [zero_widget\<lparr>node_id := 2, active_input := - 1, flags := 1\<rparr>,
     zero_widget\<lparr>node_id := 3, widget_type := WT_AUDIO_SELECTOR, num_inputs := 1, inputs := 2 # replicate 31 0, flags := 1\<rparr>,
     zero_widget\<lparr>node_id := 4, widget_type := WT_AUDIO_MIXER, num_inputs := 1, inputs := 3 # replicate 31 0\<rparr>,
     zero_widget\<lparr>node_id := 5, widget_type := WT_PIN_COMPLEX, num_inputs := 1, inputs := 3 # replicate 31 0, pin_capabilities := 0x10, flags := 1\<rparr>,
     zero_widget\<lparr>node_id := 6, widget_type := WT_PIN_COMPLEX, num_inputs := 1, inputs := 4 # replicate 31 0, pin_capabilities := 0x10, pin_config := 0x200000, flags := 1\<rparr>,
     zero_widget] \<and> widget_start (snd (hda_audio_group_build_output_tree True mixed_headphone)) = 2 \<and>
     widget_count (snd (hda_audio_group_build_output_tree True mixed_headphone)) = 5"
    by (simp add: hda_audio_group_build_output_tree_def mixed_headphone_def indices output_pin_step_def is_playback_pin_def is_output_pin_def widget_at_def
        zero_widget_def zero_group_def input_list_def hda_audio_group_get_widget_def PIN_CAP_IS_OUTPUT_def hda_consts CONF_DEFAULT_DEVICE_def pin_dev_defs
        hda_widget_find_output_path_def search update_widget_def mark_leaf_def mark_input_def WIDGET_FLAG_OUTPUT_PATH_def)
  define g where "g = snd (hda_audio_group_build_output_tree True mixed_headphone)"
  have facts: "on_path WIDGET_FLAG_OUTPUT_PATH g 4" "\<not> on_path WIDGET_FLAG_OUTPUT_PATH g 2" "active_widget g 4 = Some 2" "\<not> output_converter (widget_at g 4)"
    using tree unfolding g_def [symmetric]
    by (simp_all add: on_path_def widget_at_def active_widget_def hda_audio_group_get_widget_def zero_widget_def WIDGET_FLAG_OUTPUT_PATH_def output_converter_def)
  have "\<not> path_to WIDGET_FLAG_OUTPUT_PATH output_converter g 2"
    using facts(2) by (metis path_to.cases)
  then have "\<not> playback_path g 4"
    using facts(3,4) unfolding playback_path_def by (metis path_to.cases option.inject)
  with facts show ?thesis
    by (simp add: g_def)
qed

end
