(* ===== verification/Hda_Controller.thy ===== *)
theory Hda_Controller
  imports Hda_Paths
begin

text \<open>
  The controller of the HDA audio driver, the first half of \<open>src/hda/hda_controller.cpp\<close> with \<open>hda_controller_defs.h\<close>: the quirks,
  the reset, the rings for commands (CORB) and responses (RIRB), the part of the interrupt handler that reads the responses, and the sending of
  verbs. The registers are accessed through a bus over the state \<open>'d\<close> of the device; what happens while the sender waits for its semaphore
  (the device works, interrupts come) is an argument. It is shown that the responses belong to the verbs, with unsolicited responses in between, when
  the device serves the rings; and that a response which comes too late is taken for the one of the next verb, from then on.
\<close>

section \<open>Registers\<close>

definition HDAC_GLOBAL_CONTROL :: nat where "HDAC_GLOBAL_CONTROL = 0x08"
definition GLOBAL_CONTROL_UNSOLICITED :: "32 word" where "GLOBAL_CONTROL_UNSOLICITED = push_bit 8 1"
definition GLOBAL_CONTROL_RESET :: "32 word" where "GLOBAL_CONTROL_RESET = push_bit 0 1"
definition HDAC_INTR_CONTROL :: nat where "HDAC_INTR_CONTROL = 0x20"
definition HDAC_INTR_STATUS :: nat where "HDAC_INTR_STATUS = 0x24"
definition INTR_STATUS_GLOBAL :: "32 word" where "INTR_STATUS_GLOBAL = push_bit 31 1"
definition INTR_STATUS_CONTROLLER :: "32 word" where "INTR_STATUS_CONTROLLER = push_bit 30 1"
definition INTR_STATUS_STREAM_MASK :: "32 word" where "INTR_STATUS_STREAM_MASK = 0x3fffffff"
definition HDAC_CORB_BASE_LOWER :: nat where "HDAC_CORB_BASE_LOWER = 0x40"
definition HDAC_CORB_BASE_UPPER :: nat where "HDAC_CORB_BASE_UPPER = 0x44"
definition HDAC_CORB_WRITE_POS :: nat where "HDAC_CORB_WRITE_POS = 0x48"
definition HDAC_CORB_WRITE_POS_MASK :: "16 word" where "HDAC_CORB_WRITE_POS_MASK = 0xff"
definition HDAC_CORB_READ_POS :: nat where "HDAC_CORB_READ_POS = 0x4a"
definition CORB_READ_POS_RESET :: "16 word" where "CORB_READ_POS_RESET = push_bit 15 1"
definition HDAC_CORB_CONTROL :: nat where "HDAC_CORB_CONTROL = 0x4c"
definition HDAC_CORB_CONTROL_MASK :: "8 word" where "HDAC_CORB_CONTROL_MASK = 0x3"
definition CORB_CONTROL_RUN :: "8 word" where "CORB_CONTROL_RUN = push_bit 1 1"
definition CORB_CONTROL_MEMORY_ERROR_INTR :: "8 word" where "CORB_CONTROL_MEMORY_ERROR_INTR = push_bit 0 1"
definition HDAC_CORB_STATUS :: nat where "HDAC_CORB_STATUS = 0x4d"
definition HDAC_CORB_SIZE :: nat where "HDAC_CORB_SIZE = 0x4e"
definition HDAC_CORB_SIZE_MASK :: "8 word" where "HDAC_CORB_SIZE_MASK = 0x3"
definition CORB_SIZE_CAP_2_ENTRIES :: "8 word" where "CORB_SIZE_CAP_2_ENTRIES = push_bit 4 1"
definition CORB_SIZE_CAP_16_ENTRIES :: "8 word" where "CORB_SIZE_CAP_16_ENTRIES = push_bit 5 1"
definition CORB_SIZE_CAP_256_ENTRIES :: "8 word" where "CORB_SIZE_CAP_256_ENTRIES = push_bit 6 1"
definition CORB_SIZE_2_ENTRIES :: "8 word" where "CORB_SIZE_2_ENTRIES = 0x00"
definition CORB_SIZE_16_ENTRIES :: "8 word" where "CORB_SIZE_16_ENTRIES = 0x01"
definition CORB_SIZE_256_ENTRIES :: "8 word" where "CORB_SIZE_256_ENTRIES = 0x02"
definition HDAC_RIRB_BASE_LOWER :: nat where "HDAC_RIRB_BASE_LOWER = 0x50"
definition HDAC_RIRB_BASE_UPPER :: nat where "HDAC_RIRB_BASE_UPPER = 0x54"
definition HDAC_RIRB_WRITE_POS :: nat where "HDAC_RIRB_WRITE_POS = 0x58"
definition RIRB_WRITE_POS_RESET :: "16 word" where "RIRB_WRITE_POS_RESET = push_bit 15 1"
definition HDAC_RESPONSE_INTR_COUNT :: nat where "HDAC_RESPONSE_INTR_COUNT = 0x5a"
definition HDAC_RESPONSE_INTR_COUNT_MASK :: "16 word" where "HDAC_RESPONSE_INTR_COUNT_MASK = 0xff"
definition HDAC_RIRB_CONTROL :: nat where "HDAC_RIRB_CONTROL = 0x5c"
definition HDAC_RIRB_CONTROL_MASK :: "8 word" where "HDAC_RIRB_CONTROL_MASK = 0x7"
definition RIRB_CONTROL_OVERRUN_INTR :: "8 word" where "RIRB_CONTROL_OVERRUN_INTR = push_bit 2 1"
definition RIRB_CONTROL_DMA_ENABLE :: "8 word" where "RIRB_CONTROL_DMA_ENABLE = push_bit 1 1"
definition RIRB_CONTROL_RESPONSE_INTR :: "8 word" where "RIRB_CONTROL_RESPONSE_INTR = push_bit 0 1"
definition HDAC_RIRB_STATUS :: nat where "HDAC_RIRB_STATUS = 0x5d"
definition RIRB_STATUS_RESPONSE :: "8 word" where "RIRB_STATUS_RESPONSE = push_bit 0 1"
definition HDAC_RIRB_SIZE :: nat where "HDAC_RIRB_SIZE = 0x5e"
definition HDAC_RIRB_SIZE_MASK :: "8 word" where "HDAC_RIRB_SIZE_MASK = 0x3"
definition RIRB_SIZE_CAP_2_ENTRIES :: "8 word" where "RIRB_SIZE_CAP_2_ENTRIES = push_bit 4 1"
definition RIRB_SIZE_CAP_16_ENTRIES :: "8 word" where "RIRB_SIZE_CAP_16_ENTRIES = push_bit 5 1"
definition RIRB_SIZE_CAP_256_ENTRIES :: "8 word" where "RIRB_SIZE_CAP_256_ENTRIES = push_bit 6 1"
definition RIRB_SIZE_2_ENTRIES :: "8 word" where "RIRB_SIZE_2_ENTRIES = 0x00"
definition RIRB_SIZE_16_ENTRIES :: "8 word" where "RIRB_SIZE_16_ENTRIES = 0x01"
definition RIRB_SIZE_256_ENTRIES :: "8 word" where "RIRB_SIZE_256_ENTRIES = 0x02"
definition HDAC_DMA_POSITION_BASE_LOWER :: nat where "HDAC_DMA_POSITION_BASE_LOWER = 0x70"
definition HDAC_DMA_POSITION_BASE_UPPER :: nat where "HDAC_DMA_POSITION_BASE_UPPER = 0x74"
definition HDAC_STREAM_BASE :: nat where "HDAC_STREAM_BASE = 0x80"
definition HDAC_STREAM_SIZE :: nat where "HDAC_STREAM_SIZE = 0x20"
definition HDAC_STREAM_CONTROL0 :: nat where "HDAC_STREAM_CONTROL0 = 0x00"
definition HDAC_STREAM_STATUS :: nat where "HDAC_STREAM_STATUS = 0x03"
definition RESPONSE_FLAGS_CODEC_MASK :: "32 word" where "RESPONSE_FLAGS_CODEC_MASK = 0x0000000f"
definition RESPONSE_FLAGS_UNSOLICITED :: "32 word" where "RESPONSE_FLAGS_UNSOLICITED = push_bit 4 1"

text \<open>The bus: reading gives a value and may change the device, as writing and sleeping do.\<close>

record 'd hda_bus =
  bus_read8 :: "nat \<Rightarrow> 'd \<Rightarrow> 8 word \<times> 'd"
  bus_read16 :: "nat \<Rightarrow> 'd \<Rightarrow> 16 word \<times> 'd"
  bus_read32 :: "nat \<Rightarrow> 'd \<Rightarrow> 32 word \<times> 'd"
  bus_write8 :: "nat \<Rightarrow> 8 word \<Rightarrow> 'd \<Rightarrow> 'd"
  bus_write16 :: "nat \<Rightarrow> 16 word \<Rightarrow> 'd \<Rightarrow> 'd"
  bus_write32 :: "nat \<Rightarrow> 32 word \<Rightarrow> 'd \<Rightarrow> 'd"
  bus_snooze :: "nat \<Rightarrow> 'd \<Rightarrow> 'd"

definition ReadModifyWrite8 :: "'d hda_bus \<Rightarrow> nat \<Rightarrow> 8 word \<Rightarrow> 8 word \<Rightarrow> 'd \<Rightarrow> 'd" where
  "ReadModifyWrite8 b reg m v d = (case bus_read8 b reg d of (temp, d) \<Rightarrow> bus_write8 b reg ((temp AND NOT m) OR v) d)"

definition ReadModifyWrite16 :: "'d hda_bus \<Rightarrow> nat \<Rightarrow> 16 word \<Rightarrow> 16 word \<Rightarrow> 'd \<Rightarrow> 'd" where
  "ReadModifyWrite16 b reg m v d = (case bus_read16 b reg d of (temp, d) \<Rightarrow> bus_write16 b reg ((temp AND NOT m) OR v) d)"

text \<open>The wait for a bit: \<open>n\<close> is \<open>timeout + 1\<close>, the number of turns.\<close>

primrec wait_for_bits :: "nat \<Rightarrow> (nat \<Rightarrow> 'd \<Rightarrow> 'w::len word \<times> 'd) \<Rightarrow> (nat \<Rightarrow> 'd \<Rightarrow> 'd) \<Rightarrow> nat \<Rightarrow> nat \<Rightarrow> 'w word \<Rightarrow> bool \<Rightarrow> 'd \<Rightarrow> bool \<times> 'd" where
  "wait_for_bits 0 rd snooze delay reg m want d = (False, d)"
| "wait_for_bits (Suc n) rd snooze delay reg m want d =
     (case rd reg (snooze delay d) of (v, d) \<Rightarrow> if (v AND m \<noteq> 0) = want then (True, d) else wait_for_bits n rd snooze delay reg m want d)"

definition wait8 :: "'d hda_bus \<Rightarrow> nat \<Rightarrow> 8 word \<Rightarrow> bool \<Rightarrow> 'd \<Rightarrow> bool \<times> 'd" where
  "wait8 b = wait_for_bits 11 (bus_read8 b) (bus_snooze b) 100"

definition wait16 :: "'d hda_bus \<Rightarrow> nat \<Rightarrow> 16 word \<Rightarrow> bool \<Rightarrow> 'd \<Rightarrow> bool \<times> 'd" where
  "wait16 b = wait_for_bits 11 (bus_read16 b) (bus_snooze b) 100"

definition wait32 :: "'d hda_bus \<Rightarrow> nat \<Rightarrow> 32 word \<Rightarrow> bool \<Rightarrow> 'd \<Rightarrow> bool \<times> 'd" where
  "wait32 b = wait_for_bits 11 (bus_read32 b) (bus_snooze b) 100"

section \<open>The controller and its codecs\<close>

definition HDA_MAX_CODECS :: nat where "HDA_MAX_CODECS = 15"
definition MAX_CODEC_RESPONSES :: nat where "MAX_CODEC_RESPONSES = 16"
definition MAX_CODEC_UNSOL_RESPONSES :: nat where "MAX_CODEC_UNSOL_RESPONSES = 16"

text \<open>The part of a codec that the interrupt handler fills: the responses and the semaphores that count them.\<close>

record hda_mailbox =
  responses :: "32 word list"
  response_count :: nat
  response_sem :: nat
  unsol_responses :: "32 word list"
  unsol_response_read :: nat
  unsol_response_write :: nat
  unsol_response_sem :: nat

record hda_controller =
  num_input_streams :: nat
  num_output_streams :: nat
  num_bidir_streams :: nat
  is_64_bit :: bool
  corb_length :: nat
  rirb_length :: nat
  rirb_read_pos :: nat
  corb_write_pos :: nat
  corb :: "32 word list"
  rirb :: "(32 word \<times> 32 word) list"
  codecs :: "hda_mailbox option list"

definition current_rirb :: "hda_controller \<Rightarrow> 32 word \<times> 32 word" where
  "current_rirb c = rirb c ! rirb_read_pos c"

definition next_rirb :: "hda_controller \<Rightarrow> nat" where
  "next_rirb c = (rirb_read_pos c + 1) mod rirb_length c"

definition next_corb :: "hda_controller \<Rightarrow> nat" where
  "next_corb c = (corb_write_pos c + 1) mod corb_length c"

section \<open>Quirks\<close>

definition PCI_VENDOR_ATI :: nat where "PCI_VENDOR_ATI = 0x1002"
definition PCI_VENDOR_AMD :: nat where "PCI_VENDOR_AMD = 0x1022"
definition PCI_VENDOR_CREATIVE :: nat where "PCI_VENDOR_CREATIVE = 0x1102"
definition PCI_VENDOR_CMEDIA :: nat where "PCI_VENDOR_CMEDIA = 0x13f6"
definition PCI_VENDOR_INTEL :: nat where "PCI_VENDOR_INTEL = 0x8086"
definition PCI_VENDOR_NVIDIA :: nat where "PCI_VENDOR_NVIDIA = 0x10de"
definition PCI_VENDOR_VMWARE :: nat where "PCI_VENDOR_VMWARE = 0x15ad"
definition PCI_VENDOR_SIS :: nat where "PCI_VENDOR_SIS = 0x1039"
definition PCI_ALL_DEVICES :: nat where "PCI_ALL_DEVICES = 0xffffffff"
definition HDA_QUIRK_SNOOP :: "32 word" where "HDA_QUIRK_SNOOP = 0x0001"
definition HDA_QUIRK_NO_MSI :: "32 word" where "HDA_QUIRK_NO_MSI = 0x0002"
definition HDA_QUIRK_NO_CORBRP_RESET_ACK :: "32 word" where "HDA_QUIRK_NO_CORBRP_RESET_ACK = 0x0004"
definition HDA_QUIRK_NOTCSEL :: "32 word" where "HDA_QUIRK_NOTCSEL = 0x0008"
definition HDA_QUIRK_NO_64BITDMA :: "32 word" where "HDA_QUIRK_NO_64BITDMA = 0x0010"
definition HDA_QUIRK_NOINIT_MISCBDCGE :: "32 word" where "HDA_QUIRK_NOINIT_MISCBDCGE = 0x0020"
definition HDA_QUIRKS_AMD :: "32 word" where "HDA_QUIRKS_AMD = HDA_QUIRK_SNOOP OR HDA_QUIRK_NOTCSEL OR HDA_QUIRK_NO_64BITDMA"

text \<open>Vendor, device and quirks.\<close>

definition kControllerQuirks :: "(nat \<times> nat \<times> 32 word) list" where
  "kControllerQuirks =
    [(PCI_VENDOR_INTEL, 0x02c8, HDA_QUIRK_SNOOP OR HDA_QUIRK_NOINIT_MISCBDCGE),
     (PCI_VENDOR_INTEL, 0x06c8, HDA_QUIRK_SNOOP OR HDA_QUIRK_NOINIT_MISCBDCGE),
     (PCI_VENDOR_INTEL, 0x080a, HDA_QUIRK_SNOOP),
     (PCI_VENDOR_INTEL, 0x0a0c, HDA_QUIRK_SNOOP),
     (PCI_VENDOR_INTEL, 0x0c0c, HDA_QUIRK_SNOOP),
     (PCI_VENDOR_INTEL, 0x0d0c, HDA_QUIRK_SNOOP),
     (PCI_VENDOR_INTEL, 0x0f04, HDA_QUIRK_SNOOP),
     (PCI_VENDOR_INTEL, 0x160c, HDA_QUIRK_SNOOP),
     (PCI_VENDOR_INTEL, 0x1a98, HDA_QUIRK_SNOOP OR HDA_QUIRK_NOINIT_MISCBDCGE),
     (PCI_VENDOR_INTEL, 0x1c20, HDA_QUIRK_SNOOP),
     (PCI_VENDOR_INTEL, 0x1d20, HDA_QUIRK_SNOOP),
     (PCI_VENDOR_INTEL, 0x1e20, HDA_QUIRK_SNOOP),
     (PCI_VENDOR_INTEL, 0x2284, HDA_QUIRK_SNOOP),
     (PCI_VENDOR_INTEL, 0x3198, HDA_QUIRK_SNOOP OR HDA_QUIRK_NOINIT_MISCBDCGE),
     (PCI_VENDOR_INTEL, 0x34c8, HDA_QUIRK_SNOOP OR HDA_QUIRK_NOINIT_MISCBDCGE),
     (PCI_VENDOR_INTEL, 0x38c8, HDA_QUIRK_SNOOP),
     (PCI_VENDOR_INTEL, 0x3b56, HDA_QUIRK_SNOOP),
     (PCI_VENDOR_INTEL, 0x3b57, HDA_QUIRK_SNOOP),
     (PCI_VENDOR_INTEL, 0x3dc8, HDA_QUIRK_SNOOP OR HDA_QUIRK_NOINIT_MISCBDCGE),
     (PCI_VENDOR_INTEL, 0x43c8, HDA_QUIRK_SNOOP OR HDA_QUIRK_NOINIT_MISCBDCGE),
     (PCI_VENDOR_INTEL, 0x490d, HDA_QUIRK_SNOOP OR HDA_QUIRK_NOINIT_MISCBDCGE),
     (PCI_VENDOR_INTEL, 0x4b55, HDA_QUIRK_SNOOP OR HDA_QUIRK_NOINIT_MISCBDCGE),
     (PCI_VENDOR_INTEL, 0x4b58, HDA_QUIRK_SNOOP OR HDA_QUIRK_NOINIT_MISCBDCGE),
     (PCI_VENDOR_INTEL, 0x4d55, HDA_QUIRK_SNOOP),
     (PCI_VENDOR_INTEL, 0x4dc8, HDA_QUIRK_SNOOP),
     (PCI_VENDOR_INTEL, 0x4f90, HDA_QUIRK_SNOOP OR HDA_QUIRK_NOINIT_MISCBDCGE),
     (PCI_VENDOR_INTEL, 0x4f91, HDA_QUIRK_SNOOP OR HDA_QUIRK_NOINIT_MISCBDCGE),
     (PCI_VENDOR_INTEL, 0x4f92, HDA_QUIRK_SNOOP OR HDA_QUIRK_NOINIT_MISCBDCGE),
     (PCI_VENDOR_INTEL, 0x51c8, HDA_QUIRK_SNOOP OR HDA_QUIRK_NOINIT_MISCBDCGE),
     (PCI_VENDOR_INTEL, 0x51c9, HDA_QUIRK_SNOOP OR HDA_QUIRK_NOINIT_MISCBDCGE),
     (PCI_VENDOR_INTEL, 0x51ca, HDA_QUIRK_SNOOP OR HDA_QUIRK_NOINIT_MISCBDCGE),
     (PCI_VENDOR_INTEL, 0x51cb, HDA_QUIRK_SNOOP OR HDA_QUIRK_NOINIT_MISCBDCGE),
     (PCI_VENDOR_INTEL, 0x51cc, HDA_QUIRK_SNOOP OR HDA_QUIRK_NOINIT_MISCBDCGE),
     (PCI_VENDOR_INTEL, 0x51cd, HDA_QUIRK_SNOOP OR HDA_QUIRK_NOINIT_MISCBDCGE),
     (PCI_VENDOR_INTEL, 0x51ce, HDA_QUIRK_SNOOP OR HDA_QUIRK_NOINIT_MISCBDCGE),
     (PCI_VENDOR_INTEL, 0x51cf, HDA_QUIRK_SNOOP OR HDA_QUIRK_NOINIT_MISCBDCGE),
     (PCI_VENDOR_INTEL, 0x54c8, HDA_QUIRK_SNOOP OR HDA_QUIRK_NOINIT_MISCBDCGE),
     (PCI_VENDOR_INTEL, 0x5a98, HDA_QUIRK_SNOOP OR HDA_QUIRK_NOINIT_MISCBDCGE),
     (PCI_VENDOR_INTEL, 0x7a50, HDA_QUIRK_SNOOP OR HDA_QUIRK_NOINIT_MISCBDCGE),
     (PCI_VENDOR_INTEL, 0x7ad0, HDA_QUIRK_SNOOP OR HDA_QUIRK_NOINIT_MISCBDCGE),
     (PCI_VENDOR_INTEL, 0x7e28, HDA_QUIRK_SNOOP OR HDA_QUIRK_NOINIT_MISCBDCGE),
     (PCI_VENDOR_INTEL, 0x811b, HDA_QUIRK_SNOOP),
     (PCI_VENDOR_INTEL, 0x8c20, HDA_QUIRK_SNOOP),
     (PCI_VENDOR_INTEL, 0x8c21, HDA_QUIRK_SNOOP),
     (PCI_VENDOR_INTEL, 0x8ca0, HDA_QUIRK_SNOOP),
     (PCI_VENDOR_INTEL, 0x8d20, HDA_QUIRK_SNOOP),
     (PCI_VENDOR_INTEL, 0x8d21, HDA_QUIRK_SNOOP),
     (PCI_VENDOR_INTEL, 0x9c20, HDA_QUIRK_SNOOP),
     (PCI_VENDOR_INTEL, 0x9c21, HDA_QUIRK_SNOOP),
     (PCI_VENDOR_INTEL, 0x9ca0, HDA_QUIRK_SNOOP),
     (PCI_VENDOR_INTEL, 0x9d70, HDA_QUIRK_SNOOP OR HDA_QUIRK_NOINIT_MISCBDCGE),
     (PCI_VENDOR_INTEL, 0x9d71, HDA_QUIRK_SNOOP OR HDA_QUIRK_NOINIT_MISCBDCGE),
     (PCI_VENDOR_INTEL, 0x9dc8, HDA_QUIRK_SNOOP OR HDA_QUIRK_NOINIT_MISCBDCGE),
     (PCI_VENDOR_INTEL, 0xa0c8, HDA_QUIRK_SNOOP OR HDA_QUIRK_NOINIT_MISCBDCGE),
     (PCI_VENDOR_INTEL, 0xa170, HDA_QUIRK_SNOOP OR HDA_QUIRK_NOINIT_MISCBDCGE),
     (PCI_VENDOR_INTEL, 0xa171, HDA_QUIRK_SNOOP OR HDA_QUIRK_NOINIT_MISCBDCGE),
     (PCI_VENDOR_INTEL, 0xa1f0, HDA_QUIRK_SNOOP OR HDA_QUIRK_NOINIT_MISCBDCGE),
     (PCI_VENDOR_INTEL, 0xa270, HDA_QUIRK_SNOOP OR HDA_QUIRK_NOINIT_MISCBDCGE),
     (PCI_VENDOR_INTEL, 0xa2f0, HDA_QUIRK_SNOOP OR HDA_QUIRK_NOINIT_MISCBDCGE),
     (PCI_VENDOR_INTEL, 0xa348, HDA_QUIRK_SNOOP OR HDA_QUIRK_NOINIT_MISCBDCGE),
     (PCI_VENDOR_INTEL, 0xa3f0, HDA_QUIRK_SNOOP OR HDA_QUIRK_NOINIT_MISCBDCGE),
     (PCI_VENDOR_INTEL, 0xf0c8, HDA_QUIRK_SNOOP OR HDA_QUIRK_NOINIT_MISCBDCGE),
     (PCI_VENDOR_INTEL, 0xf1c8, HDA_QUIRK_SNOOP OR HDA_QUIRK_NOINIT_MISCBDCGE),
     (PCI_VENDOR_ATI, 0x437b, HDA_QUIRKS_AMD),
     (PCI_VENDOR_ATI, 0x4383, HDA_QUIRKS_AMD),
     (PCI_VENDOR_AMD, 0x157a, HDA_QUIRKS_AMD),
     (PCI_VENDOR_AMD, 0x780d, HDA_QUIRKS_AMD),
     (PCI_VENDOR_AMD, 0x1457, HDA_QUIRKS_AMD),
     (PCI_VENDOR_AMD, 0x1487, HDA_QUIRKS_AMD),
     (PCI_VENDOR_AMD, 0x15e3, HDA_QUIRKS_AMD),
     (PCI_VENDOR_NVIDIA, PCI_ALL_DEVICES, HDA_QUIRK_SNOOP OR HDA_QUIRK_NO_MSI OR HDA_QUIRK_NO_CORBRP_RESET_ACK OR HDA_QUIRK_NO_64BITDMA),
     (PCI_VENDOR_CMEDIA, 0x5011, HDA_QUIRK_NO_MSI),
     (PCI_VENDOR_CREATIVE, 0x0010, HDA_QUIRK_NO_MSI OR HDA_QUIRK_NO_64BITDMA),
     (PCI_VENDOR_CREATIVE, 0x0012, HDA_QUIRK_NO_MSI OR HDA_QUIRK_NO_64BITDMA),
     (PCI_VENDOR_VMWARE, PCI_ALL_DEVICES, HDA_QUIRK_NO_CORBRP_RESET_ACK),
     (PCI_VENDOR_SIS, 0x7502, HDA_QUIRK_NO_CORBRP_RESET_ACK),
     (PCI_VENDOR_ATI, PCI_ALL_DEVICES, HDA_QUIRK_NO_64BITDMA)]"

definition get_controller_quirks :: "nat \<Rightarrow> nat \<Rightarrow> 32 word" where
  "get_controller_quirks vendor device =
     (case find (\<lambda>(v, d, q). vendor = v \<and> (d = PCI_ALL_DEVICES \<or> d = device)) kControllerQuirks of
        Some (_, _, q) \<Rightarrow> q | None \<Rightarrow> 0)"

section \<open>Reset\<close>

definition HDAC_INPUT_STREAM_OFFSET :: "hda_controller \<Rightarrow> nat \<Rightarrow> nat" where
  "HDAC_INPUT_STREAM_OFFSET c i = i * HDAC_STREAM_SIZE"

definition HDAC_OUTPUT_STREAM_OFFSET :: "hda_controller \<Rightarrow> nat \<Rightarrow> nat" where
  "HDAC_OUTPUT_STREAM_OFFSET c i = (num_input_streams c + i) * HDAC_STREAM_SIZE"

definition HDAC_BIDIR_STREAM_OFFSET :: "hda_controller \<Rightarrow> nat \<Rightarrow> nat" where
  "HDAC_BIDIR_STREAM_OFFSET c i = (num_input_streams c + num_output_streams c + i) * HDAC_STREAM_SIZE"

definition clear_stream :: "'d hda_bus \<Rightarrow> nat \<Rightarrow> 'd \<Rightarrow> 'd" where
  "clear_stream b offset d =
     bus_write8 b (HDAC_STREAM_STATUS + HDAC_STREAM_BASE + offset) 0 (bus_write8 b (HDAC_STREAM_CONTROL0 + HDAC_STREAM_BASE + offset) 0 d)"

text \<open>Streams and DMA are stopped; false when the DMA does not stop.\<close>

definition stop_dma :: "'d hda_bus \<Rightarrow> hda_controller \<Rightarrow> 'd \<Rightarrow> bool \<times> 'd" where
  "stop_dma b c d =
     (let d = bus_write32 b HDAC_INTR_CONTROL 0 d;
          d = fold (\<lambda>i. clear_stream b (HDAC_INPUT_STREAM_OFFSET c i)) [0..<num_input_streams c] d;
          d = fold (\<lambda>i. clear_stream b (HDAC_OUTPUT_STREAM_OFFSET c i)) [0..<num_output_streams c] d;
          d = fold (\<lambda>i. clear_stream b (HDAC_BIDIR_STREAM_OFFSET c i)) [0..<num_bidir_streams c] d;
          d = ReadModifyWrite8 b HDAC_CORB_CONTROL HDAC_CORB_CONTROL_MASK 0 d;
          d = ReadModifyWrite8 b HDAC_RIRB_CONTROL HDAC_RIRB_CONTROL_MASK 0 d;
          (corb_stopped, d) = wait8 b HDAC_CORB_CONTROL (- 1) False d
      in if \<not> corb_stopped then (False, d) else wait8 b HDAC_RIRB_CONTROL (- 1) False d)"

text \<open>The reset bit is cleared and set again.\<close>

definition pulse_reset :: "'d hda_bus \<Rightarrow> 32 word \<Rightarrow> 'd \<Rightarrow> status_t \<times> 'd" where
  "pulse_reset b control d =
     (let d = bus_write32 b HDAC_GLOBAL_CONTROL (control AND NOT GLOBAL_CONTROL_RESET) d;
          (cleared, d) = wait32 b HDAC_GLOBAL_CONTROL GLOBAL_CONTROL_RESET False d
      in if \<not> cleared then (B_BUSY, d)
         else let d = bus_snooze b 1000 d;
                  (control, d) = bus_read32 b HDAC_GLOBAL_CONTROL d;
                  d = bus_write32 b HDAC_GLOBAL_CONTROL (control OR GLOBAL_CONTROL_RESET) d;
                  (set_again, d) = wait32 b HDAC_GLOBAL_CONTROL GLOBAL_CONTROL_RESET True d
              in if \<not> set_again then (B_BUSY, d)
                 else let d = bus_snooze b 1000 d;
                          (control, d) = bus_read32 b HDAC_GLOBAL_CONTROL d
                      in (B_OK, bus_write32 b HDAC_GLOBAL_CONTROL (control OR GLOBAL_CONTROL_UNSOLICITED) d))"

definition reset_controller :: "'d hda_bus \<Rightarrow> hda_controller \<Rightarrow> 'd \<Rightarrow> status_t \<times> 'd" where
  "reset_controller b c d =
     (case bus_read32 b HDAC_GLOBAL_CONTROL d of (control, d) \<Rightarrow>
        if control AND GLOBAL_CONTROL_RESET = 0 then pulse_reset b control d
        else case stop_dma b c d of (stopped, d) \<Rightarrow>
          if \<not> stopped then (B_BUSY, d)
          else let d = bus_write32 b HDAC_DMA_POSITION_BASE_LOWER 0 d;
                   d = bus_write32 b HDAC_DMA_POSITION_BASE_UPPER 0 d;
                   (control, d) = bus_read32 b HDAC_GLOBAL_CONTROL d
               in pulse_reset b control d)"

section \<open>The rings\<close>

text \<open>The largest size that the capabilities name; no size is set when they name none.\<close>

definition set_corb_size :: "'d hda_bus \<Rightarrow> hda_controller \<Rightarrow> 'd \<Rightarrow> hda_controller \<times> 'd" where
  "set_corb_size b c d =
     (case bus_read8 b HDAC_CORB_SIZE d of (cap, d) \<Rightarrow>
        if cap AND CORB_SIZE_CAP_256_ENTRIES \<noteq> 0 then
          (c\<lparr>corb_length := 256\<rparr>, ReadModifyWrite8 b HDAC_CORB_SIZE HDAC_CORB_SIZE_MASK CORB_SIZE_256_ENTRIES d)
        else if cap AND CORB_SIZE_CAP_16_ENTRIES \<noteq> 0 then
          (c\<lparr>corb_length := 16\<rparr>, ReadModifyWrite8 b HDAC_CORB_SIZE HDAC_CORB_SIZE_MASK CORB_SIZE_16_ENTRIES d)
        else if cap AND CORB_SIZE_CAP_2_ENTRIES \<noteq> 0 then
          (c\<lparr>corb_length := 2\<rparr>, ReadModifyWrite8 b HDAC_CORB_SIZE HDAC_CORB_SIZE_MASK CORB_SIZE_2_ENTRIES d)
        else (c, d))"

definition set_rirb_size :: "'d hda_bus \<Rightarrow> hda_controller \<Rightarrow> 'd \<Rightarrow> hda_controller \<times> 'd" where
  "set_rirb_size b c d =
     (case bus_read8 b HDAC_RIRB_SIZE d of (cap, d) \<Rightarrow>
        if cap AND RIRB_SIZE_CAP_256_ENTRIES \<noteq> 0 then
          (c\<lparr>rirb_length := 256\<rparr>, ReadModifyWrite8 b HDAC_RIRB_SIZE HDAC_RIRB_SIZE_MASK RIRB_SIZE_256_ENTRIES d)
        else if cap AND RIRB_SIZE_CAP_16_ENTRIES \<noteq> 0 then
          (c\<lparr>rirb_length := 16\<rparr>, ReadModifyWrite8 b HDAC_RIRB_SIZE HDAC_RIRB_SIZE_MASK RIRB_SIZE_16_ENTRIES d)
        else if cap AND RIRB_SIZE_CAP_2_ENTRIES \<noteq> 0 then
          (c\<lparr>rirb_length := 2\<rparr>, ReadModifyWrite8 b HDAC_RIRB_SIZE HDAC_RIRB_SIZE_MASK RIRB_SIZE_2_ENTRIES d)
        else (c, d))"

definition ALIGN :: "nat \<Rightarrow> nat \<Rightarrow> nat" where
  "ALIGN s a = (s + a - 1) div a * a"

text \<open>Offsets of the responses and of the stream positions behind the commands, and the size of the area.\<close>

definition rirb_offset :: "hda_controller \<Rightarrow> nat" where
  "rirb_offset c = ALIGN (corb_length c * 4) 128"

definition pos_offset :: "hda_controller \<Rightarrow> nat" where
  "pos_offset c = ALIGN (rirb_offset c + rirb_length c * 8) 128"

definition pos_size :: "hda_controller \<Rightarrow> nat" where
  "pos_size c = 8 * (num_input_streams c + num_output_streams c + num_bidir_streams c) mod 256"

definition ring_memory :: "hda_controller \<Rightarrow> nat" where
  "ring_memory c = ALIGN (pos_offset c + pos_size c) 4096"

text \<open>A base address is written to a pair of registers; the upper half only on a 64-bit controller.\<close>

definition write_base :: "'d hda_bus \<Rightarrow> hda_controller \<Rightarrow> nat \<Rightarrow> nat \<Rightarrow> nat \<Rightarrow> 'd \<Rightarrow> 'd" where
  "write_base b c lower upper address d =
     (let d = bus_write32 b lower (of_nat address) d
      in if is_64_bit c then bus_write32 b upper (of_nat (address div 2 ^ 32)) d else d)"

text \<open>The read pointer is reset; hardware with the quirk never acknowledges it.\<close>

definition reset_corb_read_pos :: "'d hda_bus \<Rightarrow> 32 word \<Rightarrow> 'd \<Rightarrow> status_t \<times> 'd" where
  "reset_corb_read_pos b ctl_quirks d =
     (let (p, d) = bus_read16 b HDAC_CORB_READ_POS d;
          p = p OR CORB_READ_POS_RESET;
          d = bus_write16 b HDAC_CORB_READ_POS p d;
          (acknowledged, d) = wait16 b HDAC_CORB_READ_POS CORB_READ_POS_RESET True d
      in if \<not> acknowledged \<and> ctl_quirks AND HDA_QUIRK_NO_CORBRP_RESET_ACK = 0 then (B_BUSY, d)
         else let d = bus_write16 b HDAC_CORB_READ_POS (p AND NOT CORB_READ_POS_RESET) d;
                  (done_reset, d) = wait16 b HDAC_CORB_READ_POS CORB_READ_POS_RESET False d
              in (if done_reset then B_OK else B_BUSY, d))"

text \<open>\<open>area\<close> gives the status of the allocation of so many bytes with the physical address; a new area is cleared.\<close>

definition init_corb_rirb_pos :: "'d hda_bus \<Rightarrow> (nat \<Rightarrow> status_t \<times> nat) \<Rightarrow> hda_controller \<Rightarrow> 32 word \<Rightarrow> 'd \<Rightarrow> status_t \<times> hda_controller \<times> 'd" where
  "init_corb_rirb_pos b area c ctl_quirks d =
     (let (c, d) = set_corb_size b c d;
          (c, d) = set_rirb_size b c d;
          (st, address) = area (ring_memory c)
      in if st \<noteq> B_OK then (st, c, d)
         else let c = c\<lparr>corb := replicate (corb_length c) 0, rirb := replicate (rirb_length c) (0, 0)\<rparr>;
                  d = write_base b c HDAC_CORB_BASE_LOWER HDAC_CORB_BASE_UPPER address d;
                  d = write_base b c HDAC_RIRB_BASE_LOWER HDAC_RIRB_BASE_UPPER (address + rirb_offset c) d;
                  d = write_base b c HDAC_DMA_POSITION_BASE_LOWER HDAC_DMA_POSITION_BASE_UPPER (address + pos_offset c) d;
                  d = ReadModifyWrite16 b HDAC_CORB_WRITE_POS HDAC_CORB_WRITE_POS_MASK 0 d;
                  (st, d) = reset_corb_read_pos b ctl_quirks d
              in if st \<noteq> B_OK then (st, c, d)
                 else let d = ReadModifyWrite16 b HDAC_RIRB_WRITE_POS RIRB_WRITE_POS_RESET RIRB_WRITE_POS_RESET d;
                          d = ReadModifyWrite16 b HDAC_RESPONSE_INTR_COUNT HDAC_RESPONSE_INTR_COUNT_MASK 1 d;
                          c = c\<lparr>rirb_read_pos := 1, corb_write_pos := 0\<rparr>;
                          d = ReadModifyWrite8 b HDAC_CORB_CONTROL HDAC_CORB_CONTROL_MASK (CORB_CONTROL_RUN OR CORB_CONTROL_MEMORY_ERROR_INTR) d
                      in (B_OK, c, ReadModifyWrite8 b HDAC_RIRB_CONTROL HDAC_RIRB_CONTROL_MASK
                           (RIRB_CONTROL_DMA_ENABLE OR RIRB_CONTROL_OVERRUN_INTR OR RIRB_CONTROL_RESPONSE_INTR) d))"

section \<open>Responses\<close>

text \<open>One response of the ring goes to the codec that its flags name; true when somebody is woken up.\<close>

definition receive_response :: "32 word \<Rightarrow> 32 word \<Rightarrow> hda_mailbox option list \<Rightarrow> bool \<times> hda_mailbox option list" where
  "receive_response response rflags cs =
     (let cad = unat (rflags AND RESPONSE_FLAGS_CODEC_MASK)
      in case cs ! cad of None \<Rightarrow> (False, cs)
         | Some q \<Rightarrow>
             if rflags AND RESPONSE_FLAGS_UNSOLICITED \<noteq> 0 then
               (True, cs[cad := Some (q\<lparr>unsol_responses := (unsol_responses q)[unsol_response_write q := response],
                   unsol_response_write := (unsol_response_write q + 1) mod MAX_CODEC_UNSOL_RESPONSES, unsol_response_sem := unsol_response_sem q + 1\<rparr>)])
             else if MAX_CODEC_RESPONSES \<le> response_count q then (False, cs)
             else (True, cs[cad := Some (q\<lparr>responses := (responses q)[response_count q := response],
                   response_count := response_count q + 1, response_sem := response_sem q + 1\<rparr>)]))"

text \<open>The loop over the responses up to \<open>writePos\<close>, with \<open>n\<close> turns left.\<close>

primrec rirb_loop :: "nat \<Rightarrow> nat \<Rightarrow> bool \<Rightarrow> hda_controller \<Rightarrow> (bool \<times> hda_controller) option" where
  "rirb_loop 0 writePos woken c = None"
| "rirb_loop (Suc n) writePos woken c =
     (if rirb_read_pos c = writePos then Some (woken, c)
      else case receive_response (fst (current_rirb c)) (snd (current_rirb c)) (codecs c) of (w, cs) \<Rightarrow>
        rirb_loop n writePos (woken \<or> w) (c\<lparr>codecs := cs, rirb_read_pos := next_rirb c\<rparr>))"

text \<open>The part of the interrupt handler that the controller asks for, with a turn of the loop for each element of the ring.\<close>

definition controller_interrupt :: "'d hda_bus \<Rightarrow> hda_controller \<Rightarrow> 'd \<Rightarrow> (bool \<times> hda_controller \<times> 'd) option" where
  "controller_interrupt b c d =
     (let (rirbStatus, d) = bus_read8 b HDAC_RIRB_STATUS d;
          (corbStatus, d) = bus_read8 b HDAC_CORB_STATUS d;
          acknowledge_corb = (\<lambda>d. if corbStatus \<noteq> 0 then bus_write8 b HDAC_CORB_STATUS corbStatus d else d)
      in if rirbStatus = 0 then Some (False, c, acknowledge_corb d)
         else let d = bus_write8 b HDAC_RIRB_STATUS rirbStatus d
              in if rirbStatus AND RIRB_STATUS_RESPONSE = 0 then Some (False, c, acknowledge_corb d)
                 else let (p, d) = bus_read16 b HDAC_RIRB_WRITE_POS d;
                          writePos = (unat p + 1) mod rirb_length c
                      in map_option (\<lambda>(woken, c). (woken, c, acknowledge_corb d)) (rirb_loop (rirb_length c) writePos False c))"

datatype interrupt_result = B_UNHANDLED_INTERRUPT | B_HANDLED_INTERRUPT | B_INVOKE_SCHEDULER

text \<open>The handler; the streams, a table \<open>t\<close>, are handled by an argument, which says whether the scheduler shall be invoked.\<close>

definition hda_interrupt_handler ::
    "'d hda_bus \<Rightarrow> (32 word \<Rightarrow> 't \<times> 'd \<Rightarrow> (bool \<times> 't \<times> 'd) option) \<Rightarrow> hda_controller \<Rightarrow> 't \<times> 'd \<Rightarrow> (interrupt_result \<times> hda_controller \<times> 't \<times> 'd) option" where
  "hda_interrupt_handler b handle_streams c td =
     (case td of (t, d) \<Rightarrow> case bus_read32 b HDAC_INTR_STATUS d of (intrStatus, d) \<Rightarrow>
        if intrStatus AND INTR_STATUS_GLOBAL = 0 then Some (B_UNHANDLED_INTERRUPT, c, t, d)
        else case (if intrStatus AND INTR_STATUS_CONTROLLER \<noteq> 0 then controller_interrupt b c d else Some (False, c, d)) of
           None \<Rightarrow> None
         | Some (woken, c, d) \<Rightarrow>
             (case (if intrStatus AND INTR_STATUS_STREAM_MASK \<noteq> 0 then handle_streams intrStatus (t, d) else Some (False, t, d)) of
                None \<Rightarrow> None
              | Some (reschedule, t, d) \<Rightarrow> Some (if woken \<or> reschedule then B_INVOKE_SCHEDULER else B_HANDLED_INTERRUPT, c, t, d)))"

section \<open>Sending\<close>

text \<open>
  The inner loop: verbs are put into the ring until it is full. The verbs that are left come back with the controller and the number of those
  queued.
\<close>

fun queue_verbs :: "nat \<Rightarrow> 32 word list \<Rightarrow> nat \<Rightarrow> hda_controller \<Rightarrow> 32 word list \<times> nat \<times> hda_controller" where
  "queue_verbs readPos [] queued c = ([], queued, c)"
| "queue_verbs readPos (v # vs) queued c =
     (if next_corb c = readPos then (v # vs, queued, c)
      else queue_verbs readPos vs (queued + 1) (c\<lparr>corb := (corb c)[next_corb c := v], corb_write_pos := next_corb c\<rparr>))"

definition mailbox :: "hda_controller \<Rightarrow> nat \<Rightarrow> hda_mailbox" where
  "mailbox c cad = the (codecs c ! cad)"

definition update_mailbox :: "nat \<Rightarrow> (hda_mailbox \<Rightarrow> hda_mailbox) \<Rightarrow> hda_controller \<Rightarrow> hda_controller" where
  "update_mailbox cad f c = c\<lparr>codecs := (codecs c)[cad := map_option f (codecs c ! cad)]\<rparr>"

text \<open>
  \<open>acquire_sem_etc\<close> with a timeout: \<open>wait\<close> is what happens in the meantime; the semaphore is taken when it is high enough then. A count
  of 0 is a bad value.
\<close>

definition acquire_responses :: "(hda_controller \<times> 'd \<Rightarrow> hda_controller \<times> 'd) \<Rightarrow> nat \<Rightarrow> nat \<Rightarrow> hda_controller \<times> 'd \<Rightarrow> status_t \<times> hda_controller \<times> 'd" where
  "acquire_responses wait cad queued s =
     (if queued = 0 then (B_BAD_VALUE, s)
      else case (if queued \<le> response_sem (mailbox (fst s) cad) then s else wait s) of (c, d) \<Rightarrow>
        if queued \<le> response_sem (mailbox c cad)
        then (B_OK, update_mailbox cad (\<lambda>q. q\<lparr>response_sem := response_sem q - queued\<rparr>) c, d)
        else (B_TIMED_OUT, c, d))"

text \<open>The outer loop, with \<open>n\<close> turns left.\<close>

primrec send_loop :: "nat \<Rightarrow> 'd hda_bus \<Rightarrow> (hda_controller \<times> 'd \<Rightarrow> hda_controller \<times> 'd) \<Rightarrow> nat \<Rightarrow> 32 word list \<Rightarrow> hda_controller \<times> 'd \<Rightarrow>
    (status_t \<times> hda_controller \<times> 'd) option" where
  "send_loop 0 b wait cad vs s = (if vs = [] then Some (B_OK, s) else None)"
| "send_loop (Suc n) b wait cad vs s =
     (if vs = [] then Some (B_OK, s)
      else let (readPos, d) = bus_read16 b HDAC_CORB_READ_POS (snd s);
               (vs, queued, c) = queue_verbs (unat readPos) vs 0 (fst s);
               d = bus_write16 b HDAC_CORB_WRITE_POS (of_nat (corb_write_pos c)) d
           in case acquire_responses wait cad queued (c, d) of (st, s) \<Rightarrow>
                if st \<noteq> B_OK then Some (st, s) else send_loop n b wait cad vs s)"

text \<open>The responses that are handed over are the first of the buffer.\<close>

definition hda_send_verbs ::
    "nat \<Rightarrow> 'd hda_bus \<Rightarrow> (hda_controller \<times> 'd \<Rightarrow> hda_controller \<times> 'd) \<Rightarrow> nat \<Rightarrow> 32 word list \<Rightarrow> hda_controller \<times> 'd \<Rightarrow>
     ((status_t \<times> 32 word list) \<times> hda_controller \<times> 'd) option" where
  "hda_send_verbs n b wait cad vs s =
     (case send_loop n b wait cad vs (update_mailbox cad (\<lambda>q. q\<lparr>response_count := 0\<rparr>) (fst s), snd s) of
        None \<Rightarrow> None
      | Some (st, s) \<Rightarrow> Some ((st, if st = B_OK then take (length vs) (responses (mailbox (fst s) cad)) else []), s))"

section \<open>What the loop over the responses does\<close>

definition solicited :: "nat \<Rightarrow> 32 word \<times> 32 word \<Rightarrow> bool" where
  "solicited cad e \<longleftrightarrow> unat (snd e AND RESPONSE_FLAGS_CODEC_MASK) = cad \<and> snd e AND RESPONSE_FLAGS_UNSOLICITED = 0"

text \<open>The answers for a codec among the responses.\<close>

definition answers :: "nat \<Rightarrow> (32 word \<times> 32 word) list \<Rightarrow> 32 word list" where
  "answers cad es = map fst (filter (solicited cad) es)"

definition receive_all :: "(32 word \<times> 32 word) list \<Rightarrow> hda_mailbox option list \<Rightarrow> hda_mailbox option list" where
  "receive_all es cs = fold (\<lambda>e cs. snd (receive_response (fst e) (snd e) cs)) es cs"

lemma ring_moves: "p < n \<Longrightarrow> 0 < k \<Longrightarrow> k < n \<Longrightarrow> (p + k) mod n \<noteq> (p :: nat)"
  by (cases "p + k < n") (simp_all add: le_mod_geq not_less)

lemma rirb_loop_receives:
  assumes "length es < n" "length es < rirb_length c" "rirb_read_pos c < rirb_length c"
    and "\<forall>i<length es. rirb c ! ((rirb_read_pos c + i) mod rirb_length c) = es ! i"
  shows "\<exists>w. rirb_loop n ((rirb_read_pos c + length es) mod rirb_length c) woken c
     = Some (w, c\<lparr>codecs := receive_all es (codecs c), rirb_read_pos := (rirb_read_pos c + length es) mod rirb_length c\<rparr>)"
  using assms
proof (induction es arbitrary: n woken c)
  case Nil
  then show ?case
    by (cases n) (simp_all add: receive_all_def)
next
  case (Cons e es)
  obtain m where m: "n = Suc m"
    using Cons.prems(1) by (cases n) auto
  obtain w cs where r: "receive_response (fst e) (snd e) (codecs c) = (w, cs)"
    by fastforce
  let ?c = "c\<lparr>codecs := cs, rirb_read_pos := next_rirb c\<rparr>"
  have first: "current_rirb c = e"
    using Cons.prems(3) spec [OF Cons.prems(4), of 0] by (simp add: current_rirb_def)
  have more_left: "rirb_read_pos c \<noteq> (rirb_read_pos c + length (e # es)) mod rirb_length c"
    using ring_moves [of "rirb_read_pos c" "rirb_length c" "length (e # es)"] Cons.prems(2,3) by simp
  have pos: "(next_rirb c + i) mod rirb_length c = (rirb_read_pos c + Suc i) mod rirb_length c" for i
    by (simp add: next_rirb_def mod_add_left_eq)
  have "\<exists>w'. rirb_loop m ((rirb_read_pos ?c + length es) mod rirb_length ?c) (woken \<or> w) ?c
     = Some (w', ?c\<lparr>codecs := receive_all es (codecs ?c), rirb_read_pos := (rirb_read_pos ?c + length es) mod rirb_length ?c\<rparr>)"
    using Cons.prems m pos by (intro Cons.IH) (auto simp: next_rirb_def)
  then show ?case
    using more_left first r m pos by (auto simp: receive_all_def)
qed

text \<open>The answers are appended to those that were received, as long as there is room.\<close>

definition received :: "hda_mailbox \<Rightarrow> 32 word list" where
  "received q = take (response_count q) (responses q)"

definition mailbox_ok :: "hda_mailbox \<Rightarrow> bool" where
  "mailbox_ok q \<longleftrightarrow> length (responses q) = MAX_CODEC_RESPONSES \<and> response_count q \<le> MAX_CODEC_RESPONSES"

lemma receive_one:
  assumes "cad < length cs" "cs ! cad = Some q" "mailbox_ok q" "solicited cad e \<Longrightarrow> response_count q < MAX_CODEC_RESPONSES"
  shows "\<exists>q'. snd (receive_response (fst e) (snd e) cs) ! cad = Some q' \<and> length (snd (receive_response (fst e) (snd e) cs)) = length cs \<and> mailbox_ok q' \<and>
    received q' = received q @ answers cad [e] \<and> response_count q' = response_count q + length (answers cad [e]) \<and> response_sem q' = response_sem q + length (answers cad [e])"
proof (cases "solicited cad e")
  case True
  then show ?thesis
    using assms by (simp add: receive_response_def Let_def solicited_def answers_def mailbox_ok_def received_def take_Suc_conv_app_nth)
next
  case False
  then have keep: "answers cad [e] = []"
    by (simp add: answers_def)
  show ?thesis
  proof (cases "unat (snd e AND RESPONSE_FLAGS_CODEC_MASK) = cad")
    case True
    with False keep assms show ?thesis
      by (simp add: receive_response_def Let_def solicited_def mailbox_ok_def received_def)
  next
    case other: False
    with keep assms show ?thesis
      by (auto simp: receive_response_def Let_def split: option.split)
  qed
qed

lemma answers_Cons: "answers cad (e # es) = answers cad [e] @ answers cad es"
  by (simp add: answers_def)

lemma receive_all_answers:
  assumes "cad < length cs" "cs ! cad = Some q" "mailbox_ok q" "response_count q + length (answers cad es) \<le> MAX_CODEC_RESPONSES"
  shows "\<exists>q'. receive_all es cs ! cad = Some q' \<and> length (receive_all es cs) = length cs \<and> mailbox_ok q' \<and>
    received q' = received q @ answers cad es \<and> response_count q' = response_count q + length (answers cad es) \<and> response_sem q' = response_sem q + length (answers cad es)"
  using assms
proof (induction es arbitrary: cs q)
  case Nil
  then show ?case
    by (simp add: receive_all_def answers_def)
next
  case (Cons e es)
  have room: "response_count q < MAX_CODEC_RESPONSES" if "solicited cad e"
    using Cons.prems(4) that by (simp add: answers_def)
  obtain q1 where q1: "snd (receive_response (fst e) (snd e) cs) ! cad = Some q1" "length (snd (receive_response (fst e) (snd e) cs)) = length cs" "mailbox_ok q1"
      "received q1 = received q @ answers cad [e]" "response_count q1 = response_count q + length (answers cad [e])" "response_sem q1 = response_sem q + length (answers cad [e])"
    using receive_one [OF Cons.prems(1-3) room] by blast
  have step: "receive_all (e # es) cs = receive_all es (snd (receive_response (fst e) (snd e) cs))"
    by (simp add: receive_all_def)
  have "response_count q1 + length (answers cad es) \<le> MAX_CODEC_RESPONSES"
    using Cons.prems(4) q1(5) unfolding answers_Cons [of cad e es] by simp
  then obtain q2 where "receive_all (e # es) cs ! cad = Some q2" "length (receive_all (e # es) cs) = length cs" "mailbox_ok q2"
      "received q2 = received q1 @ answers cad es" "response_count q2 = response_count q1 + length (answers cad es)" "response_sem q2 = response_sem q1 + length (answers cad es)"
    using Cons.IH [of "snd (receive_response (fst e) (snd e) cs)" q1] q1(1-3) Cons.prems(1) unfolding step by auto
  then show ?case
    unfolding answers_Cons [of cad e es] using q1(4-6) by simp
qed

section \<open>The commands that are pending\<close>

text \<open>The commands of a ring after \<open>rp\<close> up to \<open>wp\<close>.\<close>

definition ring_span :: "nat \<Rightarrow> nat \<Rightarrow> nat \<Rightarrow> nat" where
  "ring_span n rp wp = (wp + n - rp) mod n"

definition pending :: "nat \<Rightarrow> hda_controller \<Rightarrow> 32 word list" where
  "pending rp c = map (\<lambda>i. corb c ! ((rp + Suc i) mod corb_length c)) [0..<ring_span (corb_length c) rp (corb_write_pos c)]"

lemma ring_span_less: "0 < n \<Longrightarrow> ring_span n rp wp < n"
  by (simp add: ring_span_def)

lemma ring_span_end: "rp < n \<Longrightarrow> wp < n \<Longrightarrow> (rp + ring_span n rp wp) mod n = wp"
  by (cases "rp \<le> wp") (auto simp: ring_span_def le_mod_geq mod_add_right_eq not_le)

lemma ring_span_self: "rp < n \<Longrightarrow> ring_span n rp rp = 0"
  by (simp add: ring_span_def)

lemma ring_span_Suc:
  assumes "rp < n" "wp < n" "(wp + 1) mod n \<noteq> rp"
  shows "ring_span n rp ((wp + 1) mod n) = Suc (ring_span n rp wp)"
proof -
  have "ring_span n rp wp + 1 < n"
  proof (rule ccontr)
    assume "\<not> ring_span n rp wp + 1 < n"
    then have "ring_span n rp wp + 1 = n"
      using ring_span_less [of n rp wp] assms(1) by simp
    then have "(rp + ring_span n rp wp + 1) mod n = rp mod n"
      by (metis add.assoc mod_add_self2)
    then have "(wp + 1) mod n = rp"
      using ring_span_end [OF assms(1,2)] assms(1) by (metis mod_add_left_eq mod_less)
    then show False
      using assms(3) by simp
  qed
  moreover have "ring_span n rp ((wp + 1) mod n) = (ring_span n rp wp + 1) mod n"
  proof (cases "wp + 1 = n")
    case True
    have "wp + n - rp + 1 = (n - rp) + n"
      using True assms(1) by simp
    then have "(wp + n - rp + 1) mod n = (n - rp) mod n"
      by (metis mod_add_self2)
    then show ?thesis
      using True by (simp add: ring_span_def mod_Suc_eq)
  next
    case False
    then show ?thesis
      using assms(1,2) by (simp add: ring_span_def mod_Suc_eq Suc_diff_le)
  qed
  ultimately show ?thesis
    by simp
qed

definition corb_ok :: "hda_controller \<Rightarrow> bool" where
  "corb_ok c \<longleftrightarrow> 2 \<le> corb_length c \<and> corb_length c \<le> 256 \<and> length (corb c) = corb_length c \<and> corb_write_pos c < corb_length c"

definition put_verb :: "32 word \<Rightarrow> hda_controller \<Rightarrow> hda_controller" where
  "put_verb v c = c\<lparr>corb := (corb c)[next_corb c := v], corb_write_pos := next_corb c\<rparr>"

lemma ring_inj:
  assumes "(p + a) mod n = (p + b) mod n" "a < n" "b < n"
  shows "a = (b :: nat)"
proof -
  have "(int p + int a) mod int n = (int p + int b) mod int n"
    using assms(1) by (metis of_nat_add of_nat_mod)
  then have "int a mod int n = int b mod int n"
    by (simp add: mod_eq_dvd_iff)
  then show ?thesis
    using assms(2,3) by simp
qed

lemma corb_ok_put: "corb_ok c \<Longrightarrow> corb_ok (put_verb v c)"
  by (simp add: corb_ok_def put_verb_def next_corb_def)

lemma pending_put:
  assumes "corb_ok c" "rp < corb_length c" "next_corb c \<noteq> rp"
  shows "pending rp (put_verb v c) = pending rp c @ [v]"
proof -
  let ?n = "corb_length c" and ?k = "ring_span (corb_length c) rp (corb_write_pos c)"
  have wp: "corb_write_pos c < ?n"
    using assms(1) by (simp add: corb_ok_def)
  have span: "ring_span ?n rp (next_corb c) = Suc ?k"
    using ring_span_Suc [OF assms(2) wp] assms(3) by (simp add: next_corb_def)
  then have less: "Suc ?k < ?n"
    using ring_span_less [of ?n rp "next_corb c"] assms(2) by simp
  have at: "next_corb c = (rp + Suc ?k) mod ?n"
    using ring_span_end [OF assms(2), of "next_corb c"] span assms(2) by (simp add: next_corb_def)
  have old: "(corb c)[next_corb c := v] ! ((rp + Suc i) mod ?n) = corb c ! ((rp + Suc i) mod ?n)" if "i < ?k" for i
    using ring_inj [of rp "Suc i" ?n "Suc ?k"] less that unfolding at by (subst nth_list_update_neq) auto
  have new: "(corb c)[next_corb c := v] ! ((rp + Suc ?k) mod ?n) = v"
    using assms(1) unfolding at by (simp add: corb_ok_def)
  show ?thesis
    using old new by (simp add: pending_def put_verb_def span)
qed

lemma pending_empty: "rp < corb_length c \<Longrightarrow> corb_write_pos c = rp \<Longrightarrow> pending rp c = []"
  by (simp add: pending_def ring_span_self)

text \<open>What the inner loop queues, and that it queues something when nothing is pending.\<close>

lemma queue_verbs_pending:
  assumes "corb_ok c" "rp < corb_length c"
  shows "\<exists>k c'. queue_verbs rp vs n c = (drop k vs, n + k, c') \<and> k \<le> length vs \<and> pending rp c' = pending rp c @ take k vs \<and>
     c' = c\<lparr>corb := corb c', corb_write_pos := corb_write_pos c'\<rparr> \<and> corb_ok c' \<and> (vs \<noteq> [] \<and> corb_write_pos c = rp \<longrightarrow> 0 < k)"
  using assms
proof (induction vs arbitrary: n c)
  case (Cons v vs)
  show ?case
  proof (cases "next_corb c = rp")
    case True
    have "corb_write_pos c \<noteq> rp"
      using True Cons.prems ring_moves [of rp "corb_length c" 1] by (auto simp: next_corb_def corb_ok_def)
    then show ?thesis
      using True Cons.prems by (intro exI [of _ 0] exI [of _ c]) simp
  next
    case False
    obtain k c' where k: "queue_verbs rp vs (n + 1) (put_verb v c) = (drop k vs, n + 1 + k, c')" "k \<le> length vs"
        "pending rp c' = pending rp (put_verb v c) @ take k vs" "c' = (put_verb v c)\<lparr>corb := corb c', corb_write_pos := corb_write_pos c'\<rparr>" "corb_ok c'"
      using Cons.IH [OF corb_ok_put [OF Cons.prems(1)], of v "n + 1"] Cons.prems(2) by (auto simp: put_verb_def)
    have "c' = c\<lparr>corb := corb c', corb_write_pos := corb_write_pos c'\<rparr>"
      by (subst k(4)) (simp add: put_verb_def)
    moreover have "queue_verbs rp (v # vs) n c = (drop (Suc k) (v # vs), n + Suc k, c')"
      using False k(1) by (simp add: put_verb_def)
    moreover have "pending rp c' = pending rp c @ take (Suc k) (v # vs)"
      using k(3) pending_put [OF Cons.prems False, of v] by simp
    ultimately show ?thesis
      using k(2,5) by (intro exI [of _ "Suc k"] exI [of _ c']) simp
  qed
qed (intro exI [of _ 0], simp)

section \<open>A device that serves the rings\<close>

text \<open>Responses are put behind the position of the last one.\<close>

definition put_responses :: "nat \<Rightarrow> (32 word \<times> 32 word) list \<Rightarrow> hda_controller \<Rightarrow> hda_controller" where
  "put_responses wp es c = c\<lparr>rirb := fold (\<lambda>i r. r[(wp + 1 + i) mod rirb_length c := es ! i]) [0..<length es] (rirb c)\<rparr>"

lemma put_responses_at:
  assumes "length (rirb c) = rirb_length c" "length es < rirb_length c" "i < length es"
  shows "rirb (put_responses wp es c) ! ((wp + 1 + i) mod rirb_length c) = es ! i"
proof -
  let ?n = "rirb_length c"
  have "length (fold (\<lambda>i r. r[(wp + 1 + i) mod ?n := es ! i]) [0..<k] (rirb c)) = ?n \<and>
      (\<forall>i<k. fold (\<lambda>i r. r[(wp + 1 + i) mod ?n := es ! i]) [0..<k] (rirb c) ! ((wp + 1 + i) mod ?n) = es ! i)" if "k \<le> length es" for k
    using that
  proof (induction k)
    case (Suc k)
    moreover have "(wp + 1 + k) mod ?n \<noteq> (wp + 1 + i) mod ?n" if "i < k" for i
      using ring_inj [of "wp + 1" i ?n k] that Suc.prems assms(2) by auto
    ultimately show ?case
      using assms(2) by (auto simp: nth_list_update less_Suc_eq)
  qed (simp add: assms(1))
  then show ?thesis
    using assms(3) by (simp add: put_responses_def)
qed

lemma put_responses_length: "length (rirb (put_responses wp es c)) = length (rirb c)"
proof -
  have "length (fold (\<lambda>i r. r[f i := g i]) is r) = length r" for f g and "is" :: "nat list" and r :: "(32 word \<times> 32 word) list"
    by (induction "is" arbitrary: r) simp_all
  then show ?thesis
    by (simp add: put_responses_def)
qed

text \<open>
  What may happen while the sender waits: bursts of responses, each followed by an interrupt. A burst holds answers to the next pending commands, in
  their order, and any other responses in between. \<open>corb_rp\<close> and \<open>rirb_wp\<close> are the positions of the device in the rings.
\<close>

inductive served :: "'d hda_bus \<Rightarrow> ('d \<Rightarrow> nat) \<Rightarrow> ('d \<Rightarrow> nat) \<Rightarrow> (32 word \<Rightarrow> 32 word) \<Rightarrow> nat \<Rightarrow> hda_controller \<times> 'd \<Rightarrow> hda_controller \<times> 'd \<Rightarrow> bool"
  for b corb_rp rirb_wp f cad where
  Rest: "served b corb_rp rirb_wp f cad s s"
| Burst: "length es < rirb_length c \<Longrightarrow> k \<le> length (pending (corb_rp d) c) \<Longrightarrow> answers cad es = map f (take k (pending (corb_rp d) c)) \<Longrightarrow>
    corb_rp d' = (corb_rp d + k) mod corb_length c \<Longrightarrow> rirb_wp d' = (rirb_wp d + length es) mod rirb_length c \<Longrightarrow>
    fst (bus_read8 b HDAC_RIRB_STATUS d') AND RIRB_STATUS_RESPONSE \<noteq> 0 \<Longrightarrow>
    controller_interrupt b (put_responses (rirb_wp d) es c) d' = Some (w, c2, d2) \<Longrightarrow>
    served b corb_rp rirb_wp f cad (c2, d2) s \<Longrightarrow> served b corb_rp rirb_wp f cad (c, d) s"

text \<open>The rings and the mailbox of a codec are in order, with commands that may be pending but no response that was not read.\<close>

definition rings_ok :: "('d \<Rightarrow> nat) \<Rightarrow> ('d \<Rightarrow> nat) \<Rightarrow> nat \<Rightarrow> hda_controller \<times> 'd \<Rightarrow> bool" where
  "rings_ok corb_rp rirb_wp cad s \<longleftrightarrow> (case s of (c, d) \<Rightarrow> corb_ok c \<and> corb_rp d < corb_length c \<and> 2 \<le> rirb_length c \<and> rirb_length c \<le> 256 \<and>
     length (rirb c) = rirb_length c \<and> rirb_wp d < rirb_length c \<and> rirb_read_pos c = (rirb_wp d + 1) mod rirb_length c \<and>
     cad < length (codecs c) \<and> (\<exists>q. codecs c ! cad = Some q \<and> mailbox_ok q))"

text \<open>
  The interface to the hardware: its positions in the two rings can be read, and are not changed by what the handler reads and writes.
\<close>

locale ring_device =
  fixes b :: "'d hda_bus" and corb_rp :: "'d \<Rightarrow> nat" and rirb_wp :: "'d \<Rightarrow> nat"
  assumes corb_read: "bus_read16 b HDAC_CORB_READ_POS d = (of_nat (corb_rp d), d)"
    and rirb_read: "bus_read16 b HDAC_RIRB_WRITE_POS d = (of_nat (rirb_wp d), d)"
    and reading: "corb_rp (snd (bus_read8 b reg d)) = corb_rp d" "rirb_wp (snd (bus_read8 b reg d)) = rirb_wp d"
    and writing: "corb_rp (bus_write8 b reg v d) = corb_rp d" "rirb_wp (bus_write8 b reg v d) = rirb_wp d"
    and sending: "corb_rp (bus_write16 b HDAC_CORB_WRITE_POS w d) = corb_rp d" "rirb_wp (bus_write16 b HDAC_CORB_WRITE_POS w d) = rirb_wp d"
begin

text \<open>The interrupt after a burst.\<close>

lemma interrupt_ends:
  assumes "rings_ok corb_rp rirb_wp cad (c, d)" "length es < rirb_length c" "rirb_wp d' = (rirb_wp d + length es) mod rirb_length c"
    and "fst (bus_read8 b HDAC_RIRB_STATUS d') AND RIRB_STATUS_RESPONSE \<noteq> 0"
  shows "\<exists>w c2 d2. controller_interrupt b (put_responses (rirb_wp d) es c) d' = Some (w, c2, d2) \<and>
    c2 = c\<lparr>rirb := rirb c2, codecs := receive_all es (codecs c), rirb_read_pos := (rirb_wp d' + 1) mod rirb_length c\<rparr> \<and>
    length (rirb c2) = rirb_length c \<and> corb_rp d2 = corb_rp d' \<and> rirb_wp d2 = rirb_wp d'"
proof -
  let ?c = "put_responses (rirb_wp d) es c" and ?n = "rirb_length c"
  have ok: "length (rirb c) = ?n" "rirb_read_pos c = (rirb_wp d + 1) mod ?n" "2 \<le> ?n" "?n \<le> 256"
    using assms(1) by (auto simp: rings_ok_def)
  have fields: "rirb_length ?c = ?n" "rirb_read_pos ?c = rirb_read_pos c" "codecs ?c = codecs c"
    by (simp_all add: put_responses_def)
  have at: "\<forall>i<length es. rirb ?c ! ((rirb_read_pos ?c + i) mod rirb_length ?c) = es ! i"
    using put_responses_at [OF ok(1) assms(2)] ok(2) by (simp add: fields mod_simps)
  have stop: "(rirb_read_pos c + length es) mod ?n = (rirb_wp d' + 1) mod ?n"
    unfolding ok(2) assms(3) by (simp add: mod_simps add_ac)
  obtain w' where "rirb_loop ?n ((rirb_read_pos ?c + length es) mod rirb_length ?c) False ?c
      = Some (w', ?c\<lparr>codecs := receive_all es (codecs ?c), rirb_read_pos := (rirb_read_pos ?c + length es) mod rirb_length ?c\<rparr>)"
    using rirb_loop_receives [of es ?n ?c False] at ok(2,3) assms(2) by (auto simp: fields)
  then have loop: "rirb_loop ?n ((rirb_wp d' + 1) mod ?n) False ?c
      = Some (w', ?c\<lparr>codecs := receive_all es (codecs c), rirb_read_pos := (rirb_wp d' + 1) mod ?n\<rparr>)"
    unfolding fields stop .
  have "rirb_wp d' < ?n"
    using ok(3) assms(3) by simp
  then have small: "unat (of_nat (rirb_wp d') :: 16 word) = rirb_wp d'"
    using ok(4) by (simp add: unsigned_of_nat take_bit_nat_eq_self)
  obtain st d3 where d3: "bus_read8 b HDAC_RIRB_STATUS d' = (st, d3)" "st AND RIRB_STATUS_RESPONSE \<noteq> 0"
    using assms(4) by (metis prod.collapse)
  obtain cst d4 where d4: "bus_read8 b HDAC_CORB_STATUS d3 = (cst, d4)"
    by fastforce
  have st: "st \<noteq> 0"
    using d3(2) by auto
  let ?d5 = "bus_write8 b HDAC_RIRB_STATUS st d4"
  have d4pos: "rirb_wp d4 = rirb_wp d'" "corb_rp d4 = corb_rp d'"
    using reading [of HDAC_RIRB_STATUS d'] reading [of HDAC_CORB_STATUS d3] by (simp_all add: d3 d4)
  then have pos: "rirb_wp ?d5 = rirb_wp d'" "corb_rp ?d5 = corb_rp d'"
    by (simp_all add: writing)
  have "controller_interrupt b ?c d' = Some (w', ?c\<lparr>codecs := receive_all es (codecs c), rirb_read_pos := (rirb_wp d' + 1) mod ?n\<rparr>,
      if cst \<noteq> 0 then bus_write8 b HDAC_CORB_STATUS cst ?d5 else ?d5)"
    using st d3 d4 loop small by (simp add: controller_interrupt_def rirb_read pos fields)
  then show ?thesis
    using ok(1) put_responses_length [of "rirb_wp d" es c] by (auto simp: d4pos writing put_responses_def)
qed

lemma interrupt_receives:
  assumes "rings_ok corb_rp rirb_wp cad (c, d)" "length es < rirb_length c" "rirb_wp d' = (rirb_wp d + length es) mod rirb_length c"
    and "fst (bus_read8 b HDAC_RIRB_STATUS d') AND RIRB_STATUS_RESPONSE \<noteq> 0"
    and "controller_interrupt b (put_responses (rirb_wp d) es c) d' = Some (w, c2, d2)"
  shows "c2 = c\<lparr>rirb := rirb c2, codecs := receive_all es (codecs c), rirb_read_pos := (rirb_wp d' + 1) mod rirb_length c\<rparr> \<and>
    length (rirb c2) = rirb_length c \<and> corb_rp d2 = corb_rp d' \<and> rirb_wp d2 = rirb_wp d'"
  using interrupt_ends [OF assms(1-4)] assms(5) by auto

end

lemma ring_span_advance:
  assumes "rp < n" "wp < n" "k \<le> ring_span n rp wp"
  shows "ring_span n ((rp + k) mod n) wp = ring_span n rp wp - k"
proof -
  let ?r = "(rp + k) mod n"
  have n: "0 < n" "ring_span n rp wp < n"
    using assms(1) ring_span_less [of n rp wp] by simp_all
  have "(?r + ring_span n ?r wp) mod n = (?r + (ring_span n rp wp - k)) mod n"
  proof -
    have "(?r + (ring_span n rp wp - k)) mod n = (rp + k + (ring_span n rp wp - k)) mod n"
      by (rule mod_add_left_eq)
    also have "\<dots> = wp"
      using ring_span_end [OF assms(1,2)] assms(3) by simp
    finally show ?thesis
      using ring_span_end [of ?r n wp] assms(2) n(1) by simp
  qed
  then show ?thesis
    using ring_inj [of ?r _ n] ring_span_less [OF n(1)] n by (metis less_imp_diff_less)
qed

lemma pending_advance:
  assumes "rp < corb_length c" "corb_write_pos c < corb_length c" "k \<le> length (pending rp c)"
  shows "pending ((rp + k) mod corb_length c) c = drop k (pending rp c)"
proof -
  let ?n = "corb_length c"
  have k: "k \<le> ring_span ?n rp (corb_write_pos c)"
    using assms(3) by (simp add: pending_def)
  have "((rp + k) mod ?n + Suc i) mod ?n = (rp + k + Suc i) mod ?n" for i
    by (rule mod_add_left_eq)
  then have "((rp + k) mod ?n + Suc i) mod ?n = (rp + Suc (k + i)) mod ?n" for i
    by (simp add: add_ac)
  then show ?thesis
    by (intro nth_equalityI) (simp_all add: pending_def ring_span_advance [OF assms(1,2) k] drop_map drop_upt)
qed

text \<open>A codec has received some answers and its semaphore has some value.\<close>

definition has_received :: "nat \<Rightarrow> hda_controller \<Rightarrow> 32 word list \<Rightarrow> nat \<Rightarrow> bool" where
  "has_received cad c rs sem \<longleftrightarrow> (\<exists>q. codecs c ! cad = Some q \<and> mailbox_ok q \<and> received q = rs \<and> response_count q = length rs \<and> response_sem q = sem)"

context ring_device begin

lemma burst_received:
  assumes "rings_ok corb_rp rirb_wp cad (c, d)" "has_received cad c rs sem" "length rs + k \<le> MAX_CODEC_RESPONSES"
    and "length es < rirb_length c" "k \<le> length (pending (corb_rp d) c)" "answers cad es = map f (take k (pending (corb_rp d) c))"
    and "corb_rp d' = (corb_rp d + k) mod corb_length c" "rirb_wp d' = (rirb_wp d + length es) mod rirb_length c"
    and "fst (bus_read8 b HDAC_RIRB_STATUS d') AND RIRB_STATUS_RESPONSE \<noteq> 0"
    and "controller_interrupt b (put_responses (rirb_wp d) es c) d' = Some (w, c2, d2)"
  shows "rings_ok corb_rp rirb_wp cad (c2, d2) \<and> has_received cad c2 (rs @ map f (take k (pending (corb_rp d) c))) (sem + k) \<and>
    pending (corb_rp d2) c2 = drop k (pending (corb_rp d) c) \<and> corb_write_pos c2 = corb_write_pos c \<and> corb_length c2 = corb_length c"
proof -
  have ok: "corb_ok c" "corb_rp d < corb_length c" "corb_write_pos c < corb_length c" "cad < length (codecs c)" "2 \<le> rirb_length c" "rirb_length c \<le> 256"
    using assms(1) by (auto simp: rings_ok_def corb_ok_def)
  have c2: "c2 = c\<lparr>rirb := rirb c2, codecs := receive_all es (codecs c), rirb_read_pos := (rirb_wp d' + 1) mod rirb_length c\<rparr>"
      "length (rirb c2) = rirb_length c" "corb_rp d2 = corb_rp d'" "rirb_wp d2 = rirb_wp d'"
    using interrupt_receives [OF assms(1,4,8,9,10)] by blast+
  have f: "corb c2 = corb c" "corb_length c2 = corb_length c" "corb_write_pos c2 = corb_write_pos c" "rirb_length c2 = rirb_length c"
      "rirb_read_pos c2 = (rirb_wp d' + 1) mod rirb_length c" "codecs c2 = receive_all es (codecs c)"
    by (subst c2(1), simp)+
  obtain q where q: "codecs c ! cad = Some q" "mailbox_ok q" "received q = rs" "response_count q = length rs" "response_sem q = sem"
    using assms(2) by (auto simp: has_received_def)
  obtain q' where q': "codecs c2 ! cad = Some q'" "length (codecs c2) = length (codecs c)" "mailbox_ok q'" "received q' = rs @ answers cad es"
      "response_count q' = length rs + length (answers cad es)" "response_sem q' = sem + length (answers cad es)"
    using receive_all_answers [OF ok(4) q(1,2), of es] assms(3,5,6) unfolding f(6) by (auto simp: q)
  have "pending (corb_rp d2) c2 = drop k (pending (corb_rp d) c)"
    using pending_advance [OF ok(2,3) assms(5)] unfolding c2(3) assms(7) by (simp add: pending_def f)
  moreover have "has_received cad c2 (rs @ map f (take k (pending (corb_rp d) c))) (sem + k)"
    using q' assms(5,6) by (simp add: has_received_def)
  moreover have "rings_ok corb_rp rirb_wp cad (c2, d2)"
    using ok q' by (auto simp: rings_ok_def corb_ok_def f c2(2-4) assms(7,8))
  ultimately show ?thesis
    by (simp add: f)
qed

lemma served_received:
  assumes "served b corb_rp rirb_wp f cad s s'" "rings_ok corb_rp rirb_wp cad s" "has_received cad (fst s) rs sem"
    "length rs + length (pending (corb_rp (snd s)) (fst s)) \<le> MAX_CODEC_RESPONSES"
  shows "\<exists>k\<le>length (pending (corb_rp (snd s)) (fst s)). rings_ok corb_rp rirb_wp cad s' \<and>
    has_received cad (fst s') (rs @ map f (take k (pending (corb_rp (snd s)) (fst s)))) (sem + k) \<and>
    pending (corb_rp (snd s')) (fst s') = drop k (pending (corb_rp (snd s)) (fst s)) \<and>
    corb_write_pos (fst s') = corb_write_pos (fst s) \<and> corb_length (fst s') = corb_length (fst s)"
  using assms
proof (induction arbitrary: rs sem)
  case (Rest s)
  then show ?case
    by (intro exI [of _ 0]) simp
next
  case (Burst es c k d d' w c2 d2 s)
  let ?ps = "pending (corb_rp d) c"
  have room: "length rs + k \<le> MAX_CODEC_RESPONSES" "has_received cad c rs sem"
    using Burst.prems(2,3) Burst.hyps(2) by simp_all
  note one = burst_received [OF Burst.prems(1) room(2,1) Burst.hyps(1-7)]
  then have next_room: "length (rs @ map f (take k ?ps)) + length (pending (corb_rp d2) c2) \<le> MAX_CODEC_RESPONSES"
    using Burst.prems(3) Burst.hyps(2) by simp
  obtain k' where k': "k' \<le> length (pending (corb_rp d2) c2)" "rings_ok corb_rp rirb_wp cad s"
      "has_received cad (fst s) ((rs @ map f (take k ?ps)) @ map f (take k' (pending (corb_rp d2) c2))) (sem + k + k')"
      "pending (corb_rp (snd s)) (fst s) = drop k' (pending (corb_rp d2) c2)" "corb_write_pos (fst s) = corb_write_pos c2" "corb_length (fst s) = corb_length c2"
    using Burst.IH [of "rs @ map f (take k ?ps)" "sem + k"] one next_room by auto
  have ps: "pending (corb_rp d2) c2 = drop k ?ps"
    using one by blast
  have "(rs @ map f (take k ?ps)) @ map f (take k' (pending (corb_rp d2) c2)) = rs @ map f (take (k + k') ?ps)"
    unfolding ps by (simp add: take_add)
  then have "has_received cad (fst s) (rs @ map f (take (k + k') ?ps)) (sem + (k + k'))"
    using k'(3) by (simp add: add.assoc)
  moreover have "pending (corb_rp (snd s)) (fst s) = drop (k + k') ?ps"
    using k'(4) unfolding ps by (simp add: add.commute)
  ultimately show ?case
    using k'(1,2,5,6) one Burst.hyps(2) ps by (intro exI [of _ "k + k'"]) auto
qed

end

section \<open>Verbs and their responses\<close>

text \<open>
  The hypothesis on the hardware: while the sender waits, the commands that are pending are answered, when there is room for the responses.
\<close>

definition serves :: "'d hda_bus \<Rightarrow> ('d \<Rightarrow> nat) \<Rightarrow> ('d \<Rightarrow> nat) \<Rightarrow> (32 word \<Rightarrow> 32 word) \<Rightarrow> nat \<Rightarrow> (hda_controller \<times> 'd \<Rightarrow> hda_controller \<times> 'd) \<Rightarrow> bool" where
  "serves b corb_rp rirb_wp f cad wait \<longleftrightarrow> (\<forall>s. rings_ok corb_rp rirb_wp cad s \<longrightarrow>
     response_count (mailbox (fst s) cad) + length (pending (corb_rp (snd s)) (fst s)) \<le> MAX_CODEC_RESPONSES \<longrightarrow>
     served b corb_rp rirb_wp f cad s (wait s) \<and> pending (corb_rp (snd (wait s))) (fst (wait s)) = [])"

lemma serves_pending:
  assumes "serves b corb_rp rirb_wp f cad wait" "rings_ok corb_rp rirb_wp cad s" "has_received cad (fst s) rs sem"
    "length rs + length (pending (corb_rp (snd s)) (fst s)) \<le> MAX_CODEC_RESPONSES"
  shows "served b corb_rp rirb_wp f cad s (wait s) \<and> pending (corb_rp (snd (wait s))) (fst (wait s)) = []"
proof -
  have "response_count (mailbox (fst s) cad) = length rs"
    using assms(3) by (auto simp: mailbox_def has_received_def)
  then show ?thesis
    using assms(1,2,4) unfolding serves_def by metis
qed

text \<open>Between two calls: nothing is pending, and no response was left.\<close>

definition idle :: "('d \<Rightarrow> nat) \<Rightarrow> ('d \<Rightarrow> nat) \<Rightarrow> nat \<Rightarrow> hda_controller \<times> 'd \<Rightarrow> bool" where
  "idle corb_rp rirb_wp cad s \<longleftrightarrow> rings_ok corb_rp rirb_wp cad s \<and> pending (corb_rp (snd s)) (fst s) = [] \<and> response_sem (mailbox (fst s) cad) = 0"

lemma pending_empty_iff: "corb_ok c \<Longrightarrow> rp < corb_length c \<Longrightarrow> pending rp c = [] \<longleftrightarrow> corb_write_pos c = rp"
  using ring_span_end [of rp "corb_length c" "corb_write_pos c"] pending_empty [of rp c] by (auto simp: pending_def corb_ok_def)

lemma has_received_update:
  assumes "has_received cad c rs sem" "cad < length (codecs c)"
  shows "has_received cad (update_mailbox cad (\<lambda>q. q\<lparr>response_sem := response_sem q - m\<rparr>) c) rs (sem - m)"
    "has_received cad (update_mailbox cad (\<lambda>q. q\<lparr>response_count := 0\<rparr>) c) [] sem"
  using assms by (auto simp: has_received_def update_mailbox_def mailbox_ok_def received_def)

lemma rings_ok_update:
  assumes "rings_ok corb_rp rirb_wp cad (c, d)" "\<And>q. mailbox_ok q \<Longrightarrow> mailbox_ok (g q)"
  shows "rings_ok corb_rp rirb_wp cad (update_mailbox cad g c, d)"
  using assms by (auto simp: rings_ok_def update_mailbox_def corb_ok_def)

lemma pending_update: "pending rp (update_mailbox cad g c) = pending rp c"
  by (simp add: pending_def update_mailbox_def)

context ring_device begin

text \<open>One turn of the outer loop: some verbs are sent, and their responses received.\<close>

lemma turn_received:
  assumes "serves b corb_rp rirb_wp f cad wait" "rings_ok corb_rp rirb_wp cad (c, d)" "pending (corb_rp d) c = []" "has_received cad c rs 0"
    and "length rs + length vs \<le> MAX_CODEC_RESPONSES" "vs \<noteq> []"
  shows "\<exists>k c1 s'. 0 < k \<and> k \<le> length vs \<and> queue_verbs (corb_rp d) vs 0 c = (drop k vs, k, c1) \<and>
    acquire_responses wait cad k (c1, bus_write16 b HDAC_CORB_WRITE_POS (of_nat (corb_write_pos c1)) d) = (B_OK, s') \<and>
    rings_ok corb_rp rirb_wp cad s' \<and> pending (corb_rp (snd s')) (fst s') = [] \<and> has_received cad (fst s') (rs @ map f (take k vs)) 0"
proof -
  have ok: "corb_ok c" "corb_rp d < corb_length c" "cad < length (codecs c)"
    using assms(2) by (auto simp: rings_ok_def)
  have wp: "corb_write_pos c = corb_rp d"
    using assms(3) pending_empty_iff [OF ok(1,2)] by simp
  obtain k c1 where q: "queue_verbs (corb_rp d) vs 0 c = (drop k vs, k, c1)" "k \<le> length vs" "pending (corb_rp d) c1 = take k vs"
      "c1 = c\<lparr>corb := corb c1, corb_write_pos := corb_write_pos c1\<rparr>" "corb_ok c1" "0 < k"
    using queue_verbs_pending [OF ok(1,2), of vs 0] assms(3,6) wp by auto
  have f1: "rirb_length c1 = rirb_length c" "rirb c1 = rirb c" "rirb_read_pos c1 = rirb_read_pos c" "codecs c1 = codecs c" "corb_length c1 = corb_length c"
    by (subst q(4), simp)+
  define d1 where "d1 = bus_write16 b HDAC_CORB_WRITE_POS (of_nat (corb_write_pos c1)) d"
  have d1: "corb_rp d1 = corb_rp d" "rirb_wp d1 = rirb_wp d"
    by (simp_all add: d1_def sending)
  have r1: "rings_ok corb_rp rirb_wp cad (c1, d1)"
    using assms(2) q(5) by (auto simp: rings_ok_def f1 d1)
  have h1: "has_received cad c1 rs 0" "length rs + length (pending (corb_rp d1) c1) \<le> MAX_CODEC_RESPONSES"
    using assms(4,5) q(2,3) by (simp_all add: has_received_def f1 d1)
  have w: "served b corb_rp rirb_wp f cad (c1, d1) (wait (c1, d1))" "pending (corb_rp (snd (wait (c1, d1)))) (fst (wait (c1, d1))) = []"
    using serves_pending [OF assms(1) r1] h1 by auto
  obtain c2 d2 where cd: "wait (c1, d1) = (c2, d2)"
    by fastforce
  have drained: "pending (corb_rp d2) c2 = []"
    using w(2) by (simp add: cd)
  obtain k' where k': "k' \<le> k" "rings_ok corb_rp rirb_wp cad (c2, d2)" "has_received cad c2 (rs @ map f (take k' (take k vs))) k'" "drop k' (take k vs) = []"
    using served_received [OF w(1) r1, of rs 0] h1 w(2) q(2,3) unfolding cd by (auto simp: d1)
  have "k' = k"
    using k'(1,4) q(2) by simp
  then have h2: "has_received cad c2 (rs @ map f (take k vs)) k"
    using k'(3) by simp
  have sem: "response_sem (mailbox c2 cad) = k" "response_sem (mailbox c1 cad) = 0"
    using h2 h1(1) by (auto simp: has_received_def mailbox_def)
  let ?c3 = "update_mailbox cad (\<lambda>q. q\<lparr>response_sem := response_sem q - k\<rparr>) c2"
  have "acquire_responses wait cad k (c1, d1) = (B_OK, ?c3, d2)"
    using q(6) sem by (simp add: acquire_responses_def cd)
  moreover have "rings_ok corb_rp rirb_wp cad (?c3, d2)"
    using k'(2) by (rule rings_ok_update) (simp add: mailbox_ok_def)
  moreover have "has_received cad ?c3 (rs @ map f (take k vs)) 0"
    using has_received_update(1) [OF h2, of k] k'(2) by (simp add: rings_ok_def)
  ultimately show ?thesis
    using q(1,2,6) drained unfolding d1_def by (intro exI [of _ k] exI [of _ c1] exI [of _ "(?c3, d2)"]) (simp add: pending_update)
qed

lemma send_loop_received:
  assumes "serves b corb_rp rirb_wp f cad wait"
  shows "rings_ok corb_rp rirb_wp cad s \<Longrightarrow> pending (corb_rp (snd s)) (fst s) = [] \<Longrightarrow> has_received cad (fst s) rs 0 \<Longrightarrow>
    length rs + length vs \<le> MAX_CODEC_RESPONSES \<Longrightarrow> length vs \<le> n \<Longrightarrow>
    \<exists>s'. send_loop n b wait cad vs s = Some (B_OK, s') \<and> rings_ok corb_rp rirb_wp cad s' \<and> pending (corb_rp (snd s')) (fst s') = [] \<and>
      has_received cad (fst s') (rs @ map f vs) 0"
proof (induction n arbitrary: vs s rs)
  case 0
  then show ?case
    by simp
next
  case (Suc n)
  show ?case
  proof (cases "vs = []")
    case True
    with Suc.prems show ?thesis
      by simp
  next
    case False
    obtain c d where s: "s = (c, d)"
      by fastforce
    obtain k c1 s1 where k: "0 < k" "k \<le> length vs" "queue_verbs (corb_rp d) vs 0 c = (drop k vs, k, c1)"
        "acquire_responses wait cad k (c1, bus_write16 b HDAC_CORB_WRITE_POS (of_nat (corb_write_pos c1)) d) = (B_OK, s1)"
        "rings_ok corb_rp rirb_wp cad s1" "pending (corb_rp (snd s1)) (fst s1) = []" "has_received cad (fst s1) (rs @ map f (take k vs)) 0"
      using turn_received [OF assms, of c d rs vs] Suc.prems(1-4) False unfolding s by auto
    have rp: "unat (of_nat (corb_rp d) :: 16 word) = corb_rp d"
      using Suc.prems(1) unfolding s by (auto simp: rings_ok_def corb_ok_def unsigned_of_nat take_bit_nat_eq_self)
    have "send_loop (Suc n) b wait cad vs s = send_loop n b wait cad (drop k vs) s1"
      using False k(3,4) by (simp add: s corb_read rp)
    moreover have "\<exists>s'. send_loop n b wait cad (drop k vs) s1 = Some (B_OK, s') \<and> rings_ok corb_rp rirb_wp cad s' \<and> pending (corb_rp (snd s')) (fst s') = [] \<and>
        has_received cad (fst s') ((rs @ map f (take k vs)) @ map f (drop k vs)) 0"
      using Suc.prems(4,5) k(1,2) by (intro Suc.IH k(5-7)) auto
    ultimately show ?thesis
      by (simp flip: map_append)
  qed
qed

lemma verbs_answered_here:
  assumes "serves b corb_rp rirb_wp f cad wait" "idle corb_rp rirb_wp cad s" "length vs \<le> MAX_CODEC_RESPONSES" "length vs \<le> n"
  shows "\<exists>s'. hda_send_verbs n b wait cad vs s = Some ((B_OK, map f vs), s') \<and> idle corb_rp rirb_wp cad s'"
proof -
  obtain c d where s: "s = (c, d)"
    by fastforce
  let ?c = "update_mailbox cad (\<lambda>q. q\<lparr>response_count := 0\<rparr>) c"
  have r: "rings_ok corb_rp rirb_wp cad (?c, d)"
    using assms(2) unfolding s idle_def by (intro rings_ok_update) (auto simp: mailbox_ok_def)
  have "has_received cad ?c [] 0"
    using assms(2) by (auto simp: s idle_def rings_ok_def has_received_def update_mailbox_def mailbox_ok_def received_def mailbox_def)
  then obtain s' where s': "send_loop n b wait cad vs (?c, d) = Some (B_OK, s')" "rings_ok corb_rp rirb_wp cad s'"
      "pending (corb_rp (snd s')) (fst s') = []" "has_received cad (fst s') (map f vs) 0"
    using send_loop_received [OF assms(1) r, of "[]" vs n] assms(2-4) by (auto simp: s idle_def pending_update)
  obtain q where q: "codecs (fst s') ! cad = Some q" "received q = map f vs" "response_count q = length vs" "response_sem q = 0"
    using s'(4) by (auto simp: has_received_def)
  then have "take (length vs) (responses (mailbox (fst s') cad)) = map f vs"
    by (simp add: mailbox_def received_def)
  then show ?thesis
    using s' q(1,4) by (simp add: hda_send_verbs_def s idle_def mailbox_def)
qed

end

text \<open>
  C99: responses belong to their verbs. While the hardware serves the rings, a call with up to 16 verbs ends, with the response of every verb
  in its order, whatever unsolicited responses and responses of other codecs come in between, and however small the rings are; afterwards nothing is
  pending and no response is left for the next call.
\<close>

theorem verbs_answered:
  assumes "ring_device b corb_rp rirb_wp" "serves b corb_rp rirb_wp f cad wait" "idle corb_rp rirb_wp cad s"
    and "length vs \<le> MAX_CODEC_RESPONSES" "length vs \<le> n"
  shows "\<exists>s'. hda_send_verbs n b wait cad vs s = Some ((B_OK, map f vs), s') \<and> idle corb_rp rirb_wp cad s'"
  using assms by (rule ring_device.verbs_answered_here)

section \<open>A response that comes too late\<close>

lemma send_loop_Nil [simp]: "send_loop n b wait cad [] s = Some (B_OK, s)"
  by (cases n) simp_all

text \<open>The state in which a call with one verb waits.\<close>

definition with_verb :: "'d hda_bus \<Rightarrow> nat \<Rightarrow> 32 word \<Rightarrow> hda_controller \<times> 'd \<Rightarrow> hda_controller \<times> 'd" where
  "with_verb b cad v s = (let c = put_verb v (update_mailbox cad (\<lambda>q. q\<lparr>response_count := 0\<rparr>) (fst s))
     in (c, bus_write16 b HDAC_CORB_WRITE_POS (of_nat (corb_write_pos c)) (snd s)))"

context ring_device begin

lemma one_verb:
  assumes "rings_ok corb_rp rirb_wp cad (c, d)" "has_received cad c rs sem" "next_corb c \<noteq> corb_rp d" "0 < n"
  shows "\<exists>c' d'. with_verb b cad v (c, d) = (c', d') \<and> rings_ok corb_rp rirb_wp cad (c', d') \<and> has_received cad c' [] sem \<and>
    pending (corb_rp d') c' = pending (corb_rp d) c @ [v] \<and> corb_length c' = corb_length c \<and> corb_write_pos c' = next_corb c \<and> corb_rp d' = corb_rp d \<and>
    responses (mailbox c' cad) = responses (mailbox c cad) \<and>
    hda_send_verbs n b wait cad [v] (c, d) = (case acquire_responses wait cad 1 (c', d') of (st, s) \<Rightarrow>
      Some ((st, if st = B_OK then take 1 (responses (mailbox (fst s) cad)) else []), s))"
proof -
  obtain m where n: "n = Suc m"
    using assms(4) by (cases n) auto
  let ?c = "update_mailbox cad (\<lambda>q. q\<lparr>response_count := 0\<rparr>) c"
  define c' where "c' = put_verb v ?c"
  define d' where "d' = bus_write16 b HDAC_CORB_WRITE_POS (of_nat (corb_write_pos c')) d"
  have ok: "corb_ok c" "corb_rp d < corb_length c" "cad < length (codecs c)"
    using assms(1) by (auto simp: rings_ok_def)
  have rp: "unat (of_nat (corb_rp d) :: 16 word) = corb_rp d"
    using ok by (auto simp: corb_ok_def unsigned_of_nat take_bit_nat_eq_self)
  have clear: "corb_ok ?c" "corb_length ?c = corb_length c" "next_corb ?c = next_corb c"
    using ok(1) by (simp_all add: corb_ok_def update_mailbox_def next_corb_def)
  have d': "corb_rp d' = corb_rp d" "rirb_wp d' = rirb_wp d"
    by (simp_all add: d'_def sending)
  have fields: "corb_length c' = corb_length c" "corb_write_pos c' = next_corb c" "corb_ok c'"
    using clear corb_ok_put [OF clear(1), of v] by (simp_all add: c'_def) (simp_all add: put_verb_def)
  have h: "has_received cad c' [] sem"
    using has_received_update(2) [OF assms(2) ok(3)] by (simp add: c'_def put_verb_def has_received_def)
  have "pending (corb_rp d') c' = pending (corb_rp d) c @ [v]"
    using pending_put [OF clear(1), of "corb_rp d" v] clear ok(2) assms(3) by (simp add: c'_def d' pending_update)
  moreover have "rings_ok corb_rp rirb_wp cad (c', d')"
    using assms(1) fields h by (auto simp: rings_ok_def d' has_received_def) (simp_all add: c'_def put_verb_def update_mailbox_def)
  moreover have "hda_send_verbs n b wait cad [v] (c, d) = (case acquire_responses wait cad 1 (c', d') of (st, s) \<Rightarrow>
      Some ((st, if st = B_OK then take 1 (responses (mailbox (fst s) cad)) else []), s))"
    using assms(3) clear rp by (simp add: n hda_send_verbs_def corb_read d'_def c'_def put_verb_def split: prod.split)
  moreover have "responses (mailbox c' cad) = responses (mailbox c cad)"
    using assms(2) ok(3) by (auto simp: c'_def put_verb_def mailbox_def update_mailbox_def has_received_def)
  moreover have "with_verb b cad v (c, d) = (c', d')"
    by (simp add: with_verb_def Let_def c'_def d'_def)
  ultimately show ?thesis
    using fields h d' by blast
qed

lemma late_response_here:
  assumes "serves b corb_rp rirb_wp f cad wait" "idle corb_rp rirb_wp cad s" "2 < corb_length (fst s)" "0 < n"
  shows "\<exists>s1 s2 s3. hda_send_verbs n b (\<lambda>s. s) cad [v1] s = Some ((B_TIMED_OUT, []), s1) \<and>
    hda_send_verbs n b wait cad [v2] s1 = Some ((B_OK, [f v1]), s2) \<and> hda_send_verbs n b wait cad [v3] s2 = Some ((B_OK, [f v1]), s3)"
proof -
  obtain c d where s: "s = (c, d)"
    by fastforce
  have r: "rings_ok corb_rp rirb_wp cad (c, d)" and ok: "corb_ok c" "corb_rp d < corb_length c"
    using assms(2) by (auto simp: s idle_def rings_ok_def)
  have len: "2 < corb_length c" and p: "pending (corb_rp d) c = []" "corb_write_pos c = corb_rp d"
    using assms(2,3) pending_empty_iff [OF ok] by (simp_all add: s idle_def)
  obtain q where q: "codecs c ! cad = Some q" "mailbox_ok q"
    using r by (auto simp: rings_ok_def)
  then have h: "has_received cad c (received q) 0"
    using assms(2) by (auto simp: s idle_def has_received_def mailbox_def received_def mailbox_ok_def)
  have next0: "next_corb c \<noteq> corb_rp d"
    using ring_moves [OF ok(2), of 1] len p by (simp add: next_corb_def)
  obtain c1 d1 where c1: "rings_ok corb_rp rirb_wp cad (c1, d1)" "has_received cad c1 [] 0" "pending (corb_rp d1) c1 = [v1]" "corb_length c1 = corb_length c"
      "corb_write_pos c1 = next_corb c" "corb_rp d1 = corb_rp d"
      "hda_send_verbs n b (\<lambda>s. s) cad [v1] s = (case acquire_responses (\<lambda>s. s) cad 1 (c1, d1) of (st, s) \<Rightarrow>
        Some ((st, if st = B_OK then take 1 (responses (mailbox (fst s) cad)) else []), s))"
    using one_verb [OF r h next0 assms(4), of v1 "\<lambda>s. s"] p unfolding s by auto
  have call1: "hda_send_verbs n b (\<lambda>s. s) cad [v1] s = Some ((B_TIMED_OUT, []), (c1, d1))"
    using c1(2) unfolding c1(7) by (auto simp: acquire_responses_def has_received_def mailbox_def)
  have next1: "next_corb c1 \<noteq> corb_rp d1"
    using ring_moves [OF ok(2), of 2] len c1(4-6) p by (simp add: next_corb_def mod_simps)
  obtain c2 d2 where c2: "rings_ok corb_rp rirb_wp cad (c2, d2)" "has_received cad c2 [] 0" "pending (corb_rp d2) c2 = [v1, v2]" "corb_length c2 = corb_length c"
      "hda_send_verbs n b wait cad [v2] (c1, d1) = (case acquire_responses wait cad 1 (c2, d2) of (st, s) \<Rightarrow>
        Some ((st, if st = B_OK then take 1 (responses (mailbox (fst s) cad)) else []), s))"
    using one_verb [OF c1(1,2) next1 assms(4), of v2 wait] c1(3,4) by auto
  obtain c3 d3 where w: "wait (c2, d2) = (c3, d3)"
    by fastforce
  have s3: "served b corb_rp rirb_wp f cad (c2, d2) (c3, d3)" "pending (corb_rp d3) c3 = []"
    using serves_pending [OF assms(1) c2(1)] c2(2,3) w by (auto simp: MAX_CODEC_RESPONSES_def)
  have h3: "has_received cad c3 [f v1, f v2] 2" and r3: "rings_ok corb_rp rirb_wp cad (c3, d3)" and len3: "corb_length c3 = corb_length c"
    using served_received [OF s3(1) c2(1), of "[]" 0] c2(2-4) s3(2) by (auto simp: MAX_CODEC_RESPONSES_def eval_nat_numeral)
  define c4 where "c4 = update_mailbox cad (\<lambda>q. q\<lparr>response_sem := response_sem q - 1\<rparr>) c3"
  have h4: "has_received cad c4 [f v1, f v2] 1" and r4: "rings_ok corb_rp rirb_wp cad (c4, d3)"
    using has_received_update(1) [OF h3, of 1] rings_ok_update [OF r3] r3 unfolding c4_def by (simp_all add: rings_ok_def mailbox_ok_def)
  have first: "take 1 (responses (mailbox c4 cad)) = [f v1]"
    using h4 by (auto simp: has_received_def received_def mailbox_def dest: arg_cong [of _ _ "take 1"])
  have "acquire_responses wait cad 1 (c2, d2) = (B_OK, c4, d3)"
    using c2(2) h3 w by (auto simp: acquire_responses_def has_received_def mailbox_def c4_def)
  then have call2: "hda_send_verbs n b wait cad [v2] (c1, d1) = Some ((B_OK, [f v1]), (c4, d3))"
    unfolding c2(5) using first by simp
  have p4: "corb_write_pos c4 = corb_rp d3" "corb_rp d3 < corb_length c4" "2 < corb_length c4"
    using s3(2) r4 pending_empty_iff [of c4 "corb_rp d3"] len len3 by (auto simp: rings_ok_def c4_def pending_update) (simp add: update_mailbox_def)
  have next4: "next_corb c4 \<noteq> corb_rp d3"
    using ring_moves [OF p4(2), of 1] p4 by (simp add: next_corb_def)
  obtain c5 d5 where c5: "has_received cad c5 [] 1" "responses (mailbox c5 cad) = responses (mailbox c4 cad)" "cad < length (codecs c5)"
      "hda_send_verbs n b wait cad [v3] (c4, d3) = (case acquire_responses wait cad 1 (c5, d5) of (st, s) \<Rightarrow>
        Some ((st, if st = B_OK then take 1 (responses (mailbox (fst s) cad)) else []), s))"
    using one_verb [OF r4 h4 next4 assms(4), of v3 wait] by (auto simp: rings_ok_def)
  have "acquire_responses wait cad 1 (c5, d5) = (B_OK, update_mailbox cad (\<lambda>q. q\<lparr>response_sem := response_sem q - 1\<rparr>) c5, d5)"
    using c5(1) by (auto simp: acquire_responses_def has_received_def mailbox_def)
  moreover have "responses (mailbox (update_mailbox cad (\<lambda>q. q\<lparr>response_sem := response_sem q - 1\<rparr>) c5) cad) = responses (mailbox c4 cad)"
    using c5(1-3) by (auto simp: mailbox_def update_mailbox_def has_received_def)
  ultimately have "\<exists>s3. hda_send_verbs n b wait cad [v3] (c4, d3) = Some ((B_OK, [f v1]), s3)"
    unfolding c5(4) using first by simp
  with call1 call2 show ?thesis
    by blast
qed

end

text \<open>
  C99: a response that comes too late is taken for the next one, and the next. When the hardware does not answer a verb in time, and serves the
  rings from then on, the next verb gets the response of the first one. Since the semaphore was released for both, but acquired for one, the verb after
  that does not wait at all, and gets what the buffer holds.
\<close>

theorem late_response_shifts:
  assumes "ring_device b corb_rp rirb_wp" "serves b corb_rp rirb_wp f cad wait" "idle corb_rp rirb_wp cad s" "2 < corb_length (fst s)" "0 < n"
  shows "\<exists>s1 s2 s3. hda_send_verbs n b (\<lambda>s. s) cad [v1] s = Some ((B_TIMED_OUT, []), s1) \<and>
    hda_send_verbs n b wait cad [v2] s1 = Some ((B_OK, [f v1]), s2) \<and> hda_send_verbs n b wait cad [v3] s2 = Some ((B_OK, [f v1]), s3)"
  using assms by (rule ring_device.late_response_here)

section \<open>A device with three registers\<close>

text \<open>The positions in the rings and the status of the responses, which is cleared by writing ones.\<close>

record ring_regs =
  reg_corb_rp :: nat
  reg_rirb_wp :: nat
  reg_rirb_status :: "8 word"

definition ring_bus :: "ring_regs hda_bus" where
  "ring_bus = \<lparr>bus_read8 = (\<lambda>reg d. (if reg = HDAC_RIRB_STATUS then reg_rirb_status d else 0, d)),
     bus_read16 = (\<lambda>reg d. (if reg = HDAC_CORB_READ_POS then of_nat (reg_corb_rp d) else if reg = HDAC_RIRB_WRITE_POS then of_nat (reg_rirb_wp d) else 0, d)),
     bus_read32 = (\<lambda>reg d. (0, d)),
     bus_write8 = (\<lambda>reg v d. if reg = HDAC_RIRB_STATUS then d\<lparr>reg_rirb_status := reg_rirb_status d AND NOT v\<rparr> else d),
     bus_write16 = (\<lambda>reg v d. d), bus_write32 = (\<lambda>reg v d. d), bus_snooze = (\<lambda>t d. d)\<rparr>"

interpretation ring_regs: ring_device ring_bus reg_corb_rp reg_rirb_wp
  by unfold_locales (simp_all add: ring_bus_def HDAC_CORB_READ_POS_def HDAC_RIRB_WRITE_POS_def)

text \<open>The device answers one command of codec 0, and interrupts.\<close>

definition serve_one :: "(32 word \<Rightarrow> 32 word) \<Rightarrow> hda_controller \<times> ring_regs \<Rightarrow> hda_controller \<times> ring_regs" where
  "serve_one f s = (case s of (c, d) \<Rightarrow>
     let d' = d\<lparr>reg_corb_rp := (reg_corb_rp d + 1) mod corb_length c, reg_rirb_wp := (reg_rirb_wp d + 1) mod rirb_length c, reg_rirb_status := 1\<rparr>
     in case controller_interrupt ring_bus (put_responses (reg_rirb_wp d) [(f (hd (pending (reg_corb_rp d) c)), 0)] c) d' of
          Some (_, s) \<Rightarrow> s | None \<Rightarrow> s)"

definition serve_all :: "(32 word \<Rightarrow> 32 word) \<Rightarrow> hda_controller \<times> ring_regs \<Rightarrow> hda_controller \<times> ring_regs" where
  "serve_all f s = (serve_one f ^^ length (pending (reg_corb_rp (snd s)) (fst s))) s"

lemma serve_one_burst:
  assumes "rings_ok reg_corb_rp reg_rirb_wp 0 (c, d)" "has_received 0 c rs sem" "length rs + 1 \<le> MAX_CODEC_RESPONSES" "pending (reg_corb_rp d) c = v # ps"
  shows "\<exists>c2 d2. serve_one f (c, d) = (c2, d2) \<and> rings_ok reg_corb_rp reg_rirb_wp 0 (c2, d2) \<and> has_received 0 c2 (rs @ [f v]) (sem + 1) \<and>
    pending (reg_corb_rp d2) c2 = ps \<and> (\<forall>s. served ring_bus reg_corb_rp reg_rirb_wp f 0 (c2, d2) s \<longrightarrow> served ring_bus reg_corb_rp reg_rirb_wp f 0 (c, d) s)"
proof -
  let ?es = "[(f v, 0)] :: (32 word \<times> 32 word) list"
  define d' where "d' = d\<lparr>reg_corb_rp := (reg_corb_rp d + 1) mod corb_length c, reg_rirb_wp := (reg_rirb_wp d + 1) mod rirb_length c, reg_rirb_status := 1\<rparr>"
  have e: "length ?es < rirb_length c" "answers 0 ?es = map f (take 1 (pending (reg_corb_rp d) c))" "1 \<le> length (pending (reg_corb_rp d) c)"
    using assms(1,4) by (auto simp: rings_ok_def answers_def solicited_def)
  have d': "reg_corb_rp d' = (reg_corb_rp d + 1) mod corb_length c" "reg_rirb_wp d' = (reg_rirb_wp d + length ?es) mod rirb_length c"
      "fst (bus_read8 ring_bus HDAC_RIRB_STATUS d') AND RIRB_STATUS_RESPONSE \<noteq> 0"
    by (simp_all add: d'_def ring_bus_def RIRB_STATUS_RESPONSE_def)
  obtain w c2 d2 where i: "controller_interrupt ring_bus (put_responses (reg_rirb_wp d) ?es c) d' = Some (w, c2, d2)"
    using ring_regs.interrupt_ends [OF assms(1) e(1) d'(2,3)] by blast
  have "serve_one f (c, d) = (c2, d2)"
    using i assms(4) unfolding d'_def by (simp add: serve_one_def)
  then show ?thesis
    using ring_regs.burst_received [OF assms(1-3) e(1,3,2) d' i] assms(4) served.Burst [OF e(1,3,2) d' i] by auto
qed

lemma serve_all_serves: "serves ring_bus reg_corb_rp reg_rirb_wp f 0 (serve_all f)"
proof -
  have "served ring_bus reg_corb_rp reg_rirb_wp f 0 s ((serve_one f ^^ length ps) s) \<and>
      pending (reg_corb_rp (snd ((serve_one f ^^ length ps) s))) (fst ((serve_one f ^^ length ps) s)) = []"
    if "pending (reg_corb_rp (snd s)) (fst s) = ps" "rings_ok reg_corb_rp reg_rirb_wp 0 s" "has_received 0 (fst s) rs sem" "length rs + length ps \<le> MAX_CODEC_RESPONSES"
    for s ps rs sem
    using that
  proof (induction ps arbitrary: s rs sem)
    case (Cons v ps)
    obtain c d where s: "s = (c, d)"
      by fastforce
    obtain c2 d2 where one: "serve_one f (c, d) = (c2, d2)" "rings_ok reg_corb_rp reg_rirb_wp 0 (c2, d2)" "has_received 0 c2 (rs @ [f v]) (sem + 1)"
        "pending (reg_corb_rp d2) c2 = ps" "\<And>s. served ring_bus reg_corb_rp reg_rirb_wp f 0 (c2, d2) s \<Longrightarrow> served ring_bus reg_corb_rp reg_rirb_wp f 0 (c, d) s"
      using serve_one_burst [of c d rs sem v ps f] Cons.prems unfolding s by auto
    then show ?case
      using Cons.IH [of "(c2, d2)" "rs @ [f v]" "sem + 1"] Cons.prems(4) by (simp add: s funpow_swap1)
  qed (simp add: served.Rest)
  moreover have "has_received 0 (fst s) (received (mailbox (fst s) 0)) (response_sem (mailbox (fst s) 0)) \<and>
      length (received (mailbox (fst s) 0)) = response_count (mailbox (fst s) 0)" if "rings_ok reg_corb_rp reg_rirb_wp 0 s" for s
    using that by (auto simp: rings_ok_def has_received_def mailbox_def mailbox_ok_def received_def)
  ultimately show ?thesis
    unfolding serves_def serve_all_def by metis
qed

text \<open>A codec that answers with its verb plus one, and rings of two elements.\<close>

definition fresh_mailbox :: hda_mailbox where
  "fresh_mailbox = \<lparr>responses = replicate 16 0, response_count = 0, response_sem = 0, unsol_responses = replicate 16 0, unsol_response_read = 0,
     unsol_response_write = 0, unsol_response_sem = 0\<rparr>"

definition small_rings :: "nat \<Rightarrow> hda_controller \<times> ring_regs" where
  "small_rings n = (\<lparr>num_input_streams = 1, num_output_streams = 1, num_bidir_streams = 0, is_64_bit = False, corb_length = n, rirb_length = 2,
     rirb_read_pos = 1, corb_write_pos = 0, corb = replicate n 0, rirb = replicate 2 (0, 0), codecs = Some fresh_mailbox # replicate 15 None\<rparr>,
     \<lparr>reg_corb_rp = 0, reg_rirb_wp = 0, reg_rirb_status = 0\<rparr>)"

lemma small_rings_idle: "2 \<le> n \<Longrightarrow> n \<le> 256 \<Longrightarrow> idle reg_corb_rp reg_rirb_wp 0 (small_rings n)"
  by (simp add: idle_def rings_ok_def corb_ok_def small_rings_def fresh_mailbox_def mailbox_ok_def MAX_CODEC_RESPONSES_def pending_def ring_span_def mailbox_def)

theorem verbs_answered_witness:
  "\<exists>s'. hda_send_verbs 3 ring_bus (serve_all (\<lambda>v. v + 1)) 0 [5, 6, 7] (small_rings 2) = Some ((B_OK, [6, 7, 8]), s') \<and> idle reg_corb_rp reg_rirb_wp 0 s'"
  using verbs_answered [OF ring_regs.ring_device_axioms serve_all_serves small_rings_idle, of 2 "[5, 6, 7]" 3 "\<lambda>v. v + 1"]
  by (simp add: MAX_CODEC_RESPONSES_def)

theorem late_response_shifts_witness:
  "\<exists>s1 s2 s3. hda_send_verbs 1 ring_bus (\<lambda>s. s) 0 [5] (small_rings 4) = Some ((B_TIMED_OUT, []), s1) \<and>
    hda_send_verbs 1 ring_bus (serve_all (\<lambda>v. v + 1)) 0 [10] s1 = Some ((B_OK, [6]), s2) \<and>
    hda_send_verbs 1 ring_bus (serve_all (\<lambda>v. v + 1)) 0 [20] s2 = Some ((B_OK, [6]), s3)"
  using late_response_shifts [OF ring_regs.ring_device_axioms serve_all_serves small_rings_idle [of 4], where n = 1 and ?v1.0 = 5 and ?v2.0 = 10 and ?v3.0 = 20,
      where f = "\<lambda>v. v + 1"]
  by (simp add: small_rings_def)

end
