(* ===== verification/Spec2Isabelle.thy ===== *)
theory Spec2Isabelle
  imports Mpeg2_Macroblocks Media_Pipeline Dp_Sink Port_Detect TigerLake_Pll Hda_Controller
begin

text \<open>
  \<^bold>\<open>The program.\<close> The repository holds the graphics and audio drivers of a laptop with a generation 5
  Intel GPU under Haiku. The core is the accelerant \<open>src/intel_extreme/accelerant\<close>: it submits commands to the GPU
  through a ring buffer or through the kernel's batches, keeps buffer objects in the graphics memory, draws with
  the 2D engine, dispatches EU kernels through the media pipeline, and decodes MPEG-2 video on the CPU up to the
  coefficient blocks that such kernels transform.

  \<^bold>\<open>How the parts interact.\<close> A caller of the drawing hooks (\<open>engine.cpp\<close>) writes 2D commands (\<open>commands.h\<close>) either
  into the primary ring through \<open>QueueCommands\<close> or into one of the two batches of \<open>gem2d.cpp\<close>. The media pipeline
  (\<open>media_pipeline.cpp\<close>) allocates its objects through \<open>gpu_bo.cpp\<close>, writes state into them, assembles its command
  sequence in a \<open>batch_writer\<close> with the emitters (\<open>gen_ops.h\<close>, \<open>gen5_ops.cpp\<close> to \<open>gen7_ops.cpp\<close>) and submits it through
  \<open>QueueCommands\<close> or, for clones, through \<open>gpu_ring.cpp\<close>. The MPEG-2 parser (\<open>mpeg2_parser.cpp\<close>) is a component of its
  own, called by the player and the plugin.

  \<^bold>\<open>Theories.\<close>
  \<^item> \<open>Vaio_Prelude\<close>: status codes, the C integer conversions, bit strings, windows of a buffer.
  \<^item> \<open>Mpeg2_Bits\<close>, \<open>Mpeg2_Headers\<close>, \<open>Mpeg2_Vlc\<close>, \<open>Mpeg2_Blocks\<close>, \<open>Mpeg2_Macroblocks\<close>: \<open>mpeg2_parser.cpp\<close> from the bit
    reader up to the macroblock decoders, in the order of the source. Each layer has an encoder as its
    specification, and the decoder is shown to invert it where the source does (and shown not to, where
    a table hides a code); the soundness lemmas hold on every stream.
  \<^item> \<open>Gpu_Ring\<close>: \<open>gpu_ring.cpp\<close>. What a submission writes, that it returns, and what it leaves alone.
  \<^item> \<open>Gen_Ops\<close>: the batch writer and the command emitters of the generations, with the rule by which a command
    streamer cuts a stream into commands as specification.
  \<^item> \<open>Gpu_Bo\<close>: \<open>gpu_bo.cpp\<close> and the decoding parts of \<open>gpu_debug.cpp\<close>; the live table refines a finite set, checked
    accesses read back.
  \<^item> \<open>Gem2d\<close>: \<open>gem2d.cpp\<close>; blocks of commands reach the kernel whole and in order.
  \<^item> \<open>Engine_Queue\<close>, \<open>Xy_Commands\<close>, \<open>Engine\<close>: \<open>engine.cpp\<close> and \<open>commands.h\<close>; the two paths of \<open>Put\<close>, reservations
    against the HEAD register, the drawing operations over either path.
  \<^item> \<open>Media_Pipeline\<close>: \<open>media_pipeline.cpp\<close> and \<open>media_pipeline.h\<close>; contexts, state objects, the command sequences
    and their way into the ring.

  \<^bold>\<open>Conventions.\<close> A C structure is a record, an enumeration a datatype; an operation takes the state and returns
  it with the \<open>status_t\<close>. Command dwords are 32 bit words; positions and sizes that index lists are naturals with
  the conversion to \<open>uint32\<close> written out (\<open>u32\<close>, \<open>minus32\<close>). Registers, the clock and the answers of the kernel
  are arguments: a waiting loop consumes a sequence of polls from an index on, an ioctl is a function from its
  arguments to its status. A loop whose end depends on those is a \<open>while_option\<close> with \<open>None\<close> for not returning; no
  fuel is used, and the theorems that a call returns (\<open>gpu_ring_submit_returns\<close>, \<open>address_increment_total\<close>,
  \<open>intra_macroblock_sound\<close> and its companions) say under which clock or for every stream. The bounds assumed are
  those of the source: a ring of \<open>2 ^ k\<close> bytes, streams below 2^28 bytes (above, the bit offsets wrap), a
  batch writer of 32768 dwords, a table of 32 live objects.

  \<^bold>\<open>Interfaces.\<close> The locales state what one component relies on: \<open>bit_reader\<close> (the decoders on the reader),
  \<open>vlc_code\<close> and \<open>vlc_reader\<close> (a decoder on its table), \<open>word_store\<close> (users of buffer objects on checked accesses),
  \<open>dword_sink\<close> (writers of commands on a growing buffer), and the table of emitters on its generation. Each is
  interpreted on the definitions of the source in the theory that provides them.

  \<^bold>\<open>Not modelled.\<close> Logging, cache flushes, locks and delays, which have no state of their own. The register
  programming of the display (ports, pipes, panel fitter, FDI, clocks), the 3D render engine, the self tests and
  the GEMV, block and motion compensation drivers of \<open>media_pipeline.cpp\<close>, the EDID and I2C code, the GPU server, the
  HDA driver and the media plugin are left for later. The EU assembler is a port of a tool with generated
  parsers, the kernels are assembly: binaries are byte lists given as arguments.
\<close>

end
